(* ===== verification/Prelude.thy ===== *)
theory Prelude
  imports Complex_Main "HOL-Library.List_Lexorder" "HOL-Library.Char_ord"
begin

text \<open>
  What every component shares: the result type of a fallible Go function, the
  collection of introduction rules the invariant proofs draw on,
  Go maps as association lists in iteration order, and generic lemmas on lists,
  options and stable insertion.

  Strings are byte strings (\<^typ>\<open>string\<close>), compared byte-wise as Go compares them:
  the orders of HOL-Library.List\_Lexorder and HOL-Library.Char\_ord are that order, so
  the library's \<^const>\<open>sort\<close> and \<^const>\<open>sort_key\<close> are \<open>sort.Strings\<close> and the stable
  sorts of the code.
\<close>

section \<open>Results and invariants\<close>

type_synonym ('e, 'a) outcome = "'e + 'a"

named_theorems inv_intros \<open>preservation of the component invariants\<close>

abbreviation is_ok :: "('e, 'a) outcome \<Rightarrow> bool" where
  "is_ok r \<equiv> (case r of Inl _ \<Rightarrow> False | Inr _ \<Rightarrow> True)"

lemma is_ok_iff: "is_ok r \<longleftrightarrow> (\<exists>x. r = Inr x)"
  by (cases r) auto

section \<open>Go maps\<close>

text \<open>
  A Go map that the code ranges over is the list of its entries, keys distinct. Go
  leaves the iteration order open, so a function that ranges over a map takes the order
  as an argument: a permutation of the keys (\<open>iter_order\<close>). Lookup is \<^const>\<open>map_of\<close>.
  Maps that are only looked up and updated are plain partial functions.
\<close>

type_synonym ('k, 'v) gomap = "('k \<times> 'v) list"

definition gomap_ok :: "('k, 'v) gomap \<Rightarrow> bool" where
  "gomap_ok m \<longleftrightarrow> distinct (map fst m)"

definition iter_order :: "('k, 'v) gomap \<Rightarrow> 'k list \<Rightarrow> bool" where
  "iter_order m ks \<longleftrightarrow> distinct ks \<and> set ks = fst ` set m"

lemma iter_order_self: "gomap_ok m \<Longrightarrow> iter_order m (map fst m)"
  by (simp add: gomap_ok_def iter_order_def)

lemma iter_order_mem: "iter_order m ks \<Longrightarrow> k \<in> set ks \<longleftrightarrow> (\<exists>v. map_of m k = Some v)"
  by (metis dom_map_of_conv_image_fst domD domI iter_order_def)

lemma iter_order_finite_dom: "iter_order m ks \<Longrightarrow> dom (map_of m) = set ks"
  by (simp add: iter_order_def dom_map_of_conv_image_fst)

section \<open>Loops that collect findings\<close>

lemma concat_if_Nil [simp]: "concat (map (\<lambda>x. if P x then [f x] else []) xs) = [] \<longleftrightarrow> (\<forall>x\<in>set xs. \<not> P x)"
  by (induction xs) auto

lemma concat_case_Nil: "concat (map f xs) = [] \<longleftrightarrow> (\<forall>x\<in>set xs. f x = [])"
  by (induction xs) auto

section \<open>Appending without repetition\<close>

text \<open>Several packages carry a private copy of this helper; \<open>appendUnique\<close> in the evidence package.\<close>

definition append_unique :: "'a list \<Rightarrow> 'a \<Rightarrow> 'a list" where
  "append_unique xs x = (if x \<in> set xs then xs else xs @ [x])"

lemma set_append_unique [simp]: "set (append_unique xs x) = insert x (set xs)"
  by (auto simp: append_unique_def)

lemma distinct_append_unique [simp]: "distinct (append_unique xs x) = distinct xs"
  by (auto simp: append_unique_def)

section \<open>First occurrences\<close>

text \<open>
  Keeping the first element of each key, in order: the pattern of every
  \<open>seen\<close>-map loop of the code. \<open>keep_first key ok seen xs\<close> drops an element that fails
  \<open>ok\<close> or whose key was seen.
\<close>

fun keep_first :: "('a \<Rightarrow> 'k) \<Rightarrow> ('a \<Rightarrow> bool) \<Rightarrow> 'k list \<Rightarrow> 'a list \<Rightarrow> 'a list" where
  "keep_first key ok seen [] = []"
| "keep_first key ok seen (x # xs) =
     (if \<not> ok x \<or> key x \<in> set seen then keep_first key ok seen xs
      else x # keep_first key ok (key x # seen) xs)"

lemma keep_first_subset: "set (keep_first key ok seen xs) \<subseteq> {x \<in> set xs. ok x \<and> key x \<notin> set seen}"
proof (induction xs arbitrary: seen)
  case (Cons x xs)
  from Cons[of seen] Cons[of "key x # seen"] show ?case by auto
qed simp

lemma keep_first_keys:
  "key ` set (keep_first key ok seen xs) = key ` {x \<in> set xs. ok x} - set seen"
proof (induction xs arbitrary: seen)
  case (Cons x xs)
  have "{y \<in> set (x # xs). ok y} = (if ok x then insert x {y \<in> set xs. ok y} else {y \<in> set xs. ok y})"
    by auto
  then show ?case using Cons[of seen] Cons[of "key x # seen"] by auto
qed simp

lemma keep_first_distinct: "distinct (map key (keep_first key ok seen xs))"
proof (induction xs arbitrary: seen)
  case (Cons x xs)
  have "key x \<notin> key ` set (keep_first key ok (key x # seen) xs)"
    by (simp only: keep_first_keys) simp
  with Cons[of seen] Cons[of "key x # seen"] show ?case by simp
qed simp

lemma keep_first_idem:
  "set (map key xs) \<inter> set seen = {} \<Longrightarrow> distinct (map key xs) \<Longrightarrow> \<forall>x \<in> set xs. ok x
   \<Longrightarrow> keep_first key ok seen xs = xs"
proof (induction xs arbitrary: seen)
  case (Cons x xs)
  have "set (map key xs) \<inter> set (key x # seen) = {}" using Cons.prems by auto
  from Cons.IH[OF this] Cons.prems show ?case by auto
qed simp

section \<open>Sorting\<close>

lemma mset_sort_key_set [simp]: "set (sort_key f xs) = set xs"
  by simp

lemma distinct_map_sort_key [simp]: "distinct (map g (sort_key f xs)) = distinct (map g xs)"
  by (simp add: distinct_map)

section \<open>Updating the first match\<close>

text \<open>The loop \<open>for i := range xs { if p(xs[i]) { xs[i] = f(xs[i]); return } }\<close>; \<open>None\<close> when nothing matches.\<close>

fun update_first :: "('a \<Rightarrow> bool) \<Rightarrow> ('a \<Rightarrow> 'a) \<Rightarrow> 'a list \<Rightarrow> 'a list option" where
  "update_first p f [] = None"
| "update_first p f (x # xs) =
     (if p x then Some (f x # xs) else map_option ((#) x) (update_first p f xs))"

lemma update_first_None [simp]: "update_first p f xs = None \<longleftrightarrow> (\<forall>x\<in>set xs. \<not> p x)"
  by (induction xs) auto

lemma update_first_map:
  "update_first p f xs = Some ys \<Longrightarrow> (\<And>x. p x \<Longrightarrow> g (f x) = g x) \<Longrightarrow> map g ys = map g xs"
  by (induction xs arbitrary: ys) (auto split: if_splits)

lemma update_first_split:
  "update_first p f xs = Some ys \<Longrightarrow>
     \<exists>as x bs. xs = as @ x # bs \<and> p x \<and> (\<forall>a\<in>set as. \<not> p a) \<and> ys = as @ f x # bs"
proof (induction xs arbitrary: ys)
  case (Cons x xs)
  show ?case
  proof (cases "p x")
    case True
    with Cons.prems show ?thesis by (intro exI[of _ "[]"]) auto
  next
    case False
    with Cons.prems obtain zs where zs: "update_first p f xs = Some zs" "ys = x # zs" by auto
    from Cons.IH[OF zs(1)] obtain as y bs where
      "xs = as @ y # bs" "p y" "\<forall>a\<in>set as. \<not> p a" "zs = as @ f y # bs" by blast
    with zs(2) False show ?thesis by (intro exI[of _ "x # as"]) auto
  qed
qed simp

lemma map_of_change_middle:
  "k \<notin> fst ` set as \<Longrightarrow> map_of (as @ (k, v) # bs) = (map_of (as @ (k, w) # bs))(k \<mapsto> v)"
  by (induction as) auto

end
