(* ===== verification/GoStrings.thy ===== *)
theory GoStrings
  imports Prelude "HOL-Library.Sublist"
begin

text \<open>
  The part of Go's \<open>strings\<close>, \<open>strconv\<close> and \<open>fmt\<close> packages the modelled code calls, on
  byte strings. \<open>TrimSpace\<close> knows the Unicode white space in its UTF-8 encoding. Case
  mapping (\<open>ToUpper\<close>, \<open>ToLower\<close>, \<open>EqualFold\<close>) is the ASCII one: bytes of other code
  points are left alone. \<open>fmt.Sprint\<close> of a decoded JSON value is \<open>sprint\<close>; the text
  of a non-integral number is its argument, because only that depends on the shortest
  decimal that reads back as the same float.
\<close>

section \<open>Prefixes, suffixes, search\<close>

definition has_prefix :: "string \<Rightarrow> string \<Rightarrow> bool" where
  "has_prefix s p \<longleftrightarrow> prefix p s"

definition has_suffix :: "string \<Rightarrow> string \<Rightarrow> bool" where
  "has_suffix s p \<longleftrightarrow> suffix p s"

fun index_of :: "string \<Rightarrow> string \<Rightarrow> nat option" where
  "index_of [] sub = (if sub = [] then Some 0 else None)"
| "index_of (c # s) sub =
     (if prefix sub (c # s) then Some 0 else map_option Suc (index_of s sub))"

definition contains_str :: "string \<Rightarrow> string \<Rightarrow> bool" where
  "contains_str s sub \<longleftrightarrow> index_of s sub \<noteq> None"

lemma index_of_Some:
  "index_of s sub = Some i \<Longrightarrow> i + length sub \<le> length s \<and> take (length sub) (drop i s) = sub"
proof (induction s arbitrary: i)
  case Nil
  then show ?case by (auto split: if_splits)
next
  case (Cons c s)
  show ?case
  proof (cases "prefix sub (c # s)")
    case True
    then have "length sub \<le> length (c # s)" by (rule prefix_length_le)
    with True Cons.prems show ?thesis by (auto simp: prefix_def)
  next
    case False
    with Cons.prems obtain j where "index_of s sub = Some j" "i = Suc j" by auto
    with Cons.IH[of j] show ?thesis by simp
  qed
qed

lemma index_of_None: "index_of s sub = None \<longleftrightarrow> (\<forall>a b. s \<noteq> a @ sub @ b)"
proof (induction s)
  case Nil
  then show ?case by auto
next
  case (Cons c s)
  show ?case
  proof (cases "prefix sub (c # s)")
    case True
    then obtain b where "c # s = [] @ sub @ b" by (auto simp: prefix_def)
    with True show ?thesis by (metis index_of.simps(2) option.distinct(1))
  next
    case False
    then have "(\<forall>a b. c # s \<noteq> a @ sub @ b) \<longleftrightarrow> (\<forall>a b. s \<noteq> a @ sub @ b)"
      by (metis append_Cons append_Nil hd_append2 list.inject neq_Nil_conv prefixI)
    with False Cons.IH show ?thesis by simp
  qed
qed

lemma contains_str_iff: "contains_str s sub \<longleftrightarrow> sublist sub s"
  by (auto simp: contains_str_def index_of_None sublist_def)

section \<open>White space and trimming\<close>

text \<open>
  Each white space code point as UTF-8 bytes: the ASCII ones, U+0085, U+00A0, U+1680,
  U+2000 to U+200A, U+2028, U+2029, U+202F, U+205F, U+3000.
\<close>

definition bytes :: "nat list \<Rightarrow> string" where
  "bytes = map char_of"

definition go_spaces :: "string list" where
  "go_spaces = map (\<lambda>n. bytes [n]) [9, 10, 11, 12, 13, 32]
     @ [bytes [0xC2, 0x85], bytes [0xC2, 0xA0], bytes [0xE1, 0x9A, 0x80]]
     @ map (\<lambda>n. bytes [0xE2, 0x80, n]) ([0x80 ..< 0x8B] @ [0xA8, 0xA9, 0xAF])
     @ [bytes [0xE2, 0x81, 0x9F], bytes [0xE3, 0x80, 0x80]]"

definition lead_space :: "string \<Rightarrow> string option" where
  "lead_space s = find (\<lambda>w. prefix w s) go_spaces"

definition last_space :: "string \<Rightarrow> string option" where
  "last_space s = find (\<lambda>w. suffix w s) go_spaces"

lemma go_spaces_nonempty: "w \<in> set go_spaces \<Longrightarrow> w \<noteq> []"
  by (auto simp: go_spaces_def bytes_def)

lemma find_mem: "find P xs = Some x \<Longrightarrow> x \<in> set xs \<and> P x"
  by (metis find_Some_iff nth_mem)

lemma lead_space_dec: "lead_space s = Some w \<Longrightarrow> w \<noteq> [] \<and> length w \<le> length s \<and> s \<noteq> []"
  unfolding lead_space_def by (drule find_mem) (auto dest: go_spaces_nonempty prefix_length_le)

lemma last_space_dec: "last_space s = Some w \<Longrightarrow> w \<noteq> [] \<and> length w \<le> length s \<and> s \<noteq> []"
  unfolding last_space_def by (drule find_mem) (auto dest: go_spaces_nonempty suffix_length_le)

function trim_left :: "string \<Rightarrow> string" where
  "trim_left s = (case lead_space s of None \<Rightarrow> s | Some w \<Rightarrow> trim_left (drop (length w) s))"
  by pat_completeness auto
termination by (relation "measure length") (auto dest!: lead_space_dec)

function trim_right :: "string \<Rightarrow> string" where
  "trim_right s =
     (case last_space s of None \<Rightarrow> s | Some w \<Rightarrow> trim_right (take (length s - length w) s))"
  by pat_completeness auto
termination by (relation "measure length") (auto dest!: last_space_dec)

declare trim_left.simps [simp del] trim_right.simps [simp del]

definition trim_space :: "string \<Rightarrow> string" where
  "trim_space s = trim_right (trim_left s)"

definition blank :: "string \<Rightarrow> bool" where
  "blank s \<longleftrightarrow> trim_space s = []"

lemma trim_left_no_lead: "lead_space (trim_left s) = None"
  by (induction s rule: trim_left.induct) (subst trim_left.simps, auto split: option.split)

lemma trim_right_no_last: "last_space (trim_right s) = None"
  by (induction s rule: trim_right.induct) (subst trim_right.simps, auto split: option.split)

lemma trim_right_prefix: "prefix (trim_right s) s"
proof (induction s rule: trim_right.induct)
  case (1 s)
  then show ?case
    by (subst trim_right.simps) (auto split: option.split intro: prefix_order.trans take_is_prefix)
qed

lemma lead_space_prefix_None: "lead_space s = None \<Longrightarrow> prefix t s \<Longrightarrow> lead_space t = None"
  by (auto simp: lead_space_def find_None_iff dest: prefix_order.trans)

lemma trim_left_fix: "lead_space s = None \<Longrightarrow> trim_left s = s"
  by (subst trim_left.simps) simp

lemma trim_right_fix: "last_space s = None \<Longrightarrow> trim_right s = s"
  by (subst trim_right.simps) simp

lemma trim_space_idem [simp]: "trim_space (trim_space s) = trim_space s"
  unfolding trim_space_def
  by (metis lead_space_prefix_None trim_left_fix trim_left_no_lead trim_right_fix
      trim_right_no_last trim_right_prefix)

lemma lead_space_Nil [simp]: "lead_space [] = None"
  by (auto simp: lead_space_def find_None_iff dest: go_spaces_nonempty)

lemma last_space_Nil [simp]: "last_space [] = None"
  by (auto simp: last_space_def find_None_iff dest: go_spaces_nonempty)

lemma trim_space_Nil [simp]: "trim_space [] = []"
  by (simp add: trim_space_def trim_left_fix trim_right_fix)

lemma blank_Nil [simp]: "blank []"
  by (simp add: blank_def)

lemma nonblank_nonempty: "\<not> blank s \<Longrightarrow> s \<noteq> []"
  by auto

text \<open>A byte that is neither white space nor inside the encoding of one is never trimmed.\<close>

definition plain_char :: "char \<Rightarrow> bool" where
  "plain_char c \<longleftrightarrow> (33 \<le> (of_char c :: nat) \<and> (of_char c :: nat) < 128)"

lemma go_spaces_hd: "w \<in> set go_spaces \<Longrightarrow> \<not> plain_char (hd w) \<and> \<not> plain_char (last w)"
  by (auto simp: go_spaces_def bytes_def plain_char_def of_char_of take_bit_eq_mod)

lemma lead_space_plain: "plain_char c \<Longrightarrow> lead_space (c # s) = None"
  unfolding lead_space_def find_None_iff
  by (metis go_spaces_hd go_spaces_nonempty hd_append2 list.sel(1) prefix_def)

lemma last_space_plain: "plain_char c \<Longrightarrow> last_space (s @ [c]) = None"
  unfolding last_space_def find_None_iff
  by (metis append_butlast_last_id go_spaces_hd go_spaces_nonempty last_appendR last_snoc suffix_def)

lemma trim_space_plain:
  "plain_char c \<Longrightarrow> plain_char d \<Longrightarrow> trim_space (c # s @ [d]) = c # s @ [d]"
  using last_space_plain[of d "c # s"]
  by (simp add: trim_space_def trim_left_fix lead_space_plain trim_right_fix)

lemma trim_space_plain1: "plain_char c \<Longrightarrow> trim_space [c] = [c]"
  using last_space_plain[of c "[]"]
  by (simp add: trim_space_def trim_left_fix lead_space_plain trim_right_fix)

lemma trim_space_ends:
  "s \<noteq> [] \<Longrightarrow> plain_char (hd s) \<Longrightarrow> plain_char (last s) \<Longrightarrow> trim_space s = s"
proof -
  assume s: "s \<noteq> []" "plain_char (hd s)" "plain_char (last s)"
  then obtain c t where t: "s = c # t" by (cases s) auto
  show ?thesis
  proof (cases t rule: rev_cases)
    case Nil
    with s t show ?thesis by (simp add: trim_space_plain1)
  next
    case (snoc u d)
    with s t show ?thesis using trim_space_plain[of c d u] by simp
  qed
qed

lemma trim_right_plain: "plain_char c \<Longrightarrow> trim_right (c # s) \<noteq> []"
proof (induction "c # s" arbitrary: s rule: trim_right.induct)
  case 1
  show ?case
  proof (cases "last_space (c # s)")
    case None
    then show ?thesis by (simp add: trim_right_fix)
  next
    case (Some w)
    then have w: "w \<in> set go_spaces" "suffix w (c # s)" unfolding last_space_def by (auto dest: find_mem)
    with 1(2) have "w \<noteq> c # s" by (metis go_spaces_hd list.sel(1))
    with w(2) have "length w \<le> length s" by (auto simp: suffix_Cons dest: suffix_length_le)
    then have "take (length (c # s) - length w) (c # s) = c # take (length s - length w) s"
      by (simp add: Suc_diff_le)
    with 1(1)[OF Some _ 1(2)] Some show ?thesis by (subst trim_right.simps) simp
  qed
qed

lemma blank_plain: "plain_char c \<Longrightarrow> \<not> blank (c # s)"
  by (simp add: blank_def trim_space_def trim_left_fix lead_space_plain trim_right_plain)

section \<open>Case\<close>

definition upper_char :: "char \<Rightarrow> char" where
  "upper_char c = (let n = (of_char c :: nat) in if 97 \<le> n \<and> n \<le> 122 then char_of (n - 32) else c)"

definition lower_char :: "char \<Rightarrow> char" where
  "lower_char c = (let n = (of_char c :: nat) in if 65 \<le> n \<and> n \<le> 90 then char_of (n + 32) else c)"

definition to_upper :: "string \<Rightarrow> string" where
  "to_upper = map upper_char"

definition to_lower :: "string \<Rightarrow> string" where
  "to_lower = map lower_char"

definition equal_fold :: "string \<Rightarrow> string \<Rightarrow> bool" where
  "equal_fold a b \<longleftrightarrow> to_lower a = to_lower b"

lemma upper_char_idem [simp]: "upper_char (upper_char c) = upper_char c"
  by (auto simp: upper_char_def Let_def of_char_of take_bit_eq_mod)

lemma to_upper_idem [simp]: "to_upper (to_upper s) = to_upper s"
  by (simp add: to_upper_def)

lemma equal_fold_refl [simp]: "equal_fold s s"
  by (simp add: equal_fold_def)

section \<open>Splitting and joining\<close>

fun split_on :: "char \<Rightarrow> string \<Rightarrow> string list" where
  "split_on d [] = [[]]"
| "split_on d (c # s) =
     (if c = d then [] # split_on d s
      else case split_on d s of [] \<Rightarrow> [[c]] | w # ws \<Rightarrow> (c # w) # ws)"

fun join :: "string \<Rightarrow> string list \<Rightarrow> string" where
  "join sep [] = []"
| "join sep [w] = w"
| "join sep (w # v # ws) = w @ sep @ join sep (v # ws)"

lemma split_on_nonempty [simp]: "split_on d s \<noteq> []"
  by (induction d s rule: split_on.induct) (auto split: list.split)

lemma join_Cons: "ws \<noteq> [] \<Longrightarrow> join sep (w # ws) = w @ sep @ join sep ws"
  by (cases ws) auto

lemma join_split_on: "join [d] (split_on d s) = s"
proof (induction s)
  case (Cons c s)
  obtain w ws where ws: "split_on d s = w # ws" by (cases "split_on d s") auto
  with Cons show ?case by (cases ws) (auto simp: join_Cons)
qed simp

lemma split_on_no_sep: "w \<in> set (split_on d s) \<Longrightarrow> d \<notin> set w"
proof (induction s arbitrary: w)
  case (Cons c s)
  obtain v vs where "split_on d s = v # vs" by (cases "split_on d s") auto
  with Cons show ?case by (auto split: if_splits)
qed simp

lemma split_on_single: "d \<notin> set w \<Longrightarrow> split_on d w = [w]"
  by (induction w) auto

lemma split_on_append: "d \<notin> set w \<Longrightarrow> split_on d (w @ d # s) = w # split_on d s"
  by (induction w) auto

lemma split_on_join:
  "ws \<noteq> [] \<Longrightarrow> (\<And>w. w \<in> set ws \<Longrightarrow> d \<notin> set w) \<Longrightarrow> split_on d (join [d] ws) = ws"
proof (induction ws)
  case (Cons w ws)
  show ?case
  proof (cases ws)
    case Nil
    with Cons.prems show ?thesis by (simp add: split_on_single)
  next
    case (Cons v vs)
    with Cons.IH Cons.prems show ?thesis by (simp add: split_on_append)
  qed
qed simp

section \<open>Decimal numbers\<close>

definition digit_char :: "nat \<Rightarrow> char" where
  "digit_char d = char_of (48 + d)"

fun dec_nat :: "nat \<Rightarrow> string" where
  "dec_nat n = (if n < 10 then [digit_char n] else dec_nat (n div 10) @ [digit_char (n mod 10)])"

declare dec_nat.simps [simp del]

definition itoa :: "int \<Rightarrow> string" where
  "itoa i = (if i < 0 then CHR ''-'' # dec_nat (nat (- i)) else dec_nat (nat i))"

text \<open>\<open>%03d\<close>: at least three digits.\<close>

definition pad3 :: "int \<Rightarrow> string" where
  "pad3 i = (let s = itoa i in replicate (3 - length s) (CHR ''0'') @ s)"

definition undec :: "string \<Rightarrow> nat" where
  "undec s = foldl (\<lambda>a c. 10 * a + (of_char c - 48)) 0 s"

lemma undec_digit: "d < 10 \<Longrightarrow> of_char (digit_char d) - (48 :: nat) = d"
  by (simp add: digit_char_def of_char_of take_bit_eq_mod)

lemma undec_dec_nat [simp]: "undec (dec_nat n) = n"
proof (induction n rule: dec_nat.induct)
  case (1 n)
  show ?case
  proof (cases "n < 10")
    case True
    then show ?thesis by (subst dec_nat.simps) (simp add: undec_def undec_digit)
  next
    case False
    with 1 have "undec (dec_nat (n div 10)) = n div 10" by simp
    then have "foldl (\<lambda>a c. 10 * a + (of_char c - 48)) 0 (dec_nat (n div 10)) = n div 10"
      by (simp add: undec_def)
    with False show ?thesis by (subst dec_nat.simps) (simp add: undec_def undec_digit)
  qed
qed

lemma dec_nat_inj: "dec_nat m = dec_nat n \<longleftrightarrow> m = n"
  by (metis undec_dec_nat)

lemma dec_nat_digits: "c \<in> set (dec_nat n) \<Longrightarrow> 48 \<le> (of_char c :: nat) \<and> (of_char c :: nat) \<le> 57"
proof (induction n rule: dec_nat.induct)
  case (1 n)
  from 1 show ?case
    by (subst (asm) dec_nat.simps)
      (auto simp: digit_char_def of_char_of take_bit_eq_mod split: if_splits)
qed

lemma dec_nat_no_minus: "CHR ''-'' \<notin> set (dec_nat n)"
proof
  assume "CHR ''-'' \<in> set (dec_nat n)"
  from dec_nat_digits[OF this] show False by simp
qed

text \<open>
  \<open>%q\<close>: quotes and backslashes are escaped, control characters written as escapes; bytes of
  multi-byte characters stand as they are (they are printable in the texts the code quotes).
\<close>

definition hex_digit :: "nat \<Rightarrow> char" where
  "hex_digit n = (if n < 10 then char_of (48 + n) else char_of (87 + n))"

definition quote_char :: "char \<Rightarrow> string" where
  "quote_char c =
     (if c = CHR 0x22 \<or> c = CHR 0x5C then [CHR 0x5C, c]
      else if c = CHR 0x0A then [CHR 0x5C, CHR ''n'']
      else if c = CHR 0x09 then [CHR 0x5C, CHR ''t'']
      else if c = CHR 0x0D then [CHR 0x5C, CHR ''r'']
      else if c = CHR 0x07 then [CHR 0x5C, CHR ''a'']
      else if c = CHR 0x08 then [CHR 0x5C, CHR ''b'']
      else if c = CHR 0x0C then [CHR 0x5C, CHR ''f'']
      else if c = CHR 0x0B then [CHR 0x5C, CHR ''v'']
      else let n = of_char c :: nat in
        if n < 32 \<or> n = 127 then [CHR 0x5C, CHR ''x'', hex_digit (n div 16), hex_digit (n mod 16)] else [c])"

definition quoted :: "string \<Rightarrow> string" where
  "quoted s = CHR 0x22 # concat (map quote_char s) @ [CHR 0x22]"

section \<open>Decoded JSON values\<close>

datatype jval =
    JNull
  | JBool bool
  | JNum rat
  | JStr string
  | JArr "jval list"
  | JObj "(string \<times> jval) list"

text \<open>
  \<open>fmt.Sprint\<close>: a string is itself, \<open>nil\<close> is \<open><nil>\<close>, a list is bracketed and blank
  separated, a map lists its entries by key. \<open>num\<close> renders a number.
\<close>

fun sprint :: "(rat \<Rightarrow> string) \<Rightarrow> jval \<Rightarrow> string" where
  "sprint num JNull = ''<nil>''"
| "sprint num (JBool b) = (if b then ''true'' else ''false'')"
| "sprint num (JNum r) = num r"
| "sprint num (JStr s) = s"
| "sprint num (JArr vs) = ''['' @ join '' '' (map (sprint num) vs) @ '']''"
| "sprint num (JObj kvs) =
     ''map['' @ join '' '' (map (\<lambda>kv. fst kv @ '':'' @ snd kv)
       (sort_key fst (map (\<lambda>(k, v). (k, sprint num v)) kvs))) @ '']''"

text \<open>Reading an absent map key gives \<open>nil\<close>.\<close>

definition jget :: "(string \<rightharpoonup> jval) \<Rightarrow> string \<Rightarrow> jval" where
  "jget m k = (case m k of None \<Rightarrow> JNull | Some v \<Rightarrow> v)"

text \<open>Type assertions: \<open>v.(string)\<close> with the zero value on failure, and so on.\<close>

fun as_string :: "jval \<Rightarrow> string option" where
  "as_string (JStr s) = Some s"
| "as_string _ = None"

definition as_string0 :: "jval \<Rightarrow> string" where
  "as_string0 v = (case as_string v of None \<Rightarrow> [] | Some s \<Rightarrow> s)"

fun as_list :: "jval \<Rightarrow> jval list" where
  "as_list (JArr vs) = vs"
| "as_list _ = []"

fun as_obj :: "jval \<Rightarrow> (string \<times> jval) list option" where
  "as_obj (JObj kvs) = Some kvs"
| "as_obj _ = None"

definition jobj_get :: "(string \<times> jval) list \<Rightarrow> string \<Rightarrow> jval" where
  "jobj_get kvs k = jget (map_of kvs) k"

text \<open>Go's conversion of a float to an integer drops the fraction.\<close>

definition trunc_rat :: "rat \<Rightarrow> int" where
  "trunc_rat r = (if 0 \<le> r then \<lfloor>r\<rfloor> else \<lceil>r\<rceil>)"

lemma trunc_rat_of_int [simp]: "trunc_rat (of_int i) = i"
  by (simp add: trunc_rat_def)

end
