(* ===== verification/AgentTypes.thy ===== *)
theory AgentTypes
  imports GoStrings
begin

text \<open>
  \<open>internal/harness/agent/agent.go\<close>: the contracts the harness components exchange. A Go
  \<open>string\<close> type with named constants is a datatype with one more constructor for any
  other string where the code can meet one. Maps of JSON values are entry lists; a map
  that may be nil and is tested for it is an option. Go's \<open>int\<close> is \<^typ>\<open>int\<close>: no
  operation here comes near 64 bits. Costs are the rational a \<open>float64\<close> stands for.
\<close>

section \<open>Phases, roles, decisions, statuses\<close>

datatype Phase =
    PhasePrepare | PhaseCompileContext | PhaseRequestModel | PhaseConsumeModelEvent
  | PhasePlanToolCalls | PhasePermissionCheck | PhaseExecuteTool | PhaseRecordObservation
  | PhaseEvaluateStop | PhaseCheckpoint | PhaseYield | PhaseComplete | PhaseFailed
  | PhaseOther string

datatype Role = RoleSystem | RoleUser | RoleAgent | RoleTool | RoleApprover

datatype PermissionDecision = PermissionAllow | PermissionAsk | PermissionDeny | PermissionOther string

datatype EffectStatus = EffectPending | EffectApplied | EffectFailed | EffectRolledBack | EffectOther string

datatype ModelEventKind =
    EventTextDelta | EventReasoningDelta | EventToolCallDelta | EventToolCallReady
  | EventUsageUpdated | EventWarning | EventError | EventCompleted | EventCancelled

section \<open>Tool calls and their results\<close>

record ToolCall =
  tc_ID :: string
  tc_TurnID :: string
  tc_Name :: string
  tc_Arguments :: "(string \<times> jval) list option"
  tc_IdempotencyKey :: string

text \<open>Reading a key of the arguments: \<open>nil\<close> for an absent key and for a nil map.\<close>

definition tc_arg :: "ToolCall \<Rightarrow> string \<Rightarrow> jval" where
  "tc_arg tc k = (case tc_Arguments tc of None \<Rightarrow> JNull | Some kvs \<Rightarrow> jobj_get kvs k)"

record ToolResult =
  tr_ToolCallID :: string
  tr_ExitCode :: int
  tr_Output :: string
  tr_Truncated :: bool
  tr_ArtifactID :: string
  tr_Error :: string

definition tr_OK :: "ToolResult \<Rightarrow> bool" where
  "tr_OK r \<longleftrightarrow> tr_ExitCode r = 0 \<and> tr_Error r = []"

record Observation =
  ob_ID :: string
  ob_TurnID :: string
  ob_ToolCallID :: string
  ob_Content :: string
  ob_OK :: bool
  ob_Error :: string
  ob_ExitCode :: int
  ob_Truncated :: bool
  ob_CreatedAt :: string

section \<open>Messages and model requests\<close>

record ContentPart =
  pt_Type :: string
  pt_Text :: string
  pt_MimeType :: string
  pt_Data :: string
  pt_Path :: string

record Message =
  ms_ID :: string
  ms_TurnID :: string
  ms_Role :: Role
  ms_Content :: string
  ms_Parts :: "ContentPart list"
  ms_Metadata :: "(string \<times> jval) list"
  ms_CreatedAt :: string
  ms_ToolCallID :: string
  ms_ToolCalls :: "ToolCall list"

record ToolSpec =
  ts_Name :: string
  ts_Description :: string
  ts_Schema :: "(string \<times> jval) list"

record ModelRequest =
  mq_RequestID :: string
  mq_RunID :: string
  mq_TurnID :: string
  mq_Model :: string
  mq_Messages :: "Message list"
  mq_Tools :: "ToolSpec list"
  mq_ReasoningEffort :: string

record Usage =
  us_InputTokens :: int
  us_OutputTokens :: int
  us_CacheReadTokens :: int
  us_CacheWriteTokens :: int
  us_ReasoningTokens :: int
  us_CostUSD :: rat

definition TotalTokens :: "Usage \<Rightarrow> int" where
  "TotalTokens u = us_InputTokens u + us_OutputTokens u + us_CacheReadTokens u + us_CacheWriteTokens u"

record ModelEvent =
  me_Kind :: ModelEventKind
  me_RequestID :: string
  me_Text :: string
  me_ToolCall :: "ToolCall option"
  me_Usage :: "Usage option"
  me_Error :: string
  me_Retryable :: bool
  me_Finished :: bool

section \<open>Permissions\<close>

record PermissionRequest =
  pq_ID :: string
  pq_RunID :: string
  pq_TurnID :: string
  pq_Agent :: string
  pq_Action :: string
  pq_Resource :: string
  pq_ArgumentsSummary :: string
  pq_FilesystemScope :: "string list"
  pq_NetworkDests :: "string list"
  pq_CredentialScopes :: "string list"
  pq_DataClass :: string
  pq_Reversibility :: string
  pq_Risk :: string
  pq_CreatedAt :: string
  pq_Fingerprint :: string

record PermissionResolution =
  pr_RequestID :: string
  pr_Decision :: PermissionDecision
  pr_Reason :: string
  pr_Scope :: string
  pr_Constraints :: "string list"
  pr_Actor :: string
  pr_DecidedAt :: string
  pr_Fingerprint :: string

section \<open>Canonical state, checkpoints, effects, events\<close>

record NativeAgentState =
  st_RunID :: string
  st_SessionID :: string
  st_TurnID :: string
  st_Phase :: Phase
  st_Revision :: int
  st_EventSeq :: nat
  st_ContextManifestID :: string
  st_ModelRoute :: string
  st_PendingRequest :: "ModelRequest option"
  st_PendingTools :: "ToolCall list"
  st_PendingPerms :: "string list"
  st_StopReason :: string
  st_Budget :: "(string \<times> jval) list option"
  st_Messages :: "Message list"
  st_Goal :: string
  st_UpdatedAt :: string

record Checkpoint =
  cp_ID :: string
  cp_RunID :: string
  cp_State :: NativeAgentState
  cp_WorkspaceRev :: string
  cp_Messages :: "Message list"
  cp_ToolQ :: "ToolCall list"
  cp_Obs :: "Observation list"
  cp_AfterSideEffects :: bool
  cp_TurnsDone :: int
  cp_CreatedAt :: string

definition Resumable :: "Checkpoint \<Rightarrow> bool" where
  "Resumable cp \<longleftrightarrow> 0 < length (cp_Messages cp)"

record PendingEffect =
  fx_ID :: string
  fx_Kind :: string
  fx_Status :: "EffectStatus option"
  fx_IdempotencyKey :: string
  fx_Target :: string
  fx_ObservableEffect :: string
  fx_RecoveryPolicy :: string
  fx_CreatedAt :: string

record AgentEvent =
  ae_ID :: string
  ae_RunID :: string
  ae_TurnID :: string
  ae_Kind :: string
  ae_Payload :: "(string \<times> jval) list"
  ae_CreatedAt :: string

text \<open>
  Fields of \<open>ModelRequest\<close> the runner never sets (response format, token and temperature
  settings, metadata) are left out. An absent \<open>fx_Status\<close> is Go's empty string.
\<close>

end
