(* ===== verification/PermEngine.thy ===== *)
theory PermEngine
  imports AgentTypes
begin

text \<open>
  \<open>internal/harness/perm/perm.go\<close>: the deterministic permission engine. Its state is the
  policy, the append-only decision log and the index \<open>resolutions\<close> of the last decision
  per request id. \<open>hash\<close> stands for SHA-256 in hexadecimal and \<open>now\<close> for the clock; the
  lemmas hold for every such function, so none depends on collision freedom.
\<close>

section \<open>State\<close>

record Policy =
  po_DefaultAction :: "PermissionDecision option"
  po_DenyPrefixes :: "string list"
  po_AskKinds :: "string list"
  po_AllowActions :: "string list"

record Engine =
  en_Policy :: Policy
  en_Log :: "PermissionResolution list"
  en_resolutions :: "string \<rightharpoonup> PermissionResolution"

text \<open>\<open>po_DefaultAction = None\<close> is the empty string, which \<open>New\<close> replaces by \<open>ask\<close>.\<close>

definition engine_new :: "Policy \<Rightarrow> Engine" where
  "engine_new p =
     \<lparr>en_Policy = (if po_DefaultAction p = None then p\<lparr>po_DefaultAction := Some PermissionAsk\<rparr> else p),
      en_Log = [], en_resolutions = Map.empty\<rparr>"

section \<open>Fingerprints\<close>

definition nul :: string where
  "nul = [CHR 0x00]"

definition fingerprint_text :: "PermissionRequest \<Rightarrow> string" where
  "fingerprint_text req = join nul
     [''action='' @ pq_Action req,
      ''resource='' @ pq_Resource req,
      ''args='' @ pq_ArgumentsSummary req,
      ''fs='' @ join '','' (pq_FilesystemScope req),
      ''net='' @ join '','' (pq_NetworkDests req),
      ''cred='' @ join '','' (pq_CredentialScopes req),
      ''data='' @ pq_DataClass req,
      ''reversibility='' @ pq_Reversibility req]"

definition Fingerprint :: "(string \<Rightarrow> string) \<Rightarrow> PermissionRequest \<Rightarrow> string" where
  "Fingerprint hash req = hash (fingerprint_text req)"

section \<open>Operations\<close>

definition remember :: "Engine \<Rightarrow> PermissionResolution \<Rightarrow> Engine" where
  "remember e res = e\<lparr>en_resolutions := (en_resolutions e)(pr_RequestID res \<mapsto> res),
                      en_Log := en_Log e @ [res]\<rparr>"

text \<open>
  The policy part of \<open>Evaluate\<close>: each loop of the source in turn.
\<close>

definition allow_pass :: "Policy \<Rightarrow> PermissionRequest \<Rightarrow>
    PermissionDecision \<times> string \<Rightarrow> PermissionDecision \<times> string" where
  "allow_pass p req dr = fold (\<lambda>a dr. if a = pq_Action req
       then (PermissionAllow, ''explicit allow list'') else dr) (po_AllowActions p) dr"

definition deny_pass :: "Policy \<Rightarrow> PermissionRequest \<Rightarrow>
    PermissionDecision \<times> string \<Rightarrow> PermissionDecision \<times> string" where
  "deny_pass p req dr = fold (\<lambda>x dr. if x \<noteq> [] \<and> contains_str (pq_Resource req) x
       then (PermissionDeny, ''resource matches deny prefix '' @ quoted x) else dr)
     (po_DenyPrefixes p) dr"

definition ask_pass :: "Policy \<Rightarrow> string \<Rightarrow>
    PermissionDecision \<times> string \<Rightarrow> PermissionDecision \<times> string" where
  "ask_pass p kind dr = fold (\<lambda>k dr. if k = kind \<and> fst dr = PermissionAllow
       then (PermissionAsk, ''kind '' @ quoted kind @ '' requires approval'') else dr)
     (po_AskKinds p) dr"

definition destructive_pass :: "Policy \<Rightarrow> PermissionRequest \<Rightarrow> string \<Rightarrow>
    PermissionDecision \<times> string \<Rightarrow> PermissionDecision \<times> string" where
  "destructive_pass p req kind dr =
     (if kind = ''destructive'' \<and> fst dr = PermissionAllow then
        let listed = fold (\<lambda>a l. if a = pq_Action req then True else l) (po_AllowActions p) False
        in if \<not> listed then (PermissionAsk, ''destructive action requires approval'') else dr
      else dr)"

definition policy_decision :: "Policy \<Rightarrow> PermissionRequest \<Rightarrow> string \<Rightarrow> PermissionDecision \<times> string" where
  "policy_decision p req kind =
     destructive_pass p req kind (ask_pass p kind (deny_pass p req (allow_pass p req
       (case po_DefaultAction p of None \<Rightarrow> PermissionOther [] | Some d \<Rightarrow> d, ''default policy''))))"

definition Evaluate :: "(string \<Rightarrow> string) \<Rightarrow> string \<Rightarrow> Engine \<Rightarrow> PermissionRequest \<Rightarrow> string \<Rightarrow> string
    \<Rightarrow> Engine \<times> PermissionResolution" where
  "Evaluate hash now e req toolKind actor =
     (let fingerprint = Fingerprint hash req in
      case en_resolutions e (pq_ID req) of
        Some res \<Rightarrow>
          if pr_Fingerprint res = fingerprint then (e, res)
          else let (d, reason) = policy_decision (en_Policy e) req toolKind;
                   res' = \<lparr>pr_RequestID = pq_ID req, pr_Decision = d, pr_Reason = reason,
                     pr_Scope = ''once'', pr_Constraints = [], pr_Actor = actor,
                     pr_DecidedAt = now, pr_Fingerprint = fingerprint\<rparr>
               in (remember e res', res')
      | None \<Rightarrow>
          let (d, reason) = policy_decision (en_Policy e) req toolKind;
              res' = \<lparr>pr_RequestID = pq_ID req, pr_Decision = d, pr_Reason = reason,
                pr_Scope = ''once'', pr_Constraints = [], pr_Actor = actor,
                pr_DecidedAt = now, pr_Fingerprint = fingerprint\<rparr>
          in (remember e res', res'))"

definition engine_record :: "string \<Rightarrow> Engine \<Rightarrow> string \<Rightarrow> string \<Rightarrow> PermissionDecision \<Rightarrow> string \<Rightarrow> string
    \<Rightarrow> Engine \<times> PermissionResolution" where
  "engine_record now e reqID fingerprint d reason actor =
     (let res = \<lparr>pr_RequestID = reqID, pr_Decision = d, pr_Reason = reason, pr_Scope = ''once'',
                 pr_Constraints = [], pr_Actor = actor, pr_DecidedAt = now,
                 pr_Fingerprint = fingerprint\<rparr>
      in (remember e res, res))"

definition Approve :: "string \<Rightarrow> Engine \<Rightarrow> string \<Rightarrow> string \<Rightarrow> string
    \<Rightarrow> Engine \<times> (string, PermissionResolution) outcome" where
  "Approve now e reqID fingerprint actor =
     (if fingerprint = [] then
        (e, Inl ''approval requires the fingerprint of the request being approved'')
      else let (e', res) = engine_record now e reqID fingerprint PermissionAllow
                             (''approved by '' @ actor) actor
           in (e', Inr res))"

definition Deny :: "string \<Rightarrow> Engine \<Rightarrow> string \<Rightarrow> string \<Rightarrow> string \<Rightarrow> string
    \<Rightarrow> Engine \<times> (string, PermissionResolution) outcome" where
  "Deny now e reqID fingerprint actor reason =
     (if fingerprint = [] then
        (e, Inl ''denial requires the fingerprint of the request being denied'')
      else let reason = (if reason = [] then ''denied by '' @ actor else reason);
               (e', res) = engine_record now e reqID fingerprint PermissionDeny reason actor
           in (e', Inr res))"

definition Restore :: "Engine \<Rightarrow> PermissionResolution \<Rightarrow> (string, Engine) outcome" where
  "Restore e res =
     (if pr_RequestID res = [] then Inl ''restored decision has no request id''
      else if pr_Fingerprint res = [] then
        Inl (''restored decision for '' @ pr_RequestID res
             @ '' has no fingerprint and cannot be matched to content'')
      else Inr (remember e res))"

definition Resolution :: "Engine \<Rightarrow> string \<Rightarrow> string \<Rightarrow> PermissionResolution option" where
  "Resolution e reqID fingerprint =
     (case en_resolutions e reqID of
        None \<Rightarrow> None
      | Some res \<Rightarrow>
          if fingerprint \<noteq> [] \<and> pr_Fingerprint res \<noteq> fingerprint then None else Some res)"

section \<open>The log determines the index\<close>

text \<open>The abstraction of the engine: the decision in force for an id is the last one logged.\<close>

definition in_force :: "PermissionResolution list \<Rightarrow> string \<rightharpoonup> PermissionResolution" where
  "in_force rs = foldl (\<lambda>m r. m(pr_RequestID r \<mapsto> r)) Map.empty rs"

definition engine_ok :: "Engine \<Rightarrow> bool" where
  "engine_ok e \<longleftrightarrow> en_resolutions e = in_force (en_Log e)"

lemma in_force_snoc [simp]: "in_force (rs @ [r]) = (in_force rs)(pr_RequestID r \<mapsto> r)"
  by (simp add: in_force_def)

lemma in_force_id: "in_force rs i = Some r \<Longrightarrow> pr_RequestID r = i \<and> r \<in> set rs"
proof (induction rs rule: rev_induct)
  case Nil
  then show ?case by (simp add: in_force_def)
next
  case (snoc x xs)
  then show ?case by (auto split: if_splits)
qed

lemma engine_ok_new [inv_intros]: "engine_ok (engine_new p)"
  by (simp add: engine_ok_def engine_new_def in_force_def)

lemma engine_ok_remember [inv_intros]: "engine_ok e \<Longrightarrow> engine_ok (remember e r)"
  by (simp add: engine_ok_def remember_def)

lemma Evaluate_cases:
  "Evaluate hash now e req k a = (e', r) \<Longrightarrow>
     (en_resolutions e (pq_ID req) = Some r \<and> pr_Fingerprint r = Fingerprint hash req \<and> e' = e) \<or>
     (Resolution e (pq_ID req) (Fingerprint hash req) = None \<or> Fingerprint hash req = []) \<and>
       e' = remember e r \<and> pr_RequestID r = pq_ID req \<and> pr_Fingerprint r = Fingerprint hash req
       \<and> (pr_Decision r, pr_Reason r) = policy_decision (en_Policy e) req k"
  by (auto simp: Evaluate_def Resolution_def Let_def split: option.splits if_splits prod.splits)

lemma engine_ok_Evaluate [inv_intros]: "engine_ok e \<Longrightarrow> engine_ok (fst (Evaluate hash now e req k a))"
  using Evaluate_cases[of hash now e req k a] engine_ok_remember
  by (cases "Evaluate hash now e req k a") auto

lemma engine_ok_Approve [inv_intros]: "engine_ok e \<Longrightarrow> engine_ok (fst (Approve now e i f a))"
  by (auto simp: Approve_def engine_record_def Let_def engine_ok_remember)

lemma engine_ok_Deny [inv_intros]: "engine_ok e \<Longrightarrow> engine_ok (fst (Deny now e i f a r))"
  by (auto simp: Deny_def engine_record_def Let_def engine_ok_remember)

lemma engine_ok_Restore: "engine_ok e \<Longrightarrow> Restore e r = Inr e' \<Longrightarrow> engine_ok e'"
  by (auto simp: Restore_def engine_ok_remember split: if_splits)

section \<open>What the policy decides\<close>

lemma fold_const: "fold (\<lambda>a x. if P a then c else x) as x = (if \<exists>a\<in>set as. P a then c else x)"
  by (induction as arbitrary: x) auto

lemma allow_pass_eq: "allow_pass p req dr =
    (if pq_Action req \<in> set (po_AllowActions p) then (PermissionAllow, ''explicit allow list'') else dr)"
  by (auto simp: allow_pass_def fold_const)

definition deny_hit :: "Policy \<Rightarrow> PermissionRequest \<Rightarrow> bool" where
  "deny_hit p req \<longleftrightarrow> (\<exists>x\<in>set (po_DenyPrefixes p). x \<noteq> [] \<and> contains_str (pq_Resource req) x)"

lemma deny_pass_fst: "fst (deny_pass p req dr) = (if deny_hit p req then PermissionDeny else fst dr)"
proof -
  have "fst (fold (\<lambda>x dr. if x \<noteq> [] \<and> contains_str (pq_Resource req) x
       then (PermissionDeny, ''resource matches deny prefix '' @ quoted x) else dr) xs dr) =
     (if \<exists>x\<in>set xs. x \<noteq> [] \<and> contains_str (pq_Resource req) x then PermissionDeny else fst dr)" for xs
    by (induction xs arbitrary: dr) auto
  then show ?thesis by (simp add: deny_pass_def deny_hit_def)
qed

lemma ask_pass_fst: "fst (ask_pass p kind dr) =
    (if kind \<in> set (po_AskKinds p) \<and> fst dr = PermissionAllow then PermissionAsk else fst dr)"
proof -
  have "fst (fold (\<lambda>k dr. if k = kind \<and> fst dr = PermissionAllow
       then (PermissionAsk, ''kind '' @ quoted kind @ '' requires approval'') else dr) ks dr) =
     (if kind \<in> set ks \<and> fst dr = PermissionAllow then PermissionAsk else fst dr)" for ks
    by (induction ks arbitrary: dr) auto
  then show ?thesis by (simp add: ask_pass_def)
qed

lemma destructive_pass_fst: "fst (destructive_pass p req kind dr) =
    (if kind = ''destructive'' \<and> fst dr = PermissionAllow \<and> pq_Action req \<notin> set (po_AllowActions p)
     then PermissionAsk else fst dr)"
  by (auto simp: destructive_pass_def Let_def fold_const)

text \<open>The decision table of the policy in closed form.\<close>

definition decision_table :: "Policy \<Rightarrow> PermissionRequest \<Rightarrow> string \<Rightarrow> PermissionDecision" where
  "decision_table p req kind =
     (if deny_hit p req then PermissionDeny
      else let listed = pq_Action req \<in> set (po_AllowActions p);
               d = (if listed then PermissionAllow
                    else case po_DefaultAction p of None \<Rightarrow> PermissionOther [] | Some d \<Rightarrow> d)
           in if d = PermissionAllow \<and>
                 (kind \<in> set (po_AskKinds p) \<or> kind = ''destructive'' \<and> \<not> listed)
              then PermissionAsk else d)"

lemma policy_decision_table: "fst (policy_decision p req kind) = decision_table p req kind"
  unfolding policy_decision_def decision_table_def destructive_pass_fst ask_pass_fst
    deny_pass_fst allow_pass_eq Let_def
  by (cases "po_DefaultAction p"; cases "deny_hit p req";
      cases "pq_Action req \<in> set (po_AllowActions p)") (simp_all, blast)

section \<open>The contract of a decision store\<close>

text \<open>
  What a client of the engine relies on: a decision written for an id and a fingerprint
  is the one a later evaluation of the same content returns, and only of that content.
\<close>

locale decision_store =
  fixes decide :: "'e \<Rightarrow> string \<Rightarrow> string \<Rightarrow> PermissionDecision \<Rightarrow> 'e"
    and lookup :: "'e \<Rightarrow> string \<Rightarrow> string \<Rightarrow> PermissionDecision option"
  assumes lookup_same: "f \<noteq> [] \<Longrightarrow> lookup (decide e i f d) i f = Some d"
    and lookup_other_content: "f \<noteq> g \<Longrightarrow> g \<noteq> [] \<Longrightarrow> lookup (decide e i f d) i g = None"
    and lookup_other_id: "i \<noteq> j \<Longrightarrow> lookup (decide e i f d) j g = lookup e j g"
begin

lemma last_decision_wins: "f \<noteq> [] \<Longrightarrow> lookup (decide (decide e i f d) i f d') i f = Some d'"
  by (rule lookup_same)

lemma frame_many:
  "\<forall>x \<in> set ds. fst x \<noteq> j \<Longrightarrow>
     lookup (foldl (\<lambda>e (i, f, d). decide e i f d) e ds) j g = lookup e j g"
proof (induction ds arbitrary: e)
  case (Cons x ds)
  obtain i f d where x: "x = (i, f, d)" by (cases x)
  with Cons.prems have "lookup (decide e i f d) j g = lookup e j g"
    by (intro lookup_other_id) simp
  with Cons.IH[of "decide e i f d"] Cons.prems x show ?case by simp
qed simp

lemma durable:
  "f \<noteq> [] \<Longrightarrow> \<forall>x \<in> set ds. fst x \<noteq> i \<Longrightarrow>
     lookup (foldl (\<lambda>e (i, f, d). decide e i f d) (decide e i f d) ds) i f = Some d"
  by (simp add: frame_many lookup_same)

end

interpretation eng: decision_store
  "\<lambda>e i f d. fst (engine_record now e i f d reason actor)"
  "\<lambda>e i f. map_option pr_Decision (Resolution e i f)"
  for now reason actor
  by unfold_locales (simp_all add: engine_record_def remember_def Resolution_def Let_def)

lemma Evaluate_uses_Resolution:
  "Fingerprint hash req \<noteq> [] \<Longrightarrow> Resolution e (pq_ID req) (Fingerprint hash req) = Some r \<Longrightarrow>
     Evaluate hash now e req k a = (e, r)"
  by (auto simp: Evaluate_def Resolution_def split: option.splits if_splits)

lemma Approve_decides:
  "f \<noteq> [] \<Longrightarrow> fst (Approve now e i f a) =
     fst (engine_record now e i f PermissionAllow (''approved by '' @ a) a)"
  by (simp add: Approve_def split: prod.splits)

end
