(* ===== verification/GoPath.thy ===== *)
theory GoPath
  imports GoStrings
begin

text \<open>
  Go's \<open>path/filepath\<close> on Unix, as far as the modelled code uses it: \<open>Clean\<close>, \<open>Join\<close>,
  \<open>IsAbs\<close>, \<open>Rel\<close>, \<open>Ext\<close>. A cleaned path is its components between slashes plus
  whether it is rooted; the lemmas relate string tests on cleaned paths (equality, the
  prefix test with a trailing slash) to list prefixes of components.
\<close>

section \<open>Clean\<close>

definition is_abs :: "string \<Rightarrow> bool" where
  "is_abs p \<longleftrightarrow> has_prefix p ''/''"

text \<open>One component of \<open>Clean\<close>'s loop; the components kept so far stand in reverse.\<close>

definition clean_step :: "bool \<Rightarrow> string list \<Rightarrow> string \<Rightarrow> string list" where
  "clean_step rooted acc c =
     (if c = [] \<or> c = ''.'' then acc
      else if c = ''..'' then
        (if acc \<noteq> [] \<and> hd acc \<noteq> ''..'' then tl acc
         else if rooted then acc else ''..'' # acc)
      else c # acc)"

definition clean_comps :: "string \<Rightarrow> string list" where
  "clean_comps p = rev (foldl (clean_step (is_abs p)) [] (split_on (CHR ''/'') p))"

definition path_string :: "bool \<Rightarrow> string list \<Rightarrow> string" where
  "path_string rooted cs =
     (if rooted then ''/'' @ join ''/'' cs else if cs = [] then ''.'' else join ''/'' cs)"

definition path_clean :: "string \<Rightarrow> string" where
  "path_clean p = path_string (is_abs p) (clean_comps p)"

definition path_join :: "string list \<Rightarrow> string" where
  "path_join es = (let ne = filter (\<lambda>e. e \<noteq> []) es in
     if ne = [] then [] else path_clean (join ''/'' ne))"

text \<open>A name is a component that stands for one directory entry.\<close>

definition is_name :: "string \<Rightarrow> bool" where
  "is_name c \<longleftrightarrow> c \<noteq> [] \<and> c \<noteq> ''.'' \<and> c \<noteq> ''..'' \<and> CHR ''/'' \<notin> set c"

definition is_comp :: "string \<Rightarrow> bool" where
  "is_comp c \<longleftrightarrow> is_name c \<or> c = ''..''"

text \<open>
  What \<open>Clean\<close> leaves: \<open>..\<close> components only in front, and none in a rooted path. In the
  reversed accumulator they are at the end.
\<close>

definition acc_ok :: "bool \<Rightarrow> string list \<Rightarrow> bool" where
  "acc_ok rooted acc \<longleftrightarrow>
     (\<exists>ns k. acc = ns @ replicate k ''..'' \<and> list_all is_name ns \<and> (rooted \<longrightarrow> k = 0))"

lemma clean_step_ok: "acc_ok r acc \<Longrightarrow> CHR ''/'' \<notin> set c \<Longrightarrow> acc_ok r (clean_step r acc c)"
proof -
  assume a: "acc_ok r acc" and c: "CHR ''/'' \<notin> set c"
  then obtain ns k where ns: "acc = ns @ replicate k ''..''" "list_all is_name ns" "r \<longrightarrow> k = 0"
    by (auto simp: acc_ok_def)
  consider "c = [] \<or> c = ''.''" | "c = ''..''" | "is_name c" using c by (auto simp: is_name_def)
  then show ?thesis
  proof cases
    case 1
    with a show ?thesis by (auto simp: clean_step_def)
  next
    case 2
    show ?thesis
    proof (cases ns)
      case Nil
      with ns have acc: "acc = replicate k ''..''" by simp
      then have "clean_step r acc c = (if r then acc else replicate (Suc k) ''..'')"
        using 2 ns(3) by (cases k) (auto simp: clean_step_def)
      with acc ns(3) show ?thesis unfolding acc_ok_def
        by (intro exI[of _ "[]"] exI[of _ "if r then 0 else Suc k"]) auto
    next
      case (Cons m ms)
      with ns have m: "m \<noteq> ''..''" "list_all is_name ms" by (auto simp: is_name_def)
      with 2 ns(1,3) Cons show ?thesis by (auto simp: clean_step_def acc_ok_def)
    qed
  next
    case 3
    with ns have "clean_step r acc c = (c # ns) @ replicate k ''..''" "list_all is_name (c # ns)"
      by (auto simp: clean_step_def is_name_def)
    with ns(3) show ?thesis unfolding acc_ok_def by blast
  qed
qed

lemma clean_fold_ok:
  "acc_ok r acc \<Longrightarrow> (\<And>c. c \<in> set cs \<Longrightarrow> CHR ''/'' \<notin> set c) \<Longrightarrow> acc_ok r (foldl (clean_step r) acc cs)"
  by (induction cs arbitrary: acc) (auto simp: clean_step_ok)

lemma clean_comps_shape:
  "\<exists>ns k. clean_comps p = replicate k ''..'' @ ns \<and> list_all is_name ns \<and> (is_abs p \<longrightarrow> k = 0)"
proof -
  have "acc_ok (is_abs p) []" by (auto simp: acc_ok_def intro: exI[of _ "[]"] exI[of _ 0])
  then have "acc_ok (is_abs p) (foldl (clean_step (is_abs p)) [] (split_on (CHR ''/'') p))"
    by (rule clean_fold_ok) (rule split_on_no_sep)
  then obtain ns k where "foldl (clean_step (is_abs p)) [] (split_on (CHR ''/'') p) = ns @ replicate k ''..''"
    "list_all is_name ns" "is_abs p \<longrightarrow> k = 0" by (auto simp: acc_ok_def)
  then show ?thesis by (auto simp: clean_comps_def list_all_iff intro!: exI[of _ "rev ns"])
qed

lemma clean_comps_comp: "c \<in> set (clean_comps p) \<Longrightarrow> is_comp c"
  using clean_comps_shape[of p] by (auto simp: is_comp_def list_all_iff)

lemma clean_comps_abs_names: "is_abs p \<Longrightarrow> c \<in> set (clean_comps p) \<Longrightarrow> is_name c"
  using clean_comps_shape[of p] by (auto simp: list_all_iff)

lemma is_name_comp: "is_name c \<Longrightarrow> is_comp c"
  by (simp add: is_comp_def)

lemma is_comp_no_slash: "is_comp c \<Longrightarrow> c \<noteq> [] \<and> c \<noteq> ''.'' \<and> CHR ''/'' \<notin> set c"
  by (auto simp: is_comp_def is_name_def)

section \<open>Components of joined names\<close>

lemma foldl_clean_names:
  "list_all is_name ns \<Longrightarrow> foldl (clean_step r) acc ns = rev ns @ acc"
  by (induction ns arbitrary: acc) (auto simp: clean_step_def is_name_def)

lemma foldl_clean_app:
  "foldl (clean_step r) acc (xs @ ys) = foldl (clean_step r) (foldl (clean_step r) acc xs) ys"
  by simp

lemma hd_join_name: "is_comp c \<Longrightarrow> \<not> is_abs (join ''/'' (c # cs))"
  by (cases c; cases cs) (auto simp: is_abs_def has_prefix_def is_comp_def is_name_def)

lemma clean_comps_rel_names:
  "list_all is_name ns \<Longrightarrow> clean_comps (join ''/'' ns) = ns"
proof (cases ns)
  case Nil
  then show ?thesis by (simp add: clean_comps_def clean_step_def)
next
  case (Cons c cs)
  assume ns: "list_all is_name ns"
  then have sp: "split_on (CHR ''/'') (join ''/'' ns) = ns"
    using Cons by (intro split_on_join) (auto simp: list_all_iff is_name_def)
  have "\<not> is_abs (join ''/'' ns)"
    unfolding Cons by (rule hd_join_name, rule is_name_comp) (use ns Cons in simp)
  with sp ns show ?thesis by (simp add: clean_comps_def foldl_clean_names)
qed

lemma clean_comps_abs_names_id:
  "list_all is_name ns \<Longrightarrow> clean_comps (''/'' @ join ''/'' ns) = ns"
proof -
  assume ns: "list_all is_name ns"
  have abs: "is_abs (''/'' @ join ''/'' ns)" by (simp add: is_abs_def has_prefix_def)
  show ?thesis
  proof (cases "ns = []")
    case True
    then show ?thesis by (simp add: clean_comps_def clean_step_def)
  next
    case False
    with ns have "split_on (CHR ''/'') (join ''/'' ns) = ns"
      by (intro split_on_join) (auto simp: list_all_iff is_name_def)
    with abs ns show ?thesis by (simp add: clean_comps_def foldl_clean_names clean_step_def)
  qed
qed

text \<open>Cleaning a cleaned absolute path changes nothing.\<close>

lemma abs_path_string: "is_abs (path_string True cs)"
  by (simp add: path_string_def is_abs_def has_prefix_def)

lemma clean_comps_path_string_abs:
  "list_all is_name cs \<Longrightarrow> clean_comps (path_string True cs) = cs"
  using clean_comps_abs_names_id[of cs] by (simp add: path_string_def)

lemma path_clean_abs: "is_abs p \<Longrightarrow> is_abs (path_clean p)"
  by (simp add: path_clean_def abs_path_string)

lemma clean_comps_clean_abs: "is_abs p \<Longrightarrow> clean_comps (path_clean p) = clean_comps p"
  by (simp add: path_clean_def clean_comps_path_string_abs list_all_iff clean_comps_abs_names)

lemma path_clean_idem_abs: "is_abs p \<Longrightarrow> path_clean (path_clean p) = path_clean p"
  using path_clean_abs[of p] clean_comps_clean_abs[of p] by (simp add: path_clean_def)

section \<open>String tests on cleaned paths are list tests on components\<close>

lemma split_on_join_app:
  "bs \<noteq> [] \<Longrightarrow> (\<And>b. b \<in> set bs \<Longrightarrow> d \<notin> set b) \<Longrightarrow>
     split_on d (join [d] bs @ d # rest) = bs @ split_on d rest"
proof (induction bs)
  case (Cons b bs)
  show ?case
  proof (cases bs)
    case Nil
    with Cons.prems show ?thesis by (simp add: split_on_append)
  next
    case (Cons v vs)
    with Cons.IH Cons.prems show ?thesis by (simp add: split_on_append)
  qed
qed simp

lemma join_app:
  "xs \<noteq> [] \<Longrightarrow> ys \<noteq> [] \<Longrightarrow> join sep (xs @ ys) = join sep xs @ sep @ join sep ys"
proof (induction xs)
  case (Cons x xs)
  then show ?case by (cases xs) (auto simp: join_Cons)
qed simp

lemma comps_split: "list_all is_comp cs \<Longrightarrow> cs \<noteq> [] \<Longrightarrow> split_on (CHR ''/'') (join ''/'' cs) = cs"
  by (intro split_on_join) (auto simp: list_all_iff dest: is_comp_no_slash)

lemma join_comps_eq:
  "list_all is_comp bs \<Longrightarrow> list_all is_comp ns \<Longrightarrow> bs \<noteq> [] \<Longrightarrow> ns \<noteq> [] \<Longrightarrow>
     join ''/'' ns = join ''/'' bs \<longleftrightarrow> ns = bs"
  by (metis comps_split)

lemma join_comps_prefix:
  assumes bs: "list_all is_comp bs" "bs \<noteq> []" and ns: "list_all is_comp ns" "ns \<noteq> []"
  shows "prefix (join ''/'' bs @ ''/'') (join ''/'' ns) \<longleftrightarrow> strict_prefix bs ns"
proof
  assume "prefix (join ''/'' bs @ ''/'') (join ''/'' ns)"
  then obtain rest where "join ''/'' ns = join ''/'' bs @ CHR ''/'' # rest" by (auto simp: prefix_def)
  then have "ns = bs @ split_on (CHR ''/'') rest"
    using split_on_join_app[of bs "CHR ''/''" rest] bs comps_split[OF ns]
    by (auto simp: list_all_iff dest: is_comp_no_slash)
  then show "strict_prefix bs ns" by (auto simp: strict_prefix_def prefix_def)
next
  assume "strict_prefix bs ns"
  then obtain zs where "ns = bs @ zs" "zs \<noteq> []" by (auto simp: strict_prefix_def prefix_def)
  with bs show "prefix (join ''/'' bs @ ''/'') (join ''/'' ns)" by (simp add: join_app prefix_def)
qed

section \<open>Rel\<close>

text \<open>\<open>filepath.Rel\<close>: \<open>None\<close> is its error.\<close>

fun common_len :: "string list \<Rightarrow> string list \<Rightarrow> nat" where
  "common_len (x # xs) (y # ys) = (if x = y then Suc (common_len xs ys) else 0)"
| "common_len _ _ = 0"

definition rel_comps :: "string list \<Rightarrow> string list \<Rightarrow> string list" where
  "rel_comps bs ts = (let k = common_len bs ts in replicate (length bs - k) ''..'' @ drop k ts)"

definition path_rel :: "string \<Rightarrow> string \<Rightarrow> string option" where
  "path_rel base targ =
     (let bs = clean_comps base; ts = clean_comps targ; k = common_len bs ts in
      if is_abs base \<noteq> is_abs targ then None
      else if drop k bs \<noteq> [] \<and> hd (drop k bs) = ''..'' then None
      else Some (path_string False (rel_comps bs ts)))"

lemma common_len_le: "common_len bs ts \<le> length bs"
  by (induction bs ts rule: common_len.induct) auto

lemma common_len_full: "common_len bs ts = length bs \<longleftrightarrow> prefix bs ts"
  by (induction bs ts rule: common_len.induct) (auto simp: prefix_def)

lemma common_len_diff: "length bs - common_len bs ts = 0 \<longleftrightarrow> prefix bs ts"
  using common_len_le[of bs ts] common_len_full[of bs ts] by auto

section \<open>Ext\<close>

text \<open>The suffix from the last dot of the last component, empty without one.\<close>

definition path_ext :: "string \<Rightarrow> string" where
  "path_ext p =
     (let b = takeWhile (\<lambda>c. c \<noteq> CHR ''/'') (rev p); e = takeWhile (\<lambda>c. c \<noteq> CHR ''.'') b
      in if CHR ''.'' \<in> set b then CHR ''.'' # rev e else [])"

lemma path_ext_json: "path_ext ''.ai/goals/g1.goal.json'' = ''.json''"
  by (simp add: path_ext_def)

end
