(* ===== verification/Safepath.thy ===== *)
theory Safepath
  imports GoPath
begin

text \<open>
  \<open>internal/harness/safepath\<close>: the containment boundary for paths (\<open>Resolve\<close>,
  \<open>IsWithin\<close>) and for identifiers that become path components (\<open>ValidateID\<close>).
  The operating system is the record \<open>os\<close>: what \<open>Lstat\<close> finds at a path, what
  \<open>EvalSymlinks\<close> makes of it, and the working directory.
\<close>

section \<open>The operating system as \<open>Resolve\<close> sees it\<close>

datatype lstat_result = Missing | Symlink | Entry

record os =
  os_cwd :: string
  os_lstat :: "string \<Rightarrow> lstat_result"
  os_eval :: "string \<Rightarrow> (string, string) outcome"

definition path_abs :: "os \<Rightarrow> string \<Rightarrow> string" where
  "path_abs os p = (if is_abs p then path_clean p else path_join [os_cwd os, p])"

section \<open>Containment\<close>

definition contains :: "string \<Rightarrow> string \<Rightarrow> bool" where
  "contains rt candidate =
     (if candidate = rt then True
      else case path_rel rt candidate of
        None \<Rightarrow> False
      | Some rel \<Rightarrow>
          if rel = ''.'' then True
          else if rel = ''..'' \<or> has_prefix rel ''../'' then False
          else \<not> is_abs rel)"

definition IsWithin :: "os \<Rightarrow> string \<Rightarrow> string \<Rightarrow> bool" where
  "IsWithin os rt candidate =
     (let absRoot = path_abs os rt;
          abs = (if is_abs candidate then candidate else path_join [absRoot, candidate])
      in contains (path_clean absRoot) (path_clean abs))"

lemma rel_comps_names:
  "list_all is_name bs \<Longrightarrow> list_all is_name ts \<Longrightarrow>
     rel_comps bs ts = replicate (length bs - common_len bs ts) ''..'' @ drop (common_len bs ts) ts"
  by (simp add: rel_comps_def Let_def)

lemma path_string_rel_tests:
  assumes cs: "list_all is_comp cs"
  shows "path_string False cs = ''.'' \<longleftrightarrow> cs = []"
    and "path_string False cs = ''..'' \<or> prefix ''../'' (path_string False cs)
           \<longleftrightarrow> cs \<noteq> [] \<and> hd cs = ''..''"
    and "\<not> is_abs (path_string False cs)"
proof -
  have dd: "is_comp ''..''" by (simp add: is_comp_def)
  have one: "split_on (CHR ''/'') ''.'' = [''.'']" by (simp add: split_on_single)
  show "path_string False cs = ''.'' \<longleftrightarrow> cs = []"
    using comps_split[OF cs] one cs
    by (auto simp: path_string_def is_comp_def is_name_def)
  show "path_string False cs = ''..'' \<or> prefix ''../'' (path_string False cs)
          \<longleftrightarrow> cs \<noteq> [] \<and> hd cs = ''..''"
  proof (cases "cs = []")
    case True
    then show ?thesis by (simp add: path_string_def)
  next
    case False
    have "join ''/'' cs = ''..'' \<longleftrightarrow> cs = [''..'']"
      using join_comps_eq[of "[''..'']" cs] cs False dd by simp
    moreover have "prefix ''../'' (join ''/'' cs) \<longleftrightarrow> strict_prefix [''..''] cs"
      using join_comps_prefix[of "[''..'']" cs] cs False dd by simp
    ultimately show ?thesis using False
      by (cases cs) (auto simp: path_string_def strict_prefix_def)
  qed
  show "\<not> is_abs (path_string False cs)"
    using cs hd_join_name by (cases cs) (auto simp: path_string_def is_abs_def has_prefix_def)
qed

lemma hd_drop_name: "list_all is_name xs \<Longrightarrow> drop k xs \<noteq> [] \<Longrightarrow> hd (drop k xs) \<noteq> ''..''"
  by (metis hd_in_set in_set_dropD is_name_def list_all_iff)

text \<open>For absolute paths, containment is the prefix order on the cleaned components.\<close>

lemma contains_abs:
  assumes "is_abs rt" "is_abs cand"
  shows "contains rt cand \<longleftrightarrow> prefix (clean_comps rt) (clean_comps cand)"
proof -
  let ?b = "clean_comps rt" and ?t = "clean_comps cand"
  have b: "list_all is_name ?b" and t: "list_all is_name ?t"
    using assms clean_comps_abs_names by (auto simp: list_all_iff)
  let ?k = "common_len ?b ?t" and ?r = "rel_comps ?b ?t"
  have no_dd: "\<not> (drop ?k ?b \<noteq> [] \<and> hd (drop ?k ?b) = ''..'')"
    using hd_drop_name[OF b] by blast
  then have rel: "path_rel rt cand = Some (path_string False ?r)"
    using assms by (simp add: path_rel_def Let_def)
  have rc: "list_all is_comp ?r"
    using t by (auto simp: rel_comps_def Let_def list_all_iff is_comp_def dest: in_set_dropD)
  have hd: "(?r \<noteq> [] \<and> hd ?r = ''..'') \<longleftrightarrow> \<not> prefix ?b ?t"
  proof (cases "prefix ?b ?t")
    case True
    then have "length ?b - ?k = 0" by (simp only: common_len_diff)
    then have "?r = drop ?k ?t" by (simp add: rel_comps_def Let_def)
    with True hd_drop_name[OF t] show ?thesis by auto
  next
    case False
    then have "length ?b - ?k \<noteq> 0" using common_len_diff[of ?b ?t] by blast
    then obtain j where "length ?b - ?k = Suc j" by (cases "length ?b - ?k") auto
    then have "?r = ''..'' # replicate j ''..'' @ drop ?k ?t" by (simp add: rel_comps_def Let_def)
    with False show ?thesis by simp
  qed
  show ?thesis
  proof (cases "cand = rt")
    case True
    then show ?thesis by (simp add: contains_def)
  next
    case False
    have "?r = [] \<Longrightarrow> prefix ?b ?t" using hd by auto
    with False rel hd path_string_rel_tests[OF rc] show ?thesis
      by (auto simp: contains_def has_prefix_def)
  qed
qed

section \<open>Resolve\<close>

datatype resolve_error =
    EmptyRoot
  | Escapes string
  | EscapesViaSymlink string string
  | EvalFailed string string
  | NotFound string
  | NoAncestor string

text \<open>
  \<open>resolveDeepestExisting\<close> on the components of a cleaned absolute path, last first:
  \<open>Dir\<close> drops the last component and \<open>Base\<close> is it, and at the rt \<open>Dir\<close> is the rt.
\<close>

fun walk_up :: "os \<Rightarrow> string list \<Rightarrow> string list \<Rightarrow> (string list \<times> string list) option" where
  "walk_up os rcs tail =
     (if os_lstat os (path_string True (rev rcs)) \<noteq> Missing then Some (rcs, tail)
      else case rcs of [] \<Rightarrow> None | c # rest \<Rightarrow> walk_up os rest (c # tail))"

declare walk_up.simps [simp del]

definition resolveDeepestExisting ::
  "os \<Rightarrow> string \<Rightarrow> string \<Rightarrow> (resolve_error, string \<times> string) outcome" where
  "resolveDeepestExisting os rt candidate =
     (case walk_up os (rev (clean_comps candidate)) [] of
        None \<Rightarrow> Inl (NoAncestor candidate)
      | Some (rcs, tail) \<Rightarrow>
          (case os_eval os (path_string True (rev rcs)) of
             Inl e \<Rightarrow> Inl (EvalFailed candidate e)
           | Inr resolved \<Rightarrow>
               if \<not> contains rt resolved then Inl (EscapesViaSymlink candidate resolved)
               else Inr (resolved, path_join tail)))"

definition resolved_root :: "os \<Rightarrow> string \<Rightarrow> string" where
  "resolved_root os rt =
     (let absRoot = path_clean (path_abs os rt)
      in case os_eval os absRoot of Inl _ \<Rightarrow> absRoot | Inr r \<Rightarrow> r)"

definition Resolve :: "os \<Rightarrow> string \<Rightarrow> string \<Rightarrow> bool \<Rightarrow> (resolve_error, string) outcome" where
  "Resolve os rt p mustExist =
     (if blank rt then Inl EmptyRoot
      else let absRoot = resolved_root os rt;
               candidate = (if p = [] then ''.'' else p);
               abs = path_clean (if is_abs candidate then candidate
                                 else path_join [absRoot, candidate])
           in
        if \<not> contains absRoot abs then Inl (Escapes p)
        else case os_lstat os abs of
          Missing \<Rightarrow>
            if mustExist then Inl (NotFound p)
            else (case resolveDeepestExisting os absRoot abs of
                    Inl e \<Rightarrow> Inl e
                  | Inr (resolved, remaining) \<Rightarrow>
                      if remaining = [] then Inr resolved
                      else let full = path_join [resolved, remaining] in
                        if \<not> contains absRoot full then Inl (Escapes p) else Inr full)
        | _ \<Rightarrow>
            (case os_eval os abs of
               Inl e \<Rightarrow> Inl (EvalFailed p e)
             | Inr target \<Rightarrow>
                 if \<not> contains absRoot target then Inl (EscapesViaSymlink p target)
                 else Inr target))"

lemma resolveDeepestExisting_contains:
  "resolveDeepestExisting os rt cand = Inr (r, rest) \<Longrightarrow> contains rt r"
  by (auto simp: resolveDeepestExisting_def split: option.splits sum.splits if_splits)

lemma Resolve_contains: "Resolve os rt p m = Inr q \<Longrightarrow> contains (resolved_root os rt) q"
  by (auto simp: Resolve_def Let_def dest: resolveDeepestExisting_contains
      split: if_splits lstat_result.splits sum.splits)

section \<open>Identifiers\<close>

datatype id_error =
    IdEmpty
  | IdTooLong nat
  | IdNul
  | IdPathRef string
  | IdBadChar char
  | IdLeadingDot string

text \<open>
  The permitted runes are all ASCII, so testing bytes rejects the same values as testing
  the decoded runes: \<open>IdBadChar\<close> carries the first byte of the offending rune.
\<close>

definition id_char :: "char \<Rightarrow> bool" where
  "id_char c \<longleftrightarrow> (let n = (of_char c :: nat) in
     (97 \<le> n \<and> n \<le> 122) \<or> (65 \<le> n \<and> n \<le> 90) \<or> (48 \<le> n \<and> n \<le> 57)
     \<or> c = CHR ''-'' \<or> c = CHR ''_'' \<or> c = CHR ''.'')"

definition ValidateID :: "string \<Rightarrow> id_error option" where
  "ValidateID v =
     (if v = [] then Some IdEmpty
      else if length v > 200 then Some (IdTooLong (length v))
      else if CHR 0x00 \<in> set v then Some IdNul
      else if v = ''.'' \<or> v = ''..'' then Some (IdPathRef v)
      else case find (\<lambda>c. \<not> id_char c) v of
        Some c \<Rightarrow> Some (IdBadChar c)
      | None \<Rightarrow> if has_prefix v ''.'' then Some (IdLeadingDot v) else None)"

definition ValidateIDs :: "string list \<Rightarrow> id_error list" where
  "ValidateIDs vs = List.map_filter ValidateID vs"

lemma id_char_not_special: "id_char c \<Longrightarrow> c \<noteq> CHR ''/'' \<and> c \<noteq> CHR 0x00"
  by (auto simp: id_char_def Let_def)

lemma ValidateID_None:
  "ValidateID v = None \<longleftrightarrow>
     v \<noteq> [] \<and> length v \<le> 200 \<and> list_all id_char v \<and> hd v \<noteq> CHR ''.''"
proof (cases v)
  case (Cons c cs)
  have nul: "list_all id_char v \<Longrightarrow> CHR 0x00 \<notin> set v"
    using id_char_not_special by (auto simp: list_all_iff)
  have fn: "find (\<lambda>c. \<not> id_char c) v = None \<longleftrightarrow> list_all id_char v"
    by (auto simp: find_None_iff list_all_iff)
  have dot: "has_prefix v ''.'' \<longleftrightarrow> hd v = CHR ''.''"
    using Cons by (auto simp: has_prefix_def)
  show ?thesis
    unfolding ValidateID_def
    using nul fn dot Cons by (auto split: option.splits)
qed (simp add: ValidateID_def)

lemma ValidateID_name: "ValidateID v = None \<Longrightarrow> is_name v"
  using id_char_not_special
  by (cases v) (auto simp: ValidateID_None is_name_def list_all_iff)

lemma ValidateIDs_Nil: "ValidateIDs vs = [] \<longleftrightarrow> (\<forall>v\<in>set vs. ValidateID v = None)"
  by (induction vs) (auto simp: ValidateIDs_def List.map_filter_simps split: option.splits)

end
