(* ===== verification/CheckpointStore.thy ===== *)
theory CheckpointStore
  imports AgentTypes Safepath
begin

text \<open>
  \<open>internal/harness/checkpoint\<close>: the file-backed checkpoint store (\<open>Save\<close>, \<open>Load\<close>,
  \<open>Latest\<close>, \<open>Prune\<close>, \<open>GC\<close>) and the side-effect journal (\<open>RecordIntent\<close>,
  \<open>RecordOutcome\<close>) with the contract its client, the runner, relies on.

  A store directory is its entries in the order \<open>ReadDir\<close> gives them, by name. An entry
  either decodes as a checkpoint or it does not. What the disk does is an argument:
  \<open>io\<close> is the outcome of a write, \<open>rm\<close> whether a file can be removed. Creation times are the
  strings the code compares.
\<close>

section \<open>The store directory\<close>

datatype file_content = CheckpointFile Checkpoint | OtherFile

type_synonym dir = "(string \<times> file_content) list"

datatype write_io = WriteOk | WriteFails | RenameFails

definition dir_put :: "string \<Rightarrow> file_content \<Rightarrow> dir \<Rightarrow> dir" where
  "dir_put n c d = sort_key fst ((n, c) # filter (\<lambda>e. fst e \<noteq> n) d)"

definition dir_ok :: "dir \<Rightarrow> bool" where
  "dir_ok d \<longleftrightarrow> distinct (map fst d) \<and> sorted (map fst d)"

lemma dir_put_ok [inv_intros]: "dir_ok d \<Longrightarrow> dir_ok (dir_put n c d)"
  unfolding dir_ok_def dir_put_def distinct_map_sort_key
  by (auto simp: distinct_map inj_on_def simp del: sort_key_simps)

lemma set_dir_put: "set (dir_put n c d) = insert (n, c) {e \<in> set d. fst e \<noteq> n}"
  by (auto simp: dir_put_def simp del: sort_key_simps)

lemma map_of_dir_put: "dir_ok d \<Longrightarrow> map_of (dir_put n c d) = (map_of d)(n \<mapsto> c)"
proof -
  assume "dir_ok d"
  then have dd: "dir_ok (dir_put n c d)" by (rule dir_put_ok)
  show ?thesis
  proof
    fix k
    show "map_of (dir_put n c d) k = ((map_of d)(n \<mapsto> c)) k"
    proof (cases "map_of (dir_put n c d) k")
      case None
      then have "k \<notin> fst ` set (dir_put n c d)" by (simp add: map_of_eq_None_iff)
      then have "k \<noteq> n" "k \<notin> fst ` set d" by (auto simp: set_dir_put)
      with None show ?thesis by (simp add: map_of_eq_None_iff[THEN iffD2])
    next
      case (Some v)
      then have "(k, v) \<in> set (dir_put n c d)" by (rule map_of_SomeD)
      then consider "k = n" "v = c" | "k \<noteq> n" "(k, v) \<in> set d" by (auto simp: set_dir_put)
      then show ?thesis
        using Some \<open>dir_ok d\<close> by cases (auto simp: dir_ok_def)
    qed
  qed
qed

section \<open>Saving and loading\<close>

datatype store_error =
    NeedsIds
  | BadId id_error
  | WriteError
  | NoSuchFile string
  | Undecodable string
  | NoCheckpoint string

definition checkpoint_name :: "string \<Rightarrow> string" where
  "checkpoint_name i = ''checkpoint-'' @ i @ ''.json''"

definition store_path :: "string \<Rightarrow> (store_error, string) outcome" where
  "store_path i = (case ValidateID i of Some e \<Rightarrow> Inl (BadId e) | None \<Rightarrow> Inr (checkpoint_name i))"

definition Save :: "write_io \<Rightarrow> string \<Rightarrow> dir \<Rightarrow> Checkpoint \<Rightarrow> dir \<times> store_error option" where
  "Save io now d cp =
     (if cp_ID cp = [] \<or> cp_RunID cp = [] then (d, Some NeedsIds)
      else let cp = (if cp_CreatedAt cp = [] then cp\<lparr>cp_CreatedAt := now\<rparr> else cp) in
        case store_path (cp_ID cp) of
          Inl e \<Rightarrow> (d, Some e)
        | Inr path \<Rightarrow>
            (case io of
               WriteFails \<Rightarrow> (d, Some WriteError)
             | RenameFails \<Rightarrow> (dir_put (path @ ''.tmp'') (CheckpointFile cp) d, Some WriteError)
             | WriteOk \<Rightarrow> (dir_put path (CheckpointFile cp) d, None)))"

definition Load :: "dir \<Rightarrow> string \<Rightarrow> (store_error, Checkpoint) outcome" where
  "Load d i =
     (case store_path i of
        Inl e \<Rightarrow> Inl e
      | Inr path \<Rightarrow>
          (case map_of d path of
             None \<Rightarrow> Inl (NoSuchFile path)
           | Some OtherFile \<Rightarrow> Inl (Undecodable path)
           | Some (CheckpointFile cp) \<Rightarrow> Inr cp))"

text \<open>The name filter of \<open>Latest\<close>: longer than the prefix, no test of the extension.\<close>

definition is_checkpoint_name :: "string \<Rightarrow> bool" where
  "is_checkpoint_name n \<longleftrightarrow> \<not> (length n < 12 \<or> take 11 n \<noteq> ''checkpoint-'')"

fun latest_scan :: "string \<Rightarrow> Checkpoint option \<Rightarrow> dir \<Rightarrow> Checkpoint option" where
  "latest_scan runID best [] = best"
| "latest_scan runID best ((n, f) # d) =
     (if \<not> is_checkpoint_name n then latest_scan runID best d
      else case f of
        OtherFile \<Rightarrow> latest_scan runID best d
      | CheckpointFile cp \<Rightarrow>
          if cp_RunID cp \<noteq> runID then latest_scan runID best d
          else (case best of
                  None \<Rightarrow> latest_scan runID (Some cp) d
                | Some b \<Rightarrow>
                    if cp_CreatedAt cp > cp_CreatedAt b then latest_scan runID (Some cp) d
                    else latest_scan runID best d))"

definition Latest :: "dir \<Rightarrow> string \<Rightarrow> (store_error, Checkpoint) outcome" where
  "Latest d runID =
     (case latest_scan runID None d of None \<Rightarrow> Inl (NoCheckpoint runID) | Some cp \<Rightarrow> Inr cp)"

lemma checkpoint_name_is: "is_checkpoint_name (checkpoint_name i)"
  by (simp add: is_checkpoint_name_def checkpoint_name_def)

lemma Save_Load:
  "dir_ok d \<Longrightarrow> cp_CreatedAt cp \<noteq> [] \<Longrightarrow> Save io now d cp = (d', None) \<Longrightarrow> Load d' (cp_ID cp) = Inr cp"
  by (auto simp: Save_def Load_def Let_def store_path_def map_of_dir_put
      split: if_splits option.splits write_io.splits)

lemma Save_frame:
  assumes "dir_ok d" "Save io now d cp = (d', r)" "i \<noteq> cp_ID cp" "i @ ''.json'' \<noteq> cp_ID cp @ ''.json.tmp''"
  shows "Load d' i = Load d i"
proof -
  have n: "checkpoint_name i \<noteq> checkpoint_name (cp_ID cp)"
    "checkpoint_name i \<noteq> checkpoint_name (cp_ID cp) @ ''.tmp''"
    using assms(3,4) by (auto simp: checkpoint_name_def)
  from assms(1,2) n show ?thesis
    by (auto simp: Save_def Load_def Let_def store_path_def map_of_dir_put
        split: if_splits option.splits write_io.splits)
qed

text \<open>The newest creation time, as the code orders the strings, among a run's checkpoint files.\<close>

definition run_files :: "dir \<Rightarrow> string \<Rightarrow> (string \<times> Checkpoint) list" where
  "run_files d runID = List.map_filter (\<lambda>(n, f). case f of OtherFile \<Rightarrow> None
     | CheckpointFile cp \<Rightarrow> if is_checkpoint_name n \<and> cp_RunID cp = runID then Some (n, cp) else None) d"

lemma run_files_simps [simp]:
  "run_files [] runID = []"
  "run_files ((n, f) # d) runID = (case f of OtherFile \<Rightarrow> run_files d runID
     | CheckpointFile cp \<Rightarrow> if is_checkpoint_name n \<and> cp_RunID cp = runID
         then (n, cp) # run_files d runID else run_files d runID)"
  by (auto simp: run_files_def List.map_filter_simps split: file_content.splits)

definition newer :: "Checkpoint \<Rightarrow> Checkpoint option \<Rightarrow> Checkpoint option" where
  "newer cp best = (case best of None \<Rightarrow> Some cp
     | Some b \<Rightarrow> if cp_CreatedAt cp > cp_CreatedAt b then Some cp else best)"

lemma latest_scan_fold:
  "latest_scan runID best d = fold newer (map snd (run_files d runID)) best"
  by (induction runID best d rule: latest_scan.induct)
    (auto simp: newer_def split: file_content.splits option.splits)

lemma fold_newer_Some:
  "\<exists>m. fold newer cps (Some b) = Some m \<and> m \<in> insert b (set cps)
      \<and> (\<forall>c\<in>insert b (set cps). cp_CreatedAt c \<le> cp_CreatedAt m)"
proof (induction cps arbitrary: b)
  case (Cons c cps)
  show ?case
  proof (cases "cp_CreatedAt c > cp_CreatedAt b")
    case True
    with Cons[of c] show ?thesis by (auto simp: newer_def intro: order.trans less_imp_le)
  next
    case False
    with Cons[of b] show ?thesis by (auto simp: newer_def not_less intro: order.trans)
  qed
qed simp

lemma fold_newer_None:
  "fold newer cps None = None \<longleftrightarrow> cps = []"
  "fold newer cps None = Some m \<Longrightarrow> m \<in> set cps \<and> (\<forall>c\<in>set cps. cp_CreatedAt c \<le> cp_CreatedAt m)"
  using fold_newer_Some[of "tl cps" "hd cps"] by (cases cps; auto simp: newer_def)+

lemma Latest_newest:
  "Latest d runID = Inr cp \<Longrightarrow>
     cp \<in> snd ` set (run_files d runID) \<and> (\<forall>c\<in>snd ` set (run_files d runID). cp_CreatedAt c \<le> cp_CreatedAt cp)"
  using fold_newer_None(2)[of "map snd (run_files d runID)" cp]
  by (auto simp: Latest_def latest_scan_fold split: option.splits)

lemma Latest_error: "Latest d runID = Inl e \<longleftrightarrow> run_files d runID = [] \<and> e = NoCheckpoint runID"
  using fold_newer_None(1)[of "map snd (run_files d runID)"]
  by (auto simp: Latest_def latest_scan_fold split: option.splits)

section \<open>Pruning\<close>

text \<open>
  \<open>Prune\<close> groups the decodable \<open>checkpoint-*.json\<close> files by run and removes all but the
  newest \<open>keep\<close> of each. \<open>ord\<close> is the order in which Go ranges over the groups and \<open>rm\<close>
  tells which removals succeed. \<open>sort.Slice\<close> leaves the order of equal times open; the
  model's sort is the stable one.
\<close>

definition is_checkpoint_json :: "string \<Rightarrow> bool" where
  "is_checkpoint_json n \<longleftrightarrow>
     \<not> (length n < 12 \<or> take 11 n \<noteq> ''checkpoint-'' \<or> \<not> has_suffix n ''.json'')"

definition json_checkpoints :: "dir \<Rightarrow> (string \<times> Checkpoint) list" where
  "json_checkpoints d = List.map_filter (\<lambda>(n, f). case f of OtherFile \<Rightarrow> None
     | CheckpointFile cp \<Rightarrow> if is_checkpoint_json n then Some (n, cp) else None) d"

definition by_run :: "dir \<Rightarrow> string \<Rightarrow> (string \<times> Checkpoint) list" where
  "by_run d runID = filter (\<lambda>e. cp_RunID (snd e) = runID) (json_checkpoints d)"

definition superseded :: "nat \<Rightarrow> (string \<times> Checkpoint) list \<Rightarrow> string list" where
  "superseded keep names =
     (if length names \<le> keep then []
      else let ordered = sort_key (\<lambda>e. cp_CreatedAt (snd e)) names
           in map fst (take (length ordered - keep) ordered))"

definition Prune :: "(string \<Rightarrow> bool) \<Rightarrow> string list \<Rightarrow> int \<Rightarrow> dir \<Rightarrow> nat \<times> dir" where
  "Prune rm ord keep d =
     (let keep = (if keep < 1 then 1 else keep);
          gone = filter rm (concat (map (\<lambda>r. superseded (nat keep) (by_run d r)) ord))
      in (length gone, filter (\<lambda>e. fst e \<notin> set gone) d))"

definition run_order :: "dir \<Rightarrow> string list \<Rightarrow> bool" where
  "run_order d ord \<longleftrightarrow> distinct ord \<and> set ord = (\<lambda>e. cp_RunID (snd e)) ` set (json_checkpoints d)"

lemma json_checkpoints_simps [simp]:
  "json_checkpoints [] = []"
  "json_checkpoints ((n, f) # d) = (case f of OtherFile \<Rightarrow> json_checkpoints d
     | CheckpointFile cp \<Rightarrow> if is_checkpoint_json n
         then (n, cp) # json_checkpoints d else json_checkpoints d)"
  by (auto simp: json_checkpoints_def List.map_filter_simps split: file_content.splits)

lemma json_checkpoints_mem:
  "(n, cp) \<in> set (json_checkpoints d) \<longleftrightarrow> (n, CheckpointFile cp) \<in> set d \<and> is_checkpoint_json n"
  by (induction d) (auto split: file_content.splits if_splits)

lemma json_checkpoints_filter:
  "json_checkpoints (filter (\<lambda>e. P (fst e)) d) = filter (\<lambda>e. P (fst e)) (json_checkpoints d)"
  by (induction d) (auto split: file_content.splits)

lemma json_checkpoints_names: "set (map fst (json_checkpoints d)) \<subseteq> set (map fst d)"
  by (auto simp: json_checkpoints_mem) (metis fst_conv image_eqI)

lemma distinct_json_checkpoints: "distinct (map fst d) \<Longrightarrow> distinct (map fst (json_checkpoints d))"
proof (induction d)
  case (Cons e d)
  have "fst e \<notin> set (map fst (json_checkpoints d))"
    using Cons.prems json_checkpoints_names[of d] by auto
  with Cons show ?case by (cases e) (auto split: file_content.splits)
qed simp

lemma distinct_by_run: "distinct (map fst d) \<Longrightarrow> distinct (map fst (by_run d r))"
  by (simp add: by_run_def distinct_json_checkpoints distinct_map_filter)

lemma superseded_length [simp]: "length (superseded k names) = length names - k"
  by (simp add: superseded_def Let_def)

lemma superseded_subset: "set (superseded k names) \<subseteq> fst ` set names"
proof -
  have "set (take m (sort_key f names)) \<subseteq> set names" for m and f :: "_ \<Rightarrow> string"
    by (metis set_sort set_take_subset)
  then show ?thesis by (auto simp: superseded_def Let_def)
qed

lemma superseded_distinct: "distinct (map fst names) \<Longrightarrow> distinct (superseded k names)"
  by (simp add: superseded_def Let_def distinct_take flip: take_map)

text \<open>A superseded file is no newer than one that is kept.\<close>

lemma superseded_older:
  assumes "distinct (map fst names)" "(n, c) \<in> set names" "(n', c') \<in> set names"
    "n \<in> set (superseded k names)" "n' \<notin> set (superseded k names)"
  shows "cp_CreatedAt c \<le> cp_CreatedAt c'"
proof -
  define o' where "o' = sort_key (\<lambda>e. cp_CreatedAt (snd e)) names"
  define m where "m = length o' - k"
  have k: "\<not> length names \<le> k" using assms(4) by (auto simp: superseded_def)
  then have sup: "superseded k names = map fst (take m o')"
    by (simp add: superseded_def o'_def m_def Let_def)
  have o_set: "set o' = set names" by (simp add: o'_def)
  have srt: "sorted (map (\<lambda>e. cp_CreatedAt (snd e)) (take m o' @ drop m o'))"
    by (simp add: o'_def)
  have inj: "inj_on fst (set names)" using assms(1) by (simp add: distinct_map)
  from assms(4) obtain e where e: "e \<in> set (take m o')" "fst e = n" by (auto simp: sup)
  then have "e \<in> set names" using o_set in_set_takeD by fastforce
  with inj assms(2) e(2) have "e = (n, c)" by (metis fst_conv inj_onD)
  moreover have "(n', c') \<in> set (drop m o')"
  proof -
    have "(n', c') \<in> set (take m o') \<union> set (drop m o')"
      using o_set assms(3) by (metis append_take_drop_id set_append)
    moreover have "(n', c') \<notin> set (take m o')"
      using assms(5) sup by (metis fst_conv image_eqI set_map)
    ultimately show ?thesis by blast
  qed
  ultimately show ?thesis using srt e(1) by (force simp: sorted_append simp del: append_take_drop_id)
qed

definition pruned :: "(string \<Rightarrow> bool) \<Rightarrow> int \<Rightarrow> dir \<Rightarrow> string \<Rightarrow> string list" where
  "pruned rm keep d r = filter rm (superseded (nat (if keep < 1 then 1 else keep)) (by_run d r))"

lemma by_run_run: "e \<in> set (by_run d r) \<Longrightarrow> cp_RunID (snd e) = r \<and> e \<in> set (json_checkpoints d)"
  by (auto simp: by_run_def)

lemma pruned_run:
  "n \<in> set (pruned rm keep d r) \<Longrightarrow> \<exists>c. (n, c) \<in> set (json_checkpoints d) \<and> cp_RunID c = r"
  using superseded_subset by (fastforce simp: pruned_def dest: by_run_run)

lemma Prune_dir:
  "snd (Prune rm ord keep d) = filter (\<lambda>e. \<not> (\<exists>r\<in>set ord. fst e \<in> set (pruned rm keep d r))) d"
  by (auto simp: Prune_def Let_def pruned_def intro!: filter_cong)

lemma Prune_by_run:
  assumes "dir_ok d" "run_order d ord"
  shows "by_run (snd (Prune rm ord keep d)) r
      = filter (\<lambda>e. fst e \<notin> set (pruned rm keep d r)) (by_run d r)"
proof -
  have dis: "distinct (map fst (json_checkpoints d))"
    using assms(1) by (simp add: dir_ok_def distinct_json_checkpoints)
  have "(\<exists>q\<in>set ord. n \<in> set (pruned rm keep d q)) \<longleftrightarrow> n \<in> set (pruned rm keep d r)"
    if m: "(n, c) \<in> set (json_checkpoints d)" "cp_RunID c = r" for n c
  proof
    assume "\<exists>q\<in>set ord. n \<in> set (pruned rm keep d q)"
    then obtain q where q: "n \<in> set (pruned rm keep d q)" by blast
    from pruned_run[OF q] obtain c' where "(n, c') \<in> set (json_checkpoints d)" "cp_RunID c' = q" by blast
    with dis m have "q = r" by (metis eq_key_imp_eq_value)
    with q show "n \<in> set (pruned rm keep d r)" by simp
  next
    assume "n \<in> set (pruned rm keep d r)"
    moreover have "r \<in> set ord" using assms(2) m by (force simp: run_order_def)
    ultimately show "\<exists>q\<in>set ord. n \<in> set (pruned rm keep d q)" by blast
  qed
  then have key: "\<not> (\<exists>q\<in>set ord. fst e \<in> set (pruned rm keep d q)) \<longleftrightarrow> fst e \<notin> set (pruned rm keep d r)"
    if "e \<in> set (json_checkpoints d)" "cp_RunID (snd e) = r" for e
    using that by (cases e) simp
  have "by_run (snd (Prune rm ord keep d)) r = filter (\<lambda>e. cp_RunID (snd e) = r)
      (filter (\<lambda>e. \<not> (\<exists>q\<in>set ord. fst e \<in> set (pruned rm keep d q))) (json_checkpoints d))"
    unfolding by_run_def Prune_dir by (subst json_checkpoints_filter) (rule refl)
  also have "\<dots> = filter (\<lambda>e. fst e \<notin> set (pruned rm keep d r)) (by_run d r)"
    unfolding by_run_def filter_filter by (rule filter_cong[OF refl]) (metis key)
  finally show ?thesis .
qed

lemma length_filter_notin:
  "distinct (map f xs) \<Longrightarrow> distinct ys \<Longrightarrow> set ys \<subseteq> f ` set xs
   \<Longrightarrow> length (filter (\<lambda>x. f x \<notin> set ys) xs) = length xs - length ys"
proof -
  assume d: "distinct (map f xs)" "distinct ys" "set ys \<subseteq> f ` set xs"
  have "length (filter (\<lambda>x. f x \<notin> set ys) xs) = card (set (map f xs) - set ys)"
  proof -
    have "map f (filter (\<lambda>x. f x \<notin> set ys) xs) = filter (\<lambda>y. y \<notin> set ys) (map f xs)"
      by (simp add: filter_map o_def)
    then have "length (filter (\<lambda>x. f x \<notin> set ys) xs) = length (filter (\<lambda>y. y \<notin> set ys) (map f xs))"
      by (metis length_map)
    also have "\<dots> = card (set (filter (\<lambda>y. y \<notin> set ys) (map f xs)))"
      using d(1) by (metis distinct_card distinct_filter)
    also have "set (filter (\<lambda>y. y \<notin> set ys) (map f xs)) = set (map f xs) - set ys" by auto
    finally show ?thesis .
  qed
  also have "\<dots> = card (set (map f xs)) - card (set ys)"
    using d(3) by (intro card_Diff_subset) auto
  finally show ?thesis by (metis d(1,2) distinct_card length_map)
qed

lemma Prune_keeps:
  assumes "dir_ok d" "run_order d ord"
  shows "min (length (by_run d r)) (nat (max 1 keep)) \<le> length (by_run (snd (Prune rm ord keep d)) r)"
    and "(\<And>n. rm n) \<Longrightarrow> length (by_run (snd (Prune rm ord keep d)) r) = min (length (by_run d r)) (nat (max 1 keep))"
proof -
  have dis: "distinct (map fst (by_run d r))" using assms(1) by (simp add: dir_ok_def distinct_by_run)
  have sub: "set (pruned rm keep d r) \<subseteq> fst ` set (by_run d r)"
    using superseded_subset by (fastforce simp: pruned_def)
  have "distinct (pruned rm keep d r)" by (simp add: pruned_def superseded_distinct dis)
  from length_filter_notin[OF dis this sub]
  have len: "length (by_run (snd (Prune rm ord keep d)) r) = length (by_run d r) - length (pruned rm keep d r)"
    by (simp add: Prune_by_run[OF assms])
  have "length (pruned rm keep d r) \<le> length (by_run d r) - nat (max 1 keep)"
    unfolding pruned_def by (rule order.trans[OF length_filter_le]) (simp add: max_def)
  with len show "min (length (by_run d r)) (nat (max 1 keep)) \<le> length (by_run (snd (Prune rm ord keep d)) r)"
    by linarith
  assume "\<And>n. rm n"
  then have "length (pruned rm keep d r) = length (by_run d r) - nat (max 1 keep)"
    by (simp add: pruned_def max_def)
  with len show "length (by_run (snd (Prune rm ord keep d)) r) = min (length (by_run d r)) (nat (max 1 keep))"
    by linarith
qed

lemma Prune_older:
  assumes "dir_ok d" "run_order d ord" "\<And>n. rm n"
    "(n, c) \<in> set (by_run d r)" "(n, c) \<notin> set (by_run (snd (Prune rm ord keep d)) r)"
    "(n', c') \<in> set (by_run (snd (Prune rm ord keep d)) r)"
  shows "cp_CreatedAt c \<le> cp_CreatedAt c'"
proof (rule superseded_older)
  show "distinct (map fst (by_run d r))" using assms(1) by (simp add: dir_ok_def distinct_by_run)
  show "n \<in> set (superseded (nat (if keep < 1 then 1 else keep)) (by_run d r))"
    "n' \<notin> set (superseded (nat (if keep < 1 then 1 else keep)) (by_run d r))"
    using assms(3-6) by (auto simp: Prune_by_run[OF assms(1,2)] pruned_def)
qed (use assms(4,6) in \<open>auto simp: Prune_by_run[OF assms(1,2)]\<close>)

section \<open>Garbage collection of a run's artifacts\<close>

definition artifactPrefixes :: "string list" where
  "artifactPrefixes = [''events-'', ''obs-'', ''permissions-'', ''knowledge-'', ''budget-'',
     ''evidence-'', ''context-'']"

text \<open>\<open>strings.LastIndex(s, ".")\<close>.\<close>

fun last_dot :: "string \<Rightarrow> nat option" where
  "last_dot [] = None"
| "last_dot (c # s) = (case last_dot s of Some i \<Rightarrow> Some (Suc i)
     | None \<Rightarrow> if c = CHR ''.'' then Some 0 else None)"

fun artifact_with :: "string list \<Rightarrow> string \<Rightarrow> string option" where
  "artifact_with [] name = None"
| "artifact_with (p # ps) name =
     (if length p < length name \<and> take (length p) name = p then
        let rest = drop (length p) name in
        case last_dot rest of
          Some i \<Rightarrow> if 0 < i then Some (take i rest) else artifact_with ps name
        | None \<Rightarrow> artifact_with ps name
      else artifact_with ps name)"

definition artifactRunID :: "string \<Rightarrow> string option" where
  "artifactRunID name = artifact_with artifactPrefixes name"

record RetentionPolicy =
  KeepCheckpoints :: int
  MaxAgeDays :: int

definition DefaultRetention :: RetentionPolicy where
  "DefaultRetention = \<lparr>KeepCheckpoints = 5, MaxAgeDays = 30\<rparr>"

record GCReport =
  CheckpointsPruned :: nat
  ArtifactsRemoved :: "string list"

definition live_runs :: "dir \<Rightarrow> string set" where
  "live_runs d = set (filter (\<lambda>r. r \<noteq> []) (map (\<lambda>e. cp_RunID (snd e)) (json_checkpoints d)))"

text \<open>
  \<open>old age n\<close>: file \<open>n\<close> could be examined and was last modified no later than \<open>age\<close> days
  ago.
\<close>

definition GC :: "(string \<Rightarrow> bool) \<Rightarrow> (int \<Rightarrow> string \<Rightarrow> bool) \<Rightarrow> string list \<Rightarrow> RetentionPolicy \<Rightarrow> dir
    \<Rightarrow> GCReport \<times> dir" where
  "GC rm old ord policy d =
     (let keep = (if KeepCheckpoints policy < 1 then 1 else KeepCheckpoints policy);
          (pruned, d1) = Prune rm ord keep d
      in if MaxAgeDays policy \<le> 0 then (\<lparr>CheckpointsPruned = pruned, ArtifactsRemoved = []\<rparr>, d1)
         else let live = live_runs d1;
                  gone = filter (\<lambda>n. (case artifactRunID n of None \<Rightarrow> False | Some r \<Rightarrow> r \<notin> live)
                    \<and> old (MaxAgeDays policy) n \<and> rm n) (map fst d1)
              in (\<lparr>CheckpointsPruned = pruned, ArtifactsRemoved = sort gone\<rparr>,
                  filter (\<lambda>e. fst e \<notin> set gone) d1))"

lemma live_runs_by_run: "r \<in> live_runs d \<longleftrightarrow> r \<noteq> [] \<and> by_run d r \<noteq> []"
  by (auto simp: live_runs_def by_run_def filter_empty_conv)

lemma live_runs_Prune:
  assumes "dir_ok d" "run_order d ord"
  shows "live_runs (snd (Prune rm ord keep d)) = live_runs d"
proof -
  have "by_run (snd (Prune rm ord keep d)) r \<noteq> [] \<longleftrightarrow> by_run d r \<noteq> []" for r
  proof
    assume "by_run d r \<noteq> []"
    then have "1 \<le> min (length (by_run d r)) (nat (max 1 keep))"
      by (cases "by_run d r") auto
    with Prune_keeps(1)[OF assms] have "1 \<le> length (by_run (snd (Prune rm ord keep d)) r)"
      by (meson order.trans)
    then show "by_run (snd (Prune rm ord keep d)) r \<noteq> []" by auto
  qed (auto simp: Prune_by_run[OF assms])
  then show ?thesis by (auto simp: live_runs_by_run)
qed

lemma artifact_not_checkpoint: "artifactRunID n = Some r \<Longrightarrow> \<not> is_checkpoint_json n"
proof
  assume a: "artifactRunID n = Some r" "is_checkpoint_json n"
  then have "n = ''checkpoint-'' @ drop 11 n"
    by (metis append_take_drop_id is_checkpoint_json_def)
  then obtain n' where n': "n = ''checkpoint-'' @ n'" ..
  show False using a(1) by (simp add: n' artifactRunID_def artifactPrefixes_def)
qed

lemma GC_dir:
  "snd (GC rm old ord p d) = (let d1 = snd (Prune rm ord (max 1 (KeepCheckpoints p)) d) in
     if MaxAgeDays p \<le> 0 then d1
     else filter (\<lambda>e. \<not> ((case artifactRunID (fst e) of None \<Rightarrow> False | Some r \<Rightarrow> r \<notin> live_runs d1)
                    \<and> old (MaxAgeDays p) (fst e) \<and> rm (fst e))) d1)"
proof -
  obtain k d1 where kd: "Prune rm ord (max 1 (KeepCheckpoints p)) d = (k, d1)" by fastforce
  have m: "(if KeepCheckpoints p < 1 then 1 else KeepCheckpoints p) = max 1 (KeepCheckpoints p)" by simp
  show ?thesis unfolding GC_def Let_def m kd snd_conv prod.case by (auto intro!: filter_cong)
qed

lemma GC_artifact_safe:
  assumes "dir_ok d" "run_order d ord" "(n, f) \<in> set d" "artifactRunID n = Some r"
    "r \<in> live_runs d"
  shows "(n, f) \<in> set (snd (GC rm old ord p d))"
proof -
  let ?d1 = "snd (Prune rm ord (max 1 (KeepCheckpoints p)) d)"
  have "n \<notin> set (pruned rm k d q)" for k q
    using artifact_not_checkpoint[OF assms(4)] pruned_run[of n rm k d q]
    by (auto simp: json_checkpoints_mem)
  then have "(n, f) \<in> set ?d1" using assms(3) by (simp add: Prune_dir)
  moreover have "r \<in> live_runs ?d1" by (simp add: live_runs_Prune[OF assms(1,2)] assms(5))
  ultimately show ?thesis using assms(4) by (simp add: GC_dir Let_def)
qed

lemma GC_live:
  assumes "dir_ok d" "run_order d ord"
  shows "live_runs (snd (GC rm old ord p d)) = live_runs d"
proof -
  let ?d1 = "snd (Prune rm ord (max 1 (KeepCheckpoints p)) d)"
  let ?P = "\<lambda>n. \<not> ((case artifactRunID n of None \<Rightarrow> False | Some r \<Rightarrow> r \<notin> live_runs ?d1)
                    \<and> old (MaxAgeDays p) n \<and> rm n)"
  have "filter (\<lambda>e. ?P (fst e)) (json_checkpoints ?d1) = json_checkpoints ?d1"
    by (rule filter_True) (auto simp: json_checkpoints_mem dest: artifact_not_checkpoint split: option.splits)
  then have "json_checkpoints (snd (GC rm old ord p d)) = json_checkpoints ?d1"
    unfolding GC_dir Let_def by (cases "MaxAgeDays p \<le> 0") (simp_all only: if_True if_False json_checkpoints_filter[where P = ?P])
  then have "live_runs (snd (GC rm old ord p d)) = live_runs ?d1" by (simp add: live_runs_def)
  then show ?thesis by (simp add: live_runs_Prune[OF assms])
qed

end
