(* ===== verification/EffectJournal.thy ===== *)
theory EffectJournal
  imports CheckpointStore
begin

text \<open>
  \<open>internal/harness/checkpoint/checkpoint.go\<close>: the side-effect journal. The runner asks
  it before a tool with side effects runs (\<open>RecordIntent\<close>) and tells it what happened
  (\<open>RecordOutcome\<close>). The file is absent, unreadable (the code then starts from an empty
  journal) or the stored list; \<open>io\<close> is the outcome of a write.
\<close>

section \<open>The journal file\<close>

datatype fx_file = FxAbsent | FxUnreadable | FxStored "PendingEffect list"

datatype fx_error =
    NeedsIdempotencyKey
  | UnknownOutcomeFail string
  | UnknownOutcomeNoPolicy string
  | FxWriteError
  | UnknownEffect string

fun loadEffects :: "fx_file \<Rightarrow> PendingEffect list" where
  "loadEffects (FxStored xs) = xs"
| "loadEffects FxAbsent = []"
| "loadEffects FxUnreadable = []"

definition saveEffects :: "write_io \<Rightarrow> fx_file \<Rightarrow> PendingEffect list \<Rightarrow> fx_file \<times> fx_error option" where
  "saveEffects io j fx = (case io of
     WriteOk \<Rightarrow> (FxStored (sort_key fx_ID fx), None)
   | _ \<Rightarrow> (j, Some FxWriteError))"

definition recoveryPolicy :: "PendingEffect \<Rightarrow> string" where
  "recoveryPolicy fx = to_lower (trim_space (fx_RecoveryPolicy fx))"

text \<open>
  The loop of \<open>RecordIntent\<close>: \<open>Some\<close> is an early return, \<open>None\<close> the end of the loop. An
  entry of the same id with any other status falls through to the next entry.
\<close>

fun intent_scan :: "PendingEffect \<Rightarrow> PendingEffect list \<Rightarrow> (bool \<times> fx_error option) option" where
  "intent_scan fx [] = None"
| "intent_scan fx (e # es) =
     (if fx_IdempotencyKey e = fx_IdempotencyKey fx \<and> fx_Status e = Some EffectApplied then Some (False, None)
      else if fx_ID e = fx_ID fx then
        (case fx_Status e of
           Some EffectApplied \<Rightarrow> Some (False, None)
         | Some EffectFailed \<Rightarrow> Some (True, None)
         | Some EffectRolledBack \<Rightarrow> Some (True, None)
         | Some EffectPending \<Rightarrow>
             (if recoveryPolicy e = ''retry'' then Some (True, None)
              else if recoveryPolicy e = ''skip'' then Some (False, None)
              else if recoveryPolicy e = ''fail'' then Some (False, Some (UnknownOutcomeFail (fx_ID e)))
              else Some (False, Some (UnknownOutcomeNoPolicy (fx_ID e))))
         | _ \<Rightarrow> intent_scan fx es)
      else intent_scan fx es)"

definition filled_in :: "string \<Rightarrow> PendingEffect \<Rightarrow> PendingEffect" where
  "filled_in now fx =
     (let fx = (if fx_Status fx = None then fx\<lparr>fx_Status := Some EffectPending\<rparr> else fx);
          fx = (if fx_CreatedAt fx = [] then fx\<lparr>fx_CreatedAt := now\<rparr> else fx)
      in if fx_RecoveryPolicy fx = [] then fx\<lparr>fx_RecoveryPolicy := ''fail''\<rparr> else fx)"

definition RecordIntent :: "write_io \<Rightarrow> string \<Rightarrow> fx_file \<Rightarrow> PendingEffect
    \<Rightarrow> fx_file \<times> bool \<times> fx_error option" where
  "RecordIntent io now j fx =
     (if fx_IdempotencyKey fx = [] then (j, False, Some NeedsIdempotencyKey)
      else case intent_scan fx (loadEffects j) of
        Some r \<Rightarrow> (j, r)
      | None \<Rightarrow> (let (j', e) = saveEffects io j (loadEffects j @ [filled_in now fx]) in (j', True, e)))"

definition RecordOutcome :: "write_io \<Rightarrow> fx_file \<Rightarrow> string \<Rightarrow> EffectStatus \<Rightarrow> fx_file \<times> fx_error option" where
  "RecordOutcome io j i status =
     (case update_first (\<lambda>e. fx_ID e = i) (\<lambda>e. e\<lparr>fx_Status := Some status\<rparr>) (loadEffects j) of
        None \<Rightarrow> (j, Some (UnknownEffect i))
      | Some all \<Rightarrow> saveEffects io j all)"

definition Effects :: "fx_file \<Rightarrow> PendingEffect list" where
  "Effects j = sort_key fx_CreatedAt (loadEffects j)"

section \<open>The well-formed journal\<close>

text \<open>Ids are distinct and every status is one of the four the code names.\<close>

definition journal_ok :: "fx_file \<Rightarrow> bool" where
  "journal_ok j \<longleftrightarrow> distinct (map fx_ID (loadEffects j)) \<and>
     (\<forall>e\<in>set (loadEffects j). fx_Status e \<in> Some ` {EffectPending, EffectApplied, EffectFailed, EffectRolledBack})"

definition known_status :: "EffectStatus option \<Rightarrow> bool" where
  "known_status s \<longleftrightarrow> (case s of None \<Rightarrow> True | Some (EffectOther _) \<Rightarrow> False | _ \<Rightarrow> True)"

text \<open>What the journal knows of an effect id.\<close>

definition view :: "fx_file \<Rightarrow> string \<rightharpoonup> PendingEffect" where
  "view j = map_of (map (\<lambda>e. (fx_ID e, e)) (loadEffects j))"

lemma saveEffects_load:
  "saveEffects io j fx = (j', None) \<Longrightarrow> loadEffects j' = sort_key fx_ID fx"
  "saveEffects io j fx = (j', Some e) \<Longrightarrow> j' = j"
  by (auto simp: saveEffects_def split: write_io.splits)

lemma intent_scan_None:
  "(\<forall>e\<in>set es. fx_Status e \<in> Some ` {EffectPending, EffectApplied, EffectFailed, EffectRolledBack}) \<Longrightarrow>
   intent_scan fx es = None \<longleftrightarrow>
     fx_ID fx \<notin> fx_ID ` set es \<and> (\<forall>e\<in>set es. fx_IdempotencyKey e = fx_IdempotencyKey fx \<longrightarrow> fx_Status e \<noteq> Some EffectApplied)"
  by (induction es) auto

lemma intent_scan_refuses:
  "e \<in> set es \<Longrightarrow> fx_ID e = fx_ID fx \<Longrightarrow> distinct (map fx_ID es) \<Longrightarrow>
   fx_Status e = Some EffectApplied \<or> fx_Status e = Some EffectPending \<and> recoveryPolicy e \<noteq> ''retry''
   \<Longrightarrow> \<exists>err. intent_scan fx es = Some (False, err)"
proof (induction es)
  case (Cons a es)
  show ?case
  proof (cases "fx_ID a = fx_ID fx")
    case True
    with Cons.prems have "a = e" by (auto simp: image_iff)
    with Cons.prems show ?thesis by auto
  next
    case False
    with Cons have "\<exists>err. intent_scan fx es = Some (False, err)" by auto
    with False show ?thesis by auto
  qed
qed simp

lemma intent_scan_go: "intent_scan fx es = Some (True, err) \<Longrightarrow> fx_ID fx \<in> fx_ID ` set es"
  by (induction es) (auto split: if_splits option.splits EffectStatus.splits)

lemma view_Some: "journal_ok j \<Longrightarrow> view j i = Some e \<longleftrightarrow> e \<in> set (loadEffects j) \<and> fx_ID e = i"
  by (auto simp: view_def journal_ok_def map_of_eq_Some_iff o_def)

lemma view_sorted:
  "distinct (map fx_ID es) \<Longrightarrow> view (FxStored (sort_key fx_ID es)) = map_of (map (\<lambda>e. (fx_ID e, e)) es)"
  unfolding view_def by (subst map_of_inject_set) (auto simp: o_def simp del: sort_key_simps)

lemma filled_in_simps [simp]:
  "fx_ID (filled_in now fx) = fx_ID fx"
  "fx_Status (filled_in now fx) = (case fx_Status fx of None \<Rightarrow> Some EffectPending | s \<Rightarrow> s)"
  by (auto simp: filled_in_def Let_def split: option.splits)

lemma filled_in_policy:
  "recoveryPolicy (filled_in now fx) = (if fx_RecoveryPolicy fx = [] then ''fail'' else recoveryPolicy fx)"
proof -
  have "to_lower (trim_space ''fail'') = ''fail''" by code_simp
  then show ?thesis by (auto simp: filled_in_def recoveryPolicy_def Let_def)
qed

lemma RecordIntent_cases:
  assumes "journal_ok j"
  obtains (kept) r where "RecordIntent io now j fx = (j, r)"
      "r = (True, None) \<longrightarrow> view j (fx_ID fx) \<noteq> None"
  | (added) "view j (fx_ID fx) = None" "RecordIntent io now j fx
        = (FxStored (sort_key fx_ID (loadEffects j @ [filled_in now fx])), True, None)"
proof (cases "fx_IdempotencyKey fx = []")
  case True
  then show ?thesis using kept by (simp add: RecordIntent_def)
next
  case ne: False
  show ?thesis
  proof (cases "intent_scan fx (loadEffects j)")
    case (Some r)
    have "r = (True, None) \<longrightarrow> view j (fx_ID fx) \<noteq> None"
      using Some intent_scan_go[of fx "loadEffects j" None]
      by (auto simp: view_def map_of_eq_None_iff image_image)
    then show ?thesis using kept[of r] Some ne by (simp add: RecordIntent_def)
  next
    case None
    then have "view j (fx_ID fx) = None"
      using intent_scan_None[of "loadEffects j" fx] assms
      by (force simp: journal_ok_def view_def map_of_eq_None_iff o_def)
    then show ?thesis using None ne kept[of "(True, Some FxWriteError)"] added
      by (cases io) (auto simp: RecordIntent_def saveEffects_def)
  qed
qed

text \<open>
  Only the ``kept'' case can be a refusal or a repetition; the ``added'' case is the one that
  writes the intent of an unknown effect before it runs.
\<close>

lemma journal_ok_Intent [inv_intros]:
  assumes "journal_ok j" "known_status (fx_Status fx)"
  shows "journal_ok (fst (RecordIntent io now j fx))"
  using assms(1)
proof (cases rule: RecordIntent_cases[of j io now fx])
  case added
  then show ?thesis using assms
    by (auto simp: journal_ok_def known_status_def view_def map_of_eq_None_iff image_image
        simp del: sort_key_simps split: option.splits EffectStatus.splits)
qed (use assms in auto)

lemma added_view:
  assumes "journal_ok j" "view j (fx_ID e) = None"
  shows "view (FxStored (sort_key fx_ID (loadEffects j @ [e]))) = (view j)(fx_ID e \<mapsto> e)"
proof -
  have "distinct (map fx_ID (loadEffects j @ [e]))"
    using assms by (auto simp: journal_ok_def view_def map_of_eq_None_iff image_image)
  from view_sorted[OF this] assms(2) show ?thesis
    by (auto simp: view_def map_add_def fun_eq_iff split: option.splits)
qed

lemma Intent_view:
  assumes "journal_ok j"
  shows "view (fst (RecordIntent io now j fx)) = view j \<or>
     view j (fx_ID fx) = None \<and> snd (RecordIntent io now j fx) = (True, None) \<and>
     view (fst (RecordIntent io now j fx)) = (view j)(fx_ID fx \<mapsto> filled_in now fx)"
  using assms
proof (cases rule: RecordIntent_cases[of j io now fx])
  case added
  with added_view[of j "filled_in now fx"] assms show ?thesis by simp
qed auto

lemma Intent_refuses:
  assumes "journal_ok j" "view j (fx_ID fx) = Some e"
    "fx_Status e = Some EffectApplied \<or> fx_Status e = Some EffectPending \<and> recoveryPolicy e \<noteq> ''retry''"
  shows "fst (RecordIntent io now j fx) = j \<and> \<not> fst (snd (RecordIntent io now j fx))"
  using intent_scan_refuses[of e "loadEffects j" fx] assms
  by (auto simp: RecordIntent_def view_Some) (auto simp: journal_ok_def)

lemma Intent_fresh:
  assumes "journal_ok j" "RecordIntent io now j fx = (j', True, None)" "view j (fx_ID fx) = None"
  shows "view j' (fx_ID fx) = Some (filled_in now fx)"
  using assms(1)
proof (cases rule: RecordIntent_cases[of j io now fx])
  case (kept r)
  then show ?thesis using assms by simp
next
  case added
  with added_view[of j "filled_in now fx"] assms show ?thesis by auto
qed

lemma Outcome_cases:
  assumes "journal_ok j" "RecordOutcome io j i s = (j', r)"
  obtains "r \<noteq> None" "j' = j"
  | e where "r = None" "view j i = Some e" "view j' = (view j)(i \<mapsto> e\<lparr>fx_Status := Some s\<rparr>)"
      "known_status (Some s) \<Longrightarrow> journal_ok j'"
proof (cases "update_first (\<lambda>e. fx_ID e = i) (\<lambda>e. e\<lparr>fx_Status := Some s\<rparr>) (loadEffects j)")
  case None
  then show ?thesis using that(1) assms(2) unfolding RecordOutcome_def by (simp only: option.case prod.inject) blast
next
  case (Some all)
  from update_first_split[OF Some] obtain as x bs where
    x: "loadEffects j = as @ x # bs" "fx_ID x = i" "all = as @ x\<lparr>fx_Status := Some s\<rparr> # bs" by blast
  have dis: "distinct (map fx_ID all)" using assms(1) x by (simp add: journal_ok_def)
  show ?thesis
  proof (cases io)
    case WriteOk
    with assms(2) Some have j': "j' = FxStored (sort_key fx_ID all)" "r = None"
      by (auto simp: RecordOutcome_def saveEffects_def)
    have vx: "view j i = Some x" using assms(1) x by (simp add: view_Some)
    have na: "i \<notin> fx_ID ` set as" using assms(1) x by (auto simp: journal_ok_def)
    then have "view j' = (view j)(i \<mapsto> x\<lparr>fx_Status := Some s\<rparr>)"
    proof -
      have "view j' = map_of (map (\<lambda>e. (fx_ID e, e)) all)"
        unfolding j'(1) by (rule view_sorted[OF dis])
      with na x(2) show ?thesis
        using map_of_change_middle[of i "map (\<lambda>e. (fx_ID e, e)) as" "x\<lparr>fx_Status := Some s\<rparr>"
            "map (\<lambda>e. (fx_ID e, e)) bs" x]
        by (simp add: view_def x(1,3) image_image)
    qed
    moreover have "journal_ok j'" if "known_status (Some s)"
      using that assms(1) x dis
      by (auto simp: j'(1) journal_ok_def known_status_def simp del: sort_key_simps
          split: EffectStatus.splits)
    ultimately show ?thesis using that(2)[of x] vx j'(2) by blast
  qed (use that(1) assms(2) Some in \<open>auto simp: RecordOutcome_def saveEffects_def\<close>)
qed

section \<open>The contract the runner relies on\<close>

text \<open>
  How a client uses a journal, over any journal operations: it asks before the effect, runs
  it only on \<open>(true, nil)\<close>, and records how it ended. A crash between the two records
  nothing; a success whose record cannot be written counts as a crash. Each of the two calls
  has its own environment (for the code: the outcome of the write and the time), so any write
  of the sequence may fail. The trace lists the effects that ran and how each ended.
\<close>

datatype attempt_end = Succeeded | DidNotTake | Crashed

type_synonym 'x trial = "PendingEffect \<times> attempt_end \<times> 'x \<times> 'x"

abbreviation asked :: "'x trial \<Rightarrow> 'x" where
  "asked a \<equiv> fst (snd (snd a))"

abbreviation told :: "'x trial \<Rightarrow> 'x" where
  "told a \<equiv> snd (snd (snd a))"

definition attempt ::
    "('x \<Rightarrow> 'j \<Rightarrow> PendingEffect \<Rightarrow> 'j \<times> bool \<times> 'e option) \<Rightarrow> ('x \<Rightarrow> 'j \<Rightarrow> string \<Rightarrow> EffectStatus \<Rightarrow> 'j \<times> 'e option)
     \<Rightarrow> 'j \<Rightarrow> 'x trial \<Rightarrow> 'j \<times> (string \<times> attempt_end) list" where
  "attempt intent outcome j a =
     (case intent (asked a) j (fst a) of
        (j', go, err) \<Rightarrow>
          if go \<and> err = None then
            (case fst (snd a) of
               Crashed \<Rightarrow> (j', [(fx_ID (fst a), Crashed)])
             | Succeeded \<Rightarrow> (case outcome (told a) j' (fx_ID (fst a)) EffectApplied of
                 (j'', None) \<Rightarrow> (j'', [(fx_ID (fst a), Succeeded)])
               | (j'', Some _) \<Rightarrow> (j'', [(fx_ID (fst a), Crashed)]))
             | DidNotTake \<Rightarrow> (case outcome (told a) j' (fx_ID (fst a)) EffectFailed of
                 (j'', _) \<Rightarrow> (j'', [(fx_ID (fst a), DidNotTake)])))
          else (j', []))"

fun attempts ::
    "('x \<Rightarrow> 'j \<Rightarrow> PendingEffect \<Rightarrow> 'j \<times> bool \<times> 'e option) \<Rightarrow> ('x \<Rightarrow> 'j \<Rightarrow> string \<Rightarrow> EffectStatus \<Rightarrow> 'j \<times> 'e option)
     \<Rightarrow> 'j \<Rightarrow> 'x trial list \<Rightarrow> (string \<times> attempt_end) list" where
  "attempts intent outcome j [] = []"
| "attempts intent outcome j (a # as) =
     (case attempt intent outcome j a of (j', t) \<Rightarrow> t @ attempts intent outcome j' as)"

lemma attempts_ends:
  "(i, e) \<in> set (attempts intent outcome j as) \<Longrightarrow> e = Crashed \<or> e \<in> (\<lambda>a. fst (snd a)) ` set as"
proof (induction as arbitrary: j)
  case (Cons a as)
  obtain j' t where "attempt intent outcome j a = (j', t)" by fastforce
  moreover from this have "(i, e) \<in> set t \<Longrightarrow> e = Crashed \<or> e = fst (snd a)"
    by (auto simp: attempt_def split: prod.splits if_splits attempt_end.splits option.splits)
  ultimately show ?case using Cons by auto
qed simp

definition unknown_outcome :: "PendingEffect \<Rightarrow> bool" where
  "unknown_outcome e \<longleftrightarrow> fx_Status e = Some EffectPending \<and> recoveryPolicy e \<noteq> ''retry''"

locale effect_journal =
  fixes inv :: "'j \<Rightarrow> bool"
    and look :: "'j \<Rightarrow> string \<rightharpoonup> PendingEffect"
    and intent :: "'x \<Rightarrow> 'j \<Rightarrow> PendingEffect \<Rightarrow> 'j \<times> bool \<times> 'e option"
    and outcome :: "'x \<Rightarrow> 'j \<Rightarrow> string \<Rightarrow> EffectStatus \<Rightarrow> 'j \<times> 'e option"
  assumes intent_inv: "inv j \<Longrightarrow> known_status (fx_Status fx) \<Longrightarrow> inv (fst (intent x j fx))"
    and outcome_inv: "inv j \<Longrightarrow> known_status (Some s) \<Longrightarrow> inv (fst (outcome x j i s))"
    and intent_keeps: "inv j \<Longrightarrow> look j i = Some e \<Longrightarrow> look (fst (intent x j fx)) i = Some e"
    and intent_other: "inv j \<Longrightarrow> i \<noteq> fx_ID fx \<Longrightarrow> look (fst (intent x j fx)) i = look j i"
    and intent_stops: "inv j \<Longrightarrow> snd (intent x j fx) \<noteq> (True, None) \<Longrightarrow> look (fst (intent x j fx)) = look j"
    and intent_refuses: "inv j \<Longrightarrow> look j (fx_ID fx) = Some e \<Longrightarrow>
        fx_Status e = Some EffectApplied \<or> unknown_outcome e \<Longrightarrow> \<not> fst (snd (intent x j fx))"
    and intent_records: "inv j \<Longrightarrow> intent x j fx = (j', True, None) \<Longrightarrow> look j (fx_ID fx) = None \<Longrightarrow>
        \<exists>now. look j' (fx_ID fx) = Some (filled_in now fx)"
    and outcome_records: "inv j \<Longrightarrow> outcome x j i s = (j', None) \<Longrightarrow>
        \<exists>e. look j i = Some e \<and> look j' = (look j)(i \<mapsto> e\<lparr>fx_Status := Some s\<rparr>)"
    and outcome_fails: "outcome x j i s = (j', Some err) \<Longrightarrow> look j' = look j"
begin

lemma attempt_inv:
  assumes "inv j" "known_status (fx_Status (fst a))"
  shows "inv (fst (attempt intent outcome j a))"
proof -
  obtain j1 go err where i: "intent (asked a) j (fst a) = (j1, go, err)" by (metis prod_cases3)
  have v1: "inv j1" using intent_inv[OF assms, of "asked a"] i by simp
  have "inv (fst (outcome (told a) j1 (fx_ID (fst a)) EffectApplied))" "inv (fst (outcome (told a) j1 (fx_ID (fst a)) EffectFailed))"
    by (rule outcome_inv[OF v1]; simp add: known_status_def)+
  then show ?thesis using v1 i
    by (auto simp: attempt_def split: attempt_end.splits prod.splits option.splits)
qed

text \<open>An effect the journal refuses stays refused and does not run.\<close>

definition refused :: "'j \<Rightarrow> string \<Rightarrow> bool" where
  "refused j i \<longleftrightarrow> (\<exists>e. look j i = Some e \<and> (fx_Status e = Some EffectApplied \<or> unknown_outcome e))"

lemma outcome_look:
  "inv j \<Longrightarrow> outcome x j i s = (j', r) \<Longrightarrow> k \<noteq> i \<Longrightarrow> look j' k = look j k"
  by (cases r) (auto dest: outcome_records outcome_fails)

lemma refused_attempt:
  assumes "inv j" "refused j i" "known_status (fx_Status (fst a))"
  shows "refused (fst (attempt intent outcome j a)) i \<and> i \<notin> fst ` set (snd (attempt intent outcome j a))"
proof -
  obtain j1 go err where i: "intent (asked a) j (fst a) = (j1, go, err)" by (metis prod_cases3)
  have r1: "refused j1 i" using intent_keeps[OF assms(1), of i _ "asked a" "fst a"] assms(2) i
    by (auto simp: refused_def)
  have v1: "inv j1" using intent_inv[OF assms(1,3), of "asked a"] i by simp
  show ?thesis
  proof (cases "fx_ID (fst a) = i")
    case True
    then have "\<not> go" using intent_refuses[OF assms(1), of "fst a" _ "asked a"] assms(2) i by (auto simp: refused_def)
    then show ?thesis using r1 i by (simp add: attempt_def)
  next
    case False
    have "refused (fst (outcome (told a) j1 (fx_ID (fst a)) s)) i" for s
      using r1 outcome_look[OF v1, of "told a" "fx_ID (fst a)" s _ _ i] False
      by (cases "outcome (told a) j1 (fx_ID (fst a)) s") (auto simp: refused_def)
    from this[of EffectApplied] this[of EffectFailed] show ?thesis using r1 i False
      by (auto simp: attempt_def split: attempt_end.splits prod.splits option.splits)
  qed
qed

lemma refused_attempts:
  "inv j \<Longrightarrow> refused j i \<Longrightarrow> \<forall>a\<in>set as. known_status (fx_Status (fst a)) \<Longrightarrow>
     i \<notin> fst ` set (attempts intent outcome j as)"
proof (induction as arbitrary: j)
  case (Cons a as)
  obtain j' t where at: "attempt intent outcome j a = (j', t)" by fastforce
  have "inv j'" "refused j' i" "i \<notin> fst ` set t"
    using attempt_inv[of j a] refused_attempt[of j i a] Cons.prems at by auto
  with Cons.IH[of j'] Cons.prems at show ?case by auto
qed simp

lemma success_refused:
  assumes "inv j" "known_status (fx_Status (fst a))" "attempt intent outcome j a = (j', t)" "(i, Succeeded) \<in> set t"
  shows "refused j' i \<and> length (filter (\<lambda>p. p = (i, Succeeded)) t) \<le> 1"
proof -
  obtain j1 go err where i: "intent (asked a) j (fst a) = (j1, go, err)" by (metis prod_cases3)
  have v1: "inv j1" using intent_inv[OF assms(1,2), of "asked a"] i by simp
  from assms(3,4) i have "fx_ID (fst a) = i" "outcome (told a) j1 i EffectApplied = (j', None)" "length t \<le> 1"
    by (auto simp: attempt_def split: if_splits attempt_end.splits prod.splits option.splits)
  with outcome_records[OF v1] show ?thesis
    by (fastforce simp: refused_def intro: order.trans[OF length_filter_le])
qed

theorem at_most_one_success:
  "inv j \<Longrightarrow> \<forall>a\<in>set as. known_status (fx_Status (fst a)) \<Longrightarrow>
     length (filter (\<lambda>p. p = (i, Succeeded)) (attempts intent outcome j as)) \<le> 1"
proof (induction as arbitrary: j)
  case (Cons a as)
  obtain j' t where at: "attempt intent outcome j a = (j', t)" by fastforce
  have v: "inv j'" using attempt_inv[of j a] Cons.prems at by auto
  show ?case
  proof (cases "(i, Succeeded) \<in> set t")
    case True
    from success_refused[OF _ _ at this] Cons.prems
    have r: "refused j' i" "length (filter (\<lambda>p. p = (i, Succeeded)) t) \<le> 1" by auto
    have "i \<notin> fst ` set (attempts intent outcome j' as)"
      by (rule refused_attempts[OF v r(1)]) (use Cons.prems in auto)
    then have "filter (\<lambda>p. p = (i, Succeeded)) (attempts intent outcome j' as) = []"
      by (force simp: filter_empty_conv)
    then show ?thesis using r(2) at by simp
  next
    case False
    then have "filter (\<lambda>p. p = (i, Succeeded)) t = []" by (auto simp: filter_empty_conv)
    with Cons.IH[OF v] Cons.prems at show ?thesis by simp
  qed
qed simp

text \<open>
  Without the retry policy, and as long as no run of the effect is recorded as failed, an
  effect starts at most once, however the attempts crash.
\<close>

lemma first_run:
  assumes "inv j" "known_status (fx_Status (fst a))" "look j i = None"
    "fx_ID (fst a) = i \<longrightarrow> fx_Status (fst a) \<in> {None, Some EffectPending}
       \<and> (fx_RecoveryPolicy (fst a) = [] \<or> recoveryPolicy (fst a) \<noteq> ''retry'')"
    "attempt intent outcome j a = (j', t)" "(i, DidNotTake) \<notin> set t"
  shows "look j' i = None \<and> i \<notin> fst ` set t \<or> refused j' i \<and> length t \<le> 1"
proof -
  obtain j1 go err where i: "intent (asked a) j (fst a) = (j1, go, err)" by (metis prod_cases3)
  have v1: "inv j1" using intent_inv[OF assms(1,2), of "asked a"] i by simp
  show ?thesis
  proof (cases "fx_ID (fst a) = i \<and> go \<and> err = None")
    case False
    then have l1: "look j1 i = None"
      using intent_stops[OF assms(1), of "asked a" "fst a"] intent_other[OF assms(1), of i "fst a" "asked a"] i assms(3) by fastforce
    show ?thesis
    proof (cases "go \<and> err = None")
      case True
      with False have "i \<noteq> fx_ID (fst a)" by auto
      with outcome_look[OF v1 _ this] l1 assms(5) i True show ?thesis
        by (fastforce simp: attempt_def split: if_splits attempt_end.splits prod.splits option.splits)
    qed (use l1 assms(5) i in \<open>auto simp: attempt_def\<close>)
  next
    case True
    obtain now where n: "look j1 i = Some (filled_in now (fst a))"
      using intent_records[OF assms(1), of "asked a" "fst a" j1] i True assms(3) by auto
    have u: "unknown_outcome (filled_in now (fst a))"
      using assms(4) True by (auto simp: unknown_outcome_def filled_in_policy split: option.splits)
    have "look j' i = look j1 i \<or> outcome (told a) j1 i EffectApplied = (j', None)" "length t \<le> 1"
      using assms(5,6) i True outcome_fails[of "told a" j1 i EffectApplied]
      by (auto simp: attempt_def split: if_splits attempt_end.splits prod.splits option.splits)
    with n u outcome_records[OF v1, of "told a" i EffectApplied j'] show ?thesis by (auto simp: refused_def)
  qed
qed

theorem at_most_one_run:
  "inv j \<Longrightarrow> \<forall>a\<in>set as. known_status (fx_Status (fst a)) \<Longrightarrow> look j i = None \<Longrightarrow>
   \<forall>a\<in>set as. fx_ID (fst a) = i \<longrightarrow> fx_Status (fst a) \<in> {None, Some EffectPending}
       \<and> (fx_RecoveryPolicy (fst a) = [] \<or> recoveryPolicy (fst a) \<noteq> ''retry'') \<Longrightarrow>
   (i, DidNotTake) \<notin> set (attempts intent outcome j as) \<Longrightarrow>
     length (filter (\<lambda>p. fst p = i) (attempts intent outcome j as)) \<le> 1"
proof (induction as arbitrary: j)
  case (Cons a as)
  obtain j' t where at: "attempt intent outcome j a = (j', t)" by fastforce
  have v: "inv j'" using attempt_inv[of j a] Cons.prems at by auto
  have kn: "\<forall>a\<in>set as. known_status (fx_Status (fst a))" using Cons.prems by auto
  have "look j' i = None \<and> i \<notin> fst ` set t \<or> refused j' i \<and> length t \<le> 1"
    by (rule first_run[OF Cons.prems(1) _ Cons.prems(3) _ at]) (use Cons.prems at in auto)
  then show ?case
  proof
    assume l: "look j' i = None \<and> i \<notin> fst ` set t"
    then have "filter (\<lambda>p. fst p = i) t = []" by (auto simp: filter_empty_conv)
    with Cons.IH[OF v kn] Cons.prems at l show ?thesis by simp
  next
    assume r: "refused j' i \<and> length t \<le> 1"
    with refused_attempts[OF v _ kn, of i]
    have "filter (\<lambda>p. fst p = i) (attempts intent outcome j' as) = []"
      by (auto simp: filter_empty_conv)
    with r at show ?thesis by (auto intro: order.trans[OF length_filter_le])
  qed
qed simp

end

interpretation fxj: effect_journal journal_ok view "\<lambda>x. RecordIntent (fst x) (snd x)" "\<lambda>x. RecordOutcome (fst x)"
proof unfold_locales
  show "journal_ok j \<Longrightarrow> known_status (Some s) \<Longrightarrow> journal_ok (fst (RecordOutcome (fst x) j i s))" for j s i and x :: "write_io \<times> string"
    by (metis Outcome_cases prod.collapse)
  show "journal_ok j \<Longrightarrow> view j i = Some e \<Longrightarrow> view (fst (RecordIntent (fst x) (snd x) j fx)) i = Some e" for j i e fx and x :: "write_io \<times> string"
    using Intent_view[of j "fst x" "snd x" fx] by fastforce
  show "journal_ok j \<Longrightarrow> i \<noteq> fx_ID fx \<Longrightarrow> view (fst (RecordIntent (fst x) (snd x) j fx)) i = view j i" for j i fx and x :: "write_io \<times> string"
    using Intent_view[of j "fst x" "snd x" fx] by fastforce
  show "journal_ok j \<Longrightarrow> snd (RecordIntent (fst x) (snd x) j fx) \<noteq> (True, None)
      \<Longrightarrow> view (fst (RecordIntent (fst x) (snd x) j fx)) = view j" for j fx and x :: "write_io \<times> string"
    using Intent_view[of j "fst x" "snd x" fx] by fastforce
  show "journal_ok j \<Longrightarrow> view j (fx_ID fx) = Some e \<Longrightarrow> fx_Status e = Some EffectApplied \<or> unknown_outcome e
      \<Longrightarrow> \<not> fst (snd (RecordIntent (fst x) (snd x) j fx))" for j fx e and x :: "write_io \<times> string"
    using Intent_refuses[of j fx e "fst x" "snd x"] by (auto simp: unknown_outcome_def)
  show "journal_ok j \<Longrightarrow> RecordOutcome (fst x) j i s = (j', None)
      \<Longrightarrow> \<exists>e. view j i = Some e \<and> view j' = (view j)(i \<mapsto> e\<lparr>fx_Status := Some s\<rparr>)" for j i s j' and x :: "write_io \<times> string"
    by (erule Outcome_cases[of j "fst x" i s j' None]) auto
  show "RecordOutcome (fst x) j i s = (j', Some err) \<Longrightarrow> view j' = view j" for j i s j' err and x :: "write_io \<times> string"
    by (auto simp: RecordOutcome_def dest: saveEffects_load(2) split: option.splits)
qed (auto intro: journal_ok_Intent dest: Intent_fresh)

end
