(* ===== verification/Directive.thy ===== *)
theory Directive
  imports GoPath
begin

text \<open>
  \<open>internal/harness/directive/directive.go\<close>: the compiled directive, the validation it must
  pass and the scope firewall the runner consults before a mutation. \<open>hash\<close> is SHA-256 in
  hexadecimal. The firewall is characterised on path components.
\<close>

section \<open>The intermediate representation\<close>

record ToolCapability =
  cap_Name :: string
  cap_SideEffectClass :: string
  cap_TimeoutMs :: int
  cap_ResultBudgetBytes :: int

record ModelRouteSpec =
  rt_RouteClass :: string
  rt_Provider :: string
  rt_Model :: string

record WorkforceBindingSpec =
  wb_Role :: string
  wb_Actor :: string

record BudgetEnvelopeSpec =
  be_HardLimitCents :: int
  be_SoftLimitCents :: int
  be_ReviewReserveCents :: int
  be_Currency :: string

record ScopeFirewall =
  sf_InScope :: "string list"
  sf_OutOfScope :: "string list"
  sf_IncidentalScope :: "string list"

record MutationBoundaries =
  mb_AllowedPaths :: "string list"
  mb_ForbiddenPaths :: "string list"

record PermissionEnvelope =
  pe_AllowedActions :: "string list"
  pe_ForbiddenActions :: "string list"
  pe_RequiresApproval :: "string list"

record UnknownOrAssumption =
  ua_Kind :: string
  ua_Description :: string
  ua_Source :: string

record AuthoritySnapshot =
  au_ActiveDecisions :: "string list"
  au_ActiveRequirements :: "string list"
  au_ActiveConstraints :: "string list"
  au_SupersededRecords :: "string list"

record DirectiveIR =
  di_Version :: string
  di_ProjectID :: string
  di_WorkspaceRoot :: string
  di_RepositoryRevision :: string
  di_GoalID :: string
  di_PlanID :: string
  di_TaskID :: string
  di_TaskIntent :: string
  di_Authority :: AuthoritySnapshot
  di_Scope :: ScopeFirewall
  di_Unknowns :: "UnknownOrAssumption list"
  di_Mutation :: MutationBoundaries
  di_Permission :: PermissionEnvelope
  di_ToolCapabilities :: "ToolCapability list"
  di_ModelRoute :: ModelRouteSpec
  di_Workforce :: WorkforceBindingSpec
  di_Budget :: BudgetEnvelopeSpec
  di_RequiredSkills :: "string list"
  di_RequiredEvidence :: "string list"
  di_QualityGates :: "string list"
  di_StopConditions :: "string list"
  di_RequiredDocUpdates :: "string list"
  di_SourceDigests :: "(string \<times> string) list"

record CompilerInput =
  ci_ProjectID :: string
  ci_WorkspaceRoot :: string
  ci_RepositoryRevision :: string
  ci_GoalID :: string
  ci_PlanID :: string
  ci_TaskID :: string
  ci_UserIntent :: string
  ci_TaskIntent :: string
  ci_Decisions :: "string list"
  ci_Requirements :: "string list"
  ci_Constraints :: "string list"
  ci_Superseded :: "string list"
  ci_InScope :: "string list"
  ci_OutOfScope :: "string list"
  ci_IncidentalScope :: "string list"
  ci_AllowedPaths :: "string list"
  ci_ForbiddenPaths :: "string list"
  ci_AllowedActions :: "string list"
  ci_ForbiddenActions :: "string list"
  ci_RequiresApproval :: "string list"
  ci_ToolCapabilities :: "ToolCapability list"
  ci_ModelRoute :: ModelRouteSpec
  ci_WorkforceRole :: string
  ci_WorkforceActor :: string
  ci_HardLimitCents :: int
  ci_SoftLimitCents :: int
  ci_ReviewReserveCents :: int
  ci_Currency :: string
  ci_RequiredSkills :: "string list"
  ci_RequiredEvidence :: "string list"
  ci_QualityGates :: "string list"
  ci_StopConditions :: "string list"
  ci_RequiredDocUpdates :: "string list"
  ci_Unknowns :: "string list"
  ci_Assumptions :: "string list"
  ci_IsDestructive :: bool
  ci_HasAuthority :: bool

section \<open>Compilation\<close>

datatype directive_error =
    ErrMissingAuthority string
  | ErrScopeViolation string
  | ErrEmptyIntent
  | ErrInvalidIR string

definition Validate :: "DirectiveIR \<Rightarrow> directive_error option" where
  "Validate d =
     (if di_Version d \<noteq> ''1.0.0'' then Some (ErrInvalidIR (''unsupported version '' @ di_Version d))
      else if di_TaskID d = [] then Some (ErrInvalidIR ''task_id is required'')
      else if di_GoalID d = [] then Some (ErrInvalidIR ''goal_id is required'')
      else if be_HardLimitCents (di_Budget d) \<le> 0
      then Some (ErrInvalidIR ''budget hard_limit_cents must be positive'')
      else None)"

text \<open>The first in-scope item that also is out of scope, in the order of the nested loops.\<close>

definition scope_overlap :: "CompilerInput \<Rightarrow> string option" where
  "scope_overlap input = find (\<lambda>i. list_ex (\<lambda>out. equal_fold (trim_space i) (trim_space out))
     (ci_OutOfScope input)) (ci_InScope input)"

definition directive_of :: "(string \<Rightarrow> string) \<Rightarrow> string \<Rightarrow> CompilerInput \<Rightarrow> DirectiveIR" where
  "directive_of hash intent input =
     \<lparr>di_Version = ''1.0.0'', di_ProjectID = ci_ProjectID input,
      di_WorkspaceRoot = ci_WorkspaceRoot input,
      di_RepositoryRevision = ci_RepositoryRevision input,
      di_GoalID = ci_GoalID input, di_PlanID = ci_PlanID input, di_TaskID = ci_TaskID input,
      di_TaskIntent = intent,
      di_Authority = \<lparr>au_ActiveDecisions = ci_Decisions input,
        au_ActiveRequirements = ci_Requirements input,
        au_ActiveConstraints = ci_Constraints input, au_SupersededRecords = ci_Superseded input\<rparr>,
      di_Scope = \<lparr>sf_InScope = ci_InScope input, sf_OutOfScope = ci_OutOfScope input,
        sf_IncidentalScope = ci_IncidentalScope input\<rparr>,
      di_Unknowns =
        map (\<lambda>u. \<lparr>ua_Kind = ''unknown'', ua_Description = u, ua_Source = []\<rparr>) (ci_Unknowns input) @
        map (\<lambda>a. \<lparr>ua_Kind = ''assumption'', ua_Description = a, ua_Source = []\<rparr>) (ci_Assumptions input),
      di_Mutation = \<lparr>mb_AllowedPaths = ci_AllowedPaths input, mb_ForbiddenPaths = ci_ForbiddenPaths input\<rparr>,
      di_Permission = \<lparr>pe_AllowedActions = ci_AllowedActions input,
        pe_ForbiddenActions = ci_ForbiddenActions input, pe_RequiresApproval = ci_RequiresApproval input\<rparr>,
      di_ToolCapabilities = ci_ToolCapabilities input, di_ModelRoute = ci_ModelRoute input,
      di_Workforce = \<lparr>wb_Role = ci_WorkforceRole input, wb_Actor = ci_WorkforceActor input\<rparr>,
      di_Budget = \<lparr>be_HardLimitCents = ci_HardLimitCents input, be_SoftLimitCents = ci_SoftLimitCents input,
        be_ReviewReserveCents = ci_ReviewReserveCents input,
        be_Currency = (if ci_Currency input = [] then ''BRL'' else ci_Currency input)\<rparr>,
      di_RequiredSkills = ci_RequiredSkills input, di_RequiredEvidence = ci_RequiredEvidence input,
      di_QualityGates = ci_QualityGates input, di_StopConditions = ci_StopConditions input,
      di_RequiredDocUpdates = ci_RequiredDocUpdates input,
      di_SourceDigests = [(''intent_digest'', hash intent)]\<rparr>"

definition CompileDirective :: "(string \<Rightarrow> string) \<Rightarrow> CompilerInput \<Rightarrow> (directive_error, DirectiveIR) outcome" where
  "CompileDirective hash input =
     (let intent = trim_space (ci_TaskIntent input);
          intent = (if intent = [] then trim_space (ci_UserIntent input) else intent)
      in if intent = [] then Inl ErrEmptyIntent
         else if ci_IsDestructive input \<and> \<not> ci_HasAuthority input then
           Inl (ErrMissingAuthority ''destructive action requires explicit canonical authority'')
         else case scope_overlap input of
           Some i \<Rightarrow> Inl (ErrScopeViolation
             (''item '' @ i @ '' is declared both in-scope and out-of-scope''))
         | None \<Rightarrow> (let ir = directive_of hash intent input in
             case Validate ir of Some e \<Rightarrow> Inl e | None \<Rightarrow> Inr ir))"

section \<open>The scope firewall\<close>

definition workspaceRelative :: "string \<Rightarrow> string option" where
  "workspaceRelative p =
     (if p = [] then None
      else if is_abs p \<or> has_prefix p ''/'' then None
      else let cleaned = path_clean p in
        if cleaned = ''..'' \<or> has_prefix cleaned ''../'' then None else Some cleaned)"

definition matchesBoundary :: "string \<Rightarrow> string \<Rightarrow> bool" where
  "matchesBoundary nrm boundary =
     (let bnorm = path_clean boundary in
      if bnorm = ''.'' \<or> bnorm = [] then True
      else nrm = bnorm \<or> has_prefix nrm (bnorm @ ''/''))"

definition CanMutatePath :: "DirectiveIR \<Rightarrow> string \<Rightarrow> bool" where
  "CanMutatePath d p =
     (case workspaceRelative p of
        None \<Rightarrow> False
      | Some nrm \<Rightarrow>
          if list_ex (matchesBoundary nrm) (mb_ForbiddenPaths (di_Mutation d)) then False
          else if list_ex (matchesBoundary nrm) (sf_OutOfScope (di_Scope d)) then False
          else if 0 < length (mb_AllowedPaths (di_Mutation d))
          then list_ex (matchesBoundary nrm) (mb_AllowedPaths (di_Mutation d))
          else True)"

text \<open>
  What the string tests mean: \<open>below b p\<close> says that path \<open>p\<close> is the boundary \<open>b\<close> or
  beneath it, component by component.
\<close>

definition confined :: "string \<Rightarrow> bool" where
  "confined p \<longleftrightarrow> p \<noteq> [] \<and> \<not> is_abs p \<and> list_all is_name (clean_comps p)"

definition below :: "string \<Rightarrow> string \<Rightarrow> bool" where
  "below b p \<longleftrightarrow> \<not> is_abs b \<and> prefix (clean_comps b) (clean_comps p)"

lemma join_comps_dot: "list_all is_comp cs \<Longrightarrow> cs \<noteq> [] \<Longrightarrow> join ''/'' cs \<noteq> ''.'' \<and> join ''/'' cs \<noteq> []"
proof -
  assume "list_all is_comp cs" "cs \<noteq> []"
  from comps_split[OF this] this show ?thesis
    by (auto simp: is_comp_def is_name_def)
qed

lemma comps_are: "list_all is_comp (clean_comps p)"
  by (simp add: list_all_iff clean_comps_comp)

lemma path_clean_rel:
  "\<not> is_abs p \<Longrightarrow> path_clean p = (if clean_comps p = [] then ''.'' else join ''/'' (clean_comps p))"
  by (simp add: path_clean_def path_string_def)

lemma join_up:
  assumes "list_all is_comp cs" "cs \<noteq> []"
  shows "join ''/'' cs = ''..'' \<or> prefix ''../'' (join ''/'' cs) \<longleftrightarrow> hd cs = ''..''"
proof -
  have c: "list_all is_comp [''..'']" by (simp add: is_comp_def)
  have "join ''/'' cs = ''..'' \<longleftrightarrow> cs = [''..'']"
    using join_comps_eq[OF c assms(1)] assms(2) by simp
  moreover have "prefix ''../'' (join ''/'' cs) \<longleftrightarrow> strict_prefix [''..''] cs"
    using join_comps_prefix[OF c _ assms] by simp
  ultimately show ?thesis using assms(2) by (cases cs) (auto simp: strict_prefix_def)
qed

lemma workspaceRelative_iff:
  "workspaceRelative p = Some n \<longleftrightarrow> confined p \<and> n = path_clean p"
proof (cases "p \<noteq> [] \<and> \<not> is_abs p")
  case True
  then have na: "\<not> is_abs p" by simp
  obtain ns k where cc: "clean_comps p = replicate k ''..'' @ ns" "list_all is_name ns"
    using clean_comps_shape by blast
  have "path_clean p = ''..'' \<or> has_prefix (path_clean p) ''../'' \<longleftrightarrow> 0 < k"
  proof (cases "clean_comps p = []")
    case True
    then show ?thesis using cc na by (simp add: path_clean_rel has_prefix_def)
  next
    case False
    then have "path_clean p = ''..'' \<or> has_prefix (path_clean p) ''../'' \<longleftrightarrow> hd (clean_comps p) = ''..''"
      using join_up[OF comps_are False] na by (simp add: path_clean_rel has_prefix_def)
    also have "\<dots> \<longleftrightarrow> 0 < k"
      using cc False by (cases k; cases ns) (auto simp: is_name_def)
    finally show ?thesis .
  qed
  moreover have "list_all is_name (clean_comps p) \<longleftrightarrow> k = 0"
    using cc by (cases k) (auto simp: is_name_def)
  ultimately show ?thesis using True
    by (auto simp: workspaceRelative_def confined_def Let_def is_abs_def)
qed (auto simp: workspaceRelative_def confined_def is_abs_def)

lemma matchesBoundary_iff:
  assumes "confined p"
  shows "matchesBoundary (path_clean p) b \<longleftrightarrow> below b p"
proof (cases "is_abs b")
  case True
  obtain t where t: "path_clean b = CHR ''/'' # t"
    using True by (auto simp: path_clean_def path_string_def)
  have "\<not> is_abs (path_clean p)"
    using assms hd_join_name comps_are[of p]
    by (cases "clean_comps p") (auto simp: path_clean_rel confined_def is_abs_def has_prefix_def)
  then show ?thesis using True t
    by (cases t) (auto simp: matchesBoundary_def below_def is_abs_def has_prefix_def Let_def prefix_def)
next
  case nb: False
  show ?thesis
  proof (cases "clean_comps b = []")
    case True
    then show ?thesis using nb by (simp add: matchesBoundary_def below_def path_clean_rel)
  next
    case False
    have np: "\<not> is_abs p" using assms by (simp add: confined_def)
    have d: "path_clean b \<noteq> ''.''" "path_clean b \<noteq> []" "path_clean b = join ''/'' (clean_comps b)"
      using join_comps_dot[OF comps_are False] nb False by (simp_all add: path_clean_rel)
    show ?thesis
    proof (cases "clean_comps p = []")
      case True
      then show ?thesis using d False np nb join_comps_dot[OF comps_are False]
        by (auto simp: matchesBoundary_def below_def path_clean_rel has_prefix_def Let_def
            prefix_def Cons_eq_append_conv)
    next
      case np': False
      have "path_clean p = path_clean b \<longleftrightarrow> clean_comps p = clean_comps b"
        using join_comps_eq[OF comps_are comps_are False np'] d(3) np np' by (simp add: path_clean_rel)
      moreover have "prefix (path_clean b @ ''/'') (path_clean p) \<longleftrightarrow> strict_prefix (clean_comps b) (clean_comps p)"
        using join_comps_prefix[OF comps_are False comps_are np'] d(3) np np' by (simp add: path_clean_rel)
      moreover have "matchesBoundary (path_clean p) b \<longleftrightarrow>
          path_clean p = path_clean b \<or> prefix (path_clean b @ ''/'') (path_clean p)"
        using d(1,2) by (simp only: matchesBoundary_def has_prefix_def Let_def simp_thms if_False)
      ultimately show ?thesis using nb
        by (metis below_def prefix_order.le_less)
    qed
  qed
qed

lemma CanMutatePath_iff:
  "CanMutatePath d p \<longleftrightarrow>
     confined p \<and> (\<forall>b\<in>set (mb_ForbiddenPaths (di_Mutation d) @ sf_OutOfScope (di_Scope d)). \<not> below b p)
     \<and> (mb_AllowedPaths (di_Mutation d) = [] \<or> (\<exists>b\<in>set (mb_AllowedPaths (di_Mutation d)). below b p))"
proof (cases "confined p")
  case True
  then have "workspaceRelative p = Some (path_clean p)" by (simp add: workspaceRelative_iff)
  then show ?thesis using matchesBoundary_iff[OF True] True
    by (auto simp: CanMutatePath_def list_ex_iff)
next
  case False
  then have "workspaceRelative p = None" using workspaceRelative_iff[of p] by (cases "workspaceRelative p") auto
  with False show ?thesis by (simp add: CanMutatePath_def)
qed

text \<open>Permission is inherited upwards: a permitted path has no forbidden ancestor.\<close>

lemma below_trans: "below b p \<Longrightarrow> prefix (clean_comps p) (clean_comps q) \<Longrightarrow> below b q"
  by (auto simp: below_def intro: prefix_order.trans)

section \<open>What compilation guarantees\<close>

lemma CompileDirective_Inr:
  "CompileDirective hash input = Inr ir \<Longrightarrow>
     \<not> blank (di_TaskIntent ir) \<and> Validate ir = None \<and> (ci_IsDestructive input \<longrightarrow> ci_HasAuthority input)
     \<and> (\<forall>i\<in>set (ci_InScope input). \<forall>out\<in>set (ci_OutOfScope input).
          \<not> equal_fold (trim_space i) (trim_space out))
     \<and> (\<exists>intent. ir = directive_of hash intent input)"
  by (auto simp: CompileDirective_def Let_def scope_overlap_def find_None_iff list_ex_iff blank_def
      directive_of_def split: if_splits option.splits)

section \<open>The prompt projection\<close>

definition nl :: string where
  "nl = [CHR 0x0A]"

definition lines_of :: "(string \<Rightarrow> string) \<Rightarrow> string list \<Rightarrow> string" where
  "lines_of f xs = concat (map (\<lambda>x. f x @ nl) xs)"

definition FormatAgentPrompt :: "DirectiveIR \<Rightarrow> string" where
  "FormatAgentPrompt d =
     ''=== 1. HARD POLICIES ==='' @ nl @
     ''- Grounding & Anti-Invention: You must inspect before claiming existence; never invent APIs or facts.'' @ nl @
     ''- Least Privilege & Safe Stop: Mutations must remain strictly within allowed paths and permissions.'' @ nl @
     ''- Derived Completion: You cannot declare DONE; quality gates and derived evidence determine completion.'' @ nl @ nl @
     ''=== 2. IDENTITY & ROLE ==='' @ nl @
     ''Role: '' @ (if wb_Role (di_Workforce d) = [] then ''Native Implementer'' else wb_Role (di_Workforce d)) @ nl @
     ''Task ID: '' @ di_TaskID d @ '' | Goal ID: '' @ di_GoalID d @ nl @ nl @
     ''=== 3. CANONICAL INVARIANTS ==='' @ nl @
     lines_of (\<lambda>x. ''- Decision: '' @ x) (au_ActiveDecisions (di_Authority d)) @
     lines_of (\<lambda>x. ''- Requirement: '' @ x) (au_ActiveRequirements (di_Authority d)) @
     lines_of (\<lambda>x. ''- Constraint: '' @ x) (au_ActiveConstraints (di_Authority d)) @
     (if length (au_ActiveDecisions (di_Authority d)) = 0 \<and> length (au_ActiveRequirements (di_Authority d)) = 0
         \<and> length (au_ActiveConstraints (di_Authority d)) = 0
      then ''- Standard repository governance applies.'' @ nl else []) @ nl @
     ''=== 4. SCOPE & ACCEPTANCE ==='' @ nl @
     ''Intent: '' @ di_TaskIntent d @ nl @
     ''In-Scope:'' @ nl @
     lines_of (\<lambda>x. ''  + '' @ x) (sf_InScope (di_Scope d)) @
     ''Out-of-Scope (Non-Goals):'' @ nl @
     lines_of (\<lambda>x. ''  - '' @ x) (sf_OutOfScope (di_Scope d)) @ nl @
     ''=== 5. FACTS & UNKNOWNS ==='' @ nl @
     concat (map (\<lambda>ua. ''['' @ to_upper (ua_Kind ua) @ ''] '' @ ua_Description ua @ nl) (di_Unknowns d)) @ nl @
     ''=== 6. SKILLS & PROCEDURES ==='' @ nl @
     lines_of (\<lambda>x. ''- Skill: '' @ x) (di_RequiredSkills d) @ nl @
     ''=== 7. TOOLS & PERMISSIONS ==='' @ nl @
     ''Available Tools:'' @ nl @
     concat (map (\<lambda>tc. ''  - '' @ cap_Name tc @ '' (side-effect: '' @ cap_SideEffectClass tc @ '')'' @ nl)
       (di_ToolCapabilities d)) @ nl @
     ''=== 8. REQUIRED EVIDENCE & GATES ==='' @ nl @
     lines_of (\<lambda>x. ''- Evidence: '' @ x) (di_RequiredEvidence d) @
     lines_of (\<lambda>x. ''- Gate: '' @ x) (di_QualityGates d) @ nl @
     ''=== 9. BUDGET & STOP RULES ==='' @ nl @
     ''Hard Limit: '' @ itoa (be_HardLimitCents (di_Budget d)) @ '' '' @ be_Currency (di_Budget d) @
     '' (Review Reserve: '' @ itoa (be_ReviewReserveCents (di_Budget d)) @ '' '' @ be_Currency (di_Budget d) @ '')'' @ nl @
     lines_of (\<lambda>x. ''- Stop if: '' @ x) (di_StopConditions d) @ nl @
     ''=== 10. OUTPUT CONTRACT ==='' @ nl @
     ''Format final output with status, inspected reality, applied changes, and produced evidence.'' @ nl"

lemma lines_of_sublist: "x \<in> set xs \<Longrightarrow> sublist (f x @ nl) (lines_of f xs)"
  by (auto simp: lines_of_def sublist_def dest!: split_list) blast

lemma sublist_left: "sublist a c \<Longrightarrow> sublist a (b @ c)"
  by (auto simp: sublist_def) (metis append.assoc)

lemma sublist_here: "x \<in> set xs \<Longrightarrow> f x = l \<Longrightarrow> sublist (l @ nl) (lines_of f xs @ c)"
  using lines_of_sublist[of x xs f] by (simp add: sublist_appendI sublist_def) (metis append.assoc)

lemma prompt_out_of_scope:
  assumes "x \<in> set (sf_OutOfScope (di_Scope d))"
  shows "sublist ((''  - '' @ x) @ nl) (FormatAgentPrompt d)"
  unfolding FormatAgentPrompt_def
  by ((rule sublist_here[OF assms], rule refl) | rule sublist_left)+

lemma prompt_constraint:
  assumes "x \<in> set (au_ActiveConstraints (di_Authority d))"
  shows "sublist ((''- Constraint: '' @ x) @ nl) (FormatAgentPrompt d)"
  unfolding FormatAgentPrompt_def
  by ((rule sublist_here[OF assms], rule refl) | rule sublist_left)+

end
