(* ===== verification/GoFloat.thy ===== *)
theory GoFloat
  imports Complex_Main "HOL-Library.Log_Nat"
begin

text \<open>
  Go's \<open>float64\<close> arithmetic on rationals: \<open>f64\<close> rounds to 53 significant bits, ties to
  even, and every operation of the code rounds its exact result. Overflow, subnormal
  numbers, infinities and NaN do not occur at the magnitudes of budgets and token counts
  and are left out. Integers below \<open>2 ^ 53\<close> are exact.
\<close>

definition ilog2 :: "rat \<Rightarrow> int" where
  "ilog2 x = (case quotient_of x of (p, q) \<Rightarrow>
     let e = bitlen p - bitlen q in if 2 powi e \<le> x then e else e - 1)"

definition round_even :: "rat \<Rightarrow> int" where
  "round_even m = (let f = \<lfloor>m\<rfloor>; d = m - of_int f in
     if d < 1/2 then f else if 1/2 < d then f + 1 else if even f then f else f + 1)"

definition f64 :: "rat \<Rightarrow> rat" where
  "f64 x = (if x = 0 then 0 else let e = ilog2 \<bar>x\<bar> - 52
     in sgn x * of_int (round_even (\<bar>x\<bar> / 2 powi e)) * 2 powi e)"

definition fadd :: "rat \<Rightarrow> rat \<Rightarrow> rat" where "fadd x y = f64 (x + y)"
definition fsub :: "rat \<Rightarrow> rat \<Rightarrow> rat" where "fsub x y = f64 (x - y)"
definition fmul :: "rat \<Rightarrow> rat \<Rightarrow> rat" where "fmul x y = f64 (x * y)"
definition fdiv :: "rat \<Rightarrow> rat \<Rightarrow> rat" where "fdiv x y = f64 (x / y)"

lemma ilog2_le:
  assumes "0 < x"
  shows "2 powi (ilog2 x) \<le> x"
proof -
  obtain p q where pq: "quotient_of x = (p, q)" by fastforce
  have q: "0 < q" using quotient_of_denom_pos[OF pq] .
  have x: "x = of_int p / of_int q" using quotient_of_div[OF pq] .
  have p: "0 < p" using assms q by (simp add: x zero_less_divide_iff)
  have b: "2 powi (bitlen p - bitlen q - 1) \<le> x"
  proof -
    have bp: "2 ^ nat (bitlen p - 1) \<le> p" using bitlen_bounds[OF p] by simp
    have bq: "q < 2 ^ nat (bitlen q)" using bitlen_bounds[OF q] by simp
    have bitp: "0 < bitlen p" "0 < bitlen q" using p q bitlen_eq_zero_iff[of p] bitlen_eq_zero_iff[of q] bitlen_nonneg[of p] bitlen_nonneg[of q]
      by linarith+
    have "(2::rat) powi (bitlen p - bitlen q - 1) = 2 ^ nat (bitlen p - 1) / 2 ^ nat (bitlen q)"
    proof -
      have "(2::rat) powi (bitlen p - bitlen q - 1) = 2 powi ((bitlen p - 1) - bitlen q)"
        by (simp add: algebra_simps)
      also have "\<dots> = 2 powi (bitlen p - 1) / 2 powi bitlen q" by (simp add: power_int_diff)
      finally show ?thesis using bitp by (simp add: power_int_def)
    qed
    also have "\<dots> = of_int (2 ^ nat (bitlen p - 1)) / of_int (2 ^ nat (bitlen q))" by simp
    also have "\<dots> \<le> of_int p / of_int q"
      by (rule frac_le) (use p q bp bq in \<open>simp_all only: of_int_le_iff of_int_0_le_iff of_int_0_less_iff less_imp_le\<close>)
    finally show ?thesis by (simp add: x)
  qed
  then show ?thesis by (simp add: ilog2_def pq Let_def)
qed

lemma round_even_of_int [simp]: "round_even (of_int k) = k"
  by (simp add: round_even_def)

lemma f64_zero [simp]: "f64 0 = 0"
  by (simp add: f64_def)

text \<open>A number of at most 53 significant bits is its own rounding.\<close>

lemma f64_dyadic:
  assumes x: "x = of_int n * 2 powi j" and n: "\<bar>n\<bar> < 2 ^ 53"
  shows "f64 x = x"
proof (cases "n = 0")
  case False
  then have xa: "0 < \<bar>x\<bar>" by (simp add: x)
  have xn: "\<bar>x\<bar> = of_int \<bar>n\<bar> * 2 powi j" by (simp add: x abs_mult)
  have "(2::rat) powi (ilog2 \<bar>x\<bar>) \<le> \<bar>x\<bar>" by (rule ilog2_le[OF xa])
  also have "\<bar>x\<bar> < 2 powi (53 + j)"
  proof -
    have "of_int \<bar>n\<bar> < (of_int (2 ^ 53) :: rat)" using n by (simp only: of_int_less_iff)
    then have "of_int \<bar>n\<bar> * 2 powi j < (2 powi 53 :: rat) * 2 powi j"
      by (intro mult_strict_right_mono) (simp_all add: power_int_def)
    then show ?thesis by (simp add: xn power_int_add)
  qed
  finally have lt: "(2::rat) powi (ilog2 \<bar>x\<bar>) < 2 powi (53 + j)" .
  have "ilog2 \<bar>x\<bar> < 53 + j"
  proof (rule ccontr)
    assume "\<not> ilog2 \<bar>x\<bar> < 53 + j"
    then have "(2::rat) powi (53 + j) \<le> 2 powi (ilog2 \<bar>x\<bar>)" by (intro power_int_increasing) auto
    with lt show False by simp
  qed
  define k where "k = nat (j - (ilog2 \<bar>x\<bar> - 52))"
  have jk: "j = (ilog2 \<bar>x\<bar> - 52) + int k" using \<open>ilog2 \<bar>x\<bar> < 53 + j\<close> by (simp add: k_def)
  have m: "\<bar>x\<bar> / 2 powi (ilog2 \<bar>x\<bar> - 52) = of_int (\<bar>n\<bar> * 2 ^ k)"
  proof -
    define P where "P = (2::rat) powi (ilog2 \<bar>x\<bar> - 52)"
    have P0: "0 < P" by (simp add: P_def)
    have "(2::rat) powi j = P * 2 ^ k"
    proof -
      have "(2::rat) powi (a + int k) = 2 powi a * 2 ^ k" for a by (simp add: power_int_add)
      from this[of "ilog2 \<bar>x\<bar> - 52"] show ?thesis by (metis P_def jk)
    qed
    then have "\<bar>x\<bar> = of_int \<bar>n\<bar> * (P * 2 ^ k)" by (metis xn)
    then have "\<bar>x\<bar> / P = of_int \<bar>n\<bar> * 2 ^ k" using P0 by simp
    then show ?thesis by (simp add: P_def)
  qed
  have "f64 x = sgn x * of_int (\<bar>n\<bar> * 2 ^ k) * 2 powi (ilog2 \<bar>x\<bar> - 52)"
    unfolding f64_def Let_def m using xa by (simp only: abs_eq_0 zero_less_abs_iff if_False round_even_of_int)
  also have "of_int (\<bar>n\<bar> * 2 ^ k) * 2 powi (ilog2 \<bar>x\<bar> - 52) = \<bar>x\<bar>"
    unfolding m[symmetric] by simp
  then have "sgn x * of_int (\<bar>n\<bar> * 2 ^ k) * 2 powi (ilog2 \<bar>x\<bar> - 52) = sgn x * \<bar>x\<bar>"
    by (simp only: mult.assoc)
  also have "\<dots> = x" by (simp add: sgn_mult_abs)
  finally show ?thesis .
qed (simp add: x)

lemma f64_int: "\<bar>n\<bar> < 2 ^ 53 \<Longrightarrow> f64 (of_int n) = of_int n"
  by (rule f64_dyadic[of _ n 0]) simp_all

lemma f64_nonneg: "0 \<le> x \<Longrightarrow> 0 \<le> f64 x"
proof (cases "x = 0")
  case False
  assume "0 \<le> x"
  have "0 \<le> round_even m" if "0 \<le> m" for m
    using that by (auto simp: round_even_def Let_def)
  then show ?thesis using \<open>0 \<le> x\<close> False by (auto simp: f64_def Let_def)
qed simp

text \<open>The relative error of one rounding.\<close>

lemma round_even_half: "\<bar>of_int (round_even m) - m\<bar> \<le> 1/2"
proof -
  have "of_int \<lfloor>m\<rfloor> \<le> m" "m < of_int \<lfloor>m\<rfloor> + 1" by linarith+
  then show ?thesis by (auto simp: round_even_def Let_def abs_le_iff)
qed

lemma f64_error: "\<bar>f64 x - x\<bar> \<le> \<bar>x\<bar> / 2 ^ 53"
proof (cases "x = 0")
  case False
  let ?e = "ilog2 \<bar>x\<bar> - 52"
  let ?m = "\<bar>x\<bar> / 2 powi ?e"
  have pe: "(0::rat) < 2 powi ?e" by simp
  have x: "x = sgn x * (?m * 2 powi ?e)" using pe by (simp add: sgn_mult_abs)
  have "f64 x - x = sgn x * ((of_int (round_even ?m) - ?m) * 2 powi ?e)"
  proof -
    have "f64 x = sgn x * of_int (round_even ?m) * 2 powi ?e" using False by (simp add: f64_def Let_def)
    then show ?thesis using x by (simp add: algebra_simps)
  qed
  then have "\<bar>f64 x - x\<bar> = \<bar>of_int (round_even ?m) - ?m\<bar> * 2 powi ?e"
    using False by (simp add: abs_mult)
  also have "\<dots> \<le> 1/2 * 2 powi ?e"
    by (rule mult_right_mono[OF round_even_half]) simp
  also have "\<dots> = 2 powi (ilog2 \<bar>x\<bar>) / 2 ^ 53"
    by (simp add: power_int_diff)
  also have "\<dots> \<le> \<bar>x\<bar> / 2 ^ 53"
    using ilog2_le[of "\<bar>x\<bar>"] False by (simp add: divide_right_mono)
  finally show ?thesis .
qed simp

text \<open>Token counts and allowances: quarters of integers, small enough to be exact.\<close>

definition quarters :: "rat \<Rightarrow> bool" where
  "quarters x \<longleftrightarrow> x * 4 \<in> \<int>"

lemma quarters_of_int [simp]: "quarters (of_int n)"
  by (simp add: quarters_def)

lemma quarters_zero [simp]: "quarters 0"
  by (simp add: quarters_def)

lemma quarters_add [intro]: "quarters x \<Longrightarrow> quarters y \<Longrightarrow> quarters (x + y)"
  by (simp add: quarters_def distrib_right)

lemma quarters_diff [intro]: "quarters x \<Longrightarrow> quarters y \<Longrightarrow> quarters (x - y)"
  by (simp add: quarters_def left_diff_distrib)

lemma f64_quarters: "quarters x \<Longrightarrow> \<bar>x\<bar> < 2 ^ 51 \<Longrightarrow> f64 x = x"
proof -
  assume q: "quarters x" and b: "\<bar>x\<bar> < 2 ^ 51"
  from q obtain n where n: "x * 4 = of_int n" by (auto simp: quarters_def Ints_def)
  have "(of_int \<bar>n\<bar> :: rat) = \<bar>x\<bar> * 4" using n by (metis abs_mult abs_numeral of_int_abs)
  also have "\<dots> < 2 ^ 51 * 4" using b by simp
  also have "\<dots> = of_int (2 ^ 53)" by simp
  finally have "\<bar>n\<bar> < 2 ^ 53" by (simp only: of_int_less_iff)
  moreover have "x = of_int n * 2 powi (-2)"
    using n by (simp add: power_int_minus)
  ultimately show ?thesis by (rule f64_dyadic[rotated])
qed

end
