(* ===== verification/ImageRefs.thy ===== *)
theory ImageRefs
  imports AgentTypes Safepath
begin

text \<open>
  \<open>internal/harness/runtime/images.go\<close>: \<open>ResolveReferences\<close> turns \<open>@image\<close> references of
  user messages into content parts. The regular expression is a scan over bytes; the file
  system is the record \<open>files\<close> (what \<open>Stat\<close> and \<open>ReadFile\<close> give, and the operating
  system \<open>Safepath\<close> resolves paths against).
\<close>

section \<open>Finding references\<close>

definition MaxImageSize :: int where
  "MaxImageSize = 10 * 1024 * 1024"

definition MaxAggregateImageSize :: int where
  "MaxAggregateImageSize = 25 * 1024 * 1024"

definition ref_char :: "char \<Rightarrow> bool" where
  "ref_char c \<longleftrightarrow> c \<notin> set [CHR 0x09, CHR 0x0A, CHR 0x0C, CHR 0x0D, CHR '' '', CHR '','', CHR '';'',
     CHR '':'', CHR 0x22, CHR 0x27, CHR ''<'', CHR ''>'', CHR ''('', CHR '')'', CHR ''['', CHR '']'',
     CHR ''{'', CHR ''}'']"

text \<open>The matches of \<open>refRegex\<close>, leftmost first and disjoint, as start and end offsets.\<close>

fun find_refs :: "nat \<Rightarrow> string \<Rightarrow> (nat \<times> nat) list" where
  "find_refs i [] = []"
| "find_refs i (c # s) =
     (let run = takeWhile ref_char s in
      if c = CHR ''@'' \<and> run \<noteq> [] then (i, i + 1 + length run) # find_refs (i + 1 + length run) (drop (length run) s)
      else find_refs (i + 1) s)"

definition slice :: "string \<Rightarrow> nat \<Rightarrow> nat \<Rightarrow> string" where
  "slice s a b = take (b - a) (drop a s)"

definition imageMimeTypes :: "(string \<times> string) list" where
  "imageMimeTypes = [(''.png'', ''image/png''), (''.jpg'', ''image/jpeg''), (''.jpeg'', ''image/jpeg''),
     (''.webp'', ''image/webp''), (''.gif'', ''image/gif'')]"

definition IsImageReference :: "string \<Rightarrow> bool" where
  "IsImageReference path \<longleftrightarrow> map_of imageMimeTypes (to_lower (path_ext path)) \<noteq> None"

definition ImageMimeType :: "string \<Rightarrow> string" where
  "ImageMimeType path = (case map_of imageMimeTypes (to_lower (path_ext path)) of None \<Rightarrow> [] | Some m \<Rightarrow> m)"

section \<open>Base64\<close>

definition b64_alphabet :: string where
  "b64_alphabet = ''ABCDEFGHIJKLMNOPQRSTUVWXYZabcdefghijklmnopqrstuvwxyz0123456789+/''"

definition b64_digit :: "nat \<Rightarrow> char" where
  "b64_digit n = b64_alphabet ! (n mod 64)"

fun base64 :: "string \<Rightarrow> string" where
  "base64 [] = []"
| "base64 [a] = (let n = of_char a * 65536 in
     [b64_digit (n div 262144), b64_digit (n div 4096), CHR ''='', CHR ''=''])"
| "base64 [a, b] = (let n = of_char a * 65536 + of_char b * 256 in
     [b64_digit (n div 262144), b64_digit (n div 4096), b64_digit (n div 64), CHR ''=''])"
| "base64 (a # b # c # s) = (let n = of_char a * 65536 + of_char b * 256 + of_char c in
     b64_digit (n div 262144) # b64_digit (n div 4096) # b64_digit (n div 64) # b64_digit n # base64 s)"

section \<open>Resolving\<close>

datatype stat_result = StatError | StatDir | StatFile int

record files =
  fs_os :: os
  fs_stat :: "string \<Rightarrow> stat_result"
  fs_read :: "string \<Rightarrow> (string, string) outcome"

datatype ref_error =
    RefEscapes string resolve_error
  | RefTooLarge string int
  | RefAggregate int
  | RefRead string string

record refMatch =
  rm_start :: nat
  rm_end :: nat
  rm_path :: string
  rm_full :: string

definition ref_target :: "files \<Rightarrow> string \<Rightarrow> string \<Rightarrow> (resolve_error, string) outcome" where
  "ref_target fs workspace path =
     (if workspace \<noteq> [] then Resolve (fs_os fs) workspace path False else Inr (path_clean path))"

fun valid_refs :: "files \<Rightarrow> string \<Rightarrow> string \<Rightarrow> int \<Rightarrow> (nat \<times> nat) list
    \<Rightarrow> (ref_error, refMatch list \<times> int) outcome" where
  "valid_refs fs ws content tot [] = Inr ([], tot)"
| "valid_refs fs ws content tot ((s, e) # ms) =
     (let path = slice content (s + 1) e in
      if \<not> IsImageReference path then valid_refs fs ws content tot ms
      else case ref_target fs ws path of
        Inl err \<Rightarrow> Inl (RefEscapes path err)
      | Inr target \<Rightarrow>
          (case fs_stat fs target of
             StatFile sz \<Rightarrow>
               if MaxImageSize < sz then Inl (RefTooLarge path sz)
               else if MaxAggregateImageSize < tot + sz then Inl (RefAggregate (tot + sz))
               else (case valid_refs fs ws content (tot + sz) ms of
                       Inl err \<Rightarrow> Inl err
                     | Inr (refs, tot') \<Rightarrow>
                         Inr (\<lparr>rm_start = s, rm_end = e, rm_path = target, rm_full = path\<rparr> # refs, tot'))
           | _ \<Rightarrow> valid_refs fs ws content tot ms))"

definition text_part :: "string \<Rightarrow> ContentPart list" where
  "text_part t = (if t = [] then [] else
     [\<lparr>pt_Type = ''text'', pt_Text = t, pt_MimeType = [], pt_Data = [], pt_Path = []\<rparr>])"

fun ref_parts :: "files \<Rightarrow> string \<Rightarrow> nat \<Rightarrow> refMatch list \<Rightarrow> (ref_error, ContentPart list) outcome" where
  "ref_parts fs content lastIdx [] =
     Inr (if lastIdx < length content then text_part (drop lastIdx content) else [])"
| "ref_parts fs content lastIdx (r # refs) =
     (let chunk = (if lastIdx < rm_start r then text_part (slice content lastIdx (rm_start r)) else []) in
      case fs_read fs (rm_path r) of
        Inl err \<Rightarrow> Inl (RefRead (rm_full r) err)
      | Inr data \<Rightarrow>
          (case ref_parts fs content (rm_end r) refs of
             Inl err \<Rightarrow> Inl err
           | Inr parts \<Rightarrow> Inr (chunk @ \<lparr>pt_Type = ''image'', pt_Text = [], pt_MimeType = ImageMimeType (rm_path r),
               pt_Data = base64 data, pt_Path = rm_full r\<rparr> # parts)))"

definition resolve_message :: "files \<Rightarrow> string \<Rightarrow> bool \<Rightarrow> int \<Rightarrow> Message
    \<Rightarrow> (ref_error, Message \<times> int) outcome" where
  "resolve_message fs ws hasVision tot m =
     (if ms_Role m \<noteq> RoleUser \<or> 0 < length (ms_Parts m) \<or> \<not> hasVision then Inr (m, tot)
      else let matches = find_refs 0 (ms_Content m) in
        if matches = [] then Inr (m, tot)
        else case valid_refs fs ws (ms_Content m) tot matches of
          Inl err \<Rightarrow> Inl err
        | Inr (refs, tot') \<Rightarrow>
            if refs = [] then Inr (m, tot')
            else (case ref_parts fs (ms_Content m) 0 refs of
                    Inl err \<Rightarrow> Inl err
                  | Inr parts \<Rightarrow> Inr (m\<lparr>ms_Parts := parts\<rparr>, tot')))"

fun resolve_all :: "files \<Rightarrow> string \<Rightarrow> bool \<Rightarrow> int \<Rightarrow> Message list
    \<Rightarrow> (ref_error, Message list \<times> int) outcome" where
  "resolve_all fs ws hasVision tot [] = Inr ([], tot)"
| "resolve_all fs ws hasVision tot (m # ms) =
     (case resolve_message fs ws hasVision tot m of
        Inl err \<Rightarrow> Inl err
      | Inr (m', tot') \<Rightarrow>
          (case resolve_all fs ws hasVision tot' ms of
             Inl err \<Rightarrow> Inl err
           | Inr (ms', tot'') \<Rightarrow> Inr (m' # ms', tot'')))"

definition ResolveReferences :: "files \<Rightarrow> Message list \<Rightarrow> string \<Rightarrow> bool
    \<Rightarrow> (ref_error, Message list) outcome" where
  "ResolveReferences fs msgs ws hasVision =
     (case resolve_all fs ws hasVision 0 msgs of Inl e \<Rightarrow> Inl e | Inr (ms, _) \<Rightarrow> Inr ms)"

section \<open>What resolving guarantees\<close>

text \<open>Only the parts of a message change, and nothing changes without vision.\<close>

lemma resolve_message_frame:
  "resolve_message fs ws v tot m = Inr (m', tot') \<Longrightarrow> m' = m\<lparr>ms_Parts := ms_Parts m'\<rparr>"
  by (auto simp: resolve_message_def Let_def split: if_splits sum.splits prod.splits)

lemma resolve_all_frame:
  "resolve_all fs ws v tot ms = Inr (ms', tot') \<Longrightarrow>
     length ms' = length ms \<and> map ms_Content ms' = map ms_Content ms \<and> map ms_Role ms' = map ms_Role ms
     \<and> map ms_ToolCalls ms' = map ms_ToolCalls ms \<and> map ms_ID ms' = map ms_ID ms"
proof (induction ms arbitrary: tot ms' tot')
  case (Cons m ms)
  then obtain m1 t1 ms1 where s: "resolve_message fs ws v tot m = Inr (m1, t1)"
    "resolve_all fs ws v t1 ms = Inr (ms1, tot')" "ms' = m1 # ms1"
    by (auto split: sum.splits prod.splits)
  obtain ps where "m1 = m\<lparr>ms_Parts := ps\<rparr>" using resolve_message_frame[OF s(1)] by blast
  with Cons.IH[OF s(2)] s(3) show ?case by simp
qed simp

text \<open>The parts spell out the message: text as it stands, an image as its reference.\<close>

definition parts_text :: "ContentPart list \<Rightarrow> string" where
  "parts_text ps = concat (map (\<lambda>p. if pt_Type p = ''image'' then CHR ''@'' # pt_Path p else pt_Text p) ps)"

fun refs_in :: "string \<Rightarrow> nat \<Rightarrow> refMatch list \<Rightarrow> bool" where
  "refs_in content i [] \<longleftrightarrow> i \<le> length content"
| "refs_in content i (r # refs) \<longleftrightarrow> i \<le> rm_start r \<and> rm_end r \<le> length content \<and> rm_start r < rm_end r
     \<and> slice content (rm_start r) (rm_end r) = CHR ''@'' # rm_full r \<and> refs_in content (rm_end r) refs"

lemma parts_text_text [simp]: "parts_text (text_part t) = t"
  by (simp add: parts_text_def text_part_def)

lemma parts_text_app [simp]: "parts_text (a @ b) = parts_text a @ parts_text b"
  by (simp add: parts_text_def)

lemma slice_self [simp]: "slice s a a = []"
  by (simp add: slice_def)

lemma slice_append: "a \<le> b \<Longrightarrow> b \<le> c \<Longrightarrow> slice s a b @ slice s b c = slice s a c"
proof -
  assume "a \<le> b" "b \<le> c"
  then have "drop b s = drop (b - a) (drop a s)" "c - a = (b - a) + (c - b)" by simp_all
  then show ?thesis by (simp add: slice_def take_add)
qed

lemma slice_to_end: "a \<le> b \<Longrightarrow> slice s a b @ drop b s = drop a s"
proof -
  assume "a \<le> b"
  then have "drop b s = drop (b - a) (drop a s)" by simp
  then show ?thesis by (simp add: slice_def del: drop_drop)
qed

lemma ref_parts_text:
  "ref_parts fs content i refs = Inr ps \<Longrightarrow> refs_in content i refs \<Longrightarrow> parts_text ps = drop i content"
proof (induction refs arbitrary: i ps)
  case Nil
  then have "ps = (if i < length content then text_part (drop i content) else [])" by simp
  then show ?case by (simp add: parts_text_def[of "[]"])
next
  case (Cons r refs)
  then obtain data ps1 where s: "fs_read fs (rm_path r) = Inr data"
    "ref_parts fs content (rm_end r) refs = Inr ps1" by (auto simp: Let_def split: sum.splits)
  have chunk: "parts_text (if i < rm_start r then text_part (slice content i (rm_start r)) else []) =
      slice content i (rm_start r)" using Cons.prems(2) by (cases "i < rm_start r") (simp_all add: parts_text_def[of "[]"])
  have "ps = (if i < rm_start r then text_part (slice content i (rm_start r)) else []) @
      \<lparr>pt_Type = ''image'', pt_Text = [], pt_MimeType = ImageMimeType (rm_path r),
               pt_Data = base64 data, pt_Path = rm_full r\<rparr> # ps1"
    using Cons.prems(1) s by (simp add: Let_def)
  then have "parts_text ps = slice content i (rm_start r) @ (CHR ''@'' # rm_full r) @ parts_text ps1"
    using chunk by (simp add: parts_text_def)
  also have "\<dots> = slice content i (rm_start r) @ slice content (rm_start r) (rm_end r) @ drop (rm_end r) content"
    using Cons.IH[OF s(2)] Cons.prems(2) by simp
  also have "\<dots> = drop i content"
    using Cons.prems(2) slice_append[of i "rm_start r" "rm_end r"] slice_to_end[of i "rm_end r" content]
    by (metis append.assoc less_imp_le_nat le_trans refs_in.simps(2))
  finally show ?case .
qed

text \<open>The scan yields disjoint references in order, each an at sign and a name.\<close>

fun pairs_in :: "string \<Rightarrow> nat \<Rightarrow> (nat \<times> nat) list \<Rightarrow> bool" where
  "pairs_in content i [] \<longleftrightarrow> i \<le> length content"
| "pairs_in content i ((a, b) # ms) \<longleftrightarrow> i \<le> a \<and> a < b \<and> b \<le> length content
     \<and> slice content a b = CHR ''@'' # slice content (a + 1) b \<and> pairs_in content b ms"

lemma pairs_in_mono: "pairs_in content j ms \<Longrightarrow> i \<le> j \<Longrightarrow> pairs_in content i ms"
  by (cases ms) auto

lemma find_refs_in: "content = pre @ s \<Longrightarrow> i = length pre \<Longrightarrow> pairs_in content i (find_refs i s)"
proof (induction i s arbitrary: pre rule: find_refs.induct)
  case (2 i c s)
  let ?run = "takeWhile ref_char s"
  show ?case
  proof (cases "c = CHR ''@'' \<and> ?run \<noteq> []")
    case True
    have s: "s = ?run @ drop (length ?run) s"
      by (metis takeWhile_dropWhile_id append_eq_conv_conj)
    have "pairs_in content (i + 1 + length ?run) (find_refs (i + 1 + length ?run) (drop (length ?run) s))"
      by (rule 2(1)[OF refl True, of "pre @ c # ?run"]) (use 2(3,4) s in auto)
    moreover have "slice content i (i + 1 + length ?run) = c # ?run"
      "slice content (i + 1) (i + 1 + length ?run) = ?run"
      using 2(3,4) s by (simp_all add: slice_def) (metis append_eq_conv_conj)+
    moreover have "i + 1 + length ?run \<le> length content"
      using 2(3,4) by (simp add: length_takeWhile_le)
    ultimately show ?thesis using True by (simp add: Let_def)
  next
    case False
    have "pairs_in content (i + 1) (find_refs (i + 1) s)"
      by (rule 2(2)[OF refl False, of "pre @ [c]"]) (use 2(3,4) in auto)
    then have "pairs_in content i (find_refs (i + 1) s)" by (rule pairs_in_mono) simp
    with False show ?thesis unfolding find_refs.simps Let_def by (simp only: if_False)
  qed
qed simp

lemma valid_refs_in:
  "valid_refs fs ws content tot ms = Inr (refs, tot') \<Longrightarrow> pairs_in content i ms \<Longrightarrow> refs_in content i refs"
proof (induction ms arbitrary: tot i refs tot')
  case (Cons m ms)
  obtain s e where m: "m = (s, e)" by fastforce
  have skip: "valid_refs fs ws content tot ms = Inr (refs, tot') \<Longrightarrow> refs_in content i refs"
    using Cons.IH[of tot refs tot' i] pairs_in_mono[of content e ms i] Cons.prems(2) m by simp
  show ?case
  proof (cases "valid_refs fs ws content tot ms = Inr (refs, tot')")
    case True
    then show ?thesis by (rule skip)
  next
    case False
    with Cons.prems(1) m obtain t refs1 tot1 where
      "valid_refs fs ws content t ms = Inr (refs1, tot1)"
      "\<exists>q. refs = \<lparr>rm_start = s, rm_end = e, rm_path = q, rm_full = slice content (s + 1) e\<rparr> # refs1"
      by (auto simp: Let_def split: if_splits sum.splits stat_result.splits prod.splits)
    with Cons.IH[of t refs1 tot1 e] Cons.prems(2) m show ?thesis by auto
  qed
qed simp

lemma resolve_message_text:
  assumes "resolve_message fs ws v tot m = Inr (m', tot')" "m' \<noteq> m"
  shows "parts_text (ms_Parts m') = ms_Content m"
proof -
  from assms obtain refs ps where
    "valid_refs fs ws (ms_Content m) tot (find_refs 0 (ms_Content m)) = Inr (refs, tot')"
    "ref_parts fs (ms_Content m) 0 refs = Inr ps" "m' = m\<lparr>ms_Parts := ps\<rparr>"
    by (auto simp: resolve_message_def Let_def split: if_splits sum.splits prod.splits)
  moreover have "pairs_in (ms_Content m) 0 (find_refs 0 (ms_Content m))"
    by (rule find_refs_in[of _ "[]"]) auto
  ultimately show ?thesis using ref_parts_text[of fs "ms_Content m" 0 refs ps] valid_refs_in by simp
qed

text \<open>The aggregate bound, and containment of every file that is read.\<close>

lemma valid_refs_bounds:
  "valid_refs fs ws content tot ms = Inr (refs, tot') \<Longrightarrow> tot \<le> MaxAggregateImageSize \<Longrightarrow>
     tot' \<le> MaxAggregateImageSize \<and>
     (\<forall>r\<in>set refs. \<exists>n. fs_stat fs (rm_path r) = StatFile n \<and> n \<le> MaxImageSize \<and>
        (ws \<noteq> [] \<longrightarrow> contains (resolved_root (fs_os fs) ws) (rm_path r)))"
proof (induction ms arbitrary: tot refs tot')
  case (Cons m ms)
  obtain s e where m: "m = (s, e)" by fastforce
  show ?case
  proof (cases "valid_refs fs ws content tot ms = Inr (refs, tot')")
    case True
    with Cons show ?thesis by blast
  next
    case False
    with Cons.prems(1) m obtain target n refs1 where t:
      "ref_target fs ws (slice content (s + 1) e) = Inr target" "fs_stat fs target = StatFile n"
      "n \<le> MaxImageSize" "tot + n \<le> MaxAggregateImageSize"
      "valid_refs fs ws content (tot + n) ms = Inr (refs1, tot')" "refs = refs1 \<or> rm_path (hd refs) = target \<and> tl refs = refs1 \<and> refs \<noteq> []"
      by (auto simp: Let_def split: if_splits sum.splits stat_result.splits prod.splits)
    have "ws \<noteq> [] \<longrightarrow> contains (resolved_root (fs_os fs) ws) target"
      using t(1) Resolve_contains by (auto simp: ref_target_def split: if_splits)
    with Cons.IH[OF t(5,4)] t show ?thesis by (cases refs) auto
  qed
qed simp

text \<open>Message by message, and the files that are read.\<close>

lemma resolve_all_messages:
  "resolve_all fs ws v tot ms = Inr (ms', tot') \<Longrightarrow>
     list_all2 (\<lambda>m m'. m' = m\<lparr>ms_Parts := ms_Parts m'\<rparr> \<and> (m' = m \<or> parts_text (ms_Parts m') = ms_Content m)) ms ms'"
proof (induction ms arbitrary: tot ms' tot')
  case (Cons m ms)
  then obtain m1 t1 ms1 where s: "resolve_message fs ws v tot m = Inr (m1, t1)"
    "resolve_all fs ws v t1 ms = Inr (ms1, tot')" "ms' = m1 # ms1"
    by (auto split: sum.splits prod.splits)
  with Cons.IH[OF s(2)] resolve_message_frame[OF s(1)] resolve_message_text[OF s(1)] show ?case by auto
qed simp

lemma other_reader [simp]:
  "ref_target (fs\<lparr>fs_read := rd\<rparr>) ws p = ref_target fs ws p"
  "valid_refs (fs\<lparr>fs_read := rd\<rparr>) ws content tot ms = valid_refs fs ws content tot ms"
proof -
  show t: "ref_target (fs\<lparr>fs_read := rd\<rparr>) ws p = ref_target fs ws p" for p
    by (simp add: ref_target_def)
  show "valid_refs (fs\<lparr>fs_read := rd\<rparr>) ws content tot ms = valid_refs fs ws content tot ms"
    by (induction fs ws content tot ms rule: valid_refs.induct)
      (auto simp: t Let_def ref_target_def split: sum.split stat_result.split)
qed

lemma ref_parts_reads:
  "\<forall>r\<in>set refs. rd (rm_path r) = fs_read fs (rm_path r) \<Longrightarrow>
   ref_parts (fs\<lparr>fs_read := rd\<rparr>) content i refs = ref_parts fs content i refs"
  by (induction refs arbitrary: i) (auto simp: Let_def split: sum.split)

lemma resolve_message_reads:
  assumes "\<forall>p. contains (resolved_root (fs_os fs) ws) p \<longrightarrow> rd p = fs_read fs p" "ws \<noteq> []" "tot \<le> MaxAggregateImageSize"
  shows "resolve_message (fs\<lparr>fs_read := rd\<rparr>) ws v tot m = resolve_message fs ws v tot m
    \<and> (\<forall>m' tot'. resolve_message fs ws v tot m = Inr (m', tot') \<longrightarrow> tot' \<le> MaxAggregateImageSize)"
proof (cases "valid_refs fs ws (ms_Content m) tot (find_refs 0 (ms_Content m))")
  case (Inr p)
  obtain refs t where p: "p = (refs, t)" by fastforce
  from valid_refs_bounds[OF Inr[unfolded p] assms(3)] assms(1,2)
  have "t \<le> MaxAggregateImageSize" "\<forall>r\<in>set refs. rd (rm_path r) = fs_read fs (rm_path r)" by auto
  with ref_parts_reads[of refs rd fs "ms_Content m" 0] Inr p assms(3) show ?thesis
    by (auto simp: resolve_message_def Let_def split: sum.split)
qed (use assms(3) in \<open>auto simp: resolve_message_def Let_def\<close>)

lemma resolve_all_reads:
  assumes "\<forall>p. contains (resolved_root (fs_os fs) ws) p \<longrightarrow> rd p = fs_read fs p" "ws \<noteq> []"
  shows "tot \<le> MaxAggregateImageSize \<Longrightarrow>
    resolve_all (fs\<lparr>fs_read := rd\<rparr>) ws v tot ms = resolve_all fs ws v tot ms"
proof (induction ms arbitrary: tot)
  case (Cons m ms)
  from resolve_message_reads[OF assms Cons.prems, of v m] Cons.IH
  show ?case by (auto split: sum.split prod.split)
qed simp

end
