(* ===== verification/RunnerState.thy ===== *)
theory RunnerState
  imports PermEngine EffectJournal Directive GoFloat ImageRefs "HOL-Library.AList"
begin

text \<open>
  \<open>internal/harness/runtime/runtime.go\<close>, first part: the ports of the NativeAgent runner,
  its state, and every operation below \<open>Step\<close>: events, steering, compaction, checkpoints
  and their restoration, the effect journal around a tool call, the budget preflight, the
  permission request of a tool call.

  The runner record holds the fields of \<open>Runner\<close> and, behind its ports, the mutable
  components it drives: the permission engine, the checkpoint directory, the journal, the
  event timeline a subscriber saw and the recorded diffs. \<open>r_world\<close> is everything else
  (model, tools, clock, hooks); a port that is code elsewhere is a function of the world that
  may change it. An operation of the mutex-guarded runner is one atomic step.
\<close>

section \<open>Ports\<close>

datatype specs_surface =
    NoSpecs
  | PlainSpecs "ToolSpec list"
  | FallibleSpecs "(string, ToolSpec list) outcome"

record 'w ToolExecutor =
  te_Execute :: "'w \<Rightarrow> ToolCall \<Rightarrow> (ToolResult \<times> string option) \<times> 'w"
  te_KindOf :: "string \<Rightarrow> string"
  te_OperationOf :: "string \<Rightarrow> string"
  te_Specs :: "'w \<Rightarrow> specs_surface"

datatype cause = StoreCause store_error | FxCause fx_error | RefCause ref_error

datatype run_error = RunError string | RetryableModelError string | CauseError cause

text \<open>
  \<open>sv_Stream\<close> gives the events the channel delivers, each with \<open>ctx.Err()\<close> at the moment
  it is received. \<open>sv_Text\<close> is the wording of the errors of the store, the journal and the
  references. \<open>sv_ReserveBudget\<close> tells whether it handed out a release; \<open>sv_release\<close> is that
  closure. Hooks that may be nil are options.
\<close>

record 'w Services =
  sv_Stream :: "'w \<Rightarrow> ModelRequest \<Rightarrow> (string, (ModelEvent \<times> string option) list) outcome \<times> 'w"
  sv_Tools :: "'w ToolExecutor option"
  sv_Events :: bool
  sv_ContextManifest :: "('w \<Rightarrow> NativeAgentState \<Rightarrow> (string, string) outcome \<times> 'w) option"
  sv_ReserveBudget :: "('w \<Rightarrow> rat \<Rightarrow> (string, bool) outcome \<times> 'w) option"
  sv_release :: "'w \<Rightarrow> rat \<Rightarrow> rat \<Rightarrow> 'w"
  sv_BudgetExhausted :: "('w \<Rightarrow> string option) option"
  sv_ToolSpecs :: "('w \<Rightarrow> ToolSpec list) option"
  sv_RecordDiff :: bool
  sv_Workspace :: string
  sv_HasVision :: bool
  sv_ReasoningEffort :: string
  sv_QualityGate :: "('w \<Rightarrow> string option \<times> 'w) option"
  sv_CtxErr :: "'w \<Rightarrow> string option"
  sv_StoreIO :: "'w \<Rightarrow> write_io \<times> 'w"
  sv_JournalIO :: "'w \<Rightarrow> write_io \<times> 'w"
  sv_files :: "'w \<Rightarrow> files"
  sv_Now :: "'w \<Rightarrow> string"
  sv_hash :: "string \<Rightarrow> string"
  sv_num :: "rat \<Rightarrow> string"
  sv_Text :: "cause \<Rightarrow> string"

section \<open>The runner\<close>

record 'w Runner =
  r_State :: NativeAgentState
  r_Messages :: "Message list"
  r_Events :: "ModelEvent list"
  r_ToolQ :: "ToolCall list"
  r_Obs :: "Observation list"
  r_AfterSideEffects :: bool
  r_MaxTurns :: int
  r_TurnsDone :: int
  r_CompactKeep :: int
  r_CompactBudget :: int
  r_ContextWindow :: int
  r_CompactThresholdRatio :: rat
  r_PromptTokens :: int
  r_CompletionTokens :: int
  r_CacheReadTokens :: int
  r_CacheWriteTokens :: int
  r_TotalTokens :: int
  r_TotalCostUSD :: rat
  r_MaxRepairAttempts :: int
  r_RepairAttempts :: int
  r_Directive :: "DirectiveIR option"
  r_Perms :: "Engine option"
  r_Store :: "dir option"
  r_Journal :: "fx_file option"
  r_Timeline :: "AgentEvent list"
  r_Diffs :: "(string \<times> string \<times> string \<times> string) list"
  r_world :: 'w

definition err_text :: "'w Services \<Rightarrow> run_error \<Rightarrow> string" where
  "err_text svc e = (case e of RunError s \<Rightarrow> s | RetryableModelError s \<Rightarrow> s | CauseError c \<Rightarrow> sv_Text svc c)"

fun Retryable :: "run_error \<Rightarrow> bool" where
  "Retryable (RetryableModelError s) \<longleftrightarrow> True"
| "Retryable (RunError s) \<longleftrightarrow> False"
| "Retryable (CauseError c) \<longleftrightarrow> False"

definition phase_of :: "'w Runner \<Rightarrow> Phase" where
  "phase_of r = st_Phase (r_State r)"

definition set_phase :: "Phase \<Rightarrow> 'w Runner \<Rightarrow> 'w Runner" where
  "set_phase p r = r\<lparr>r_State := (r_State r)\<lparr>st_Phase := p\<rparr>\<rparr>"

definition set_stop :: "string \<Rightarrow> 'w Runner \<Rightarrow> 'w Runner" where
  "set_stop s r = r\<lparr>r_State := (r_State r)\<lparr>st_StopReason := s\<rparr>\<rparr>"

definition now :: "'w Services \<Rightarrow> 'w Runner \<Rightarrow> string" where
  "now svc r = sv_Now svc (r_world r)"

definition blank_message :: Message where
  "blank_message = \<lparr>ms_ID = [], ms_TurnID = [], ms_Role = RoleSystem, ms_Content = [], ms_Parts = [],
     ms_Metadata = [], ms_CreatedAt = [], ms_ToolCallID = [], ms_ToolCalls = []\<rparr>"

definition NewRunner :: "'w Services \<Rightarrow> Engine option \<Rightarrow> dir option \<Rightarrow> fx_file option \<Rightarrow> 'w
    \<Rightarrow> string \<Rightarrow> string \<Rightarrow> 'w Runner" where
  "NewRunner svc perms store journal w runID sessionID =
     \<lparr>r_State = \<lparr>st_RunID = runID, st_SessionID = sessionID, st_TurnID = ''turn-1'', st_Phase = PhasePrepare,
        st_Revision = 1, st_EventSeq = 0, st_ContextManifestID = [], st_ModelRoute = [],
        st_PendingRequest = None, st_PendingTools = [], st_PendingPerms = [], st_StopReason = [],
        st_Budget = None, st_Messages = [], st_Goal = [], st_UpdatedAt = sv_Now svc w\<rparr>,
      r_Messages = [], r_Events = [], r_ToolQ = [], r_Obs = [], r_AfterSideEffects = False,
      r_MaxTurns = 10, r_TurnsDone = 0, r_CompactKeep = 0, r_CompactBudget = 0, r_ContextWindow = 0,
      r_CompactThresholdRatio = f64 (7/10), r_PromptTokens = 0, r_CompletionTokens = 0,
      r_CacheReadTokens = 0, r_CacheWriteTokens = 0, r_TotalTokens = 0, r_TotalCostUSD = 0,
      r_MaxRepairAttempts = 0, r_RepairAttempts = 0, r_Directive = None,
      r_Perms = perms, r_Store = store, r_Journal = journal, r_Timeline = [], r_Diffs = [], r_world = w\<rparr>"

definition NewRunnerWithDirective :: "'w Services \<Rightarrow> Engine option \<Rightarrow> dir option \<Rightarrow> fx_file option \<Rightarrow> 'w
    \<Rightarrow> DirectiveIR \<Rightarrow> string \<Rightarrow> 'w Runner" where
  "NewRunnerWithDirective svc perms store journal w d sessionID =
     (NewRunner svc perms store journal w (di_TaskID d) sessionID)
       \<lparr>r_Directive := Some d,
        r_Messages := [blank_message\<lparr>ms_ID := ''directive-init'', ms_Role := RoleSystem,
          ms_Content := FormatAgentPrompt d, ms_CreatedAt := sv_Now svc w\<rparr>]\<rparr>"

section \<open>Events\<close>

definition emit :: "'w Services \<Rightarrow> string \<Rightarrow> (string \<times> jval) list \<Rightarrow> 'w Runner \<Rightarrow> 'w Runner" where
  "emit svc kind payload r =
     (if \<not> sv_Events svc then r
      else let n = Suc (st_EventSeq (r_State r)); r = r\<lparr>r_State := (r_State r)\<lparr>st_EventSeq := n\<rparr>\<rparr>
           in r\<lparr>r_Timeline := r_Timeline r @ [\<lparr>ae_ID = ''ev-'' @ dec_nat n, ae_RunID = st_RunID (r_State r),
                ae_TurnID = st_TurnID (r_State r), ae_Kind = kind, ae_Payload = payload,
                ae_CreatedAt = now svc r\<rparr>]\<rparr>)"

section \<open>Steering and snapshots\<close>

fun phase_text :: "Phase \<Rightarrow> string" where
  "phase_text PhasePrepare = ''prepare''"
| "phase_text PhaseCompileContext = ''compile_context''"
| "phase_text PhaseRequestModel = ''request_model''"
| "phase_text PhaseConsumeModelEvent = ''consume_model_event''"
| "phase_text PhasePlanToolCalls = ''plan_tool_calls''"
| "phase_text PhasePermissionCheck = ''permission_check''"
| "phase_text PhaseExecuteTool = ''execute_tool''"
| "phase_text PhaseRecordObservation = ''record_observation''"
| "phase_text PhaseEvaluateStop = ''evaluate_stop''"
| "phase_text PhaseCheckpoint = ''checkpoint''"
| "phase_text PhaseYield = ''yield''"
| "phase_text PhaseComplete = ''complete''"
| "phase_text PhaseFailed = ''failed''"
| "phase_text (PhaseOther s) = s"

definition Inject :: "'w Services \<Rightarrow> Message \<Rightarrow> 'w Runner \<Rightarrow> 'w Runner \<times> run_error option" where
  "Inject svc m r =
     (if phase_of r = PhaseComplete \<or> phase_of r = PhaseFailed
      then (r, Some (RunError (''run '' @ st_RunID (r_State r) @ '' is '' @ phase_text (phase_of r) @ '': cannot steer'')))
      else let m = (if ms_CreatedAt m = [] then m\<lparr>ms_CreatedAt := now svc r\<rparr> else m)
           in (r\<lparr>r_Messages := r_Messages r @ [m]\<rparr>, None))"

definition StateCopy :: "'w Runner \<Rightarrow> NativeAgentState" where
  "StateCopy r = r_State r"

definition SeedMessages :: "Message list \<Rightarrow> 'w Runner \<Rightarrow> 'w Runner" where
  "SeedMessages msgs r = r\<lparr>r_Messages := msgs\<rparr>"

section \<open>Compaction\<close>

text \<open>\<open>internal/harness/model/tokens.go\<close>: characters per token, by model name.\<close>

definition charsPerToken :: "(string \<times> rat) list" where
  "charsPerToken = [(''claude'', 7/2), (''gpt'', 4), (''gemini'', 4), (''llama'', 7/2),
     (''mistral'', 7/2), (''default'', 4)]"

definition EstimateTokens :: "string \<Rightarrow> string \<Rightarrow> int" where
  "EstimateTokens txt modelName =
     (let lower = to_lower modelName;
          ratio = (case find (\<lambda>(sub, _). sub \<noteq> ''default'' \<and> contains_str lower sub) charsPerToken of
                     Some (_, q) \<Rightarrow> q | None \<Rightarrow> 4);
          n = trunc_rat (fdiv (f64 (of_nat (length txt))) ratio)
      in if n < 1 then 1 else n)"

definition conversationTokens :: "'w Runner \<Rightarrow> int" where
  "conversationTokens r = sum_list (map (\<lambda>m. EstimateTokens (ms_Content m) []) (r_Messages r))"

text \<open>\<open>internal/harness/contextv2/contextv2.go\<close>: the summary that stands in for an observation.\<close>

definition MicroCompactObservation :: "(string \<Rightarrow> string) \<Rightarrow> string \<Rightarrow> int \<Rightarrow> string \<times> string \<times> int" where
  "MicroCompactObservation hash content maxPreview =
     (let sha = hash content; preview = map (\<lambda>c. if c = CHR 0x0A then CHR '' '' else c) content;
          mp = (if maxPreview \<le> 0 then 80 else maxPreview);
          preview = (if mp < int (length preview) then take (nat mp) preview else preview)
      in (''[Observation micro-compacted: '' @ itoa (int (length content)) @ '' bytes, sha256:'' @ take 16 sha
            @ ''. Preview: '' @ preview @ ''...]'', sha, int (length content)))"

definition compactable :: "Message \<Rightarrow> bool" where
  "compactable m \<longleftrightarrow> ms_Role m = RoleTool \<and> jobj_get (ms_Metadata m) ''compacted'' \<noteq> JBool True
     \<and> \<not> length (ms_Content m) < 150"

definition compact_message :: "(string \<Rightarrow> string) \<Rightarrow> Message \<Rightarrow> Message" where
  "compact_message hash m =
     (case MicroCompactObservation hash (ms_Content m) 80 of (summary, sha, origLen) \<Rightarrow>
        m\<lparr>ms_Metadata := AList.update ''original_length'' (JNum (of_int origLen))
             (AList.update ''sha256'' (JStr sha) (AList.update ''compacted'' (JBool True) (ms_Metadata m))),
          ms_Content := summary\<rparr>)"

text \<open>One index of the loop over the messages before the protected window.\<close>

definition micro_one :: "'w Services \<Rightarrow> nat \<Rightarrow> 'w Runner \<times> bool \<Rightarrow> 'w Runner \<times> bool" where
  "micro_one svc i rc =
     (case rc of (r, compacted) \<Rightarrow>
        let m = r_Messages r ! i in
        if \<not> compactable m then (r, compacted)
        else let m' = compact_message (sv_hash svc) m in
          (emit svc ''context.micro_compacted''
             [(''message_id'', JStr (ms_ID m)), (''sha256'', JStr (sv_hash svc (ms_Content m))),
              (''original_bytes'', JNum (of_nat (length (ms_Content m)))),
              (''compacted_bytes'', JNum (of_nat (length (ms_Content m'))))]
             (r\<lparr>r_Messages := (r_Messages r)[i := m']\<rparr>), True))"

definition microCompactObservations :: "'w Services \<Rightarrow> 'w Runner \<Rightarrow> 'w Runner \<times> bool" where
  "microCompactObservations svc r =
     (if length (r_Messages r) \<le> 4 then (r, False)
      else fold (micro_one svc) [0..<length (r_Messages r) - 4] (r, False))"

definition over_size :: "'w Runner \<Rightarrow> bool" where
  "over_size r \<longleftrightarrow>
     (0 < r_CompactKeep r \<and> r_CompactKeep r * 2 < int (length (r_Messages r)))
     \<or> (0 < r_CompactBudget r \<and> r_CompactBudget r < conversationTokens r)
     \<or> (0 < r_ContextWindow r \<and>
          fmul (f64 (of_int (r_ContextWindow r)))
            (if 0 < r_CompactThresholdRatio r then r_CompactThresholdRatio r else f64 (7/10))
          \<le> f64 (of_int (conversationTokens r)))"

definition maybeCompact :: "'w Services \<Rightarrow> 'w Runner \<Rightarrow> 'w Runner" where
  "maybeCompact svc r =
     (if \<not> over_size r then r
      else let (r, compactedAny) = microCompactObservations svc r; stillOver = over_size r in
        if \<not> stillOver \<and> compactedAny then r
        else if \<not> stillOver \<and> r_CompactKeep r \<le> 0 \<and> r_CompactBudget r \<le> 0 then r
        else let keepN = (if r_CompactKeep r \<le> 0 then 10 else r_CompactKeep r) in
          if int (length (r_Messages r)) \<le> keepN then r
          else let dropped = length (r_Messages r) - nat keepN;
                   obs = length (filter (\<lambda>m. ms_Role m = RoleTool) (take dropped (r_Messages r)));
                   others = length (filter (\<lambda>m. ms_Role m \<noteq> RoleTool) (take dropped (r_Messages r)));
                   summary = blank_message\<lparr>ms_ID := ''compact-1'', ms_Role := RoleSystem,
                     ms_Content := ''compacted '' @ dec_nat dropped @ '' messages ('' @ dec_nat obs
                       @ '' tool observations, '' @ dec_nat others @ '' other); see checkpoint for full history'',
                     ms_CreatedAt := now svc r\<rparr>
               in r\<lparr>r_Messages := summary # drop dropped (r_Messages r)\<rparr>)"

section \<open>Checkpoints\<close>

definition snapshot :: "'w Services \<Rightarrow> 'w Runner \<Rightarrow> Checkpoint" where
  "snapshot svc r =
     \<lparr>cp_ID = st_RunID (r_State r) @ ''-r'' @ itoa (st_Revision (r_State r)), cp_RunID = st_RunID (r_State r),
      cp_State = r_State r, cp_WorkspaceRev = [], cp_Messages = r_Messages r, cp_ToolQ = r_ToolQ r,
      cp_Obs = r_Obs r, cp_AfterSideEffects = r_AfterSideEffects r, cp_TurnsDone = r_TurnsDone r,
      cp_CreatedAt = now svc r\<rparr>"

definition persist :: "'w Services \<Rightarrow> 'w Runner \<Rightarrow> 'w Runner \<times> run_error option" where
  "persist svc r =
     (case r_Store r of
        None \<Rightarrow> (r, None)
      | Some d \<Rightarrow>
          let r = r\<lparr>r_State := (r_State r)\<lparr>st_Revision := st_Revision (r_State r) + 1, st_UpdatedAt := now svc r\<rparr>\<rparr>;
              (io, w) = sv_StoreIO svc (r_world r);
              (d', e) = Save io (now svc r) d (snapshot svc r)
          in (r\<lparr>r_Store := Some d', r_world := w\<rparr>, map_option (\<lambda>e. CauseError (StoreCause e)) e))"

fun num_of :: "jval \<Rightarrow> rat option" where
  "num_of (JNum x) = Some x"
| "num_of _ = None"

definition restored_count :: "(string \<times> jval) list \<Rightarrow> string \<Rightarrow> int \<Rightarrow> int" where
  "restored_count b k old = (case num_of (jobj_get b k) of None \<Rightarrow> old | Some x \<Rightarrow> trunc_rat x)"

definition RestoreFrom :: "Checkpoint \<Rightarrow> 'w Runner \<Rightarrow> 'w Runner" where
  "RestoreFrom cp r =
     (let r = r\<lparr>r_State := cp_State cp, r_Messages := cp_Messages cp, r_ToolQ := cp_ToolQ cp, r_Obs := cp_Obs cp,
                r_AfterSideEffects := cp_AfterSideEffects cp,
                r_TurnsDone := (if 0 < cp_TurnsDone cp then cp_TurnsDone cp else r_TurnsDone r)\<rparr>
      in case st_Budget (cp_State cp) of
           None \<Rightarrow> r
         | Some b \<Rightarrow>
             r\<lparr>r_PromptTokens := restored_count b ''prompt_tokens'' (r_PromptTokens r),
               r_CompletionTokens := restored_count b ''completion_tokens'' (r_CompletionTokens r),
               r_CacheReadTokens := restored_count b ''cache_read_tokens'' (r_CacheReadTokens r),
               r_CacheWriteTokens := restored_count b ''cache_write_tokens'' (r_CacheWriteTokens r),
               r_TotalTokens := restored_count b ''total_tokens'' (r_TotalTokens r),
               r_TotalCostUSD := (case num_of (jobj_get b ''cost_usd'') of None \<Rightarrow> r_TotalCostUSD r | Some x \<Rightarrow> x)\<rparr>)"

section \<open>The journal around a tool call\<close>

definition recoveryPolicyFor :: "'w ToolExecutor \<Rightarrow> ToolCall \<Rightarrow> string" where
  "recoveryPolicyFor te tc =
     (let k = te_KindOf te (tc_Name tc) in
      if k = ''read-only'' \<or> k = ''idempotent'' then ''retry''
      else if k = ''destructive'' \<or> k = ''side-effecting'' then ''skip'' else ''fail'')"

definition effect_target :: "'w Services \<Rightarrow> ToolCall \<Rightarrow> string" where
  "effect_target svc tc =
     (case tc_Arguments tc of
        None \<Rightarrow> []
      | Some args \<Rightarrow>
          let t = sprint (sv_num svc) (jobj_get args ''path'');
              t = (if t = ''<nil>'' \<or> t = [] then [] else t)
          in if t = [] \<and> tc_Name tc = ''edit.move''
             then (case as_string (jobj_get args ''to'') of Some s \<Rightarrow> s | None \<Rightarrow> t) else t)"

definition effect_of :: "'w Services \<Rightarrow> 'w ToolExecutor \<Rightarrow> string \<Rightarrow> ToolCall \<Rightarrow> PendingEffect" where
  "effect_of svc te effectID tc =
     \<lparr>fx_ID = effectID, fx_Kind = te_KindOf te (tc_Name tc), fx_Status = None, fx_IdempotencyKey = effectID,
      fx_Target = effect_target svc tc, fx_ObservableEffect = te_OperationOf te (tc_Name tc),
      fx_RecoveryPolicy = recoveryPolicyFor te tc, fx_CreatedAt = []\<rparr>"

definition beginEffect :: "'w Services \<Rightarrow> 'w ToolExecutor \<Rightarrow> string \<Rightarrow> ToolCall \<Rightarrow> 'w Runner
    \<Rightarrow> 'w Runner \<times> bool \<times> run_error option" where
  "beginEffect svc te effectID tc r =
     (case r_Journal r of
        None \<Rightarrow> (r, True, None)
      | Some j \<Rightarrow>
          let (io, w) = sv_JournalIO svc (r_world r);
              (j', go, e) = RecordIntent io (now svc r) j (effect_of svc te effectID tc)
          in (r\<lparr>r_Journal := Some j', r_world := w\<rparr>, go, map_option (\<lambda>e. CauseError (FxCause e)) e))"

definition status_text :: "EffectStatus \<Rightarrow> string" where
  "status_text s = (case s of EffectPending \<Rightarrow> ''pending'' | EffectApplied \<Rightarrow> ''applied''
     | EffectFailed \<Rightarrow> ''failed'' | EffectRolledBack \<Rightarrow> ''rolled_back'' | EffectOther t \<Rightarrow> t)"

definition finishEffect :: "'w Services \<Rightarrow> string \<Rightarrow> EffectStatus \<Rightarrow> 'w Runner \<Rightarrow> 'w Runner" where
  "finishEffect svc effectID status r =
     (case r_Journal r of
        None \<Rightarrow> r
      | Some j \<Rightarrow>
          let (io, w) = sv_JournalIO svc (r_world r);
              (j', e) = RecordOutcome io j effectID status;
              r = r\<lparr>r_Journal := Some j', r_world := w\<rparr>
          in case e of None \<Rightarrow> r
             | Some e \<Rightarrow> emit svc ''side_effect_journal_failed''
                 [(''effect_id'', JStr effectID), (''status'', JStr (status_text status)),
                  (''error'', JStr (sv_Text svc (FxCause e)))] r)"

section \<open>Tool specs and the budget preflight\<close>

definition toolSpecs :: "'w Services \<Rightarrow> 'w Runner \<Rightarrow> ToolSpec list" where
  "toolSpecs svc r =
     (case sv_ToolSpecs svc of
        Some f \<Rightarrow> f (r_world r)
      | None \<Rightarrow>
          (case sv_Tools svc of
             None \<Rightarrow> []
           | Some te \<Rightarrow>
               (case te_Specs te (r_world r) of
                  PlainSpecs ss \<Rightarrow> ss
                | FallibleSpecs (Inr ss) \<Rightarrow> ss
                | FallibleSpecs (Inl _) \<Rightarrow> []
                | NoSpecs \<Rightarrow> [])))"

definition TurnTokenAllowance :: rat where
  "TurnTokenAllowance = 32000"

definition allowance :: "ModelRequest \<Rightarrow> rat" where
  "allowance req = fold (\<lambda>m a. fadd a (fdiv (f64 (of_nat (length (ms_Content m)))) 4)) (mq_Messages req)
     TurnTokenAllowance"

text \<open>The outcome tells whether there is a release to call.\<close>

definition reserveForCall :: "'w Services \<Rightarrow> ModelRequest \<Rightarrow> 'w Runner \<Rightarrow> 'w Runner \<times> (string, bool) outcome" where
  "reserveForCall svc req r =
     (case (case sv_BudgetExhausted svc of None \<Rightarrow> None | Some f \<Rightarrow> f (r_world r)) of
        Some e \<Rightarrow> (r, Inl e)
      | None \<Rightarrow>
          (case sv_ReserveBudget svc of
             None \<Rightarrow> (r, Inr False)
           | Some reserve \<Rightarrow> (let (res, w) = reserve (r_world r) (allowance req) in (r\<lparr>r_world := w\<rparr>, res))))"

section \<open>Permission requests\<close>

definition summarizeArguments :: "(rat \<Rightarrow> string) \<Rightarrow> (string \<times> jval) list option \<Rightarrow> string" where
  "summarizeArguments num args =
     (case args of
        None \<Rightarrow> []
      | Some kvs \<Rightarrow>
          if kvs = [] then []
          else join '';'' (map (\<lambda>kv. fst kv @ ''='' @ sprint num (snd kv)) (sort_key fst kvs)))"

definition permissionRequestFor :: "(rat \<Rightarrow> string) \<Rightarrow> NativeAgentState \<Rightarrow> ToolCall \<Rightarrow> PermissionRequest" where
  "permissionRequestFor num st tc =
     \<lparr>pq_ID = ''perm-'' @ tc_ID tc, pq_RunID = st_RunID st, pq_TurnID = st_TurnID st, pq_Agent = [],
      pq_Action = tc_Name tc,
      pq_Resource = (case tc_Arguments tc of None \<Rightarrow> [] | Some args \<Rightarrow> sprint num (jobj_get args ''path'')),
      pq_ArgumentsSummary = summarizeArguments num (tc_Arguments tc),
      pq_FilesystemScope = [], pq_NetworkDests = [], pq_CredentialScopes = [], pq_DataClass = [],
      pq_Reversibility = [], pq_Risk = [], pq_CreatedAt = [], pq_Fingerprint = []\<rparr>"

definition call_fingerprint :: "'w Services \<Rightarrow> NativeAgentState \<Rightarrow> ToolCall \<Rightarrow> string" where
  "call_fingerprint svc st tc = Fingerprint (sv_hash svc) (permissionRequestFor (sv_num svc) st tc)"

definition pendingFingerprint :: "'w Services \<Rightarrow> 'w Runner \<Rightarrow> string \<Rightarrow> string" where
  "pendingFingerprint svc r requestID =
     (case find (\<lambda>tc. ''perm-'' @ tc_ID tc = requestID) (st_PendingTools (r_State r)) of
        None \<Rightarrow> [] | Some tc \<Rightarrow> call_fingerprint svc (r_State r) tc)"

definition ResolvePermission :: "'w Services \<Rightarrow> string \<Rightarrow> string \<Rightarrow> bool \<Rightarrow> string \<Rightarrow> string \<Rightarrow> 'w Runner
    \<Rightarrow> 'w Runner \<times> run_error option" where
  "ResolvePermission svc requestID fingerprint allow actor reason r =
     (if phase_of r \<noteq> PhaseYield \<or> length (st_PendingPerms (r_State r)) = 0
      then (r, Some (RunError (''no pending permission for run '' @ st_RunID (r_State r))))
      else case r_Perms r of
        None \<Rightarrow> (r, Some (RunError (''no permission engine configured for run '' @ st_RunID (r_State r))))
      | Some e \<Rightarrow>
          if requestID \<notin> set (st_PendingPerms (r_State r))
          then (r, Some (RunError (''no pending permission '' @ quoted requestID @ '' for run '' @ st_RunID (r_State r))))
          else if fingerprint = []
          then (r, Some (RunError (''resolving '' @ quoted requestID @ '' requires the fingerprint of the pending request'')))
          else let actual = pendingFingerprint svc r requestID in
            if actual = []
            then (r, Some (RunError (''cannot identify the tool call behind '' @ quoted requestID)))
            else if actual \<noteq> fingerprint
            then (r, Some (RunError (''fingerprint mismatch for '' @ quoted requestID @ '': the pending request is '' @ actual)))
            else let (e', res) = (if allow then Approve (now svc r) e requestID fingerprint actor
                                  else Deny (now svc r) e requestID fingerprint actor reason);
                     r = r\<lparr>r_Perms := Some e'\<rparr>
              in case res of
                   Inl msg \<Rightarrow> (r, Some (RunError msg))
                 | Inr _ \<Rightarrow>
                     let r = r\<lparr>r_State := (r_State r)\<lparr>st_PendingPerms := [], st_PendingTools := [],
                               st_StopReason := [], st_Phase := PhasePermissionCheck\<rparr>\<rparr>;
                         kind = (if allow then ''permission_approved'' else ''permission_rejected'');
                         r = emit svc kind [(''request_id'', JStr requestID), (''actor'', JStr actor),
                                            (''decision'', JStr kind)] r
                     in persist svc r)"

end
