(* ===== verification/RunnerStep.thy ===== *)
theory RunnerStep
  imports RunnerState
begin

text \<open>
  \<open>internal/harness/runtime/runtime.go\<close>, second part: \<open>Step\<close>, one definition per phase, and
  the two loops around it, \<open>Pause\<close> and \<open>RunUntilDone\<close>. A phase either falls through to the
  end of \<open>Step\<close>, which stamps the state, or returns.
\<close>

datatype step_end = Fall | Return "run_error option"

definition fail_with :: "string \<Rightarrow> 'w Runner \<Rightarrow> 'w Runner" where
  "fail_with reason r = set_stop reason (set_phase PhaseFailed r)"

section \<open>CompileContext\<close>

definition step_compile :: "'w Services \<Rightarrow> 'w Runner \<Rightarrow> 'w Runner \<times> step_end" where
  "step_compile svc r =
     (case sv_ContextManifest svc of
        None \<Rightarrow> (set_phase PhaseRequestModel
                  (r\<lparr>r_State := (r_State r)\<lparr>st_ContextManifestID := ''ctx-manifest''\<rparr>\<rparr>), Fall)
      | Some f \<Rightarrow>
          (case f (r_world r) (r_State r) of
             (Inl e, w) \<Rightarrow> (r\<lparr>r_world := w\<rparr>, Return (Some (RunError e)))
           | (Inr i, w) \<Rightarrow> (set_phase PhaseRequestModel
               (r\<lparr>r_world := w, r_State := (r_State r)\<lparr>st_ContextManifestID := i\<rparr>\<rparr>), Fall)))"

section \<open>RequestModel\<close>

text \<open>\<open>hold\<close>: is there a release to call, and has it not been called yet.\<close>

definition settle :: "'w Services \<Rightarrow> bool \<Rightarrow> rat \<Rightarrow> rat \<Rightarrow> 'w Runner \<Rightarrow> 'w Runner" where
  "settle svc hold tokens cost r =
     (if hold then r\<lparr>r_world := sv_release svc (r_world r) tokens cost\<rparr> else r)"

definition emit_delta :: "'w Services \<Rightarrow> ModelEvent \<Rightarrow> 'w Runner \<Rightarrow> 'w Runner" where
  "emit_delta svc ev r =
     (case me_Kind ev of
        EventTextDelta \<Rightarrow> emit svc ''text_delta'' [(''text'', JStr (me_Text ev))] r
      | EventReasoningDelta \<Rightarrow> emit svc ''reasoning_delta'' [(''text'', JStr (me_Text ev))] r
      | EventToolCallReady \<Rightarrow>
          (case me_ToolCall ev of None \<Rightarrow> r
           | Some tc \<Rightarrow> emit svc ''tool_call_ready'' [(''id'', JStr (tc_ID tc)), (''name'', JStr (tc_Name tc))] r)
      | _ \<Rightarrow> r)"

definition jint :: "int \<Rightarrow> jval" where
  "jint i = JNum (of_int i)"

definition account_usage :: "'w Services \<Rightarrow> Usage \<Rightarrow> 'w Runner \<Rightarrow> 'w Runner" where
  "account_usage svc u r =
     (let r = r\<lparr>r_PromptTokens := r_PromptTokens r + us_InputTokens u,
                r_CompletionTokens := r_CompletionTokens r + us_OutputTokens u,
                r_CacheReadTokens := r_CacheReadTokens r + us_CacheReadTokens u,
                r_CacheWriteTokens := r_CacheWriteTokens r + us_CacheWriteTokens u,
                r_TotalCostUSD := fadd (r_TotalCostUSD r) (us_CostUSD u),
                r_TotalTokens := r_TotalTokens r + TotalTokens u\<rparr>;
          r = r\<lparr>r_State := (r_State r)\<lparr>st_Budget := Some
                [(''prompt_tokens'', jint (r_PromptTokens r)), (''completion_tokens'', jint (r_CompletionTokens r)),
                 (''cache_read_tokens'', jint (r_CacheReadTokens r)), (''cache_write_tokens'', jint (r_CacheWriteTokens r)),
                 (''total_tokens'', jint (r_TotalTokens r)), (''cost_usd'', JNum (r_TotalCostUSD r))]\<rparr>\<rparr>;
          r = emit svc ''usage''
                [(''prompt_tokens'', jint (us_InputTokens u)), (''completion_tokens'', jint (us_OutputTokens u)),
                 (''cache_read_tokens'', jint (us_CacheReadTokens u)), (''cache_write_tokens'', jint (us_CacheWriteTokens u)),
                 (''reasoning_tokens'', jint (us_ReasoningTokens u)), (''cost_usd'', JNum (us_CostUSD u))] r
      in emit svc ''budget.tick''
           [(''turn'', JStr (st_TurnID (r_State r))), (''delta_input_tokens'', jint (us_InputTokens u)),
            (''delta_output_tokens'', jint (us_OutputTokens u)), (''delta_cache_read_tokens'', jint (us_CacheReadTokens u)),
            (''delta_cache_write_tokens'', jint (us_CacheWriteTokens u)), (''delta_cost_usd'', JNum (us_CostUSD u)),
            (''total_tokens'', jint (r_TotalTokens r)), (''total_cost_usd'', JNum (r_TotalCostUSD r))] r)"

fun stream_loop :: "'w Services \<Rightarrow> bool \<Rightarrow> (ModelEvent \<times> string option) list \<Rightarrow> 'w Runner \<Rightarrow> 'w Runner \<times> step_end" where
  "stream_loop svc hold [] r = (set_phase PhaseConsumeModelEvent (settle svc hold 0 0 r), Fall)"
| "stream_loop svc hold ((ev, ctx) # evs) r =
     (case ctx of
        Some cerr \<Rightarrow>
          let r = settle svc hold 0 0 r;
              r = emit svc ''run_paused'' [(''reason'', JStr ''cancelled'')]
                    (set_stop ''paused: cancelled'' (set_phase PhaseYield r));
              r = fst (persist svc r)
          in (r, Return (Some (RunError cerr)))
      | None \<Rightarrow>
          let r = emit_delta svc ev (r\<lparr>r_Events := r_Events r @ [ev]\<rparr>);
              (r, hold) =
                (case (me_Kind ev, me_Usage ev) of
                   (EventUsageUpdated, Some u) \<Rightarrow>
                     (settle svc hold (f64 (of_int (TotalTokens u))) (us_CostUSD u) (account_usage svc u r), False)
                 | _ \<Rightarrow> (r, hold))
          in if me_Kind ev = EventError then
               let r = fail_with (me_Error ev) (settle svc hold 0 0 r) in
               (r, Return (Some (if me_Retryable ev then RetryableModelError (''model error: '' @ me_Error ev)
                                 else RunError (''model error: '' @ me_Error ev))))
             else stream_loop svc hold evs r)"

definition model_request :: "'w Services \<Rightarrow> 'w Runner \<Rightarrow> ModelRequest" where
  "model_request svc r =
     \<lparr>mq_RequestID = st_RunID (r_State r) @ '':'' @ st_TurnID (r_State r) @ '':req'', mq_RunID = st_RunID (r_State r),
      mq_TurnID = st_TurnID (r_State r), mq_Model = [], mq_Messages = r_Messages r, mq_Tools = toolSpecs svc r,
      mq_ReasoningEffort = sv_ReasoningEffort svc\<rparr>"

definition step_request :: "'w Services \<Rightarrow> 'w Runner \<Rightarrow> 'w Runner \<times> step_end" where
  "step_request svc r =
     (let r = maybeCompact svc r in
      case ResolveReferences (sv_files svc (r_world r)) (r_Messages r) (sv_Workspace svc) (sv_HasVision svc) of
        Inl e \<Rightarrow> (fail_with (sv_Text svc (RefCause e)) r, Return (Some (CauseError (RefCause e))))
      | Inr resolved \<Rightarrow>
          let r = r\<lparr>r_Messages := resolved\<rparr>; req = model_request svc r in
          (case reserveForCall svc req r of
             (r, Inl e) \<Rightarrow>
               (emit svc ''budget_exhausted'' [(''reason'', JStr e), (''turn'', JStr (st_TurnID (r_State r)))]
                  (fail_with (''budget exhausted: '' @ e) r), Return (Some (RunError e)))
           | (r, Inr hold) \<Rightarrow>
               (case sv_Stream svc (r_world r) req of
                  (Inl e, w) \<Rightarrow>
                    (fail_with e (settle svc hold 0 0 (r\<lparr>r_world := w\<rparr>)), Return (Some (RunError e)))
                | (Inr evs, w) \<Rightarrow> stream_loop svc hold evs (r\<lparr>r_world := w, r_Events := []\<rparr>))))"

section \<open>PlanToolCalls and PermissionCheck\<close>

definition planned_calls :: "ModelEvent list \<Rightarrow> ToolCall list" where
  "planned_calls evs = List.map_filter
     (\<lambda>ev. if me_Kind ev = EventToolCallReady then me_ToolCall ev else None) evs"

definition step_plan :: "'w Runner \<Rightarrow> 'w Runner" where
  "step_plan r =
     (let r = r\<lparr>r_ToolQ := planned_calls (r_Events r)\<rparr> in
      if length (r_ToolQ r) = 0 then set_phase PhaseEvaluateStop r else set_phase PhasePermissionCheck r)"

definition kind_of :: "'w Services \<Rightarrow> ToolCall \<Rightarrow> string" where
  "kind_of svc tc = (case sv_Tools svc of None \<Rightarrow> [] | Some te \<Rightarrow> te_KindOf te (tc_Name tc))"

definition jargs :: "ToolCall \<Rightarrow> jval" where
  "jargs tc = (case tc_Arguments tc of None \<Rightarrow> JNull | Some kvs \<Rightarrow> JObj kvs)"

definition wait_for :: "'w Services \<Rightarrow> ToolCall \<Rightarrow> PermissionResolution \<Rightarrow> 'w Runner \<Rightarrow> 'w Runner \<times> step_end" where
  "wait_for svc tc res r =
     (let r = set_stop (''permission wait: '' @ tc_ID tc) (set_phase PhaseYield r);
          r = r\<lparr>r_State := (r_State r)\<lparr>st_PendingPerms := [pr_RequestID res], st_PendingTools := r_ToolQ r\<rparr>\<rparr>;
          r = emit svc ''permission_wait''
                [(''tool'', JStr (tc_Name tc)), (''request_id'', JStr (pr_RequestID res)),
                 (''arguments'', jargs tc), (''fingerprint'', JStr (pr_Fingerprint res))] r
      in case persist svc r of
           (r, None) \<Rightarrow> (r, Return None)
         | (r, Some e) \<Rightarrow>
             (fail_with (''checkpoint failed at permission wait: '' @ err_text svc e) r, Return (Some e)))"

fun perm_loop :: "'w Services \<Rightarrow> ToolCall list \<Rightarrow> 'w Runner \<Rightarrow> 'w Runner \<times> step_end" where
  "perm_loop svc [] r = (set_phase PhaseExecuteTool r, Fall)"
| "perm_loop svc (tc # tcs) r =
     (case r_Perms r of
        None \<Rightarrow> (set_phase PhaseExecuteTool r, Fall)
      | Some e \<Rightarrow>
          let (e', res) = Evaluate (sv_hash svc) (now svc r) e
                (permissionRequestFor (sv_num svc) (r_State r) tc) (kind_of svc tc) ''policy'';
              r = r\<lparr>r_Perms := Some e'\<rparr>
          in (case pr_Decision res of
                PermissionDeny \<Rightarrow>
                  (emit svc ''permission_denied'' [(''tool'', JStr (tc_Name tc)), (''reason'', JStr (pr_Reason res))]
                     (fail_with (''permission denied: '' @ pr_Reason res) r),
                   Return (Some (RunError (''permission denied for '' @ tc_Name tc @ '': '' @ pr_Reason res))))
              | PermissionAsk \<Rightarrow> wait_for svc tc res r
              | _ \<Rightarrow> perm_loop svc tcs r))"

definition step_permission :: "'w Services \<Rightarrow> 'w Runner \<Rightarrow> 'w Runner \<times> step_end" where
  "step_permission svc r = perm_loop svc (r_ToolQ r) r"

section \<open>ExecuteTool\<close>

definition toolObservation :: "string \<Rightarrow> string \<Rightarrow> ToolCall \<Rightarrow> ToolResult \<Rightarrow> Observation" where
  "toolObservation created turnID tc res =
     (let ok = tr_OK res in
      \<lparr>ob_ID = ''obs-'' @ tc_ID tc, ob_TurnID = turnID, ob_ToolCallID = tc_ID tc, ob_Content = tr_Output res,
       ob_OK = ok,
       ob_Error = (if ok then [] else if tr_Error res = []
                   then ''tool '' @ tc_Name tc @ '' exited '' @ itoa (tr_ExitCode res) else tr_Error res),
       ob_ExitCode = tr_ExitCode res, ob_Truncated = tr_Truncated res, ob_CreatedAt = created\<rparr>)"

definition diffOf :: "ToolCall \<Rightarrow> string \<times> string" where
  "diffOf tc =
     (if tc_Name tc = ''edit.patch'' then (''patch'', as_string0 (tc_arg tc ''patch''))
      else if tc_Name tc = ''edit.create'' then (''created'', as_string0 (tc_arg tc ''content''))
      else if tc_Name tc = ''edit.delete'' then (''deleted'', [])
      else if tc_Name tc = ''edit.move'' then
        (''moved'', ''moved from '' @ as_string0 (tc_arg tc ''from'') @ '' to '' @ as_string0 (tc_arg tc ''to''))
      else (''modified'', []))"

text \<open>The scope firewall in front of a call: the path it may not mutate.\<close>

definition scope_violation :: "'w Services \<Rightarrow> 'w ToolExecutor \<Rightarrow> 'w Runner \<Rightarrow> ToolCall \<Rightarrow> string option" where
  "scope_violation svc te r tc =
     (case r_Directive r of
        None \<Rightarrow> None
      | Some d \<Rightarrow>
          let targetPath = sprint (sv_num svc) (tc_arg tc ''path'');
              targetPath = (if targetPath = [] \<and> tc_Name tc = ''edit.move''
                            then sprint (sv_num svc) (tc_arg tc ''to'') else targetPath)
          in if targetPath \<noteq> [] \<and> targetPath \<noteq> ''<nil>'' then
               let kind = te_KindOf te (tc_Name tc) in
               if (kind = ''side-effecting'' \<or> kind = ''destructive'') \<and> \<not> CanMutatePath d targetPath
               then Some targetPath else None
             else None)"

definition changed_path :: "ToolCall \<Rightarrow> string" where
  "changed_path tc =
     (let path = as_string0 (tc_arg tc ''path'') in
      if path = [] \<and> tc_Name tc = ''edit.move'' then as_string0 (tc_arg tc ''to'') else path)"

definition report_change :: "'w Services \<Rightarrow> 'w ToolExecutor \<Rightarrow> ToolCall \<Rightarrow> 'w Runner \<Rightarrow> 'w Runner" where
  "report_change svc te tc r =
     (let op = te_OperationOf te (tc_Name tc); path = changed_path tc in
      if op \<noteq> [] \<and> path \<noteq> [] then
        let r = emit svc ''file.changed''
                  [(''path'', JStr path), (''operation'', JStr op), (''tool'', JStr (tc_Name tc))] r
        in if sv_RecordDiff svc
           then let (kind, content) = diffOf tc in
                r\<lparr>r_Diffs := r_Diffs r @ [(st_RunID (r_State r), path, kind, content)]\<rparr>
           else r
      else r)"

definition record_result :: "'w Services \<Rightarrow> 'w ToolExecutor \<Rightarrow> ToolCall \<Rightarrow> ToolResult \<Rightarrow> 'w Runner \<Rightarrow> 'w Runner" where
  "record_result svc te tc res r =
     (let effectID = ''fx-'' @ tc_ID tc;
          r = finishEffect svc effectID (if tr_ExitCode res = 0 then EffectApplied else EffectFailed) r;
          r = r\<lparr>r_Obs := r_Obs r @ [toolObservation (now svc r) (st_TurnID (r_State r)) tc res]\<rparr>;
          r = (if \<not> tr_OK res then emit svc ''tool.failed''
                 [(''tool'', JStr (tc_Name tc)), (''tool_call_id'', JStr (tc_ID tc)),
                  (''exit_code'', jint (tr_ExitCode res)), (''error'', JStr (tr_Error res))] r else r)
      in if tr_ExitCode res = 0 then report_change svc te tc (r\<lparr>r_AfterSideEffects := True\<rparr>) else r)"

fun exec_loop :: "'w Services \<Rightarrow> 'w ToolExecutor \<Rightarrow> ToolCall list \<Rightarrow> 'w Runner \<Rightarrow> 'w Runner \<times> step_end" where
  "exec_loop svc te [] r = (set_phase PhaseRecordObservation r, Fall)"
| "exec_loop svc te (tc # tcs) r =
     (case scope_violation svc te r tc of
        Some p \<Rightarrow>
          (emit svc ''scope_violation'' [(''path'', JStr p), (''tool'', JStr (tc_Name tc))]
             (fail_with (''scope firewall violation: path '' @ [CHR 0x27] @ p @ [CHR 0x27]
                @ '' is not allowed for mutation'') r),
           Return (Some (RunError (''directive scope violation: path '' @ [CHR 0x27] @ p @ [CHR 0x27] @ '' forbidden''))))
      | None \<Rightarrow>
          let effectID = ''fx-'' @ tc_ID tc in
          (case beginEffect svc te effectID tc r of
             (r, _, Some e) \<Rightarrow>
               (emit svc ''side_effect_refused'' [(''tool'', JStr (tc_Name tc)), (''reason'', JStr (err_text svc e))]
                  (fail_with (err_text svc e) r), Return (Some e))
           | (r, False, None) \<Rightarrow>
               exec_loop svc te tcs (emit svc ''side_effect_skipped''
                 [(''tool'', JStr (tc_Name tc)), (''effect_id'', JStr effectID),
                  (''reason'', JStr ''an earlier attempt of this effect is already recorded as applied'')] r)
           | (r, True, None) \<Rightarrow>
               (case te_Execute te (r_world r) tc of
                  ((_, Some e), w) \<Rightarrow>
                    (finishEffect svc effectID EffectFailed (r\<lparr>r_world := w\<rparr>), Return (Some (RunError e)))
                | ((res, None), w) \<Rightarrow> exec_loop svc te tcs (record_result svc te tc res (r\<lparr>r_world := w\<rparr>)))))"

definition step_execute :: "'w Services \<Rightarrow> 'w Runner \<Rightarrow> 'w Runner \<times> step_end" where
  "step_execute svc r =
     (case sv_Tools svc of
        None \<Rightarrow> (r, Return (Some (RunError ''no tool executor'')))
      | Some te \<Rightarrow> exec_loop svc te (r_ToolQ r) r)"

section \<open>EvaluateStop and Checkpoint\<close>

definition run_gate :: "'w Services \<Rightarrow> 'w Runner \<Rightarrow> 'w Runner \<times> string option" where
  "run_gate svc r =
     (case sv_QualityGate svc of
        None \<Rightarrow> (r, None)
      | Some gate \<Rightarrow> (case gate (r_world r) of (e, w) \<Rightarrow> (r\<lparr>r_world := w\<rparr>, e)))"

definition observationMeta :: "Observation \<Rightarrow> (string \<times> jval) list" where
  "observationMeta ob =
     (if ob_OK ob \<and> ob_Error ob = [] then []
      else [(''ok'', JBool (ob_OK ob)), (''exit_code'', jint (ob_ExitCode ob))]
        @ (if ob_Error ob \<noteq> [] then [(''error'', JStr (ob_Error ob))] else [])
        @ (if ob_Truncated ob then [(''truncated'', JBool True)] else []))"

definition request_message :: "'w Services \<Rightarrow> 'w Runner \<Rightarrow> Message" where
  "request_message svc r = blank_message\<lparr>ms_ID := ''msg-toolreq-'' @ st_TurnID (r_State r),
     ms_TurnID := st_TurnID (r_State r), ms_Role := RoleAgent, ms_ToolCalls := r_ToolQ r,
     ms_CreatedAt := now svc r\<rparr>"

definition result_message :: "string \<Rightarrow> Observation \<Rightarrow> Message" where
  "result_message created ob = blank_message\<lparr>ms_ID := ob_ID ob, ms_TurnID := ob_TurnID ob, ms_Role := RoleTool,
     ms_Content := ob_Content ob, ms_ToolCallID := ob_ToolCallID ob, ms_Metadata := observationMeta ob,
     ms_CreatedAt := created\<rparr>"

definition repair :: "'w Services \<Rightarrow> string \<Rightarrow> 'w Runner \<Rightarrow> 'w Runner" where
  "repair svc e r =
     (let r = r\<lparr>r_RepairAttempts := r_RepairAttempts r + 1\<rparr>;
          msg = blank_message\<lparr>ms_ID := ''repair-'' @ itoa (r_RepairAttempts r) @ ''-'' @ st_TurnID (r_State r),
            ms_TurnID := st_TurnID (r_State r), ms_Role := RoleSystem,
            ms_Content := ''Verification gate failed (attempt '' @ itoa (r_RepairAttempts r) @ ''/''
              @ itoa (r_MaxRepairAttempts r) @ ''):'' @ nl @ e @ nl
              @ ''Please analyze the failure trace, identify the root cause, and correct the implementation.'',
            ms_CreatedAt := now svc r\<rparr>;
          r = r\<lparr>r_Messages := r_Messages r @ [msg]\<rparr>;
          r = emit svc ''repair_attempt''
                [(''attempt'', jint (r_RepairAttempts r)), (''max_attempts'', jint (r_MaxRepairAttempts r)),
                 (''error'', JStr e), (''turn_id'', JStr (st_TurnID (r_State r)))] r
      in set_phase PhaseRequestModel r)"

definition feed_back :: "'w Services \<Rightarrow> 'w Runner \<Rightarrow> 'w Runner" where
  "feed_back svc r =
     set_phase PhaseRequestModel
       (r\<lparr>r_Messages := r_Messages r @ [request_message svc r] @ map (result_message (now svc r)) (r_Obs r),
          r_Obs := []\<rparr>)"

definition model_completed :: "'w Runner \<Rightarrow> bool" where
  "model_completed r \<longleftrightarrow> list_ex (\<lambda>ev. me_Kind ev = EventCompleted) (r_Events r)"

definition step_evaluate :: "'w Services \<Rightarrow> 'w Runner \<Rightarrow> 'w Runner \<times> step_end" where
  "step_evaluate svc r =
     (let r = r\<lparr>r_TurnsDone := r_TurnsDone r + 1\<rparr> in
      if r_MaxTurns r \<le> r_TurnsDone r then
        (case run_gate svc r of
           (r, Some e) \<Rightarrow> (fail_with e r, Return (Some (RunError e)))
         | (r, None) \<Rightarrow> (set_stop ''max turns reached'' (set_phase PhaseCheckpoint r), Fall))
      else if model_completed r \<and> length (r_ToolQ r) = 0 then
        (case run_gate svc r of
           (r, Some e) \<Rightarrow>
             if r_RepairAttempts r < r_MaxRepairAttempts r then (repair svc e r, Fall)
             else (fail_with e r, Return (Some (RunError e)))
         | (r, None) \<Rightarrow> (set_stop ''completed'' (set_phase PhaseCheckpoint r), Fall))
      else if 0 < length (r_ToolQ r) then (feed_back svc r, Fall)
      else (set_stop ''no tool calls and no completion'' (set_phase PhaseCheckpoint r), Fall))"

definition step_checkpoint :: "'w Services \<Rightarrow> 'w Runner \<Rightarrow> 'w Runner \<times> step_end" where
  "step_checkpoint svc r =
     (case persist svc r of
        (r, Some e) \<Rightarrow> (r, Return (Some e))
      | (r, None) \<Rightarrow>
          if st_StopReason (r_State r) = ''completed'' then (set_phase PhaseComplete r, Fall)
          else if r_MaxTurns r \<le> r_TurnsDone r then (set_phase PhaseComplete r, Fall)
          else (set_phase PhaseYield r, Fall))"

section \<open>Step\<close>

definition step_phase :: "'w Services \<Rightarrow> 'w Runner \<Rightarrow> 'w Runner \<times> step_end" where
  "step_phase svc r =
     (case phase_of r of
        PhasePrepare \<Rightarrow> (set_phase PhaseCompileContext r, Fall)
      | PhaseCompileContext \<Rightarrow> step_compile svc r
      | PhaseRequestModel \<Rightarrow> step_request svc r
      | PhaseConsumeModelEvent \<Rightarrow> (set_phase PhasePlanToolCalls r, Fall)
      | PhasePlanToolCalls \<Rightarrow> (step_plan r, Fall)
      | PhasePermissionCheck \<Rightarrow> step_permission svc r
      | PhaseExecuteTool \<Rightarrow> step_execute svc r
      | PhaseRecordObservation \<Rightarrow> (set_phase PhaseEvaluateStop r, Fall)
      | PhaseEvaluateStop \<Rightarrow> step_evaluate svc r
      | PhaseCheckpoint \<Rightarrow> step_checkpoint svc r
      | PhaseYield \<Rightarrow> (r, Return None)
      | PhaseComplete \<Rightarrow> (r, Return None)
      | PhaseFailed \<Rightarrow> (r, Return None)
      | PhaseOther p \<Rightarrow> (r, Return (Some (RunError (''unknown phase '' @ p)))))"

definition Step :: "'w Services \<Rightarrow> 'w Runner \<Rightarrow> 'w Runner \<times> run_error option" where
  "Step svc r =
     (case sv_CtxErr svc (r_world r) of
        Some cerr \<Rightarrow>
          let r = set_stop (''paused: '' @ cerr) (set_phase PhaseYield r);
              r = emit svc ''run_paused'' [(''reason'', JStr (st_StopReason (r_State r)))] r
          in (fst (persist svc r), Some (RunError cerr))
      | None \<Rightarrow>
          (case step_phase svc r of
             (r, Return e) \<Rightarrow> (r, e)
           | (r, Fall) \<Rightarrow> (r\<lparr>r_State := (r_State r)\<lparr>st_UpdatedAt := now svc r\<rparr>\<rparr>, None)))"

definition Pause :: "'w Services \<Rightarrow> string \<Rightarrow> 'w Runner \<Rightarrow> 'w Runner \<times> run_error option" where
  "Pause svc reason r =
     (if phase_of r = PhaseComplete \<or> phase_of r = PhaseFailed
      then (r, Some (RunError (''run '' @ st_RunID (r_State r) @ '' is '' @ phase_text (phase_of r) @ '': cannot pause'')))
      else let reason = (if reason = [] then ''paused by operator'' else reason);
               r = set_stop reason (set_phase PhaseYield r);
               r = emit svc ''run_paused'' [(''reason'', JStr reason)] r
           in persist svc r)"

definition halted :: "'w Runner \<Rightarrow> bool" where
  "halted r \<longleftrightarrow> phase_of r = PhaseComplete \<or> phase_of r = PhaseFailed \<or> phase_of r = PhaseYield"

text \<open>\<open>RunUntilDone\<close>: the bounded loop, with the iterations left as its first argument.\<close>

fun run_loop :: "nat \<Rightarrow> 'w Services \<Rightarrow> 'w Runner \<Rightarrow> 'w Runner \<times> run_error option" where
  "run_loop 0 svc r = (r, Some (RunError ''runaway loop guard''))"
| "run_loop (Suc n) svc r =
     (if halted r then (r, None)
      else case sv_CtxErr svc (r_world r) of
        Some cerr \<Rightarrow> (fst (Pause svc (''paused: '' @ cerr) r), Some (RunError cerr))
      | None \<Rightarrow>
          (case Step svc r of
             (r, Some e) \<Rightarrow> if phase_of r = PhaseYield then (r, None) else (r, Some e)
           | (r, None) \<Rightarrow> run_loop n svc r))"

definition RunUntilDone :: "'w Services \<Rightarrow> 'w Runner \<Rightarrow> 'w Runner \<times> run_error option" where
  "RunUntilDone svc r = run_loop 1000 svc r"

end
