(* ===== verification/RunnerFrame.thy ===== *)
theory RunnerFrame
  imports RunnerStep
begin

text \<open>
  What each operation of the runner leaves alone: the field equations of the small
  operations, as simplification rules, and the numbering of the timeline.
\<close>

lemma set_phase_simps [simp]:
  "phase_of (set_phase p r) = p" "st_Phase (r_State (set_phase p r)) = p"
  "r_Messages (set_phase p r) = r_Messages r" "r_ToolQ (set_phase p r) = r_ToolQ r"
  "r_Obs (set_phase p r) = r_Obs r" "r_AfterSideEffects (set_phase p r) = r_AfterSideEffects r"
  "r_MaxTurns (set_phase p r) = r_MaxTurns r" "r_TurnsDone (set_phase p r) = r_TurnsDone r"
  "r_Events (set_phase p r) = r_Events r" "r_Directive (set_phase p r) = r_Directive r"
  "r_Perms (set_phase p r) = r_Perms r" "r_Store (set_phase p r) = r_Store r"
  "r_Journal (set_phase p r) = r_Journal r" "r_Timeline (set_phase p r) = r_Timeline r"
  "r_world (set_phase p r) = r_world r" "r_Diffs (set_phase p r) = r_Diffs r"
  "st_EventSeq (r_State (set_phase p r)) = st_EventSeq (r_State r)"
  "st_StopReason (r_State (set_phase p r)) = st_StopReason (r_State r)"
  "st_RunID (r_State (set_phase p r)) = st_RunID (r_State r)"
  "st_TurnID (r_State (set_phase p r)) = st_TurnID (r_State r)"
  "st_Budget (r_State (set_phase p r)) = st_Budget (r_State r)"
  "st_Revision (r_State (set_phase p r)) = st_Revision (r_State r)"
  "st_PendingTools (r_State (set_phase p r)) = st_PendingTools (r_State r)"
  "st_PendingPerms (r_State (set_phase p r)) = st_PendingPerms (r_State r)"
  by (simp_all add: set_phase_def phase_of_def)

lemma set_stop_simps [simp]:
  "phase_of (set_stop s r) = phase_of r" "st_StopReason (r_State (set_stop s r)) = s"
  "r_Messages (set_stop s r) = r_Messages r" "r_ToolQ (set_stop s r) = r_ToolQ r"
  "r_Obs (set_stop s r) = r_Obs r" "r_AfterSideEffects (set_stop s r) = r_AfterSideEffects r"
  "r_MaxTurns (set_stop s r) = r_MaxTurns r" "r_TurnsDone (set_stop s r) = r_TurnsDone r"
  "r_Events (set_stop s r) = r_Events r" "r_Directive (set_stop s r) = r_Directive r"
  "r_Perms (set_stop s r) = r_Perms r" "r_Store (set_stop s r) = r_Store r"
  "r_Journal (set_stop s r) = r_Journal r" "r_Timeline (set_stop s r) = r_Timeline r"
  "r_world (set_stop s r) = r_world r" "r_Diffs (set_stop s r) = r_Diffs r"
  "st_EventSeq (r_State (set_stop s r)) = st_EventSeq (r_State r)"
  "st_RunID (r_State (set_stop s r)) = st_RunID (r_State r)"
  "st_TurnID (r_State (set_stop s r)) = st_TurnID (r_State r)"
  "st_Budget (r_State (set_stop s r)) = st_Budget (r_State r)"
  "st_Revision (r_State (set_stop s r)) = st_Revision (r_State r)"
  "st_PendingTools (r_State (set_stop s r)) = st_PendingTools (r_State r)"
  "st_PendingPerms (r_State (set_stop s r)) = st_PendingPerms (r_State r)"
  by (simp_all add: set_stop_def phase_of_def)

lemma emit_simps [simp]:
  "phase_of (emit svc k p r) = phase_of r" "r_Messages (emit svc k p r) = r_Messages r"
  "r_ToolQ (emit svc k p r) = r_ToolQ r" "r_Obs (emit svc k p r) = r_Obs r"
  "r_AfterSideEffects (emit svc k p r) = r_AfterSideEffects r"
  "r_MaxTurns (emit svc k p r) = r_MaxTurns r" "r_TurnsDone (emit svc k p r) = r_TurnsDone r"
  "r_Events (emit svc k p r) = r_Events r" "r_Directive (emit svc k p r) = r_Directive r"
  "r_Perms (emit svc k p r) = r_Perms r" "r_Store (emit svc k p r) = r_Store r"
  "r_Journal (emit svc k p r) = r_Journal r" "r_world (emit svc k p r) = r_world r"
  "r_Diffs (emit svc k p r) = r_Diffs r"
  "st_StopReason (r_State (emit svc k p r)) = st_StopReason (r_State r)"
  "st_RunID (r_State (emit svc k p r)) = st_RunID (r_State r)"
  "st_TurnID (r_State (emit svc k p r)) = st_TurnID (r_State r)"
  "st_Budget (r_State (emit svc k p r)) = st_Budget (r_State r)"
  "st_Revision (r_State (emit svc k p r)) = st_Revision (r_State r)"
  "st_PendingTools (r_State (emit svc k p r)) = st_PendingTools (r_State r)"
  "st_PendingPerms (r_State (emit svc k p r)) = st_PendingPerms (r_State r)"
  by (simp_all add: emit_def phase_of_def Let_def)

lemma emit_counters [simp]:
  "r_PromptTokens (emit svc k p r) = r_PromptTokens r" "r_CompletionTokens (emit svc k p r) = r_CompletionTokens r"
  "r_CacheReadTokens (emit svc k p r) = r_CacheReadTokens r" "r_CacheWriteTokens (emit svc k p r) = r_CacheWriteTokens r"
  "r_TotalTokens (emit svc k p r) = r_TotalTokens r" "r_TotalCostUSD (emit svc k p r) = r_TotalCostUSD r"
  "r_CompactKeep (emit svc k p r) = r_CompactKeep r" "r_CompactBudget (emit svc k p r) = r_CompactBudget r"
  "r_ContextWindow (emit svc k p r) = r_ContextWindow r" "r_CompactThresholdRatio (emit svc k p r) = r_CompactThresholdRatio r"
  "r_RepairAttempts (emit svc k p r) = r_RepairAttempts r" "r_MaxRepairAttempts (emit svc k p r) = r_MaxRepairAttempts r"
  by (simp_all add: emit_def Let_def)

lemma set_counters [simp]:
  "r_PromptTokens (set_phase q r) = r_PromptTokens r" "r_CompletionTokens (set_phase q r) = r_CompletionTokens r"
  "r_CacheReadTokens (set_phase q r) = r_CacheReadTokens r" "r_CacheWriteTokens (set_phase q r) = r_CacheWriteTokens r"
  "r_TotalTokens (set_phase q r) = r_TotalTokens r" "r_TotalCostUSD (set_phase q r) = r_TotalCostUSD r"
  "r_PromptTokens (set_stop s r) = r_PromptTokens r" "r_CompletionTokens (set_stop s r) = r_CompletionTokens r"
  "r_CacheReadTokens (set_stop s r) = r_CacheReadTokens r" "r_CacheWriteTokens (set_stop s r) = r_CacheWriteTokens r"
  "r_TotalTokens (set_stop s r) = r_TotalTokens r" "r_TotalCostUSD (set_stop s r) = r_TotalCostUSD r"
  "r_RepairAttempts (set_phase q r) = r_RepairAttempts r" "r_MaxRepairAttempts (set_phase q r) = r_MaxRepairAttempts r"
  "r_RepairAttempts (set_stop s r) = r_RepairAttempts r" "r_MaxRepairAttempts (set_stop s r) = r_MaxRepairAttempts r"
  by (simp_all add: set_phase_def set_stop_def)

lemma phase_of_upd [simp]:
  "phase_of (r\<lparr>r_Messages := a\<rparr>) = phase_of r" "phase_of (r\<lparr>r_Events := b\<rparr>) = phase_of r"
  "phase_of (r\<lparr>r_ToolQ := c\<rparr>) = phase_of r" "phase_of (r\<lparr>r_Obs := d\<rparr>) = phase_of r"
  "phase_of (r\<lparr>r_AfterSideEffects := e\<rparr>) = phase_of r" "phase_of (r\<lparr>r_TurnsDone := f\<rparr>) = phase_of r"
  "phase_of (r\<lparr>r_Perms := g\<rparr>) = phase_of r" "phase_of (r\<lparr>r_Store := h\<rparr>) = phase_of r"
  "phase_of (r\<lparr>r_Journal := i\<rparr>) = phase_of r" "phase_of (r\<lparr>r_world := w\<rparr>) = phase_of r"
  "phase_of (r\<lparr>r_Diffs := l\<rparr>) = phase_of r" "phase_of (r\<lparr>r_RepairAttempts := m\<rparr>) = phase_of r"
  "phase_of (r\<lparr>r_State := s\<rparr>) = st_Phase s"
  by (simp_all add: phase_of_def)

section \<open>The timeline\<close>

text \<open>Every operation only touches the timeline through \<open>emit\<close>, which numbers its events.\<close>

definition ev_id :: "nat \<Rightarrow> string" where
  "ev_id n = ''ev-'' @ dec_nat n"

definition timeline_ok :: "'w Runner \<Rightarrow> bool" where
  "timeline_ok r \<longleftrightarrow> length (r_Timeline r) \<le> st_EventSeq (r_State r) \<and>
     map ae_ID (r_Timeline r) =
       map ev_id [Suc (st_EventSeq (r_State r) - length (r_Timeline r))..<Suc (st_EventSeq (r_State r))]"

lemma timeline_ok_emit [inv_intros]: "timeline_ok r \<Longrightarrow> timeline_ok (emit svc k p r)"
  by (auto simp: timeline_ok_def emit_def Let_def ev_id_def Suc_diff_le)

lemma timeline_ok_cong:
  "r_Timeline r' = r_Timeline r \<Longrightarrow> st_EventSeq (r_State r') = st_EventSeq (r_State r) \<Longrightarrow>
   timeline_ok r' = timeline_ok r"
  by (simp add: timeline_ok_def)

lemma timeline_ok_upd [simp]:
  "timeline_ok (set_phase q r) = timeline_ok r" "timeline_ok (set_stop s r) = timeline_ok r"
  "timeline_ok (r\<lparr>r_Messages := a\<rparr>) = timeline_ok r" "timeline_ok (r\<lparr>r_Events := b\<rparr>) = timeline_ok r"
  "timeline_ok (r\<lparr>r_ToolQ := c\<rparr>) = timeline_ok r" "timeline_ok (r\<lparr>r_Obs := d\<rparr>) = timeline_ok r"
  "timeline_ok (r\<lparr>r_AfterSideEffects := e\<rparr>) = timeline_ok r" "timeline_ok (r\<lparr>r_TurnsDone := f\<rparr>) = timeline_ok r"
  "timeline_ok (r\<lparr>r_Perms := g\<rparr>) = timeline_ok r" "timeline_ok (r\<lparr>r_Store := h\<rparr>) = timeline_ok r"
  "timeline_ok (r\<lparr>r_Journal := i\<rparr>) = timeline_ok r" "timeline_ok (r\<lparr>r_world := w\<rparr>) = timeline_ok r"
  "timeline_ok (r\<lparr>r_Diffs := l\<rparr>) = timeline_ok r" "timeline_ok (r\<lparr>r_RepairAttempts := m\<rparr>) = timeline_ok r"
  by (simp_all add: timeline_ok_def set_phase_def set_stop_def)

lemma timeline_ok_distinct: "timeline_ok r \<Longrightarrow> distinct (map ae_ID (r_Timeline r))"
  unfolding timeline_ok_def by (simp add: distinct_map inj_on_def ev_id_def dec_nat_inj)

end
