(* ===== verification/RunnerInv.thy ===== *)
theory RunnerInv
  imports RunnerFrame
begin

text \<open>
  Invariants of the runner that do not look at the phase. The locale \<open>phase_invariant\<close> states
  what a predicate has to survive (the elementary updates the phases are made of) and gives
  that they keep it; \<open>step_invariant\<close> adds the turn counter and gives it for \<open>Step\<close> and the
  loops. They are interpreted for the numbering of events, the usage totals, the one-way
  effect flag, the fixed configuration and the turn counter itself.
\<close>

section \<open>The contract\<close>

locale phase_invariant =
  fixes svc :: "'w Services" and I :: "'w Runner \<Rightarrow> bool"
  assumes inv_emit: "I r \<Longrightarrow> I (emit svc k p r)"
    and inv_state: "I r \<Longrightarrow> st_Budget s = st_Budget (r_State r) \<Longrightarrow> st_EventSeq s = st_EventSeq (r_State r)
        \<Longrightarrow> I (r\<lparr>r_State := s\<rparr>)"
    and inv_messages: "I r \<Longrightarrow> I (r\<lparr>r_Messages := ms\<rparr>)"
    and inv_events: "I r \<Longrightarrow> I (r\<lparr>r_Events := evs\<rparr>)"
    and inv_toolq: "I r \<Longrightarrow> I (r\<lparr>r_ToolQ := q\<rparr>)"
    and inv_obs: "I r \<Longrightarrow> I (r\<lparr>r_Obs := ob\<rparr>)"
    and inv_effects: "I r \<Longrightarrow> I (r\<lparr>r_AfterSideEffects := True\<rparr>)"
    and inv_repairs: "I r \<Longrightarrow> I (r\<lparr>r_RepairAttempts := i\<rparr>)"
    and inv_perms: "I r \<Longrightarrow> I (r\<lparr>r_Perms := e\<rparr>)"
    and inv_store: "I r \<Longrightarrow> I (r\<lparr>r_Store := d\<rparr>)"
    and inv_journal: "I r \<Longrightarrow> I (r\<lparr>r_Journal := j\<rparr>)"
    and inv_diffs: "I r \<Longrightarrow> I (r\<lparr>r_Diffs := df\<rparr>)"
    and inv_world: "I r \<Longrightarrow> I (r\<lparr>r_world := w\<rparr>)"
    and inv_usage: "I r \<Longrightarrow> I (account_usage svc u r)"
begin

lemma inv_phase: "I r \<Longrightarrow> I (set_phase p r)"
  unfolding set_phase_def by (rule inv_state) simp_all

lemma inv_stop: "I r \<Longrightarrow> I (set_stop s r)"
  unfolding set_stop_def by (rule inv_state) simp_all

lemma inv_fail: "I r \<Longrightarrow> I (fail_with s r)"
  unfolding fail_with_def by (intro inv_phase inv_stop)

lemma inv_settle: "I r \<Longrightarrow> I (settle svc h t c r)"
  by (simp add: settle_def inv_world)

lemma inv_persist: "I r \<Longrightarrow> I (fst (persist svc r))"
  by (auto simp: persist_def Let_def intro!: inv_store inv_state
      inv_world[of "r\<lparr>r_State := s, r_Store := d\<rparr>" for s d, simplified] split: option.splits prod.splits)

lemma inv_micro_one: "I (fst rc) \<Longrightarrow> I (fst (micro_one svc i rc))"
  by (auto simp: micro_one_def Let_def intro!: inv_emit inv_messages split: prod.splits)

lemma inv_micro: "I r \<Longrightarrow> I (fst (microCompactObservations svc r))"
proof -
  assume r: "I r"
  have "I (fst rc) \<Longrightarrow> I (fst (fold (micro_one svc) is rc))" for "is" rc
  proof (induction "is" arbitrary: rc)
    case (Cons i "is")
    show ?case using Cons.IH[OF inv_micro_one[OF Cons.prems, of i]] by simp
  qed simp
  then show ?thesis using r by (simp add: microCompactObservations_def)
qed

lemma inv_compact: "I r \<Longrightarrow> I (maybeCompact svc r)"
  using inv_micro[of r] by (auto simp: maybeCompact_def Let_def intro!: inv_messages split: prod.splits)

lemma inv_delta: "I r \<Longrightarrow> I (emit_delta svc ev r)"
  by (auto simp: emit_delta_def intro: inv_emit split: ModelEventKind.splits option.splits)

lemma inv_stream: "I r \<Longrightarrow> I (fst (stream_loop svc hold evs r))"
proof (induction evs arbitrary: hold r)
  case Nil
  then show ?case by (simp add: inv_phase inv_settle)
next
  case (Cons ec evs)
  obtain ev ctx where ec: "ec = (ev, ctx)" by fastforce
  let ?r1 = "emit_delta svc ev (r\<lparr>r_Events := r_Events r @ [ev]\<rparr>)"
  have r1: "I ?r1" by (intro inv_delta inv_events Cons.prems)
  show ?case
  proof (cases ctx)
    case (Some cerr)
    then show ?thesis unfolding ec
      by (simp add: Let_def) (intro inv_persist inv_emit inv_stop inv_phase inv_settle Cons.prems)
  next
    case None
    let ?us = "me_Kind ev = EventUsageUpdated \<and> me_Usage ev \<noteq> None"
    define r2 where "r2 = (case (me_Kind ev, me_Usage ev) of
         (EventUsageUpdated, Some u) \<Rightarrow> settle svc hold (f64 (of_int (TotalTokens u))) (us_CostUSD u) (account_usage svc u ?r1)
       | _ \<Rightarrow> ?r1)"
    define h2 where "h2 = (case (me_Kind ev, me_Usage ev) of (EventUsageUpdated, Some u) \<Rightarrow> False | _ \<Rightarrow> hold)"
    have r2: "I r2" using r1 by (auto simp: r2_def intro!: inv_settle inv_usage split: ModelEventKind.splits option.splits)
    have "stream_loop svc hold (ec # evs) r =
        (if me_Kind ev = EventError
         then (fail_with (me_Error ev) (settle svc h2 0 0 r2),
               Return (Some (if me_Retryable ev then RetryableModelError (''model error: '' @ me_Error ev)
                                 else RunError (''model error: '' @ me_Error ev))))
         else stream_loop svc h2 evs r2)"
      using None by (auto simp: ec r2_def h2_def Let_def split: ModelEventKind.splits option.splits)
    then show ?thesis using Cons.IH[OF r2, of h2] r2 by (auto intro: inv_fail inv_settle)
  qed
qed

lemma inv_request: "I r \<Longrightarrow> I (fst (step_request svc r))"
proof -
  assume "I r"
  then have c: "I (maybeCompact svc r)" by (rule inv_compact)
  have rs: "I r1 \<Longrightarrow> I (fst (reserveForCall svc req r1))" for req r1
    by (auto simp: reserveForCall_def Let_def intro!: inv_world split: option.splits prod.splits)
  show ?thesis
  proof (cases "ResolveReferences (sv_files svc (r_world (maybeCompact svc r))) (r_Messages (maybeCompact svc r))
      (sv_Workspace svc) (sv_HasVision svc)")
    case (Inl e)
    then show ?thesis using c by (simp add: step_request_def Let_def inv_fail)
  next
    case (Inr ms)
    let ?r1 = "(maybeCompact svc r)\<lparr>r_Messages := ms\<rparr>"
    obtain r2 res where r2: "reserveForCall svc (model_request svc ?r1) ?r1 = (r2, res)" by fastforce
    have i2: "I r2" using rs[of ?r1 "model_request svc ?r1"] inv_messages[OF c] r2 by simp
    show ?thesis using i2
      by (auto simp: step_request_def Let_def Inr r2 intro!: inv_fail inv_emit inv_settle inv_world inv_stream inv_events
          split: sum.splits prod.splits)
  qed
qed

lemma inv_wait: "I r \<Longrightarrow> I (fst (wait_for svc tc res r))"
proof -
  assume r: "I r"
  let ?r1 = "set_stop (''permission wait: '' @ tc_ID tc) (set_phase PhaseYield r)"
  let ?r2 = "?r1\<lparr>r_State := (r_State ?r1)\<lparr>st_PendingPerms := [pr_RequestID res], st_PendingTools := r_ToolQ ?r1\<rparr>\<rparr>"
  let ?p = "[(''tool'', JStr (tc_Name tc)), (''request_id'', JStr (pr_RequestID res)),
                 (''arguments'', jargs tc), (''fingerprint'', JStr (pr_Fingerprint res))]"
  have "I ?r2" by (rule inv_state) (use inv_stop inv_phase r in simp_all)
  then have "I (fst (persist svc (emit svc ''permission_wait'' ?p ?r2)))"
    by (intro inv_persist inv_emit)
  then show ?thesis by (auto simp: wait_for_def Let_def inv_fail split: prod.splits option.splits)
qed

lemma inv_perm: "I r \<Longrightarrow> I (fst (perm_loop svc tcs r))"
proof (induction tcs arbitrary: r)
  case (Cons tc tcs)
  then show ?case
    by (auto simp: Let_def intro!: inv_phase inv_emit inv_fail inv_wait inv_perms
        split: option.splits prod.splits PermissionDecision.splits)
qed (simp add: inv_phase)

lemma inv_begin: "I r \<Longrightarrow> I (fst (beginEffect svc te i tc r))"
  by (auto simp: beginEffect_def Let_def intro!: inv_journal inv_world[of "r\<lparr>r_Journal := j\<rparr>" for j, simplified]
      split: option.splits prod.splits)

lemma inv_finish: "I r \<Longrightarrow> I (finishEffect svc i st r)"
  by (auto simp: finishEffect_def Let_def intro!: inv_emit inv_journal inv_world[of "r\<lparr>r_Journal := j\<rparr>" for j, simplified]
      split: option.splits prod.splits)

lemma inv_record: "I r \<Longrightarrow> I (record_result svc te tc res r)"
proof -
  assume r: "I r"
  have ch: "I r1 \<Longrightarrow> I (report_change svc te tc r1)" for r1
    by (auto simp: report_change_def Let_def intro!: inv_emit inv_diffs split: prod.splits)
  show ?thesis unfolding record_result_def Let_def
    using inv_finish[OF r] by (auto intro!: ch inv_effects inv_emit inv_obs)
qed

lemma inv_exec: "I r \<Longrightarrow> I (fst (exec_loop svc te tcs r))"
proof (induction tcs arbitrary: r)
  case (Cons tc tcs)
  obtain r1 go e where b: "beginEffect svc te (''fx-'' @ tc_ID tc) tc r = (r1, go, e)" by (metis prod_cases3)
  have r1: "I r1" using inv_begin[OF Cons.prems, of te "''fx-'' @ tc_ID tc" tc] b by simp
  show ?case
    using Cons r1 b
    by (auto simp: Let_def intro!: inv_emit inv_fail inv_finish inv_record inv_world Cons.IH
        split: option.splits prod.splits bool.splits)
qed (simp add: inv_phase)

lemma inv_checkpoint: "I r \<Longrightarrow> I (fst (step_checkpoint svc r))"
  using inv_persist[of r]
  by (auto simp: step_checkpoint_def intro!: inv_phase split: prod.splits option.splits)

lemma inv_compile: "I r \<Longrightarrow> I (fst (step_compile svc r))"
  by (auto simp: step_compile_def intro!: inv_phase inv_world inv_state[of r] inv_state[of "r\<lparr>r_world := w\<rparr>" for w, simplified]
      split: option.splits prod.splits sum.splits)

lemma inv_plan: "I r \<Longrightarrow> I (step_plan r)"
  by (auto simp: step_plan_def Let_def intro!: inv_phase inv_toolq)

theorem inv_Pause: "I r \<Longrightarrow> I (fst (Pause svc s r))"
  by (auto simp: Pause_def Let_def intro!: inv_persist inv_emit inv_stop inv_phase)

theorem inv_Inject: "I r \<Longrightarrow> I (fst (Inject svc m r))"
  by (simp add: Inject_def Let_def inv_messages)

theorem inv_Resolve: "I r \<Longrightarrow> I (fst (ResolvePermission svc i f allow actor reason r))"
proof -
  assume r: "I r"
  have fin: "I r1 \<Longrightarrow> I (fst (persist svc (emit svc k p (r1\<lparr>r_State := (r_State r1)
      \<lparr>st_PendingPerms := [], st_PendingTools := [], st_StopReason := [], st_Phase := PhasePermissionCheck\<rparr>\<rparr>))))"
    for r1 k p by (intro inv_persist inv_emit inv_state) simp_all
  show ?thesis
    using r fin[OF inv_perms[OF r]] inv_perms[OF r]
    by (auto simp: ResolvePermission_def Let_def split: option.splits prod.splits sum.splits)
qed

end

locale step_invariant = phase_invariant +
  assumes inv_turns: "I r \<Longrightarrow> I (r\<lparr>r_TurnsDone := n\<rparr>)"
begin

lemma inv_evaluate: "I r \<Longrightarrow> I (fst (step_evaluate svc r))"
proof -
  assume r: "I r"
  have g: "I r1 \<Longrightarrow> I (fst (run_gate svc r1))" for r1
    by (auto simp: run_gate_def intro!: inv_world split: option.splits prod.splits)
  have rp: "I r1 \<Longrightarrow> I (repair svc e r1)" for r1 e
    by (auto simp: repair_def Let_def intro!: inv_phase inv_emit inv_messages
        inv_messages[of "r1\<lparr>r_RepairAttempts := i\<rparr>" for i, simplified] inv_repairs)
  have fb: "I r1 \<Longrightarrow> I (feed_back svc r1)" for r1
    by (auto simp: feed_back_def intro!: inv_phase inv_messages inv_obs[of "r1\<lparr>r_Messages := m\<rparr>" for m, simplified])
  let ?r1 = "r\<lparr>r_TurnsDone := r_TurnsDone r + 1\<rparr>"
  obtain r2 e where g2: "run_gate svc ?r1 = (r2, e)" by fastforce
  have "I ?r1" "I r2" using g[of ?r1] inv_turns[OF r] g2 by auto
  then show ?thesis
    by (auto simp: step_evaluate_def Let_def g2 intro!: inv_stop inv_phase inv_fail rp fb split: option.splits)
qed

lemma inv_step_phase: "I r \<Longrightarrow> I (fst (step_phase svc r))"
  by (auto simp: step_phase_def step_permission_def step_execute_def
      intro!: inv_phase inv_compile inv_request inv_plan inv_perm inv_exec inv_evaluate inv_checkpoint
      split: Phase.splits option.splits)

theorem inv_Step: "I r \<Longrightarrow> I (fst (Step svc r))"
proof (cases "sv_CtxErr svc (r_world r)")
  case None
  assume "I r"
  then have "I (fst (step_phase svc r))" by (rule inv_step_phase)
  then show ?thesis using None
    by (auto simp: Step_def intro!: inv_state split: prod.splits step_end.splits)
qed (auto simp: Step_def Let_def intro!: inv_persist inv_emit inv_stop inv_phase)

theorem inv_run: "I r \<Longrightarrow> I (fst (run_loop n svc r))"
proof (induction n arbitrary: r)
  case (Suc n)
  from inv_Step[OF Suc.prems] Suc.IH[of "fst (Step svc r)"] inv_Pause[OF Suc.prems] Suc.prems
  show ?case by (auto split: option.splits prod.splits)
qed simp

end

section \<open>Numbered events\<close>

interpretation tl: step_invariant svc timeline_ok for svc :: "'w Services"
proof unfold_locales
  fix r :: "'w Runner" and u
  show "timeline_ok r \<Longrightarrow> timeline_ok (account_usage svc u r)"
    unfolding account_usage_def Let_def by (intro timeline_ok_emit) (simp add: timeline_ok_def)
next
  fix r :: "'w Runner" and s
  show "timeline_ok r \<Longrightarrow> st_EventSeq s = st_EventSeq (r_State r) \<Longrightarrow> timeline_ok (r\<lparr>r_State := s\<rparr>)"
    by (simp add: timeline_ok_def)
qed (simp_all add: timeline_ok_emit)

section \<open>Usage totals\<close>

text \<open>
  The totals are the sums of their parts, and the budget map in the state, once there is one,
  says what the counters say.
\<close>

definition usage_map :: "'w Runner \<Rightarrow> (string \<times> jval) list" where
  "usage_map r =
     [(''prompt_tokens'', jint (r_PromptTokens r)), (''completion_tokens'', jint (r_CompletionTokens r)),
      (''cache_read_tokens'', jint (r_CacheReadTokens r)), (''cache_write_tokens'', jint (r_CacheWriteTokens r)),
      (''total_tokens'', jint (r_TotalTokens r)), (''cost_usd'', JNum (r_TotalCostUSD r))]"

definition usage_ok :: "'w Runner \<Rightarrow> bool" where
  "usage_ok r \<longleftrightarrow>
     r_TotalTokens r = r_PromptTokens r + r_CompletionTokens r + r_CacheReadTokens r + r_CacheWriteTokens r \<and>
     st_Budget (r_State r) \<in> {None, Some (usage_map r)} \<and>
     (st_Budget (r_State r) = None \<longrightarrow> r_PromptTokens r = 0 \<and> r_CompletionTokens r = 0 \<and> r_CacheReadTokens r = 0
        \<and> r_CacheWriteTokens r = 0 \<and> r_TotalCostUSD r = 0)"

interpretation us: step_invariant svc usage_ok for svc :: "'w Services"
proof unfold_locales
  fix r :: "'w Runner" and u
  show "usage_ok r \<Longrightarrow> usage_ok (account_usage svc u r)"
    by (auto simp: usage_ok_def usage_map_def account_usage_def Let_def TotalTokens_def)
qed (auto simp: usage_ok_def usage_map_def)

section \<open>The effect flag only goes up; the configuration stays\<close>

interpretation fx: step_invariant svc r_AfterSideEffects for svc :: "'w Services"
  by unfold_locales (auto simp: account_usage_def Let_def)

definition configured :: "int \<Rightarrow> int \<Rightarrow> DirectiveIR option \<Rightarrow> 'w Runner \<Rightarrow> bool" where
  "configured turns repairs d r \<longleftrightarrow>
     r_MaxTurns r = turns \<and> r_MaxRepairAttempts r = repairs \<and> r_Directive r = d"

interpretation cf: step_invariant svc "configured turns repairs d" for svc :: "'w Services" and turns repairs d
  by unfold_locales (auto simp: configured_def account_usage_def Let_def)

lemma timeline_ok_New: "timeline_ok (NewRunner svc p s j w i ses)"
  by (simp add: timeline_ok_def NewRunner_def)

lemma usage_ok_New: "usage_ok (NewRunner svc p s j w i ses)"
  by (simp add: usage_ok_def NewRunner_def)

interpretation td: phase_invariant svc "\<lambda>r. r_TurnsDone r = n \<and> configured turns repairs d r"
    for svc :: "'w Services" and n turns repairs d
  by unfold_locales (auto simp: configured_def account_usage_def Let_def)

end
