(* ===== verification/RunnerSafety.thy ===== *)
theory RunnerSafety
  imports RunnerInv
begin

text \<open>
  What the runner guarantees about the calls it makes and the phases it reaches. That a call
  is not made is stated as independence: the result does not depend on what the executor
  (or the model) would have done.
\<close>

section \<open>Which phase follows which\<close>

lemma persist_simps [simp]:
  "phase_of (fst (persist svc r)) = phase_of r" "r_TurnsDone (fst (persist svc r)) = r_TurnsDone r"
  "r_MaxTurns (fst (persist svc r)) = r_MaxTurns r" "r_Messages (fst (persist svc r)) = r_Messages r"
  "r_ToolQ (fst (persist svc r)) = r_ToolQ r" "r_Perms (fst (persist svc r)) = r_Perms r"
  "r_Journal (fst (persist svc r)) = r_Journal r" "r_Obs (fst (persist svc r)) = r_Obs r"
  "st_StopReason (r_State (fst (persist svc r))) = st_StopReason (r_State r)"
  "st_PendingPerms (r_State (fst (persist svc r))) = st_PendingPerms (r_State r)"
  "st_PendingTools (r_State (fst (persist svc r))) = st_PendingTools (r_State r)"
  by (auto simp: persist_def Let_def phase_of_def split: option.splits prod.splits)

lemma persist_eq:
  "persist svc r = (r1, e) \<Longrightarrow> phase_of r1 = phase_of r \<and> r_TurnsDone r1 = r_TurnsDone r
     \<and> r_MaxTurns r1 = r_MaxTurns r \<and> st_StopReason (r_State r1) = st_StopReason (r_State r)
     \<and> r_Perms r1 = r_Perms r \<and> r_ToolQ r1 = r_ToolQ r"
  using persist_simps[of svc r] by simp

lemma phase_fold [simp]: "st_Phase (r_State r) = phase_of r"
  by (simp add: phase_of_def)

lemma settle_simps [simp]:
  "phase_of (settle svc h t c r) = phase_of r" "r_TurnsDone (settle svc h t c r) = r_TurnsDone r"
  by (simp_all add: settle_def)

lemma fail_with_phase [simp]: "phase_of (fail_with s r) = PhaseFailed"
  by (simp add: fail_with_def)

lemma stream_loop_ends:
  "stream_loop svc hold evs r = (r', e) \<Longrightarrow>
     e = Fall \<and> phase_of r' = PhaseConsumeModelEvent \<or>
     (\<exists>err. e = Return (Some err)) \<and> (phase_of r' = PhaseYield \<or> phase_of r' = PhaseFailed)"
  by (induction svc hold evs r rule: stream_loop.induct)
    (auto simp: Let_def split: option.splits ModelEventKind.splits if_splits prod.splits)

lemma step_request_ends:
  "step_request svc r = (r', e) \<Longrightarrow>
     e = Fall \<and> phase_of r' = PhaseConsumeModelEvent \<or>
     (\<exists>err. e = Return (Some err)) \<and> (phase_of r' = PhaseYield \<or> phase_of r' = PhaseFailed)"
  by (auto simp: step_request_def Let_def dest: stream_loop_ends split: sum.splits prod.splits)

lemma wait_for_ends:
  "wait_for svc tc res r = (r', e) \<Longrightarrow>
     e = Return None \<and> phase_of r' = PhaseYield \<or> (\<exists>err. e = Return (Some err)) \<and> phase_of r' = PhaseFailed"
  by (auto simp: wait_for_def Let_def split: prod.splits option.splits dest!: persist_eq)

lemma perm_loop_ends:
  "perm_loop svc tcs r = (r', e) \<Longrightarrow>
     e = Fall \<and> phase_of r' = PhaseExecuteTool \<or> e = Return None \<and> phase_of r' = PhaseYield \<or>
     (\<exists>err. e = Return (Some err)) \<and> phase_of r' = PhaseFailed"
  by (induction svc tcs r rule: perm_loop.induct)
    (auto simp: Let_def dest: wait_for_ends split: option.splits prod.splits PermissionDecision.splits)

lemma begin_phase: "beginEffect svc te i tc r = (r', go, e) \<Longrightarrow> phase_of r' = phase_of r"
  by (auto simp: beginEffect_def Let_def split: option.splits prod.splits)

lemma finish_phase [simp]: "phase_of (finishEffect svc i st r) = phase_of r"
  by (auto simp: finishEffect_def Let_def split: option.splits prod.splits)

lemma report_phase [simp]: "phase_of (report_change svc te tc r) = phase_of r"
  by (auto simp: report_change_def Let_def split: prod.splits)

lemma record_phase [simp]: "phase_of (record_result svc te tc res r) = phase_of r"
  by (simp add: record_result_def Let_def)

text \<open>The loop body as nested case distinctions, for the inductions below.\<close>

definition skipped :: "'w Services \<Rightarrow> ToolCall \<Rightarrow> 'w Runner \<Rightarrow> 'w Runner" where
  "skipped svc tc r = emit svc ''side_effect_skipped''
     [(''tool'', JStr (tc_Name tc)), (''effect_id'', JStr (''fx-'' @ tc_ID tc)),
      (''reason'', JStr ''an earlier attempt of this effect is already recorded as applied'')] r"

definition refusal :: "'w Services \<Rightarrow> ToolCall \<Rightarrow> run_error \<Rightarrow> 'w Runner \<Rightarrow> 'w Runner" where
  "refusal svc tc e r = emit svc ''side_effect_refused''
     [(''tool'', JStr (tc_Name tc)), (''reason'', JStr (err_text svc e))] (fail_with (err_text svc e) r)"

lemma exec_loop_Cons:
  "exec_loop svc te (tc # tcs) r =
     (case scope_violation svc te r tc of
        Some p \<Rightarrow>
          (emit svc ''scope_violation'' [(''path'', JStr p), (''tool'', JStr (tc_Name tc))]
             (fail_with (''scope firewall violation: path '' @ [CHR 0x27] @ p @ [CHR 0x27]
                @ '' is not allowed for mutation'') r),
           Return (Some (RunError (''directive scope violation: path '' @ [CHR 0x27] @ p @ [CHR 0x27] @ '' forbidden''))))
      | None \<Rightarrow>
          (case beginEffect svc te (''fx-'' @ tc_ID tc) tc r of (r1, go, je) \<Rightarrow>
            (case je of
               Some e \<Rightarrow> (refusal svc tc e r1, Return (Some e))
             | None \<Rightarrow>
                 if go then
                   (case te_Execute te (r_world r1) tc of ((res, xe), w) \<Rightarrow>
                     (case xe of
                        Some e \<Rightarrow> (finishEffect svc (''fx-'' @ tc_ID tc) EffectFailed (r1\<lparr>r_world := w\<rparr>), Return (Some (RunError e)))
                      | None \<Rightarrow> exec_loop svc te tcs (record_result svc te tc res (r1\<lparr>r_world := w\<rparr>))))
                 else exec_loop svc te tcs (skipped svc tc r1))))"
  by (simp add: Let_def skipped_def refusal_def split: option.split prod.split bool.split)

declare exec_loop.simps(2) [simp del]

lemma exec_loop_ends:
  "exec_loop svc te tcs r = (r', e) \<Longrightarrow>
     e = Fall \<and> phase_of r' = PhaseRecordObservation \<or>
     (\<exists>err. e = Return (Some err)) \<and> (phase_of r' = PhaseFailed \<or> phase_of r' = phase_of r)"
proof (induction tcs arbitrary: r)
  case (Cons tc tcs)
  from Cons.prems show ?case
    by (auto simp: exec_loop_Cons refusal_def skipped_def split: option.splits prod.splits if_splits
        dest!: begin_phase dest: Cons.IH)
qed auto

section \<open>The scope firewall\<close>

lemma other_executor [simp]:
  "beginEffect svc (te\<lparr>te_Execute := ex\<rparr>) i tc r = beginEffect svc te i tc r"
  "scope_violation svc (te\<lparr>te_Execute := ex\<rparr>) r tc = scope_violation svc te r tc"
  "record_result svc (te\<lparr>te_Execute := ex\<rparr>) tc res r = record_result svc te tc res r"
proof -
  have e: "effect_of svc (te\<lparr>te_Execute := ex\<rparr>) i tc = effect_of svc te i tc"
    by (simp add: effect_of_def recoveryPolicyFor_def)
  show "beginEffect svc (te\<lparr>te_Execute := ex\<rparr>) i tc r = beginEffect svc te i tc r"
    by (simp only: beginEffect_def e)
  show "scope_violation svc (te\<lparr>te_Execute := ex\<rparr>) r tc = scope_violation svc te r tc"
    by (simp add: scope_violation_def Let_def split: option.split)
  have "report_change svc (te\<lparr>te_Execute := ex\<rparr>) = report_change svc te"
    by (rule ext)+ (simp add: report_change_def)
  then show "record_result svc (te\<lparr>te_Execute := ex\<rparr>) tc res r = record_result svc te tc res r"
    by (simp only: record_result_def)
qed

lemma scope_violation_cong: "r_Directive r' = r_Directive r \<Longrightarrow> scope_violation svc te r' tc = scope_violation svc te r tc"
  by (simp add: scope_violation_def)

lemma directive_frame:
  "beginEffect svc te i tc r = (r1, go, je) \<Longrightarrow> r_Directive r1 = r_Directive r"
  "r_Directive (record_result svc te tc res r) = r_Directive r"
  "r_Directive (skipped svc tc r) = r_Directive r"
  by (auto simp: beginEffect_def skipped_def record_result_def report_change_def finishEffect_def Let_def
      split: option.splits prod.splits)

text \<open>What the executor would do with a call the firewall stops makes no difference.\<close>

lemma firewall_independent:
  "(\<forall>w tc. scope_violation svc te r tc = None \<longrightarrow> ex w tc = te_Execute te w tc) \<Longrightarrow>
     exec_loop svc (te\<lparr>te_Execute := ex\<rparr>) tcs r = exec_loop svc te tcs r"
proof (induction tcs arbitrary: r)
  case (Cons tc tcs)
  have ih: "exec_loop svc (te\<lparr>te_Execute := ex\<rparr>) tcs r1 = exec_loop svc te tcs r1"
    if "r_Directive r1 = r_Directive r" for r1
    using Cons.IH[of r1] Cons.prems scope_violation_cong[OF that] by simp
  show ?case
  proof (cases "scope_violation svc te r tc")
    case None
    then have x: "ex w tc = te_Execute te w tc" for w using Cons.prems by blast
    obtain r1 go je where b: "beginEffect svc te (''fx-'' @ tc_ID tc) tc r = (r1, go, je)" by (metis prod_cases3)
    have "r_Directive (record_result svc te tc res (r1\<lparr>r_world := w\<rparr>)) = r_Directive r"
      "r_Directive (skipped svc tc r1) = r_Directive r" for res w
      using directive_frame(1)[OF b] by (simp_all add: directive_frame)
    then show ?thesis using None b x ih
      by (simp add: exec_loop_Cons split: option.split prod.split)
  next
    case (Some p)
    then show ?thesis by (simp add: exec_loop_Cons)
  qed
qed simp

lemma scope_violation_path:
  "scope_violation svc te r tc = None \<Longrightarrow> r_Directive r = Some d \<Longrightarrow> tc_arg tc ''path'' = JStr p \<Longrightarrow>
   p \<noteq> [] \<Longrightarrow> p \<noteq> ''<nil>'' \<Longrightarrow> te_KindOf te (tc_Name tc) \<in> {''side-effecting'', ''destructive''} \<Longrightarrow> CanMutatePath d p"
  by (auto simp: scope_violation_def Let_def split: if_splits)

section \<open>The journal\<close>

definition fx_refuses :: "fx_file \<Rightarrow> string \<Rightarrow> bool" where
  "fx_refuses j i \<longleftrightarrow> (\<exists>e. view j i = Some e \<and> (fx_Status e = Some EffectApplied \<or> unknown_outcome e))"

lemma fx_refuses_go:
  "journal_ok j \<Longrightarrow> fx_refuses j (fx_ID fx) \<Longrightarrow> fst (RecordIntent io t j fx) = j \<and> \<not> fst (snd (RecordIntent io t j fx))"
  using Intent_refuses[of j fx _ io t] by (auto simp: fx_refuses_def unknown_outcome_def)

definition journal_keeps :: "fx_file \<Rightarrow> 'w Runner \<Rightarrow> bool" where
  "journal_keeps j0 r \<longleftrightarrow> (\<exists>j. r_Journal r = Some j \<and> journal_ok j \<and> (\<forall>i. fx_refuses j0 i \<longrightarrow> fx_refuses j i))"

lemma effect_of_simps [simp]: "fx_ID (effect_of svc te i tc) = i" "fx_Status (effect_of svc te i tc) = None"
  by (simp_all add: effect_of_def)

lemma begin_keeps:
  assumes "journal_keeps j0 r" "beginEffect svc te i tc r = (r1, go, je)"
  shows "journal_keeps j0 r1" "fx_refuses j0 i \<Longrightarrow> \<not> go"
proof -
  obtain j where j: "r_Journal r = Some j" "journal_ok j" "\<forall>i. fx_refuses j0 i \<longrightarrow> fx_refuses j i"
    using assms(1) by (auto simp: journal_keeps_def)
  obtain io w where w: "sv_JournalIO svc (r_world r) = (io, w)" by fastforce
  let ?ri = "RecordIntent io (now svc r) j (effect_of svc te i tc)"
  have r1: "r_Journal r1 = Some (fst ?ri)" "go = fst (snd ?ri)"
    using assms(2) j(1) w by (auto simp: beginEffect_def Let_def split: prod.splits)
  have "journal_ok (fst ?ri)" using j(2) by (intro journal_ok_Intent) (simp_all add: known_status_def)
  moreover have "fx_refuses j k \<Longrightarrow> fx_refuses (fst ?ri) k" for k
    using Intent_view[OF j(2), of io "now svc r" "effect_of svc te i tc"] by (fastforce simp: fx_refuses_def)
  ultimately show "journal_keeps j0 r1" using r1 j(3) by (auto simp: journal_keeps_def)
  show "fx_refuses j0 i \<Longrightarrow> \<not> go"
    using j(3) fx_refuses_go[OF j(2), of "effect_of svc te i tc" io "now svc r"] r1(2) by simp
qed

lemma finish_keeps:
  assumes "journal_keeps j0 r" "\<not> fx_refuses j0 i" "st \<in> {EffectApplied, EffectFailed}"
  shows "journal_keeps j0 (finishEffect svc i st r)"
proof -
  obtain j where j: "r_Journal r = Some j" "journal_ok j" "\<forall>i. fx_refuses j0 i \<longrightarrow> fx_refuses j i"
    using assms(1) by (auto simp: journal_keeps_def)
  obtain io w where w: "sv_JournalIO svc (r_world r) = (io, w)" by fastforce
  obtain j' e where o: "RecordOutcome io j i st = (j', e)" by fastforce
  have "journal_ok j' \<and> (\<forall>k. k \<noteq> i \<longrightarrow> view j' k = view j k)"
    by (rule Outcome_cases[OF j(2) o]) (use assms(3) j(2) in \<open>auto simp: known_status_def\<close>)
  then have "journal_ok j'" "\<forall>k. fx_refuses j0 k \<longrightarrow> fx_refuses j' k"
    using j(3) assms(2) by (auto simp: fx_refuses_def)
  then show ?thesis using j(1) w o
    by (auto simp: finishEffect_def journal_keeps_def Let_def split: option.splits)
qed

lemma journal_keeps_frame:
  "journal_keeps j0 (emit svc k p r) = journal_keeps j0 r"
  "journal_keeps j0 (r\<lparr>r_world := w\<rparr>) = journal_keeps j0 r"
  "journal_keeps j0 (r\<lparr>r_Obs := ob\<rparr>) = journal_keeps j0 r"
  "journal_keeps j0 (r\<lparr>r_AfterSideEffects := b\<rparr>) = journal_keeps j0 r"
  "journal_keeps j0 (r\<lparr>r_Diffs := df\<rparr>) = journal_keeps j0 r"
  by (simp_all add: journal_keeps_def)

lemma record_keeps:
  "journal_keeps j0 r \<Longrightarrow> \<not> fx_refuses j0 (''fx-'' @ tc_ID tc) \<Longrightarrow> journal_keeps j0 (record_result svc te tc res r)"
  using finish_keeps[of j0 r "''fx-'' @ tc_ID tc" EffectApplied svc] finish_keeps[of j0 r "''fx-'' @ tc_ID tc" EffectFailed svc]
  by (simp add: record_result_def report_change_def journal_keeps_frame Let_def split: prod.split)

text \<open>
  What the executor would do with a call the journal already knows as done, or as pending
  without permission to retry, makes no difference.
\<close>

lemma journal_independent:
  "journal_keeps j0 r \<Longrightarrow>
   (\<forall>w tc. \<not> fx_refuses j0 (''fx-'' @ tc_ID tc) \<longrightarrow> ex w tc = te_Execute te w tc) \<Longrightarrow>
     exec_loop svc (te\<lparr>te_Execute := ex\<rparr>) tcs r = exec_loop svc te tcs r"
proof (induction tcs arbitrary: r)
  case (Cons tc tcs)
  let ?i = "''fx-'' @ tc_ID tc"
  obtain r1 go je where b: "beginEffect svc te ?i tc r = (r1, go, je)" by (metis prod_cases3)
  note k = begin_keeps[OF Cons.prems(1) b]
  show ?case
  proof (cases "fx_refuses j0 ?i")
    case True
    have "exec_loop svc (te\<lparr>te_Execute := ex\<rparr>) tcs (skipped svc tc r1) = exec_loop svc te tcs (skipped svc tc r1)"
      by (rule Cons.IH) (use k(1) Cons.prems(2) in \<open>auto simp: skipped_def journal_keeps_frame\<close>)
    then show ?thesis using k(2)[OF True] b by (simp add: exec_loop_Cons split: option.split)
  next
    case False
    then have x: "ex w tc = te_Execute te w tc" for w using Cons.prems(2) by blast
    have ih: "exec_loop svc (te\<lparr>te_Execute := ex\<rparr>) tcs r2 = exec_loop svc te tcs r2" if "journal_keeps j0 r2" for r2
      using Cons.IH[OF that Cons.prems(2)] .
    have "journal_keeps j0 (record_result svc te tc res (r1\<lparr>r_world := w\<rparr>))" for res w
      by (rule record_keeps[OF _ False]) (simp add: journal_keeps_frame k(1))
    moreover have "journal_keeps j0 (skipped svc tc r1)"
      using k(1) by (simp add: skipped_def journal_keeps_frame)
    ultimately show ?thesis using b x ih
      by (simp add: exec_loop_Cons split: option.split prod.split)
  qed
qed simp

section \<open>Permission before execution\<close>

definition decided :: "'w Services \<Rightarrow> NativeAgentState \<Rightarrow> Engine \<Rightarrow> ToolCall \<Rightarrow> PermissionResolution \<Rightarrow> bool" where
  "decided svc st e tc res \<longleftrightarrow> res \<in> set (en_Log e) \<and> pr_RequestID res = ''perm-'' @ tc_ID tc \<and>
     pr_Fingerprint res = call_fingerprint svc st tc \<and> pr_Decision res \<noteq> PermissionDeny \<and> pr_Decision res \<noteq> PermissionAsk"

lemma Evaluate_logged:
  "engine_ok e \<Longrightarrow> Evaluate hash t e req k a = (e', res) \<Longrightarrow>
     engine_ok e' \<and> set (en_Log e) \<subseteq> set (en_Log e') \<and> res \<in> set (en_Log e') \<and>
     pr_RequestID res = pq_ID req \<and> pr_Fingerprint res = Fingerprint hash req"
  using engine_ok_Evaluate[of e hash t req k a] Evaluate_cases[of hash t e req k a e' res]
  by (auto simp: engine_ok_def remember_def dest: in_force_id)

lemma perm_loop_decided:
  "perm_loop svc tcs r = (r', Fall) \<Longrightarrow> r_Perms r = Some e \<Longrightarrow> engine_ok e \<Longrightarrow>
     \<exists>e'. r_Perms r' = Some e' \<and> engine_ok e' \<and> set (en_Log e) \<subseteq> set (en_Log e') \<and>
       (\<forall>tc\<in>set tcs. \<exists>res. decided svc (r_State r) e' tc res)"
proof (induction tcs arbitrary: r e)
  case (Cons tc tcs)
  let ?req = "permissionRequestFor (sv_num svc) (r_State r) tc"
  obtain e1 res where ev: "Evaluate (sv_hash svc) (now svc r) e ?req (kind_of svc tc) ''policy'' = (e1, res)"
    by fastforce
  note l = Evaluate_logged[OF Cons.prems(3) ev]
  let ?r1 = "r\<lparr>r_Perms := Some e1\<rparr>"
  have d: "pr_Decision res \<noteq> PermissionDeny" "pr_Decision res \<noteq> PermissionAsk"
    and rest: "perm_loop svc tcs ?r1 = (r', Fall)"
    using Cons.prems(1,2) ev by (auto simp: Let_def dest: wait_for_ends split: PermissionDecision.splits)
  from Cons.IH[OF rest] l obtain e' where e': "r_Perms r' = Some e'" "engine_ok e'" "set (en_Log e1) \<subseteq> set (en_Log e')"
    "\<forall>tc\<in>set tcs. \<exists>res. decided svc (r_State r) e' tc res" by auto
  moreover have "decided svc (r_State r) e' tc res"
    using l d e'(3) by (auto simp: decided_def call_fingerprint_def permissionRequestFor_def)
  ultimately show ?case using l by auto
next
  case Nil
  then have "r' = set_phase PhaseExecuteTool r" by simp
  with Nil show ?case by simp
qed

lemma step_phase_execute:
  assumes "step_phase svc r = (r', e)" "phase_of r' = PhaseExecuteTool" "phase_of r \<noteq> PhaseExecuteTool"
  shows "phase_of r = PhasePermissionCheck \<and> perm_loop svc (r_ToolQ r) r = (r', Fall)"
proof -
  have ev: "phase_of (fst (step_evaluate svc q)) \<noteq> PhaseExecuteTool" for q
    by (auto simp: step_evaluate_def Let_def repair_def feed_back_def run_gate_def
        split: option.splits prod.splits)
  have cp: "phase_of (fst (step_checkpoint svc q)) \<noteq> PhaseExecuteTool" if "phase_of q = PhaseCheckpoint" for q
    using that by (auto simp: step_checkpoint_def split: option.splits prod.splits dest!: persist_eq)
  have cm: "phase_of (fst (step_compile svc q)) \<noteq> PhaseExecuteTool" if "phase_of q = PhaseCompileContext" for q
    using that by (auto simp: step_compile_def split: option.splits prod.splits sum.splits)
  show ?thesis
    using assms ev[of r] cp[of r] cm[of r]
    by (auto simp: step_phase_def step_permission_def step_plan_def Let_def
        split: Phase.splits if_splits dest: step_request_ends perm_loop_ends)
qed

lemma Step_execute:
  assumes "Step svc r = (r', err)" "phase_of r' = PhaseExecuteTool" "phase_of r \<noteq> PhaseExecuteTool"
    "r_Perms r = Some e" "engine_ok e"
  shows "phase_of r = PhasePermissionCheck \<and> (\<exists>e'. r_Perms r' = Some e' \<and> engine_ok e' \<and>
       (\<forall>tc\<in>set (r_ToolQ r). \<exists>res. decided svc (r_State r) e' tc res))"
proof (cases "sv_CtxErr svc (r_world r)")
  case None
  obtain r1 en where s: "step_phase svc r = (r1, en)" by fastforce
  with assms(1) None have r1: "phase_of r' = phase_of r1" "r_Perms r' = r_Perms r1"
    by (auto simp: Step_def split: step_end.splits)
  from step_phase_execute[OF s] assms(2,3) r1 perm_loop_decided[OF _ assms(4,5), of svc "r_ToolQ r" r1]
  show ?thesis by auto
qed (use assms(1,2) in \<open>auto simp: Step_def Let_def\<close>)

section \<open>The loop guard is never what stops a run\<close>

text \<open>
  The number of steps left: what remains of the current turn, seven steps for each later
  turn, one for the checkpoint.
\<close>

fun phase_rank :: "Phase \<Rightarrow> nat" where
  "phase_rank PhasePrepare = 10"
| "phase_rank PhaseCompileContext = 9"
| "phase_rank PhaseRequestModel = 8"
| "phase_rank PhaseConsumeModelEvent = 7"
| "phase_rank PhasePlanToolCalls = 6"
| "phase_rank PhasePermissionCheck = 5"
| "phase_rank PhaseExecuteTool = 4"
| "phase_rank PhaseRecordObservation = 3"
| "phase_rank PhaseEvaluateStop = 2"
| "phase_rank (PhaseOther s) = 1"
| "phase_rank _ = 0"

definition steps_left :: "'w Runner \<Rightarrow> nat" where
  "steps_left r = (if phase_of r = PhaseCheckpoint then 1 else if halted r then 0
     else 7 * nat (r_MaxTurns r - 1 - r_TurnsDone r) + phase_rank (phase_of r))"

lemma turns_frame:
  "r_TurnsDone (fst (step_request svc r)) = r_TurnsDone r \<and> r_MaxTurns (fst (step_request svc r)) = r_MaxTurns r"
  "r_TurnsDone (fst (step_compile svc r)) = r_TurnsDone r \<and> r_MaxTurns (fst (step_compile svc r)) = r_MaxTurns r"
  "r_TurnsDone (step_plan r) = r_TurnsDone r \<and> r_MaxTurns (step_plan r) = r_MaxTurns r"
  "r_TurnsDone (fst (perm_loop svc tcs r)) = r_TurnsDone r \<and> r_MaxTurns (fst (perm_loop svc tcs r)) = r_MaxTurns r"
  "r_TurnsDone (fst (exec_loop svc te tcs r)) = r_TurnsDone r \<and> r_MaxTurns (fst (exec_loop svc te tcs r)) = r_MaxTurns r"
  "r_TurnsDone (fst (step_checkpoint svc r)) = r_TurnsDone r \<and> r_MaxTurns (fst (step_checkpoint svc r)) = r_MaxTurns r"
proof -
  let ?C = "\<lambda>q. r_TurnsDone q = r_TurnsDone r \<and> configured (r_MaxTurns r) (r_MaxRepairAttempts r) (r_Directive r) q"
  have c: "?C r" by (simp add: configured_def)
  show "r_TurnsDone (fst (step_request svc r)) = r_TurnsDone r \<and> r_MaxTurns (fst (step_request svc r)) = r_MaxTurns r"
    using td.inv_request[OF c, of svc] by (simp add: configured_def)
  show "r_TurnsDone (fst (step_compile svc r)) = r_TurnsDone r \<and> r_MaxTurns (fst (step_compile svc r)) = r_MaxTurns r"
    using td.inv_compile[OF c, of svc] by (simp add: configured_def)
  show "r_TurnsDone (step_plan r) = r_TurnsDone r \<and> r_MaxTurns (step_plan r) = r_MaxTurns r"
    using td.inv_plan[OF c] by (simp add: configured_def)
  show "r_TurnsDone (fst (perm_loop svc tcs r)) = r_TurnsDone r \<and> r_MaxTurns (fst (perm_loop svc tcs r)) = r_MaxTurns r"
    using td.inv_perm[OF c, of svc] by (simp add: configured_def)
  show "r_TurnsDone (fst (exec_loop svc te tcs r)) = r_TurnsDone r \<and> r_MaxTurns (fst (exec_loop svc te tcs r)) = r_MaxTurns r"
    using td.inv_exec[OF c, of svc] by (simp add: configured_def)
  show "r_TurnsDone (fst (step_checkpoint svc r)) = r_TurnsDone r \<and> r_MaxTurns (fst (step_checkpoint svc r)) = r_MaxTurns r"
    using td.inv_checkpoint[OF c, of svc] by (simp add: configured_def)
qed

lemma evaluate_ends:
  "step_evaluate svc r = (r', e) \<Longrightarrow>
     phase_of r' = PhaseFailed \<and> (\<exists>err. e = Return (Some err)) \<or> phase_of r' = PhaseCheckpoint \<and> e = Fall \<or>
     phase_of r' = PhaseRequestModel \<and> e = Fall \<and> r_TurnsDone r' = r_TurnsDone r + 1 \<and> r_MaxTurns r' = r_MaxTurns r
       \<and> r_TurnsDone r + 1 < r_MaxTurns r"
  by (auto simp: step_evaluate_def Let_def repair_def feed_back_def run_gate_def
      split: option.splits prod.splits if_splits)

lemma steps_left_pos: "\<not> halted r \<Longrightarrow> 0 < steps_left r"
  by (cases "phase_of r") (auto simp: steps_left_def halted_def)

lemma checkpoint_ends:
  "step_checkpoint svc r = (r', Fall) \<Longrightarrow> halted r'"
  by (auto simp: step_checkpoint_def halted_def split: option.splits prod.splits if_splits)

lemma step_phase_left:
  assumes "step_phase svc r = (r', Fall)" "\<not> halted r"
  shows "steps_left r' < steps_left r"
proof -
  note t = turns_frame(1)[of svc r] turns_frame(2)[of svc r] turns_frame(3)[of r] turns_frame(4)[of svc _ r] turns_frame(5)[of svc _ _ r]
  show ?thesis
  proof (cases "phase_of r")
    case PhaseRequestModel
    with assms t(1) show ?thesis
      by (auto simp: step_phase_def steps_left_def halted_def dest: step_request_ends)
  next
    case PhaseCompileContext
    with assms t(2) have "phase_of r' = PhaseRequestModel"
      by (auto simp: step_phase_def step_compile_def split: option.splits prod.splits sum.splits)
    with PhaseCompileContext assms t(2) show ?thesis by (auto simp: step_phase_def steps_left_def halted_def)
  next
    case PhasePlanToolCalls
    with assms have "r' = step_plan r" by (simp add: step_phase_def)
    then have "phase_of r' = PhaseEvaluateStop \<or> phase_of r' = PhasePermissionCheck"
      by (simp add: step_plan_def Let_def)
    with PhasePlanToolCalls t(3) \<open>r' = step_plan r\<close> show ?thesis by (auto simp: steps_left_def halted_def)
  next
    case PhasePermissionCheck
    with assms t(4)[of "r_ToolQ r"] show ?thesis
      by (auto simp: step_phase_def step_permission_def steps_left_def halted_def dest: perm_loop_ends)
  next
    case PhaseExecuteTool
    then obtain te where "exec_loop svc te (r_ToolQ r) r = (r', Fall)"
      using assms(1) by (auto simp: step_phase_def step_execute_def split: option.splits)
    with PhaseExecuteTool t(5)[of te "r_ToolQ r"] show ?thesis
      by (auto simp: steps_left_def halted_def dest: exec_loop_ends)
  next
    case PhaseEvaluateStop
    with assms have "step_evaluate svc r = (r', Fall)" by (simp add: step_phase_def)
    from evaluate_ends[OF this] PhaseEvaluateStop show ?thesis
      by (auto simp: steps_left_def halted_def nat_less_iff)
  next
    case PhaseCheckpoint
    with assms show ?thesis using checkpoint_ends[of svc r r']
      by (auto simp: step_phase_def steps_left_def halted_def)
  qed (use assms in \<open>auto simp: step_phase_def steps_left_def halted_def\<close>)
qed

lemma Step_left:
  assumes "Step svc r = (r', None)" "\<not> halted r"
  shows "halted r' \<or> steps_left r' < steps_left r"
proof (cases "sv_CtxErr svc (r_world r)")
  case None
  obtain r1 en where s: "step_phase svc r = (r1, en)" by fastforce
  show ?thesis
  proof (cases en)
    case Fall
    with s None assms(1) have "r' = r1\<lparr>r_State := (r_State r1)\<lparr>st_UpdatedAt := now svc r1\<rparr>\<rparr>"
      by (simp add: Step_def)
    then have "steps_left r' = steps_left r1" by (simp add: steps_left_def halted_def)
    with step_phase_left[OF s[unfolded Fall] assms(2)] show ?thesis by simp
  next
    case (Return e)
    with s None assms have "step_phase svc r = (r', Return None)" by (simp add: Step_def)
    with assms(2) show ?thesis
      by (auto simp: step_phase_def step_compile_def step_execute_def step_permission_def halted_def step_checkpoint_def
          split: Phase.splits option.splits prod.splits sum.splits if_splits
          dest: step_request_ends perm_loop_ends exec_loop_ends evaluate_ends)
  qed
qed (use assms(1) in \<open>simp add: Step_def Let_def\<close>)

lemma run_loop_enough:
  "steps_left r < n \<Longrightarrow> steps_left r < m \<Longrightarrow> run_loop n svc r = run_loop m svc r"
proof (induction n arbitrary: r m)
  case (Suc n)
  then obtain k where m: "m = Suc k" by (cases m) auto
  show ?case
  proof (cases "halted r \<or> sv_CtxErr svc (r_world r) \<noteq> None")
    case True
    then show ?thesis by (auto simp: m)
  next
    case False
    obtain r1 e where s: "Step svc r = (r1, e)" by fastforce
    show ?thesis
    proof (cases e)
      case None
      from Step_left[OF s[unfolded None]] False have "halted r1 \<or> steps_left r1 < steps_left r" by simp
      then show ?thesis
      proof
        assume h: "halted r1"
        have "0 < n" "0 < k" using Suc.prems m False steps_left_pos[of r] by auto
        then show ?thesis using False s None h by (cases n; cases k) (auto simp: m)
      next
        assume "steps_left r1 < steps_left r"
        then show ?thesis using Suc.IH[of r1 k] Suc.prems False s None by (simp add: m)
      qed
    qed (use False s in \<open>auto simp: m\<close>)
  qed
qed simp

section \<open>The quality gate\<close>

definition gate_never_passes :: "'w Services \<Rightarrow> bool" where
  "gate_never_passes svc \<longleftrightarrow> (\<exists>g. sv_QualityGate svc = Some g \<and> (\<forall>w. fst (g w) \<noteq> None))"

definition incomplete :: "'w Runner \<Rightarrow> bool" where
  "incomplete r \<longleftrightarrow> phase_of r \<noteq> PhaseComplete \<and>
     (phase_of r = PhaseCheckpoint \<longrightarrow> st_StopReason (r_State r) \<noteq> ''completed'' \<and> r_TurnsDone r < r_MaxTurns r)"

lemma gate_evaluate:
  "gate_never_passes svc \<Longrightarrow> incomplete (fst (step_evaluate svc r))"
  by (auto simp: gate_never_passes_def incomplete_def step_evaluate_def run_gate_def repair_def feed_back_def Let_def
      split: option.splits prod.splits if_splits) (metis fst_conv option.distinct(1))+

lemma gate_step_phase:
  assumes "gate_never_passes svc" "incomplete r"
  shows "incomplete (fst (step_phase svc r))"
proof -
  obtain r' e where s: "step_phase svc r = (r', e)" by fastforce
  show ?thesis
  proof (cases "phase_of r")
    case PhaseEvaluateStop
    with gate_evaluate[OF assms(1), of r] show ?thesis by (simp add: step_phase_def)
  next
    case PhaseCheckpoint
    with assms(2) show ?thesis
      by (auto simp: step_phase_def step_checkpoint_def incomplete_def split: option.splits prod.splits dest!: persist_eq)
  next
    case PhaseExecuteTool
    with s show ?thesis
      by (auto simp: step_phase_def step_execute_def incomplete_def split: option.splits dest: exec_loop_ends)
  next
    case PhaseCompileContext
    with s show ?thesis
      by (auto simp: step_phase_def step_compile_def incomplete_def split: option.splits prod.splits sum.splits)
  qed (use s assms(2) in \<open>auto simp: step_phase_def step_permission_def step_plan_def incomplete_def Let_def
       split: if_splits dest: step_request_ends perm_loop_ends\<close>)
qed

lemma gate_Step: "gate_never_passes svc \<Longrightarrow> incomplete r \<Longrightarrow> incomplete (fst (Step svc r))"
proof (cases "sv_CtxErr svc (r_world r)")
  case None
  assume "gate_never_passes svc" "incomplete r"
  then have "incomplete (fst (step_phase svc r))" by (rule gate_step_phase)
  then show ?thesis using None
    by (auto simp: Step_def incomplete_def split: prod.splits step_end.splits)
qed (simp add: Step_def Let_def incomplete_def)

lemma gate_run: "gate_never_passes svc \<Longrightarrow> incomplete r \<Longrightarrow> incomplete (fst (run_loop n svc r))"
proof (induction n arbitrary: r)
  case (Suc n)
  from gate_Step[OF Suc.prems] Suc.IH[of "fst (Step svc r)"] Suc.prems
  show ?case by (auto simp: Pause_def Let_def incomplete_def split: option.splits prod.splits)
qed simp

section \<open>No reservation is lost\<close>

text \<open>
  \<open>held\<close> is any counter of the world that a granted reservation raises, a release lowers and
  nothing else that happens in the step touches.
\<close>

definition counts_holds :: "'w Services \<Rightarrow> ('w \<Rightarrow> int) \<Rightarrow> bool" where
  "counts_holds svc held \<longleftrightarrow>
     (\<forall>w t c. held (sv_release svc w t c) = held w - 1) \<and>
     (\<forall>w. held (snd (sv_StoreIO svc w)) = held w) \<and>
     (\<forall>w req. held (snd (sv_Stream svc w req)) = held w) \<and>
     (\<forall>reserve w a. sv_ReserveBudget svc = Some reserve \<longrightarrow>
        held (snd (reserve w a)) = held w + (if fst (reserve w a) = Inr True then 1 else 0))"

lemma world_frame [simp]:
  "r_world (account_usage svc u r) = r_world r" "r_world (emit_delta svc ev r) = r_world r"
  "r_world (fail_with s r) = r_world r"
  by (auto simp: account_usage_def emit_delta_def fail_with_def Let_def split: ModelEventKind.splits option.splits)

lemma hold_persist: "counts_holds svc held \<Longrightarrow> held (r_world (fst (persist svc r))) = held (r_world r)"
  by (auto simp: persist_def counts_holds_def Let_def split: option.splits prod.splits) (metis snd_conv)

lemma hold_settle:
  "counts_holds svc held \<Longrightarrow> held (r_world (settle svc h t c r)) = held (r_world r) - (if h then 1 else 0)"
  by (simp add: settle_def counts_holds_def)

lemma stream_settles:
  "counts_holds svc held \<Longrightarrow>
     held (r_world (fst (stream_loop svc hold evs r))) = held (r_world r) - (if hold then 1 else 0)"
  by (induction svc hold evs r rule: stream_loop.induct)
    (auto simp: Let_def hold_persist hold_settle split: option.splits ModelEventKind.splits prod.splits)

lemma micro_world [simp]: "r_world (fst (microCompactObservations svc r)) = r_world r"
proof -
  have "r_world (fst (fold (micro_one svc) is rc)) = r_world (fst rc)" for "is" rc
  proof (induction "is" arbitrary: rc)
    case (Cons i "is")
    have "r_world (fst (micro_one svc i rc)) = r_world (fst rc)"
      by (auto simp: micro_one_def Let_def split: prod.splits)
    with Cons.IH[of "micro_one svc i rc"] show ?case by simp
  qed simp
  then show ?thesis by (simp add: microCompactObservations_def)
qed

lemma maybeCompact_world [simp]: "r_world (maybeCompact svc r) = r_world r"
proof -
  obtain r1 c where m: "microCompactObservations svc r = (r1, c)" by fastforce
  then have "r_world r1 = r_world r" using micro_world[of svc r] by simp
  then show ?thesis by (simp add: maybeCompact_def Let_def m)
qed

lemma reserve_holds:
  "counts_holds svc held \<Longrightarrow> reserveForCall svc req r = (r', res) \<Longrightarrow>
     held (r_world r') = held (r_world r) + (if res = Inr True then 1 else 0)"
proof (cases "sv_ReserveBudget svc")
  case None
  then show "reserveForCall svc req r = (r', res) \<Longrightarrow> ?thesis"
    by (auto simp: reserveForCall_def split: option.splits)
next
  case (Some reserve)
  assume c: "counts_holds svc held" and r: "reserveForCall svc req r = (r', res)"
  obtain q w where w: "reserve (r_world r) (allowance req) = (q, w)" by fastforce
  have "held w = held (r_world r) + (if q = Inr True then 1 else 0)"
    using c Some w unfolding counts_holds_def by (metis fst_conv snd_conv)
  then show ?thesis using r Some w by (auto simp: reserveForCall_def split: option.splits)
qed

lemma request_settles:
  assumes c: "counts_holds svc held"
  shows "held (r_world (fst (step_request svc r))) = held (r_world r)"
proof (cases "ResolveReferences (sv_files svc (r_world (maybeCompact svc r))) (r_Messages (maybeCompact svc r))
      (sv_Workspace svc) (sv_HasVision svc)")
  case (Inl e)
  then show ?thesis by (simp add: step_request_def Let_def)
next
  case (Inr ms)
  let ?r1 = "(maybeCompact svc r)\<lparr>r_Messages := ms\<rparr>"
  let ?req = "model_request svc ?r1"
  obtain r2 res where r2: "reserveForCall svc ?req ?r1 = (r2, res)" by fastforce
  have h2: "held (r_world r2) = held (r_world r) + (if res = Inr True then 1 else 0)"
    using reserve_holds[OF c r2] by simp
  show ?thesis
  proof (cases res)
    case (Inl e)
    then show ?thesis using h2 Inr r2 by (simp add: step_request_def Let_def)
  next
    case hold: (Inr hold)
    obtain sres w where w: "sv_Stream svc (r_world r2) ?req = (sres, w)" by fastforce
    have "held w = held (r_world r2)" using c w unfolding counts_holds_def by (metis snd_conv)
    then show ?thesis using h2 Inr r2 hold w hold_settle[OF c] stream_settles[OF c]
      by (auto simp: step_request_def Let_def split: sum.splits)
  qed
qed

section \<open>The budget before the model\<close>

lemma request_exhausted:
  assumes "sv_BudgetExhausted svc = Some f" "f (r_world r) = Some e"
    "ResolveReferences (sv_files svc (r_world r)) (r_Messages (maybeCompact svc r)) (sv_Workspace svc) (sv_HasVision svc) = Inr ms"
    "step_request svc r = (r', en)"
  shows "en = Return (Some (RunError e)) \<and> phase_of r' = PhaseFailed \<and> r_world r' = r_world r \<and>
     st_StopReason (r_State r') = ''budget exhausted: '' @ e"
  using assms by (auto simp: step_request_def reserveForCall_def Let_def fail_with_def)

section \<open>Answering a permission request\<close>

lemma Resolve_refused:
  "phase_of r \<noteq> PhaseYield \<or> i \<notin> set (st_PendingPerms (r_State r)) \<or> f = [] \<or> f \<noteq> pendingFingerprint svc r i \<Longrightarrow>
   \<exists>err. ResolvePermission svc i f allow actor reason r = (r, Some err)"
  by (auto simp: ResolvePermission_def Let_def split: option.split)

lemma Resolve_accepted:
  assumes "ResolvePermission svc i f allow actor reason r = (r', None)"
  shows "phase_of r = PhaseYield \<and> i \<in> set (st_PendingPerms (r_State r)) \<and> f \<noteq> [] \<and> f = pendingFingerprint svc r i \<and>
     phase_of r' = PhasePermissionCheck \<and> st_PendingPerms (r_State r') = [] \<and>
     (\<exists>e res. r_Perms r' = Some e \<and> Resolution e i f = Some res \<and> pr_Fingerprint res = f \<and>
        pr_Decision res = (if allow then PermissionAllow else PermissionDeny) \<and> pr_Actor res = actor)"
proof -
  have ok: "phase_of r = PhaseYield" "i \<in> set (st_PendingPerms (r_State r))" "f \<noteq> []" "f = pendingFingerprint svc r i"
    using Resolve_refused[of r i f svc allow actor reason] assms by (metis option.distinct(1) prod.inject)+
  then obtain e where e: "r_Perms r = Some e"
    using assms by (auto simp: ResolvePermission_def split: option.splits if_splits)
  define ans where "ans = (if allow then Approve (now svc r) e i f actor else Deny (now svc r) e i f actor reason)"
  obtain e' res where r: "ans = (e', Inr res)" "Resolution e' i f = Some res" "pr_Fingerprint res = f"
      "pr_Decision res = (if allow then PermissionAllow else PermissionDeny)" "pr_Actor res = actor"
    using ok(3) by (cases allow)
      (auto simp: ans_def Approve_def Deny_def engine_record_def Resolution_def remember_def Let_def)
  have ne: "st_PendingPerms (r_State r) \<noteq> []" using ok(2) by auto
  define r1 where "r1 = r\<lparr>r_Perms := Some e'\<rparr>"
  define r2 where "r2 = r1\<lparr>r_State := (r_State r1)\<lparr>st_PendingPerms := [], st_PendingTools := [],
      st_StopReason := [], st_Phase := PhasePermissionCheck\<rparr>\<rparr>"
  define k where "k = (if allow then ''permission_approved'' else ''permission_rejected'')"
  define q where "q = emit svc k [(''request_id'', JStr i), (''actor'', JStr actor), (''decision'', JStr k)] r2"
  have "ResolvePermission svc i f allow actor reason r = persist svc q"
    using ok ne e r(1) unfolding ResolvePermission_def Let_def
    by (simp add: ans_def[symmetric] q_def r2_def r1_def k_def)
  then have p: "persist svc q = (r', None)" using assms by simp
  have "phase_of q = PhasePermissionCheck" "r_Perms q = Some e'" "st_PendingPerms (r_State q) = []"
    by (simp_all add: q_def r2_def r1_def)
  moreover have "st_PendingPerms (r_State r') = st_PendingPerms (r_State q)"
    using persist_simps(10)[of svc q] p by simp
  ultimately show ?thesis using r ok persist_eq[OF p] by auto
qed

lemma permission_request_id [simp]:
  "pq_ID (permissionRequestFor num st tc) = ''perm-'' @ tc_ID tc"
  by (simp add: permissionRequestFor_def)

text \<open>An approval is found again when the call is re-evaluated: the run does not ask twice.\<close>

lemma approved_passes:
  assumes "r_Perms r = Some e" "Resolution e (''perm-'' @ tc_ID tc) (call_fingerprint svc (r_State r) tc) = Some res"
    "pr_Fingerprint res = call_fingerprint svc (r_State r) tc" "pr_Decision res = PermissionAllow"
  shows "perm_loop svc (tc # tcs) r = perm_loop svc tcs r"
proof -
  have "en_resolutions e (''perm-'' @ tc_ID tc) = Some res"
    using assms(2) by (auto simp: Resolution_def split: option.splits if_splits)
  then have "Evaluate (sv_hash svc) (now svc r) e (permissionRequestFor (sv_num svc) (r_State r) tc) (kind_of svc tc) ''policy'' = (e, res)"
    using assms(3) by (simp add: Evaluate_def Let_def call_fingerprint_def)
  then have "perm_loop svc (tc # tcs) r = perm_loop svc tcs (r\<lparr>r_Perms := Some e\<rparr>)"
    using assms(1,4) by simp
  also have "r\<lparr>r_Perms := Some e\<rparr> = r" using assms(1) by simp
  finally show ?thesis .
qed

end
