(* ===== verification/RunnerResume.thy ===== *)
theory RunnerResume
  imports RunnerSafety
begin

text \<open>
  Compaction keeps the recent conversation, and a checkpoint is a recoverable point: what
  \<open>persist\<close> wrote, \<open>RestoreFrom\<close> gives back.
\<close>

section \<open>Compaction\<close>

lemma compact_message_frame [simp]:
  "ms_Role (compact_message hash m) = ms_Role m" "ms_ID (compact_message hash m) = ms_ID m"
  "ms_ToolCalls (compact_message hash m) = ms_ToolCalls m" "ms_ToolCallID (compact_message hash m) = ms_ToolCallID m"
  by (simp_all add: compact_message_def split: prod.split)

text \<open>What micro-compaction may do to a conversation: change some old observations in place.\<close>

definition micro_of :: "'w Services \<Rightarrow> Message list \<Rightarrow> Message list \<Rightarrow> bool" where
  "micro_of svc ms ms' \<longleftrightarrow> length ms' = length ms \<and>
     (\<forall>i<length ms. ms' ! i = ms ! i \<or>
        i + 4 < length ms \<and> ms_Role (ms ! i) = RoleTool \<and> ms_ID (ms' ! i) = ms_ID (ms ! i)
          \<and> ms_Role (ms' ! i) = RoleTool \<and> ms_ToolCallID (ms' ! i) = ms_ToolCallID (ms ! i))"

lemma micro_of_refl: "micro_of svc ms ms"
  by (simp add: micro_of_def)

lemma micro_one_of:
  assumes "micro_of svc ms (r_Messages r)" "micro_one svc i (r, c) = (r', c')" "i + 4 < length ms"
  shows "micro_of svc ms (r_Messages r')"
proof (cases "compactable (r_Messages r ! i)")
  case True
  then have "ms_Role (r_Messages r ! i) = RoleTool" by (simp add: compactable_def)
  moreover have "r_Messages r' = (r_Messages r)[i := compact_message (sv_hash svc) (r_Messages r ! i)]"
    using assms(2) True by (auto simp: micro_one_def Let_def)
  moreover have "ms_Role (ms ! i) = RoleTool \<and> ms_ID (r_Messages r ! i) = ms_ID (ms ! i)
      \<and> ms_ToolCallID (r_Messages r ! i) = ms_ToolCallID (ms ! i)"
    using assms(1,3) \<open>ms_Role (r_Messages r ! i) = RoleTool\<close> by (auto simp: micro_of_def dest!: spec[of _ i])
  ultimately show ?thesis using assms(1,3) by (auto simp: micro_of_def nth_list_update)
next
  case False
  then show ?thesis using assms(1,2) by (simp add: micro_one_def)
qed

lemma microCompact_of: "micro_of svc (r_Messages r) (r_Messages (fst (microCompactObservations svc r)))"
proof -
  have steps: "\<forall>i\<in>set is. i + 4 < length ms \<Longrightarrow> micro_of svc ms (r_Messages (fst rc)) \<Longrightarrow>
      micro_of svc ms (r_Messages (fst (fold (micro_one svc) is rc)))" for "is" rc ms
  proof (induction "is" arbitrary: rc)
    case (Cons i "is")
    obtain r c r1 c1 where rc: "rc = (r, c)" "micro_one svc i rc = (r1, c1)" by (metis prod.collapse)
    have "micro_of svc ms (r_Messages r1)"
      by (rule micro_one_of[of _ _ r i c r1 c1]) (use Cons.prems rc in auto)
    with Cons.IH[of "(r1, c1)"] Cons.prems rc show ?case by simp
  qed simp
  have "micro_of svc (r_Messages r) (r_Messages (fst (fold (micro_one svc) [0..<length (r_Messages r) - 4] (r, False))))"
    by (rule steps) (auto simp: micro_of_refl)
  then show ?thesis by (simp add: microCompactObservations_def micro_of_refl)
qed

lemma micro_of_suffix: "micro_of svc ms ms' \<Longrightarrow> drop (length ms - 4) ms' = drop (length ms - 4) ms"
proof (rule nth_equalityI)
  fix i
  assume m: "micro_of svc ms ms'" and i: "i < length (drop (length ms - 4) ms')"
  have len: "length ms' = length ms" using m by (simp add: micro_of_def)
  have "ms' ! (length ms - 4 + i) = ms ! (length ms - 4 + i)"
    using m i len by (auto simp: micro_of_def dest!: spec[of _ "length ms - 4 + i"])
  then show "drop (length ms - 4) ms' ! i = drop (length ms - 4) ms ! i"
    using i len by simp
qed (simp add: micro_of_def)

definition keep_count :: "'w Runner \<Rightarrow> nat" where
  "keep_count r = (if r_CompactKeep r \<le> 0 then 10 else nat (r_CompactKeep r))"

lemma micro_config [simp]:
  "r_CompactKeep (fst (microCompactObservations svc r)) = r_CompactKeep r"
proof -
  have "r_CompactKeep (fst (fold (micro_one svc) is rc)) = r_CompactKeep (fst rc)" for "is" rc
  proof (induction "is" arbitrary: rc)
    case (Cons i "is")
    have "r_CompactKeep (fst (micro_one svc i rc)) = r_CompactKeep (fst rc)"
      by (auto simp: micro_one_def Let_def split: prod.splits)
    with Cons.IH[of "micro_one svc i rc"] show ?case by simp
  qed simp
  then show ?thesis by (simp add: microCompactObservations_def)
qed

text \<open>
  The conversation after compaction: as micro-compaction leaves it, or a summary followed by
  the last \<open>keep_count\<close> messages of that.
\<close>

lemma maybeCompact_shape:
  "\<exists>ms. micro_of svc (r_Messages r) ms \<and>
     (r_Messages (maybeCompact svc r) = ms \<or>
      keep_count r < length ms \<and>
      (\<exists>s. ms_Role s = RoleSystem \<and> r_Messages (maybeCompact svc r) = s # drop (length ms - keep_count r) ms))"
proof -
  obtain r1 c where m: "microCompactObservations svc r = (r1, c)" by fastforce
  have k: "r_CompactKeep r1 = r_CompactKeep r" using micro_config[of svc r] m by simp
  have of: "micro_of svc (r_Messages r) (r_Messages r1)" using microCompact_of[of svc r] m by simp
  have refl: "micro_of svc (r_Messages r) (r_Messages r)" by (simp add: micro_of_def)
  show ?thesis
  proof (cases "over_size r")
    case True
    then show ?thesis using of k refl
      by (auto simp: maybeCompact_def Let_def m keep_count_def blank_message_def not_le
          intro!: exI[of _ "r_Messages r1"])
  next
    case False
    with refl show ?thesis by (auto simp: maybeCompact_def)
  qed
qed

lemma maybeCompact_recent:
  assumes "k \<le> 4" "k \<le> keep_count r" "k \<le> length (r_Messages r)"
  shows "drop (length (r_Messages (maybeCompact svc r)) - k) (r_Messages (maybeCompact svc r))
       = drop (length (r_Messages r) - k) (r_Messages r)"
proof -
  obtain ms where ms: "micro_of svc (r_Messages r) ms"
    "r_Messages (maybeCompact svc r) = ms \<or> keep_count r < length ms \<and>
      (\<exists>s. ms_Role s = RoleSystem \<and> r_Messages (maybeCompact svc r) = s # drop (length ms - keep_count r) ms)"
    using maybeCompact_shape[of svc r] by blast
  have len: "length ms = length (r_Messages r)" using ms(1) by (simp add: micro_of_def)
  have suf: "drop (length ms - k) ms = drop (length (r_Messages r) - k) (r_Messages r)"
  proof -
    have "drop (length ms - k) ms = drop (length ms - k - (length ms - 4)) (drop (length ms - 4) ms)"
      using assms(1,3) len by simp
    also have "\<dots> = drop (length ms - k - (length ms - 4)) (drop (length ms - 4) (r_Messages r))"
      using micro_of_suffix[OF ms(1)] len by simp
    finally show ?thesis using assms(1,3) len by simp
  qed
  from ms(2) show ?thesis
  proof
    assume "r_Messages (maybeCompact svc r) = ms"
    with suf show ?thesis by simp
  next
    assume "keep_count r < length ms \<and>
      (\<exists>s. ms_Role s = RoleSystem \<and> r_Messages (maybeCompact svc r) = s # drop (length ms - keep_count r) ms)"
    then obtain s where s: "keep_count r < length ms" "r_Messages (maybeCompact svc r) = s # drop (length ms - keep_count r) ms"
      by blast
    have "drop (Suc (keep_count r) - k) (s # drop (length ms - keep_count r) ms) = drop (length ms - k) ms"
    proof -
      have "Suc (keep_count r) - k = Suc (keep_count r - k)"
        "keep_count r - k + (length ms - keep_count r) = length ms - k" using assms(2) s(1) by auto
      then show ?thesis by (simp only: drop_Suc_Cons drop_drop)
    qed
    then show ?thesis using s suf by simp
  qed
qed

section \<open>Checkpoint and resume\<close>

lemma persist_Load:
  assumes "persist svc r = (r', None)" "r_Store r = Some d" "dir_ok d" "now svc r \<noteq> []"
  shows "\<exists>d' cp. r_Store r' = Some d' \<and> dir_ok d' \<and> Load d' (cp_ID cp) = Inr cp \<and>
     cp_RunID cp = st_RunID (r_State r) \<and> cp_State cp = r_State r' \<and> cp_Messages cp = r_Messages r' \<and> cp_ToolQ cp = r_ToolQ r' \<and>
     cp_Obs cp = r_Obs r' \<and> cp_AfterSideEffects cp = r_AfterSideEffects r' \<and> cp_TurnsDone cp = r_TurnsDone r' \<and>
     r_PromptTokens r' = r_PromptTokens r"
proof -
  define r1 where "r1 = r\<lparr>r_State := (r_State r)\<lparr>st_Revision := st_Revision (r_State r) + 1, st_UpdatedAt := now svc r\<rparr>\<rparr>"
  obtain io w where io: "sv_StoreIO svc (r_world r1) = (io, w)" by fastforce
  obtain d' e where s: "Save io (now svc r1) d (snapshot svc r1) = (d', e)" by fastforce
  have p: "persist svc r = (r1\<lparr>r_Store := Some d', r_world := w\<rparr>, map_option (\<lambda>e. CauseError (StoreCause e)) e)"
    using assms(2) io s by (simp add: persist_def Let_def r1_def)
  then have e: "e = None" "r' = r1\<lparr>r_Store := Some d', r_world := w\<rparr>" using assms(1) by auto
  have "cp_CreatedAt (snapshot svc r1) \<noteq> []" using assms(4) by (simp add: snapshot_def r1_def now_def)
  from Save_Load[OF assms(3) this] s e(1) have "Load d' (cp_ID (snapshot svc r1)) = Inr (snapshot svc r1)" by simp
  moreover have "dir_ok d'" using s assms(3)
    by (auto simp: Save_def Let_def intro: dir_put_ok split: if_splits sum.splits write_io.splits)
  ultimately show ?thesis using e(2)
    by (intro exI[of _ d'] exI[of _ "snapshot svc r1"]) (simp add: snapshot_def r1_def)
qed

lemma restored_count_jint [simp]: "map_of b k = Some (jint i) \<Longrightarrow> restored_count b k old = i"
  by (simp add: restored_count_def jobj_get_def jget_def jint_def)

text \<open>The restored counters are those of the run, once it has reported any usage.\<close>

lemma Restore_usage:
  assumes "usage_ok r" "st_Budget (r_State r) \<noteq> None" "cp_State cp = r_State r"
  shows "r_PromptTokens (RestoreFrom cp r0) = r_PromptTokens r \<and> r_CompletionTokens (RestoreFrom cp r0) = r_CompletionTokens r
     \<and> r_CacheReadTokens (RestoreFrom cp r0) = r_CacheReadTokens r \<and> r_CacheWriteTokens (RestoreFrom cp r0) = r_CacheWriteTokens r
     \<and> r_TotalTokens (RestoreFrom cp r0) = r_TotalTokens r \<and> r_TotalCostUSD (RestoreFrom cp r0) = r_TotalCostUSD r"
proof -
  have b: "st_Budget (r_State r) = Some (usage_map r)" using assms(1,2) by (auto simp: usage_ok_def)
  show ?thesis
    by (simp add: RestoreFrom_def Let_def assms(3) b usage_map_def jobj_get_def jget_def)
qed

lemma Restore_fields [simp]:
  "r_State (RestoreFrom cp r0) = cp_State cp" "r_Messages (RestoreFrom cp r0) = cp_Messages cp"
  "r_ToolQ (RestoreFrom cp r0) = cp_ToolQ cp" "r_Obs (RestoreFrom cp r0) = cp_Obs cp"
  "r_AfterSideEffects (RestoreFrom cp r0) = cp_AfterSideEffects cp"
  "r_TurnsDone (RestoreFrom cp r0) = (if 0 < cp_TurnsDone cp then cp_TurnsDone cp else r_TurnsDone r0)"
  by (auto simp: RestoreFrom_def Let_def split: option.splits)

end
