(* ===== verification/RunnerReach.thy ===== *)
theory RunnerReach
  imports RunnerSafety RunnerResume
begin

text \<open>
  The runner as its drivers use it: the states reachable by any interleaving of \<open>Step\<close>,
  \<open>Pause\<close>, \<open>Inject\<close>, \<open>ResolvePermission\<close> and of changes of the world the runner does not
  cause; how a run ends; and what an answered permission request does to the next step.
\<close>

section \<open>Reachable states\<close>

inductive reaches :: "'w Services \<Rightarrow> 'w Runner \<Rightarrow> 'w Runner \<Rightarrow> bool" for svc r where
  reaches_start: "reaches svc r r"
| reaches_Step: "reaches svc r q \<Longrightarrow> reaches svc r (fst (Step svc q))"
| reaches_Pause: "reaches svc r q \<Longrightarrow> reaches svc r (fst (Pause svc reason q))"
| reaches_Inject: "reaches svc r q \<Longrightarrow> reaches svc r (fst (Inject svc m q))"
| reaches_Resolve: "reaches svc r q \<Longrightarrow> reaches svc r (fst (ResolvePermission svc i f allow actor reason q))"
| reaches_world: "reaches svc r q \<Longrightarrow> reaches svc r (q\<lparr>r_world := w\<rparr>)"

context step_invariant
begin

lemma inv_reaches: "reaches svc r q \<Longrightarrow> I r \<Longrightarrow> I q"
  by (induction rule: reaches.induct) (auto intro: inv_Step inv_Pause inv_Inject inv_Resolve inv_world)

end

lemma reaches_trans: "reaches svc q p \<Longrightarrow> reaches svc r q \<Longrightarrow> reaches svc r p"
  by (induction rule: reaches.induct) (auto intro: reaches.intros)

lemma reaches_loop: "reaches svc r (fst (run_loop n svc r))"
proof (induction n arbitrary: r)
  case (Suc n)
  obtain q e where s: "Step svc r = (q, e)" by fastforce
  have "reaches svc r q" using reaches_Step[OF reaches_start, of svc r] s by simp
  moreover from this have "reaches svc r (fst (run_loop n svc q))" by (rule reaches_trans[OF Suc.IH])
  ultimately show ?case using reaches_Pause[OF reaches_start, of svc r] s
    by (auto intro: reaches_start split: option.splits)
qed (simp add: reaches_start)

text \<open>A run that starts with at least as many steps as are left ends by itself.\<close>

lemma Pause_halts: "\<not> halted r \<Longrightarrow> halted (fst (Pause svc s r))"
  by (auto simp: Pause_def Let_def halted_def)

lemma run_loop_ends:
  "steps_left r < n \<Longrightarrow> run_loop n svc r = (r', err) \<Longrightarrow>
     halted r' \<or> (\<exists>q e. reaches svc r q \<and> Step svc q = (r', Some e) \<and> err = Some e)"
proof (induction n arbitrary: r)
  case (Suc n)
  obtain q e where s: "Step svc r = (q, e)" by fastforce
  show ?case
  proof (cases "halted r \<or> sv_CtxErr svc (r_world r) \<noteq> None")
    case True
    then show ?thesis using Suc.prems Pause_halts[of r svc]
      by (auto split: if_splits)
  next
    case False
    show ?thesis
    proof (cases e)
      case None
      have q: "reaches svc r q" using reaches_Step[OF reaches_start, of svc r] s by simp
      from Step_left[OF s[unfolded None]] False have "halted q \<or> steps_left q < n" using Suc.prems(1) by auto
      moreover have "run_loop n svc q = (r', err)" using Suc.prems False s None by simp
      moreover have "halted q \<Longrightarrow> run_loop n svc q = (r', err) \<Longrightarrow> halted r'"
        by (cases n) auto
      ultimately show ?thesis using Suc.IH[of q] reaches_trans[OF _ q] by blast
    next
      case (Some x)
      then show ?thesis using Suc.prems False s by (auto simp: halted_def split: if_splits intro: reaches_start)
    qed
  qed
qed simp

lemma steps_left_bound: "0 \<le> r_TurnsDone r \<Longrightarrow> r_MaxTurns r \<le> 142 \<Longrightarrow> steps_left r < 1000"
proof -
  assume "0 \<le> r_TurnsDone r" "r_MaxTurns r \<le> 142"
  then have "nat (r_MaxTurns r - 1 - r_TurnsDone r) \<le> 141" by simp
  moreover have "phase_rank (phase_of r) \<le> 10" by (cases "phase_of r") auto
  ultimately show ?thesis by (simp add: steps_left_def)
qed

section \<open>After an answer\<close>

lemma call_fingerprint_state: "call_fingerprint svc st' tc = call_fingerprint svc st tc"
  by (simp add: call_fingerprint_def Fingerprint_def fingerprint_text_def permissionRequestFor_def)

lemma denied_fails:
  assumes "r_Perms r = Some e" "Resolution e (''perm-'' @ tc_ID tc) (call_fingerprint svc (r_State r) tc) = Some res"
    "pr_Fingerprint res = call_fingerprint svc (r_State r) tc" "pr_Decision res = PermissionDeny"
  shows "phase_of (fst (perm_loop svc (tc # tcs) r)) = PhaseFailed"
proof -
  have "en_resolutions e (''perm-'' @ tc_ID tc) = Some res"
    using assms(2) by (auto simp: Resolution_def split: option.splits if_splits)
  then have "Evaluate (sv_hash svc) (now svc r) e (permissionRequestFor (sv_num svc) (r_State r) tc) (kind_of svc tc) ''policy'' = (e, res)"
    using assms(3) by (simp add: Evaluate_def Let_def call_fingerprint_def)
  then show ?thesis using assms(1,4) by (simp add: fail_with_def)
qed

lemma answer_decides:
  assumes "ResolvePermission svc (''perm-'' @ tc_ID tc) f allow actor reason r = (r', None)"
    and "find (\<lambda>c. tc_ID c = tc_ID tc) (st_PendingTools (r_State r)) = Some tc"
  shows "if allow then perm_loop svc (tc # tcs) r' = perm_loop svc tcs r'
         else phase_of (fst (perm_loop svc (tc # tcs) r')) = PhaseFailed"
proof -
  obtain e res where a: "f = pendingFingerprint svc r (''perm-'' @ tc_ID tc)" "r_Perms r' = Some e"
    "Resolution e (''perm-'' @ tc_ID tc) f = Some res" "pr_Fingerprint res = f"
    "pr_Decision res = (if allow then PermissionAllow else PermissionDeny)"
    using Resolve_accepted[OF assms(1)] by blast
  have "f = call_fingerprint svc (r_State r') tc"
    using a(1) assms(2) call_fingerprint_state[of svc "r_State r" tc "r_State r'"]
    by (simp add: pendingFingerprint_def)
  with a approved_passes[of r' e tc svc res tcs] denied_fails[of r' e tc svc res tcs] show ?thesis by simp
qed

end
