(* ===== verification/RunBudget.thy ===== *)
theory RunBudget
  imports AgentTypes GoFloat
begin

text \<open>
  \<open>internal/budget\<close> (the envelope and the hierarchical manager) and the budget tracker of
  \<open>internal/harness/runlayer/runlayer.go\<close>. Amounts are \<open>float64\<close> values, added with
  rounding. A Go map with missing keys read as zero is a partial function with \<open>getf\<close>; the
  maps the code ranges over are entry lists in the order of the iteration.
\<close>

definition getf :: "(string \<rightharpoonup> rat) \<Rightarrow> string \<Rightarrow> rat" where
  "getf m k = (case m k of None \<Rightarrow> 0 | Some x \<Rightarrow> x)"

lemma getf_upd [simp]: "getf (m(k \<mapsto> v)) i = (if i = k then v else getf m i)"
  by (simp add: getf_def)

lemma getf_empty [simp]: "getf Map.empty k = 0"
  by (simp add: getf_def)

section \<open>The envelope\<close>

record Reservation =
  rv_ID :: string
  rv_Scope :: string
  rv_Amount :: "(string, rat) gomap"
  rv_Released :: bool

record Envelope =
  bv_Version :: int
  bv_Scope :: string
  bv_Limits :: "(string, rat) gomap"
  bv_Usage :: "string \<rightharpoonup> rat"
  bv_Reservations :: "Reservation list"
  bv_Mode :: string

definition envelope_new :: "string \<Rightarrow> (string, rat) gomap \<Rightarrow> Envelope" where
  "envelope_new scope limits = \<lparr>bv_Version = 1, bv_Scope = scope, bv_Limits = limits,
     bv_Usage = Map.empty, bv_Reservations = [], bv_Mode = ''soft''\<rparr>"

definition bv_limit :: "Envelope \<Rightarrow> string \<Rightarrow> rat" where
  "bv_limit e k = getf (map_of (bv_Limits e)) k"

definition over_limit :: "Envelope \<Rightarrow> string \<Rightarrow> rat \<Rightarrow> bool" where
  "over_limit e k v \<longleftrightarrow> 0 < bv_limit e k \<and> bv_limit e k < fadd (getf (bv_Usage e) k) v"

definition envelope_Reserve :: "Envelope \<Rightarrow> string \<Rightarrow> string \<Rightarrow> (string, rat) gomap
    \<Rightarrow> Envelope \<times> string option" where
  "envelope_Reserve e i scope amount =
     (case find (\<lambda>(k, v). over_limit e k v) amount of
        Some (k, v) \<Rightarrow> (e, Some (''budget limit exceeded for '' @ k))
      | None \<Rightarrow> (e\<lparr>bv_Reservations := bv_Reservations e @
          [\<lparr>rv_ID = i, rv_Scope = scope, rv_Amount = amount, rv_Released = False\<rparr>]\<rparr>, None))"

text \<open>
  \<open>Consume\<close> has a value receiver, but its usage map is shared with the caller's envelope:
  the entries added before a refusal stay added. The result is the envelope the caller
  then sees.
\<close>

fun Consume :: "Envelope \<Rightarrow> (string, rat) gomap \<Rightarrow> Envelope \<times> string option" where
  "Consume e [] = (e, None)"
| "Consume e ((k, v) # amount) =
     (if over_limit e k v \<and> bv_Mode e = ''hard'' then (e, Some (''hard budget exhausted for '' @ k))
      else Consume (e\<lparr>bv_Usage := (bv_Usage e)(k \<mapsto> fadd (getf (bv_Usage e) k) v)\<rparr>) amount)"

definition Remaining :: "Envelope \<Rightarrow> string \<Rightarrow> rat" where
  "Remaining e k = fsub (bv_limit e k) (getf (bv_Usage e) k)"

lemma Consume_frame [simp]:
  "bv_Limits (fst (Consume e am)) = bv_Limits e" "bv_Mode (fst (Consume e am)) = bv_Mode e"
  "bv_limit (fst (Consume e am)) k = bv_limit e k"
  by (induction e am rule: Consume.induct) (simp_all add: bv_limit_def)

lemma Consume_untouched: "k \<notin> fst ` set am \<Longrightarrow> getf (bv_Usage (fst (Consume e am))) k = getf (bv_Usage e) k"
  by (induction e am rule: Consume.induct) auto

text \<open>A hard envelope never passes a limit, whether the consumption is accepted or not.\<close>

definition within_limits :: "Envelope \<Rightarrow> bool" where
  "within_limits e \<longleftrightarrow> (\<forall>k. 0 < bv_limit e k \<longrightarrow> getf (bv_Usage e) k \<le> bv_limit e k)"

lemma Consume_within:
  "within_limits e \<Longrightarrow> bv_Mode e = ''hard'' \<Longrightarrow> within_limits (fst (Consume e am))"
proof (induction e am rule: Consume.induct)
  case (2 e k v am)
  show ?case
  proof (cases "over_limit e k v")
    case False
    then have "within_limits (e\<lparr>bv_Usage := (bv_Usage e)(k \<mapsto> fadd (getf (bv_Usage e) k) v)\<rparr>)"
      using 2(2) by (auto simp: within_limits_def over_limit_def bv_limit_def)
    with 2 False show ?thesis by simp
  qed (use 2 in simp)
qed simp

section \<open>The run's tracker\<close>

record Tracker =
  tk_envelope :: Envelope
  tk_reserved :: "string \<rightharpoonup> rat"

definition NewTracker :: "rat \<Rightarrow> rat \<Rightarrow> rat \<Rightarrow> Tracker" where
  "NewTracker tokens usd tools =
     \<lparr>tk_envelope = \<lparr>bv_Version = 1, bv_Scope = ''run'',
        bv_Limits = [(''tokens'', tokens), (''cost_usd'', usd), (''tool_calls'', tools)],
        bv_Usage = Map.empty, bv_Reservations = [], bv_Mode = ''hard''\<rparr>,
      tk_reserved = Map.empty\<rparr>"

datatype budget_error = HardBudgetExhausted string rat rat | BudgetUnreadable string | EnvelopeError string

definition committed :: "Tracker \<Rightarrow> string \<Rightarrow> rat" where
  "committed t k = fadd (getf (bv_Usage (tk_envelope t)) k) (getf (tk_reserved t) k)"

definition checkHeadroom :: "Tracker \<Rightarrow> (string \<rightharpoonup> rat) \<Rightarrow> budget_error option" where
  "checkHeadroom t extra =
     (case find (\<lambda>(k, limit). 0 < limit \<and> limit < fadd (committed t k) (getf extra k)) (bv_Limits (tk_envelope t)) of
        None \<Rightarrow> None
      | Some (k, limit) \<Rightarrow> Some (HardBudgetExhausted k (fadd (committed t k) (getf extra k)) limit))"

definition Exhausted :: "Tracker \<Rightarrow> budget_error option" where
  "Exhausted t =
     (case find (\<lambda>(k, limit). 0 < limit \<and> limit \<le> committed t k) (bv_Limits (tk_envelope t)) of
        None \<Rightarrow> None
      | Some (k, limit) \<Rightarrow> Some (HardBudgetExhausted k (committed t k) limit))"

text \<open>
  \<open>Reserve\<close> hands out a closure over its allowance and its own \<open>released\<close> flag. The
  closure is the record \<open>Hold\<close> and calling it is \<open>release_hold\<close>.
\<close>

record Hold =
  hd_tokens :: rat
  hd_released :: bool

definition Reserve :: "Tracker \<Rightarrow> rat \<Rightarrow> (budget_error, Tracker \<times> Hold) outcome" where
  "Reserve t tokens =
     (case checkHeadroom t [''tokens'' \<mapsto> tokens] of
        Some e \<Rightarrow> Inl e
      | None \<Rightarrow> Inr (t\<lparr>tk_reserved := (tk_reserved t)(''tokens'' \<mapsto> fadd (getf (tk_reserved t) ''tokens'') tokens)\<rparr>,
                     \<lparr>hd_tokens = tokens, hd_released = False\<rparr>))"

definition add_usage :: "string \<Rightarrow> rat \<Rightarrow> Tracker \<Rightarrow> Tracker" where
  "add_usage k v t = t\<lparr>tk_envelope := (tk_envelope t)\<lparr>bv_Usage :=
     (bv_Usage (tk_envelope t))(k \<mapsto> fadd (getf (bv_Usage (tk_envelope t)) k) v)\<rparr>\<rparr>"

definition release_hold :: "Tracker \<Rightarrow> Hold \<Rightarrow> rat \<Rightarrow> rat \<Rightarrow> Tracker \<times> Hold" where
  "release_hold t h actualTokens actualCost =
     (if hd_released h then (t, h)
      else let t = t\<lparr>tk_reserved := (tk_reserved t)(''tokens'' \<mapsto>
                 fsub (getf (tk_reserved t) ''tokens'') (hd_tokens h))\<rparr>;
               t = (if 0 < actualTokens then add_usage ''tokens'' actualTokens t else t);
               t = (if 0 < actualCost then add_usage ''cost_usd'' actualCost t else t)
           in (t, h\<lparr>hd_released := True\<rparr>))"

definition lift_consume :: "Tracker \<Rightarrow> (string, rat) gomap \<Rightarrow> Tracker \<times> budget_error option" where
  "lift_consume t amount = (case Consume (tk_envelope t) amount of
     (e, r) \<Rightarrow> (t\<lparr>tk_envelope := e\<rparr>, map_option EnvelopeError r))"

text \<open>\<open>swap\<close> is the order in which Go ranges over the two-entry amount.\<close>

definition ConsumeUsage :: "bool \<Rightarrow> Tracker \<Rightarrow> Usage \<Rightarrow> Tracker \<times> budget_error option" where
  "ConsumeUsage swap t u =
     (let amount = [(''tokens'', f64 (of_int (TotalTokens u))), (''cost_usd'', us_CostUSD u)]
      in lift_consume t (if swap then rev amount else amount))"

definition ConsumeTools :: "Tracker \<Rightarrow> int \<Rightarrow> Tracker \<times> budget_error option" where
  "ConsumeTools t n = lift_consume t [(''tool_calls'', f64 (of_int n))]"

text \<open>The persisted envelope: absent, unreadable, or what was saved.\<close>

datatype envelope_file = EnvelopeAbsent | EnvelopeUnreadable | EnvelopeSaved Envelope

definition tracker_Save :: "Tracker \<Rightarrow> envelope_file" where
  "tracker_Save t = EnvelopeSaved (tk_envelope t)"

fun tracker_Load :: "string \<Rightarrow> envelope_file \<Rightarrow> Tracker \<Rightarrow> Tracker \<times> budget_error option" where
  "tracker_Load path EnvelopeAbsent t = (t, None)"
| "tracker_Load path EnvelopeUnreadable t = (t, Some (BudgetUnreadable path))"
| "tracker_Load path (EnvelopeSaved e) t = (\<lparr>tk_envelope = e, tk_reserved = Map.empty\<rparr>, None)"

lemma checkHeadroom_None:
  "checkHeadroom t extra = None \<longleftrightarrow>
     (\<forall>(k, limit)\<in>set (bv_Limits (tk_envelope t)). 0 < limit \<longrightarrow> fadd (committed t k) (getf extra k) \<le> limit)"
  unfolding checkHeadroom_def
  by (auto simp: find_None_iff not_less split: option.split dest!: find_mem) (force dest: leD)+

lemma Exhausted_None:
  "Exhausted t = None \<longleftrightarrow>
     (\<forall>(k, limit)\<in>set (bv_Limits (tk_envelope t)). 0 < limit \<longrightarrow> committed t k < limit)"
  unfolding Exhausted_def
  by (auto simp: find_None_iff not_le split: option.split dest!: find_mem) (force dest: leD)+

section \<open>Reservations make the limit a limit\<close>

text \<open>
  Any interleaving of reservations and settlements, several of them open at a time. A call
  may use more than it reserved: the code records the actual amount all the same. The third
  component adds up what the settled calls used beyond their reservations.
\<close>

inductive token_steps :: "Tracker \<times> Hold list \<times> rat \<Rightarrow> Tracker \<times> Hold list \<times> rat \<Rightarrow> bool" where
  token_refl: "token_steps s s"
| token_reserve: "token_steps s (t, hs, over) \<Longrightarrow> quarters n \<Longrightarrow> 0 \<le> n \<Longrightarrow> n < 2 ^ 50 \<Longrightarrow>
     Reserve t n = Inr (t', h) \<Longrightarrow> token_steps s (t', h # hs, over)"
| token_settle: "token_steps s (t, hs, over) \<Longrightarrow> h \<in> set hs \<Longrightarrow> quarters a \<Longrightarrow>
     release_hold t h a c = (t', h') \<Longrightarrow>
     token_steps s (t', remove1 h hs, over + max 0 (a - hd_tokens h))"

definition used :: "Tracker \<Rightarrow> rat" where
  "used t = getf (bv_Usage (tk_envelope t)) ''tokens''"

definition held :: "Tracker \<Rightarrow> rat" where
  "held t = getf (tk_reserved t) ''tokens''"

definition holds_ok :: "rat \<Rightarrow> Tracker \<times> Hold list \<times> rat \<Rightarrow> bool" where
  "holds_ok L s \<longleftrightarrow> (case s of (t, hs, over) \<Rightarrow>
     (''tokens'', L) \<in> set (bv_Limits (tk_envelope t)) \<and>
     quarters (used t) \<and> 0 \<le> used t \<and> held t = sum_list (map hd_tokens hs) \<and>
     (\<forall>h\<in>set hs. \<not> hd_released h \<and> quarters (hd_tokens h) \<and> 0 \<le> hd_tokens h) \<and>
     0 \<le> over \<and> used t + held t \<le> L + over)"

lemma quarters_sum: "(\<forall>x\<in>set xs. quarters x) \<Longrightarrow> quarters (sum_list xs)"
  by (induction xs) auto

lemma holds_sum:
  assumes "holds_ok L (t, hs, over)"
  shows "quarters (held t)" "0 \<le> held t"
proof -
  have "quarters (sum_list (map hd_tokens hs))" "0 \<le> sum_list (map hd_tokens hs)"
    using assms by (auto simp: holds_ok_def intro!: quarters_sum sum_list_nonneg)
  then show "quarters (held t)" "0 \<le> held t" using assms by (simp_all add: holds_ok_def)
qed

lemma holds_ok_Reserve:
  assumes ok: "holds_ok L (t, hs, over)" and L: "0 < L" "L + over < 2 ^ 50"
    and n: "quarters n" "0 \<le> n" "n < 2 ^ 50" and r: "Reserve t n = Inr (t', h)"
  shows "holds_ok L (t', h # hs, over)"
proof -
  note hs = holds_sum[OF ok]
  have q: "quarters (used t)" "0 \<le> used t" "used t + held t \<le> L + over" "(''tokens'', L) \<in> set (bv_Limits (tk_envelope t))"
    "0 \<le> over"
    using ok by (auto simp: holds_ok_def)
  have c: "committed t ''tokens'' = used t + held t"
    unfolding committed_def fadd_def used_def[symmetric] held_def[symmetric]
    using q hs L by (intro f64_quarters) auto
  have "fadd (committed t ''tokens'') n = used t + held t + n"
    unfolding c fadd_def using q hs n L by (intro f64_quarters) auto
  moreover have "checkHeadroom t [''tokens'' \<mapsto> n] = None"
    using r by (auto simp: Reserve_def split: option.splits)
  ultimately have le: "used t + held t + n \<le> L"
    using q(4) L(1) by (auto simp: checkHeadroom_None)
  have "fadd (held t) n = held t + n"
    unfolding fadd_def using q hs n L le by (intro f64_quarters) auto
  then show ?thesis using r ok le n
    by (auto simp: Reserve_def holds_ok_def used_def held_def split: option.splits)
qed

lemma release_hold_fields:
  assumes "\<not> hd_released h" "release_hold t h a c = (t', h')"
  shows "held t' = fsub (held t) (hd_tokens h)" "used t' = (if 0 < a then fadd (used t) a else used t)"
    "bv_Limits (tk_envelope t') = bv_Limits (tk_envelope t)" "hd_released h'"
  using assms by (auto simp: release_hold_def add_usage_def Let_def held_def used_def)

lemma holds_ok_release:
  assumes ok: "holds_ok L (t, hs, over)" and L: "0 < L" "L + (over + max 0 (a - hd_tokens h)) < 2 ^ 50"
    and h: "h \<in> set hs" and a: "quarters a" and r: "release_hold t h a c = (t', h')"
  shows "holds_ok L (t', remove1 h hs, over + max 0 (a - hd_tokens h))"
proof -
  note hs = holds_sum[OF ok]
  have q: "quarters (used t)" "0 \<le> used t" "used t + held t \<le> L + over" "0 \<le> over"
    "quarters (hd_tokens h)" "0 \<le> hd_tokens h" "\<not> hd_released h"
    using ok h by (auto simp: holds_ok_def)
  have sum: "sum_list (map hd_tokens hs) = hd_tokens h + sum_list (map hd_tokens (remove1 h hs))"
    using h by (simp add: sum_list_map_remove1)
  have rest: "0 \<le> sum_list (map hd_tokens (remove1 h hs))"
    using ok by (auto simp: holds_ok_def intro!: sum_list_nonneg dest: notin_set_remove1[THEN contrapos_nn])
      (meson notin_set_remove1)
  have he: "held t = sum_list (map hd_tokens hs)" using ok by (simp add: holds_ok_def)
  note f = release_hold_fields[OF q(7) r]
  have h': "held t' = held t - hd_tokens h"
    unfolding f(1) fsub_def using q hs L rest sum he
    by (intro f64_quarters quarters_diff[OF hs(1) q(5)]) auto
  have u': "used t' = (if 0 < a then used t + a else used t)"
  proof (cases "0 < a")
    case True
    have "fadd (used t) a = used t + a"
      unfolding fadd_def using q a hs L True sum he rest by (intro f64_quarters) auto
    then show ?thesis using f(2) True by simp
  qed (use f(2) in simp)
  show ?thesis
    using ok h' u' q a sum he f(3) rest
    by (auto simp: holds_ok_def dest: notin_set_remove1[THEN contrapos_nn])
qed

lemma token_steps_ok:
  "token_steps s s' \<Longrightarrow> holds_ok L s \<Longrightarrow> 0 < L \<Longrightarrow> L + snd (snd s') < 2 ^ 50 \<Longrightarrow> holds_ok L s'"
proof (induction rule: token_steps.induct)
  case (token_reserve s t hs over n t' h)
  then have "holds_ok L (t, hs, over)" by simp
  from holds_ok_Reserve[OF this] token_reserve show ?case by simp
next
  case (token_settle s t hs over h a c t' h')
  then have "L + over < 2 ^ 50" by simp
  with token_settle have "holds_ok L (t, hs, over)" by simp
  from holds_ok_release[OF this] token_settle show ?case by simp
qed simp

lemma holds_ok_new: "0 \<le> L \<Longrightarrow> holds_ok L (NewTracker L usd tools, [], 0)"
  by (simp add: holds_ok_def NewTracker_def used_def held_def)

section \<open>The hierarchical manager\<close>

record PricingRates =
  pg_InputTokenCentsPer1k :: rat
  pg_OutputTokenCentsPer1k :: rat
  pg_ToolCallCents :: rat
  pg_Currency :: string

definition DefaultPricingRates :: PricingRates where
  "DefaultPricingRates = \<lparr>pg_InputTokenCentsPer1k = f64 (3/10), pg_OutputTokenCentsPer1k = f64 (12/10),
     pg_ToolCallCents = f64 (5/100), pg_Currency = ''BRL''\<rparr>"

record HierarchicalEnvelope =
  he_Scope :: string
  he_ParentScope :: string
  he_HardLimitCents :: int
  he_SoftLimitCents :: int
  he_ReviewReserveCents :: int
  he_ObservedCostCents :: rat
  he_MetricsUsage :: "string \<rightharpoonup> rat"
  he_Currency :: string
  he_IsBlocked :: bool

record Manager =
  mg_envelopes :: "string \<rightharpoonup> HierarchicalEnvelope"
  mg_pricing :: PricingRates

definition NewManager :: "PricingRates \<Rightarrow> Manager" where
  "NewManager pricing = \<lparr>mg_envelopes = Map.empty,
     mg_pricing = (if pg_Currency pricing = [] then DefaultPricingRates else pricing)\<rparr>"

definition SetEnvelope :: "Manager \<Rightarrow> string \<Rightarrow> string \<Rightarrow> string \<Rightarrow> int \<Rightarrow> int \<Rightarrow> int \<Rightarrow> Manager" where
  "SetEnvelope m scopeID scopeType parentScope hard soft review =
     m\<lparr>mg_envelopes := (mg_envelopes m)(scopeID \<mapsto>
       \<lparr>he_Scope = scopeType, he_ParentScope = parentScope, he_HardLimitCents = hard,
        he_SoftLimitCents = soft, he_ReviewReserveCents = review, he_ObservedCostCents = 0,
        he_MetricsUsage = Map.empty, he_Currency = pg_Currency (mg_pricing m), he_IsBlocked = False\<rparr>)\<rparr>"

datatype manager_error = EnvelopeNotFound string | ErrReviewReserveProtected | ErrBlockedBudget string rat int
  | CheckpointFault string

definition consumption_cost :: "PricingRates \<Rightarrow> int \<Rightarrow> int \<Rightarrow> int \<Rightarrow> rat" where
  "consumption_cost p i out tools =
     fadd (fadd (fmul (fdiv (f64 (of_int i)) 1000) (pg_InputTokenCentsPer1k p))
                (fmul (fdiv (f64 (of_int out)) 1000) (pg_OutputTokenCentsPer1k p)))
          (fmul (f64 (of_int tools)) (pg_ToolCallCents p))"

definition bump :: "string \<Rightarrow> rat \<Rightarrow> (string \<rightharpoonup> rat) \<Rightarrow> (string \<rightharpoonup> rat)" where
  "bump k v m = m(k \<mapsto> fadd (getf m k) v)"

definition RecordConsumption :: "Manager \<Rightarrow> string \<Rightarrow> bool \<Rightarrow> int \<Rightarrow> int \<Rightarrow> int
    \<Rightarrow> Manager \<times> rat \<times> manager_error option" where
  "RecordConsumption m scopeID isReviewPhase inputTokens outputTokens toolCalls =
     (case mg_envelopes m scopeID of
        None \<Rightarrow> (m, 0, Some (EnvelopeNotFound scopeID))
      | Some env \<Rightarrow>
          let cost = consumption_cost (mg_pricing m) inputTokens outputTokens toolCalls;
              newCost = fadd (he_ObservedCostCents env) cost;
              put = (\<lambda>env. m\<lparr>mg_envelopes := (mg_envelopes m)(scopeID \<mapsto> env)\<rparr>);
              effectiveLimit = f64 (of_int (he_HardLimitCents env - he_ReviewReserveCents env))
          in if \<not> isReviewPhase \<and> 0 < he_ReviewReserveCents env \<and> 0 < effectiveLimit \<and> effectiveLimit < newCost
             then (put (env\<lparr>he_IsBlocked := True\<rparr>), cost, Some ErrReviewReserveProtected)
             else if 0 < he_HardLimitCents env \<and> f64 (of_int (he_HardLimitCents env)) < newCost
             then (put (env\<lparr>he_IsBlocked := True\<rparr>), cost,
                   Some (ErrBlockedBudget (he_Scope env) newCost (he_HardLimitCents env)))
             else (put (env\<lparr>he_ObservedCostCents := newCost,
                     he_MetricsUsage := bump ''tool_calls'' (f64 (of_int toolCalls))
                       (bump ''output_tokens'' (f64 (of_int outputTokens))
                       (bump ''input_tokens'' (f64 (of_int inputTokens)) (he_MetricsUsage env)))\<rparr>), cost, None))"

record BudgetCheckpoint =
  bc_CheckpointID :: string
  bc_RunID :: string
  bc_TaskID :: string
  bc_Scope :: string
  bc_ExhaustedLimit :: int
  bc_CurrentCost :: rat
  bc_Timestamp :: string
  bc_Status :: string

text \<open>
  \<open>nanos\<close> and \<open>stamp\<close> are the two readings of the clock, \<open>fault\<close> the error of creating the
  directory or of writing the file. The first result is the file written: its directory, name
  and content.
\<close>

definition CreateBlockedCheckpoint :: "int \<Rightarrow> string \<Rightarrow> string option \<Rightarrow> Manager \<Rightarrow> string \<Rightarrow> string \<Rightarrow> string \<Rightarrow> string
    \<Rightarrow> (string \<times> string \<times> BudgetCheckpoint) option \<times> (manager_error, BudgetCheckpoint) outcome" where
  "CreateBlockedCheckpoint nanos stamp fault m checkpointDir runID taskID scopeID =
     (case mg_envelopes m scopeID of
        None \<Rightarrow> (None, Inl (EnvelopeNotFound scopeID))
      | Some env \<Rightarrow>
          let chk = \<lparr>bc_CheckpointID = ''chk-budget-'' @ itoa nanos, bc_RunID = runID, bc_TaskID = taskID,
                bc_Scope = he_Scope env, bc_ExhaustedLimit = he_HardLimitCents env,
                bc_CurrentCost = he_ObservedCostCents env, bc_Timestamp = stamp, bc_Status = ''blocked_budget''\<rparr>
          in if checkpointDir = [] then (None, Inr chk)
             else case fault of
               Some e \<Rightarrow> (None, Inl (CheckpointFault e))
             | None \<Rightarrow> (Some (checkpointDir, bc_CheckpointID chk @ ''.json'', chk), Inr chk))"

definition manager_ok :: "Manager \<Rightarrow> bool" where
  "manager_ok m \<longleftrightarrow> (\<forall>i env. mg_envelopes m i = Some env \<longrightarrow> 0 < he_HardLimitCents env \<longrightarrow>
     he_ObservedCostCents env \<le> f64 (of_int (he_HardLimitCents env)))"

lemma manager_ok_New [inv_intros]: "manager_ok (NewManager p)"
  by (simp add: manager_ok_def NewManager_def)

lemma manager_ok_Set [inv_intros]: "manager_ok m \<Longrightarrow> manager_ok (SetEnvelope m i ty pa h so rv)"
  by (auto simp: manager_ok_def SetEnvelope_def intro: f64_nonneg)

lemma manager_ok_Record [inv_intros]: "manager_ok m \<Longrightarrow> manager_ok (fst (RecordConsumption m i rv a b c))"
  by (auto simp: manager_ok_def RecordConsumption_def Let_def not_less split: option.splits if_splits)

lemma RecordConsumption_reserve:
  "RecordConsumption m i False a b c = (m', cost, None) \<Longrightarrow> mg_envelopes m i = Some env \<Longrightarrow>
   0 < he_ReviewReserveCents env \<Longrightarrow> he_ReviewReserveCents env < he_HardLimitCents env \<Longrightarrow>
   he_HardLimitCents env < 2 ^ 53 \<Longrightarrow>
   \<exists>env'. mg_envelopes m' i = Some env' \<and>
     he_ObservedCostCents env' \<le> of_int (he_HardLimitCents env - he_ReviewReserveCents env)"
  using f64_int[of "he_HardLimitCents env - he_ReviewReserveCents env"]
  by (auto simp: RecordConsumption_def Let_def not_less split: if_splits)

end
