(* ===== verification/RunLayer.thy ===== *)
theory RunLayer
  imports RunBudget RunnerState
begin

text \<open>
  \<open>internal/harness/runlayer\<close>: the executor that counts tool calls against the budget, the
  completion gates (\<open>StrictGate\<close>, the declarative policies of \<open>gates.go\<close>), the status of a
  finished run, and the permission trail a resumed run reads back.
\<close>

section \<open>Counting tools\<close>

record ToolReport =
  tp_Name :: string
  tp_ExitCode :: int

text \<open>
  \<open>CountingTools\<close> decorates an executor over the world \<open>'v\<close>; its own state is the tracker,
  when there is one, and the reports. \<open>btext\<close> words a budget error.
\<close>

record 'v Counted =
  ct_base :: 'v
  ct_tracker :: "Tracker option"
  ct_reports :: "ToolReport list"

definition failed_result :: "ToolCall \<Rightarrow> string \<Rightarrow> ToolResult" where
  "failed_result call e = \<lparr>tr_ToolCallID = tc_ID call, tr_ExitCode = 1, tr_Output = [], tr_Truncated = False,
     tr_ArtifactID = [], tr_Error = e\<rparr>"

definition counting_Execute :: "(budget_error \<Rightarrow> string) \<Rightarrow> 'v ToolExecutor \<Rightarrow> 'v Counted \<Rightarrow> ToolCall
    \<Rightarrow> (ToolResult \<times> string option) \<times> 'v Counted" where
  "counting_Execute btext base w call =
     (let (w, stop) = (case ct_tracker w of
            None \<Rightarrow> (w, None)
          | Some t \<Rightarrow> (case ConsumeTools t 1 of (t', e) \<Rightarrow> (w\<lparr>ct_tracker := Some t'\<rparr>, e)))
      in case stop of
           Some e \<Rightarrow> ((failed_result call (btext e), Some (btext e)), w)
         | None \<Rightarrow>
             (case te_Execute base (ct_base w) call of
                ((res, err), v) \<Rightarrow>
                  ((res, err), w\<lparr>ct_base := v, ct_reports := ct_reports w
                     @ [\<lparr>tp_Name = tc_Name call, tp_ExitCode = tr_ExitCode res\<rparr>]\<rparr>)))"

definition CountingTools :: "(budget_error \<Rightarrow> string) \<Rightarrow> 'v ToolExecutor \<Rightarrow> 'v Counted ToolExecutor" where
  "CountingTools btext base =
     \<lparr>te_Execute = counting_Execute btext base, te_KindOf = te_KindOf base, te_OperationOf = te_OperationOf base,
      te_Specs = (\<lambda>w. case te_Specs base (ct_base w) of
         PlainSpecs ss \<Rightarrow> PlainSpecs ss
       | FallibleSpecs (Inr ss) \<Rightarrow> PlainSpecs ss
       | FallibleSpecs (Inl e) \<Rightarrow> PlainSpecs []
       | NoSpecs \<Rightarrow> PlainSpecs [])\<rparr>"

fun execute_all :: "'w ToolExecutor \<Rightarrow> 'w \<Rightarrow> ToolCall list \<Rightarrow> 'w" where
  "execute_all te w [] = w"
| "execute_all te w (c # cs) = execute_all te (snd (te_Execute te w c)) cs"

text \<open>The tracker's tool counter is the number of calls that reached the executor.\<close>

definition tools_counted :: "rat \<Rightarrow> 'v Counted \<Rightarrow> bool" where
  "tools_counted L w \<longleftrightarrow> (\<exists>t. ct_tracker w = Some t \<and> bv_Mode (tk_envelope t) = ''hard'' \<and>
     bv_limit (tk_envelope t) ''tool_calls'' = L \<and>
     getf (bv_Usage (tk_envelope t)) ''tool_calls'' = of_nat (length (ct_reports w)) \<and>
     of_nat (length (ct_reports w)) \<le> L)"

lemma tools_counted_step:
  assumes "tools_counted L w" "0 < L" "L < 2 ^ 52"
  shows "tools_counted L (snd (counting_Execute btext base w call))"
proof -
  obtain t where t: "ct_tracker w = Some t" "bv_Mode (tk_envelope t) = ''hard''" "bv_limit (tk_envelope t) ''tool_calls'' = L"
    "getf (bv_Usage (tk_envelope t)) ''tool_calls'' = of_nat (length (ct_reports w))" "of_nat (length (ct_reports w)) \<le> L"
    using assms(1) by (auto simp: tools_counted_def)
  let ?n = "int (length (ct_reports w)) + 1"
  have "(of_int (int (length (ct_reports w))) :: rat) < of_int (2 ^ 52)" using t(5) assms(3) by simp
  then have "int (length (ct_reports w)) < 2 ^ 52" by (simp only: of_int_less_iff)
  then have f: "fadd (of_nat (length (ct_reports w))) 1 = of_nat (length (ct_reports w)) + 1"
    using f64_int[of ?n] by (simp add: fadd_def)
  have one: "f64 1 = 1" using f64_int[of 1] by simp
  let ?over = "L < of_nat (length (ct_reports w)) + 1"
  have c: "ConsumeTools t 1 = (if ?over then (t, Some (EnvelopeError (''hard budget exhausted for tool_calls'')))
      else (t\<lparr>tk_envelope := (tk_envelope t)\<lparr>bv_Usage := (bv_Usage (tk_envelope t))(''tool_calls'' \<mapsto>
              of_nat (length (ct_reports w)) + 1)\<rparr>\<rparr>, None))"
    using t(2-4) assms(2) f one by (simp add: ConsumeTools_def lift_consume_def over_limit_def)
  obtain res err v where x: "te_Execute base (ct_base w) call = ((res, err), v)" by (metis prod.collapse)
  show ?thesis
  proof (cases ?over)
    case True
    then show ?thesis using t c by (simp add: counting_Execute_def Let_def tools_counted_def)
  next
    case False
    then show ?thesis using t c x
      by (simp add: counting_Execute_def Let_def tools_counted_def bv_limit_def)
  qed
qed

lemma tools_counted_all:
  "tools_counted L w \<Longrightarrow> 0 < L \<Longrightarrow> L < 2 ^ 52 \<Longrightarrow> tools_counted L (execute_all (CountingTools btext base) w cs)"
  by (induction cs arbitrary: w) (simp_all add: CountingTools_def tools_counted_step)

section \<open>Gates\<close>

definition StrictGate :: "ToolReport list \<Rightarrow> string option" where
  "StrictGate reports =
     (if list_ex (\<lambda>r. tp_Name r = ''test.run'' \<and> tp_ExitCode r = 0) reports then None
      else Some ''strict gate: completion requires a passing test.run'')"

record GatePolicy =
  gp_Name :: string
  gp_Kind :: string
  gp_Limit :: rat

record GateResult =
  gr_ID :: string
  gr_Status :: string
  gr_Reason :: string

definition gate_pass :: "string \<Rightarrow> GateResult" where
  "gate_pass name = \<lparr>gr_ID = name, gr_Status = ''pass'', gr_Reason = []\<rparr>"

definition gate_fail :: "string \<Rightarrow> string \<Rightarrow> GateResult" where
  "gate_fail name reason = \<lparr>gr_ID = name, gr_Status = ''fail'', gr_Reason = reason\<rparr>"

text \<open>\<open>%.0f\<close> rounds half to even.\<close>

definition fmt0 :: "rat \<Rightarrow> string" where
  "fmt0 x = itoa (round_even x)"

definition last_failure :: "ToolReport list \<Rightarrow> string" where
  "last_failure reports = fold (\<lambda>r bad. if tp_ExitCode r \<noteq> 0 then tp_Name r else bad) reports []"

definition evaluate_gate :: "ToolReport list \<Rightarrow> (string \<rightharpoonup> rat) \<Rightarrow> GatePolicy \<Rightarrow> GateResult" where
  "evaluate_gate reports usage p =
     (if gp_Name p = [] then gate_fail ''(unnamed)'' ''gate requires a name''
      else if gp_Kind p = ''require-test-pass'' then
        (if list_ex (\<lambda>r. tp_Name r = ''test.run'' \<and> tp_ExitCode r = 0) reports then gate_pass (gp_Name p)
         else gate_fail (gp_Name p) ''no passing test.run observed'')
      else if gp_Kind p = ''forbid-tool-failure'' then
        (let bad = last_failure reports in
         if bad = [] then gate_pass (gp_Name p) else gate_fail (gp_Name p) (''tool failed: '' @ bad))
      else if gp_Kind p = ''max-tool-calls'' then
        (let n = of_nat (length reports) in
         if n \<le> gp_Limit p then gate_pass (gp_Name p)
         else gate_fail (gp_Name p) (fmt0 n @ '' calls over limit '' @ fmt0 (gp_Limit p)))
      else if gp_Kind p = ''max-tokens'' then
        (if getf usage ''tokens'' \<le> gp_Limit p then gate_pass (gp_Name p)
         else gate_fail (gp_Name p) (fmt0 (getf usage ''tokens'') @ '' tokens over limit '' @ fmt0 (gp_Limit p)))
      else gate_fail (gp_Name p) (''unknown gate kind '' @ gp_Kind p))"

definition EvaluateGates :: "GatePolicy list \<Rightarrow> ToolReport list \<Rightarrow> (string \<rightharpoonup> rat) \<Rightarrow> GateResult list" where
  "EvaluateGates policies reports usage = map (evaluate_gate reports usage) policies"

definition GatesQualityGate :: "GatePolicy list \<Rightarrow> ToolReport list \<Rightarrow> (string \<rightharpoonup> rat) \<Rightarrow> string option" where
  "GatesQualityGate policies reports usage =
     (case find (\<lambda>r. gr_Status r \<noteq> ''pass'') (EvaluateGates policies reports usage) of
        None \<Rightarrow> None
      | Some r \<Rightarrow> Some (''gate '' @ gr_ID r @ '': '' @ gr_Reason r))"

lemma last_failure_Nil:
  "(\<forall>r\<in>set reports. tp_Name r \<noteq> []) \<Longrightarrow> last_failure reports = [] \<longleftrightarrow> (\<forall>r\<in>set reports. tp_ExitCode r = 0)"
proof (induction reports rule: rev_induct)
  case (snoc r rs)
  then show ?case by (simp add: last_failure_def)
qed (simp add: last_failure_def)

lemma evaluate_gate_pass:
  assumes "\<forall>r\<in>set reports. tp_Name r \<noteq> []"
  shows "gr_Status (evaluate_gate reports usage p) = ''pass'' \<longleftrightarrow> gp_Name p \<noteq> [] \<and>
     (gp_Kind p = ''require-test-pass'' \<and> (\<exists>r\<in>set reports. tp_Name r = ''test.run'' \<and> tp_ExitCode r = 0) \<or>
      gp_Kind p = ''forbid-tool-failure'' \<and> (\<forall>r\<in>set reports. tp_ExitCode r = 0) \<or>
      gp_Kind p = ''max-tool-calls'' \<and> of_nat (length reports) \<le> gp_Limit p \<or>
      gp_Kind p = ''max-tokens'' \<and> getf usage ''tokens'' \<le> gp_Limit p)"
  using last_failure_Nil[OF assms]
  by (auto simp: evaluate_gate_def gate_pass_def gate_fail_def list_ex_iff Let_def)

lemma GatesQualityGate_None:
  "GatesQualityGate ps reports usage = None \<longleftrightarrow> (\<forall>p\<in>set ps. gr_Status (evaluate_gate reports usage p) = ''pass'')"
  by (auto simp: GatesQualityGate_def EvaluateGates_def find_None_iff split: option.split dest!: find_mem)

section \<open>The status of a run\<close>

definition runStatusFrom :: "string \<Rightarrow> string \<Rightarrow> ToolReport list \<Rightarrow> string" where
  "runStatusFrom phase stopReason reports =
     (if equal_fold stopReason ''cancelled'' \<or> equal_fold stopReason ''denied'' then ''cancelled''
      else if equal_fold stopReason ''failed'' \<or> equal_fold phase ''failed'' then ''failed''
      else if list_ex (\<lambda>r. tp_ExitCode r \<noteq> 0) reports then ''failed''
      else if equal_fold phase ''complete'' then ''passed'' else ''incomplete'')"

definition failedToolNames :: "ToolReport list \<Rightarrow> string list" where
  "failedToolNames reports =
     sort (map (\<lambda>r. tp_Name r @ ''(exit='' @ itoa (tp_ExitCode r) @ '')'')
       (filter (\<lambda>r. tp_ExitCode r \<noteq> 0) reports))"

lemma runStatusFrom_passed:
  "runStatusFrom phase stopReason reports = ''passed'' \<longleftrightarrow>
     equal_fold phase ''complete'' \<and> \<not> equal_fold stopReason ''cancelled'' \<and> \<not> equal_fold stopReason ''denied''
     \<and> \<not> equal_fold stopReason ''failed'' \<and> (\<forall>r\<in>set reports. tp_ExitCode r = 0)"
proof -
  have "to_lower ''complete'' \<noteq> to_lower ''failed''" by code_simp
  then show ?thesis by (auto simp: runStatusFrom_def list_ex_iff equal_fold_def)
qed

section \<open>The permission trail\<close>

text \<open>
  A trail file is its lines. A line is what \<open>enc\<close> made of a decision, or anything else;
  \<open>dec\<close> is the decoder. \<open>SavePermissions\<close> rewrites the file, \<open>DumpPermissions\<close> appends.
\<close>

definition SavePermissions :: "(PermissionResolution \<Rightarrow> string) \<Rightarrow> Engine \<Rightarrow> string list" where
  "SavePermissions enc e = map enc (en_Log e)"

definition DumpPermissions :: "(PermissionResolution \<Rightarrow> string) \<Rightarrow> Engine \<Rightarrow> string list \<Rightarrow> string list" where
  "DumpPermissions enc e file = file @ map enc (en_Log e)"

definition load_line :: "(string \<Rightarrow> PermissionResolution option) \<Rightarrow> string \<Rightarrow> Engine \<Rightarrow> Engine" where
  "load_line dec line e =
     (let line = trim_space line in
      if line = [] then e
      else case dec line of
        None \<Rightarrow> e
      | Some res \<Rightarrow>
          if pr_RequestID res = [] then e
          else if pr_Fingerprint res = [] then e
          else (case Restore e res of Inl _ \<Rightarrow> e | Inr e' \<Rightarrow> e'))"

definition LoadPermissions :: "(string \<Rightarrow> PermissionResolution option) \<Rightarrow> string list \<Rightarrow> Engine \<Rightarrow> Engine" where
  "LoadPermissions dec file e = fold (load_line dec) file e"

definition usable :: "PermissionResolution \<Rightarrow> bool" where
  "usable r \<longleftrightarrow> pr_RequestID r \<noteq> [] \<and> pr_Fingerprint r \<noteq> []"

lemma load_lines_encoded:
  assumes "\<forall>r\<in>set rs. dec (enc r) = Some r \<and> trim_space (enc r) = enc r \<and> enc r \<noteq> [] \<and> usable r"
  shows "fold (load_line dec) (map enc rs) e = fold (\<lambda>r e. remember e r) rs e"
  using assms by (induction rs arbitrary: e) (auto simp: load_line_def Let_def Restore_def usable_def)

lemma remember_fields [simp]:
  "en_Log (remember e r) = en_Log e @ [r]" "en_Policy (remember e r) = en_Policy e"
  by (simp_all add: remember_def)

lemma fold_remember:
  "en_Log (fold (\<lambda>r e. remember e r) rs e) = en_Log e @ rs"
  "en_Policy (fold (\<lambda>r e. remember e r) rs e) = en_Policy e"
  "engine_ok e \<Longrightarrow> engine_ok (fold (\<lambda>r e. remember e r) rs e)"
  by (induction rs arbitrary: e) (auto intro: engine_ok_remember)

lemma Load_Save:
  assumes "\<forall>r\<in>set (en_Log e). dec (enc r) = Some r \<and> trim_space (enc r) = enc r \<and> enc r \<noteq> [] \<and> usable r" "engine_ok e"
  shows "LoadPermissions dec (SavePermissions enc e) (engine_new p)
       = e\<lparr>en_Policy := en_Policy (engine_new p)\<rparr>"
proof -
  let ?e = "LoadPermissions dec (SavePermissions enc e) (engine_new p)"
  have f: "?e = fold (\<lambda>r e. remember e r) (en_Log e) (engine_new p)"
    by (simp add: LoadPermissions_def SavePermissions_def load_lines_encoded[OF assms(1)])
  have "en_Log ?e = en_Log e" "en_Policy ?e = en_Policy (engine_new p)" "engine_ok ?e"
    by (simp_all add: f fold_remember engine_ok_new) (simp add: engine_new_def)
  then show ?thesis using assms(2) by (simp add: engine_ok_def)
qed

end
