(* ===== verification/GraphSearch.thy ===== *)
theory GraphSearch
  imports Prelude
begin

text \<open>
  The depth-first search with three colours that the code uses wherever it looks for cycles
  (\<open>CheckDAGCycles\<close>, \<open>LintRecipeDAG\<close>): colour 0 is unvisited, 1 is on the current path, 2 is
  finished. \<open>dfs\<close> visits a node, \<open>dfs_all\<close> is its loop over the successors; both return the
  colours and, when an edge back to the current path was found, the path with the repeated
  node at its end. The first argument bounds the depth of the recursion; the number of nodes
  is always enough.
\<close>

section \<open>The search\<close>

fun dfs :: "nat \<Rightarrow> ('a \<Rightarrow> 'a list) \<Rightarrow> 'a \<Rightarrow> 'a list \<Rightarrow> ('a \<Rightarrow> nat) \<Rightarrow> ('a \<Rightarrow> nat) \<times> 'a list option"
and dfs_all :: "nat \<Rightarrow> ('a \<Rightarrow> 'a list) \<Rightarrow> 'a list \<Rightarrow> 'a list \<Rightarrow> ('a \<Rightarrow> nat) \<Rightarrow> ('a \<Rightarrow> nat) \<times> 'a list option" where
  "dfs 0 succs u path col = (col, None)"
| "dfs (Suc n) succs u path col =
     (case dfs_all n succs (succs u) (path @ [u]) (col(u := 1)) of
        (col', Some c) \<Rightarrow> (col', Some c)
      | (col', None) \<Rightarrow> (col'(u := 2), None))"
| "dfs_all n succs [] path col = (col, None)"
| "dfs_all n succs (v # vs) path col =
     (if col v = 1 then (col, Some (path @ [v]))
      else if col v = 0 then
        (case dfs n succs v path col of
           (col', Some c) \<Rightarrow> (col', Some c)
         | (col', None) \<Rightarrow> dfs_all n succs vs path col')
      else dfs_all n succs vs path col)"

text \<open>The outer loop, stopping at the first cycle.\<close>

fun dfs_roots :: "nat \<Rightarrow> ('a \<Rightarrow> 'a list) \<Rightarrow> 'a list \<Rightarrow> ('a \<Rightarrow> nat) \<Rightarrow> ('a \<Rightarrow> nat) \<times> 'a list option" where
  "dfs_roots n succs [] col = (col, None)"
| "dfs_roots n succs (u # us) col =
     (if col u = 0 then
        (case dfs n succs u [] col of
           (col', Some c) \<Rightarrow> (col', Some c)
         | (col', None) \<Rightarrow> dfs_roots n succs us col')
      else dfs_roots n succs us col)"

section \<open>What it finds\<close>

definition edges :: "('a \<Rightarrow> 'a list) \<Rightarrow> ('a \<times> 'a) set" where
  "edges succs = {(u, v). v \<in> set (succs u)}"

definition white :: "'a set \<Rightarrow> ('a \<Rightarrow> nat) \<Rightarrow> 'a set" where
  "white U col = {v \<in> U. col v = 0}"

text \<open>
  The state of a search that has found no cycle: the path is the set of gray nodes and a chain
  of edges; black nodes have only black successors and lie on no cycle.
\<close>

definition search_ok :: "('a \<Rightarrow> 'a list) \<Rightarrow> 'a list \<Rightarrow> ('a \<Rightarrow> nat) \<Rightarrow> bool" where
  "search_ok succs path col \<longleftrightarrow>
     {v. col v = 1} = set path \<and> successively (\<lambda>a b. b \<in> set (succs a)) path \<and> (\<forall>v. col v \<le> 2) \<and>
     (\<forall>b. col b = 2 \<longrightarrow> (\<forall>v\<in>set (succs b). col v = 2) \<and> (b, b) \<notin> (edges succs)\<^sup>+)"

definition advanced :: "('a \<Rightarrow> nat) \<Rightarrow> ('a \<Rightarrow> nat) \<Rightarrow> bool" where
  "advanced col col' \<longleftrightarrow> (\<forall>v. col v \<noteq> 0 \<longrightarrow> col' v = col v)"

definition is_cycle :: "('a \<Rightarrow> 'a list) \<Rightarrow> 'a list \<Rightarrow> bool" where
  "is_cycle succs c \<longleftrightarrow> successively (\<lambda>a b. b \<in> set (succs a)) c \<and>
     (\<exists>xs v ys. c = xs @ v # ys @ [v])"

lemma advanced_refl [simp]: "advanced col col"
  by (simp add: advanced_def)

lemma advanced_trans: "advanced a b \<Longrightarrow> advanced b c \<Longrightarrow> advanced a c"
  by (simp add: advanced_def)

lemma white_advanced: "advanced col col' \<Longrightarrow> white U col' \<subseteq> white U col"
  by (auto simp: white_def advanced_def)

lemma successively_trancl:
  "successively (\<lambda>a b. b \<in> set (succs a)) (v # ys @ [w]) \<Longrightarrow> (v, w) \<in> (edges succs)\<^sup>+"
proof (induction ys arbitrary: v)
  case (Cons y ys)
  then have "(v, y) \<in> edges succs" "(y, w) \<in> (edges succs)\<^sup>+" by (simp_all add: edges_def)
  then show ?case by (rule trancl_into_trancl2)
qed (auto simp: edges_def)

lemma is_cycle_cyclic: "is_cycle succs c \<Longrightarrow> \<exists>v. v \<in> set c \<and> (v, v) \<in> (edges succs)\<^sup>+"
proof -
  assume "is_cycle succs c"
  then obtain xs v ys where c: "c = xs @ v # ys @ [v]" "successively (\<lambda>a b. b \<in> set (succs a)) c"
    by (auto simp: is_cycle_def)
  then have "successively (\<lambda>a b. b \<in> set (succs a)) (v # ys @ [v])"
    by (simp add: successively_append_iff)
  from successively_trancl[OF this] c(1) show ?thesis by auto
qed

lemma black_closed:
  assumes "search_ok succs path col" "(b, v) \<in> (edges succs)\<^sup>+" "col b = 2"
  shows "col v = 2"
  using assms(2,3,1) by (induction rule: trancl_induct) (auto simp: search_ok_def edges_def)

lemma back_edge_cycle:
  assumes "search_ok succs (path @ [u]) col" "v \<in> set (succs u)" "col v = 1"
  shows "is_cycle succs (path @ [u] @ [v])"
proof -
  have s: "successively (\<lambda>a b. b \<in> set (succs a)) (path @ [u] @ [v])"
    using assms(1,2) by (auto simp: search_ok_def successively_append_iff)
  have "v \<in> set (path @ [u])" using assms(1,3) by (auto simp: search_ok_def)
  then obtain xs ys where "path @ [u] = xs @ v # ys" by (meson split_list)
  then have "path @ [u] @ [v] = xs @ v # ys @ [v]" by (metis append.assoc append_Cons)
  with s show ?thesis unfolding is_cycle_def by blast
qed

lemma gray_iff: "search_ok succs path col \<Longrightarrow> v \<in> set path \<longleftrightarrow> col v = 1"
  unfolding search_ok_def by blast

lemma search_ok_enter:
  assumes "search_ok succs path col" "col u = 0" "path = [] \<or> u \<in> set (succs (last path))"
  shows "search_ok succs (path @ [u]) (col(u := 1))"
  using assms by (auto simp: search_ok_def successively_append_iff)

lemma search_ok_leave:
  assumes "search_ok succs (path @ [u]) col" "u \<notin> set path" "\<forall>v\<in>set (succs u). col v = 2"
  shows "search_ok succs path (col(u := 2))"
proof -
  have u: "col u = 1" using assms(1) by (auto simp: search_ok_def)
  have "(u, u) \<notin> (edges succs)\<^sup>+"
  proof
    assume "(u, u) \<in> (edges succs)\<^sup>+"
    then obtain v where "(u, v) \<in> edges succs" "v = u \<or> (v, u) \<in> (edges succs)\<^sup>+"
      by (metis tranclD rtranclD)
    then have "col u = 2" using assms(3) black_closed[OF assms(1)] by (auto simp: edges_def)
    with u show False by simp
  qed
  moreover have "{v. col v = 1} = insert u (set path)" using assms(1) by (auto simp: search_ok_def)
  ultimately show ?thesis using assms
    by (auto simp: search_ok_def successively_append_iff)
qed

definition dfs_result :: "('a \<Rightarrow> 'a list) \<Rightarrow> 'a list \<Rightarrow> ('a \<Rightarrow> nat) \<Rightarrow> 'a set \<Rightarrow> ('a \<Rightarrow> nat) \<times> 'a list option \<Rightarrow> bool" where
  "dfs_result succs path col done r \<longleftrightarrow>
     (case r of (col', Some c) \<Rightarrow> is_cycle succs c
      | (col', None) \<Rightarrow> search_ok succs path col' \<and> advanced col col' \<and> (\<forall>v\<in>done. col' v = 2))"

lemma dfs_result_seq:
  "advanced col c' \<Longrightarrow> c' v = 2 \<Longrightarrow> dfs_result succs path c' B r \<Longrightarrow> dfs_result succs path col (insert v B) r"
  unfolding dfs_result_def
  by (auto intro: advanced_trans split: prod.splits option.splits) (auto simp: advanced_def)

lemma white_enter:
  assumes "finite U" "u \<in> U" "col u = 0" "card (white U col) \<le> Suc n"
  shows "card (white U (col(u := 1))) \<le> n"
proof -
  have "white U (col(u := 1)) = white U col - {u}" "u \<in> white U col" using assms(2,3) by (auto simp: white_def)
  moreover have "finite (white U col)" using assms(1) by (simp add: white_def)
  ultimately show ?thesis using assms(4) by (simp add: card_Diff_singleton)
qed

lemma white_pos: "finite U \<Longrightarrow> u \<in> U \<Longrightarrow> col u = 0 \<Longrightarrow> 0 < card (white U col)"
  by (auto simp: white_def card_gt_0_iff)

lemma white_card_advanced: "finite U \<Longrightarrow> advanced col col' \<Longrightarrow> card (white U col') \<le> card (white U col)"
  by (rule card_mono) (simp_all add: white_advanced, simp add: white_def)

theorem dfs_correct:
  assumes "finite U" "\<forall>x\<in>U. set (succs x) \<subseteq> U"
  shows "search_ok succs path col \<Longrightarrow> col u = 0 \<Longrightarrow> path = [] \<or> u \<in> set (succs (last path)) \<Longrightarrow> u \<in> U
      \<Longrightarrow> card (white U col) \<le> n \<Longrightarrow> dfs_result succs path col {u} (dfs n succs u path col)"
    and "search_ok succs path col \<Longrightarrow> path \<noteq> [] \<Longrightarrow> last path \<in> U \<Longrightarrow> set vs \<subseteq> set (succs (last path))
      \<Longrightarrow> card (white U col) \<le> n \<Longrightarrow> dfs_result succs path col (set vs) (dfs_all n succs vs path col)"
  using assms(2)
proof (induction n succs u path col and n succs vs path col rule: dfs_dfs_all.induct)
  case (1 succs u path col)
  with white_pos[OF assms(1), of u col] show ?case by simp
next
  case (2 n succs u path col)
  let ?c1 = "col(u := 1)"
  have ok: "search_ok succs (path @ [u]) ?c1" using 2 by (intro search_ok_enter)
  have card: "card (white U ?c1) \<le> n" using 2 by (intro white_enter[OF assms(1)])
  have r: "dfs_result succs (path @ [u]) ?c1 (set (succs u)) (dfs_all n succs (succs u) (path @ [u]) ?c1)"
    by (rule "2.IH"[OF ok _ _ _ card]) (use 2 in simp_all)
  obtain c' res where d: "dfs_all n succs (succs u) (path @ [u]) ?c1 = (c', res)" by fastforce
  show ?case
  proof (cases res)
    case None
    with r d have s: "search_ok succs (path @ [u]) c'" "advanced ?c1 c'" "\<forall>v\<in>set (succs u). c' v = 2"
      by (auto simp: dfs_result_def)
    have "u \<notin> set path" using gray_iff[OF 2(2), of u] 2(3) by simp
    from search_ok_leave[OF s(1) this s(3)] s(2) d None 2(3) show ?thesis
      by (auto simp: dfs_result_def advanced_def)
  qed (use r d in \<open>simp add: dfs_result_def\<close>)
next
  case (3 n succs path col)
  then show ?case by (simp add: dfs_result_def)
next
  case (4 n succs v vs path col)
  obtain p w where p: "path = p @ [w]" using "4.prems" by (metis append_butlast_last_id)
  consider "col v = 1" | "col v = 0" | "col v = 2"
    using "4.prems"(1) by (force simp: search_ok_def le_Suc_eq numeral_2_eq_2)
  then show ?case
  proof cases
    case 1
    then show ?thesis using back_edge_cycle[of succs p w col v] "4.prems" p by (simp add: dfs_result_def)
  next
    case 2
    have "dfs_result succs path col {v} (dfs n succs v path col)" using 2 "4.prems" by (intro "4.IH"(1)) auto
    moreover obtain c' res where d: "dfs n succs v path col = (c', res)" by fastforce
    ultimately have r: "dfs_result succs path col {v} (c', res)" by simp
    show ?thesis
    proof (cases res)
      case None
      with r have c: "search_ok succs path c'" "advanced col c'" "c' v = 2" by (auto simp: dfs_result_def)
      have "dfs_result succs path c' (set vs) (dfs_all n succs vs path c')"
        by (rule "4.IH"(2)) (use 2 d None c "4.prems" white_card_advanced[OF assms(1) c(2)] in auto)
      from dfs_result_seq[OF c(2,3) this] show ?thesis using 2 d None by simp
    qed (use r d 2 in \<open>simp add: dfs_result_def\<close>)
  next
    case 3
    then have "dfs_result succs path col (set vs) (dfs_all n succs vs path col)" using "4.prems" by (intro "4.IH"(3)) auto
    from dfs_result_seq[OF advanced_refl 3 this] show ?thesis using 3 by simp
  qed
qed

section \<open>All roots\<close>

lemma search_ok_start: "search_ok succs [] (\<lambda>v. 0)"
  by (simp add: search_ok_def)

lemma dfs_roots_correct:
  assumes "finite U" "\<forall>x\<in>U. set (succs x) \<subseteq> U" "card U \<le> n"
  shows "search_ok succs [] col \<Longrightarrow> set us \<subseteq> U \<Longrightarrow> dfs_result succs [] col (set us) (dfs_roots n succs us col)"
proof (induction us arbitrary: col)
  case (Cons u us)
  show ?case
  proof (cases "col u = 0")
    case True
    have "card (white U col) \<le> n"
      using assms(1,3) card_mono[of U "white U col"] by (auto simp: white_def)
    then have r: "dfs_result succs [] col {u} (dfs n succs u [] col)"
      using Cons.prems True by (intro dfs_correct(1)[OF assms(1,2)]) auto
    obtain c' res where d: "dfs n succs u [] col = (c', res)" by fastforce
    show ?thesis
    proof (cases res)
      case None
      with r d have c: "search_ok succs [] c'" "advanced col c'" "c' u = 2" by (auto simp: dfs_result_def)
      have "dfs_result succs [] c' (set us) (dfs_roots n succs us c')" using Cons.IH[OF c(1)] Cons.prems by simp
      from dfs_result_seq[OF c(2,3) this] show ?thesis using True d None by simp
    qed (use r d True in \<open>simp add: dfs_result_def\<close>)
  next
    case False
    moreover have "col u = 2"
    proof -
      have "col u \<le> 2" "col u \<noteq> 1" using Cons.prems(1) by (auto simp: search_ok_def)
      with False show ?thesis by simp
    qed
    moreover have "dfs_result succs [] col (set us) (dfs_roots n succs us col)"
      using Cons.IH[OF Cons.prems(1)] Cons.prems by simp
    ultimately show ?thesis using dfs_result_seq[OF advanced_refl] by simp
  qed
qed (simp add: dfs_result_def)

theorem dfs_roots_acyclic:
  assumes "finite U" "\<forall>x\<in>U. set (succs x) \<subseteq> U" "card U \<le> n" "set us \<subseteq> U" "\<forall>x. succs x \<noteq> [] \<longrightarrow> x \<in> set us"
  shows "snd (dfs_roots n succs us (\<lambda>v. 0)) = None \<longleftrightarrow> acyclic (edges succs)"
proof -
  obtain col res where d: "dfs_roots n succs us (\<lambda>v. 0) = (col, res)" by fastforce
  have r: "dfs_result succs [] (\<lambda>v. 0) (set us) (col, res)"
    using dfs_roots_correct[OF assms(1-3) search_ok_start assms(4)] d by simp
  show ?thesis
  proof (cases res)
    case None
    then have c: "search_ok succs [] col" "\<forall>v\<in>set us. col v = 2" using r by (auto simp: dfs_result_def)
    have "(v, v) \<notin> (edges succs)\<^sup>+" for v
    proof
      assume t: "(v, v) \<in> (edges succs)\<^sup>+"
      then have "succs v \<noteq> []" by (auto simp: edges_def dest!: tranclD)
      with assms(5) c t show False by (auto simp: search_ok_def)
    qed
    then show ?thesis using d None by (simp add: acyclic_def)
  next
    case (Some c)
    then have "is_cycle succs c" using r by (simp add: dfs_result_def)
    from is_cycle_cyclic[OF this] show ?thesis using d Some by (auto simp: acyclic_def)
  qed
qed

end
