(* ===== verification/Plans.thy ===== *)
theory Plans
  imports GraphSearch GoStrings
begin

text \<open>
  \<open>internal/protocol/plans/plans.go\<close>: \<open>CheckDAGCycles\<close> over decoded tasks. The two loops over
  the graph run in the orders \<open>o1\<close> and \<open>o2\<close>, which Go leaves open. A search that reports
  a cycle leaves its path marked as visiting, and the outer loop goes on.
\<close>

section \<open>The check\<close>

definition task_map :: "(string \<times> jval) list list \<Rightarrow> string \<rightharpoonup> (string \<times> jval) list" where
  "task_map tasks = fold (\<lambda>task m. case as_string (jobj_get task ''id'') of
     None \<Rightarrow> m | Some i \<Rightarrow> m(i \<mapsto> task)) tasks Map.empty"

definition task_deps :: "(rat \<Rightarrow> string) \<Rightarrow> (string \<rightharpoonup> (string \<times> jval) list) \<Rightarrow> string \<Rightarrow> string list" where
  "task_deps num tm i = (case tm i of None \<Rightarrow> []
     | Some task \<Rightarrow> map (sprint num) (as_list (jobj_get task ''dependencies'')))"

definition dep_errors :: "(rat \<Rightarrow> string) \<Rightarrow> (string \<rightharpoonup> (string \<times> jval) list) \<Rightarrow> string \<Rightarrow> string list" where
  "dep_errors num tm i = concat (map (\<lambda>dep.
      (if dep = i then [''Task '' @ i @ '' has a self-dependency.''] else []) @
      (if tm dep = None then [''Task '' @ i @ '' depends on non-existent task '' @ [CHR 0x27] @ dep @ [CHR 0x27] @ ''.''] else []))
    (task_deps num tm i))"

definition task_succs :: "(rat \<Rightarrow> string) \<Rightarrow> (string \<rightharpoonup> (string \<times> jval) list) \<Rightarrow> string \<Rightarrow> string list" where
  "task_succs num tm i = filter (\<lambda>d. tm d \<noteq> None) (task_deps num tm i)"

fun visit_all :: "nat \<Rightarrow> (string \<Rightarrow> string list) \<Rightarrow> string list \<Rightarrow> (string \<Rightarrow> nat) \<Rightarrow> string list list" where
  "visit_all n succs [] visited = []"
| "visit_all n succs (node # nodes) visited =
     (if visited node = 0 then
        (case dfs n succs node [] visited of
           (visited', None) \<Rightarrow> visit_all n succs nodes visited'
         | (visited', Some cycle) \<Rightarrow> cycle # visit_all n succs nodes visited')
      else visit_all n succs nodes visited)"

definition CheckDAGCycles :: "(rat \<Rightarrow> string) \<Rightarrow> string list \<Rightarrow> string list \<Rightarrow> (string \<times> jval) list list \<Rightarrow> string list" where
  "CheckDAGCycles num o1 o2 tasks =
     (let tm = task_map tasks in
      concat (map (dep_errors num tm) o1) @
      map (\<lambda>cycle. ''DAG cycle detected: '' @ join '' -> '' cycle)
        (visit_all (length o2) (task_succs num tm) o2 (\<lambda>v. 0)))"

section \<open>It accepts exactly the well-formed graphs\<close>

lemma visit_all_Nil: "visit_all n succs us col = [] \<longleftrightarrow> snd (dfs_roots n succs us col) = None"
  by (induction us arbitrary: col) (auto split: option.splits prod.splits)

lemma finite_task_map: "finite (dom (task_map tasks))"
proof -
  have "finite (dom m) \<Longrightarrow> finite (dom (fold (\<lambda>task m. case as_string (jobj_get task ''id'') of
     None \<Rightarrow> m | Some i \<Rightarrow> m(i \<mapsto> task)) tasks m))" for m :: "string \<rightharpoonup> (string \<times> jval) list"
    by (induction tasks arbitrary: m) (auto split: option.split)
  then show ?thesis by (simp add: task_map_def)
qed

lemma dep_errors_Nil: "dep_errors num tm i = [] \<longleftrightarrow> (\<forall>d\<in>set (task_deps num tm i). d \<noteq> i \<and> tm d \<noteq> None)"
  by (auto simp: dep_errors_def)

lemma CheckDAGCycles_Nil:
  assumes "set o1 = dom (task_map tasks)" "set o2 = dom (task_map tasks)" "distinct o2"
  shows "CheckDAGCycles num o1 o2 tasks = [] \<longleftrightarrow>
    (\<forall>i d. d \<in> set (task_deps num (task_map tasks) i) \<longrightarrow> d \<in> dom (task_map tasks)) \<and>
    acyclic {(i, d). d \<in> set (task_deps num (task_map tasks) i)}"
proof -
  let ?tm = "task_map tasks"
  have dom: "i \<in> dom ?tm" if "d \<in> set (task_deps num ?tm i)" for i d
    using that by (cases "?tm i") (auto simp: task_deps_def)
  then have e: "(\<forall>i\<in>set o1. dep_errors num ?tm i = []) \<longleftrightarrow>
      (\<forall>i d. d \<in> set (task_deps num ?tm i) \<longrightarrow> d \<noteq> i \<and> d \<in> dom ?tm)"
    unfolding dep_errors_Nil assms(1) domIff by blast
  have c: "visit_all (length o2) (task_succs num ?tm) o2 (\<lambda>v. 0) = [] \<longleftrightarrow> acyclic (edges (task_succs num ?tm))"
    unfolding visit_all_Nil
  proof (rule dfs_roots_acyclic)
    show "finite (dom ?tm)" by (rule finite_task_map)
    show "card (dom ?tm) \<le> length o2" using assms(2,3) by (metis distinct_card order_refl)
    show "\<forall>x. task_succs num ?tm x \<noteq> [] \<longrightarrow> x \<in> set o2"
      unfolding assms(2) task_succs_def filter_empty_conv using dom by blast
  qed (use assms(2) in \<open>auto simp: task_succs_def\<close>)
  have "acyclic {(i, d). d \<in> set (task_deps num ?tm i)} \<Longrightarrow> d \<in> set (task_deps num ?tm i) \<Longrightarrow> d \<noteq> i" for i d
    by (auto simp: acyclic_def)
  moreover have "edges (task_succs num ?tm) = {(i, d). d \<in> set (task_deps num ?tm i)}"
    if "\<forall>i d. d \<in> set (task_deps num ?tm i) \<longrightarrow> d \<in> dom ?tm"
    using that by (auto simp: edges_def task_succs_def)
  ultimately show ?thesis using e c by (auto simp: CheckDAGCycles_def Let_def)
qed

text \<open>
  The path left marked makes a later root report a cycle it is not on: task \<open>c\<close> is on no
  cycle here.
\<close>

lemma leftover_path_reported:
  "let succs = (\<lambda>v. if v = ''a'' then [''b''] else if v = ''b'' then [''a''] else if v = ''c'' then [''a''] else [])
   in visit_all 3 succs [''a'', ''b'', ''c''] (\<lambda>v. 0) = [[''a'', ''b'', ''a''], [''c'', ''a'']]"
  by code_simp

section \<open>Property\<close>

text \<open>
  C27: the plan check against its specification. Whatever the orders in which Go ranges over
  the task map, \<open>CheckDAGCycles\<close> reports nothing exactly if every dependency names a task of
  the plan and the dependency relation is acyclic.
\<close>

theorem plan_check_decides_acyclicity:
  assumes "set o1 = dom (task_map tasks)" "set o2 = dom (task_map tasks)" "distinct o2"
  shows "CheckDAGCycles num o1 o2 tasks = [] \<longleftrightarrow>
    (\<forall>i d. d \<in> set (task_deps num (task_map tasks) i) \<longrightarrow> d \<in> dom (task_map tasks)) \<and>
    acyclic {(i, d). d \<in> set (task_deps num (task_map tasks) i)}"
  using assms by (rule CheckDAGCycles_Nil)

definition sample_plan :: "(string \<times> jval) list list" where
  "sample_plan = [[(''id'', JStr ''a''), (''dependencies'', JArr [JStr ''b''])], [(''id'', JStr ''b'')]]"

theorem plan_check_decides_acyclicity_witness:
  "CheckDAGCycles (\<lambda>q. ''n'') [''a'', ''b''] [''b'', ''a''] sample_plan = [] \<and>
   acyclic {(i, d). d \<in> set (task_deps (\<lambda>q. ''n'') (task_map sample_plan) i)}"
proof -
  have d: "dom (task_map sample_plan) = {''a'', ''b''}"
    by (auto simp: task_map_def sample_plan_def jobj_get_def jget_def split: if_splits)
  have "CheckDAGCycles (\<lambda>q. ''n'') [''a'', ''b''] [''b'', ''a''] sample_plan = []" by code_simp
  with plan_check_decides_acyclicity[of "[''a'', ''b'']" sample_plan "[''b'', ''a'']" "\<lambda>q. ''n''"] d
  show ?thesis by (simp add: insert_commute)
qed

end
