(* ===== verification/Recipes.thy ===== *)
theory Recipes
  imports GraphSearch GoStrings
begin

text \<open>
  \<open>internal/automation\<close>: recipe graphs. \<open>LintRecipeDAG\<close> rejects what the executor could not
  run, \<open>Execute\<close> follows the first transition of each step, retries it within its limit and
  compensates the destructive steps already run when one fails; \<open>ShouldRun\<close> guards against
  replaying a completed execution. The step map is its entries; the orders in which Go ranges
  over it are arguments, and so are the registered handlers.
\<close>

section \<open>Recipes\<close>

record RecipeStep =
  rs_ID :: string
  rs_Actor :: string
  rs_Capability :: string
  rs_Inputs :: "string list"
  rs_Outputs :: "string list"
  rs_Preconditions :: "string list"
  rs_SideEffects :: string
  rs_RetryLimit :: int
  rs_FailurePolicy :: string
  rs_Compensation :: string
  rs_Evidence :: string
  rs_Gate :: string
  rs_Next :: "string list"

record RecipeDAG =
  rd_ID :: string
  rd_Name :: string
  rd_Steps :: "(string, RecipeStep) gomap"
  rd_Start :: string

record LintFinding =
  lf_StepID :: string
  lf_Kind :: string
  lf_Message :: string

definition zero_step :: RecipeStep where
  "zero_step = \<lparr>rs_ID = [], rs_Actor = [], rs_Capability = [], rs_Inputs = [], rs_Outputs = [], rs_Preconditions = [],
     rs_SideEffects = [], rs_RetryLimit = 0, rs_FailurePolicy = [], rs_Compensation = [], rs_Evidence = [],
     rs_Gate = [], rs_Next = []\<rparr>"

text \<open>Reading an absent entry of the step map gives the zero step.\<close>

definition step_at :: "RecipeDAG \<Rightarrow> string \<Rightarrow> RecipeStep" where
  "step_at dag i = (case map_of (rd_Steps dag) i of None \<Rightarrow> zero_step | Some s \<Rightarrow> s)"

section \<open>The linter\<close>

definition step_findings :: "RecipeDAG \<Rightarrow> string \<Rightarrow> LintFinding list" where
  "step_findings dag i =
     (let step = step_at dag i in
      (if rs_Actor step = [] then [\<lparr>lf_StepID = i, lf_Kind = ''missing_owner'',
          lf_Message = ''step '' @ quoted i @ '' has no owner actor''\<rparr>] else []) @
      (if rs_RetryLimit step < 0 \<or> rs_RetryLimit step > 10 then [\<lparr>lf_StepID = i, lf_Kind = ''infinite_retry'',
          lf_Message = ''step '' @ quoted i @ '' has invalid retry limit '' @ itoa (rs_RetryLimit step) @ '' (must be 0-10)''\<rparr>] else []) @
      (if rs_SideEffects step = ''destructive'' \<and> rs_Compensation step = [] then [\<lparr>lf_StepID = i, lf_Kind = ''missing_compensation'',
          lf_Message = ''destructive step '' @ quoted i @ '' requires explicit compensation''\<rparr>] else []) @
      concat (map (\<lambda>nx. if map_of (rd_Steps dag) nx = None then [\<lparr>lf_StepID = i, lf_Kind = ''dangling_transition'',
          lf_Message = ''step '' @ quoted i @ '' transitions to nonexistent step '' @ quoted nx\<rparr>] else []) (rs_Next step)))"

definition recipe_succs :: "RecipeDAG \<Rightarrow> string \<Rightarrow> string list" where
  "recipe_succs dag u = (case map_of (rd_Steps dag) u of None \<Rightarrow> [] | Some s \<Rightarrow> rs_Next s)"

text \<open>Every node the search can meet is a step or the target of one; this many suffice.\<close>

definition node_bound :: "RecipeDAG \<Rightarrow> nat" where
  "node_bound dag = length (rd_Steps dag) + sum_list (map (\<lambda>e. length (rs_Next (snd e))) (rd_Steps dag))"

definition LintRecipeDAG :: "string list \<Rightarrow> string list \<Rightarrow> RecipeDAG \<Rightarrow> LintFinding list" where
  "LintRecipeDAG o1 o2 dag =
     (if length (rd_Steps dag) = 0
      then [\<lparr>lf_StepID = [], lf_Kind = ''empty_dag'', lf_Message = ''recipe DAG has no steps''\<rparr>]
      else
        (if rd_Start dag = [] \<or> rs_ID (step_at dag (rd_Start dag)) = []
         then [\<lparr>lf_StepID = [], lf_Kind = ''invalid_start'',
            lf_Message = ''start step '' @ quoted (rd_Start dag) @ '' does not exist in DAG''\<rparr>] else []) @
        concat (map (step_findings dag) o1) @
        (case snd (dfs_roots (node_bound dag) (recipe_succs dag) o2 (\<lambda>v. 0)) of
           None \<Rightarrow> []
         | Some c \<Rightarrow> [\<lparr>lf_StepID = [], lf_Kind = ''cycle_detected'',
             lf_Message = ''cycle detected in recipe DAG: ['' @ join '' '' (butlast c) @ ''] -> '' @ last c\<rparr>]))"

section \<open>The executor\<close>

text \<open>A handler acts on the world and may fail; an unregistered capability succeeds at once.\<close>

type_synonym 'w handlers = "string \<Rightarrow> ('w \<Rightarrow> RecipeStep \<Rightarrow> 'w \<times> string option) option"

fun run_attempts :: "nat \<Rightarrow> ('w \<Rightarrow> RecipeStep \<Rightarrow> 'w \<times> string option) \<Rightarrow> 'w \<Rightarrow> RecipeStep \<Rightarrow> string option \<Rightarrow> 'w \<times> string option" where
  "run_attempts 0 handler w step lastErr = (w, lastErr)"
| "run_attempts (Suc a) handler w step lastErr =
     (case handler w step of
        (w', None) \<Rightarrow> (w', None)
      | (w', Some e) \<Rightarrow> run_attempts a handler w' step (Some e))"

definition run_step :: "'w handlers \<Rightarrow> 'w \<Rightarrow> RecipeStep \<Rightarrow> 'w \<times> string option" where
  "run_step handlers w step =
     (case handlers (rs_Capability step) of
        None \<Rightarrow> run_attempts (nat (rs_RetryLimit step + 1)) (\<lambda>w s. (w, None)) w step None
      | Some handler \<Rightarrow> run_attempts (nat (rs_RetryLimit step + 1)) handler w step None)"

definition compensate :: "'w handlers \<Rightarrow> RecipeStep \<Rightarrow> 'w \<Rightarrow> 'w" where
  "compensate comps prev w =
     (if rs_SideEffects prev = ''destructive'' \<and> rs_Compensation prev \<noteq> [] then
        (case comps (rs_Compensation prev) of None \<Rightarrow> w | Some h \<Rightarrow> fst (h w prev))
      else w)"

datatype recipe_error = ErrInvalidDAG string | ErrStepFailed string string

text \<open>
  The loop over the current step, \<open>executed\<close> the steps already run; \<open>None\<close> when the fuel,
  the first argument, runs out.
\<close>

fun recipe_loop :: "nat \<Rightarrow> 'w handlers \<Rightarrow> 'w handlers \<Rightarrow> RecipeDAG \<Rightarrow> string \<Rightarrow> RecipeStep list \<Rightarrow> 'w
    \<Rightarrow> ('w \<times> RecipeStep list \<times> recipe_error option) option" where
  "recipe_loop n hs comps dag cur executed w =
     (if cur = [] then Some (w, executed, None)
      else case n of
        0 \<Rightarrow> None
      | Suc n' \<Rightarrow>
          let step = step_at dag cur in
          (case run_step hs w step of
             (w', Some e) \<Rightarrow>
               Some (fold (compensate comps) (rev executed) w', executed, Some (ErrStepFailed (rs_ID step) e))
           | (w', None) \<Rightarrow>
               (case rs_Next step of
                  [] \<Rightarrow> Some (w', executed @ [step], None)
                | nx # _ \<Rightarrow> recipe_loop n' hs comps dag nx (executed @ [step]) w')))"

declare recipe_loop.simps [simp del]

definition Execute :: "nat \<Rightarrow> string list \<Rightarrow> string list \<Rightarrow> 'w handlers \<Rightarrow> 'w handlers \<Rightarrow> RecipeDAG \<Rightarrow> 'w
    \<Rightarrow> ('w \<times> RecipeStep list \<times> recipe_error option) option" where
  "Execute n o1 o2 hs comps dag w =
     (case LintRecipeDAG o1 o2 dag of
        f # _ \<Rightarrow> Some (w, [], Some (ErrInvalidDAG (lf_Message f)))
      | [] \<Rightarrow> recipe_loop n hs comps dag (rd_Start dag) [] w)"

record Execution =
  ex_ID :: string
  ex_EventID :: string
  ex_IdempotencyKey :: string
  ex_Status :: string
  ex_Attempts :: int
  ex_Failure :: string

definition ShouldRun :: "Execution list \<Rightarrow> string \<Rightarrow> bool" where
  "ShouldRun existing key \<longleftrightarrow> \<not> list_ex (\<lambda>e. ex_IdempotencyKey e = key \<and> ex_Status e = ''completed'') existing"

section \<open>What the linter accepts\<close>

lemma step_findings_Nil:
  "step_findings dag i = [] \<longleftrightarrow>
     rs_Actor (step_at dag i) \<noteq> [] \<and> 0 \<le> rs_RetryLimit (step_at dag i) \<and> rs_RetryLimit (step_at dag i) \<le> 10 \<and>
     \<not> (rs_SideEffects (step_at dag i) = ''destructive'' \<and> rs_Compensation (step_at dag i) = []) \<and>
     (\<forall>nx\<in>set (rs_Next (step_at dag i)). map_of (rd_Steps dag) nx \<noteq> None)"
  by (auto simp: step_findings_def Let_def simp del: concat_eq_Nil_conv)

definition recipe_nodes :: "RecipeDAG \<Rightarrow> string set" where
  "recipe_nodes dag = fst ` set (rd_Steps dag) \<union> (\<Union>e\<in>set (rd_Steps dag). set (rs_Next (snd e)))"

lemma recipe_nodes_bound: "card (recipe_nodes dag) \<le> node_bound dag"
proof -
  have "card (recipe_nodes dag) = card (set (map fst (rd_Steps dag) @ concat (map (\<lambda>e. rs_Next (snd e)) (rd_Steps dag))))"
    by (simp add: recipe_nodes_def)
  also have "\<dots> \<le> length (map fst (rd_Steps dag) @ concat (map (\<lambda>e. rs_Next (snd e)) (rd_Steps dag)))" by (rule card_length)
  finally show ?thesis by (simp add: node_bound_def length_concat comp_def)
qed

lemma recipe_succs_entry: "v \<in> set (recipe_succs dag u) \<Longrightarrow> \<exists>s. (u, s) \<in> set (rd_Steps dag) \<and> v \<in> set (rs_Next s)"
  by (cases "map_of (rd_Steps dag) u") (auto simp: recipe_succs_def dest: map_of_SomeD)

lemma recipe_succs_step_at: "recipe_succs dag u = rs_Next (step_at dag u)"
  by (simp add: recipe_succs_def step_at_def zero_step_def split: option.split)

lemma LintRecipeDAG_Nil:
  assumes "iter_order (rd_Steps dag) o1" "iter_order (rd_Steps dag) o2"
  shows "LintRecipeDAG o1 o2 dag = [] \<longleftrightarrow>
    rd_Steps dag \<noteq> [] \<and> rd_Start dag \<noteq> [] \<and> rs_ID (step_at dag (rd_Start dag)) \<noteq> [] \<and>
    (\<forall>i\<in>fst ` set (rd_Steps dag). step_findings dag i = []) \<and> acyclic (edges (recipe_succs dag))"
proof -
  have "snd (dfs_roots (node_bound dag) (recipe_succs dag) o2 (\<lambda>v. 0)) = None \<longleftrightarrow> acyclic (edges (recipe_succs dag))"
  proof (rule dfs_roots_acyclic[where U = "recipe_nodes dag"])
    show "finite (recipe_nodes dag)" by (simp add: recipe_nodes_def)
    show "\<forall>x\<in>recipe_nodes dag. set (recipe_succs dag x) \<subseteq> recipe_nodes dag"
      by (fastforce simp: recipe_nodes_def dest: recipe_succs_entry)
    show "\<forall>x. recipe_succs dag x \<noteq> [] \<longrightarrow> x \<in> set o2"
    proof (intro allI impI)
      fix x
      assume "recipe_succs dag x \<noteq> []"
      then obtain v where "v \<in> set (recipe_succs dag x)" by (cases "recipe_succs dag x") auto
      from recipe_succs_entry[OF this] assms(2) show "x \<in> set o2" by (force simp: iter_order_def)
    qed
    show "card (recipe_nodes dag) \<le> node_bound dag" by (rule recipe_nodes_bound)
    show "set o2 \<subseteq> recipe_nodes dag" using assms(2) by (auto simp: iter_order_def recipe_nodes_def)
  qed
  moreover have "set o1 = fst ` set (rd_Steps dag)" using assms(1) by (simp add: iter_order_def)
  ultimately show ?thesis by (auto simp: LintRecipeDAG_def split: option.split)
qed

section \<open>Execution ends\<close>

lemma acyclic_descends:
  assumes "acyclic E" "(u, v) \<in> E" "finite (E\<^sup>+ `` {u})"
  shows "card (E\<^sup>+ `` {v}) < card (E\<^sup>+ `` {u})"
proof (rule psubset_card_mono[OF assms(3)])
  have "v \<in> E\<^sup>+ `` {u}" "v \<notin> E\<^sup>+ `` {v}" using assms(1,2) by (auto simp: acyclic_def)
  moreover have "E\<^sup>+ `` {v} \<subseteq> E\<^sup>+ `` {u}" using assms(2) by (auto intro: trancl_into_trancl2)
  ultimately show "E\<^sup>+ `` {v} \<subset> E\<^sup>+ `` {u}" by blast
qed

lemma recipe_loop_returns:
  assumes "acyclic (edges (recipe_succs dag))"
  shows "card ((edges (recipe_succs dag))\<^sup>+ `` {cur}) < n \<Longrightarrow>
    \<exists>w' ex err. recipe_loop n hs comps dag cur executed w = Some (w', ex, err) \<and> length ex \<le> length executed + n"
proof (induction n arbitrary: cur executed w)
  case (Suc n)
  have "(edges (recipe_succs dag))\<^sup>+ `` {u} \<subseteq> recipe_nodes dag" for u
    by (auto simp: recipe_nodes_def edges_def dest!: tranclD2 recipe_succs_entry)
  then have fin: "finite ((edges (recipe_succs dag))\<^sup>+ `` {u})" for u
    by (rule finite_subset) (simp add: recipe_nodes_def)
  obtain w' e where r: "run_step hs w (step_at dag cur) = (w', e)" by fastforce
  show ?case
  proof (cases "cur \<noteq> [] \<and> e = None \<and> rs_Next (step_at dag cur) \<noteq> []")
    case True
    then obtain nx rest where nx: "rs_Next (step_at dag cur) = nx # rest" by (meson neq_Nil_conv)
    then have "(cur, nx) \<in> edges (recipe_succs dag)" by (simp add: edges_def recipe_succs_step_at)
    from acyclic_descends[OF assms this fin] Suc.prems
    have "card ((edges (recipe_succs dag))\<^sup>+ `` {nx}) < n" by simp
    from Suc.IH[OF this, of "executed @ [step_at dag cur]" w'] True r nx show ?thesis
      by (auto simp: recipe_loop.simps[of "Suc n"] Let_def)
  next
    case False
    with r show ?thesis by (auto simp: recipe_loop.simps[of "Suc n"] Let_def split: option.split list.split)
  qed
qed simp

lemma Execute_returns:
  assumes "iter_order (rd_Steps dag) o1" "iter_order (rd_Steps dag) o2"
  shows "\<exists>w' ex err. Execute (length (rd_Steps dag)) o1 o2 hs comps dag w = Some (w', ex, err) \<and> length ex \<le> length (rd_Steps dag)"
proof (cases "LintRecipeDAG o1 o2 dag")
  case Nil
  then have l: "rd_Steps dag \<noteq> []" "rs_ID (step_at dag (rd_Start dag)) \<noteq> []"
      "\<forall>i\<in>fst ` set (rd_Steps dag). step_findings dag i = []" "acyclic (edges (recipe_succs dag))"
    using LintRecipeDAG_Nil[OF assms] by auto
  let ?E = "edges (recipe_succs dag)" and ?K = "fst ` set (rd_Steps dag)"
  have start: "rd_Start dag \<in> ?K"
    using l(2) by (cases "map_of (rd_Steps dag) (rd_Start dag)")
      (force simp: step_at_def zero_step_def dest: map_of_SomeD)+
  have "?E\<^sup>+ `` {rd_Start dag} \<subseteq> ?K - {rd_Start dag}"
  proof
    fix v
    assume v: "v \<in> ?E\<^sup>+ `` {rd_Start dag}"
    then obtain u where "v \<in> set (recipe_succs dag u)" by (auto simp: edges_def dest: tranclD2)
    moreover from recipe_succs_entry[OF this] have "u \<in> ?K" by force
    ultimately have "map_of (rd_Steps dag) v \<noteq> None"
      using l(3) by (auto simp: step_findings_Nil recipe_succs_step_at)
    then have "v \<in> ?K" by (force dest: map_of_SomeD)
    with v l(4) show "v \<in> ?K - {rd_Start dag}" by (auto simp: acyclic_def)
  qed
  then have "card (?E\<^sup>+ `` {rd_Start dag}) \<le> card (?K - {rd_Start dag})" by (rule card_mono[rotated]) simp
  also have "\<dots> < card ?K" using start by (intro card_Diff1_less) simp_all
  also have "\<dots> \<le> length (rd_Steps dag)" by (metis card_image_le card_length finite_set le_trans)
  finally have "card (?E\<^sup>+ `` {rd_Start dag}) < length (rd_Steps dag)" .
  from recipe_loop_returns[OF l(4) this, of hs comps "[]" w] Nil show ?thesis by (simp add: Execute_def)
qed (simp add: Execute_def)

lemma ShouldRun_once:
  "e \<in> set existing \<Longrightarrow> ex_IdempotencyKey e = key \<Longrightarrow> ex_Status e = ''completed'' \<Longrightarrow> \<not> ShouldRun existing key"
  by (auto simp: ShouldRun_def list_ex_iff)

section \<open>Property\<close>

text \<open>
  C28: recipe execution always ends. Whatever the handlers do, \<open>Execute\<close> returns after running
  at most as many steps as the recipe has: the linter rejects every graph whose walk would not end.
\<close>

theorem recipe_execution_ends:
  assumes "iter_order (rd_Steps dag) o1" "iter_order (rd_Steps dag) o2"
  shows "\<exists>w' executed err. Execute (length (rd_Steps dag)) o1 o2 hs comps dag w = Some (w', executed, err) \<and>
    length executed \<le> length (rd_Steps dag)"
  using assms by (rule Execute_returns)

definition sample_recipe :: RecipeDAG where
  "sample_recipe = \<lparr>rd_ID = ''r'', rd_Name = ''release'',
     rd_Steps = [(''build'', zero_step\<lparr>rs_ID := ''build'', rs_Actor := ''ci'', rs_Capability := ''go'', rs_Next := [''ship'']\<rparr>),
       (''ship'', zero_step\<lparr>rs_ID := ''ship'', rs_Actor := ''ci'', rs_RetryLimit := 2\<rparr>)], rd_Start = ''build''\<rparr>"

theorem recipe_execution_ends_witness:
  "\<exists>w' executed err. Execute 2 [''build'', ''ship''] [''ship'', ''build'']
     (\<lambda>c. if c = ''go'' then Some (\<lambda>w s. (w + 1, None)) else None) (\<lambda>c. None) sample_recipe (0 :: int) = Some (w', executed, err) \<and>
     length executed \<le> 2"
proof -
  have "iter_order (rd_Steps sample_recipe) [''build'', ''ship'']" "iter_order (rd_Steps sample_recipe) [''ship'', ''build'']"
    by (auto simp: sample_recipe_def iter_order_def)
  from recipe_execution_ends[OF this, of "\<lambda>c. if c = ''go'' then Some (\<lambda>w s. (w + 1, None)) else None" "\<lambda>c. None" "0 :: int"]
  show ?thesis by (simp add: sample_recipe_def numeral_2_eq_2)
qed

end
