(* ===== verification/DocOrder.thy ===== *)
theory DocOrder
  imports GoStrings
begin

text \<open>
  \<open>internal/harness/doccompile/doccompile.go\<close>: the build graph of the documentation compiler.
  \<open>Order\<close> is Kahn's algorithm with a queue that is sorted again after every step; \<open>ord\<close>
  stands for the orders in which Go ranges over the node map (one per loop, and one per round
  of the main loop). It is shown to refine \<open>least_first\<close>, which repeats "take the
  alphabetically least node all of whose inputs are done", so that the order of the build
  does not depend on the iteration order. \<open>Write\<close> is the compare-and-swap writer.
\<close>

section \<open>The compiler\<close>

record DocNode =
  nd_ID :: string
  nd_Inputs :: "string list"
  nd_Content :: string

type_synonym doc_nodes = "(string, DocNode) gomap"

text \<open>\<open>c.Nodes[n.ID] = n\<close>: the entry is replaced in place or added.\<close>

fun put_node :: "DocNode \<Rightarrow> doc_nodes \<Rightarrow> doc_nodes" where
  "put_node n [] = [(nd_ID n, n)]"
| "put_node n ((k, m) # N) = (if k = nd_ID n then (k, n) # N else (k, m) # put_node n N)"

definition node_inputs :: "doc_nodes \<Rightarrow> string \<Rightarrow> string list" where
  "node_inputs N v = (case map_of N v of None \<Rightarrow> [] | Some n \<Rightarrow> nd_Inputs n)"

text \<open>The first unknown input in the order of iteration, as the loop that counts the inputs finds it.\<close>

fun unknown_dep :: "doc_nodes \<Rightarrow> string list \<Rightarrow> string option" where
  "unknown_dep N [] = None"
| "unknown_dep N (k # ks) =
     (case map_of N k of
        None \<Rightarrow> unknown_dep N ks
      | Some n \<Rightarrow>
          (case find (\<lambda>d. map_of N d = None) (nd_Inputs n) of
             Some d \<Rightarrow> Some (''unknown dep '' @ d @ '' of '' @ nd_ID n)
           | None \<Rightarrow> unknown_dep N ks))"

definition indegrees :: "doc_nodes \<Rightarrow> string \<Rightarrow> int" where
  "indegrees N v = sum_list (map (\<lambda>e. if nd_ID (snd e) = v then int (length (nd_Inputs (snd e))) else 0) N)"

text \<open>One finished node: the counts of its users go down, and those that reach zero join the queue.\<close>

fun settle_deps :: "string \<Rightarrow> string \<Rightarrow> string list \<Rightarrow> (string \<Rightarrow> int) \<times> string list \<Rightarrow> (string \<Rightarrow> int) \<times> string list" where
  "settle_deps i nid [] st = st"
| "settle_deps i nid (d # ds) (indeg, queue) =
     (if d = i then
        settle_deps i nid ds (indeg(nid := indeg nid - 1), if indeg nid - 1 = 0 then queue @ [nid] else queue)
      else settle_deps i nid ds (indeg, queue))"

fun settle :: "doc_nodes \<Rightarrow> string \<Rightarrow> string list \<Rightarrow> (string \<Rightarrow> int) \<times> string list \<Rightarrow> (string \<Rightarrow> int) \<times> string list" where
  "settle N i [] st = st"
| "settle N i (nid # nids) st = settle N i nids (settle_deps i nid (node_inputs N nid) st)"

text \<open>The nodes still waiting for an input: what makes the main loop end.\<close>

definition waiting :: "doc_nodes \<Rightarrow> (string \<Rightarrow> int) \<Rightarrow> string set" where
  "waiting N indeg = {v \<in> fst ` set N. 0 < indeg v}"

lemma finite_waiting [simp]: "finite (waiting N indeg)"
  by (simp add: waiting_def)

lemma settle_deps_measure:
  "settle_deps i nid ds (indeg, queue) = (indeg', queue') \<Longrightarrow> nid \<in> fst ` set N \<Longrightarrow>
     length queue' + card (waiting N indeg') \<le> length queue + card (waiting N indeg)"
proof (induction ds arbitrary: indeg queue)
  case (Cons d ds)
  let ?indeg = "indeg(nid := indeg nid - 1)"
  have sub: "waiting N ?indeg \<subseteq> waiting N indeg" by (auto simp: waiting_def split: if_splits)
  then have le: "card (waiting N ?indeg) \<le> card (waiting N indeg)" by (simp add: card_mono)
  moreover have "indeg nid - 1 = 0 \<Longrightarrow> card (waiting N ?indeg) < card (waiting N indeg)"
    using sub Cons.prems(2) by (intro psubset_card_mono) (auto simp: waiting_def)
  ultimately have *: "length (if indeg nid - 1 = 0 then queue @ [nid] else queue) + card (waiting N ?indeg)
      \<le> length queue + card (waiting N indeg)" by (cases "indeg nid = 1") (simp_all add: Suc_leI)
  show ?case
  proof (cases "d = i")
    case True
    with Cons.prems(1) have "settle_deps i nid ds (?indeg, if indeg nid - 1 = 0 then queue @ [nid] else queue) = (indeg', queue')"
      by simp
    from Cons.IH[OF this Cons.prems(2)] * show ?thesis by linarith
  qed (use Cons in simp)
qed simp

lemma settle_measure:
  "settle N i nids (indeg, queue) = (indeg', queue') \<Longrightarrow>
     length queue' + card (waiting N indeg') \<le> length queue + card (waiting N indeg)"
proof (induction nids arbitrary: indeg queue)
  case (Cons nid nids)
  obtain d1 q1 where 1: "settle_deps i nid (node_inputs N nid) (indeg, queue) = (d1, q1)" by fastforce
  have "length q1 + card (waiting N d1) \<le> length queue + card (waiting N indeg)"
  proof (cases "nid \<in> fst ` set N")
    case False
    then have "node_inputs N nid = []" by (simp add: node_inputs_def map_of_eq_None_iff[THEN iffD2])
    with 1 show ?thesis by simp
  qed (rule settle_deps_measure[OF 1])
  with Cons.IH[of d1 q1] Cons.prems 1 show ?case by simp
qed simp

function order_loop :: "doc_nodes \<Rightarrow> (nat \<Rightarrow> string list) \<Rightarrow> nat \<Rightarrow> string list \<Rightarrow> (string \<Rightarrow> int) \<Rightarrow> string list \<Rightarrow> string list" where
  "order_loop N ord k [] indeg out = out"
| "order_loop N ord k (i # queue) indeg out =
     order_loop N ord (Suc k) (sort (snd (settle N i (ord k) (indeg, queue))))
       (fst (settle N i (ord k) (indeg, queue))) (out @ [i])"
  by pat_completeness auto
termination
proof (relation "measure (\<lambda>(N, ord, k, queue, indeg, out). length queue + card (waiting N indeg))", goal_cases)
  case (2 N ord k i queue indeg out)
  from settle_measure[of N i "ord k" indeg queue "fst (settle N i (ord k) (indeg, queue))"
      "snd (settle N i (ord k) (indeg, queue))"]
  show ?case by simp
qed simp

text \<open>
  \<open>Order\<close>. The counts are read with default 0: an entry made for an identifier that is no
  key of the map is positive and never decremented, so it never joins the queue.
\<close>

definition Order :: "string list \<Rightarrow> string list \<Rightarrow> (nat \<Rightarrow> string list) \<Rightarrow> doc_nodes \<Rightarrow> (string, string list) outcome" where
  "Order o1 o2 ord N =
     (case unknown_dep N o1 of
        Some e \<Rightarrow> Inl e
      | None \<Rightarrow>
          let indeg = indegrees N;
              out = order_loop N ord 0 (sort (filter (\<lambda>v. indeg v = 0) o2)) indeg [] in
          if length out \<noteq> length N then Inl ''dependency cycle detected'' else Inr out)"

definition Render :: "string list \<Rightarrow> string list \<Rightarrow> (nat \<Rightarrow> string list) \<Rightarrow> doc_nodes \<Rightarrow> (string, string \<times> string list) outcome" where
  "Render o1 o2 ord N =
     (case Order o1 o2 ord N of
        Inl e \<Rightarrow> Inl e
      | Inr order \<Rightarrow>
          Inr (concat (map (\<lambda>i. (case map_of N i of None \<Rightarrow> [] | Some n \<Rightarrow> nd_Content n) @ ''\<newline>'') order), order))"

section \<open>The reference order\<close>

text \<open>The nodes that can be built next, in alphabetical order; the reference always takes the first.\<close>

definition ready_nodes :: "doc_nodes \<Rightarrow> string list \<Rightarrow> string list" where
  "ready_nodes N out = sort (filter (\<lambda>v. v \<notin> set out \<and> set (node_inputs N v) \<subseteq> set out) (map fst N))"

fun least_first :: "nat \<Rightarrow> doc_nodes \<Rightarrow> string list \<Rightarrow> string list" where
  "least_first 0 N out = out"
| "least_first (Suc n) N out =
     (case ready_nodes N out of [] \<Rightarrow> out | v # _ \<Rightarrow> least_first n N (out @ [v]))"

text \<open>Every node of the list comes after its inputs.\<close>

definition built_in_order :: "doc_nodes \<Rightarrow> string list \<Rightarrow> bool" where
  "built_in_order N out \<longleftrightarrow>
     distinct out \<and> set out \<subseteq> fst ` set N \<and> (\<forall>as v bs. out = as @ v # bs \<longrightarrow> set (node_inputs N v) \<subseteq> set as)"

lemma set_ready_nodes:
  "set (ready_nodes N out) = {v \<in> fst ` set N. v \<notin> set out \<and> set (node_inputs N v) \<subseteq> set out}"
  by (auto simp: ready_nodes_def)

lemma distinct_ready_nodes: "gomap_ok N \<Longrightarrow> distinct (ready_nodes N out)"
  by (simp add: ready_nodes_def gomap_ok_def)

lemma built_in_order_Nil [simp]: "built_in_order N []"
  by (simp add: built_in_order_def)

lemma built_in_order_snoc:
  "built_in_order N out \<Longrightarrow> v \<in> set (ready_nodes N out) \<Longrightarrow> built_in_order N (out @ [v])"
  by (auto simp: built_in_order_def set_ready_nodes append_eq_append_conv2 append_eq_Cons_conv Cons_eq_append_conv)

lemma built_in_order_before: "built_in_order N (as @ v # bs) \<Longrightarrow> set (node_inputs N v) \<subseteq> set as"
  unfolding built_in_order_def by blast

lemma built_in_order_closed: "built_in_order N out \<Longrightarrow> v \<in> set out \<Longrightarrow> set (node_inputs N v) \<subseteq> set out"
  unfolding built_in_order_def by (metis UnI1 set_append split_list subsetI subset_eq)

lemma built_in_order_Cons: "built_in_order N out \<Longrightarrow> ready_nodes N out = v # vs \<Longrightarrow> built_in_order N (out @ [v])"
  by (rule built_in_order_snoc) auto

lemma built_in_order_length:
  assumes "built_in_order N out" "gomap_ok N"
  shows "length out \<le> length N" "length out = length N \<Longrightarrow> set out = fst ` set N"
proof -
  from assms have l: "length out = card (set out)" "length N = card (fst ` set N)"
    by (simp_all add: built_in_order_def gomap_ok_def distinct_card) (metis distinct_card length_map set_map)
  from assms have sub: "set out \<subseteq> fst ` set N" by (simp add: built_in_order_def)
  with l show "length out \<le> length N" by (simp add: card_mono)
  from l sub show "length out = length N \<Longrightarrow> set out = fst ` set N"
    by (metis List.finite_set card_subset_eq finite_imageI)
qed

lemma least_first_built:
  "built_in_order N out \<Longrightarrow> built_in_order N (least_first n N out)"
  by (induction n N out rule: least_first.induct) (auto split: list.split dest: built_in_order_Cons)

lemma least_first_stuck:
  assumes "built_in_order N out" "gomap_ok N" "length N \<le> length out + n"
  shows "ready_nodes N (least_first n N out) = []"
  using assms
proof (induction n N out rule: least_first.induct)
  case (1 N out)
  with built_in_order_length(1)[OF 1(1,2)] built_in_order_length(2)[OF 1(1,2)]
  have "set out = fst ` set N" by simp
  then have "set (ready_nodes N out) = {}" by (auto simp: set_ready_nodes)
  then show ?case by simp
next
  case (2 n N out)
  then show ?case by (auto split: list.split dest: built_in_order_Cons)
qed

text \<open>The edges from an input to its user; the reference order is complete just when they are acyclic.\<close>

definition input_edges :: "doc_nodes \<Rightarrow> (string \<times> string) set" where
  "input_edges N = {(d, v). d \<in> set (node_inputs N v)}"

definition deps_known :: "doc_nodes \<Rightarrow> bool" where
  "deps_known N \<longleftrightarrow> (\<forall>v. set (node_inputs N v) \<subseteq> fst ` set N)"

lemma node_inputs_key: "d \<in> set (node_inputs N v) \<Longrightarrow> v \<in> fst ` set N"
  by (cases "map_of N v") (force simp: node_inputs_def dest: map_of_SomeD)+

lemma finite_input_edges: "finite (input_edges N)"
proof (rule finite_subset)
  show "input_edges N \<subseteq> (\<Union>v\<in>fst ` set N. set (node_inputs N v)) \<times> fst ` set N"
    by (auto simp: input_edges_def dest: node_inputs_key)
qed auto

lemma built_all_acyclic:
  assumes "built_in_order N out" "set out = fst ` set N"
  shows "acyclic (input_edges N)"
proof -
  define pos where "pos v = length (takeWhile (\<lambda>x. x \<noteq> v) out)" for v
  have "input_edges N \<subseteq> measure pos"
  proof
    fix e assume e: "e \<in> input_edges N"
    obtain d v where dv: "e = (d, v)" "d \<in> set (node_inputs N v)" using e by (auto simp: input_edges_def)
    then have "v \<in> set out" using assms(2) node_inputs_key by metis
    then obtain as bs where o: "out = as @ v # bs" "v \<notin> set as" by (meson split_list_first)
    with built_in_order_before[of N as v bs] assms(1) dv have d: "d \<in> set as" by auto
    have "\<And>x. x \<in> set as \<Longrightarrow> x \<noteq> v" using o(2) by blast
    then have "pos v = length as" unfolding pos_def o(1) by (subst takeWhile_append2) auto
    moreover have "pos d < length as"
      unfolding pos_def o(1) takeWhile_append1[OF d, of "\<lambda>x. x \<noteq> d", simplified]
      using d by (induction as) auto
    ultimately show "e \<in> measure pos" using dv by simp
  qed
  then show ?thesis by (meson acyclic_subset wf_acyclic wf_measure)
qed

lemma stuck_acyclic_all:
  assumes "built_in_order N out" "ready_nodes N out = []" "acyclic (input_edges N)" "deps_known N"
  shows "set out = fst ` set N"
proof (rule ccontr)
  assume ne: "set out \<noteq> fst ` set N"
  moreover have "set out \<subseteq> fst ` set N" using assms(1) by (simp add: built_in_order_def)
  ultimately obtain v where "v \<in> fst ` set N - set out" by blast
  with finite_acyclic_wf[OF finite_input_edges assms(3)] obtain z where
    z: "z \<in> fst ` set N - set out" "\<And>y. (y, z) \<in> input_edges N \<Longrightarrow> y \<notin> fst ` set N - set out"
    by (meson wfE_min)
  with assms(4) have "set (node_inputs N z) \<subseteq> set out" by (auto simp: input_edges_def deps_known_def)
  with z(1) have "z \<in> set (ready_nodes N out)" by (auto simp: set_ready_nodes)
  with assms(2) show False by simp
qed

lemma least_first_complete:
  assumes "gomap_ok N" "deps_known N"
  shows "length (least_first (length N) N []) = length N \<longleftrightarrow> acyclic (input_edges N)"
proof -
  let ?out = "least_first (length N) N []"
  have b: "built_in_order N ?out" by (rule least_first_built) simp
  have s: "ready_nodes N ?out = []" by (rule least_first_stuck) (simp_all add: assms(1))
  have "length ?out = length N \<longleftrightarrow> set ?out = fst ` set N"
    using built_in_order_length(2)[OF b assms(1)] b assms(1)
    by (auto simp: built_in_order_def gomap_ok_def) (metis distinct_card length_map set_map)
  then show ?thesis using built_all_acyclic[OF b] stuck_acyclic_all[OF b s _ assms(2)] by blast
qed


section \<open>The queue refines the reference\<close>

lemma settle_deps_effect:
  "int (count_list ds i) \<le> indeg nid \<Longrightarrow>
     settle_deps i nid ds (indeg, queue) =
       (indeg(nid := indeg nid - int (count_list ds i)),
        queue @ (if 0 < count_list ds i \<and> indeg nid = int (count_list ds i) then [nid] else []))"
proof (induction ds arbitrary: indeg queue)
  case (Cons d ds)
  show ?case
  proof (cases "d = i")
    case True
    have "int (count_list ds i) \<le> (indeg(nid := indeg nid - 1)) nid" using Cons.prems True by simp
    note ih = Cons.IH[of "indeg(nid := indeg nid - 1)", OF this]
    show ?thesis using True Cons.prems unfolding settle_deps.simps ih by (auto simp: fun_eq_iff)
  qed (use Cons in simp)
qed simp

lemma settle_effect:
  "distinct nids \<Longrightarrow> (\<And>v. v \<in> set nids \<Longrightarrow> int (count_list (node_inputs N v) i) \<le> indeg v) \<Longrightarrow>
     settle N i nids (indeg, queue) =
       ((\<lambda>v. if v \<in> set nids then indeg v - int (count_list (node_inputs N v) i) else indeg v),
        queue @ filter (\<lambda>v. 0 < count_list (node_inputs N v) i \<and> indeg v = int (count_list (node_inputs N v) i)) nids)"
proof (induction nids arbitrary: indeg queue)
  case (Cons n nids)
  let ?c = "\<lambda>v. int (count_list (node_inputs N v) i)"
  let ?p = "\<lambda>f v. 0 < count_list (node_inputs N v) i \<and> f v = ?c v"
  define d1 where "d1 = indeg(n := indeg n - ?c n)"
  have n: "?c n \<le> indeg n" "n \<notin> set nids" "distinct nids" using Cons.prems by auto
  have ih: "settle N i nids (d1, q) = ((\<lambda>v. if v \<in> set nids then d1 v - ?c v else d1 v), q @ filter (?p d1) nids)" for q
    by (rule Cons.IH[OF n(3)]) (use Cons.prems n(2) in \<open>auto simp: d1_def\<close>)
  have f: "filter (?p d1) nids = filter (?p indeg) nids"
    using n(2) by (intro filter_cong) (auto simp: d1_def)
  have "settle N i (n # nids) (indeg, queue) = settle N i nids (d1, queue @ (if ?p indeg n then [n] else []))"
    by (simp only: settle.simps settle_deps_effect[of "node_inputs N n" i indeg n, OF n(1)] d1_def)
  also have "\<dots> = ((\<lambda>v. if v \<in> set (n # nids) then indeg v - ?c v else indeg v), queue @ filter (?p indeg) (n # nids))"
    unfolding ih f using n(2) by (auto simp: d1_def fun_eq_iff)
  finally show ?case .
qed (simp add: fun_eq_iff)

text \<open>
  The concrete state against the abstract one: the queue is the sorted list of the ready
  nodes, the count of a node is the number of its inputs still to be built.
\<close>

definition order_rel :: "doc_nodes \<Rightarrow> string list \<Rightarrow> (string \<Rightarrow> int) \<Rightarrow> string list \<Rightarrow> bool" where
  "order_rel N queue indeg out \<longleftrightarrow>
     queue = ready_nodes N out \<and> built_in_order N out \<and>
     (\<forall>v\<in>fst ` set N. indeg v = int (length (filter (\<lambda>d. d \<notin> set out) (node_inputs N v))))"

lemma count_filter_split:
  "i \<notin> set out \<Longrightarrow> length (filter (\<lambda>d. d \<notin> set out) ds) =
     count_list ds i + length (filter (\<lambda>d. d \<notin> set (out @ [i])) ds)"
  by (induction ds) auto

lemma sorted_list_eq:
  "distinct xs \<Longrightarrow> distinct ys \<Longrightarrow> set xs = set ys \<Longrightarrow> sort xs = (sort ys :: string list)"
  by (metis distinct_sort set_sort sorted_distinct_set_unique sorted_sort)

lemma order_rel_step:
  assumes r: "order_rel N (i # queue) indeg out" and N: "gomap_ok N" and o: "iter_order N ks"
  shows "order_rel N (sort (snd (settle N i ks (indeg, queue)))) (fst (settle N i ks (indeg, queue))) (out @ [i])"
proof -
  let ?c = "\<lambda>v. count_list (node_inputs N v) i"
  let ?left = "\<lambda>out v. length (filter (\<lambda>d. d \<notin> set out) (node_inputs N v))"
  have q: "i # queue = ready_nodes N out" and b: "built_in_order N out"
    and d: "\<And>v. v \<in> fst ` set N \<Longrightarrow> indeg v = int (?left out v)" using r by (auto simp: order_rel_def)
  have i: "i \<in> fst ` set N" "i \<notin> set out" "set (node_inputs N i) \<subseteq> set out"
    using set_ready_nodes[of N out] by (auto simp flip: q)
  have left: "?left out v = ?c v + ?left (out @ [i]) v" for v by (rule count_filter_split[OF i(2)])
  have ks: "distinct ks" "set ks = fst ` set N" using o by (auto simp: iter_order_def)
  have eff: "settle N i ks (indeg, queue) =
      ((\<lambda>v. if v \<in> set ks then indeg v - int (?c v) else indeg v), queue @ filter (\<lambda>v. 0 < ?c v \<and> indeg v = int (?c v)) ks)"
    by (rule settle_effect) (use ks d left in auto)
  have cz: "?c v = 0" if "set (node_inputs N v) \<subseteq> set out" for v
    using that i(2) by (auto simp: count_list_0_iff)
  have zero: "?left (out @ [i]) v = 0 \<longleftrightarrow> set (node_inputs N v) \<subseteq> set (out @ [i])" for v
    by (auto simp: filter_empty_conv)
  have dq: "distinct (i # queue)" using distinct_ready_nodes[OF N] q by metis
  have mem: "v \<in> set queue \<longleftrightarrow> v \<in> fst ` set N \<and> v \<noteq> i \<and> v \<notin> set out \<and> set (node_inputs N v) \<subseteq> set out" for v
    using set_ready_nodes[of N out] dq by (auto simp flip: q)
  have "sort (queue @ filter (\<lambda>v. 0 < ?c v \<and> indeg v = int (?c v)) ks) = ready_nodes N (out @ [i])"
    unfolding ready_nodes_def
  proof (rule sorted_list_eq)
    show "distinct (queue @ filter (\<lambda>v. 0 < ?c v \<and> indeg v = int (?c v)) ks)"
      using dq ks mem cz by auto
    show "distinct (filter (\<lambda>v. v \<notin> set (out @ [i]) \<and> set (node_inputs N v) \<subseteq> set (out @ [i])) (map fst N))"
      using N by (simp add: gomap_ok_def)
    have "v \<in> set queue \<or> (v \<in> fst ` set N \<and> 0 < ?c v \<and> indeg v = int (?c v)) \<longleftrightarrow>
        v \<in> fst ` set N \<and> v \<notin> set (out @ [i]) \<and> set (node_inputs N v) \<subseteq> set (out @ [i])" for v
    proof (cases "v \<in> fst ` set N")
      case True
      then have "indeg v = int (?c v) \<longleftrightarrow> set (node_inputs N v) \<subseteq> set (out @ [i])"
        using d left[of v] zero[of v] by simp
      moreover have "0 < ?c v \<longleftrightarrow> i \<in> set (node_inputs N v)"
        using count_list_0_iff[of "node_inputs N v" i] by (metis neq0_conv)
      moreover have "v \<in> set out \<or> v = i \<Longrightarrow> i \<notin> set (node_inputs N v)"
        using built_in_order_closed[OF b] i by auto
      ultimately show ?thesis using mem True by auto
    qed (use mem in auto)
    then show "set (queue @ filter (\<lambda>v. 0 < ?c v \<and> indeg v = int (?c v)) ks) =
        set (filter (\<lambda>v. v \<notin> set (out @ [i]) \<and> set (node_inputs N v) \<subseteq> set (out @ [i])) (map fst N))"
      using ks(2) by auto
  qed
  moreover have "built_in_order N (out @ [i])" using built_in_order_Cons[OF b q[symmetric]] .
  moreover have "\<forall>v\<in>fst ` set N. (if v \<in> set ks then indeg v - int (?c v) else indeg v) = int (?left (out @ [i]) v)"
    using ks(2) d left by auto
  ultimately show ?thesis unfolding order_rel_def eff by simp
qed

lemma order_loop_refines:
  "order_rel N queue indeg out \<Longrightarrow> gomap_ok N \<Longrightarrow> (\<And>k. iter_order N (ord k)) \<Longrightarrow> length N \<le> length out + n
   \<Longrightarrow> order_loop N ord k queue indeg out = least_first n N out"
proof (induction N ord k queue indeg out arbitrary: n rule: order_loop.induct)
  case (1 N ord k indeg out)
  then have "ready_nodes N out = []" by (simp add: order_rel_def)
  then show ?case by (cases n) simp_all
next
  case (2 N ord k i queue indeg out)
  have b: "built_in_order N (out @ [i])" and q: "ready_nodes N out = i # queue"
    using 2(2) order_rel_step[OF 2(2,3) 2(4)[of k]] by (simp_all add: order_rel_def)
  from built_in_order_length(1)[OF b 2(3)] 2(5) obtain m where n: "n = Suc m" by (cases n) auto
  have "order_loop N ord (Suc k) (sort (snd (settle N i (ord k) (indeg, queue))))
       (fst (settle N i (ord k) (indeg, queue))) (out @ [i]) = least_first m N (out @ [i])"
    by (rule 2(1)[OF order_rel_step[OF 2(2,3) 2(4)[of k]] 2(3,4)]) (use 2(5) n in simp)
  with q n show ?case by simp
qed


section \<open>Order on any compiler\<close>

text \<open>\<open>Add\<close> files every node under its own identifier, once.\<close>

definition well_named :: "doc_nodes \<Rightarrow> bool" where
  "well_named N \<longleftrightarrow> gomap_ok N \<and> (\<forall>e\<in>set N. nd_ID (snd e) = fst e)"

lemma put_node_keys: "fst ` set (put_node n N) = insert (nd_ID n) (fst ` set N)"
  by (induction n N rule: put_node.induct) auto

lemma put_node_named [inv_intros]: "well_named N \<Longrightarrow> well_named (put_node n N)"
proof (induction n N rule: put_node.induct)
  case (2 n k m N)
  then have "well_named N" by (simp add: well_named_def gomap_ok_def)
  with 2 have "well_named (put_node n N)" if "k \<noteq> nd_ID n" using that by simp
  show ?case
  proof (cases "k = nd_ID n")
    case True
    with 2(2) show ?thesis by (auto simp: well_named_def gomap_ok_def)
  next
    case False
    with 2(2) \<open>k \<noteq> nd_ID n \<Longrightarrow> _\<close> put_node_keys[of n N] show ?thesis by (simp add: well_named_def gomap_ok_def)
  qed
qed (simp add: well_named_def gomap_ok_def)

lemma well_named_Nil [inv_intros]: "well_named []"
  by (simp add: well_named_def gomap_ok_def)

lemma well_named_compiler [inv_intros]: "well_named N \<Longrightarrow> well_named (fold put_node ns N)"
  by (induction ns arbitrary: N) (auto intro: inv_intros)

lemma map_of_put_node: "map_of (put_node n N) = (map_of N)(nd_ID n \<mapsto> n)"
  by (induction n N rule: put_node.induct) (auto simp: fun_eq_iff)

lemma indegrees_named: "well_named N \<Longrightarrow> v \<in> fst ` set N \<Longrightarrow> indegrees N v = int (length (node_inputs N v))"
proof (induction N)
  case (Cons e N)
  have w: "well_named N" "nd_ID (snd e) = fst e" using Cons.prems(1) by (simp_all add: well_named_def gomap_ok_def)
  have none: "u \<notin> fst ` set M \<Longrightarrow> well_named M \<Longrightarrow> indegrees M u = 0" for u M
    by (induction M) (auto simp: indegrees_def well_named_def gomap_ok_def)
  show ?case
  proof (cases "v = fst e")
    case True
    with Cons.prems(1) have "v \<notin> fst ` set N" by (auto simp: well_named_def gomap_ok_def)
    with none[OF this w(1)] True w(2) show ?thesis by (cases e) (simp add: indegrees_def node_inputs_def)
  next
    case False
    with Cons w show ?thesis by (cases e) (auto simp: indegrees_def node_inputs_def)
  qed
qed simp

lemma unknown_dep_None:
  "iter_order N o1 \<Longrightarrow> unknown_dep N o1 = None \<longleftrightarrow> deps_known N"
proof -
  assume o: "iter_order N o1"
  have "unknown_dep N ks = None \<longleftrightarrow> (\<forall>v\<in>set ks. set (node_inputs N v) \<subseteq> fst ` set N)" for ks
  proof (induction ks)
    case (Cons k ks)
    show ?case
    proof (cases "map_of N k")
      case None
      with Cons show ?thesis by (simp add: node_inputs_def)
    next
      case (Some n)
      have "find (\<lambda>d. map_of N d = None) (nd_Inputs n) = None \<longleftrightarrow> set (nd_Inputs n) \<subseteq> fst ` set N"
        by (auto simp: find_None_iff map_of_eq_None_iff)
      with Cons Some show ?thesis
        by (cases "find (\<lambda>d. map_of N d = None) (nd_Inputs n)") (simp_all add: node_inputs_def)
    qed
  qed simp
  moreover have "v \<notin> set o1 \<Longrightarrow> node_inputs N v = []" for v
    using o by (auto simp: iter_order_def node_inputs_def map_of_eq_None_iff[THEN iffD2])
  ultimately show ?thesis unfolding deps_known_def by (metis empty_iff empty_set subsetI)
qed

lemma ready_initially:
  assumes "well_named N" "iter_order N o2"
  shows "order_rel N (sort (filter (\<lambda>v. indegrees N v = 0) o2)) (indegrees N) []"
proof -
  have o: "distinct o2" "set o2 = fst ` set N" using assms(2) by (auto simp: iter_order_def)
  have "set (filter (\<lambda>v. indegrees N v = 0) o2) = set (filter (\<lambda>v. v \<notin> set [] \<and> set (node_inputs N v) \<subseteq> set []) (map fst N))"
    using o(2) indegrees_named[OF assms(1)] by fastforce
  then have "sort (filter (\<lambda>v. indegrees N v = 0) o2) = ready_nodes N []"
    unfolding ready_nodes_def
    by (intro sorted_list_eq) (use o assms(1) in \<open>auto simp: well_named_def gomap_ok_def\<close>)
  then show ?thesis using indegrees_named[OF assms(1)] by (simp add: order_rel_def)
qed

lemma Order_refines:
  assumes "well_named N" "iter_order N o1" "iter_order N o2" "\<And>k. iter_order N (ord k)"
  shows "deps_known N \<Longrightarrow> Order o1 o2 ord N =
      (if acyclic (input_edges N) then Inr (least_first (length N) N []) else Inl ''dependency cycle detected'')"
    and "\<not> deps_known N \<Longrightarrow> \<exists>e. Order o1 o2 ord N = Inl e"
proof -
  have ok: "gomap_ok N" using assms(1) by (simp add: well_named_def)
  have loop: "order_loop N ord 0 (sort (filter (\<lambda>v. indegrees N v = 0) o2)) (indegrees N) [] = least_first (length N) N []"
    by (rule order_loop_refines[OF ready_initially[OF assms(1,3)] ok assms(4)]) simp
  show "deps_known N \<Longrightarrow> Order o1 o2 ord N =
      (if acyclic (input_edges N) then Inr (least_first (length N) N []) else Inl ''dependency cycle detected'')"
    using least_first_complete[OF ok] unknown_dep_None[OF assms(2)] by (simp add: Order_def Let_def loop)
  show "\<not> deps_known N \<Longrightarrow> \<exists>e. Order o1 o2 ord N = Inl e"
    using unknown_dep_None[OF assms(2)] by (cases "unknown_dep N o1") (auto simp: Order_def)
qed

section \<open>Writing artifacts\<close>

record Artifact =
  ar_Path :: string
  ar_Fingerprint :: string
  ar_Bytes :: nat
  ar_NoOp :: bool

text \<open>
  The disk is a map from paths to contents; what happens to a write is an argument: the
  directory cannot be made, the temporary file is left with some content, or the rename
  fails. \<open>hash\<close> is the hexadecimal SHA-256.
\<close>

datatype doc_io = DocWriteOk | MkdirFails string | TmpFails "string option" string | DocRenameFails string

definition doc_Write :: "(string \<Rightarrow> string) \<Rightarrow> doc_io \<Rightarrow> string \<Rightarrow> string \<Rightarrow> (string \<rightharpoonup> string)
    \<Rightarrow> (string \<rightharpoonup> string) \<times> (string, Artifact) outcome" where
  "doc_Write hash io path content disk =
     (let fp = hash content;
          artifact = \<lparr>ar_Path = path, ar_Fingerprint = fp, ar_Bytes = length content, ar_NoOp = False\<rparr> in
      if (case disk path of None \<Rightarrow> False | Some old \<Rightarrow> hash old = fp) then (disk, Inr (artifact\<lparr>ar_NoOp := True\<rparr>))
      else let tmp = path @ ''.tmp'' in
        (case io of
           MkdirFails e \<Rightarrow> (disk, Inl e)
         | TmpFails left e \<Rightarrow> ((case left of None \<Rightarrow> disk | Some c \<Rightarrow> disk(tmp \<mapsto> c)), Inl e)
         | DocRenameFails e \<Rightarrow> (disk(tmp \<mapsto> content), Inl e)
         | DocWriteOk \<Rightarrow> ((disk(tmp := None))(path \<mapsto> content), Inr artifact)))"

text \<open>Whatever fails, the artifact on disk is the old one or the new one, never a mixture.\<close>

lemma doc_Write_atomic:
  assumes "doc_Write hash io path content disk = (disk', r)"
    "\<And>old. disk path = Some old \<Longrightarrow> hash old = hash content \<Longrightarrow> old = content"
  shows "disk' path \<in> {disk path, Some content}" "is_ok r \<longrightarrow> disk' path = Some content"
    "q \<noteq> path \<Longrightarrow> q \<noteq> path @ ''.tmp'' \<Longrightarrow> disk' q = disk q"
  using assms by (auto simp: doc_Write_def Let_def split: if_splits doc_io.splits option.splits)

lemma doc_Write_again:
  "doc_Write hash io path content disk = (disk', Inr a) \<Longrightarrow>
     doc_Write hash io' path content disk' = (disk', Inr (a\<lparr>ar_NoOp := True\<rparr>))"
  by (auto simp: doc_Write_def Let_def split: if_splits doc_io.splits option.splits)

section \<open>Property\<close>

text \<open>\<open>New\<close> followed by \<open>Add\<close> of each node.\<close>

definition compiler_of :: "DocNode list \<Rightarrow> doc_nodes" where
  "compiler_of ns = fold put_node ns []"

text \<open>
  C29: the build order refines "always the alphabetically least ready node". On any compiler
  filled by \<open>Add\<close>, and in whatever orders Go ranges over the node map, \<open>Order\<close> returns that
  order if the inputs are known and acyclic, and an error otherwise; each node comes after
  its inputs, and every node is there.
\<close>

theorem build_order_is_canonical:
  assumes "iter_order (compiler_of ns) o1" "iter_order (compiler_of ns) o2" "\<forall>k. iter_order (compiler_of ns) (ord k)"
  shows "(if deps_known (compiler_of ns)
      then Order o1 o2 ord (compiler_of ns) =
        (if acyclic (input_edges (compiler_of ns)) then Inr (least_first (length (compiler_of ns)) (compiler_of ns) [])
         else Inl ''dependency cycle detected'')
      else \<not> is_ok (Order o1 o2 ord (compiler_of ns))) \<and>
    (\<forall>out. Order o1 o2 ord (compiler_of ns) = Inr out \<longrightarrow>
      built_in_order (compiler_of ns) out \<and> set out = nd_ID ` set ns)"
proof -
  let ?N = "compiler_of ns"
  have w: "well_named ?N" unfolding compiler_of_def by (intro inv_intros)
  have ok: "gomap_ok ?N" using w by (simp add: well_named_def)
  have ord: "\<And>k. iter_order ?N (ord k)" using assms(3) by blast
  have r1: "deps_known ?N \<Longrightarrow> Order o1 o2 ord ?N =
      (if acyclic (input_edges ?N) then Inr (least_first (length ?N) ?N []) else Inl ''dependency cycle detected'')"
    using Order_refines(1)[where N = ?N and ord = ord, OF w assms(1,2) ord] .
  have r2: "\<not> deps_known ?N \<Longrightarrow> \<not> is_ok (Order o1 o2 ord ?N)"
    using Order_refines(2)[where N = ?N and ord = ord, OF w assms(1,2) ord] by auto
  have keys: "fst ` set (fold put_node ns N) = nd_ID ` set ns \<union> fst ` set N" for N
    by (induction ns arbitrary: N) (auto simp: put_node_keys)
  have "built_in_order ?N out \<and> set out = nd_ID ` set ns" if o: "Order o1 o2 ord ?N = Inr out" for out
  proof -
    from o r2 have d: "deps_known ?N" by auto
    with r1 o have l: "out = least_first (length ?N) ?N []" "acyclic (input_edges ?N)" by (auto split: if_splits)
    have b: "built_in_order ?N out" unfolding l(1) by (rule least_first_built) simp
    have "set out = fst ` set ?N"
      using built_in_order_length(2)[OF b ok] least_first_complete[OF ok d] l by simp
    with b keys[of "[]"] show ?thesis by (simp add: compiler_of_def)
  qed
  with r1 r2 show ?thesis by simp
qed

definition sample_nodes :: "DocNode list" where
  "sample_nodes = [\<lparr>nd_ID = ''b'', nd_Inputs = [''a''], nd_Content = ''two''\<rparr>, \<lparr>nd_ID = ''a'', nd_Inputs = [], nd_Content = ''one''\<rparr>]"

theorem build_order_is_canonical_witness:
  "Order [''a'', ''b''] [''b'', ''a''] (\<lambda>k. [''b'', ''a'']) (compiler_of sample_nodes) = Inr [''a'', ''b''] \<and>
   built_in_order (compiler_of sample_nodes) [''a'', ''b'']"
proof -
  have "iter_order (compiler_of sample_nodes) [''a'', ''b'']" "iter_order (compiler_of sample_nodes) [''b'', ''a'']"
    by (auto simp: compiler_of_def sample_nodes_def iter_order_def)
  moreover have "Order [''a'', ''b''] [''b'', ''a''] (\<lambda>k. [''b'', ''a'']) (compiler_of sample_nodes) = Inr [''a'', ''b'']"
    by code_simp
  ultimately show ?thesis
    using build_order_is_canonical[of sample_nodes "[''a'', ''b'']" "[''b'', ''a'']" "\<lambda>k. [''b'', ''a'']"] by simp
qed

end
