(* ===== verification/DocRegions.thy ===== *)
theory DocRegions
  imports GoStrings
begin

text \<open>
  \<open>internal/harness/doccompile/regions.go\<close>, managed regions: a region of a document is what
  stands between its begin and end markers. \<open>ReplaceRegion\<close>, \<open>ExtractRegion\<close>,
  \<open>RemoveRegion\<close> and \<open>UpsertRegion\<close> work on the first begin marker and the first end
  marker after it. What is put into a region is what is read back, and nothing outside the
  markers changes.
\<close>

section \<open>Trimming newlines\<close>

abbreviation nl :: char where "nl \<equiv> CHR ''\<newline>''"

text \<open>\<open>strings.TrimRight(s, "\n")\<close> and \<open>strings.Trim(s, "\n")\<close>.\<close>

definition trim_right_newlines :: "string \<Rightarrow> string" where
  "trim_right_newlines s = rev (dropWhile (\<lambda>c. c = nl) (rev s))"

definition trim_newlines :: "string \<Rightarrow> string" where
  "trim_newlines s = trim_right_newlines (dropWhile (\<lambda>c. c = nl) s)"

section \<open>The operations\<close>

definition beginMarker :: "string \<Rightarrow> string" where
  "beginMarker i = ''<!-- prumo:begin '' @ i @ '' -->''"

definition endMarker :: "string \<Rightarrow> string" where
  "endMarker i = ''<!-- prumo:end '' @ i @ '' -->''"

definition not_found :: "string \<Rightarrow> string" where
  "not_found i = ''managed region '' @ quoted i @ '' not found''"

definition no_end :: "string \<Rightarrow> string" where
  "no_end i = ''managed region '' @ quoted i @ '' missing end marker''"

definition ReplaceRegion :: "string \<Rightarrow> string \<Rightarrow> string \<Rightarrow> (string, string) outcome" where
  "ReplaceRegion doc i body =
     (case index_of doc (beginMarker i) of
        None \<Rightarrow> Inl (not_found i)
      | Some bi \<Rightarrow>
          let p = take (bi + length (beginMarker i)) doc; rest = drop (bi + length (beginMarker i)) doc in
          (case index_of rest (endMarker i) of
             None \<Rightarrow> Inl (no_end i)
           | Some ei \<Rightarrow>
               Inr (p @ (if \<not> has_suffix p [nl] then [nl] else []) @ trim_newlines body @ [nl] @ drop ei rest)))"

definition ExtractRegion :: "string \<Rightarrow> string \<Rightarrow> (string, string) outcome" where
  "ExtractRegion doc i =
     (case index_of doc (beginMarker i) of
        None \<Rightarrow> Inl (not_found i)
      | Some bi \<Rightarrow>
          let rest = drop (bi + length (beginMarker i)) doc in
          (case index_of rest (endMarker i) of
             None \<Rightarrow> Inl (no_end i)
           | Some ei \<Rightarrow> Inr (trim_newlines (take ei rest))))"

definition RemoveRegion :: "string \<Rightarrow> string \<Rightarrow> (string, string) outcome" where
  "RemoveRegion doc i =
     (case index_of doc (beginMarker i) of
        None \<Rightarrow> Inr doc
      | Some bi \<Rightarrow>
          let rest = drop (bi + length (beginMarker i)) doc in
          (case index_of rest (endMarker i) of
             None \<Rightarrow> Inl (no_end i)
           | Some ei \<Rightarrow>
               let e0 = bi + length (beginMarker i) + ei + length (endMarker i);
                   e1 = (if e0 < length doc \<and> doc ! e0 = nl then e0 + 1 else e0);
                   e2 = (if 0 < bi \<and> doc ! (bi - 1) = nl \<and> e1 < length doc \<and> doc ! e1 = nl then e1 + 1 else e1) in
               Inr (trim_right_newlines (take bi doc @ drop e2 doc) @ [nl])))"

definition UpsertRegion :: "string \<Rightarrow> string \<Rightarrow> string \<Rightarrow> string" where
  "UpsertRegion doc i body =
     (let formatted = beginMarker i @ [nl] @ trim_space body @ [nl] @ endMarker i;
          trimmed = trim_space doc;
          append = (if trimmed = [] then formatted @ [nl] else trimmed @ [nl, nl] @ formatted @ [nl]) in
      if contains_str doc (beginMarker i)
      then (case ReplaceRegion doc i body of Inr res \<Rightarrow> res | Inl _ \<Rightarrow> append)
      else append)"

section \<open>Search\<close>

lemma index_of_common:
  "index_of (p @ x) m = Some i \<Longrightarrow> i + length m \<le> length p \<Longrightarrow> index_of (p @ y) m = Some i"
proof (induction p arbitrary: i)
  case Nil
  then show ?case by (cases y) auto
next
  case (Cons c p)
  show ?case
  proof (cases "prefix m (c # p @ x)")
    case True
    with Cons.prems have i: "i = 0" by simp
    have "prefix (c # p) (c # p @ x)" "length m \<le> length (c # p)" using Cons.prems(2) i by auto
    with True have "prefix m (c # p)" by (metis prefix_length_prefix)
    then have "prefix m (c # p @ y)" by (metis append_Cons prefix_prefix)
    with i show ?thesis by simp
  next
    case False
    with Cons.prems obtain j where j: "index_of (p @ x) m = Some j" "i = Suc j" by auto
    with Cons.prems(2) Cons.IH[OF j(1)] have "index_of (p @ y) m = Some j" by simp
    moreover have "\<not> prefix m (c # p @ y)"
    proof
      assume "prefix m (c # p @ y)"
      moreover have "length m \<le> length (c # p)" using Cons.prems(2) j(2) by simp
      ultimately have "prefix m (c # p)" by (metis append_Cons prefixI prefix_length_prefix)
      with False show False by (metis append_Cons prefix_prefix)
    qed
    ultimately show ?thesis using j(2) by simp
  qed
qed

lemma prefix_line: "d \<notin> set m \<Longrightarrow> prefix m (a @ d # b) \<longleftrightarrow> prefix m a"
proof (induction a arbitrary: m)
  case Nil
  then show ?case by (cases m) auto
next
  case (Cons x a)
  then show ?case by (cases m) auto
qed

text \<open>A marker has no newline, so a search for it goes line by line.\<close>

lemma index_of_line:
  "d \<notin> set m \<Longrightarrow> m \<noteq> [] \<Longrightarrow> index_of (a @ d # b) m =
     (case index_of a m of Some i \<Rightarrow> Some i | None \<Rightarrow> map_option (\<lambda>j. Suc (length a) + j) (index_of b m))"
proof (induction a)
  case Nil
  then have "\<not> prefix m (d # b)" by (cases m) auto
  with Nil show ?case by (cases "index_of b m") auto
next
  case (Cons c a)
  have "prefix m (c # a @ d # b) \<longleftrightarrow> prefix m (c # a)" using prefix_line[of d m "c # a" b] Cons.prems by simp
  with Cons show ?case by (cases "index_of a m"; cases "index_of b m") auto
qed

lemma index_of_start: "prefix m s \<Longrightarrow> index_of s m = Some 0"
  by (cases s) auto

lemma markers:
  "beginMarker i \<noteq> []" "endMarker i \<noteq> []" "nl \<notin> set i \<Longrightarrow> nl \<notin> set (beginMarker i)" "nl \<notin> set i \<Longrightarrow> nl \<notin> set (endMarker i)"
  by (simp_all add: beginMarker_def endMarker_def)

lemma begin_no_newline: "\<not> has_suffix (s @ beginMarker i) [nl]"
  by (auto simp: has_suffix_def suffix_def beginMarker_def)

section \<open>Trimmed text\<close>

lemma trim_right_newlines_last: "trim_right_newlines s = [] \<or> last (trim_right_newlines s) \<noteq> nl"
  by (metis (full_types) hd_dropWhile hd_rev rev_is_Nil_conv rev_rev_ident trim_right_newlines_def)

lemma last_dropWhile: "dropWhile p xs \<noteq> [] \<Longrightarrow> last (dropWhile p xs) = last xs"
  by (induction xs) auto

lemma trim_newlines_hd: "trim_newlines s \<noteq> [] \<Longrightarrow> hd (trim_newlines s) \<noteq> nl"
proof -
  assume ne: "trim_newlines s \<noteq> []"
  define t where "t = dropWhile (\<lambda>c. c = nl) s"
  define u where "u = dropWhile (\<lambda>c. c = nl) (rev t)"
  have eq: "trim_newlines s = rev u" by (simp add: trim_newlines_def trim_right_newlines_def t_def u_def)
  with ne have u: "u \<noteq> []" by simp
  then have "last u = last (rev t)" and t: "t \<noteq> []" unfolding u_def by (auto intro: last_dropWhile)
  then have "hd (trim_newlines s) = hd t" using u by (simp add: eq hd_rev last_rev)
  with t hd_dropWhile[of "\<lambda>c. c = nl" s] show ?thesis by (simp add: t_def)
qed

text \<open>No newline at either end.\<close>

definition trimmed :: "string \<Rightarrow> bool" where
  "trimmed s \<longleftrightarrow> s = [] \<or> (hd s \<noteq> nl \<and> last s \<noteq> nl)"

lemma trimmed_trim_newlines [simp]: "trimmed (trim_newlines s)"
  using trim_newlines_hd[of s] trim_right_newlines_last by (auto simp: trimmed_def trim_newlines_def)

lemma trimmed_rev: "trimmed s \<Longrightarrow> dropWhile (\<lambda>c. c = nl) (rev s) = rev s"
  by (cases "s = []") (simp_all add: trimmed_def dropWhile_eq_self_iff hd_rev)

lemma trimmed_fix: "trimmed s \<Longrightarrow> trim_newlines s = s"
  using trimmed_rev[of s]
  by (cases s) (auto simp: trim_newlines_def trim_right_newlines_def trimmed_def simp del: rev.simps)

lemma trim_newlines_framed: "trimmed s \<Longrightarrow> trim_newlines (nl # s @ [nl]) = s"
  using trimmed_rev[of s]
  by (cases s) (simp_all add: trim_newlines_def trim_right_newlines_def trimmed_def)

lemma trimmed_trim_space: "trimmed (trim_space s)"
proof -
  have "bytes [10] \<in> set go_spaces" by (simp add: go_spaces_def)
  moreover have "bytes [10] = [nl]" by code_simp
  ultimately have m: "[nl] \<in> set go_spaces" by simp
  have "lead_space (trim_space s) = None" "last_space (trim_space s) = None"
    unfolding trim_space_def by (metis lead_space_prefix_None trim_left_no_lead trim_right_prefix)
      (rule trim_right_no_last)
  with m have "\<not> prefix [nl] (trim_space s)" "\<not> suffix [nl] (trim_space s)"
    by (auto simp: lead_space_def last_space_def find_None_iff)
  then have "\<And>zs. trim_space s \<noteq> zs @ [nl]" "\<And>zs. trim_space s \<noteq> nl # zs" by (auto simp: suffix_def)
  then show ?thesis unfolding trimmed_def by (metis append_butlast_last_id list.collapse)
qed

lemma trim_left_suffix: "suffix (trim_left s) s"
proof (induction s rule: trim_left.induct)
  case (1 s)
  then show ?case
    by (subst trim_left.simps) (auto split: option.split intro: suffix_order.trans suffix_drop)
qed

section \<open>Regions\<close>

text \<open>A document with the region: text, begin marker, body, end marker, text.\<close>

definition region :: "string \<Rightarrow> string \<Rightarrow> string \<Rightarrow> string \<Rightarrow> string" where
  "region i before body after = before @ beginMarker i @ body @ endMarker i @ after"

definition has_region :: "string \<Rightarrow> string \<Rightarrow> bool" where
  "has_region doc i \<longleftrightarrow> (\<exists>bi ei. index_of doc (beginMarker i) = Some bi \<and>
     index_of (drop (bi + length (beginMarker i)) doc) (endMarker i) = Some ei)"

lemma has_region_split:
  assumes "has_region doc i"
  obtains before body after where "doc = region i before body after"
    "index_of doc (beginMarker i) = Some (length before)"
    "index_of (body @ endMarker i @ after) (endMarker i) = Some (length body)"
proof -
  let ?B = "beginMarker i" and ?E = "endMarker i"
  obtain bi ei where bi: "index_of doc ?B = Some bi" and ei: "index_of (drop (bi + length ?B) doc) ?E = Some ei"
    using assms by (auto simp: has_region_def)
  let ?rest = "drop (bi + length ?B) doc"
  have "doc = take bi doc @ ?B @ ?rest"
    using index_of_Some[OF bi] by (metis add.commute append_take_drop_id drop_drop)
  moreover have "?rest = take ei ?rest @ ?E @ drop (ei + length ?E) ?rest"
    using index_of_Some[OF ei] by (metis add.commute append_take_drop_id drop_drop)
  ultimately have "doc = region i (take bi doc) (take ei ?rest) (drop (ei + length ?E) ?rest)"
    by (simp add: region_def)
  moreover have "length (take bi doc) = bi" "length (take ei ?rest) = ei"
    using index_of_Some[OF bi] index_of_Some[OF ei] by simp_all
  ultimately show ?thesis using that[of "take bi doc" "take ei ?rest" "drop (ei + length ?E) ?rest"] bi ei
      \<open>?rest = _\<close> by simp
qed

lemma region_ops:
  assumes "index_of (region i before old after) (beginMarker i) = Some (length before)"
    "index_of (old @ endMarker i @ after) (endMarker i) = Some (length old)"
  shows "ReplaceRegion (region i before old after) i body = Inr (region i before (nl # trim_newlines body @ [nl]) after)"
    "ExtractRegion (region i before old after) i = Inr (trim_newlines old)"
  using assms begin_no_newline[of before i]
  by (simp_all add: ReplaceRegion_def ExtractRegion_def Let_def region_def)

text \<open>Putting a body in keeps the region where it was.\<close>

lemma region_put:
  assumes "index_of (region i before old after) (beginMarker i) = Some (length before)" "nl \<notin> set i"
    "\<not> contains_str body (endMarker i)"
  shows "index_of (region i before (nl # body @ [nl]) after) (beginMarker i) = Some (length before)"
    "index_of ((nl # body @ [nl]) @ endMarker i @ after) (endMarker i) = Some (length (nl # body @ [nl]))"
proof -
  show "index_of (region i before (nl # body @ [nl]) after) (beginMarker i) = Some (length before)"
    using index_of_common[of "before @ beginMarker i" "old @ endMarker i @ after" "beginMarker i" "length before"
        "(nl # body @ [nl]) @ endMarker i @ after"] assms(1)
    by (simp add: region_def)
  have "index_of (endMarker i @ after) (endMarker i) = Some 0" by (rule index_of_start) simp
  then have "index_of (body @ nl # endMarker i @ after) (endMarker i) = Some (Suc (length body))"
    using assms(3) index_of_line[OF markers(4)[OF assms(2)] markers(2), of body "endMarker i @ after"]
    by (simp add: contains_str_def)
  moreover have "index_of [] (endMarker i) = None" by (simp add: markers)
  ultimately show "index_of ((nl # body @ [nl]) @ endMarker i @ after) (endMarker i) = Some (length (nl # body @ [nl]))"
    using index_of_line[OF markers(4)[OF assms(2)] markers(2), of "[]" "body @ nl # endMarker i @ after"] by simp
qed

lemma ReplaceRegion_region:
  assumes "has_region doc i" "nl \<notin> set i" "\<not> contains_str (trim_newlines body) (endMarker i)"
  obtains before old after where "doc = region i before old after"
    "ReplaceRegion doc i body = Inr (region i before (nl # trim_newlines body @ [nl]) after)"
    "ExtractRegion (region i before (nl # trim_newlines body @ [nl]) after) i = Inr (trim_newlines body)"
    "ReplaceRegion (region i before (nl # trim_newlines body @ [nl]) after) i body' =
       Inr (region i before (nl # trim_newlines body' @ [nl]) after)"
proof -
  from assms(1) obtain before old after where s: "doc = region i before old after"
    "index_of doc (beginMarker i) = Some (length before)"
    "index_of (old @ endMarker i @ after) (endMarker i) = Some (length old)" by (rule has_region_split)
  note put = region_put[OF s(2)[unfolded s(1)] assms(2,3)]
  show ?thesis
    using that[OF s(1)] region_ops[OF s(2)[unfolded s(1)] s(3)] region_ops[OF put] trim_newlines_framed
    by (simp add: s(1))
qed


text \<open>Inserting: with no begin marker in the document the region is appended; removing it undoes that.\<close>

lemma trim_space_sublist: "sublist (trim_space s) s"
  unfolding trim_space_def
  by (metis prefix_imp_sublist suffix_imp_sublist sublist_order.order_trans trim_left_suffix trim_right_prefix)

lemma UpsertRegion_append:
  assumes "\<not> contains_str doc (beginMarker i)" "nl \<notin> set i" "\<not> contains_str (trim_space body) (endMarker i)"
  obtains before where "UpsertRegion doc i body = region i before (nl # trim_space body @ [nl]) [nl]"
    "index_of (region i before (nl # trim_space body @ [nl]) [nl]) (beginMarker i) = Some (length before)"
    "index_of ((nl # trim_space body @ [nl]) @ endMarker i @ [nl]) (endMarker i) = Some (length (nl # trim_space body @ [nl]))"
    "before = (if trim_space doc = [] then [] else trim_space doc @ [nl, nl])"
proof -
  define t where "t = trim_space doc"
  have sub: "\<not> contains_str t (beginMarker i)"
    using assms(1) trim_space_sublist[of doc] unfolding t_def by (meson contains_str_iff sublist_order.order_trans)
  let ?before = "if t = [] then [] else t @ [nl, nl]"
  let ?rest = "(nl # trim_space body @ [nl]) @ endMarker i @ [nl]"
  have b0: "index_of (beginMarker i @ ?rest) (beginMarker i) = Some 0" by (rule index_of_start) simp
  have "index_of (t @ nl # nl # beginMarker i @ ?rest) (beginMarker i) = Some (length t + 2)"
    using sub b0 index_of_line[OF markers(3)[OF assms(2)] markers(1), of t "nl # beginMarker i @ ?rest"]
      index_of_line[OF markers(3)[OF assms(2)] markers(1), of "[]" "beginMarker i @ ?rest"]
    by (simp add: contains_str_def markers)
  with b0 have b: "index_of (region i ?before (nl # trim_space body @ [nl]) [nl]) (beginMarker i) = Some (length ?before)"
    by (simp add: region_def)
  have "UpsertRegion doc i body = region i ?before (nl # trim_space body @ [nl]) [nl]"
    using assms(1) by (simp add: UpsertRegion_def Let_def t_def region_def)
  from that[OF this b region_put(2)[OF b assms(2,3)]] show ?thesis by (simp add: t_def)
qed

lemma UpsertRegion_extract:
  assumes "\<not> contains_str doc (beginMarker i)" "nl \<notin> set i" "\<not> contains_str (trim_space body) (endMarker i)"
  shows "ExtractRegion (UpsertRegion doc i body) i = Inr (trim_space body)"
  by (rule UpsertRegion_append[OF assms]) (simp add: region_ops(2) trim_newlines_framed trimmed_trim_space)

lemma trim_right_newlines_append: "trimmed s \<Longrightarrow> trim_right_newlines (s @ [nl, nl]) = s" "trim_right_newlines [] = []"
  by (simp_all add: trim_right_newlines_def trimmed_rev)

lemma UpsertRegion_remove:
  assumes "\<not> contains_str doc (beginMarker i)" "nl \<notin> set i" "\<not> contains_str (trim_space body) (endMarker i)"
  shows "RemoveRegion (UpsertRegion doc i body) i = Inr (trim_space doc @ [nl])"
proof (rule UpsertRegion_append[OF assms])
  fix before
  let ?body = "nl # trim_space body @ [nl]"
  let ?doc = "region i before ?body [nl]"
  assume u: "UpsertRegion doc i body = ?doc" "index_of ?doc (beginMarker i) = Some (length before)"
    "index_of (?body @ endMarker i @ [nl]) (endMarker i) = Some (length ?body)"
    "before = (if trim_space doc = [] then [] else trim_space doc @ [nl, nl])"
  let ?e0 = "length before + length (beginMarker i) + length ?body + length (endMarker i)"
  have len: "length ?doc = Suc ?e0" by (simp add: region_def)
  have rest: "drop (length before + length (beginMarker i)) ?doc = ?body @ endMarker i @ [nl]" by (simp add: region_def)
  have "?doc = (before @ beginMarker i @ ?body @ endMarker i) @ [nl]" by (simp add: region_def)
  then have nth: "?doc ! ?e0 = nl" by (metis (no_types, lifting) add.assoc length_append nth_append_length)
  have "RemoveRegion ?doc i = Inr (trim_right_newlines (take (length before) ?doc @ drop (Suc ?e0) ?doc) @ [nl])"
    unfolding RemoveRegion_def u(2) option.case Let_def rest u(3) using len nth by simp
  also have "take (length before) ?doc = before" by (simp add: region_def)
  finally show ?thesis
    using u(1,4) len trim_right_newlines_append(1)[OF trimmed_trim_space[of doc]]
    by (simp add: trim_right_newlines_append)
qed

text \<open>
  An unterminated region is not repaired: the new region is appended after it, and reading
  the region, or updating it once more, takes everything from the old begin marker on.
\<close>

definition unterminated :: string where
  "unterminated = ''<!-- prumo:begin a --> keep''"

lemma UpsertRegion_unterminated:
  "UpsertRegion unterminated ''a'' ''x'' = unterminated @ [nl, nl] @ beginMarker ''a'' @ [nl] @ ''x'' @ [nl] @ endMarker ''a'' @ [nl]"
proof -
  have "trim_space ''x'' = ''x''" "trim_space unterminated = unterminated"
    by (rule trim_space_ends; code_simp)+
  moreover have "contains_str unterminated (beginMarker ''a'')" "\<not> is_ok (ReplaceRegion unterminated ''a'' ''x'')"
    "unterminated \<noteq> []" by code_simp+
  ultimately show ?thesis by (auto simp: UpsertRegion_def Let_def split: sum.splits)
qed

lemma UpsertRegion_swallows:
  "ExtractRegion (UpsertRegion unterminated ''a'' ''x'') ''a'' = Inr ('' keep'' @ [nl, nl] @ beginMarker ''a'' @ [nl] @ ''x'')"
  "ReplaceRegion (UpsertRegion unterminated ''a'' ''x'') ''a'' ''y'' = Inr (beginMarker ''a'' @ [nl] @ ''y'' @ [nl] @ endMarker ''a'' @ [nl])"
  unfolding UpsertRegion_unterminated by code_simp+

section \<open>Property\<close>

lemma sublist_not_contains: "sublist s t \<Longrightarrow> \<not> contains_str t m \<Longrightarrow> \<not> contains_str s m"
  by (meson contains_str_iff sublist_order.order_trans)

lemma trim_newlines_sublist: "sublist (trim_newlines s) s"
proof -
  have "suffix (dropWhile p s) s" for p :: "char \<Rightarrow> bool" by (rule suffix_dropWhile)
  moreover have "prefix (trim_right_newlines t) t" for t
    unfolding trim_right_newlines_def by (metis rev_rev_ident suffix_dropWhile suffix_to_prefix)
  ultimately show ?thesis
    unfolding trim_newlines_def by (metis prefix_imp_sublist suffix_imp_sublist sublist_order.order_trans)
qed

text \<open>
  C30: managed regions keep what is put into them and leave the rest of the document alone.
  Replacing a region changes only its body, which reads back trimmed of newlines; inserting a
  region into a document without it reads back the body, trimmed, and removing it again
  gives the trimmed document and a newline. The region's name is one line and the body does not
  contain the end marker, which the code does not check (\<open>end_marker_cuts_the_body\<close>).
\<close>

theorem managed_region_round_trip:
  assumes "nl \<notin> set i" "\<not> contains_str body (endMarker i)"
  shows "(has_region doc i \<longrightarrow>
      (\<exists>before old after. doc = region i before old after \<and>
         ReplaceRegion doc i body = Inr (region i before (nl # trim_newlines body @ [nl]) after) \<and>
         ExtractRegion (region i before (nl # trim_newlines body @ [nl]) after) i = Inr (trim_newlines body))) \<and>
    (\<not> contains_str doc (beginMarker i) \<longrightarrow>
       ExtractRegion (UpsertRegion doc i body) i = Inr (trim_space body) \<and>
       RemoveRegion (UpsertRegion doc i body) i = Inr (trim_space doc @ [nl]))"
proof -
  have t: "\<not> contains_str (trim_newlines body) (endMarker i)" "\<not> contains_str (trim_space body) (endMarker i)"
    using assms(2) sublist_not_contains trim_newlines_sublist trim_space_sublist by blast+
  have "has_region doc i \<Longrightarrow> \<exists>before old after. doc = region i before old after \<and>
         ReplaceRegion doc i body = Inr (region i before (nl # trim_newlines body @ [nl]) after) \<and>
         ExtractRegion (region i before (nl # trim_newlines body @ [nl]) after) i = Inr (trim_newlines body)"
    by (rule ReplaceRegion_region[OF _ assms(1) t(1)]) auto
  with UpsertRegion_extract[OF _ assms(1) t(2)] UpsertRegion_remove[OF _ assms(1) t(2)] show ?thesis by blast
qed

theorem managed_region_round_trip_witness:
  "ExtractRegion (region ''a'' ''x'' (nl # ''new'' @ [nl]) ''y'') ''a'' = Inr ''new'' \<and>
   ReplaceRegion (region ''a'' ''x'' ''old'' ''y'') ''a'' ''new'' = Inr (region ''a'' ''x'' (nl # ''new'' @ [nl]) ''y'')"
proof -
  let ?doc = "region ''a'' ''x'' ''old'' ''y''"
  have "index_of ?doc (beginMarker ''a'') = Some 1" "index_of (drop (1 + length (beginMarker ''a'')) ?doc) (endMarker ''a'') = Some 3"
    by code_simp+
  then have h: "has_region ?doc ''a''" unfolding has_region_def by blast
  have e: "\<not> contains_str ''new'' (endMarker ''a'')" and n: "trim_newlines ''new'' = ''new''"
    and r: "ReplaceRegion ?doc ''a'' ''new'' = Inr (region ''a'' ''x'' (nl # ''new'' @ [nl]) ''y'')"
    by code_simp+
  have "nl \<notin> set ''a''" by simp
  from managed_region_round_trip[OF this e, of ?doc] h n r show ?thesis by auto
qed

text \<open>A body with the end marker in it is cut there.\<close>

lemma end_marker_cuts_the_body:
  "case ReplaceRegion (region ''a'' ''x'' ''old'' ''y'') ''a'' (''p'' @ endMarker ''a'' @ ''q'') of
     Inl e \<Rightarrow> False | Inr doc \<Rightarrow> ExtractRegion doc ''a'' = Inr ''p''"
  by code_simp

end
