(* ===== verification/DocSections.thy ===== *)
theory DocSections
  imports DocRegions
begin

text \<open>
  \<open>internal/harness/doccompile/sections.go\<close>: editing Markdown by heading path. Headings are
  \<open>#\<close> to \<open>######\<close> outside fenced code; a path is the stack of enclosing titles.
  \<open>ListSections\<close>, \<open>ExtractSection\<close>, \<open>ReplaceSection\<close> and \<open>DeleteSection\<close> are the exported
  operations. A section ends at the next heading whose level is at most the length of its path.
\<close>

section \<open>Lines\<close>

record mdLine =
  ml_text :: string
  ml_heading :: bool
  ml_level :: nat
  ml_title :: string

definition splitLinesKeep :: "string \<Rightarrow> string list" where
  "splitLinesKeep s =
     (if s = [] then []
      else let ls = split_on nl s in if last ls = [] then butlast ls else ls)"

definition fence_line :: "string \<Rightarrow> bool" where
  "fence_line line \<longleftrightarrow> has_prefix (trim_space line) ''```''"

text \<open>The number of leading \<open>#\<close>, at most six.\<close>

definition hashes :: "string \<Rightarrow> nat" where
  "hashes line = min 6 (length (takeWhile (\<lambda>c. c = CHR ''#'') line))"

definition parse_line :: "bool \<Rightarrow> string \<Rightarrow> mdLine" where
  "parse_line inFence line =
     (let i = hashes line in
      if \<not> inFence \<and> has_prefix line ''#'' \<and> i < length line \<and> line ! i = CHR '' ''
      then \<lparr>ml_text = line, ml_heading = True, ml_level = i, ml_title = trim_space (drop i line)\<rparr>
      else \<lparr>ml_text = line, ml_heading = False, ml_level = 0, ml_title = []\<rparr>)"

fun parse_lines :: "bool \<Rightarrow> string list \<Rightarrow> mdLine list" where
  "parse_lines inFence [] = []"
| "parse_lines inFence (line # lns) =
     (let inFence' = (if fence_line line then \<not> inFence else inFence) in
      parse_line inFence' line # parse_lines inFence' lns)"

definition parseMarkdown :: "string \<Rightarrow> mdLine list" where
  "parseMarkdown doc = parse_lines False (splitLinesKeep doc)"

section \<open>Paths\<close>

text \<open>A heading pops the stack below its level, then pushes its title.\<close>

definition push_heading :: "string list \<Rightarrow> mdLine \<Rightarrow> string list" where
  "push_heading stack line = take (ml_level line - 1) stack @ [ml_title line]"

fun list_sections :: "string list \<Rightarrow> mdLine list \<Rightarrow> string list list" where
  "list_sections stack [] = []"
| "list_sections stack (line # lns) =
     (if \<not> ml_heading line then list_sections stack lns
      else push_heading stack line # list_sections (push_heading stack line) lns)"

definition ListSections :: "string \<Rightarrow> string list list" where
  "ListSections doc = list_sections [] (parseMarkdown doc)"

text \<open>The first heading with the path: its index, its stack and the lines after it.\<close>

fun find_section :: "string list \<Rightarrow> string list \<Rightarrow> nat \<Rightarrow> mdLine list \<Rightarrow> (nat \<times> string list \<times> mdLine list) option" where
  "find_section path stack i [] = None"
| "find_section path stack i (line # lns) =
     (if \<not> ml_heading line then find_section path stack (Suc i) lns
      else let stack' = push_heading stack line in
        if stack' = path then Some (i, stack', lns) else find_section path stack' (Suc i) lns)"

fun section_end :: "nat \<Rightarrow> string list \<Rightarrow> nat \<Rightarrow> mdLine list \<Rightarrow> nat" where
  "section_end n inner j [] = j"
| "section_end n inner j (line # lns) =
     (if \<not> ml_heading line then section_end n inner (Suc j) lns
      else let inner' = push_heading inner line in
        if length inner' \<le> n then j else section_end n inner' (Suc j) lns)"

definition sectionSpan :: "mdLine list \<Rightarrow> string list \<Rightarrow> (string, nat \<times> nat) outcome" where
  "sectionSpan lns path =
     (if path = [] then Inl ''empty section path''
      else case find_section path [] 0 lns of
        None \<Rightarrow> Inl (''section '' @ quoted (join '' / '' path) @ '' not found'')
      | Some (i, stack, rest) \<Rightarrow> Inr (i, section_end (length path) stack (Suc i) rest))"

section \<open>The operations\<close>

definition line_text :: "mdLine \<Rightarrow> string" where
  "line_text line = ml_text line @ [nl]"

definition ExtractSection :: "string \<Rightarrow> string list \<Rightarrow> (string, string) outcome" where
  "ExtractSection doc path =
     (let lns = parseMarkdown doc in
      case sectionSpan lns path of
        Inl e \<Rightarrow> Inl e
      | Inr (start, stop) \<Rightarrow> Inr (join [nl] (map ml_text (drop start (take stop lns))) @ [nl]))"

definition ReplaceSection :: "string \<Rightarrow> string list \<Rightarrow> string \<Rightarrow> (string, string) outcome" where
  "ReplaceSection doc path body =
     (let lns = parseMarkdown doc in
      case sectionSpan lns path of
        Inl e \<Rightarrow> Inl e
      | Inr (start, stop) \<Rightarrow>
          Inr (concat (map line_text (take (Suc start) lns)) @ trim_newlines body @ [nl] @
               concat (map line_text (drop stop lns))))"

definition DeleteSection :: "string \<Rightarrow> string list \<Rightarrow> (string, string) outcome" where
  "DeleteSection doc path =
     (let lns = parseMarkdown doc in
      case sectionSpan lns path of
        Inl e \<Rightarrow> Inl e
      | Inr (start, stop) \<Rightarrow>
          let kept = take start lns @ drop stop lns in
          if \<not> list_ex ml_heading kept then Inl ''refusing to delete the last section''
          else Inr (concat (map line_text kept)))"

section \<open>Splitting and parsing\<close>

lemma splitLinesKeep_no_nl: "l \<in> set (splitLinesKeep s) \<Longrightarrow> nl \<notin> set l"
  by (auto simp: splitLinesKeep_def Let_def split: if_splits dest!: in_set_butlastD split_on_no_sep)

lemma split_on_lines:
  "(\<And>l. l \<in> set ls \<Longrightarrow> nl \<notin> set l) \<Longrightarrow> split_on nl (concat (map (\<lambda>l. l @ [nl]) ls)) = ls @ [[]]"
  by (induction ls) (auto simp: split_on_append)

lemma splitLinesKeep_lines:
  "(\<And>l. l \<in> set ls \<Longrightarrow> nl \<notin> set l) \<Longrightarrow> splitLinesKeep (concat (map (\<lambda>l. l @ [nl]) ls)) = ls"
proof -
  assume "\<And>l. l \<in> set ls \<Longrightarrow> nl \<notin> set l"
  from split_on_lines[of ls, OF this] show ?thesis by (cases ls) (simp_all add: splitLinesKeep_def Let_def del: split_on.simps)
qed

lemma lines_of_text: "concat (map (\<lambda>l. l @ [nl]) (split_on nl s)) = s @ [nl]"
proof -
  have "ls \<noteq> [] \<Longrightarrow> concat (map (\<lambda>l. l @ [nl]) ls) = join [nl] ls @ [nl]" for ls
  proof (induction ls)
    case (Cons l ls)
    then show ?case by (cases ls) auto
  qed simp
  then show ?thesis by (simp add: join_split_on)
qed

fun fence_after :: "bool \<Rightarrow> string list \<Rightarrow> bool" where
  "fence_after inFence [] = inFence"
| "fence_after inFence (line # lns) = fence_after (if fence_line line then \<not> inFence else inFence) lns"

lemma parse_lines_append: "parse_lines f (a @ b) = parse_lines f a @ parse_lines (fence_after f a) b"
  by (induction a arbitrary: f) (auto simp: Let_def)

lemma length_parse_lines [simp]: "length (parse_lines f a) = length a"
  by (induction a arbitrary: f) (auto simp: Let_def)

lemma ml_text_parse [simp]: "map ml_text (parse_lines f a) = a"
  by (induction a arbitrary: f) (auto simp: Let_def parse_line_def)

lemma line_text_parse: "map line_text (parse_lines f a) = map (\<lambda>l. l @ [nl]) a"
  by (induction a arbitrary: f) (auto simp: Let_def parse_line_def line_text_def)

lemma heading_level: "ml_heading (parse_line f l) \<Longrightarrow> 0 < ml_level (parse_line f l)"
  by (cases l) (auto simp: parse_line_def Let_def hashes_def has_prefix_def split: if_splits)

lemma heading_levels: "\<forall>line\<in>set (parse_lines f a). ml_heading line \<longrightarrow> 0 < ml_level line"
  by (induction a arbitrary: f) (auto simp: Let_def heading_level)

text \<open>A heading is no fence line, and none is open before or after it.\<close>

lemma heading_not_fence: "ml_heading (parse_line f l) \<Longrightarrow> \<not> fence_line l \<and> \<not> f"
proof -
  assume h: "ml_heading (parse_line f l)"
  then obtain s where l: "l = CHR ''#'' # s" and f: "\<not> f"
    by (auto simp: parse_line_def Let_def has_prefix_def prefix_def split: if_splits)
  have "trim_left l = l" unfolding l by (rule trim_left_fix, rule lead_space_plain) code_simp
  then have "prefix (trim_space l) l" using trim_right_prefix[of l] by (simp add: trim_space_def)
  then have "\<not> fence_line l" unfolding l by (auto simp: fence_line_def has_prefix_def prefix_def)
  with f show ?thesis by simp
qed

lemma parse_lines_heading:
  "parse_lines f raw = pre @ h # rest \<Longrightarrow> ml_heading h \<Longrightarrow>
     \<exists>a l b. raw = a @ l # b \<and> pre = parse_lines f a \<and> h = parse_line False l \<and> rest = parse_lines False b
       \<and> fence_after f a = False \<and> fence_after f (a @ [l]) = False"
proof (induction raw arbitrary: f pre)
  case (Cons x raw)
  let ?f = "if fence_line x then \<not> f else f"
  show ?case
  proof (cases pre)
    case Nil
    with Cons.prems have h: "h = parse_line ?f x" and r: "rest = parse_lines ?f raw" by (simp_all add: Let_def)
    from heading_not_fence[of ?f x] Cons.prems(2) h have "\<not> fence_line x" "\<not> f" by (auto split: if_splits)
    with h r Nil show ?thesis by (intro exI[of _ "[]"] exI[of _ x] exI[of _ raw]) auto
  next
    case (Cons p pre')
    with Cons.prems(1) have p: "p = parse_line ?f x" and eq: "parse_lines ?f raw = pre' @ h # rest"
      by (simp_all add: Let_def)
    from Cons.IH[OF eq Cons.prems(2)] obtain a l b where "raw = a @ l # b" "pre' = parse_lines ?f a"
      "h = parse_line False l" "rest = parse_lines False b" "fence_after ?f a = False" "fence_after ?f (a @ [l]) = False" by blast
    with Cons p show ?thesis by (intro exI[of _ "x # a"] exI[of _ l] exI[of _ b]) (simp add: Let_def)
  qed
qed simp


section \<open>Where sections end\<close>

text \<open>The stack is not needed to find the end: only the levels after the heading count.\<close>

definition closes :: "nat \<Rightarrow> mdLine \<Rightarrow> bool" where
  "closes n line \<longleftrightarrow> ml_heading line \<and> ml_level line \<le> n"

lemma section_end_level:
  "n \<le> length stack \<Longrightarrow> \<forall>line\<in>set lns. ml_heading line \<longrightarrow> 0 < ml_level line \<Longrightarrow>
     section_end n stack j lns = j + length (takeWhile (\<lambda>l. \<not> closes n l) lns)"
proof (induction n stack j lns rule: section_end.induct)
  case (2 n inner j line lns)
  show ?case
  proof (cases "ml_heading line")
    case True
    then have "length (push_heading inner line) = Suc (min (length inner) (ml_level line - 1))"
      by (simp add: push_heading_def)
    moreover have "0 < ml_level line" using 2(4) True by simp
    ultimately have "length (push_heading inner line) \<le> n \<longleftrightarrow> ml_level line \<le> n" "\<not> ml_level line \<le> n \<Longrightarrow> n \<le> length (push_heading inner line)"
      using 2(3) by auto
    with 2 True show ?thesis by (auto simp: Let_def closes_def)
  qed (use 2 in \<open>simp add: closes_def\<close>)
qed simp

lemma find_section_Some:
  "find_section path stack k lns = Some (i, stack', rest) \<Longrightarrow>
     \<exists>pre h. lns = pre @ h # rest \<and> i = k + length pre \<and> ml_heading h \<and> stack' = path \<and>
       (\<forall>rest'. find_section path stack k (pre @ h # rest') = Some (i, path, rest'))"
proof (induction path stack k lns rule: find_section.induct)
  case (2 path stack k line lns)
  show ?case
  proof (cases "ml_heading line \<and> push_heading stack line = path")
    case True
    with 2(3) show ?thesis by (intro exI[of _ "[]"] exI[of _ line]) (simp add: Let_def)
  next
    case False
    let ?st = "if ml_heading line then push_heading stack line else stack"
    have "find_section path ?st (Suc k) lns = Some (i, stack', rest)"
      using False 2(3) by (auto simp: Let_def split: if_splits)
    with 2(1,2) False obtain pre h where "lns = pre @ h # rest" "i = Suc k + length pre" "ml_heading h" "stack' = path"
      "\<forall>rest'. find_section path ?st (Suc k) (pre @ h # rest') = Some (i, path, rest')"
      by (cases "ml_heading line") (simp_all, blast+)
    with False show ?thesis by (intro exI[of _ "line # pre"] exI[of _ h]) (auto simp: Let_def)
  qed
qed simp

text \<open>The document around a section: the lines before, the heading, the section's lines, the lines after.\<close>

definition section_split :: "string list \<Rightarrow> string list \<Rightarrow> string \<Rightarrow> string list \<Rightarrow> string list \<Rightarrow> bool" where
  "section_split path a l b c \<longleftrightarrow>
     path \<noteq> [] \<and> ml_heading (parse_line False l) \<and> fence_after False (a @ [l]) = False \<and> fence_after False a = False \<and>
     (\<forall>line\<in>set (parse_lines False b). \<not> closes (length path) line) \<and>
     (c = [] \<or> (\<exists>l' c'. c = l' # c' \<and> fence_after False b = False \<and> closes (length path) (parse_line False l') \<and> \<not> fence_line l')) \<and>
     (\<forall>rest. find_section path [] 0 (parse_lines False a @ parse_line False l # rest) = Some (length a, path, rest))"

lemma section_split_span:
  assumes "section_split path a l b c"
  shows "parse_lines False (a @ l # b @ c) = parse_lines False a @ parse_line False l # parse_lines False b @ parse_lines (fence_after False b) c"
    "sectionSpan (parse_lines False (a @ l # b @ c)) path = Inr (length a, Suc (length a + length b))"
proof -
  have l: "\<not> fence_line l" using assms heading_not_fence[of False l] by (simp add: section_split_def)
  show p: "parse_lines False (a @ l # b @ c) = parse_lines False a @ parse_line False l # parse_lines False b @ parse_lines (fence_after False b) c"
    using assms l by (simp add: parse_lines_append section_split_def)
  have "section_end (length path) path (Suc (length a)) (parse_lines False b @ parse_lines (fence_after False b) c)
      = Suc (length a) + length (takeWhile (\<lambda>l. \<not> closes (length path) l) (parse_lines False b @ parse_lines (fence_after False b) c))"
    by (rule section_end_level) (use heading_levels in auto)
  also have "takeWhile (\<lambda>l. \<not> closes (length path) l) (parse_lines False b @ parse_lines (fence_after False b) c) = parse_lines False b"
    using assms by (subst takeWhile_append2) (auto simp: section_split_def)
  finally show "sectionSpan (parse_lines False (a @ l # b @ c)) path = Inr (length a, Suc (length a + length b))"
    using assms unfolding p by (simp add: sectionSpan_def section_split_def)
qed

lemma sectionSpan_split:
  assumes "sectionSpan (parseMarkdown doc) path = Inr (start, stop)"
  obtains a l b c where "splitLinesKeep doc = a @ l # b @ c" "start = length a" "stop = Suc (length a + length b)"
    "section_split path a l b c"
proof -
  let ?n = "length path" and ?raw = "splitLinesKeep doc"
  let ?Q = "\<lambda>line. \<not> closes ?n line"
  obtain stack rest where f: "find_section path [] 0 (parse_lines False ?raw) = Some (start, stack, rest)"
    and stop: "stop = section_end ?n stack (Suc start) rest" and ne: "path \<noteq> []"
    using assms by (auto simp: sectionSpan_def parseMarkdown_def split: if_splits option.splits)
  from find_section_Some[OF f] obtain pre h where h: "parse_lines False ?raw = pre @ h # rest" "start = length pre"
    "ml_heading h" "stack = path" "\<And>rest'. find_section path [] 0 (pre @ h # rest') = Some (start, path, rest')" by auto
  from parse_lines_heading[OF h(1,3)] obtain a l d where r: "?raw = a @ l # d" "pre = parse_lines False a"
    "h = parse_line False l" "rest = parse_lines False d" "fence_after False a = False" "fence_after False (a @ [l]) = False" by blast
  define m where "m = length (takeWhile ?Q rest)"
  have st: "stop = Suc start + m"
    unfolding stop m_def by (rule section_end_level) (use h(4) r(4) heading_levels in auto)
  have m: "m \<le> length d" using length_takeWhile_le[of ?Q rest] r(4) by (simp add: m_def)
  have sp: "rest = parse_lines False (take m d) @ parse_lines (fence_after False (take m d)) (drop m d)"
    unfolding r(4) by (simp flip: parse_lines_append)
  have tk: "takeWhile ?Q rest = parse_lines False (take m d)"
    using arg_cong[OF sp, of "take m"] m takeWhile_eq_take[of ?Q rest] by (simp flip: m_def)
  have dr: "dropWhile ?Q rest = parse_lines (fence_after False (take m d)) (drop m d)"
    using arg_cong[OF sp, of "drop m"] m dropWhile_eq_drop[of ?Q rest] by (simp flip: m_def)
  from tk have "\<forall>line\<in>set (parse_lines False (take m d)). ?Q line" by (metis set_takeWhileD)
  moreover have "drop m d = [] \<or> (\<exists>l' c'. drop m d = l' # c' \<and> fence_after False (take m d) = False
      \<and> closes ?n (parse_line False l') \<and> \<not> fence_line l')"
  proof (cases "drop m d")
    case (Cons l' c')
    let ?f = "fence_after False (take m d)"
    have "dropWhile ?Q rest = parse_line (if fence_line l' then \<not> ?f else ?f) l' # parse_lines (if fence_line l' then \<not> ?f else ?f) c'"
      using dr Cons by (simp add: Let_def)
    with hd_dropWhile[of ?Q rest] have c: "closes ?n (parse_line (if fence_line l' then \<not> ?f else ?f) l')" by simp
    with heading_not_fence[of "if fence_line l' then \<not> ?f else ?f" l'] show ?thesis
      using Cons by (auto simp: closes_def split: if_splits)
  qed simp
  ultimately show ?thesis
    using that[of a l "take m d" "drop m d"] r h ne st m by (simp add: section_split_def)
qed


section \<open>The operations on the parts\<close>

definition text_of :: "string list \<Rightarrow> string" where
  "text_of ls = concat (map (\<lambda>l. l @ [nl]) ls)"

lemma join_text_of: "ls \<noteq> [] \<Longrightarrow> join [nl] ls @ [nl] = text_of ls"
proof (induction ls)
  case (Cons l ls)
  then show ?case by (cases ls) (auto simp: text_of_def)
qed simp

lemma section_ops:
  assumes "splitLinesKeep doc = a @ l # b @ c" "section_split path a l b c"
  shows "ExtractSection doc path = Inr (text_of (l # b))"
    "ReplaceSection doc path body = Inr (text_of (a @ l # split_on nl (trim_newlines body) @ c))"
    "is_ok (DeleteSection doc path) \<Longrightarrow> DeleteSection doc path = Inr (text_of (a @ c))"
proof -
  have sp: "sectionSpan (parseMarkdown doc) path = Inr (length a, Suc (length a + length b))"
    unfolding parseMarkdown_def assms(1) by (rule section_split_span(2)[OF assms(2)])
  have raw: "map ml_text (parseMarkdown doc) = a @ l # b @ c" by (simp add: parseMarkdown_def assms(1))
  have lt: "map line_text (parseMarkdown doc) = map (\<lambda>l. l @ [nl]) (a @ l # b @ c)"
    unfolding parseMarkdown_def assms(1) by (rule line_text_parse)
  have "map ml_text (drop (length a) (take (Suc (length a + length b)) (parseMarkdown doc))) = l # b"
    by (simp add: raw flip: drop_map take_map)
  then show "ExtractSection doc path = Inr (text_of (l # b))"
    using sp join_text_of[of "l # b"] by (simp add: ExtractSection_def Let_def)
  have "trim_newlines body @ [nl] = text_of (split_on nl (trim_newlines body))"
    unfolding text_of_def by (simp add: lines_of_text)
  then show "ReplaceSection doc path body = Inr (text_of (a @ l # split_on nl (trim_newlines body) @ c))"
    using sp by (simp add: ReplaceSection_def Let_def lt text_of_def flip: drop_map take_map)
  show "is_ok (DeleteSection doc path) \<Longrightarrow> DeleteSection doc path = Inr (text_of (a @ c))"
    using sp by (auto simp: DeleteSection_def Let_def lt text_of_def simp flip: drop_map take_map split: if_splits)
qed

text \<open>A body that can stand in a section: its fences are closed and no heading of it ends the section.\<close>

definition fits_section :: "nat \<Rightarrow> string \<Rightarrow> bool" where
  "fits_section n body \<longleftrightarrow>
     (let ls = split_on nl (trim_newlines body) in
      list_all (\<lambda>line. \<not> closes n line) (parse_lines False ls) \<and> \<not> fence_after False ls)"

lemma section_replaced:
  assumes "splitLinesKeep doc = a @ l # b @ c" "section_split path a l b c" "fits_section (length path) body"
  shows "splitLinesKeep (text_of (a @ l # split_on nl (trim_newlines body) @ c)) = a @ l # split_on nl (trim_newlines body) @ c"
    "section_split path a l (split_on nl (trim_newlines body)) c"
proof -
  show "splitLinesKeep (text_of (a @ l # split_on nl (trim_newlines body) @ c)) = a @ l # split_on nl (trim_newlines body) @ c"
    unfolding text_of_def
    by (rule splitLinesKeep_lines) (use splitLinesKeep_no_nl[of _ doc] assms(1) split_on_no_sep in auto)
  show "section_split path a l (split_on nl (trim_newlines body)) c"
    using assms(2,3) by (auto simp: section_split_def fits_section_def Let_def list_all_iff)
qed

lemma ReplaceSection_round_trip:
  assumes "ReplaceSection doc path body = Inr doc'" "fits_section (length path) body"
  shows "\<exists>a l b c. splitLinesKeep doc = a @ l # b @ c \<and> splitLinesKeep doc' = a @ l # split_on nl (trim_newlines body) @ c \<and>
      ExtractSection doc path = Inr (text_of (l # b)) \<and>
      ExtractSection doc' path = Inr (l @ [nl] @ trim_newlines body @ [nl]) \<and>
      ReplaceSection doc' path body = Inr doc'"
proof -
  obtain start stop where "sectionSpan (parseMarkdown doc) path = Inr (start, stop)"
    using assms(1) by (auto simp: ReplaceSection_def Let_def split: sum.splits)
  then obtain a l b c where s: "splitLinesKeep doc = a @ l # b @ c" "section_split path a l b c"
    by (rule sectionSpan_split)
  note r = section_replaced[OF s assms(2)]
  from assms(1) section_ops(2)[OF s] have d: "doc' = text_of (a @ l # split_on nl (trim_newlines body) @ c)" by simp
  have "text_of (l # split_on nl (trim_newlines body)) = l @ [nl] @ trim_newlines body @ [nl]"
    by (simp add: text_of_def lines_of_text)
  with section_ops[OF s] section_ops[OF r] r(1) s(1) show ?thesis
    unfolding d by (intro exI[of _ a] exI[of _ l] exI[of _ b] exI[of _ c]) simp
qed


text \<open>
  In a document whose first heading is not of level 1 the next heading of the same level is
  taken for a child of the first: replacing the first section deletes it.
\<close>

definition two_sections :: string where
  "two_sections = text_of [''## A'', ''x'', ''## B'', ''y'']"

lemma trim_space_blank_first: "plain_char c \<Longrightarrow> trim_space ('' '' @ [c]) = [c]"
proof -
  assume c: "plain_char c"
  have "lead_space (CHR '' '' # s) = Some ('' '')" for s
    by (simp add: lead_space_def go_spaces_def bytes_def char_of_def bit_0)
  then have "trim_left ('' '' @ [c]) = trim_left [c]" by (subst trim_left.simps) simp
  with c trim_space_plain1[OF c] show ?thesis by (simp add: trim_space_def)
qed

lemma two_sections_split: "section_split [''A''] [] ''## A'' [''x'', ''## B'', ''y''] []"
proof -
  have t: "trim_space '' A'' = ''A''" using trim_space_blank_first[of "CHR ''A''"] by (simp add: plain_char_def)
  have "trim_space ''## A'' = ''## A''" "trim_space ''x'' = ''x''" "trim_space ''## B'' = ''## B''" "trim_space ''y'' = ''y''"
    by (rule trim_space_ends; code_simp)+
  then have f: "\<not> fence_line ''## A''" "\<not> fence_line ''x''" "\<not> fence_line ''## B''" "\<not> fence_line ''y''"
    by (simp_all add: fence_line_def has_prefix_def)
  show ?thesis
    by (simp add: section_split_def f t parse_line_def hashes_def has_prefix_def closes_def push_heading_def Let_def)
qed

lemma replace_deletes_sibling:
  "ReplaceSection two_sections [''A''] ''z'' = Inr (text_of [''## A'', ''z''])"
proof -
  have "splitLinesKeep two_sections = [] @ ''## A'' # [''x'', ''## B'', ''y''] @ []" by code_simp
  from section_ops(2)[OF this two_sections_split, of "''z''"]
  show ?thesis by (simp add: trim_newlines_def trim_right_newlines_def)
qed

section \<open>Property\<close>

text \<open>
  Section editing is local. Replacing a section keeps every line outside it and its heading
  line; the new body reads back under the same path, and replacing again changes nothing. The
  new body closes its fences and has no heading that ends the section.
\<close>

theorem section_edit_is_local:
  assumes "ReplaceSection doc path body = Inr doc'" "fits_section (length path) body"
  shows "\<exists>a l b c. splitLinesKeep doc = a @ l # b @ c \<and>
      splitLinesKeep doc' = a @ l # split_on nl (trim_newlines body) @ c \<and>
      ExtractSection doc path = Inr (text_of (l # b)) \<and>
      ExtractSection doc' path = Inr (l @ [nl] @ trim_newlines body @ [nl]) \<and>
      ReplaceSection doc' path body = Inr doc'"
  using assms by (rule ReplaceSection_round_trip)

definition two_chapters :: string where
  "two_chapters = text_of [''# A'', ''x'', ''# B'', ''y'']"

lemma two_chapters_split: "section_split [''A''] [] ''# A'' [''x''] [''# B'', ''y'']"
proof -
  have t: "trim_space '' A'' = ''A''" using trim_space_blank_first[of "CHR ''A''"] by (simp add: plain_char_def)
  have "trim_space ''# A'' = ''# A''" "trim_space ''x'' = ''x''" "trim_space ''# B'' = ''# B''"
    by (rule trim_space_ends; code_simp)+
  then have f: "\<not> fence_line ''# A''" "\<not> fence_line ''x''" "\<not> fence_line ''# B''"
    by (simp_all add: fence_line_def has_prefix_def)
  show ?thesis
    by (simp add: section_split_def f t parse_line_def hashes_def has_prefix_def closes_def push_heading_def Let_def)
qed

theorem section_edit_is_local_witness:
  "ReplaceSection two_chapters [''A''] ''z'' = Inr (text_of [''# A'', ''z'', ''# B'', ''y'']) \<and>
   ExtractSection (text_of [''# A'', ''z'', ''# B'', ''y'']) [''A''] = Inr (''# A'' @ [nl] @ ''z'' @ [nl])"
proof -
  have "splitLinesKeep two_chapters = [] @ ''# A'' # [''x''] @ [''# B'', ''y'']" by code_simp
  note ops = section_ops(2)[OF this two_chapters_split, of "''z''"]
  have z: "trim_newlines ''z'' = ''z''" by code_simp
  with ops have r: "ReplaceSection two_chapters [''A''] ''z'' = Inr (text_of [''# A'', ''z'', ''# B'', ''y''])" by simp
  have "trim_space ''z'' = ''z''" by (rule trim_space_ends; code_simp)
  then have "fits_section (length [''A'']) ''z''"
    by (simp add: fits_section_def z fence_line_def has_prefix_def parse_line_def closes_def Let_def)
  from section_edit_is_local[OF r this] z obtain a l c where
    l: "splitLinesKeep (text_of [''# A'', ''z'', ''# B'', ''y'']) = a @ l # ''z'' # c" and
    e: "ExtractSection (text_of [''# A'', ''z'', ''# B'', ''y'']) [''A''] = Inr (l @ [nl] @ ''z'' @ [nl])" by auto
  have "splitLinesKeep (text_of [''# A'', ''z'', ''# B'', ''y'']) = [''# A'', ''z'', ''# B'', ''y'']" by code_simp
  with l have "l = ''# A''" by (auto simp: Cons_eq_append_conv)
  with e r show ?thesis by simp
qed

end
