(* ===== verification/Evidence.thy ===== *)
theory Evidence
  imports RunLayer
begin

text \<open>
  \<open>internal/protocol/evidence\<close>: evidence records, their validation from typed and from untyped
  JSON, freshness, and the completion verdict that is derived from them; with the run layer's
  \<open>WriteEvidence\<close>, which produces the record of a run. \<open>perr\<close> words the error of
  \<open>time.Parse\<close>; whether a stamp parses is \<open>rfc3339\<close>.
\<close>

section \<open>RFC 3339 stamps\<close>

text \<open>
  \<open>time.Parse(time.RFC3339, s)\<close> with Go's leniencies: an hour of one digit, a fraction of
  the second after a dot or comma, offsets of up to 24 hours and 60 minutes.
\<close>

definition is_digit :: "char \<Rightarrow> bool" where
  "is_digit c \<longleftrightarrow> 48 \<le> (of_char c :: nat) \<and> (of_char c :: nat) \<le> 57"

definition digit_val :: "char \<Rightarrow> nat" where
  "digit_val c = of_char c - 48"

text \<open>\<open>getnum\<close>: two digits, or one unless \<open>fixed\<close>.\<close>

fun getnum :: "bool \<Rightarrow> string \<Rightarrow> (nat \<times> string) option" where
  "getnum fixed [] = None"
| "getnum fixed (a # s) =
     (if \<not> is_digit a then None
      else case s of
        b # t \<Rightarrow> if is_digit b then Some (10 * digit_val a + digit_val b, t) else if fixed then None else Some (digit_val a, s)
      | [] \<Rightarrow> if fixed then None else Some (digit_val a, []))"

fun expect :: "char \<Rightarrow> string \<Rightarrow> string option" where
  "expect c [] = None"
| "expect c (a # s) = (if a = c then Some s else None)"

definition leap_year :: "nat \<Rightarrow> bool" where
  "leap_year y \<longleftrightarrow> y mod 4 = 0 \<and> (y mod 100 \<noteq> 0 \<or> y mod 400 = 0)"

definition days_in :: "nat \<Rightarrow> nat \<Rightarrow> nat" where
  "days_in m y = (if m = 2 then (if leap_year y then 29 else 28) else if m \<in> {4, 6, 9, 11} then 30 else 31)"

definition zone_ok :: "string \<Rightarrow> bool" where
  "zone_ok s \<longleftrightarrow> s = ''Z'' \<or>
     (length s = 6 \<and> s ! 0 \<in> {CHR ''+'', CHR ''-''} \<and> s ! 3 = CHR '':'' \<and> list_all is_digit [s ! 1, s ! 2, s ! 4, s ! 5] \<and>
      10 * digit_val (s ! 1) + digit_val (s ! 2) \<le> 24 \<and> 10 * digit_val (s ! 4) + digit_val (s ! 5) \<le> 60)"

definition drop_fraction :: "string \<Rightarrow> string" where
  "drop_fraction s =
     (case s of
        p # d # t \<Rightarrow> if p \<in> {CHR ''.'', CHR '',''} \<and> is_digit d then dropWhile is_digit (d # t) else s
      | _ \<Rightarrow> s)"

definition time_ok :: "string \<Rightarrow> bool" where
  "time_ok s =
     (case getnum False s of None \<Rightarrow> False | Some (hour, s) \<Rightarrow>
      case expect (CHR '':'') s of None \<Rightarrow> False | Some s \<Rightarrow>
      case getnum True s of None \<Rightarrow> False | Some (minute, s) \<Rightarrow>
      case expect (CHR '':'') s of None \<Rightarrow> False | Some s \<Rightarrow>
      case getnum True s of None \<Rightarrow> False | Some (sec, s) \<Rightarrow>
        hour < 24 \<and> minute < 60 \<and> sec < 60 \<and> zone_ok (drop_fraction s))"

definition rfc3339 :: "string \<Rightarrow> bool" where
  "rfc3339 s =
     (if length s < 4 \<or> \<not> list_all is_digit (take 4 s) then False
      else let year = undec (take 4 s) in
      case expect (CHR ''-'') (drop 4 s) of None \<Rightarrow> False | Some s \<Rightarrow>
      case getnum True s of None \<Rightarrow> False | Some (month, s) \<Rightarrow>
      case expect (CHR ''-'') s of None \<Rightarrow> False | Some s \<Rightarrow>
      case getnum True s of None \<Rightarrow> False | Some (day, s) \<Rightarrow>
      case expect (CHR ''T'') s of None \<Rightarrow> False | Some s \<Rightarrow>
        1 \<le> month \<and> month \<le> 12 \<and> 1 \<le> day \<and> day \<le> days_in month year \<and> time_ok s)"

text \<open>\<open>Format(time.RFC3339)\<close> of a UTC time.\<close>

definition pad2 :: "nat \<Rightarrow> string" where
  "pad2 n = (if n < 10 then CHR ''0'' # dec_nat n else dec_nat n)"

definition pad4 :: "nat \<Rightarrow> string" where
  "pad4 n = replicate (4 - length (dec_nat n)) (CHR ''0'') @ dec_nat n"

record utc_time =
  ut_year :: nat
  ut_month :: nat
  ut_day :: nat
  ut_hour :: nat
  ut_min :: nat
  ut_sec :: nat

definition utc_ok :: "utc_time \<Rightarrow> bool" where
  "utc_ok t \<longleftrightarrow> ut_year t < 10000 \<and> 1 \<le> ut_month t \<and> ut_month t \<le> 12 \<and> 1 \<le> ut_day t \<and> ut_day t \<le> days_in (ut_month t) (ut_year t)
     \<and> ut_hour t < 24 \<and> ut_min t < 60 \<and> ut_sec t < 60"

definition format_rfc3339 :: "utc_time \<Rightarrow> string" where
  "format_rfc3339 t = pad4 (ut_year t) @ ''-'' @ pad2 (ut_month t) @ ''-'' @ pad2 (ut_day t) @ ''T'' @
     pad2 (ut_hour t) @ '':'' @ pad2 (ut_min t) @ '':'' @ pad2 (ut_sec t) @ ''Z''"

section \<open>Records\<close>

definition ValidTypes :: "string set" where
  "ValidTypes = {''test'', ''build'', ''benchmark'', ''lint'', ''security-scan'', ''screenshot'', ''artifact'', ''review'',
     ''command'', ''manual-verification'', ''external-reference'', ''harness_run''}"

record Record =
  re_ID :: string
  re_Type :: string
  re_Summary :: string
  re_Producer :: string
  re_Timestamp :: string
  re_Status :: string
  re_GoalID :: string
  re_TaskID :: string
  re_RunID :: string
  re_AttemptID :: string
  re_Command :: string
  re_Artifact :: string
  re_Path :: string
  re_Hash :: string
  re_SourceRevision :: string
  re_Environment :: "(string \<times> jval) list"
  re_Provenance :: jval
  re_Confidence :: string
  re_RelatedAcceptance :: "string list"
  re_RelatedGate :: "string list"
  re_Metadata :: "(string \<times> jval) list"
  re_Stale :: bool
  re_InvalidationTriggers :: "string list"

definition zero_record :: Record where
  "zero_record = \<lparr>re_ID = [], re_Type = [], re_Summary = [], re_Producer = [], re_Timestamp = [], re_Status = [],
     re_GoalID = [], re_TaskID = [], re_RunID = [], re_AttemptID = [], re_Command = [], re_Artifact = [], re_Path = [],
     re_Hash = [], re_SourceRevision = [], re_Environment = [], re_Provenance = JNull, re_Confidence = [],
     re_RelatedAcceptance = [], re_RelatedGate = [], re_Metadata = [], re_Stale = False, re_InvalidationTriggers = []\<rparr>"

definition ValidateRecord :: "(string \<Rightarrow> string) \<Rightarrow> Record \<Rightarrow> string option" where
  "ValidateRecord perr r =
     (if blank (re_ID r) then Some ''evidence missing id''
      else if blank (re_Type r) then Some ''evidence missing type''
      else if re_Type r \<notin> ValidTypes then Some (''evidence type '' @ quoted (re_Type r) @ '' is not recognized'')
      else if blank (re_Producer r) then Some (''evidence '' @ quoted (re_ID r) @ '' missing producer'')
      else if blank (re_Timestamp r) then Some (''evidence '' @ quoted (re_ID r) @ '' missing timestamp'')
      else if blank (re_Status r) then Some (''evidence '' @ quoted (re_ID r) @ '' missing status'')
      else if blank (re_GoalID r) then Some (''evidence '' @ quoted (re_ID r) @ '' missing goal_id'')
      else if \<not> rfc3339 (re_Timestamp r)
      then Some (''evidence '' @ quoted (re_ID r) @ '' timestamp is not RFC3339: '' @ perr (re_Timestamp r))
      else if re_Confidence r \<noteq> [] \<and> re_Confidence r \<notin> {''low'', ''medium'', ''high'', ''unknown''}
      then Some (''invalid confidence level '' @ quoted (re_Confidence r))
      else None)"

section \<open>Untyped JSON\<close>

definition optionalString :: "(rat \<Rightarrow> string) \<Rightarrow> (string \<times> jval) list \<Rightarrow> string \<Rightarrow> string" where
  "optionalString num rec key = (case map_of rec key of None \<Rightarrow> [] | Some JNull \<Rightarrow> [] | Some v \<Rightarrow> sprint num v)"

definition requiredString :: "(rat \<Rightarrow> string) \<Rightarrow> (string \<times> jval) list \<Rightarrow> string \<Rightarrow> string" where
  "requiredString num rec key = trim_space (optionalString num rec key)"

definition required_fields :: "string list" where
  "required_fields = [''id'', ''type'', ''producer'', ''timestamp'', ''status'', ''goal_id'']"

definition validated_record :: "(rat \<Rightarrow> string) \<Rightarrow> (string \<times> jval) list \<Rightarrow> Record" where
  "validated_record num rec = zero_record\<lparr>re_ID := requiredString num rec ''id'', re_Type := requiredString num rec ''type'',
     re_Producer := requiredString num rec ''producer'', re_Timestamp := requiredString num rec ''timestamp'',
     re_Status := requiredString num rec ''status'', re_GoalID := requiredString num rec ''goal_id'',
     re_Confidence := optionalString num rec ''confidence''\<rparr>"

definition Validate :: "(string \<Rightarrow> string) \<Rightarrow> (rat \<Rightarrow> string) \<Rightarrow> (string \<times> jval) list \<Rightarrow> string option" where
  "Validate perr num rec =
     (let missing = sort (filter (\<lambda>k. requiredString num rec k = []) required_fields) in
      if missing \<noteq> [] then Some (''evidence missing required field(s): '' @ join '', '' missing)
      else ValidateRecord perr (validated_record num rec))"

definition NewRecord :: "string \<Rightarrow> string \<Rightarrow> string \<Rightarrow> string \<Rightarrow> string \<Rightarrow> string \<Rightarrow> Record" where
  "NewRecord stamp i typ producer goalID status = zero_record\<lparr>re_ID := i, re_Type := typ, re_Producer := producer,
     re_GoalID := goalID, re_Status := status, re_Timestamp := stamp\<rparr>"

section \<open>Freshness\<close>

text \<open>\<open>hashes\<close> is \<open>None\<close> for a nil map.\<close>

definition revision_check :: "string \<Rightarrow> Record \<Rightarrow> Record" where
  "revision_check cur_rev r =
     (if re_SourceRevision r \<noteq> [] \<and> cur_rev \<noteq> [] \<and> re_SourceRevision r \<noteq> cur_rev
      then r\<lparr>re_Stale := True, re_InvalidationTriggers := append_unique (re_InvalidationTriggers r) ''source_revision_drift''\<rparr>
      else r)"

definition hash_check :: "(string \<rightharpoonup> string) option \<Rightarrow> Record \<Rightarrow> Record" where
  "hash_check hashes r =
     (case hashes of
        None \<Rightarrow> r
      | Some m \<Rightarrow>
          if re_Path r \<noteq> [] \<and> re_Hash r \<noteq> [] \<and> (case m (re_Path r) of None \<Rightarrow> False | Some h \<Rightarrow> h \<noteq> re_Hash r)
          then r\<lparr>re_Stale := True, re_InvalidationTriggers := append_unique (re_InvalidationTriggers r) ''file_hash_drift''\<rparr>
          else r)"

definition CheckFreshness :: "string \<Rightarrow> (string \<rightharpoonup> string) option \<Rightarrow> Record \<Rightarrow> Record \<times> bool" where
  "CheckFreshness cur_rev hashes r = (let r' = hash_check hashes (revision_check cur_rev r) in (r', \<not> re_Stale r'))"

text \<open>Staleness is never undone, and a second look at the same sources changes nothing.\<close>

lemma CheckFreshness_monotone: "re_Stale r \<Longrightarrow> CheckFreshness cur_rev hashes r = (r', ok) \<Longrightarrow> re_Stale r' \<and> \<not> ok"
  by (auto simp: CheckFreshness_def Let_def revision_check_def hash_check_def split: option.splits if_splits)

lemma append_unique_mem [simp]: "x \<in> set xs \<Longrightarrow> append_unique xs x = xs"
  by (simp add: append_unique_def)

lemma checks_keep [simp]:
  "re_SourceRevision (revision_check cr r) = re_SourceRevision r" "re_SourceRevision (hash_check h r) = re_SourceRevision r"
  "re_Path (revision_check cr r) = re_Path r" "re_Path (hash_check h r) = re_Path r"
  "re_Hash (revision_check cr r) = re_Hash r" "re_Hash (hash_check h r) = re_Hash r"
  by (auto simp: revision_check_def hash_check_def split: option.split)

lemma hash_check_marks:
  "set (re_InvalidationTriggers r) \<subseteq> set (re_InvalidationTriggers (hash_check h r))" "re_Stale r \<Longrightarrow> re_Stale (hash_check h r)"
  by (auto simp: hash_check_def split: option.split)

lemma revision_check_marked:
  "re_Stale r \<Longrightarrow> ''source_revision_drift'' \<in> set (re_InvalidationTriggers r) \<Longrightarrow> revision_check cr r = r"
  by (simp add: revision_check_def)

lemma revision_check_again: "revision_check cr (hash_check h (revision_check cr r)) = hash_check h (revision_check cr r)"
proof (cases "re_SourceRevision r \<noteq> [] \<and> cr \<noteq> [] \<and> re_SourceRevision r \<noteq> cr")
  case True
  then have "re_Stale (revision_check cr r)" "''source_revision_drift'' \<in> set (re_InvalidationTriggers (revision_check cr r))"
    by (simp_all add: revision_check_def)
  with hash_check_marks[of "revision_check cr r" h] show ?thesis by (intro revision_check_marked) auto
qed (auto simp: revision_check_def[of cr "hash_check h (revision_check cr r)"])

lemma hash_check_again: "hash_check h (hash_check h r) = hash_check h r"
  by (cases h) (simp_all add: hash_check_def)

lemma CheckFreshness_idem: "CheckFreshness cr hashes (fst (CheckFreshness cr hashes r)) = CheckFreshness cr hashes r"
  by (simp add: CheckFreshness_def Let_def revision_check_again hash_check_again)

section \<open>The record of a run\<close>

definition EvidenceProducer :: string where
  "EvidenceProducer = ''prumo-harness''"

definition run_record :: "(rat \<Rightarrow> string) \<Rightarrow> string \<Rightarrow> string \<Rightarrow> string \<Rightarrow> string \<Rightarrow> string \<Rightarrow> (string \<times> rat) list \<Rightarrow> ToolReport list \<Rightarrow> Record" where
  "run_record num stamp runID goalID phase stopReason usage reports =
     (let goal = (if trim_space goalID = [] then ''unassigned'' else trim_space goalID);
          usage_val = JObj (map (\<lambda>(k, v). (k, JNum v)) usage) in
      zero_record\<lparr>re_ID := ''ev-'' @ runID @ ''-'' @ phase, re_Type := ''harness_run'',
        re_Summary := ''run '' @ runID @ '' '' @ phase @ '' ('' @ stopReason @ '') usage='' @ sprint num usage_val
          @ '' reports='' @ itoa (int (length reports)),
        re_Producer := EvidenceProducer, re_Timestamp := stamp, re_Status := runStatusFrom phase stopReason reports,
        re_GoalID := goal, re_RunID := runID, re_Confidence := ''low'',
        re_Metadata := [(''phase'', JStr phase), (''stop_reason'', JStr stopReason), (''usage'', usage_val),
          (''report_count'', JNum (of_nat (length reports))), (''failed_tools'', JArr (map JStr (failedToolNames reports)))]\<rparr>)"

text \<open>
  The outcome of writing is an argument: the directory or the temporary file fails, or the
  rename does. The result is what the function returns and the record then on disk, if it was
  replaced.
\<close>

datatype evidence_io = EvidenceWritten | EvidenceWriteFails string | EvidenceRenameFails string

definition WriteEvidence :: "(string \<Rightarrow> string) \<Rightarrow> (rat \<Rightarrow> string) \<Rightarrow> evidence_io \<Rightarrow> string \<Rightarrow> string \<Rightarrow> string \<Rightarrow> string \<Rightarrow> string
    \<Rightarrow> (string \<times> rat) list \<Rightarrow> ToolReport list \<Rightarrow> (Record \<times> string option) \<times> Record option" where
  "WriteEvidence perr num io stamp runID goalID phase stopReason usage reports =
     (let rec = run_record num stamp runID goalID phase stopReason usage reports in
      case ValidateRecord perr rec of
        Some e \<Rightarrow> ((zero_record, Some e), None)
      | None \<Rightarrow>
          (case io of
             EvidenceWriteFails e \<Rightarrow> ((zero_record, Some e), None)
           | EvidenceRenameFails e \<Rightarrow> ((rec, Some e), None)
           | EvidenceWritten \<Rightarrow> ((rec, None), Some rec)))"

lemma is_digit_digit_char: "d < 10 \<Longrightarrow> is_digit (digit_char d)" "d < 10 \<Longrightarrow> digit_val (digit_char d) = d"
  by (simp_all add: is_digit_def digit_val_def digit_char_def of_char_of take_bit_eq_mod)

lemma dec_nat_small: "n < 10 \<Longrightarrow> dec_nat n = [digit_char n]"
  by (subst dec_nat.simps) simp

lemma dec_nat_two: "10 \<le> n \<Longrightarrow> n < 100 \<Longrightarrow> dec_nat n = [digit_char (n div 10), digit_char (n mod 10)]"
  by (subst dec_nat.simps) (simp add: dec_nat_small)

lemma pad2_digits: "n < 100 \<Longrightarrow> pad2 n = [digit_char (n div 10), digit_char (n mod 10)]"
proof (cases "n < 10")
  case True
  moreover have "digit_char 0 = CHR ''0''" by code_simp
  ultimately show ?thesis by (simp add: pad2_def dec_nat_small)
qed (simp add: pad2_def dec_nat_two)

lemma getnum_pad2: "n < 100 \<Longrightarrow> getnum fixed (pad2 n @ s) = Some (n, s)"
proof -
  assume n: "n < 100"
  then have "n div 10 < 10" "n mod 10 < 10" by auto
  then show ?thesis by (simp add: pad2_digits[OF n] is_digit_digit_char)
qed

lemma dec_nat_digit_list: "list_all is_digit (dec_nat n)"
  using dec_nat_digits[of _ n] by (auto simp: list_all_iff is_digit_def)

lemma dec_nat_length: "n < 10 ^ k \<Longrightarrow> 0 < k \<Longrightarrow> length (dec_nat n) \<le> k"
proof (induction n arbitrary: k rule: dec_nat.induct)
  case (1 n)
  show ?case
  proof (cases "n < 10")
    case True
    with 1(3) show ?thesis by (simp add: dec_nat_small)
  next
    case False
    with 1(2) have "1 < k" by (cases k; cases "k - 1") auto
    then obtain k' where k: "k = Suc k'" "0 < k'" by (cases k) auto
    with 1(2) have "n div 10 < 10 ^ k'" by (simp add: less_mult_imp_div_less mult.commute)
    from 1(1)[OF False this k(2)] False k show ?thesis by (subst dec_nat.simps) simp
  qed
qed

lemma pad4_ok:
  assumes "n < 10000"
  shows "length (pad4 n) = 4" "list_all is_digit (pad4 n)" "undec (pad4 n) = n"
proof -
  have "length (dec_nat n) \<le> 4" by (rule dec_nat_length) (use assms in simp_all)
  then show "length (pad4 n) = 4" by (simp add: pad4_def)
  have "is_digit (CHR ''0'')" by code_simp
  then show "list_all is_digit (pad4 n)" using dec_nat_digit_list[of n] by (auto simp: pad4_def list_all_iff)
  have "undec (replicate k (CHR ''0'') @ s) = undec s" for k s
    by (induction k) (simp_all add: undec_def)
  then show "undec (pad4 n) = n" by (simp add: pad4_def)
qed

text \<open>What \<open>Format\<close> writes, \<open>Parse\<close> accepts.\<close>

lemma expect_same [simp]: "expect c (c # s) = Some s"
  by simp

lemma format_rfc3339_parses: "utc_ok t \<Longrightarrow> rfc3339 (format_rfc3339 t)"
proof -
  assume t: "utc_ok t"
  then have y: "ut_year t < 10000" by (simp add: utc_ok_def)
  have "days_in (ut_month t) (ut_year t) \<le> 31" by (simp add: days_in_def)
  with t have b: "ut_month t < 100" "ut_day t < 100" "ut_hour t < 100" "ut_min t < 100" "ut_sec t < 100"
    by (auto simp: utc_ok_def)
  have f: "drop_fraction ''Z'' = ''Z''" "zone_ok ''Z''" by (simp_all add: drop_fraction_def zone_ok_def)
  have tm: "time_ok (pad2 (ut_hour t) @ '':'' @ pad2 (ut_min t) @ '':'' @ pad2 (ut_sec t) @ ''Z'')"
    using t f by (simp add: time_ok_def getnum_pad2 b utc_ok_def)
  have "take 4 (format_rfc3339 t) = pad4 (ut_year t)" "length (pad4 (ut_year t)) = 4"
    "drop 4 (format_rfc3339 t) = CHR ''-'' # pad2 (ut_month t) @ CHR ''-'' # pad2 (ut_day t) @ CHR ''T'' #
       pad2 (ut_hour t) @ '':'' @ pad2 (ut_min t) @ '':'' @ pad2 (ut_sec t) @ ''Z''"
    using pad4_ok(1)[OF y] by (simp_all add: format_rfc3339_def)
  moreover have "\<not> length (format_rfc3339 t) < 4" using pad4_ok(1)[OF y] by (simp add: format_rfc3339_def)
  ultimately show ?thesis
    using t tm pad4_ok[OF y] by (simp add: rfc3339_def Let_def getnum_pad2 b utc_ok_def)
qed


text \<open>Every record the harness writes is valid, whatever the run was.\<close>

lemma run_record_valid:
  assumes "rfc3339 stamp"
  shows "ValidateRecord perr (run_record num stamp runID goalID phase stopReason usage reports) = None"
proof -
  let ?r = "run_record num stamp runID goalID phase stopReason usage reports"
  have p: "plain_char (CHR ''e'')" "plain_char (CHR ''h'')" "plain_char (CHR ''p'')" "plain_char (CHR ''c'')" "plain_char (CHR ''f'')"
    "plain_char (CHR ''i'')" "plain_char (CHR ''u'')" by code_simp+
  have "runStatusFrom phase stopReason reports \<in> {''cancelled'', ''failed'', ''passed'', ''incomplete''}"
    by (simp add: runStatusFrom_def)
  then have st: "\<not> blank (runStatusFrom phase stopReason reports)" using blank_plain p by fastforce
  have g: "\<not> blank (re_GoalID ?r)"
    using blank_plain[OF p(7), of "''nassigned''"] by (simp add: run_record_def Let_def blank_def)
  have "\<not> blank stamp"
  proof -
    obtain d ds where "stamp = d # ds" "is_digit d" using assms by (cases stamp) (auto simp: rfc3339_def split: if_splits)
    then show ?thesis using blank_plain[of d ds] by (auto simp: is_digit_def plain_char_def)
  qed
  then show ?thesis
    using assms st g blank_plain[OF p(1)] blank_plain[OF p(2)] blank_plain[OF p(3)]
    by (simp add: ValidateRecord_def run_record_def Let_def ValidTypes_def EvidenceProducer_def)
qed

section \<open>Completion\<close>

record AcceptanceCriterion =
  ac_ID :: string
  ac_Description :: string
  ac_Required :: bool
  ac_Status :: string
  ac_EvidenceIDs :: "string list"
  ac_WaivedReason :: string

record CompletionEvaluation =
  ce_GoalID :: string
  ce_CanComplete :: bool
  ce_DerivedState :: string
  ce_Unsatisfied :: "string list"
  ce_StaleEvidenceCount :: int
  ce_MissingEvidenceCount :: int
  ce_ReasonCodes :: "string list"
  ce_Explanation :: string

text \<open>The loop's state: the evaluation and its two flags.\<close>

record evaluation =
  el_eval :: CompletionEvaluation
  el_allAccepted :: bool
  el_allEvidenced :: bool

definition ce_unsatisfied :: "string \<Rightarrow> CompletionEvaluation \<Rightarrow> CompletionEvaluation" where
  "ce_unsatisfied i e = e\<lparr>ce_Unsatisfied := ce_Unsatisfied e @ [i]\<rparr>"

definition ce_reason :: "string \<Rightarrow> CompletionEvaluation \<Rightarrow> CompletionEvaluation" where
  "ce_reason c e = e\<lparr>ce_ReasonCodes := append_unique (ce_ReasonCodes e) c\<rparr>"

definition ce_missing :: "CompletionEvaluation \<Rightarrow> CompletionEvaluation" where
  "ce_missing e = e\<lparr>ce_MissingEvidenceCount := ce_MissingEvidenceCount e + 1\<rparr>"

definition ce_stale :: "CompletionEvaluation \<Rightarrow> CompletionEvaluation" where
  "ce_stale e = e\<lparr>ce_StaleEvidenceCount := ce_StaleEvidenceCount e + 1\<rparr>"

text \<open>Later records of the same ID win in the index.\<close>

definition evidence_index :: "Record list \<Rightarrow> string \<rightharpoonup> Record" where
  "evidence_index recs = map_of (map (\<lambda>r. (re_ID r, r)) (List.rev recs))"

text \<open>The scan of the evidence a criterion names, with what it counts.\<close>

fun scan_evidence :: "(string \<rightharpoonup> Record) \<Rightarrow> string list \<Rightarrow> CompletionEvaluation \<Rightarrow> CompletionEvaluation \<times> bool" where
  "scan_evidence idx [] e = (e, False)"
| "scan_evidence idx (i # is) e =
     (case idx i of
        None \<Rightarrow> scan_evidence idx is (ce_reason ''REASON-EVIDENCE-NOT-FOUND'' (ce_missing e))
      | Some r \<Rightarrow>
          if re_Stale r then scan_evidence idx is (ce_reason ''REASON-EVIDENCE-STALE'' (ce_stale e))
          else (case scan_evidence idx is e of (e', _) \<Rightarrow> (e', True)))"

definition fresh_evidence :: "(string \<rightharpoonup> Record) \<Rightarrow> string list \<Rightarrow> bool" where
  "fresh_evidence idx is \<longleftrightarrow> list_ex (\<lambda>i. case idx i of None \<Rightarrow> False | Some r \<Rightarrow> \<not> re_Stale r) is"

definition ce_refuse :: "evaluation \<Rightarrow> CompletionEvaluation \<Rightarrow> evaluation" where
  "ce_refuse s e = s\<lparr>el_eval := e, el_allAccepted := False, el_allEvidenced := False\<rparr>"

definition evaluate_criterion :: "(string \<rightharpoonup> Record) \<Rightarrow> AcceptanceCriterion \<Rightarrow> evaluation \<Rightarrow> evaluation" where
  "evaluate_criterion idx c s =
     (let e = el_eval s; st = ac_Status c; no = ce_unsatisfied (ac_ID c) e in
      if \<not> ac_Required c then s
      else if st = ''uncovered'' \<or> st = ''planned'' then ce_refuse s (ce_reason ''REASON-CRITERION-UNCOVERED'' no)
      else if st = ''implemented'' then ce_refuse s (ce_reason ''REASON-IMPLEMENTED-ONLY-REJECTED'' no)
      else if st = ''blocked_external'' then ce_refuse s (ce_reason ''REASON-CRITERION-BLOCKED-EXTERNAL'' no)
      else if st = ''waived'' then
        (if blank (ac_WaivedReason c) then ce_refuse s (ce_reason ''REASON-UNJUSTIFIED-WAIVER'' no) else s)
      else if st = ''evidenced'' \<or> st = ''verified'' then
        (if ac_EvidenceIDs c = [] then ce_refuse s (ce_reason ''REASON-EVIDENCE-MISSING'' (ce_missing no))
         else (case scan_evidence idx (ac_EvidenceIDs c) e of
             (e', True) \<Rightarrow> s\<lparr>el_eval := e', el_allAccepted := False\<rparr>
           | (e', False) \<Rightarrow> ce_refuse s (ce_unsatisfied (ac_ID c) e')))
      else if st = ''accepted'' then
        (if ac_EvidenceIDs c = [] then ce_refuse s (ce_reason ''REASON-EVIDENCE-MISSING'' (ce_missing no))
         else if fresh_evidence idx (ac_EvidenceIDs c) then s else ce_refuse s no)
      else ce_refuse s (ce_reason ''REASON-UNKNOWN-ACCEPTANCE-STATUS'' no))"

definition EvaluateCompletion :: "string \<Rightarrow> AcceptanceCriterion list \<Rightarrow> Record list \<Rightarrow> CompletionEvaluation" where
  "EvaluateCompletion goalID criteria registry =
     (let e0 = \<lparr>ce_GoalID = goalID, ce_CanComplete = False, ce_DerivedState = [], ce_Unsatisfied = [], ce_StaleEvidenceCount = 0,
             ce_MissingEvidenceCount = 0, ce_ReasonCodes = [], ce_Explanation = []\<rparr> in
      if criteria = []
      then e0\<lparr>ce_DerivedState := ''uncovered'', ce_ReasonCodes := [''REASON-NO-CRITERIA-DEFINED''],
             ce_Explanation := ''Goal cannot be completed: no acceptance criteria defined.''\<rparr>
      else
        let s = fold (evaluate_criterion (evidence_index registry)) criteria \<lparr>el_eval = e0, el_allAccepted = True, el_allEvidenced = True\<rparr>;
            e = el_eval s in
        if ce_Unsatisfied e \<noteq> []
        then e\<lparr>ce_CanComplete := False, ce_DerivedState := ''incomplete'',
               ce_Explanation := ''Goal cannot complete: '' @ itoa (int (length (ce_Unsatisfied e))) @ '' criteria unsatisfied (''
                 @ join '', '' (ce_Unsatisfied e) @ '')''\<rparr>
        else if el_allAccepted s
        then ce_reason ''REASON-RELEASE-ACCEPTED'' (e\<lparr>ce_CanComplete := True, ce_DerivedState := ''accepted'',
               ce_Explanation := ''All criteria verified and formally accepted.''\<rparr>)
        else if el_allEvidenced s
        then ce_reason ''REASON-TOTAL-ASSURANCE-SATISFIED'' (e\<lparr>ce_CanComplete := True, ce_DerivedState := ''verified'',
               ce_Explanation := ''All criteria evidenced with fresh, verified evidence records.''\<rparr>)
        else e\<lparr>ce_CanComplete := True\<rparr>)"

text \<open>What the verdict should be: a required criterion stands on fresh evidence or on a waiver with a reason.\<close>

definition satisfied :: "(string \<rightharpoonup> Record) \<Rightarrow> AcceptanceCriterion \<Rightarrow> bool" where
  "satisfied idx c \<longleftrightarrow>
     (ac_Status c = ''waived'' \<and> \<not> blank (ac_WaivedReason c)) \<or>
     (ac_Status c \<in> {''evidenced'', ''verified'', ''accepted''} \<and>
      (\<exists>i\<in>set (ac_EvidenceIDs c). \<exists>r. idx i = Some r \<and> \<not> re_Stale r))"

lemma reason_fields [simp]: "ce_Unsatisfied (ce_reason c e) = ce_Unsatisfied e" "ce_Unsatisfied (ce_missing e) = ce_Unsatisfied e"
  "ce_Unsatisfied (ce_stale e) = ce_Unsatisfied e" "ce_Unsatisfied (ce_unsatisfied i e) = ce_Unsatisfied e @ [i]"
  by (simp_all add: ce_reason_def ce_missing_def ce_stale_def ce_unsatisfied_def)

lemma refuse_fields [simp]: "el_eval (ce_refuse s e) = e" "\<not> el_allAccepted (ce_refuse s e)" "\<not> el_allEvidenced (ce_refuse s e)"
  by (simp_all add: ce_refuse_def)

lemma scan_evidence_unsat: "ce_Unsatisfied (fst (scan_evidence idx is e)) = ce_Unsatisfied e"
  by (induction idx "is" e rule: scan_evidence.induct) (simp_all split: option.split prod.split, metis fst_conv)

lemma scan_evidence_fresh: "snd (scan_evidence idx is e) = fresh_evidence idx is"
  by (induction idx "is" e rule: scan_evidence.induct) (auto simp: fresh_evidence_def split: option.split prod.split)

lemma fresh_evidence_iff: "fresh_evidence idx is \<longleftrightarrow> (\<exists>i\<in>set is. \<exists>r. idx i = Some r \<and> \<not> re_Stale r)"
  by (auto simp: fresh_evidence_def list_ex_iff split: option.splits)


lemma evaluate_criterion_unsat:
  "ce_Unsatisfied (el_eval (evaluate_criterion idx c s)) =
     ce_Unsatisfied (el_eval s) @ (if ac_Required c \<and> \<not> satisfied idx c then [ac_ID c] else [])"
proof (cases "ac_Required c \<and> (ac_Status c = ''evidenced'' \<or> ac_Status c = ''verified'') \<and> ac_EvidenceIDs c \<noteq> []")
  case True
  obtain e' b where sc: "scan_evidence idx (ac_EvidenceIDs c) (el_eval s) = (e', b)" by fastforce
  with scan_evidence_unsat[of idx "ac_EvidenceIDs c" "el_eval s"] scan_evidence_fresh[of idx "ac_EvidenceIDs c" "el_eval s"]
  have "ce_Unsatisfied e' = ce_Unsatisfied (el_eval s)" and
    b: "b \<longleftrightarrow> (\<exists>i\<in>set (ac_EvidenceIDs c). \<exists>r. idx i = Some r \<and> \<not> re_Stale r)" by (simp_all add: fresh_evidence_iff)
  then show ?thesis using True sc
  proof (cases b)
    case t: True
    with b have "satisfied idx c" using True by (auto simp: satisfied_def)
    with True sc t \<open>ce_Unsatisfied e' = _\<close> show ?thesis by (auto simp: evaluate_criterion_def Let_def)
  next
    case f: False
    with b have "\<not> satisfied idx c" using True by (auto simp: satisfied_def)
    with True sc f \<open>ce_Unsatisfied e' = _\<close> show ?thesis by (auto simp: evaluate_criterion_def Let_def)
  qed
next
  case False
  then show ?thesis by (auto simp: evaluate_criterion_def Let_def satisfied_def fresh_evidence_iff)
qed

lemma fold_criteria_unsat:
  "ce_Unsatisfied (el_eval (fold (evaluate_criterion idx) cs s)) =
     ce_Unsatisfied (el_eval s) @ map ac_ID (filter (\<lambda>c. ac_Required c \<and> \<not> satisfied idx c) cs)"
  by (induction cs arbitrary: s) (simp_all add: evaluate_criterion_unsat)

lemma EvaluateCompletion_iff:
  "ce_CanComplete (EvaluateCompletion g cs recs) \<longleftrightarrow>
     cs \<noteq> [] \<and> (\<forall>c\<in>set cs. ac_Required c \<longrightarrow> satisfied (evidence_index recs) c)"
  by (auto simp: EvaluateCompletion_def Let_def fold_criteria_unsat ce_reason_def filter_empty_conv)

lemma EvaluateCompletion_unsatisfied:
  "cs \<noteq> [] \<Longrightarrow> ce_Unsatisfied (EvaluateCompletion g cs recs) =
     map ac_ID (filter (\<lambda>c. ac_Required c \<and> \<not> satisfied (evidence_index recs) c) cs)"
  by (auto simp: EvaluateCompletion_def Let_def fold_criteria_unsat ce_reason_def)

section \<open>Typed and untyped validation agree\<close>

text \<open>A record as JSON carries the fields the validator reads; an empty confidence is omitted.\<close>

definition record_json :: "Record \<Rightarrow> (string \<times> jval) list" where
  "record_json r = [(''id'', JStr (re_ID r)), (''type'', JStr (re_Type r)), (''producer'', JStr (re_Producer r)),
     (''timestamp'', JStr (re_Timestamp r)), (''status'', JStr (re_Status r)), (''goal_id'', JStr (re_GoalID r))]
     @ (if re_Confidence r = [] then [] else [(''confidence'', JStr (re_Confidence r))])"

lemma ValidateRecord_core:
  "ValidateRecord perr r = None \<longleftrightarrow>
     \<not> blank (re_ID r) \<and> re_Type r \<in> ValidTypes \<and> \<not> blank (re_Producer r) \<and> \<not> blank (re_Timestamp r) \<and> \<not> blank (re_Status r)
     \<and> \<not> blank (re_GoalID r) \<and> rfc3339 (re_Timestamp r) \<and> re_Confidence r \<in> {[], ''low'', ''medium'', ''high'', ''unknown''}"
proof -
  have "plain_char (CHR ''t'')" "plain_char (CHR ''b'')" "plain_char (CHR ''l'')" "plain_char (CHR ''s'')" "plain_char (CHR ''a'')"
    "plain_char (CHR ''r'')" "plain_char (CHR ''c'')" "plain_char (CHR ''m'')" "plain_char (CHR ''e'')" "plain_char (CHR ''h'')"
    by code_simp+
  then have "t \<in> ValidTypes \<Longrightarrow> \<not> blank t" for t by (auto simp: ValidTypes_def blank_plain)
  then show ?thesis by (auto simp: ValidateRecord_def)
qed

lemma Validate_typed:
  assumes "trim_space (re_Type r) = re_Type r" "trim_space (re_Timestamp r) = re_Timestamp r"
  shows "Validate perr num (record_json r) = None \<longleftrightarrow> ValidateRecord perr r = None"
proof -
  let ?v = "validated_record num (record_json r)"
  have f: "requiredString num (record_json r) ''id'' = trim_space (re_ID r)"
    "requiredString num (record_json r) ''type'' = re_Type r"
    "requiredString num (record_json r) ''producer'' = trim_space (re_Producer r)"
    "requiredString num (record_json r) ''timestamp'' = re_Timestamp r"
    "requiredString num (record_json r) ''status'' = trim_space (re_Status r)"
    "requiredString num (record_json r) ''goal_id'' = trim_space (re_GoalID r)"
    "optionalString num (record_json r) ''confidence'' = re_Confidence r"
    using assms by (simp_all add: requiredString_def optionalString_def record_json_def)
  have "ValidateRecord perr ?v = None \<longleftrightarrow> ValidateRecord perr r = None"
    by (simp add: ValidateRecord_core validated_record_def f blank_def)
  moreover have empty: "[] \<notin> ValidTypes" by (simp add: ValidTypes_def)
  moreover have "ValidateRecord perr r = None \<Longrightarrow> filter (\<lambda>k. requiredString num (record_json r) k = []) required_fields = []"
    using assms empty by (auto simp: ValidateRecord_core required_fields_def f blank_def)
  ultimately show ?thesis by (auto simp: Validate_def Let_def)
qed

section \<open>Properties\<close>

lemma format_rfc3339_trimmed: "utc_ok t \<Longrightarrow> trim_space (format_rfc3339 t) = format_rfc3339 t"
proof (rule trim_space_ends)
  assume "utc_ok t"
  then have y: "ut_year t < 10000" by (simp add: utc_ok_def)
  then obtain d ds where d: "pad4 (ut_year t) = d # ds" "is_digit d"
    using pad4_ok[OF y] by (cases "pad4 (ut_year t)") auto
  show "format_rfc3339 t \<noteq> []" by (simp add: format_rfc3339_def)
  show "plain_char (hd (format_rfc3339 t))"
    using d by (auto simp: format_rfc3339_def is_digit_def plain_char_def)
  show "plain_char (last (format_rfc3339 t))" by (simp add: format_rfc3339_def plain_char_def)
qed

text \<open>
  C32: evidence the harness writes is well typed. Whatever the run, goal text, usage and tool
  reports were, at any UTC time of a four-digit year the record of the run passes the typed and
  the untyped validator, is written as built, and says \<open>passed\<close> only for a complete run
  that was not stopped and in which no tool failed.
\<close>

theorem harness_evidence_is_valid:
  assumes "utc_ok t"
  shows "\<exists>r. WriteEvidence perr num EvidenceWritten (format_rfc3339 t) runID goalID phase stopReason usage reports = ((r, None), Some r) \<and>
    ValidateRecord perr r = None \<and> Validate perr num (record_json r) = None \<and> re_Type r \<in> ValidTypes \<and>
    (re_Status r = ''passed'' \<longleftrightarrow>
       equal_fold phase ''complete'' \<and> \<not> equal_fold stopReason ''cancelled'' \<and> \<not> equal_fold stopReason ''denied'' \<and>
       \<not> equal_fold stopReason ''failed'' \<and> (\<forall>x\<in>set reports. tp_ExitCode x = 0))"
proof -
  let ?r = "run_record num (format_rfc3339 t) runID goalID phase stopReason usage reports"
  have v: "ValidateRecord perr ?r = None" by (rule run_record_valid[OF format_rfc3339_parses[OF assms]])
  have f: "re_Type ?r = ''harness_run''" "re_Timestamp ?r = format_rfc3339 t" "re_Status ?r = runStatusFrom phase stopReason reports"
    by (simp_all add: run_record_def Let_def)
  have "trim_space ''harness_run'' = ''harness_run''" by (rule trim_space_ends; code_simp)
  with f format_rfc3339_trimmed[OF assms] v have "Validate perr num (record_json ?r) = None"
    by (subst Validate_typed) simp_all
  with v f show ?thesis
    by (intro exI[of _ ?r]) (simp add: WriteEvidence_def Let_def ValidTypes_def runStatusFrom_passed)
qed

definition sample_time :: utc_time where
  "sample_time = \<lparr>ut_year = 2028, ut_month = 2, ut_day = 29, ut_hour = 23, ut_min = 59, ut_sec = 5\<rparr>"

theorem harness_evidence_is_valid_witness:
  "\<exists>r. WriteEvidence (\<lambda>s. []) (\<lambda>q. ''n'') EvidenceWritten (format_rfc3339 sample_time) ''run-1'' ''P01-G01'' ''complete'' [] []
     [\<lparr>tp_Name = ''test.run'', tp_ExitCode = 1\<rparr>] = ((r, None), Some r) \<and> re_Status r \<noteq> ''passed''"
proof -
  have "utc_ok sample_time" by (simp add: utc_ok_def sample_time_def days_in_def leap_year_def)
  from harness_evidence_is_valid[OF this, of "\<lambda>s. []" "\<lambda>q. ''n''" "''run-1''" "''P01-G01''" "''complete''" "[]" "[]"
      "[\<lparr>tp_Name = ''test.run'', tp_ExitCode = 1\<rparr>]"]
  show ?thesis by auto
qed

text \<open>
  C33: completion is derived from evidence. A goal can complete exactly if it has criteria and
  each required one is waived with a reason, or is evidenced, verified or accepted with a
  record that exists and is not stale; the criteria listed as unsatisfied are the others.
\<close>

theorem completion_is_derived:
  "(ce_CanComplete (EvaluateCompletion g criteria registry) \<longleftrightarrow>
     criteria \<noteq> [] \<and> (\<forall>c\<in>set criteria. ac_Required c \<longrightarrow> satisfied (evidence_index registry) c)) \<and>
   (criteria \<noteq> [] \<longrightarrow> ce_Unsatisfied (EvaluateCompletion g criteria registry) =
     map ac_ID (filter (\<lambda>c. ac_Required c \<and> \<not> satisfied (evidence_index registry) c) criteria))"
  by (simp add: EvaluateCompletion_iff EvaluateCompletion_unsatisfied)

definition sample_criteria :: "AcceptanceCriterion list" where
  "sample_criteria =
     [\<lparr>ac_ID = ''A1'', ac_Description = [], ac_Required = True, ac_Status = ''verified'', ac_EvidenceIDs = [''e0'', ''e1''], ac_WaivedReason = []\<rparr>,
      \<lparr>ac_ID = ''A2'', ac_Description = [], ac_Required = False, ac_Status = ''planned'', ac_EvidenceIDs = [], ac_WaivedReason = []\<rparr>]"

theorem completion_is_derived_witness:
  "ce_CanComplete (EvaluateCompletion ''g'' sample_criteria [NewRecord ''2026-01-01T00:00:00Z'' ''e1'' ''test'' ''go'' ''g'' ''passed'']) \<and>
   ce_Unsatisfied (EvaluateCompletion ''g'' sample_criteria []) = [''A1'']"
  using completion_is_derived[of "''g''" sample_criteria "[NewRecord ''2026-01-01T00:00:00Z'' ''e1'' ''test'' ''go'' ''g'' ''passed'']"]
    completion_is_derived[of "''g''" sample_criteria "[]"]
  by (simp add: sample_criteria_def satisfied_def evidence_index_def NewRecord_def zero_record_def)

end
