(* ===== verification/Goals.thy ===== *)
theory Goals
  imports Evidence GoPath
begin

text \<open>
  \<open>internal/protocol/goals\<close>: the goal state machine (\<open>goals.go\<close>, \<open>state.go\<close>) and the
  service of \<open>internal/cliops/ops.go\<close> that feeds it the evidence store. A goal is the JSON
  object of its file; every operation loads the file, works on the object and writes it back.
  The digest of the locked content (SHA-256 of its JSON encoding), the clock and the outcome
  of the write are the environment's.
\<close>

section \<open>Goals\<close>

type_synonym goal = "string \<rightharpoonup> jval"

text \<open>What the lock digest covers, as \<open>ComputeDigest\<close> gathers it.\<close>

record goal_content =
  gc_acceptance :: "string list"
  gc_constraints :: "string list"
  gc_gates :: jval
  gc_non_goals :: "string list"
  gc_objective :: string

datatype goal_file = GoalJson goal | GoalUnreadable string

text \<open>\<open>ge_write\<close> is \<open>None\<close> when the write succeeds, else the error and what is left of the file.\<close>

record goal_env =
  ge_num :: "rat \<Rightarrow> string"
  ge_perr :: "string \<Rightarrow> string"
  ge_digest :: "goal_content \<Rightarrow> string"
  ge_lockedAt :: string
  ge_at :: string
  ge_write :: "(string \<times> goal_file) option"

definition Transitions :: "string \<Rightarrow> string list" where
  "Transitions s =
     (if s = ''DRAFT'' then [''PLANNED'', ''BLOCKED'']
      else if s = ''PLANNED'' then [''LOCKED'', ''DRAFT'', ''BLOCKED'']
      else if s = ''LOCKED'' then [''EXECUTING'', ''BLOCKED'']
      else if s = ''EXECUTING'' then [''VERIFYING'', ''BLOCKED'']
      else if s = ''VERIFYING'' then [''REVIEWING'', ''EXECUTING'', ''BLOCKED'']
      else if s = ''REVIEWING'' then [''DONE'', ''EXECUTING'', ''BLOCKED'']
      else if s = ''BLOCKED'' then [''PLANNED'', ''LOCKED'', ''EXECUTING''] else [])"

definition allowedTransition :: "string \<Rightarrow> string \<Rightarrow> bool" where
  "allowedTransition cur target \<longleftrightarrow> target \<in> set (Transitions cur)"

definition strList :: "(rat \<Rightarrow> string) \<Rightarrow> jval \<Rightarrow> string list" where
  "strList num v = (case v of JArr items \<Rightarrow> sort (map (\<lambda>i. trim_space (sprint num i)) items) | _ \<Rightarrow> [])"

definition content_of :: "(rat \<Rightarrow> string) \<Rightarrow> goal \<Rightarrow> goal_content" where
  "content_of num g = \<lparr>gc_acceptance = strList num (jget g ''acceptance''), gc_constraints = strList num (jget g ''constraints''),
     gc_gates = jget g ''gates'', gc_non_goals = strList num (jget g ''non_goals''),
     gc_objective = trim_space (sprint num (jget g ''objective''))\<rparr>"

definition ComputeDigest :: "goal_env \<Rightarrow> goal \<Rightarrow> string" where
  "ComputeDigest env g = ge_digest env (content_of (ge_num env) g)"

definition state_of :: "goal_env \<Rightarrow> goal \<Rightarrow> string" where
  "state_of env g = to_upper (sprint (ge_num env) (jget g ''state''))"

definition VerifyLock :: "goal_env \<Rightarrow> goal \<Rightarrow> bool \<times> string" where
  "VerifyLock env g =
     (case jget g ''lock'' of
        JObj lock \<Rightarrow>
          let expected = as_string0 (jobj_get lock ''digest''); actual = ComputeDigest env g in
          if expected \<noteq> actual then (False, ''Lock digest mismatch: expected '' @ expected @ '', got '' @ actual)
          else (True, ''Lock integrity valid.'')
      | _ \<Rightarrow>
          if state_of env g \<in> {''LOCKED'', ''EXECUTING'', ''VERIFYING'', ''REVIEWING'', ''DONE''}
          then (False, ''Goal is in locked/executing state but lacks a lock record.'')
          else (True, ''Goal is not locked.''))"

definition NewGoal :: "string \<Rightarrow> string \<Rightarrow> string \<Rightarrow> string \<Rightarrow> string \<Rightarrow> goal" where
  "NewGoal stamp i title phase objective =
     [''id'' \<mapsto> JStr i, ''title'' \<mapsto> JStr title, ''phase'' \<mapsto> JStr phase, ''revision'' \<mapsto> JNum 1, ''state'' \<mapsto> JStr ''DRAFT'',
      ''objective'' \<mapsto> JStr (if objective = [] then ''Define the measurable outcome for '' @ title @ ''.'' else objective),
      ''constraints'' \<mapsto> JArr [], ''non_goals'' \<mapsto> JArr [],
      ''acceptance'' \<mapsto> JArr [JStr ''Replace this placeholder with objective acceptance criteria.''],
      ''gates'' \<mapsto> JObj [(''build'', JStr ''required''), (''documentation_impact'', JStr ''required''),
        (''project_intelligence'', JStr ''required''), (''review'', JStr ''required''), (''tests'', JStr ''required'')],
      ''context'' \<mapsto> JObj [(''budget_profile'', JStr ''medium''), (''max_delegation_depth'', JNum 1)],
      ''dependencies'' \<mapsto> JArr [], ''evidence'' \<mapsto> JArr [],
      ''history'' \<mapsto> JArr [JObj [(''at'', JStr stamp), (''event'', JStr ''created''), (''state'', JStr ''DRAFT'')]]]"

section \<open>Evidence of a goal\<close>

text \<open>
  The IDs a goal names: bare strings and objects with an \<open>id\<close>. The other two shapes of the
  switch (\<open>[]string\<close>, \<open>[]map\<close>) never come out of a decoded file.
\<close>

definition evidence_id :: "(rat \<Rightarrow> string) \<Rightarrow> jval \<Rightarrow> string list" where
  "evidence_id num item =
     (case item of
        JStr s \<Rightarrow> if trim_space s \<noteq> [] then [trim_space s] else []
      | JObj kvs \<Rightarrow>
          let i = trim_space (sprint num (jobj_get kvs ''id'')) in if i \<noteq> [] \<and> i \<noteq> ''<nil>'' then [i] else []
      | _ \<Rightarrow> [])"

definition goalEvidenceIDs :: "(rat \<Rightarrow> string) \<Rightarrow> goal \<Rightarrow> string list" where
  "goalEvidenceIDs num g = concat (map (evidence_id num) (as_list (jget g ''evidence'')))"

definition evidence_problem :: "goal_env \<Rightarrow> goal \<Rightarrow> (string \<rightharpoonup> Record) \<Rightarrow> string \<Rightarrow> string list" where
  "evidence_problem env g byID i =
     (case byID i of
        None \<Rightarrow> [i @ '': no such evidence record'']
      | Some r \<Rightarrow>
          (case ValidateRecord (ge_perr env) r of
             Some e \<Rightarrow> [i @ '': '' @ e]
           | None \<Rightarrow>
               if re_Stale r then [i @ '': evidence is stale'']
               else let goalID = trim_space (sprint (ge_num env) (jget g ''id'')) in
                 if goalID \<noteq> [] \<and> re_GoalID r \<noteq> goalID
                 then [i @ '': belongs to goal '' @ quoted (re_GoalID r) @ '', not '' @ quoted goalID] else []))"

text \<open>\<open>records\<close> is \<open>None\<close> for a nil slice: the caller cannot see the store.\<close>

definition verifyGoalEvidence :: "goal_env \<Rightarrow> goal \<Rightarrow> Record list option \<Rightarrow> string option" where
  "verifyGoalEvidence env g records =
     (let entries = goalEvidenceIDs (ge_num env) g in
      if entries = [] then Some ''A goal cannot be marked DONE without evidence.''
      else case records of
        None \<Rightarrow> Some (''A goal cannot be marked DONE without resolvable evidence: no evidence records were supplied for ''
                  @ itoa (int (length entries)) @ '' reference(s).'')
      | Some recs \<Rightarrow>
          let problems = concat (map (evidence_problem env g (evidence_index recs)) entries) in
          if problems \<noteq> [] then Some (''A goal cannot be marked DONE: '' @ join ''; '' (sort problems)) else None)"

section \<open>Transitions\<close>

definition saveGoal :: "goal_env \<Rightarrow> string \<Rightarrow> goal \<Rightarrow> goal_file \<Rightarrow> goal_file \<times> string option" where
  "saveGoal env path g old =
     (if to_lower (path_ext path) \<noteq> ''.json''
      then (old, Some ''Legacy YAML Goal is read-only in v0.2; migrate it to .goal.json before changing state.'')
      else case ge_write env of
        None \<Rightarrow> (GoalJson g, None)
      | Some (e, left) \<Rightarrow> (left, Some e))"

definition revision_of :: "goal \<Rightarrow> int" where
  "revision_of g = (case jget g ''revision'' of JNum r \<Rightarrow> trunc_rat r | _ \<Rightarrow> 1)"

definition lock_goal :: "goal_env \<Rightarrow> goal \<Rightarrow> goal" where
  "lock_goal env g =
     (let g = g(''revision'' \<mapsto> JNum (of_int (revision_of g))) in
      g(''lock'' \<mapsto> JObj [(''revision'', JNum (of_int (revision_of g))), (''digest'', JStr (ComputeDigest env g)),
         (''locked_at'', JStr (ge_lockedAt env))]))"

definition move_goal :: "goal_env \<Rightarrow> string \<Rightarrow> string \<Rightarrow> string \<Rightarrow> goal \<Rightarrow> goal" where
  "move_goal env cur target reason g =
     g(''state'' \<mapsto> JStr target,
       ''history'' \<mapsto> JArr (as_list (jget g ''history'') @
         [JObj [(''at'', JStr (ge_at env)), (''event'', JStr ''state-transition''), (''from'', JStr cur), (''to'', JStr target),
           (''reason'', JStr reason)]]))"

definition guarded_states :: "string set" where
  "guarded_states = {''LOCKED'', ''EXECUTING'', ''VERIFYING'', ''REVIEWING''}"

text \<open>Entering LOCKED writes the lock; leaving a guarded state that has one checks it.\<close>

definition lock_step :: "goal_env \<Rightarrow> string \<Rightarrow> string \<Rightarrow> goal \<Rightarrow> (string, goal) outcome" where
  "lock_step env cur target g =
     (if target = ''LOCKED'' then Inr (lock_goal env g)
      else if cur \<in> guarded_states \<and> jget g ''lock'' \<noteq> JNull \<and> \<not> fst (VerifyLock env g)
      then Inl (''Illegal goal mutation detected: '' @ snd (VerifyLock env g))
      else Inr g)"

definition TransitionGoalWithEvidence :: "goal_env \<Rightarrow> string \<Rightarrow> string \<Rightarrow> string \<Rightarrow> Record list option \<Rightarrow> goal_file
    \<Rightarrow> goal_file \<times> (string, goal) outcome" where
  "TransitionGoalWithEvidence env path target0 reason records file =
     (case file of
        GoalUnreadable e \<Rightarrow> (file, Inl e)
      | GoalJson g \<Rightarrow>
          let cur = state_of env g; target = to_upper target0 in
          if \<not> allowedTransition cur target then (file, Inl (''Invalid goal transition: '' @ cur @ '' -> '' @ target))
          else case (if target = ''DONE'' then verifyGoalEvidence env g records else None) of
            Some e \<Rightarrow> (file, Inl e)
          | None \<Rightarrow>
              (case lock_step env cur target g of
                 Inl e \<Rightarrow> (file, Inl e)
               | Inr g1 \<Rightarrow>
                   let g2 = move_goal env cur target reason g1 in
                   (case saveGoal env path g2 file of
                      (file', Some e) \<Rightarrow> (file', Inl e)
                    | (file', None) \<Rightarrow> (file', Inr g2))))"

definition TransitionGoal :: "goal_env \<Rightarrow> string \<Rightarrow> string \<Rightarrow> string \<Rightarrow> goal_file \<Rightarrow> goal_file \<times> (string, goal) outcome" where
  "TransitionGoal env path target reason file = TransitionGoalWithEvidence env path target reason None file"

section \<open>Amendments\<close>

definition amendableFields :: "string list" where
  "amendableFields = [''objective'', ''acceptance'', ''constraints'', ''non_goals'', ''gates'', ''dependencies'', ''context'']"

definition amend_changes :: "(string \<rightharpoonup> jval) \<Rightarrow> (string \<times> jval) list" where
  "amend_changes amendment =
     (case as_obj (jget amendment ''changes'') of
        Some kvs \<Rightarrow> kvs
      | None \<Rightarrow> concat (map (\<lambda>k. case amendment k of None \<Rightarrow> [] | Some v \<Rightarrow> [(k, v)]) amendableFields))"

definition apply_changes :: "(string \<times> jval) list \<Rightarrow> goal \<Rightarrow> goal" where
  "apply_changes changes g =
     fold (\<lambda>k g. case map_of changes k of None \<Rightarrow> g | Some v \<Rightarrow> g(k \<mapsto> v)) amendableFields g"

definition or_default :: "jval \<Rightarrow> string \<Rightarrow> string" where
  "or_default v d = (if as_string0 v = [] then d else as_string0 v)"

definition AmendGoal :: "goal_env \<Rightarrow> string \<Rightarrow> (string \<rightharpoonup> jval) \<Rightarrow> goal_file \<Rightarrow> goal_file \<times> (string, goal) outcome" where
  "AmendGoal env path amendment file =
     (case file of
        GoalUnreadable e \<Rightarrow> (file, Inl e)
      | GoalJson g \<Rightarrow>
          let cur = state_of env g in
          if cur \<notin> insert ''BLOCKED'' guarded_states
          then (file, Inl (''Cannot amend goal in '' @ cur @ '' state (must be locked/active).''))
          else
            let newRev = revision_of g + 1;
                changes = amend_changes amendment;
                g1 = apply_changes changes (g(''revision'' \<mapsto> JNum (of_int newRev)));
                i = or_default (jget amendment ''id'') (''AMD-'' @ pad3 newRev);
                reason = or_default (jget amendment ''reason'') ''Formal amendment'';
                approver = or_default (jget amendment ''approved_by'') ''human'';
                stamp = or_default (jget amendment ''approved_at'') (ge_at env);
                digest = ComputeDigest env g1;
                entry = JObj [(''id'', JStr i), (''goal_id'', jget g1 ''id''), (''revision'', JNum (of_int newRev)), (''reason'', JStr reason),
                  (''approved_by'', JStr approver), (''approved_at'', JStr stamp), (''changes'', JObj changes), (''digest'', JStr digest)];
                g2 = g1(''amendments'' \<mapsto> JArr (as_list (jget g1 ''amendments'') @ [entry]));
                g3 = g2(''lock'' \<mapsto> JObj [(''revision'', JNum (of_int newRev)), (''digest'', JStr digest), (''locked_at'', JStr stamp)]);
                g4 = g3(''history'' \<mapsto> JArr (as_list (jget g3 ''history'') @ [JObj [(''at'', JStr stamp), (''event'', JStr ''amended''),
                  (''revision'', JNum (of_int newRev)), (''reason'', JStr reason), (''approved_by'', JStr approver)]]))
            in if to_lower (path_ext path) \<noteq> ''.json''
               then (file, Inl ''Legacy YAML Goal is read-only; migrate to JSON first.'')
               else (case saveGoal env path g4 file of
                       (file', Some e) \<Rightarrow> (file', Inl e)
                     | (file', None) \<Rightarrow> (file', Inr g4)))"


section \<open>Linking runs\<close>

text \<open>
  \<open>AppendRunEvidence\<close> walks the goal files in lexical order and links the run to the first
  whose objective or ID is the run's goal. \<open>run_entry\<close> is the entry it appends, under an ID made
  from the clock.
\<close>

definition is_goal_name :: "string \<Rightarrow> bool" where
  "is_goal_name path \<longleftrightarrow> has_suffix path ''.goal.json'' \<or> has_suffix path ''.goal.yaml'' \<or> has_suffix path ''.goal.yml''"

definition run_entry :: "nat \<Rightarrow> string \<Rightarrow> string \<Rightarrow> jval" where
  "run_entry nanos artifact phase =
     JObj [(''id'', JStr (''ev-run-'' @ dec_nat nanos)), (''type'', JStr ''harness_run''),
       (''verified'', JBool (equal_fold phase ''complete'' \<or> equal_fold phase ''completed'')), (''artifact'', JStr artifact)]"

definition names_goal :: "goal_env \<Rightarrow> string \<Rightarrow> goal \<Rightarrow> bool" where
  "names_goal env needle g \<longleftrightarrow>
     trim_space (sprint (ge_num env) (jget g ''objective'')) = needle \<or> trim_space (sprint (ge_num env) (jget g ''id'')) = needle"

definition already_linked :: "goal_env \<Rightarrow> string \<Rightarrow> goal \<Rightarrow> bool" where
  "already_linked env artifact g \<longleftrightarrow>
     list_ex (\<lambda>e. case e of JObj kvs \<Rightarrow> sprint (ge_num env) (jobj_get kvs ''artifact'') = artifact | _ \<Rightarrow> False)
       (as_list (jget g ''evidence''))"

definition link_goal :: "nat \<Rightarrow> string \<Rightarrow> string \<Rightarrow> goal \<Rightarrow> goal" where
  "link_goal nanos artifact phase g =
     g(''evidence'' \<mapsto> JArr (as_list (jget g ''evidence'') @ [run_entry nanos artifact phase]))"

fun link_run :: "goal_env \<Rightarrow> nat \<Rightarrow> string \<Rightarrow> string \<Rightarrow> string \<Rightarrow> (string \<times> goal_file) list \<Rightarrow> (string \<times> goal_file) list \<times> string option" where
  "link_run env nanos needle artifact phase [] = ([], None)"
| "link_run env nanos needle artifact phase ((path, file) # files) =
     (let skip = (case link_run env nanos needle artifact phase files of (fs, e) \<Rightarrow> ((path, file) # fs, e)) in
      if \<not> is_goal_name path then skip
      else case file of
        GoalUnreadable e \<Rightarrow> skip
      | GoalJson g \<Rightarrow>
          if \<not> names_goal env needle g then skip
          else if already_linked env artifact g then ((path, file) # files, None)
          else (case saveGoal env path (link_goal nanos artifact phase g) file of
                  (file', e) \<Rightarrow> ((path, file') # files, e)))"

definition AppendRunEvidence :: "goal_env \<Rightarrow> nat \<Rightarrow> string \<Rightarrow> string \<Rightarrow> string \<Rightarrow> (string \<times> goal_file) list
    \<Rightarrow> (string \<times> goal_file) list \<times> string option" where
  "AppendRunEvidence env nanos goalText artifact phase files =
     (if trim_space goalText = [] \<or> artifact = [] then (files, None)
      else link_run env nanos (trim_space goalText) artifact phase files)"

section \<open>The service\<close>

definition base_name :: "string \<Rightarrow> string" where
  "base_name path = last (split_on (CHR ''/'') path)"

definition findGoal :: "string \<Rightarrow> string \<Rightarrow> (string \<times> goal_file) list \<Rightarrow> (string, string) outcome" where
  "findGoal base i files =
     (case find (\<lambda>f. base_name (fst f) \<in> {i @ ''.goal.json'', i @ ''.goal.yaml'', i @ ''.goal.yml''}) files of
        None \<Rightarrow> Inl (''Goal '' @ i @ '' not found in '' @ base)
      | Some f \<Rightarrow> if fst f = [] then Inl (''Goal '' @ i @ '' not found in '' @ base) else Inr (fst f))"

text \<open>The entries of the evidence store in the order \<open>ReadDir\<close> gives them.\<close>

datatype evidence_entry = EvDirectory | EvUnreadable string | EvCorrupt string | EvRecord Record

datatype evidence_store = StoreAbsent | StoreUnreadable string | StoreEntries "(string \<times> evidence_entry) list"

fun load_entries :: "(string \<times> evidence_entry) list \<Rightarrow> (string, Record list) outcome" where
  "load_entries [] = Inr []"
| "load_entries ((name, e) # es) =
     (if e = EvDirectory \<or> \<not> has_prefix name ''evidence-'' \<or> \<not> has_suffix name ''.json'' then load_entries es
      else case e of
        EvUnreadable m \<Rightarrow> Inl (''read '' @ name @ '': '' @ m)
      | EvCorrupt m \<Rightarrow> Inl (''parse '' @ name @ '': '' @ m)
      | EvRecord r \<Rightarrow> (case load_entries es of Inl m \<Rightarrow> Inl m | Inr rs \<Rightarrow> Inr (r # rs))
      | EvDirectory \<Rightarrow> load_entries es)"

definition loadEvidenceRecords :: "evidence_store \<Rightarrow> (string, Record list) outcome" where
  "loadEvidenceRecords store =
     (case store of
        StoreAbsent \<Rightarrow> Inr []
      | StoreUnreadable m \<Rightarrow> Inl (''read evidence store: '' @ m)
      | StoreEntries es \<Rightarrow> load_entries es)"

definition set_file :: "string \<Rightarrow> goal_file \<Rightarrow> (string \<times> goal_file) list \<Rightarrow> (string \<times> goal_file) list" where
  "set_file path f files = map (\<lambda>e. if fst e = path then (path, f) else e) files"

definition GoalState :: "goal_env \<Rightarrow> string \<Rightarrow> evidence_store \<Rightarrow> string \<Rightarrow> string \<Rightarrow> string \<Rightarrow> (string \<times> goal_file) list
    \<Rightarrow> (string \<times> goal_file) list \<times> (string, goal) outcome" where
  "GoalState env base store i state reason files =
     (case findGoal base i files of
        Inl e \<Rightarrow> (files, Inl e)
      | Inr path \<Rightarrow>
          (case loadEvidenceRecords store of
             Inl e \<Rightarrow> (files, Inl e)
           | Inr recs \<Rightarrow>
               (case map_of files path of
                  None \<Rightarrow> (files, Inl path)
                | Some file \<Rightarrow>
                    (case TransitionGoalWithEvidence env path state reason (Some recs) file of
                       (file', r) \<Rightarrow> (set_file path file' files, r)))))"

section \<open>What DONE requires\<close>

lemma evidence_index_mem: "evidence_index recs i = Some r \<Longrightarrow> r \<in> set recs \<and> re_ID r = i"
  by (auto simp: evidence_index_def dest!: map_of_SomeD)

lemma evidence_index_None: "evidence_index recs i = None \<longleftrightarrow> i \<notin> re_ID ` set recs"
  by (simp add: evidence_index_def map_of_eq_None_iff image_image)

definition good_evidence :: "goal_env \<Rightarrow> goal \<Rightarrow> string \<Rightarrow> Record \<Rightarrow> bool" where
  "good_evidence env g i r \<longleftrightarrow>
     re_ID r = i \<and> ValidateRecord (ge_perr env) r = None \<and> \<not> re_Stale r \<and>
     (trim_space (sprint (ge_num env) (jget g ''id'')) = [] \<or> re_GoalID r = trim_space (sprint (ge_num env) (jget g ''id'')))"

lemma evidence_problem_Nil:
  "evidence_problem env g idx i = [] \<longleftrightarrow> (\<exists>r. idx i = Some r \<and> good_evidence env g (re_ID r) r)"
  by (cases "idx i") (auto simp: evidence_problem_def good_evidence_def Let_def split: option.split)

lemma verifyGoalEvidence_None:
  "verifyGoalEvidence env g records = None \<longleftrightarrow>
     goalEvidenceIDs (ge_num env) g \<noteq> [] \<and>
     (\<exists>recs. records = Some recs \<and> (\<forall>i\<in>set (goalEvidenceIDs (ge_num env) g). \<exists>r\<in>set recs.
        evidence_index recs i = Some r \<and> good_evidence env g i r))"
proof -
  have "concat (map (evidence_problem env g (evidence_index recs)) ids) = [] \<longleftrightarrow>
      (\<forall>i\<in>set ids. \<exists>r\<in>set recs. evidence_index recs i = Some r \<and> good_evidence env g i r)" for recs ids
    unfolding concat_case_Nil evidence_problem_Nil using evidence_index_mem by metis
  then show ?thesis by (auto simp: verifyGoalEvidence_def Let_def split: option.splits)
qed

lemma Transition_ok:
  assumes "TransitionGoalWithEvidence env path target reason records file = (file', Inr g')"
  obtains g where "file = GoalJson g" "file' = GoalJson g'" "allowedTransition (state_of env g) (to_upper target)"
    "to_upper target = ''DONE'' \<Longrightarrow> verifyGoalEvidence env g records = None"
    "to_upper target = ''LOCKED'' \<Longrightarrow> g' = move_goal env (state_of env g) ''LOCKED'' reason (lock_goal env g)"
    "to_upper target \<noteq> ''LOCKED'' \<Longrightarrow> g' = move_goal env (state_of env g) (to_upper target) reason g"
    "to_upper target \<noteq> ''LOCKED'' \<Longrightarrow> state_of env g \<in> guarded_states \<Longrightarrow> jget g ''lock'' \<noteq> JNull \<Longrightarrow> fst (VerifyLock env g)"
proof (cases "file")
  case (GoalJson g)
  let ?cur = "state_of env g" and ?t = "to_upper target"
  from assms have a: "allowedTransition ?cur ?t"
    by (auto simp: TransitionGoalWithEvidence_def GoalJson Let_def split: if_splits)
  from assms a have v: "(if ?t = ''DONE'' then verifyGoalEvidence env g records else None) = None"
    by (auto simp: TransitionGoalWithEvidence_def GoalJson Let_def split: option.splits)
  obtain g1 where g1: "lock_step env ?cur ?t g = Inr g1"
    using assms a v by (cases "lock_step env ?cur ?t g") (simp_all add: TransitionGoalWithEvidence_def GoalJson Let_def)
  from assms a v g1 have "file' = GoalJson g'" "g' = move_goal env ?cur ?t reason g1"
    by (auto simp: TransitionGoalWithEvidence_def GoalJson Let_def saveGoal_def split: if_splits option.splits)
  with that[OF GoalJson _ a] v g1 show ?thesis by (auto simp: lock_step_def split: if_splits)
qed (use assms in \<open>simp add: TransitionGoalWithEvidence_def\<close>)

lemma allowed_DONE: "allowedTransition s ''DONE'' \<longleftrightarrow> s = ''REVIEWING''"
  by (auto simp: allowedTransition_def Transitions_def)

lemma DONE_evidenced:
  assumes "TransitionGoalWithEvidence env path target reason records (GoalJson g) = (file', Inr g')" "to_upper target = ''DONE''"
  shows "state_of env g = ''REVIEWING''" "goalEvidenceIDs (ge_num env) g \<noteq> []"
    "\<exists>recs. records = Some recs \<and> (\<forall>i\<in>set (goalEvidenceIDs (ge_num env) g). \<exists>r\<in>set recs. good_evidence env g i r)"
proof -
  obtain "allowedTransition (state_of env g) ''DONE''" "verifyGoalEvidence env g records = None"
    by (rule Transition_ok[OF assms(1)]) (use assms(2) in simp)
  then show "state_of env g = ''REVIEWING''" "goalEvidenceIDs (ge_num env) g \<noteq> []"
    "\<exists>recs. records = Some recs \<and> (\<forall>i\<in>set (goalEvidenceIDs (ge_num env) g). \<exists>r\<in>set recs. good_evidence env g i r)"
    unfolding allowed_DONE verifyGoalEvidence_None by (auto, blast)
qed


section \<open>What the lock freezes\<close>

lemma content_unchanged [simp]:
  "content_of num (move_goal env cur target reason g) = content_of num g" "content_of num (lock_goal env g) = content_of num g"
  by (simp_all add: content_of_def move_goal_def lock_goal_def jget_def Let_def)

lemma digest_unchanged [simp]:
  "ComputeDigest env (move_goal env' cur target reason g) = ComputeDigest env g" "ComputeDigest env (lock_goal env' g) = ComputeDigest env g"
  by (simp_all add: ComputeDigest_def)

lemma lock_kept [simp]: "jget (move_goal env cur target reason g) ''lock'' = jget g ''lock''"
  by (simp add: move_goal_def jget_def)

lemma to_upper_states: "target \<in> set (Transitions s) \<Longrightarrow> to_upper target = target"
  by (auto simp: Transitions_def to_upper_def upper_char_def Let_def split: if_splits)

lemma state_moved: "allowedTransition cur target \<Longrightarrow> state_of env' (move_goal env cur target reason g) = target"
  using to_upper_states by (simp add: state_of_def move_goal_def jget_def allowedTransition_def)

text \<open>
  The life of a locked goal: transitions other than into BLOCKED, by callers with the same
  number rendering and hash, and arbitrary edits of the file by anybody, as long as they leave
  its state and its lock alone.
\<close>

inductive locked_life :: "goal_env \<Rightarrow> goal \<Rightarrow> goal \<Rightarrow> bool" for env0 :: goal_env and g0 :: goal where
  locked: "locked_life env0 g0 g0"
| moved: "locked_life env0 g0 g \<Longrightarrow>
     TransitionGoalWithEvidence env path target reason records (GoalJson g) = (file', Inr g') \<Longrightarrow>
     ge_num env = ge_num env0 \<Longrightarrow> ge_digest env = ge_digest env0 \<Longrightarrow> to_upper target \<noteq> ''BLOCKED'' \<Longrightarrow> locked_life env0 g0 g'"
| edited: "locked_life env0 g0 g \<Longrightarrow> jget g' ''lock'' = jget g ''lock'' \<Longrightarrow> jget g' ''state'' = jget g ''state'' \<Longrightarrow> locked_life env0 g0 g'"

lemma same_env: "ge_num env = ge_num env0 \<Longrightarrow> ge_digest env = ge_digest env0 \<Longrightarrow>
    state_of env g = state_of env0 g \<and> ComputeDigest env g = ComputeDigest env0 g"
  by (simp add: state_of_def ComputeDigest_def)

lemma lock_goal_lock: "\<exists>kvs. jget (lock_goal env g) ''lock'' = JObj kvs \<and> jobj_get kvs ''digest'' = JStr (ComputeDigest env g)"
proof -
  have "content_of (ge_num env) (g(''revision'' \<mapsto> v)) = content_of (ge_num env) g" for v
    by (simp add: content_of_def jget_def)
  then show ?thesis by (simp add: lock_goal_def Let_def jget_def jobj_get_def ComputeDigest_def)
qed

lemma guarded_moves:
  "s \<in> guarded_states \<Longrightarrow> allowedTransition s t \<Longrightarrow> t \<noteq> ''BLOCKED'' \<Longrightarrow> t \<in> insert ''DONE'' guarded_states \<and> t \<noteq> ''LOCKED''"
  by (auto simp: guarded_states_def allowedTransition_def Transitions_def)

lemma locked_life_state:
  assumes "locked_life env0 g0 g" "state_of env0 g0 \<in> guarded_states"
  shows "jget g ''lock'' = jget g0 ''lock'' \<and> state_of env0 g \<in> insert ''DONE'' guarded_states"
  using assms(1)
proof (induction rule: locked_life.induct)
  case locked
  then show ?case using assms(2) by simp
next
  case (moved g env path target reason records file' g')
  note env = same_env[OF moved(3,4)]
  obtain g1 where g1: "g1 = g" "allowedTransition (state_of env g1) (to_upper target)"
    "to_upper target \<noteq> ''LOCKED'' \<Longrightarrow> g' = move_goal env (state_of env g1) (to_upper target) reason g1"
    by (rule Transition_ok[OF moved(2)]) blast
  have "state_of env g \<noteq> ''DONE''" using g1(1,2) by (auto simp: allowedTransition_def Transitions_def)
  with moved(6) env g1 have "to_upper target \<in> insert ''DONE'' guarded_states \<and> to_upper target \<noteq> ''LOCKED''"
    using guarded_moves[OF _ g1(2) moved(5)] by auto
  with g1 moved(6) state_moved[OF g1(2)] show ?case by simp
next
  case (edited g g')
  then show ?case by (simp add: state_of_def)
qed

text \<open>Where the locked content comes from: the lock was taken, or the goal amended, in the step that gave \<open>g0\<close>.\<close>

definition freshly_locked :: "goal_env \<Rightarrow> goal \<Rightarrow> bool" where
  "freshly_locked env0 g0 \<longleftrightarrow>
     (\<exists>path reason records file file'. TransitionGoalWithEvidence env0 path ''LOCKED'' reason records file = (file', Inr g0)) \<or>
     (\<exists>path amendment file file'. AmendGoal env0 path amendment file = (file', Inr g0) \<and> state_of env0 g0 \<noteq> ''BLOCKED'')"

lemma apply_changes_other: "k \<notin> set amendableFields \<Longrightarrow> apply_changes changes g k = g k"
proof -
  have "k \<notin> set ks \<Longrightarrow> fold (\<lambda>k g. case map_of changes k of None \<Rightarrow> g | Some v \<Rightarrow> g(k \<mapsto> v)) ks g k = g k" for ks
    by (induction ks arbitrary: g) (auto split: option.splits)
  then show "k \<notin> set amendableFields \<Longrightarrow> ?thesis" unfolding apply_changes_def by blast
qed

lemma freshly_locked_lock:
  assumes "freshly_locked env0 g0"
  shows "state_of env0 g0 \<in> guarded_states"
    "\<exists>kvs. jget g0 ''lock'' = JObj kvs \<and> jobj_get kvs ''digest'' = JStr (ComputeDigest env0 g0)"
proof -
  have "state_of env0 g0 \<in> guarded_states \<and>
      (\<exists>kvs. jget g0 ''lock'' = JObj kvs \<and> jobj_get kvs ''digest'' = JStr (ComputeDigest env0 g0))"
    using assms unfolding freshly_locked_def
  proof (elim disjE exE conjE)
    fix path reason records f0 f1
    assume t: "TransitionGoalWithEvidence env0 path ''LOCKED'' reason records f0 = (f1, Inr g0)"
    have up: "to_upper ''LOCKED'' = ''LOCKED''" by code_simp
    obtain g00 where g00: "allowedTransition (state_of env0 g00) ''LOCKED''"
      "g0 = move_goal env0 (state_of env0 g00) ''LOCKED'' reason (lock_goal env0 g00)"
      by (rule Transition_ok[OF t]) (use up in simp)
    have "state_of env0 g0 = ''LOCKED''" unfolding g00(2) by (rule state_moved[OF g00(1)])
    then show ?thesis using lock_goal_lock[of env0 g00] g00(2) by (auto simp: guarded_states_def)
  next
    fix path amendment f0 f1
    assume a: "AmendGoal env0 path amendment f0 = (f1, Inr g0)" and nb: "state_of env0 g0 \<noteq> ''BLOCKED''"
    then obtain g where g: "f0 = GoalJson g" by (cases f0) (auto simp: AmendGoal_def)
    define g1 where "g1 = apply_changes (amend_changes amendment) (g(''revision'' \<mapsto> JNum (of_int (revision_of g + 1))))"
    from a obtain am st rv hi where g0: "g0 = g1(''amendments'' \<mapsto> am, ''lock'' \<mapsto> JObj [(''revision'', rv),
        (''digest'', JStr (ComputeDigest env0 g1)), (''locked_at'', st)], ''history'' \<mapsto> hi)"
      and cur: "state_of env0 g \<in> insert ''BLOCKED'' guarded_states"
      unfolding g AmendGoal_def goal_file.case Let_def g1_def[symmetric]
      by (auto split: if_splits option.splits prod.splits)
    have "g1 ''state'' = g ''state''" by (simp add: g1_def apply_changes_other amendableFields_def)
    then have "state_of env0 g0 = state_of env0 g" by (simp add: g0 state_of_def jget_def)
    moreover have "ComputeDigest env0 g0 = ComputeDigest env0 g1" by (simp add: g0 ComputeDigest_def content_of_def jget_def)
    ultimately show ?thesis using cur nb by (simp add: g0 jget_def jobj_get_def)
  qed
  then show "state_of env0 g0 \<in> guarded_states"
    "\<exists>kvs. jget g0 ''lock'' = JObj kvs \<and> jobj_get kvs ''digest'' = JStr (ComputeDigest env0 g0)" by blast+
qed

lemma DONE_as_locked:
  assumes "freshly_locked env0 g0"
    "locked_life env0 g0 g" "ge_num env = ge_num env0" "ge_digest env = ge_digest env0"
    "TransitionGoalWithEvidence env path ''DONE'' reason records (GoalJson g) = (file', Inr g')"
  shows "ComputeDigest env0 g' = ComputeDigest env0 g0"
proof -
  have up: "to_upper ''DONE'' = ''DONE''" by code_simp
  note f = freshly_locked_lock[OF assms(1)]
  then obtain kvs where kvs: "jget g0 ''lock'' = JObj kvs" "jobj_get kvs ''digest'' = JStr (ComputeDigest env0 g0)" by blast
  from locked_life_state[OF assms(2) f(1)] have lk: "jget g ''lock'' = JObj kvs" using kvs(1) by simp
  obtain g1 where g1: "g1 = g" "allowedTransition (state_of env g1) ''DONE''"
    "g' = move_goal env (state_of env g1) ''DONE'' reason g1"
    "state_of env g1 \<in> guarded_states \<Longrightarrow> jget g1 ''lock'' \<noteq> JNull \<Longrightarrow> fst (VerifyLock env g1)"
    by (rule Transition_ok[OF assms(5)]) (simp add: up)
  with lk have "fst (VerifyLock env g)" by (simp add: allowed_DONE guarded_states_def)
  with lk kvs(2) same_env[OF assms(3,4)] have "ComputeDigest env0 g = ComputeDigest env0 g0"
    by (auto simp: VerifyLock_def Let_def as_string0_def split: if_splits)
  with g1(1,3) show ?thesis by simp
qed



section \<open>What linking a run does to DONE\<close>

lemma link_run_effect:
  "link_run env nanos needle artifact phase files = (files', None) \<Longrightarrow> files' \<noteq> files \<Longrightarrow>
     \<exists>as path g bs. files = as @ (path, GoalJson g) # bs \<and> files' = as @ (path, GoalJson (link_goal nanos artifact phase g)) # bs"
proof (induction env nanos needle artifact phase files arbitrary: files' rule: link_run.induct)
  case (2 env nanos needle artifact phase path f files)
  let ?change = "\<lambda>fs fs'. \<exists>as path g bs. fs = as @ (path, GoalJson g) # bs \<and> fs' = as @ (path, GoalJson (link_goal nanos artifact phase g)) # bs"
  have skip: "?change ((path, f) # files) ((path, f) # fs)" if "?change files fs" for fs
    using that by (metis append_Cons)
  show ?case
  proof (cases "\<exists>g. is_goal_name path \<and> f = GoalJson g \<and> names_goal env needle g")
    case True
    then obtain g where g: "f = GoalJson g" "is_goal_name path" "names_goal env needle g" by blast
    with 2(2,3) show ?thesis
      by (intro exI[of _ "[]"] exI[of _ path] exI[of _ g] exI[of _ files])
        (auto simp: saveGoal_def Let_def split: if_splits option.splits)
  next
    case False
    obtain fs e where l: "link_run env nanos needle artifact phase files = (fs, e)" by fastforce
    with False 2(2) have "files' = (path, f) # fs" "e = None"
      by (cases f; auto simp: Let_def split: if_splits)+
    with 2(1)[of fs] 2(3) l skip show ?thesis by simp
  qed
qed simp

text \<open>A record the harness wrote for a run, whose phase is a word.\<close>

definition harness_written :: "Record \<Rightarrow> bool" where
  "harness_written r \<longleftrightarrow> (\<exists>num stamp runID goalID phase stopReason usage reports.
     r = run_record num stamp runID goalID phase stopReason usage reports \<and> phase \<noteq> [] \<and> \<not> is_digit (last phase))"

lemma harness_written_id: "harness_written r \<Longrightarrow> re_ID r \<noteq> ''ev-run-'' @ dec_nat n"
proof
  assume h: "harness_written r" and e: "re_ID r = ''ev-run-'' @ dec_nat n"
  have "re_ID (run_record num stamp runID goalID phase stopReason usage reports) = ''ev-'' @ runID @ ''-'' @ phase"
    for num stamp runID goalID phase stopReason usage reports by (simp add: run_record_def Let_def)
  with h obtain runID phase where p: "re_ID r = ''ev-'' @ runID @ ''-'' @ phase" "phase \<noteq> []" "\<not> is_digit (last phase)"
    unfolding harness_written_def by metis
  then have "last (re_ID r) = last phase" by simp
  moreover have "dec_nat n \<noteq> []" by (subst dec_nat.simps) simp
  then have "last (re_ID r) \<in> set (dec_nat n)" unfolding e by simp
  then have "is_digit (last (re_ID r))" using dec_nat_digit_list[of n] by (simp add: list_all_iff)
  ultimately show False using p(3) by simp
qed

lemma run_entry_id: "''ev-run-'' @ dec_nat nanos \<in> set (goalEvidenceIDs num (link_goal nanos artifact phase g))"
proof -
  let ?i = "''ev-run-'' @ dec_nat nanos"
  have ne: "dec_nat nanos \<noteq> []" by (subst dec_nat.simps) simp
  then have "is_digit (last (dec_nat nanos))" using dec_nat_digit_list[of nanos] by (simp add: list_all_iff)
  then have "plain_char (last ?i)" using ne by (auto simp: is_digit_def plain_char_def)
  moreover have "plain_char (hd ?i)" by (simp add: plain_char_def)
  ultimately have "trim_space ?i = ?i" by (intro trim_space_ends) simp_all
  then have "evidence_id num (run_entry nanos artifact phase) = [?i]"
    by (simp add: evidence_id_def run_entry_def jobj_get_def jget_def Let_def)
  then show ?thesis by (simp add: goalEvidenceIDs_def link_goal_def jget_def)
qed

lemma linked_never_DONE:
  assumes "\<forall>r\<in>set recs. harness_written r" "to_upper target = ''DONE''"
  shows "\<not> is_ok (snd (TransitionGoalWithEvidence env path target reason (Some recs) (GoalJson (link_goal nanos artifact phase g))))"
proof
  let ?g = "link_goal nanos artifact phase g"
  assume "is_ok (snd (TransitionGoalWithEvidence env path target reason (Some recs) (GoalJson ?g)))"
  then obtain f g' where "TransitionGoalWithEvidence env path target reason (Some recs) (GoalJson ?g) = (f, Inr g')"
    by (auto simp: is_ok_iff) (metis prod.collapse)
  from DONE_evidenced(3)[OF this assms(2)] run_entry_id[of nanos "ge_num env" artifact phase g]
  obtain r where "r \<in> set recs" "re_ID r = ''ev-run-'' @ dec_nat nanos" by (auto simp: good_evidence_def)
  with assms(1) harness_written_id show False by blast
qed

section \<open>Properties\<close>

text \<open>
  C34: DONE needs evidence. A transition to DONE that succeeds starts in REVIEWING, was given the
  evidence store, and every evidence ID the goal names (there is at least one) resolves to a
  record that validates, is not stale and belongs to this goal.
\<close>

theorem done_requires_evidence:
  assumes "TransitionGoalWithEvidence env path target reason records (GoalJson g) = (file', Inr g')" "to_upper target = ''DONE''"
  shows "state_of env g = ''REVIEWING'' \<and> goalEvidenceIDs (ge_num env) g \<noteq> [] \<and>
    (\<exists>recs. records = Some recs \<and>
       (\<forall>i\<in>set (goalEvidenceIDs (ge_num env) g). \<exists>r\<in>set recs. re_ID r = i \<and> ValidateRecord (ge_perr env) r = None \<and> \<not> re_Stale r \<and>
          (trim_space (sprint (ge_num env) (jget g ''id'')) = [] \<or> re_GoalID r = trim_space (sprint (ge_num env) (jget g ''id'')))))"
  using DONE_evidenced[OF assms] by (simp add: good_evidence_def)

definition sample_env :: goal_env where
  "sample_env = \<lparr>ge_num = (\<lambda>q. ''n''), ge_perr = (\<lambda>s. ''bad stamp''), ge_digest = gc_objective, ge_lockedAt = ''t0'', ge_at = ''t1'', ge_write = None\<rparr>"

definition sample_record :: Record where
  "sample_record = NewRecord ''2026-01-01T00:00:00Z'' ''e1'' ''test'' ''go'' ''g1'' ''passed''"

definition sample_goal :: "string \<Rightarrow> goal" where
  "sample_goal st = [''id'' \<mapsto> JStr ''g1'', ''state'' \<mapsto> JStr st, ''objective'' \<mapsto> JStr ''o'', ''evidence'' \<mapsto> JArr [JStr ''e1'']]"

lemma sample_texts: "trim_space ''g1'' = ''g1''" "trim_space ''e1'' = ''e1''" "trim_space ''o'' = ''o''" "trim_space ''go'' = ''go''"
  "trim_space ''passed'' = ''passed''" "trim_space ''test'' = ''test''" "trim_space ''2026-01-01T00:00:00Z'' = ''2026-01-01T00:00:00Z''"
  by (rule trim_space_ends; code_simp)+

lemma sample_record_valid: "ValidateRecord p sample_record = None"
proof -
  have "rfc3339 ''2026-01-01T00:00:00Z''" by code_simp
  then show ?thesis
    by (simp add: ValidateRecord_core sample_record_def NewRecord_def zero_record_def blank_def sample_texts ValidTypes_def)
qed

lemma sample_ids: "goalEvidenceIDs (ge_num sample_env) (sample_goal st) = [''e1'']"
  by (simp add: goalEvidenceIDs_def sample_goal_def jget_def evidence_id_def sample_texts)

lemma sample_verified: "verifyGoalEvidence sample_env (sample_goal st) (Some [sample_record]) = None"
  unfolding verifyGoalEvidence_None sample_ids good_evidence_def
  using sample_record_valid[of "ge_perr sample_env"]
  by (simp add: evidence_index_def sample_goal_def jget_def sample_texts) (simp add: sample_record_def NewRecord_def zero_record_def)

lemma json_ext: "to_lower (path_ext ''g1.goal.json'') = ''.json''"
  by code_simp

theorem done_requires_evidence_witness:
  "(\<exists>g'. TransitionGoalWithEvidence sample_env ''g1.goal.json'' ''done'' [] (Some [sample_record]) (GoalJson (sample_goal ''REVIEWING'')) =
     (GoalJson g', Inr g')) \<and> state_of sample_env (sample_goal ''REVIEWING'') = ''REVIEWING''"
proof -
  have up: "to_upper ''done'' = ''DONE''" "to_upper ''REVIEWING'' = ''REVIEWING''" by code_simp+
  have st: "state_of sample_env (sample_goal ''REVIEWING'') = ''REVIEWING''"
    by (simp add: state_of_def sample_goal_def jget_def up)
  have "jget (sample_goal ''REVIEWING'') ''lock'' = JNull" by (simp add: sample_goal_def jget_def)
  then have "\<exists>g'. TransitionGoalWithEvidence sample_env ''g1.goal.json'' ''done'' [] (Some [sample_record]) (GoalJson (sample_goal ''REVIEWING'')) =
     (GoalJson g', Inr g')"
    by (simp add: TransitionGoalWithEvidence_def Let_def st up allowed_DONE sample_verified lock_step_def saveGoal_def json_ext)
      (simp add: sample_env_def)
  then obtain g' where r: "TransitionGoalWithEvidence sample_env ''g1.goal.json'' ''done'' [] (Some [sample_record]) (GoalJson (sample_goal ''REVIEWING'')) =
     (GoalJson g', Inr g')" by blast
  from done_requires_evidence[OF r up(1)] r show ?thesis by blast
qed

text \<open>The check asks for a lock entry: a file that has lost its own moves on unchecked.\<close>

lemma deleted_lock_is_not_checked:
  "target \<noteq> ''LOCKED'' \<Longrightarrow> jget g ''lock'' = JNull \<Longrightarrow> lock_step env cur target g = Inr g"
  by (simp add: lock_step_def)

text \<open>
  C35: what is done is what was locked or last amended. Let a goal enter LOCKED, or be amended in
  a state other than BLOCKED; from then on let anybody edit its file as long as state and lock
  entry stay, and let it move along the state machine without passing through BLOCKED and without
  another amendment. If it reaches DONE, the digest of its objective, acceptance criteria,
  constraints, non-goals and gates is that of the moment it was locked or amended, so the contents
  are the same unless the hash collides on them.
\<close>

theorem done_is_as_locked:
  assumes "freshly_locked env0 g0"
    "locked_life env0 g0 g" "ge_num env = ge_num env0" "ge_digest env = ge_digest env0"
    "TransitionGoalWithEvidence env path ''DONE'' reason records (GoalJson g) = (file', Inr g')"
  shows "ComputeDigest env0 g' = ComputeDigest env0 g0 \<and>
    (inj_on (ge_digest env0) {content_of (ge_num env0) g', content_of (ge_num env0) g0} \<longrightarrow>
       content_of (ge_num env0) g' = content_of (ge_num env0) g0)"
proof (intro conjI impI)
  show d: "ComputeDigest env0 g' = ComputeDigest env0 g0" by (rule DONE_as_locked[OF assms])
  assume "inj_on (ge_digest env0) {content_of (ge_num env0) g', content_of (ge_num env0) g0}"
  from inj_onD[OF this d[unfolded ComputeDigest_def]]
  show "content_of (ge_num env0) g' = content_of (ge_num env0) g0" by simp
qed

text \<open>A goal whose lock record holds the digest of its content moves on.\<close>

definition lock_holds :: "goal_env \<Rightarrow> goal \<Rightarrow> bool" where
  "lock_holds env g \<longleftrightarrow> (\<exists>kvs. jget g ''lock'' = JObj kvs \<and> jobj_get kvs ''digest'' = JStr (ComputeDigest env g))"

lemma lock_holds_move: "lock_holds env g \<Longrightarrow> lock_holds env (move_goal env' cur target reason g)"
  by (auto simp: lock_holds_def)

lemma lock_holds_lock: "lock_holds env (move_goal env' cur target reason (lock_goal env g))"
  using lock_goal_lock[of env g] by (auto simp: lock_holds_def)

lemma lock_holds_verified: "lock_holds env g \<Longrightarrow> fst (VerifyLock env g)"
  by (auto simp: lock_holds_def VerifyLock_def Let_def as_string0_def)

lemma Transition_moves:
  assumes "allowedTransition (state_of env g) target" "to_upper target = target" "target \<noteq> ''LOCKED''"
    "target = ''DONE'' \<Longrightarrow> verifyGoalEvidence env g records = None" "lock_holds env g"
    "to_lower (path_ext path) = ''.json''" "ge_write env = None"
  shows "TransitionGoalWithEvidence env path target reason records (GoalJson g) =
    (GoalJson (move_goal env (state_of env g) target reason g), Inr (move_goal env (state_of env g) target reason g))"
proof -
  have "lock_step env (state_of env g) target g = Inr g"
    using assms(3) lock_holds_verified[OF assms(5)] by (simp add: lock_step_def)
  moreover have "(if target = ''DONE'' then verifyGoalEvidence env g records else None) = None" using assms(4) by simp
  ultimately show ?thesis
    by (simp add: TransitionGoalWithEvidence_def Let_def saveGoal_def assms(1,2,6,7))
qed

lemma ids_moved [simp]: "goalEvidenceIDs num (move_goal env cur target reason g) = goalEvidenceIDs num g"
  by (simp add: goalEvidenceIDs_def move_goal_def jget_def)

definition sample_locked :: goal where
  "sample_locked = move_goal sample_env ''PLANNED'' ''LOCKED'' [] (lock_goal sample_env (sample_goal ''PLANNED''))"

fun sample_path :: "string list \<Rightarrow> goal \<Rightarrow> goal" where
  "sample_path [] g = g"
| "sample_path (t # ts) g = sample_path ts (move_goal sample_env (state_of sample_env g) t [] g)"

lemma sample_life:
  "locked_life sample_env sample_locked g \<Longrightarrow> lock_holds sample_env g \<Longrightarrow> allowedTransition (state_of sample_env g) t \<Longrightarrow>
     t \<notin> {''DONE'', ''LOCKED'', ''BLOCKED''} \<Longrightarrow> locked_life sample_env sample_locked (move_goal sample_env (state_of sample_env g) t [] g)"
  by (rule locked_life.moved[OF _ Transition_moves[where path = "''g1.goal.json''"], of sample_env])
    (auto simp: json_ext to_upper_states allowedTransition_def sample_env_def)

theorem done_is_as_locked_witness:
  "\<exists>g g'. locked_life sample_env sample_locked g \<and> state_of sample_env g = ''REVIEWING'' \<and>
     TransitionGoalWithEvidence sample_env ''g1.goal.json'' ''DONE'' [] (Some [sample_record]) (GoalJson g) = (GoalJson g', Inr g') \<and>
     ComputeDigest sample_env g' = ComputeDigest sample_env sample_locked"
proof -
  let ?e = sample_env
  have a: "allowedTransition ''PLANNED'' ''LOCKED''" "allowedTransition ''LOCKED'' ''EXECUTING''" "allowedTransition ''EXECUTING'' ''VERIFYING''"
    "allowedTransition ''VERIFYING'' ''REVIEWING''" "allowedTransition ''REVIEWING'' ''DONE''"
    by (simp_all add: allowedTransition_def Transitions_def)
  have up: "to_upper ''LOCKED'' = ''LOCKED''" "to_upper ''PLANNED'' = ''PLANNED''" "to_upper ''DONE'' = ''DONE''" by code_simp+
  define g1 where "g1 = move_goal ?e ''LOCKED'' ''EXECUTING'' [] sample_locked"
  define g2 where "g2 = move_goal ?e ''EXECUTING'' ''VERIFYING'' [] g1"
  define g3 where "g3 = move_goal ?e ''VERIFYING'' ''REVIEWING'' [] g2"
  have s0: "state_of ?e sample_locked = ''LOCKED''" unfolding sample_locked_def by (rule state_moved[OF a(1)])
  have s1: "state_of ?e g1 = ''EXECUTING''" unfolding g1_def by (rule state_moved[OF a(2)])
  have s2: "state_of ?e g2 = ''VERIFYING''" unfolding g2_def by (rule state_moved[OF a(3)])
  have s3: "state_of ?e g3 = ''REVIEWING''" unfolding g3_def by (rule state_moved[OF a(4)])
  have h0: "lock_holds ?e sample_locked" unfolding sample_locked_def by (rule lock_holds_lock)
  then have h: "lock_holds ?e g1" "lock_holds ?e g2" "lock_holds ?e g3" by (simp_all add: g1_def g2_def g3_def lock_holds_move)
  have l1: "locked_life ?e sample_locked g1"
    using sample_life[OF locked_life.locked h0, of "''EXECUTING''"] a(2) by (simp add: s0 g1_def)
  have l2: "locked_life ?e sample_locked g2" using sample_life[OF l1 h(1), of "''VERIFYING''"] a(3) by (simp add: s1 g2_def)
  have l3: "locked_life ?e sample_locked g3" using sample_life[OF l2 h(2), of "''REVIEWING''"] a(4) by (simp add: s2 g3_def)
  have lk: "TransitionGoalWithEvidence ?e ''g1.goal.json'' ''LOCKED'' [] None (GoalJson (sample_goal ''PLANNED'')) = (GoalJson sample_locked, Inr sample_locked)"
  proof -
    have "state_of ?e (sample_goal ''PLANNED'') = ''PLANNED''" by (simp add: state_of_def sample_goal_def jget_def up)
    then show ?thesis
      by (simp add: TransitionGoalWithEvidence_def Let_def up a(1) lock_step_def saveGoal_def json_ext sample_locked_def)
        (simp add: sample_env_def)
  qed
  have ids: "goalEvidenceIDs (ge_num ?e) g3 = [''e1'']" "jget g3 ''id'' = JStr ''g1''"
    using sample_ids[of "''PLANNED''"]
    by (simp_all add: g3_def g2_def g1_def sample_locked_def)
      (simp_all add: goalEvidenceIDs_def lock_goal_def Let_def jget_def move_goal_def sample_goal_def)
  have v: "verifyGoalEvidence ?e g3 (Some [sample_record]) = None"
    unfolding verifyGoalEvidence_None ids good_evidence_def
    using sample_record_valid[of "ge_perr ?e"]
    by (simp add: evidence_index_def sample_texts) (simp add: sample_record_def NewRecord_def zero_record_def)
  have w: "ge_write ?e = None" by (simp add: sample_env_def)
  have d: "TransitionGoalWithEvidence ?e ''g1.goal.json'' ''DONE'' [] (Some [sample_record]) (GoalJson g3) =
      (GoalJson (move_goal ?e ''REVIEWING'' ''DONE'' [] g3), Inr (move_goal ?e ''REVIEWING'' ''DONE'' [] g3))"
    using Transition_moves[of ?e g3 "''DONE''" "Some [sample_record]" "''g1.goal.json''" "[]"] a(5) up(3) v h(3) json_ext w
    by (simp add: s3)
  have "freshly_locked ?e sample_locked" unfolding freshly_locked_def using lk by blast
  from done_is_as_locked[OF this l3 refl refl d] l3 s3 d show ?thesis by blast
qed

text \<open>
  A linked run blocks DONE. When \<open>AppendRunEvidence\<close> links a run, it adds to exactly one
  goal an entry under a fresh ID; from then on no transition of that goal to DONE succeeds as
  long as the store holds the records the harness writes, because none of them has that ID.
\<close>

theorem linked_run_blocks_done:
  assumes "AppendRunEvidence env nanos goalText artifact phase files = (files', None)" "files' \<noteq> files"
  shows "\<exists>as path g bs. files = as @ (path, GoalJson g) # bs \<and>
    files' = as @ (path, GoalJson (link_goal nanos artifact phase g)) # bs \<and>
    (\<forall>env' path' target reason recs. to_upper target = ''DONE'' \<longrightarrow> (\<forall>r\<in>set recs. harness_written r) \<longrightarrow>
       \<not> is_ok (snd (TransitionGoalWithEvidence env' path' target reason (Some recs) (GoalJson (link_goal nanos artifact phase g)))))"
proof -
  from assms have "link_run env nanos (trim_space goalText) artifact phase files = (files', None)"
    by (auto simp: AppendRunEvidence_def split: if_splits)
  from link_run_effect[OF this assms(2)] linked_never_DONE show ?thesis by metis
qed

theorem linked_run_blocks_done_witness:
  "\<exists>files' g. AppendRunEvidence sample_env 7 ''g1'' ''evidence-run-1.json'' ''complete'' [(''g1.goal.json'', GoalJson (sample_goal ''REVIEWING''))] =
       ([(''g1.goal.json'', GoalJson g)], None) \<and>
     \<not> is_ok (snd (TransitionGoalWithEvidence sample_env ''g1.goal.json'' ''DONE'' []
       (Some [run_record (\<lambda>q. ''n'') ''2026-01-01T00:00:00Z'' ''1'' ''g1'' ''complete'' [] [] []]) (GoalJson g)))"
proof -
  let ?g = "link_goal 7 ''evidence-run-1.json'' ''complete'' (sample_goal ''REVIEWING'')"
  let ?r = "run_record (\<lambda>q. ''n'') ''2026-01-01T00:00:00Z'' ''1'' ''g1'' ''complete'' [] [] []"
  have n: "is_goal_name ''g1.goal.json''" by code_simp
  have s: "saveGoal sample_env ''g1.goal.json'' x f = (GoalJson x, None)" for x f
    by (simp add: saveGoal_def json_ext) (simp add: sample_env_def)
  have "names_goal sample_env ''g1'' (sample_goal ''REVIEWING'')" "\<not> already_linked sample_env ''evidence-run-1.json'' (sample_goal ''REVIEWING'')"
    by (simp_all add: names_goal_def already_linked_def sample_goal_def jget_def sample_texts)
  then have a: "AppendRunEvidence sample_env 7 ''g1'' ''evidence-run-1.json'' ''complete'' [(''g1.goal.json'', GoalJson (sample_goal ''REVIEWING''))] =
      ([(''g1.goal.json'', GoalJson ?g)], None)"
    by (simp add: AppendRunEvidence_def sample_texts n s)
  have ne: "?g \<noteq> sample_goal ''REVIEWING''"
  proof
    assume "?g = sample_goal ''REVIEWING''"
    then have "jget ?g ''evidence'' = jget (sample_goal ''REVIEWING'') ''evidence''" by simp
    then show False by (simp add: link_goal_def jget_def sample_goal_def)
  qed
  have p: "''complete'' \<noteq> []" "\<not> is_digit (last ''complete'')" by (simp, code_simp)
  then have w: "harness_written ?r" unfolding harness_written_def by blast
  have up: "to_upper ''DONE'' = ''DONE''" by code_simp
  from linked_run_blocks_done[OF a] ne obtain as path g bs where
    x: "[(''g1.goal.json'', GoalJson ?g)] = as @ (path, GoalJson (link_goal 7 ''evidence-run-1.json'' ''complete'' g)) # bs" and
    y: "\<And>target recs. to_upper target = ''DONE'' \<Longrightarrow> \<forall>r\<in>set recs. harness_written r \<Longrightarrow>
      \<not> is_ok (snd (TransitionGoalWithEvidence sample_env ''g1.goal.json'' target [] (Some recs)
        (GoalJson (link_goal 7 ''evidence-run-1.json'' ''complete'' g))))" by auto
  from x have "?g = link_goal 7 ''evidence-run-1.json'' ''complete'' g" by (cases as) auto
  with y[OF up, of "[?r]"] w a show ?thesis by auto
qed

end
