(* ===== verification/Gateway.thy ===== *)
theory Gateway
  imports AgentTypes "HOL-Library.Product_Lexorder"
begin

text \<open>
  \<open>internal/harness/gateway\<close>: the model gateway. \<open>SelectWithPolicy\<close> orders route targets,
  \<open>streamWithRetry\<close> and \<open>StreamWithFallback\<close> open a provider's stream under retries, a circuit
  per provider and quotas. A provider is a port over a world \<open>'w\<close>: it fails, closes, or streams
  events; a cancelled context is one more outcome of waiting. Times are nanoseconds.
\<close>

section \<open>Providers and the gateway's state\<close>

datatype open_result =
    OpenFails string
  | OpenClosed
  | OpenEvents ModelEvent "ModelEvent list"
  | OpenCancelled string

type_synonym 'w provider = "'w \<Rightarrow> ModelRequest \<Rightarrow> open_result \<times> 'w"

record RouteTarget =
  rt_target_Provider :: string
  rt_target_Model :: string
  rt_target_Weight :: int
  rt_target_Tools :: bool
  rt_target_Structured :: bool
  rt_target_Latency :: string
  rt_target_Privacy :: string
  rt_target_CostPer1k :: rat

record SelectionPolicy =
  sp_Prefer :: string
  sp_RequireTools :: bool
  sp_RequireStructured :: bool
  sp_LocalOnly :: bool
  sp_AllowedProviders :: "string list"

record ModelRoute =
  mr_Primary :: RouteTarget
  mr_Fallbacks :: "RouteTarget list"
  mr_Reason :: string

record Health =
  hl_Status :: string
  hl_Failures :: int
  hl_LastFailure :: string
  hl_CooldownUntil :: string

record RetryPolicy =
  rp_Attempts :: int
  rp_Backoff :: int
  rp_Jitter :: bool

record QuotaState =
  qs_Remaining :: rat
  qs_ResetsAt :: string

record 'w Gateway =
  gw_providers :: "string \<rightharpoonup> 'w provider"
  gw_health :: "string \<rightharpoonup> Health"
  gw_quotas :: "string \<rightharpoonup> QuotaState"
  gw_Retry :: RetryPolicy

text \<open>
  The clock, the codecs of \<open>time\<close> for the two layouts, and waiting: \<open>gv_wait\<close> gives the
  context's error when the context is done first.
\<close>

record 'w gateway_env =
  gv_clock :: "'w \<Rightarrow> int"
  gv_wait :: "'w \<Rightarrow> int \<Rightarrow> string option \<times> 'w"
  gv_format :: "int \<Rightarrow> string"
  gv_parseNano :: "string \<Rightarrow> int option"
  gv_parse :: "string \<Rightarrow> int option"

definition DefaultRetryPolicy :: RetryPolicy where
  "DefaultRetryPolicy = \<lparr>rp_Attempts = 3, rp_Backoff = 200000000, rp_Jitter = False\<rparr>"

definition gateway_new :: "'w Gateway" where
  "gateway_new = \<lparr>gw_providers = Map.empty, gw_health = Map.empty, gw_quotas = Map.empty, gw_Retry = DefaultRetryPolicy\<rparr>"

definition healthy :: Health where
  "healthy = \<lparr>hl_Status = ''healthy'', hl_Failures = 0, hl_LastFailure = [], hl_CooldownUntil = []\<rparr>"

definition gateway_Register :: "string \<Rightarrow> 'w provider \<Rightarrow> 'w Gateway \<Rightarrow> 'w Gateway" where
  "gateway_Register name p g = g\<lparr>gw_providers := (gw_providers g)(name \<mapsto> p), gw_health := (gw_health g)(name \<mapsto> healthy)\<rparr>"

definition SetQuota :: "string \<Rightarrow> rat \<Rightarrow> string \<Rightarrow> 'w Gateway \<Rightarrow> 'w Gateway" where
  "SetQuota provider remaining resetsAt g =
     g\<lparr>gw_quotas := (gw_quotas g)(provider \<mapsto> \<lparr>qs_Remaining = remaining, qs_ResetsAt = resetsAt\<rparr>)\<rparr>"

section \<open>Quotas and selection\<close>

definition quotaExhausted :: "'w gateway_env \<Rightarrow> 'w \<Rightarrow> 'w Gateway \<Rightarrow> string \<Rightarrow> bool" where
  "quotaExhausted env w g provider =
     (case gw_quotas g provider of
        None \<Rightarrow> False
      | Some q \<Rightarrow>
          if qs_Remaining q \<noteq> 0 then False
          else if qs_ResetsAt q = [] then True
          else (case gv_parseNano env (qs_ResetsAt q) of
              Some t \<Rightarrow> gv_clock env w < t
            | None \<Rightarrow> (case gv_parse env (qs_ResetsAt q) of Some t \<Rightarrow> gv_clock env w < t | None \<Rightarrow> True)))"

definition GetQuotaStatus :: "'w gateway_env \<Rightarrow> 'w \<Rightarrow> 'w Gateway \<Rightarrow> string \<Rightarrow> string" where
  "GetQuotaStatus env w g provider =
     (case gw_quotas g provider of
        None \<Rightarrow> ''unknown''
      | Some q \<Rightarrow>
          if qs_Remaining q = 0 then
            (if qs_ResetsAt q = [] then ''exhausted''
             else case (case gv_parseNano env (qs_ResetsAt q) of Some t \<Rightarrow> Some t | None \<Rightarrow> gv_parse env (qs_ResetsAt q)) of
                 Some t \<Rightarrow> if gv_clock env w < t then ''cooldown'' else ''exhausted''
               | None \<Rightarrow> ''exhausted'')
          else if 0 < qs_Remaining q then ''known'' else ''estimated'')"

definition target_admitted :: "'w gateway_env \<Rightarrow> 'w \<Rightarrow> 'w Gateway \<Rightarrow> SelectionPolicy \<Rightarrow> RouteTarget \<Rightarrow> bool" where
  "target_admitted env w g p t \<longleftrightarrow>
     (sp_AllowedProviders p = [] \<or> rt_target_Provider t \<in> set (sp_AllowedProviders p)) \<and>
     (sp_RequireTools p \<longrightarrow> rt_target_Tools t) \<and> (sp_RequireStructured p \<longrightarrow> rt_target_Structured t) \<and>
     (sp_LocalOnly p \<longrightarrow> rt_target_Privacy t \<in> {[], ''local''}) \<and> \<not> quotaExhausted env w g (rt_target_Provider t)"

definition provider_status :: "'w Gateway \<Rightarrow> RouteTarget \<Rightarrow> string" where
  "provider_status g t = (case gw_health g (rt_target_Provider t) of None \<Rightarrow> ''healthy'' | Some h \<Rightarrow> hl_Status h)"

text \<open>A latency that is not in the table reads as rank 0.\<close>

definition latency_rank :: "string \<Rightarrow> nat" where
  "latency_rank l = (if l = ''standard'' then 1 else if l = ''deep'' then 2 else if l = [] then 3 else 0)"

definition order_targets :: "SelectionPolicy \<Rightarrow> RouteTarget list \<Rightarrow> RouteTarget list" where
  "order_targets p ts =
     (let ts = sort_key rt_target_Provider ts in
      if sp_Prefer p = ''cheap'' then sort_key (\<lambda>t. (rt_target_CostPer1k t = 0, rt_target_CostPer1k t)) ts
      else if sp_Prefer p = ''fast'' then sort_key (\<lambda>t. latency_rank (rt_target_Latency t)) ts
      else ts)"

definition zero_target :: RouteTarget where
  "zero_target = \<lparr>rt_target_Provider = [], rt_target_Model = [], rt_target_Weight = 0, rt_target_Tools = False,
     rt_target_Structured = False, rt_target_Latency = [], rt_target_Privacy = [], rt_target_CostPer1k = 0\<rparr>"

definition SelectWithPolicy :: "'w gateway_env \<Rightarrow> 'w \<Rightarrow> 'w Gateway \<Rightarrow> RouteTarget list \<Rightarrow> SelectionPolicy \<Rightarrow> ModelRoute" where
  "SelectWithPolicy env w g targets p =
     (let kept = filter (target_admitted env w g p) targets;
          hs = filter (\<lambda>t. provider_status g t = ''healthy'') kept;
          ds = filter (\<lambda>t. provider_status g t = ''degraded'') kept in
      case order_targets p hs @ order_targets p ds of
        [] \<Rightarrow> \<lparr>mr_Primary = zero_target, mr_Fallbacks = [], mr_Reason = []\<rparr>
      | t # ts \<Rightarrow> \<lparr>mr_Primary = t, mr_Fallbacks = ts, mr_Reason = ''policy-ordered deterministic''\<rparr>)"

definition no_policy :: SelectionPolicy where
  "no_policy = \<lparr>sp_Prefer = [], sp_RequireTools = False, sp_RequireStructured = False, sp_LocalOnly = False, sp_AllowedProviders = []\<rparr>"

definition Select :: "'w gateway_env \<Rightarrow> 'w \<Rightarrow> 'w Gateway \<Rightarrow> RouteTarget list \<Rightarrow> ModelRoute" where
  "Select env w g targets = SelectWithPolicy env w g targets no_policy"

record RouteExplanation =
  rx_RouteClass :: string
  rx_ReasonCode :: string
  rx_Details :: string
  rx_CandidateIDs :: "string list"

definition SelectByClass :: "'w gateway_env \<Rightarrow> 'w \<Rightarrow> 'w Gateway \<Rightarrow> RouteTarget list \<Rightarrow> string \<Rightarrow> ModelRoute \<times> RouteExplanation" where
  "SelectByClass env w g targets class =
     (let (pol, code, details) =
        (if class = ''ROUTE-CHEAP'' then (no_policy\<lparr>sp_Prefer := ''cheap''\<rparr>, ''CHEAP_PREFERRED'', ''Prioritizing lowest cost per 1k tokens with healthy provider'')
         else if class = ''ROUTE-FALLBACK'' then (no_policy\<lparr>sp_Prefer := ''fast''\<rparr>, ''FALLBACK_DEGRADED'', ''Emergency fast-latency fallback path selected'')
         else (no_policy, ''PRIMARY_STANDARD'', ''Standard primary route selected with healthy-first deterministic order''))
      in ((SelectWithPolicy env w g targets pol)\<lparr>mr_Reason := code @ '': '' @ details\<rparr>,
          \<lparr>rx_RouteClass = class, rx_ReasonCode = code, rx_Details = details,
           rx_CandidateIDs = map (\<lambda>t. rt_target_Provider t @ ''/'' @ rt_target_Model t) targets\<rparr>))"

section \<open>The circuit\<close>

definition recordFailure :: "'w gateway_env \<Rightarrow> 'w \<Rightarrow> string \<Rightarrow> 'w Gateway \<Rightarrow> 'w Gateway" where
  "recordFailure env w provider g =
     (case gw_health g provider of
        None \<Rightarrow> g
      | Some h \<Rightarrow>
          let h = h\<lparr>hl_Failures := hl_Failures h + 1, hl_LastFailure := gv_format env (gv_clock env w)\<rparr>;
              h = (if 3 \<le> hl_Failures h
                   then h\<lparr>hl_Status := ''open'', hl_CooldownUntil := gv_format env (gv_clock env w + 30000000000)\<rparr>
                   else if 1 \<le> hl_Failures h then h\<lparr>hl_Status := ''degraded''\<rparr> else h)
          in g\<lparr>gw_health := (gw_health g)(provider \<mapsto> h)\<rparr>)"

definition recordSuccess :: "string \<Rightarrow> 'w Gateway \<Rightarrow> 'w Gateway" where
  "recordSuccess provider g =
     (case gw_health g provider of
        None \<Rightarrow> g
      | Some h \<Rightarrow> g\<lparr>gw_health := (gw_health g)(provider \<mapsto> h\<lparr>hl_Failures := 0, hl_Status := ''healthy''\<rparr>)\<rparr>)"

definition mentions_any :: "string list \<Rightarrow> string option \<Rightarrow> bool" where
  "mentions_any signals err = (case err of None \<Rightarrow> False | Some e \<Rightarrow> list_ex (\<lambda>sig. contains_str (to_lower e) sig) signals)"

definition isRateLimit :: "string option \<Rightarrow> bool" where
  "isRateLimit = mentions_any [''429'', ''rate_limit'', ''rate limit'', ''ratelimit'', ''overload'', ''quota'']"

definition isServerError :: "string option \<Rightarrow> bool" where
  "isServerError = mentions_any [''500'', ''502'', ''503'', ''504'', ''5xx'', ''http 5'', ''timeout'', ''unavailable'']"

text \<open>The division of a positive duration by 100 drops the fraction.\<close>

definition backoffFor :: "RetryPolicy \<Rightarrow> int \<Rightarrow> string option \<Rightarrow> int" where
  "backoffFor p a err =
     (let mult = (if isRateLimit err then 5 else if isServerError err then 2 else 1);
          d = a * mult * rp_Backoff p in
      if rp_Jitter p \<and> 0 < d then d + ((a * 37) mod 100 * rp_Backoff p) div 100 else d)"

section \<open>Streaming\<close>

datatype stream_end = Streamed "ModelEvent list" | ContextDone string | GaveUp "string option"

text \<open>The attempts: \<open>n\<close> are left, \<open>a\<close> were made.\<close>

fun retry_loop :: "'w gateway_env \<Rightarrow> 'w provider \<Rightarrow> string \<Rightarrow> RetryPolicy \<Rightarrow> ModelRequest \<Rightarrow> nat \<Rightarrow> int \<Rightarrow> string option \<Rightarrow> 'w
    \<Rightarrow> stream_end \<times> 'w" where
  "retry_loop env p name retry req 0 a lastErr w = (GaveUp lastErr, w)"
| "retry_loop env p name retry req (Suc n) a lastErr w =
     (case (if 0 < a then gv_wait env w (backoffFor retry a lastErr) else (None, w)) of
        (Some e, w) \<Rightarrow> (ContextDone e, w)
      | (None, w) \<Rightarrow>
          (case p w req of
             (OpenFails e, w) \<Rightarrow> retry_loop env p name retry req n (a + 1) (Some e) w
           | (OpenClosed, w) \<Rightarrow> retry_loop env p name retry req n (a + 1) (Some (''provider '' @ name @ '' closed stream'')) w
           | (OpenCancelled e, w) \<Rightarrow> (ContextDone e, w)
           | (OpenEvents ev evs, w) \<Rightarrow>
               if me_Kind ev = EventError \<and> me_Retryable ev
               then retry_loop env p name retry req n (a + 1) (Some (''provider '' @ name @ '': '' @ me_Error ev)) w
               else (Streamed (ev # evs), w)))"

definition streamWithRetry :: "'w gateway_env \<Rightarrow> 'w provider \<Rightarrow> string \<Rightarrow> ModelRequest \<Rightarrow> 'w Gateway \<Rightarrow> 'w
    \<Rightarrow> (string, ModelEvent list) outcome \<times> 'w Gateway \<times> 'w" where
  "streamWithRetry env p name req g w =
     (case retry_loop env p name (gw_Retry g) req (nat (max 1 (rp_Attempts (gw_Retry g)))) 0 None w of
        (Streamed evs, w) \<Rightarrow> (Inr evs, recordSuccess name g, w)
      | (ContextDone e, w) \<Rightarrow> (Inl e, g, w)
      | (GaveUp lastErr, w) \<Rightarrow>
          let g = recordFailure env w name g;
              g = (if isRateLimit lastErr then SetQuota name 0 (gv_format env (gv_clock env w + 30000000000)) g else g) in
          (Inl (case lastErr of None \<Rightarrow> ''provider '' @ name @ '' exhausted retries'' | Some e \<Rightarrow> e), g, w))"

definition aimed :: "RouteTarget \<Rightarrow> ModelRequest \<Rightarrow> ModelRequest" where
  "aimed t req = (if rt_target_Model t \<noteq> [] then req\<lparr>mq_Model := rt_target_Model t\<rparr> else req)"

fun fallback_loop :: "'w gateway_env \<Rightarrow> ModelRequest \<Rightarrow> bool \<Rightarrow> nat \<Rightarrow> RouteTarget list \<Rightarrow> string option \<Rightarrow> 'w Gateway \<Rightarrow> 'w
    \<Rightarrow> (string, ModelEvent list \<times> string) outcome \<times> 'w Gateway \<times> 'w" where
  "fallback_loop env req after i [] lastErr g w =
     (Inl (case lastErr of None \<Rightarrow> ''no route targets'' | Some e \<Rightarrow> e), g, w)"
| "fallback_loop env req after i (t # ts) lastErr g w =
     (if 0 < i \<and> after
      then (Inl (''transparent fallback denied after side effects: use explicit Handoff (would try '' @ rt_target_Provider t @ '')''), g, w)
      else case gw_providers g (rt_target_Provider t) of
        None \<Rightarrow> fallback_loop env req after (Suc i) ts (Some (''unknown provider '' @ rt_target_Provider t)) g w
      | Some p \<Rightarrow>
          (case streamWithRetry env p (rt_target_Provider t) (aimed t req) g w of
             (Inr evs, g, w) \<Rightarrow> (Inr (evs, rt_target_Provider t), g, w)
           | (Inl e, g, w) \<Rightarrow> fallback_loop env req after (Suc i) ts (Some e) g w))"

definition StreamWithFallback :: "'w gateway_env \<Rightarrow> ModelRoute \<Rightarrow> ModelRequest \<Rightarrow> bool \<Rightarrow> 'w Gateway \<Rightarrow> 'w
    \<Rightarrow> (string, ModelEvent list \<times> string) outcome \<times> 'w Gateway \<times> 'w" where
  "StreamWithFallback env route req after g w =
     fallback_loop env req after 0 (mr_Primary route # mr_Fallbacks route) None g w"

section \<open>The circuit invariant\<close>

text \<open>A provider's status is a function of the failures counted since its last success.\<close>

definition circuit_of :: "int \<Rightarrow> string" where
  "circuit_of n = (if 3 \<le> n then ''open'' else if 1 \<le> n then ''degraded'' else ''healthy'')"

definition circuit_ok :: "'w Gateway \<Rightarrow> bool" where
  "circuit_ok g \<longleftrightarrow> (\<forall>p h. gw_health g p = Some h \<longrightarrow> 0 \<le> hl_Failures h \<and> hl_Status h = circuit_of (hl_Failures h))"

lemma circuit_ok_new [inv_intros]: "circuit_ok gateway_new"
  by (simp add: circuit_ok_def gateway_new_def)

lemma circuit_ok_Register [inv_intros]: "circuit_ok g \<Longrightarrow> circuit_ok (gateway_Register p f g)"
  by (simp add: circuit_ok_def gateway_Register_def healthy_def circuit_of_def)

lemma circuit_ok_SetQuota [inv_intros]: "circuit_ok g \<Longrightarrow> circuit_ok (SetQuota p r t g)"
  by (simp add: circuit_ok_def SetQuota_def)

lemma circuit_ok_failure [inv_intros]: "circuit_ok g \<Longrightarrow> circuit_ok (recordFailure env w p g)"
  by (cases "gw_health g p") (fastforce simp: circuit_ok_def recordFailure_def Let_def circuit_of_def)+

lemma circuit_ok_success [inv_intros]: "circuit_ok g \<Longrightarrow> circuit_ok (recordSuccess p g)"
  by (cases "gw_health g p") (auto simp: circuit_ok_def recordSuccess_def circuit_of_def)

lemma circuit_ok_retry [inv_intros]: "circuit_ok g \<Longrightarrow> circuit_ok (fst (snd (streamWithRetry env p name req g w)))"
  by (auto simp: streamWithRetry_def Let_def intro!: inv_intros split: prod.split stream_end.split)

text \<open>The chain of targets by cases: no target left, denied, unknown, answered, failed.\<close>

lemma fallback_loop_induct:
  assumes "\<And>g err i w. Q [] i g w (Inl err, g, w)"
    and "\<And>t ts g err i w. 0 < i \<Longrightarrow> after \<Longrightarrow> Q (t # ts) i g w (Inl err, g, w)"
    and "\<And>t ts g i w err. \<lbrakk>gw_providers g (rt_target_Provider t) = None; i = 0 \<or> \<not> after;
           Q ts (Suc i) g w (fallback_loop env req after (Suc i) ts err g w)\<rbrakk>
         \<Longrightarrow> Q (t # ts) i g w (fallback_loop env req after (Suc i) ts err g w)"
    and "\<And>t ts g i w p evs g' w'. \<lbrakk>gw_providers g (rt_target_Provider t) = Some p; i = 0 \<or> \<not> after;
           streamWithRetry env p (rt_target_Provider t) (aimed t req) g w = (Inr evs, g', w')\<rbrakk>
         \<Longrightarrow> Q (t # ts) i g w (Inr (evs, rt_target_Provider t), g', w')"
    and "\<And>t ts g i w p e g' w'. \<lbrakk>gw_providers g (rt_target_Provider t) = Some p; i = 0 \<or> \<not> after;
           streamWithRetry env p (rt_target_Provider t) (aimed t req) g w = (Inl e, g', w');
           Q ts (Suc i) g' w' (fallback_loop env req after (Suc i) ts (Some e) g' w')\<rbrakk>
         \<Longrightarrow> Q (t # ts) i g w (fallback_loop env req after (Suc i) ts (Some e) g' w')"
  shows "Q ts i g w (fallback_loop env req after i ts err g w)"
proof (induction ts arbitrary: i g w err)
  case Nil
  show ?case using assms(1) by simp
next
  case (Cons t ts)
  show ?case
  proof (cases "0 < i \<and> after")
    case True
    with assms(2) show ?thesis by simp
  next
    case False
    then have a: "i = 0 \<or> \<not> after" by auto
    show ?thesis
    proof (cases "gw_providers g (rt_target_Provider t)")
      case None
      show ?thesis using assms(3)[OF None a Cons] False None by (simp only: fallback_loop.simps(2) if_False option.case)
    next
      case (Some p)
      obtain x g' w' where s: "streamWithRetry env p (rt_target_Provider t) (aimed t req) g w = (x, g', w')" by (metis prod_cases3)
      show ?thesis
      proof (cases x)
        case (Inl e)
        show ?thesis using assms(5)[OF Some a s[unfolded Inl] Cons] False Some s Inl
          by (simp only: fallback_loop.simps(2) if_False option.case prod.case sum.case)
      next
        case (Inr evs)
        show ?thesis using assms(4)[OF Some a s[unfolded Inr]] False Some s Inr
          by (simp only: fallback_loop.simps(2) if_False option.case prod.case sum.case)
      qed
    qed
  qed
qed

lemma circuit_ok_fallback: "circuit_ok g \<Longrightarrow> circuit_ok (fst (snd (fallback_loop env req after i ts err g w)))"
  by (rule fallback_loop_induct[where Q = "\<lambda>ts i g w r. circuit_ok g \<longrightarrow> circuit_ok (fst (snd r))", THEN mp])
    (simp_all, (metis circuit_ok_retry fst_conv snd_conv)+)

lemma circuit_ok_Stream [inv_intros]: "circuit_ok g \<Longrightarrow> circuit_ok (fst (snd (StreamWithFallback env route req after g w)))"
  unfolding StreamWithFallback_def by (rule circuit_ok_fallback)

section \<open>Bounded retries\<close>

text \<open>Whatever counter a provider's calls advance by at most one and waiting leaves alone, the
  retries advance it by at most the number of attempts.\<close>

lemma retry_loop_calls:
  assumes "\<And>w r. c (snd (p w r)) \<le> c w + (1::nat)" "\<And>w d. c (snd (gv_wait env w d)) \<le> c w"
  shows "c (snd (retry_loop env p name retry req n a err w)) \<le> c w + n"
proof (induction n arbitrary: a err w)
  case (Suc n)
  obtain x w1 where w1: "(if 0 < a then gv_wait env w (backoffFor retry a err) else (None, w)) = (x, w1)" by fastforce
  have le1: "c w1 \<le> c w" using assms(2)[of w "backoffFor retry a err"] w1 by (auto split: if_splits)
  obtain o2 w2 where w2: "p w1 req = (o2, w2)" by fastforce
  have le2: "c w2 \<le> c w + 1" using assms(1)[of w1 req] w2 le1 by simp
  have ih: "c (snd (retry_loop env p name retry req n (a + 1) e w2)) \<le> c w + Suc n" for e
    using Suc[of "a + 1" e w2] le2 by simp
  show ?case
  proof (cases x)
    case None
    then show ?thesis using ih le2 w1 w2 by (cases o2) (simp_all add: ih)
  qed (use w1 le1 in simp)
qed simp

lemma streamWithRetry_calls:
  assumes "\<And>w r. c (snd (p w r)) \<le> c w + (1::nat)" "\<And>w d. c (snd (gv_wait env w d)) \<le> c w"
  shows "c (snd (snd (streamWithRetry env p name req g w))) \<le> c w + nat (max 1 (rp_Attempts (gw_Retry g)))"
  using retry_loop_calls[of c p env name "gw_Retry g" req "nat (max 1 (rp_Attempts (gw_Retry g)))" 0 None w, OF assms]
  by (auto simp: streamWithRetry_def Let_def split: prod.split stream_end.split)

section \<open>Selection\<close>

lemma set_order_targets [simp]: "set (order_targets p ts) = set ts"
  by (simp add: order_targets_def Let_def)

lemma route_targets:
  "set (mr_Primary (SelectWithPolicy env w g ts p) # mr_Fallbacks (SelectWithPolicy env w g ts p)) \<subseteq>
     insert zero_target {t \<in> set ts. target_admitted env w g p t \<and> provider_status g t \<in> {''healthy'', ''degraded''}}"
proof -
  let ?hs = "filter (\<lambda>t. provider_status g t = ''healthy'') (filter (target_admitted env w g p) ts)"
  let ?ds = "filter (\<lambda>t. provider_status g t = ''degraded'') (filter (target_admitted env w g p) ts)"
  have "set (order_targets p ?hs @ order_targets p ?ds) \<subseteq>
      {t \<in> set ts. target_admitted env w g p t \<and> provider_status g t \<in> {''healthy'', ''degraded''}}" by auto
  moreover have "SelectWithPolicy env w g ts p = (case order_targets p ?hs @ order_targets p ?ds of
        [] \<Rightarrow> \<lparr>mr_Primary = zero_target, mr_Fallbacks = [], mr_Reason = []\<rparr>
      | t # ts \<Rightarrow> \<lparr>mr_Primary = t, mr_Fallbacks = ts, mr_Reason = ''policy-ordered deterministic''\<rparr>)"
    unfolding SelectWithPolicy_def Let_def ..
  ultimately show ?thesis by (cases "order_targets p ?hs @ order_targets p ?ds") (simp_all del: filter_filter, blast)
qed

lemma retry_loop_streamed:
  "retry_loop env p name retry req n a err w = (Streamed evs, w') \<Longrightarrow>
     \<exists>ev rest. evs = ev # rest \<and> \<not> (me_Kind ev = EventError \<and> me_Retryable ev)"
proof (induction n arbitrary: a err w)
  case (Suc n)
  obtain x w1 where w1: "(if 0 < a then gv_wait env w (backoffFor retry a err) else (None, w)) = (x, w1)" by fastforce
  obtain o2 w2 where w2: "p w1 req = (o2, w2)" by fastforce
  show ?case
  proof (cases x)
    case None
    with Suc w1 w2 show ?thesis by (cases o2) (auto split: if_splits)
  next
    case (Some e)
    with Suc(2) w1 show ?thesis by simp
  qed
qed simp

definition closed_circuit :: "'w Gateway \<Rightarrow> string \<Rightarrow> bool" where
  "closed_circuit g name \<longleftrightarrow> (\<forall>h. gw_health g name = Some h \<longrightarrow> hl_Failures h = 0 \<and> hl_Status h = ''healthy'')"

lemma recordSuccess_closes: "closed_circuit (recordSuccess name g) name"
  by (cases "gw_health g name") (simp_all add: recordSuccess_def closed_circuit_def)

lemma streamWithRetry_ok:
  assumes "streamWithRetry env p name req g w = (Inr evs, g', w')"
  shows "closed_circuit g' name \<and> (\<exists>ev rest. evs = ev # rest \<and> \<not> (me_Kind ev = EventError \<and> me_Retryable ev))"
  using assms retry_loop_streamed[of env p name "gw_Retry g" req "nat (max 1 (rp_Attempts (gw_Retry g)))" 0 None w]
  by (auto simp: streamWithRetry_def Let_def recordSuccess_closes split: prod.splits stream_end.splits)

lemma streamWithRetry_providers [simp]:
  "streamWithRetry env p name req g w = (r, g', w') \<Longrightarrow> gw_providers g' = gw_providers g"
  by (auto simp: streamWithRetry_def Let_def recordSuccess_def recordFailure_def SetQuota_def
      split: prod.splits stream_end.splits option.splits if_splits)

text \<open>What an answer of the chain says: which target it came from.\<close>

definition answer_from :: "RouteTarget list \<Rightarrow> nat \<Rightarrow> bool \<Rightarrow> 'w Gateway
    \<Rightarrow> (string, ModelEvent list \<times> string) outcome \<times> 'w Gateway \<times> 'w \<Rightarrow> bool" where
  "answer_from ts i after g r \<longleftrightarrow>
     (case r of
        (Inl e, _) \<Rightarrow> True
      | (Inr (evs, name), g', _) \<Rightarrow>
          (\<exists>t\<in>set ts. rt_target_Provider t = name \<and> (after \<longrightarrow> i = 0 \<and> t = hd ts)) \<and> gw_providers g name \<noteq> None \<and>
          closed_circuit g' name \<and> (\<exists>ev rest. evs = ev # rest \<and> \<not> (me_Kind ev = EventError \<and> me_Retryable ev)))"

lemma fallback_loop_answer: "answer_from ts i after g (fallback_loop env req after i ts err g w)"
proof (rule fallback_loop_induct[where Q = "\<lambda>ts i g w r. answer_from ts i after g r"])
  fix t ts g and i :: nat and w p evs g' w'
  assume "gw_providers g (rt_target_Provider t) = Some p" "i = 0 \<or> \<not> after"
    and s: "streamWithRetry env p (rt_target_Provider t) (aimed t req) g w = (Inr evs, g', w')"
  with streamWithRetry_ok[OF s] show "answer_from (t # ts) i after g (Inr (evs, rt_target_Provider t), g', w')"
    by (auto simp: answer_from_def)
next
  fix t ts g and i :: nat and w p e g' w'
  assume "answer_from ts (Suc i) after g' (fallback_loop env req after (Suc i) ts (Some e) g' w')"
    and s: "streamWithRetry env p (rt_target_Provider t) (aimed t req) g w = (Inl e, g', w')"
  then show "answer_from (t # ts) i after g (fallback_loop env req after (Suc i) ts (Some e) g' w')"
    using streamWithRetry_providers[OF s] by (auto simp: answer_from_def split: prod.splits sum.splits)
qed (auto simp: answer_from_def split: prod.splits sum.splits)

section \<open>Properties\<close>

text \<open>A quota of zero is over when its reset time is known and past.\<close>

definition quota_left :: "'w gateway_env \<Rightarrow> 'w \<Rightarrow> 'w Gateway \<Rightarrow> string \<Rightarrow> bool" where
  "quota_left env w g provider \<longleftrightarrow>
     (\<forall>q. gw_quotas g provider = Some q \<and> qs_Remaining q = 0 \<longrightarrow> qs_ResetsAt q \<noteq> [] \<and>
       (\<exists>t \<le> gv_clock env w. gv_parseNano env (qs_ResetsAt q) = Some t \<or>
          gv_parseNano env (qs_ResetsAt q) = None \<and> gv_parse env (qs_ResetsAt q) = Some t))"

lemma quota_left_iff: "quota_left env w g provider \<longleftrightarrow> \<not> quotaExhausted env w g provider"
  by (auto simp: quota_left_def quotaExhausted_def not_less split: option.splits)

text \<open>
  C37. An answer through the gateway respects the selection. If a route chosen by
  \<open>SelectWithPolicy\<close> streams, it streams from a provider of one of the given targets that was in the
  policy's pool (if it has one), supports tools and structured output where the policy requires
  them, is declared local or declares no privacy where the policy is local only, had no quota of
  exactly zero left whose reset was still to come or unknown, and whose circuit was not open when
  the route was chosen; the provider is registered; the first event is not a retryable error; the
  provider's circuit is closed again; and if the run already had side effects the answer is the
  primary's. No provider is registered without a name: an empty route would call it.
\<close>

theorem gateway_answer_is_admitted:
  assumes "StreamWithFallback env (SelectWithPolicy env w0 g0 targets p) req after g w = (Inr (evs, name), g', w')"
    and "gw_providers g [] = None"
  shows "\<exists>t\<in>set targets. rt_target_Provider t = name \<and>
      (sp_AllowedProviders p \<noteq> [] \<longrightarrow> name \<in> set (sp_AllowedProviders p)) \<and>
      (sp_RequireTools p \<longrightarrow> rt_target_Tools t) \<and> (sp_RequireStructured p \<longrightarrow> rt_target_Structured t) \<and>
      (sp_LocalOnly p \<longrightarrow> rt_target_Privacy t = ''local'' \<or> rt_target_Privacy t = []) \<and> quota_left env w0 g0 name \<and>
      (\<forall>h. gw_health g0 name = Some h \<longrightarrow> hl_Status h = ''healthy'' \<or> hl_Status h = ''degraded'') \<and>
      gw_providers g name \<noteq> None \<and> closed_circuit g' name \<and>
      (\<exists>ev rest. evs = ev # rest \<and> \<not> (me_Kind ev = EventError \<and> me_Retryable ev)) \<and>
      (after \<longrightarrow> t = mr_Primary (SelectWithPolicy env w0 g0 targets p))"
proof -
  let ?r = "SelectWithPolicy env w0 g0 targets p"
  have a: "answer_from (mr_Primary ?r # mr_Fallbacks ?r) 0 after g (Inr (evs, name), g', w')"
    using fallback_loop_answer[of "mr_Primary ?r # mr_Fallbacks ?r" 0 after g env req None w] assms(1)
    by (simp only: StreamWithFallback_def)
  then obtain t where t: "t \<in> set (mr_Primary ?r # mr_Fallbacks ?r)" "rt_target_Provider t = name" "after \<longrightarrow> t = mr_Primary ?r"
    by (auto simp: answer_from_def)
  have rest: "gw_providers g name \<noteq> None" "closed_circuit g' name"
    "\<exists>ev rest. evs = ev # rest \<and> \<not> (me_Kind ev = EventError \<and> me_Retryable ev)"
    using a by (auto simp: answer_from_def)
  then have "t \<noteq> zero_target" using assms(2) t(2) by (auto simp: zero_target_def)
  then have "t \<in> set targets \<and> target_admitted env w0 g0 p t \<and> provider_status g0 t \<in> {''healthy'', ''degraded''}"
    using subsetD[OF route_targets t(1)] by simp
  then have "t \<in> set targets" "quota_left env w0 g0 name" "provider_status g0 t \<in> {''healthy'', ''degraded''}"
    "sp_AllowedProviders p \<noteq> [] \<longrightarrow> name \<in> set (sp_AllowedProviders p)" "sp_RequireTools p \<longrightarrow> rt_target_Tools t"
    "sp_RequireStructured p \<longrightarrow> rt_target_Structured t" "sp_LocalOnly p \<longrightarrow> rt_target_Privacy t = ''local'' \<or> rt_target_Privacy t = []"
    using t(2) by (auto simp: target_admitted_def quota_left_iff)
  moreover from this(3) have "\<forall>h. gw_health g0 name = Some h \<longrightarrow> hl_Status h = ''healthy'' \<or> hl_Status h = ''degraded''"
    using t(2) by (auto simp: provider_status_def)
  ultimately show ?thesis using t(2,3) rest by blast
qed

text \<open>A target that declares no privacy is used where the policy is local only.\<close>

lemma undeclared_privacy_is_admitted:
  "target_admitted env w gateway_new (no_policy\<lparr>sp_LocalOnly := True\<rparr>) (zero_target\<lparr>rt_target_Provider := ''cloud''\<rparr>)"
  by (simp add: target_admitted_def no_policy_def zero_target_def quotaExhausted_def gateway_new_def)

text \<open>
  After side effects there is no transparent fallback. \<open>StreamWithFallback\<close> is then equal to one
  attempt sequence on the primary: no other provider is looked up, called or recorded, and with
  fallbacks in the route a failure is the explicit refusal naming the first of them.
\<close>

theorem effects_end_fallback:
  "StreamWithFallback env route req True g w =
     (let denied = (\<lambda>e. case mr_Fallbacks route of [] \<Rightarrow> e | t # _ \<Rightarrow>
            ''transparent fallback denied after side effects: use explicit Handoff (would try '' @ rt_target_Provider t @ '')'');
          primary = mr_Primary route in
      case gw_providers g (rt_target_Provider primary) of
        None \<Rightarrow> (Inl (denied (''unknown provider '' @ rt_target_Provider primary)), g, w)
      | Some p \<Rightarrow> (case streamWithRetry env p (rt_target_Provider primary) (aimed primary req) g w of
          (Inr evs, g', w') \<Rightarrow> (Inr (evs, rt_target_Provider primary), g', w')
        | (Inl e, g', w') \<Rightarrow> (Inl (denied e), g', w')))"
  by (cases "mr_Fallbacks route") (simp_all add: StreamWithFallback_def split: option.split prod.split sum.split)

text \<open>Two providers: the cheaper one always fails, so the answer comes from the other one.\<close>

definition sample_env :: "nat gateway_env" where
  "sample_env = \<lparr>gv_clock = (\<lambda>w. int w), gv_wait = (\<lambda>w d. (None, w + 1)), gv_format = (\<lambda>t. ''t''),
     gv_parseNano = (\<lambda>s. None), gv_parse = (\<lambda>s. None)\<rparr>"

definition sample_event :: ModelEvent where
  "sample_event = \<lparr>me_Kind = EventTextDelta, me_RequestID = [], me_Text = ''hi'', me_ToolCall = None, me_Usage = None,
     me_Error = [], me_Retryable = False, me_Finished = False\<rparr>"

definition sample_gateway :: "nat Gateway" where
  "sample_gateway = gateway_Register ''bad'' (\<lambda>w req. (OpenFails ''http 500'', w + 1))
     (gateway_Register ''good'' (\<lambda>w req. (OpenEvents sample_event [], w + 1)) gateway_new)"

definition sample_targets :: "RouteTarget list" where
  "sample_targets = [zero_target\<lparr>rt_target_Provider := ''good'', rt_target_CostPer1k := 2\<rparr>,
     zero_target\<lparr>rt_target_Provider := ''bad'', rt_target_CostPer1k := 1\<rparr>]"

definition sample_model_request :: ModelRequest where
  "sample_model_request = \<lparr>mq_RequestID = [], mq_RunID = [], mq_TurnID = [], mq_Model = [], mq_Messages = [], mq_Tools = [],
     mq_ReasoningEffort = []\<rparr>"

lemma sample_gateway_streams:
  "\<exists>g' w'. StreamWithFallback sample_env (SelectWithPolicy sample_env 0 sample_gateway sample_targets (no_policy\<lparr>sp_Prefer := ''cheap''\<rparr>))
     sample_model_request False sample_gateway 0 = (Inr ([sample_event], ''good''), g', w')"
proof -
  have "fst (StreamWithFallback sample_env (SelectWithPolicy sample_env 0 sample_gateway sample_targets (no_policy\<lparr>sp_Prefer := ''cheap''\<rparr>))
     sample_model_request False sample_gateway 0) = Inr ([sample_event], ''good'')" by code_simp
  then show ?thesis by (metis prod.collapse)
qed

lemma gateway_answer_is_admitted_witness:
  "\<exists>t\<in>set sample_targets. rt_target_Provider t = ''good'' \<and> quota_left sample_env 0 sample_gateway ''good''"
proof -
  obtain g' w' where s: "StreamWithFallback sample_env (SelectWithPolicy sample_env 0 sample_gateway sample_targets (no_policy\<lparr>sp_Prefer := ''cheap''\<rparr>))
     sample_model_request False sample_gateway 0 = (Inr ([sample_event], ''good''), g', w')" using sample_gateway_streams by blast
  have n: "gw_providers sample_gateway [] = None" by code_simp
  show ?thesis using gateway_answer_is_admitted[OF s n] by blast
qed

end
