(* ===== verification/AccountPool.thy ===== *)
theory AccountPool
  imports GoStrings
begin

text \<open>
  \<open>internal/harness/gateway/account_pool.go\<close>: credentialed accounts shared between an index by
  ID and a list per provider. Accounts live in a heap (a list; an address is an index), so that
  both views see the same account; registering an ID again leaves the older account in the list.
  Times are nanoseconds, 0 the zero time.
\<close>

section \<open>The pool\<close>

record Account =
  an_ID :: string
  an_Provider :: string
  an_KeyHash :: string
  an_Status :: string
  an_CooldownUntil :: int
  an_Failures :: int
  an_TotalRequests :: int

record AccountPool =
  ap_heap :: "Account list"
  ap_accounts :: "string \<rightharpoonup> nat"
  ap_byProv :: "string \<Rightarrow> nat list"
  ap_indices :: "string \<Rightarrow> nat"

definition NewAccountPool :: AccountPool where
  "NewAccountPool = \<lparr>ap_heap = [], ap_accounts = Map.empty, ap_byProv = (\<lambda>p. []), ap_indices = (\<lambda>p. 0)\<rparr>"

definition RegisterAccount :: "(string \<Rightarrow> string) \<Rightarrow> string \<Rightarrow> string \<Rightarrow> string \<Rightarrow> AccountPool \<Rightarrow> AccountPool" where
  "RegisterAccount keyHash i provider apiKey ap =
     (let a = length (ap_heap ap);
          acc = \<lparr>an_ID = i, an_Provider = provider, an_KeyHash = keyHash apiKey, an_Status = ''healthy'',
                 an_CooldownUntil = 0, an_Failures = 0, an_TotalRequests = 0\<rparr> in
      ap\<lparr>ap_heap := ap_heap ap @ [acc], ap_accounts := (ap_accounts ap)(i \<mapsto> a),
         ap_byProv := (ap_byProv ap)(provider := ap_byProv ap provider @ [a])\<rparr>)"

definition cool_down :: "int \<Rightarrow> Account \<Rightarrow> Account" where
  "cool_down now acc =
     (if an_Status acc = ''cooldown'' \<and> an_CooldownUntil acc < now
      then acc\<lparr>an_Status := ''healthy'', an_Failures := 0\<rparr> else acc)"

text \<open>The search over the positions still to be tried, as addresses with the next cursor.\<close>

fun pick_loop :: "int \<Rightarrow> (nat \<times> nat) list \<Rightarrow> Account list \<Rightarrow> Account list \<times> (nat \<times> nat) option" where
  "pick_loop now [] h = (h, None)"
| "pick_loop now ((a, nxt) # rest) h =
     (let acc = cool_down now (h ! a) in
      if an_Status acc = ''healthy''
      then (h[a := acc\<lparr>an_TotalRequests := an_TotalRequests acc + 1\<rparr>], Some (a, nxt))
      else pick_loop now rest (h[a := acc]))"

definition rotation :: "nat \<Rightarrow> nat list \<Rightarrow> (nat \<times> nat) list" where
  "rotation start accs =
     map (\<lambda>i. let idx = (start + i) mod length accs in (accs ! idx, (idx + 1) mod length accs)) [0..<length accs]"

definition PickAccount :: "int \<Rightarrow> string \<Rightarrow> AccountPool \<Rightarrow> AccountPool \<times> (string, nat) outcome" where
  "PickAccount now provider ap =
     (let accs = ap_byProv ap provider in
      if accs = [] then (ap, Inl (''gateway: no healthy account available in account pool for provider '' @ provider))
      else case pick_loop now (rotation (ap_indices ap provider) accs) (ap_heap ap) of
        (h, None) \<Rightarrow> (ap\<lparr>ap_heap := h\<rparr>, Inl (''gateway: no healthy account available in account pool for provider '' @ provider
            @ '' (all accounts in cooldown/exhausted)''))
      | (h, Some (a, nxt)) \<Rightarrow> (ap\<lparr>ap_heap := h, ap_indices := (ap_indices ap)(provider := nxt)\<rparr>, Inr a))"

definition pool_RecordFailure :: "int \<Rightarrow> string \<Rightarrow> bool \<Rightarrow> AccountPool \<Rightarrow> AccountPool" where
  "pool_RecordFailure now i rateLimit ap =
     (case ap_accounts ap i of
        None \<Rightarrow> ap
      | Some a \<Rightarrow>
          let acc = (ap_heap ap ! a)\<lparr>an_Failures := an_Failures (ap_heap ap ! a) + 1\<rparr>;
              acc = (if rateLimit then acc\<lparr>an_Status := ''cooldown'', an_CooldownUntil := now + 30000000000\<rparr>
                     else if 3 \<le> an_Failures acc then acc\<lparr>an_Status := ''cooldown'', an_CooldownUntil := now + 15000000000\<rparr>
                     else acc) in
          ap\<lparr>ap_heap := (ap_heap ap)[a := acc]\<rparr>)"

definition pool_RecordSuccess :: "string \<Rightarrow> AccountPool \<Rightarrow> AccountPool" where
  "pool_RecordSuccess i ap =
     (case ap_accounts ap i of
        None \<Rightarrow> ap
      | Some a \<Rightarrow> ap\<lparr>ap_heap := (ap_heap ap)[a := (ap_heap ap ! a)\<lparr>an_Failures := 0, an_Status := ''healthy''\<rparr>]\<rparr>)"

section \<open>The heap invariant\<close>

text \<open>
  Every address is allocated, the lists of the providers share no account, and a cursor points
  into its list.
\<close>

definition pool_ok :: "AccountPool \<Rightarrow> bool" where
  "pool_ok ap \<longleftrightarrow>
     (\<forall>i a. ap_accounts ap i = Some a \<longrightarrow> a < length (ap_heap ap)) \<and>
     (\<forall>p. distinct (ap_byProv ap p) \<and> (\<forall>a\<in>set (ap_byProv ap p). a < length (ap_heap ap) \<and> an_Provider (ap_heap ap ! a) = p)) \<and>
     (\<forall>p. ap_byProv ap p \<noteq> [] \<longrightarrow> ap_indices ap p < length (ap_byProv ap p))"

text \<open>A provider without accounts has no cursor either, so the first registration starts at 0.\<close>

definition cursors_ok :: "AccountPool \<Rightarrow> bool" where
  "cursors_ok ap \<longleftrightarrow> (\<forall>p. ap_byProv ap p = [] \<longrightarrow> ap_indices ap p = 0)"

lemma pool_ok_new [inv_intros]: "pool_ok NewAccountPool \<and> cursors_ok NewAccountPool"
  by (simp add: pool_ok_def cursors_ok_def NewAccountPool_def)

lemma pool_ok_Register: "pool_ok ap \<Longrightarrow> cursors_ok ap \<Longrightarrow> pool_ok (RegisterAccount kh i p k ap)"
proof -
  assume a: "pool_ok ap" "cursors_ok ap"
  let ?ap = "RegisterAccount kh i p k ap"
  have lists: "ap_byProv ?ap = (ap_byProv ap)(p := ap_byProv ap p @ [length (ap_heap ap)])"
    and cursors: "ap_indices ?ap = ap_indices ap"
    and heap: "length (ap_heap ?ap) = Suc (length (ap_heap ap))" "an_Provider (ap_heap ?ap ! length (ap_heap ap)) = p"
      "\<And>b. b < length (ap_heap ap) \<Longrightarrow> ap_heap ?ap ! b = ap_heap ap ! b"
    and ids: "ap_accounts ?ap = (ap_accounts ap)(i \<mapsto> length (ap_heap ap))"
    by (simp_all add: RegisterAccount_def Let_def nth_append)
  have inv: "distinct (ap_byProv ap q)" "b \<in> set (ap_byProv ap q) \<Longrightarrow> b < length (ap_heap ap) \<and> an_Provider (ap_heap ap ! b) = q"
    "ap_byProv ap q \<noteq> [] \<Longrightarrow> ap_indices ap q < length (ap_byProv ap q)" "ap_byProv ap q = [] \<Longrightarrow> ap_indices ap q = 0" for b q
    using a by (simp_all add: pool_ok_def cursors_ok_def)
  have "ap_indices ap p < Suc (length (ap_byProv ap p))" using inv(3,4)[of p] by (cases "ap_byProv ap p = []") auto
  then have "ap_byProv ?ap q \<noteq> [] \<longrightarrow> ap_indices ?ap q < length (ap_byProv ?ap q)" for q
    using inv(3)[of q] by (simp add: lists cursors)
  moreover have "distinct (ap_byProv ?ap q) \<and> (\<forall>b\<in>set (ap_byProv ?ap q). b < length (ap_heap ?ap) \<and> an_Provider (ap_heap ?ap ! b) = q)" for q
    using inv(1)[of q] inv(2)[of _ q] heap(2,3) by (auto simp: lists heap(1) less_Suc_eq)
  moreover have "\<forall>j b. ap_accounts ?ap j = Some b \<longrightarrow> b < length (ap_heap ?ap)"
    using a(1) by (auto simp: pool_ok_def ids heap(1) less_Suc_eq)
  ultimately show ?thesis by (simp add: pool_ok_def)
qed

text \<open>The invariant only looks at the providers in the heap; changing one account does not move it.\<close>

lemma pool_ok_heap:
  assumes "pool_ok ap" "map an_Provider (ap_heap ap') = map an_Provider (ap_heap ap)"
    "ap_accounts ap' = ap_accounts ap" "ap_byProv ap' = ap_byProv ap"
    "\<forall>p. ap_byProv ap p \<noteq> [] \<longrightarrow> ap_indices ap p < length (ap_byProv ap p) \<longrightarrow> ap_indices ap' p < length (ap_byProv ap p)"
  shows "pool_ok ap'"
proof -
  have l: "length (ap_heap ap') = length (ap_heap ap)" using assms(2) by (metis length_map)
  have "a < length (ap_heap ap) \<Longrightarrow> an_Provider (ap_heap ap' ! a) = an_Provider (ap_heap ap ! a)" for a
    using assms(2) l by (metis nth_map)
  with assms l show ?thesis by (auto simp: pool_ok_def)
qed

lemma map_provider_update [simp]: "an_Provider acc = an_Provider (h ! a) \<Longrightarrow> map an_Provider (h[a := acc]) = map an_Provider h"
  by (cases "a < length h") (simp_all add: map_update list_update_same_conv list_update_beyond)

lemma pool_ok_RecordFailure: "pool_ok ap \<Longrightarrow> pool_ok (pool_RecordFailure now i rl ap)"
  by (erule pool_ok_heap) (auto simp: pool_RecordFailure_def Let_def split: option.split)

lemma pool_ok_RecordSuccess: "pool_ok ap \<Longrightarrow> pool_ok (pool_RecordSuccess i ap)"
  by (erule pool_ok_heap) (auto simp: pool_RecordSuccess_def split: option.split)

lemma cool_down_provider [simp]: "an_Provider (cool_down now acc) = an_Provider acc"
  by (simp add: cool_down_def)

lemma pick_loop_heap: "map an_Provider (fst (pick_loop now order h)) = map an_Provider h"
  by (induction now order h rule: pick_loop.induct) (auto simp: Let_def)

lemma pick_loop_snd: "snd (pick_loop now order h) = Some x \<Longrightarrow> x \<in> set order"
  by (induction now order h rule: pick_loop.induct) (auto simp: Let_def split: if_splits)

lemma rotation_next: "(a, nxt) \<in> set (rotation s accs) \<Longrightarrow> nxt < length accs"
  by (cases "accs = []") (auto simp: rotation_def Let_def)

lemma Pick_cursor:
  "ap_byProv ap q \<noteq> [] \<Longrightarrow> ap_indices ap q < length (ap_byProv ap q) \<Longrightarrow>
     ap_indices (fst (PickAccount now p ap)) q < length (ap_byProv ap q)"
  using pick_loop_snd[of now "rotation (ap_indices ap p) (ap_byProv ap p)" "ap_heap ap"]
  by (auto simp: PickAccount_def Let_def dest: rotation_next split: prod.split option.split)

lemma pool_ok_Pick: "pool_ok ap \<Longrightarrow> pool_ok (fst (PickAccount now p ap))"
proof (erule pool_ok_heap)
  show "map an_Provider (ap_heap (fst (PickAccount now p ap))) = map an_Provider (ap_heap ap)"
    using pick_loop_heap[of now "rotation (ap_indices ap p) (ap_byProv ap p)" "ap_heap ap"]
    by (auto simp: PickAccount_def Let_def split: prod.split option.split)
  show "\<forall>q. ap_byProv ap q \<noteq> [] \<longrightarrow> ap_indices ap q < length (ap_byProv ap q) \<longrightarrow>
      ap_indices (fst (PickAccount now p ap)) q < length (ap_byProv ap q)"
    using Pick_cursor by blast
qed (auto simp: PickAccount_def Let_def split: prod.split option.split)

lemma cursors_ok_ops:
  "cursors_ok ap \<Longrightarrow> cursors_ok (RegisterAccount kh i p k ap)"
  "cursors_ok ap \<Longrightarrow> cursors_ok (fst (PickAccount now p ap))"
  "cursors_ok ap \<Longrightarrow> cursors_ok (pool_RecordFailure now i rl ap)"
  "cursors_ok ap \<Longrightarrow> cursors_ok (pool_RecordSuccess i ap)"
  by (auto simp: cursors_ok_def RegisterAccount_def PickAccount_def pool_RecordFailure_def pool_RecordSuccess_def Let_def
      split: prod.split option.split)

text \<open>The pools a program can reach by calling the operations in any order.\<close>

datatype pool_op =
    OpRegister string string string
  | OpPick int string
  | OpFailure int string bool
  | OpSuccess string

fun pool_apply :: "(string \<Rightarrow> string) \<Rightarrow> pool_op \<Rightarrow> AccountPool \<Rightarrow> AccountPool" where
  "pool_apply kh (OpRegister i p k) ap = RegisterAccount kh i p k ap"
| "pool_apply kh (OpPick now p) ap = fst (PickAccount now p ap)"
| "pool_apply kh (OpFailure now i rl) ap = pool_RecordFailure now i rl ap"
| "pool_apply kh (OpSuccess i) ap = pool_RecordSuccess i ap"

definition pool_after :: "(string \<Rightarrow> string) \<Rightarrow> pool_op list \<Rightarrow> AccountPool" where
  "pool_after kh ops = fold (pool_apply kh) ops NewAccountPool"

lemma pool_apply_ok: "pool_ok ap \<and> cursors_ok ap \<Longrightarrow> pool_ok (pool_apply kh op ap) \<and> cursors_ok (pool_apply kh op ap)"
  by (cases op) (simp_all add: cursors_ok_ops pool_ok_Register pool_ok_Pick pool_ok_RecordFailure pool_ok_RecordSuccess)

lemma pool_after_ok: "pool_ok (pool_after kh ops)"
proof -
  have "pool_ok (fold (pool_apply kh) ops ap) \<and> cursors_ok (fold (pool_apply kh) ops ap)" if "pool_ok ap \<and> cursors_ok ap" for ap
    using that by (induction ops arbitrary: ap) (simp_all add: pool_apply_ok)
  from this[OF pool_ok_new] show ?thesis by (simp add: pool_after_def)
qed

section \<open>Which account is picked\<close>

text \<open>An account can be used when it is healthy or its cooldown is over.\<close>

definition available :: "int \<Rightarrow> Account \<Rightarrow> bool" where
  "available now acc \<longleftrightarrow> an_Status acc = ''healthy'' \<or> (an_Status acc = ''cooldown'' \<and> an_CooldownUntil acc < now)"

lemma available_cool: "an_Status (cool_down now acc) = ''healthy'' \<longleftrightarrow> available now acc"
  by (auto simp: cool_down_def available_def)

lemma pick_loop_first:
  "distinct (map fst order) \<Longrightarrow> pick_loop now order h = (h', r) \<Longrightarrow>
     r = find (\<lambda>x. available now (h ! fst x)) order"
proof (induction now order h arbitrary: r rule: pick_loop.induct)
  case (2 now a nxt rest h)
  show ?case
  proof (cases "available now (h ! a)")
    case True
    with 2 show ?thesis by (auto simp: Let_def available_cool)
  next
    case False
    with 2 have "r = find (\<lambda>x. available now (h[a := cool_down now (h ! a)] ! fst x)) rest"
      by (auto simp: Let_def available_cool)
    also have "\<dots> = find (\<lambda>x. available now (h ! fst x)) rest"
    proof (rule find_cong[OF refl])
      fix x
      assume "x \<in> set rest"
      with 2(2) have "fst x \<noteq> a" by (auto simp: image_iff)
      then show "available now (h[a := cool_down now (h ! a)] ! fst x) = available now (h ! fst x)" by simp
    qed
    finally show ?thesis using False by simp
  qed
qed simp

lemma rotation_fst: "map fst (rotation start accs) = map (\<lambda>i. accs ! ((start + i) mod length accs)) [0..<length accs]"
  by (simp add: rotation_def Let_def)

lemma mod_rotation_inj:
  fixes i j n s :: nat
  assumes "i < n" "j < n" "(s + i) mod n = (s + j) mod n"
  shows "i = j"
proof -
  from assms(3) obtain q1 q2 where "s + i + n * q1 = s + j + n * q2" unfolding nat_mod_eq_iff by blast
  then have "i mod n = j mod n" unfolding nat_mod_eq_iff by auto
  with assms show ?thesis by simp
qed


lemma distinct_rotation:
  assumes "distinct accs"
  shows "distinct (map fst (rotation s accs))"
proof -
  let ?n = "length accs"
  have "i = j" if "i < ?n" "j < ?n" "accs ! ((s + i) mod ?n) = accs ! ((s + j) mod ?n)" for i j
  proof (rule mod_rotation_inj[OF that(1,2)])
    have "0 < ?n" using that(1) by linarith
    then show "(s + i) mod ?n = (s + j) mod ?n"
      using that(3) nth_eq_iff_index_eq[OF assms] mod_less_divisor by blast
  qed
  then show ?thesis by (simp add: rotation_fst distinct_map inj_on_def)
qed

lemma set_rotation: "fst ` set (rotation s accs) = set accs"
proof -
  let ?n = "length accs"
  have "(\<lambda>i. (s + i) mod ?n) ` {..<?n} = {..<?n}"
  proof (rule endo_inj_surj)
    show "inj_on (\<lambda>i. (s + i) mod ?n) {..<?n}" by (auto simp: inj_on_def intro: mod_rotation_inj[of _ ?n])
    show "(\<lambda>i. (s + i) mod ?n) ` {..<?n} \<subseteq> {..<?n}"
    proof
      fix y
      assume "y \<in> (\<lambda>i. (s + i) mod ?n) ` {..<?n}"
      then obtain i where i: "i < ?n" "y = (s + i) mod ?n" by blast
      then have "0 < ?n" by linarith
      then have "y < ?n" unfolding i(2) by (rule mod_less_divisor)
      then show "y \<in> {..<?n}" by simp
    qed
  qed simp
  then have i: "(\<lambda>i. accs ! ((s + i) mod ?n)) ` {..<?n} = (!) accs ` {..<?n}" by (metis image_image)
  have "fst ` set (rotation s accs) = (\<lambda>i. accs ! ((s + i) mod ?n)) ` {..<?n}"
    by (metis rotation_fst set_map atLeast0LessThan set_upt)
  also have "\<dots> = set accs" unfolding i by (metis atLeast0LessThan set_map set_upt map_nth)
  finally show ?thesis .
qed

lemma find_take: "find P xs = Some x \<longleftrightarrow> (\<exists>k<length xs. xs ! k = x \<and> P x \<and> (\<forall>j<k. \<not> P (xs ! j)))"
  unfolding find_Some_iff by blast

text \<open>
  The outcome in closed form: the first available account at or after the cursor, with the
  cursor moved behind it; an error exactly if no account is available.
\<close>

lemma PickAccount_spec:
  assumes "pool_ok ap" "PickAccount now p ap = (ap', r)"
  shows "case r of
      Inl e \<Rightarrow> \<forall>a\<in>set (ap_byProv ap p). \<not> available now (ap_heap ap ! a)
    | Inr a \<Rightarrow> \<exists>k<length (ap_byProv ap p).
        a = ap_byProv ap p ! ((ap_indices ap p + k) mod length (ap_byProv ap p)) \<and> available now (ap_heap ap ! a) \<and>
        (\<forall>j<k. \<not> available now (ap_heap ap ! (ap_byProv ap p ! ((ap_indices ap p + j) mod length (ap_byProv ap p))))) \<and>
        ap_indices ap' p = (ap_indices ap p + k + 1) mod length (ap_byProv ap p)"
proof -
  let ?accs = "ap_byProv ap p" and ?s = "ap_indices ap p"
  have d: "distinct ?accs" using assms(1) by (simp add: pool_ok_def)
  obtain h' x where l: "pick_loop now (rotation ?s ?accs) (ap_heap ap) = (h', x)" by fastforce
  from pick_loop_first[OF distinct_rotation[OF d] l] have x: "x = find (\<lambda>x. available now (ap_heap ap ! fst x)) (rotation ?s ?accs)" .
  show ?thesis
  proof (cases x)
    case None
    then have "\<forall>a\<in>fst ` set (rotation ?s ?accs). \<not> available now (ap_heap ap ! a)" using x by (auto simp: find_None_iff)
    then have "\<forall>a\<in>set ?accs. \<not> available now (ap_heap ap ! a)" by (simp only: set_rotation)
    moreover have "\<exists>e. r = Inl e" using assms(2) l None by (auto simp: PickAccount_def Let_def split: if_splits)
    ultimately show ?thesis by auto
  next
    case (Some y)
    obtain a nxt where y: "y = (a, nxt)" by fastforce
    from Some x obtain k where k: "k < length ?accs" "rotation ?s ?accs ! k = (a, nxt)" "available now (ap_heap ap ! a)"
      "\<forall>j<k. \<not> available now (ap_heap ap ! fst (rotation ?s ?accs ! j))"
      unfolding y using find_take[of "\<lambda>x. available now (ap_heap ap ! fst x)" "rotation ?s ?accs" "(a, nxt)"]
      by (auto simp: rotation_def)
    then have an: "a = ?accs ! ((?s + k) mod length ?accs)" "nxt = ((?s + k) mod length ?accs + 1) mod length ?accs"
      "\<forall>j<k. \<not> available now (ap_heap ap ! (?accs ! ((?s + j) mod length ?accs)))"
      by (auto simp: rotation_def Let_def)
    have "?accs \<noteq> []" using k(1) by auto
    then have "r = Inr a" "ap_indices ap' p = nxt" using assms(2) l Some y by (auto simp: PickAccount_def Let_def)
    with k an show ?thesis by (auto simp: mod_Suc_eq)
  qed
qed

section \<open>Fairness\<close>

text \<open>A sequence of picks for one provider, at the given times.\<close>

fun picks :: "string \<Rightarrow> int list \<Rightarrow> AccountPool \<Rightarrow> AccountPool \<times> (string, nat) outcome list" where
  "picks p [] ap = (ap, [])"
| "picks p (now # ts) ap =
     (case PickAccount now p ap of (ap', r) \<Rightarrow> (case picks p ts ap' of (ap'', rs) \<Rightarrow> (ap'', r # rs)))"

definition all_healthy :: "string \<Rightarrow> AccountPool \<Rightarrow> bool" where
  "all_healthy p ap \<longleftrightarrow> (\<forall>a\<in>set (ap_byProv ap p). an_Status (ap_heap ap ! a) = ''healthy'')"

lemma PickAccount_healthy:
  assumes "pool_ok ap" "all_healthy p ap" "ap_byProv ap p \<noteq> []"
  shows "\<exists>ap'. PickAccount now p ap = (ap', Inr (ap_byProv ap p ! ap_indices ap p)) \<and> pool_ok ap' \<and> all_healthy p ap' \<and>
     ap_byProv ap' = ap_byProv ap \<and> ap_indices ap' p = (ap_indices ap p + 1) mod length (ap_byProv ap p)"
proof -
  let ?accs = "ap_byProv ap p" and ?s = "ap_indices ap p"
  let ?a = "?accs ! ?s"
  have c: "?s < length ?accs" using assms(1,3) by (simp add: pool_ok_def)
  then have "?a \<in> set ?accs" by (rule nth_mem)
  with assms(1,2) have h: "an_Status (ap_heap ap ! ?a) = ''healthy''" "?a < length (ap_heap ap)"
    unfolding all_healthy_def pool_ok_def by blast+
  have "[0..<length ?accs] = 0 # [1..<length ?accs]" using assms(3) by (simp add: upt_conv_Cons)
  then obtain rest where r: "rotation ?s ?accs = (?a, (?s + 1) mod length ?accs) # rest"
    using c by (simp add: rotation_def Let_def)
  have c: "cool_down now (ap_heap ap ! ?a) = ap_heap ap ! ?a" using h by (simp add: cool_down_def)
  let ?acc = "(ap_heap ap ! ?a)\<lparr>an_TotalRequests := an_TotalRequests (ap_heap ap ! ?a) + 1\<rparr>"
  let ?ap = "ap\<lparr>ap_heap := (ap_heap ap)[?a := ?acc], ap_indices := (ap_indices ap)(p := (?s + 1) mod length ?accs)\<rparr>"
  have pick: "PickAccount now p ap = (?ap, Inr ?a)" using h assms(3) by (simp add: PickAccount_def Let_def r c)
  moreover have "all_healthy p ?ap" using assms(2) h by (auto simp: all_healthy_def nth_list_update)
  moreover have "pool_ok ?ap" using pool_ok_Pick[OF assms(1), of now p] pick by simp
  ultimately show ?thesis by (intro exI[of _ ?ap]) simp
qed

lemma picks_round_robin:
  "pool_ok ap \<Longrightarrow> all_healthy p ap \<Longrightarrow> ap_byProv ap p \<noteq> [] \<Longrightarrow>
     snd (picks p ts ap) = map (\<lambda>i. Inr (ap_byProv ap p ! ((ap_indices ap p + i) mod length (ap_byProv ap p)))) [0..<length ts]"
proof (induction ts arbitrary: ap)
  case (Cons now ts)
  let ?accs = "ap_byProv ap p" and ?s = "ap_indices ap p"
  from PickAccount_healthy[OF Cons.prems] obtain ap' where ap': "PickAccount now p ap = (ap', Inr (?accs ! ?s))"
    "pool_ok ap'" "all_healthy p ap'" "ap_byProv ap' = ap_byProv ap" "ap_indices ap' p = (?s + 1) mod length ?accs" by blast
  have "snd (picks p ts ap') = map (\<lambda>i. Inr (?accs ! (((?s + 1) mod length ?accs + i) mod length ?accs))) [0..<length ts]"
    using Cons.IH[OF ap'(2,3)] Cons.prems(3) ap'(4,5) by simp
  also have "\<dots> = map (\<lambda>i. Inr (?accs ! ((?s + Suc i) mod length ?accs))) [0..<length ts]"
    by (simp add: mod_add_left_eq)
  finally have rest: "snd (picks p ts ap') = map (\<lambda>i. Inr (?accs ! ((?s + Suc i) mod length ?accs))) [0..<length ts]" .
  have "?s < length ?accs" using Cons.prems by (simp add: pool_ok_def)
  then show ?case
    using rest ap'(1) Cons.prems by (simp add: split_beta upt_conv_Cons map_Suc_upt[symmetric] del: upt_Suc)
qed simp

definition round_of :: "string \<Rightarrow> AccountPool \<Rightarrow> nat list" where
  "round_of p ap = map fst (rotation (ap_indices ap p) (ap_byProv ap p))"

lemma picks_one_round:
  assumes "pool_ok ap" "all_healthy p ap" "ap_byProv ap p \<noteq> []" "length ts = length (ap_byProv ap p)"
  shows "snd (picks p ts ap) = map Inr (round_of p ap)"
  using picks_round_robin[OF assms(1-3), of ts] assms(4) by (simp add: round_of_def rotation_fst comp_def)

text \<open>
  C39. Load is spread fairly over the accounts of a provider. From the empty pool, after any
  sequence of registrations, picks and reported outcomes: whenever all accounts of a provider are
  healthy, as many consecutive picks as it has accounts hand out every one of its accounts exactly
  once, at whatever times the picks are made and wherever the cursor was left.
\<close>

theorem picks_fair:
  assumes "all_healthy p (pool_after kh ops)" "length ts = length (ap_byProv (pool_after kh ops) p)"
  shows "\<exists>as. snd (picks p ts (pool_after kh ops)) = map Inr as \<and> distinct as \<and> set as = set (ap_byProv (pool_after kh ops) p)"
proof (cases "ap_byProv (pool_after kh ops) p = []")
  case True
  with assms(2) show ?thesis by simp
next
  case False
  let ?as = "round_of p (pool_after kh ops)"
  have "snd (picks p ts (pool_after kh ops)) = map Inr ?as" using picks_one_round[OF pool_after_ok assms(1) False assms(2)] .
  moreover have "distinct ?as" unfolding round_of_def
    using pool_after_ok by (intro distinct_rotation) (simp add: pool_ok_def)
  moreover have "set ?as = set (ap_byProv (pool_after kh ops) p)" by (simp add: round_of_def set_rotation)
  ultimately show ?thesis by blast
qed

text \<open>Two accounts, one of which failed and recovered; the cursor stands at the second.\<close>

lemma picks_fair_witness:
  "\<exists>as. snd (picks ''p'' [7, 9] (pool_after id [OpRegister ''a'' ''p'' ''k'', OpRegister ''b'' ''p'' ''l'', OpPick 3 ''p'',
       OpFailure 4 ''a'' True, OpSuccess ''a''])) = map Inr as \<and> distinct as \<and> set as = {0, 1}"
proof -
  let ?ap = "pool_after id [OpRegister ''a'' ''p'' ''k'', OpRegister ''b'' ''p'' ''l'', OpPick 3 ''p'', OpFailure 4 ''a'' True, OpSuccess ''a'']"
  have l: "ap_byProv ?ap ''p'' = [0, 1]" by code_simp
  have "all_healthy ''p'' ?ap" unfolding all_healthy_def l by code_simp
  from picks_fair[OF this, of "[7, 9]"] show ?thesis unfolding l by simp
qed

end
