(* ===== verification/TeamMerge.thy ===== *)
theory TeamMerge
  imports GoStrings
begin

text \<open>
  \<open>internal/harness/team/merge.go\<close> and \<open>SnapshotWorkspace\<close> of \<open>exec.go\<close>: the three-way merge of a
  role's workspace into the base tree. A workspace is a forest of entries in directory order; a
  file has the size \<open>Lstat\<close> reports and the bytes \<open>ReadFile\<close> returns, each \<open>None\<close> where the call fails.
  The base tree is read and written by relative name. The hash (sixteen hexadecimal digits of
  SHA-256) is a parameter, and so are the joined path in the base tree and what the operating system answers to
  a write.
\<close>

section \<open>Snapshots\<close>

datatype node = Leaf "nat option" "string option" | Dir "(string \<times> node) list"

type_synonym forest = "(string \<times> node) list"

definition snapshotSkip :: "string \<Rightarrow> bool" where
  "snapshotSkip name \<longleftrightarrow> name \<in> {''.git'', ''.prumo'', ''node_modules''}"

definition rel_name :: "string \<Rightarrow> string \<Rightarrow> string" where
  "rel_name dir name = (if dir = [] then name else dir @ ''/'' @ name)"

text \<open>The files \<open>WalkDir\<close> reaches, in its order, without the skipped directories.\<close>

fun walk_node :: "string \<Rightarrow> string \<Rightarrow> node \<Rightarrow> (string \<times> nat option \<times> string option) list"
and walk_forest :: "string \<Rightarrow> forest \<Rightarrow> (string \<times> nat option \<times> string option) list" where
  "walk_node dir name (Leaf sz content) = [(rel_name dir name, sz, content)]"
| "walk_node dir name (Dir entries) = (if snapshotSkip name then [] else walk_forest (rel_name dir name) entries)"
| "walk_forest dir [] = []"
| "walk_forest dir ((name, x) # rest) = walk_node dir name x @ walk_forest dir rest"

text \<open>The counter of the code is the length of what was collected.\<close>

fun add_file :: "(string \<Rightarrow> string) \<Rightarrow> string \<times> nat option \<times> string option \<Rightarrow> (string \<times> string) list \<Rightarrow> (string \<times> string) list" where
  "add_file hash (rel, sz, content) out =
     (if 200 \<le> length out then out
      else case (sz, content) of
        (Some s, Some data) \<Rightarrow> if 262144 < s then out else out @ [(rel, hash data)]
      | _ \<Rightarrow> out)"

definition SnapshotWorkspace :: "(string \<Rightarrow> string) \<Rightarrow> forest \<Rightarrow> (string \<times> string) list" where
  "SnapshotWorkspace hash rt = fold (add_file hash) (walk_forest [] rt) []"

text \<open>What \<open>ReadFile\<close> returns for a name of the workspace.\<close>

definition workspace_read :: "forest \<Rightarrow> string \<rightharpoonup> string" where
  "workspace_read rt rel = (case map_of (walk_forest [] rt) rel of Some (_, content) \<Rightarrow> content | None \<Rightarrow> None)"

section \<open>The merge\<close>

record MergeResult =
  mg_Merged :: "string list"
  mg_Conflicts :: "string list"
  mg_Deleted :: "string list"
  mg_Skipped :: "string list"

text \<open>A failing \<open>WriteFile\<close> leaves some content behind, or no file.\<close>

datatype copy_end = CopyOk | MkdirError string | WriteError string "string option"

record merge_io =
  mi_path :: "string \<Rightarrow> string"
  mi_read :: "string \<Rightarrow> string"
  mi_copy :: "string \<Rightarrow> copy_end"
  mi_remove :: "string \<Rightarrow> string option"

type_synonym base_tree = "string \<rightharpoonup> string"

definition hashFile :: "(string \<Rightarrow> string) \<Rightarrow> base_tree \<Rightarrow> string \<Rightarrow> string" where
  "hashFile hash base rel =
     (case base rel of None \<Rightarrow> [] | Some data \<Rightarrow> if 1048576 < length data then [] else hash data)"

definition copyFile :: "merge_io \<Rightarrow> forest \<Rightarrow> string \<Rightarrow> base_tree \<Rightarrow> base_tree \<times> string option" where
  "copyFile io overlay rel base =
     (case workspace_read overlay rel of
        None \<Rightarrow> (base, Some (''read overlay: '' @ mi_read io rel))
      | Some data \<Rightarrow>
          if 1048576 < length data then (base, Some (''refusing large file '' @ mi_path io rel))
          else case mi_copy io rel of
            CopyOk \<Rightarrow> (base(rel \<mapsto> data), None)
          | MkdirError e \<Rightarrow> (base, Some e)
          | WriteError e left \<Rightarrow> (base(rel := left), Some e))"

fun merge_paths :: "(string \<Rightarrow> string) \<Rightarrow> merge_io \<Rightarrow> forest \<Rightarrow> (string \<rightharpoonup> string) \<Rightarrow> (string \<rightharpoonup> string) \<Rightarrow> string list
    \<Rightarrow> base_tree \<Rightarrow> MergeResult \<Rightarrow> base_tree \<times> MergeResult \<times> string option" where
  "merge_paths hash io overlay baseline after [] base res = (base, res, None)"
| "merge_paths hash io overlay baseline after (rel # rest) base res =
     (let baseSum = hashFile hash base rel;
          overSum = the (after rel) in
      if baseline rel = None \<and> baseSum = [] then
        (case copyFile io overlay rel base of
           (base, Some e) \<Rightarrow> (base, res, Some e)
         | (base, None) \<Rightarrow> merge_paths hash io overlay baseline after rest base (res\<lparr>mg_Merged := mg_Merged res @ [''A '' @ rel]\<rparr>))
      else if baseSum = overSum then
        merge_paths hash io overlay baseline after rest base (res\<lparr>mg_Skipped := mg_Skipped res @ [rel]\<rparr>)
      else if baseline rel = Some baseSum then
        (case copyFile io overlay rel base of
           (base, Some e) \<Rightarrow> (base, res, Some e)
         | (base, None) \<Rightarrow> merge_paths hash io overlay baseline after rest base (res\<lparr>mg_Merged := mg_Merged res @ [''M '' @ rel]\<rparr>))
      else merge_paths hash io overlay baseline after rest base (res\<lparr>mg_Conflicts := mg_Conflicts res @ [rel]\<rparr>))"

text \<open>The deletions, over the names of the baseline in the order the map is ranged over.\<close>

fun merge_deletions :: "(string \<Rightarrow> string) \<Rightarrow> merge_io \<Rightarrow> (string \<rightharpoonup> string) \<Rightarrow> (string \<times> string) list
    \<Rightarrow> base_tree \<Rightarrow> MergeResult \<Rightarrow> base_tree \<times> MergeResult \<times> string option" where
  "merge_deletions hash io after [] base res = (base, res, None)"
| "merge_deletions hash io after ((rel, baseLine) # rest) base res =
     (if after rel \<noteq> None then merge_deletions hash io after rest base res
      else let baseSum = hashFile hash base rel in
        if baseSum = [] then merge_deletions hash io after rest base (res\<lparr>mg_Skipped := mg_Skipped res @ [rel]\<rparr>)
        else if baseSum = baseLine then
          (case mi_remove io rel of
             Some e \<Rightarrow> (base, res, Some e)
           | None \<Rightarrow> merge_deletions hash io after rest (base(rel := None)) (res\<lparr>mg_Deleted := mg_Deleted res @ [''D '' @ rel]\<rparr>))
        else merge_deletions hash io after rest base (res\<lparr>mg_Conflicts := mg_Conflicts res @ [rel]\<rparr>))"

definition sorted_result :: "MergeResult \<Rightarrow> MergeResult" where
  "sorted_result res = \<lparr>mg_Merged = sort (mg_Merged res), mg_Conflicts = sort (mg_Conflicts res),
     mg_Deleted = sort (mg_Deleted res), mg_Skipped = sort (mg_Skipped res)\<rparr>"

definition empty_result :: MergeResult where
  "empty_result = \<lparr>mg_Merged = [], mg_Conflicts = [], mg_Deleted = [], mg_Skipped = []\<rparr>"

definition MergeWorkspaces :: "(string \<Rightarrow> string) \<Rightarrow> merge_io \<Rightarrow> forest \<Rightarrow> (string \<times> string) list \<Rightarrow> base_tree
    \<Rightarrow> base_tree \<times> MergeResult \<times> string option" where
  "MergeWorkspaces hash io overlay baseline base =
     (let snap = SnapshotWorkspace hash overlay; after = map_of snap in
      case merge_paths hash io overlay (map_of baseline) after (sort (map fst snap)) base empty_result of
        (base, res, Some e) \<Rightarrow> (base, res, Some e)
      | (base, res, None) \<Rightarrow>
          (case merge_deletions hash io after baseline base res of
             (base, res, Some e) \<Rightarrow> (base, res, Some e)
           | (base, res, None) \<Rightarrow> (base, sorted_result res, None)))"

section \<open>Snapshots are maps\<close>

text \<open>Names of a directory are distinct, not empty and hold no separator.\<close>

fun node_ok :: "node \<Rightarrow> bool" and forest_ok :: "forest \<Rightarrow> bool" where
  "node_ok (Leaf sz content) = True"
| "node_ok (Dir entries) = forest_ok entries"
| "forest_ok [] = True"
| "forest_ok ((name, x) # rest) = (name \<noteq> [] \<and> CHR ''/'' \<notin> set name \<and> name \<notin> fst ` set rest \<and> node_ok x \<and> forest_ok rest)"

definition under_name :: "string \<Rightarrow> string \<Rightarrow> bool" where
  "under_name p rel \<longleftrightarrow> rel = p \<or> (\<exists>s. rel = p @ ''/'' @ s)"

lemma under_name_rel: "under_name (rel_name dir name) rel \<Longrightarrow> dir \<noteq> [] \<Longrightarrow> under_name dir rel"
  by (auto simp: under_name_def rel_name_def)

lemma walk_under:
  "rel \<in> fst ` set (walk_node dir name x) \<Longrightarrow> name \<noteq> [] \<Longrightarrow> node_ok x \<Longrightarrow> under_name (rel_name dir name) rel"
  "rel \<in> fst ` set (walk_forest dir xs) \<Longrightarrow> forest_ok xs \<Longrightarrow> \<exists>name\<in>fst ` set xs. under_name (rel_name dir name) rel"
proof (induction dir name x and dir xs rule: walk_node_walk_forest.induct)
  case (1 dir name sz content)
  then show ?case by (simp add: under_name_def)
next
  case (2 dir name entries)
  then have "\<exists>n\<in>fst ` set entries. under_name (rel_name (rel_name dir name) n) rel" by (simp split: if_splits)
  moreover have "rel_name dir name \<noteq> []" using 2(3) by (simp add: rel_name_def)
  ultimately show ?case using under_name_rel by blast
next
  case (4 dir name x rest)
  from 4(3) consider "rel \<in> fst ` set (walk_node dir name x)" | "rel \<in> fst ` set (walk_forest dir rest)"
    by (auto simp: image_Un)
  then show ?case
  proof cases
    case 1
    from 4(1)[OF this] 4(4) show ?thesis by simp
  next
    case 2
    from 4(2)[OF this] 4(4) show ?thesis by auto
  qed
qed simp

lemma under_name_inj:
  assumes "under_name (rel_name dir n1) rel" "under_name (rel_name dir n2) rel" "CHR ''/'' \<notin> set n1" "CHR ''/'' \<notin> set n2"
  shows "n1 = n2"
proof -
  have t: "takeWhile (\<lambda>c. c \<noteq> CHR ''/'') (n @ s) = n" if "CHR ''/'' \<notin> set n" "s = [] \<or> hd s = CHR ''/''" for n s
    using that by (cases s) (auto simp: takeWhile_append takeWhile_eq_all_conv[THEN iffD2])
  obtain s1 where s1: "rel = rel_name dir n1 @ s1" "s1 = [] \<or> hd s1 = CHR ''/''"
    using assms(1) by (auto simp: under_name_def)
  obtain s2 where s2: "rel = rel_name dir n2 @ s2" "s2 = [] \<or> hd s2 = CHR ''/''"
    using assms(2) by (auto simp: under_name_def)
  have "n1 @ s1 = n2 @ s2" using s1(1) s2(1) by (simp add: rel_name_def split: if_splits)
  then show ?thesis using t[OF assms(3) s1(2)] t[OF assms(4) s2(2)] by simp
qed

lemma forest_ok_names: "forest_ok xs \<Longrightarrow> n \<in> fst ` set xs \<Longrightarrow> n \<noteq> [] \<and> CHR ''/'' \<notin> set n"
proof (induction xs)
  case (Cons a xs)
  then show ?case by (cases a) (auto simp: image_iff)
qed simp

lemma distinct_walk:
  "name \<noteq> [] \<Longrightarrow> node_ok x \<Longrightarrow> distinct (map fst (walk_node dir name x))"
  "forest_ok xs \<Longrightarrow> distinct (map fst (walk_forest dir xs))"
proof (induction dir name x and dir xs rule: walk_node_walk_forest.induct)
  case (4 dir name x rest)
  have "rel \<notin> fst ` set (walk_forest dir rest)" if "rel \<in> fst ` set (walk_node dir name x)" for rel
  proof
    assume "rel \<in> fst ` set (walk_forest dir rest)"
    then obtain n where n: "n \<in> fst ` set rest" "under_name (rel_name dir n) rel" using walk_under(2)[of rel dir rest] 4(3) by auto
    have "under_name (rel_name dir name) rel" using walk_under(1)[OF that] 4(3) by simp
    then have "n = name" using under_name_inj[OF n(2)] forest_ok_names[OF _ n(1)] 4(3) by simp
    with n(1) 4(3) show False by simp
  qed
  with 4 show ?case by (auto simp: distinct_append)
qed simp_all

lemma subseq_members: "subseq xs ys \<Longrightarrow> x \<in> set xs \<Longrightarrow> x \<in> set ys"
  by (induction rule: list_emb.induct) auto

lemma subseq_keeps_distinct: "subseq xs ys \<Longrightarrow> distinct ys \<Longrightarrow> distinct xs"
  by (induction rule: list_emb.induct) (auto dest: subseq_members)

lemma fold_add_file:
  "\<exists>fs'. subseq fs' fs \<and> fold (add_file hash) fs out = out @ map (\<lambda>(rel, sz, content). (rel, hash (the content))) fs' \<and>
     (\<forall>(rel, sz, content) \<in> set fs'. content \<noteq> None \<and> (\<exists>n\<le>262144. sz = Some n))"
proof (induction fs arbitrary: out)
  case Nil
  show ?case by (rule exI[of _ "[]"]) simp
next
  case (Cons f fs)
  obtain rel sz content where f: "f = (rel, sz, content)" by (cases f)
  from Cons[of "add_file hash f out"] obtain fs' where fs': "subseq fs' fs"
    "fold (add_file hash) fs (add_file hash f out) = add_file hash f out @ map (\<lambda>(rel, sz, content). (rel, hash (the content))) fs'"
    "\<forall>(rel, sz, content) \<in> set fs'. content \<noteq> None \<and> (\<exists>n\<le>262144. sz = Some n)" by blast
  have "add_file hash f out = out \<or> (content \<noteq> None \<and> (\<exists>n\<le>262144. sz = Some n) \<and> add_file hash f out = out @ [(rel, hash (the content))])"
    unfolding f by (auto split: option.split)
  then show ?case
  proof
    assume "add_file hash f out = out"
    with fs' show ?thesis by (intro exI[of _ fs']) auto
  next
    assume a: "content \<noteq> None \<and> (\<exists>n\<le>262144. sz = Some n) \<and> add_file hash f out = out @ [(rel, hash (the content))]"
    with fs' show ?thesis by (intro exI[of _ "f # fs'"]) (auto simp: f)
  qed
qed

lemma snapshot_files:
  obtains fs' where "subseq fs' (walk_forest [] rt)"
    "SnapshotWorkspace hash rt = map (\<lambda>(rel, sz, content). (rel, hash (the content))) fs'"
    "\<forall>(rel, sz, content) \<in> set fs'. content \<noteq> None \<and> (\<exists>n\<le>262144. sz = Some n)"
  using fold_add_file[of "walk_forest [] rt" hash "[]"] unfolding SnapshotWorkspace_def by auto

text \<open>A snapshot lists distinct names, each with the hash of the file that \<open>ReadFile\<close> returns for it.\<close>

lemma snapshot_distinct:
  assumes "forest_ok rt"
  shows "distinct (map fst (SnapshotWorkspace hash rt))"
proof -
  obtain fs' where "subseq fs' (walk_forest [] rt)" "SnapshotWorkspace hash rt = map (\<lambda>(rel, sz, content). (rel, hash (the content))) fs'"
    by (rule snapshot_files)
  moreover have "distinct (map fst fs')"
    using distinct_walk(2)[OF assms, of "[]"] calculation(1) subseq_keeps_distinct subseq_map by blast
  ultimately show ?thesis by (simp add: comp_def split_beta)
qed

lemma snapshot_read:
  assumes "forest_ok rt" "(rel, s) \<in> set (SnapshotWorkspace hash rt)"
  shows "\<exists>data. workspace_read rt rel = Some data \<and> s = hash data"
proof -
  obtain fs' where f: "subseq fs' (walk_forest [] rt)" "SnapshotWorkspace hash rt = map (\<lambda>(rel, sz, content). (rel, hash (the content))) fs'"
    "\<forall>(rel, sz, content) \<in> set fs'. content \<noteq> None \<and> (\<exists>n\<le>262144. sz = Some n)"
    by (rule snapshot_files)
  with assms(2) obtain sz data where d: "(rel, sz, Some data) \<in> set fs'" "s = hash data" by fastforce
  then have "(rel, sz, Some data) \<in> set (walk_forest [] rt)" using subseq_members[OF f(1)] by blast
  then have "map_of (walk_forest [] rt) rel = Some (sz, Some data)"
    using distinct_walk(2)[OF assms(1)] by (simp add: map_of_is_SomeI)
  with d(2) show ?thesis by (simp add: workspace_read_def)
qed

text \<open>A file above the size limit is missing from the snapshot, like a deleted one.\<close>

lemma snapshot_omits_large:
  assumes "forest_ok rt" "(rel, Some sz, content) \<in> set (walk_forest [] rt)" "262144 < sz"
  shows "map_of (SnapshotWorkspace hash rt) rel = None"
proof (rule ccontr)
  assume "map_of (SnapshotWorkspace hash rt) rel \<noteq> None"
  then obtain s where s: "(rel, s) \<in> set (SnapshotWorkspace hash rt)" by (auto dest: map_of_SomeD)
  obtain fs' where f: "subseq fs' (walk_forest [] rt)" "SnapshotWorkspace hash rt = map (\<lambda>(rel, sz, content). (rel, hash (the content))) fs'"
    "\<forall>(rel, sz, content) \<in> set fs'. content \<noteq> None \<and> (\<exists>n\<le>262144. sz = Some n)"
    by (rule snapshot_files)
  from s f(2,3) obtain n c where "(rel, Some n, c) \<in> set fs'" "n \<le> 262144" by fastforce
  then have "(rel, Some n, c) \<in> set (walk_forest [] rt)" using subseq_members[OF f(1)] by blast
  with distinct_walk(2)[OF assms(1), of "[]"] assms(2) have "n = sz" by (auto dest: eq_key_imp_eq_value)
  with assms(3) \<open>n \<le> 262144\<close> show False by simp
qed

section \<open>The reference: a table per path\<close>

datatype verdict = Untouched | Added | Replaced | Removed | Skipped | Conflicting

definition three_way :: "string \<Rightarrow> string option \<Rightarrow> string option \<Rightarrow> verdict" where
  "three_way h b a =
     (case a of
        Some s \<Rightarrow> if b = None \<and> h = [] then Added else if h = s then Skipped else if b = Some h then Replaced else Conflicting
      | None \<Rightarrow> (case b of None \<Rightarrow> Untouched | Some l \<Rightarrow> if h = [] then Skipped else if h = l then Removed else Conflicting))"

text \<open>The tree and the four lists that a table of verdicts asks for.\<close>

definition taken :: "verdict \<Rightarrow> bool" where
  "taken v \<longleftrightarrow> v = Added \<or> v = Replaced"

definition tag :: "verdict \<Rightarrow> string \<Rightarrow> string" where
  "tag v rel = (if v = Added then ''A '' @ rel else if v = Replaced then ''M '' @ rel else ''D '' @ rel)"

definition reported :: "(string \<Rightarrow> verdict) \<Rightarrow> string list \<Rightarrow> MergeResult \<Rightarrow> MergeResult" where
  "reported v rels res =
     \<lparr>mg_Merged = mg_Merged res @ map (\<lambda>r. tag (v r) r) (filter (\<lambda>r. taken (v r)) rels),
      mg_Conflicts = mg_Conflicts res @ filter (\<lambda>r. v r = Conflicting) rels,
      mg_Deleted = mg_Deleted res @ map (\<lambda>r. tag (v r) r) (filter (\<lambda>r. v r = Removed) rels),
      mg_Skipped = mg_Skipped res @ filter (\<lambda>r. v r = Skipped) rels\<rparr>"

lemma reported_simps:
  "reported v [] res = res"
  "taken (v r) \<Longrightarrow> reported v (r # rels) res = reported v rels (res\<lparr>mg_Merged := mg_Merged res @ [tag (v r) r]\<rparr>)"
  "v r = Conflicting \<Longrightarrow> reported v (r # rels) res = reported v rels (res\<lparr>mg_Conflicts := mg_Conflicts res @ [r]\<rparr>)"
  "v r = Removed \<Longrightarrow> reported v (r # rels) res = reported v rels (res\<lparr>mg_Deleted := mg_Deleted res @ [tag (v r) r]\<rparr>)"
  "v r = Skipped \<Longrightarrow> reported v (r # rels) res = reported v rels (res\<lparr>mg_Skipped := mg_Skipped res @ [r]\<rparr>)"
  "v r = Untouched \<Longrightarrow> reported v (r # rels) res = reported v rels res"
  by (auto simp: reported_def taken_def)

lemma reported_append: "reported v ys (reported v xs res) = reported v (xs @ ys) res"
  by (simp add: reported_def)

section \<open>The loops follow the table\<close>

lemma copyFile_ok: "copyFile io overlay rel base = (base', None) \<Longrightarrow> base' = base(rel := workspace_read overlay rel)"
  by (auto simp: copyFile_def split: option.splits if_splits copy_end.splits)

lemma copyFile_frame: "copyFile io overlay rel base = (base', e) \<Longrightarrow> r \<noteq> rel \<Longrightarrow> base' r = base r"
  by (auto simp: copyFile_def split: option.splits if_splits copy_end.splits)

lemma hashFile_cong: "base' r = base r \<Longrightarrow> hashFile hash base' r = hashFile hash base r"
  by (simp add: hashFile_def)

text \<open>One overlay name, by its verdict.\<close>

lemma merge_paths_step:
  assumes "after rel \<noteq> None"
  shows "merge_paths hash io overlay baseline after (rel # rest) base res =
     (let v = three_way (hashFile hash base rel) (baseline rel) (after rel) in
      if taken v then (case copyFile io overlay rel base of
           (base, Some e) \<Rightarrow> (base, res, Some e)
         | (base, None) \<Rightarrow> merge_paths hash io overlay baseline after rest base (res\<lparr>mg_Merged := mg_Merged res @ [tag v rel]\<rparr>))
      else if v = Skipped then merge_paths hash io overlay baseline after rest base (res\<lparr>mg_Skipped := mg_Skipped res @ [rel]\<rparr>)
      else merge_paths hash io overlay baseline after rest base (res\<lparr>mg_Conflicts := mg_Conflicts res @ [rel]\<rparr>))"
  using assms by (auto simp: three_way_def taken_def tag_def Let_def)

lemma three_way_overlay: "a \<noteq> None \<Longrightarrow> three_way h b a \<in> {Added, Replaced, Skipped, Conflicting}"
  by (auto simp: three_way_def split: if_splits)

lemma merge_paths_done:
  assumes "merge_paths hash io overlay baseline after rels base res = (base', res', err)" "distinct rels"
    "\<And>r. r \<in> set rels \<Longrightarrow> after r \<noteq> None \<and> three_way (hashFile hash base r) (baseline r) (after r) = v r"
  shows "(\<forall>r. base' r \<noteq> base r \<longrightarrow> r \<in> set rels \<and> taken (v r)) \<and>
     (err = None \<longrightarrow> (\<forall>r\<in>set rels. taken (v r) \<longrightarrow> base' r = workspace_read overlay r) \<and> res' = reported v rels res)"
  using assms
proof (induction rels arbitrary: base res)
  case Nil
  then show ?case by (simp add: reported_simps)
next
  case (Cons r rels)
  have a: "after r \<noteq> None" and vr: "three_way (hashFile hash base r) (baseline r) (after r) = v r" using Cons.prems(3)[of r] by auto
  note step = Cons.prems(1)[unfolded merge_paths_step[where after = after and rel = r, OF a] vr Let_def]
  have rest: "after q \<noteq> None \<and> three_way (hashFile hash b q) (baseline q) (after q) = v q" if "q \<in> set rels" "b q = base q" for b q
    using Cons.prems(3)[of q] that(1) hashFile_cong[of b q base hash, OF that(2)] by simp
  show ?case
  proof (cases "taken (v r)")
    case True
    obtain b e where c: "copyFile io overlay r base = (b, e)" by fastforce
    have fr: "b q = base q" if "q \<noteq> r" for q using copyFile_frame[OF c that] .
    show ?thesis
    proof (cases e)
      case None
      have b: "b = base(r := workspace_read overlay r)" using copyFile_ok c None by simp
      let ?res = "res\<lparr>mg_Merged := mg_Merged res @ [tag (v r) r]\<rparr>"
      have m: "merge_paths hash io overlay baseline after rels b ?res = (base', res', err)" using step True c None by simp
      have i: "after q \<noteq> None \<and> three_way (hashFile hash b q) (baseline q) (after q) = v q" if "q \<in> set rels" for q
      proof -
        have "q \<noteq> r" using Cons.prems(2) that by auto
        then show ?thesis using rest[where q = q and b = b] that fr[of q] by blast
      qed
      from Cons.IH[OF m _ i] Cons.prems(2) have ih: "\<forall>q. base' q \<noteq> b q \<longrightarrow> q \<in> set rels \<and> taken (v q)"
        "err = None \<longrightarrow> (\<forall>q\<in>set rels. taken (v q) \<longrightarrow> base' q = workspace_read overlay q) \<and> res' = reported v rels ?res" by auto
      have "base' r = b r" using ih(1) Cons.prems(2) by auto
      then have "base' r = workspace_read overlay r" by (simp add: b)
      then have "\<forall>q\<in>set (r # rels). taken (v q) \<longrightarrow> base' q = workspace_read overlay q" if "err = None" using ih(2) that by simp
      moreover have "\<forall>q. base' q \<noteq> base q \<longrightarrow> q \<in> set (r # rels) \<and> taken (v q)" using ih(1) fr True by (metis list.set_intros)
      moreover have "err = None \<longrightarrow> res' = reported v (r # rels) res" using ih(2) True by (simp add: reported_simps)
      ultimately show ?thesis by blast
    next
      case (Some x)
      with step True c have e: "base' = b" "err = Some x" by auto
      have "\<forall>q. base' q \<noteq> base q \<longrightarrow> q \<in> set (r # rels) \<and> taken (v q)" using fr True e(1) by (metis list.set_intros(1))
      with e(2) show ?thesis by simp
    qed
  next
    case False
    have vs: "v r = Skipped \<or> v r = Conflicting" using three_way_overlay[OF a, of "hashFile hash base r" "baseline r"] vr False by (auto simp: taken_def)
    then obtain res2 where m: "merge_paths hash io overlay baseline after rels base res2 = (base', res', err)"
      and r2: "reported v rels res2 = reported v (r # rels) res"
      using step False by (cases "v r = Skipped") (auto simp: reported_simps)
    have i: "after q \<noteq> None \<and> three_way (hashFile hash base q) (baseline q) (after q) = v q" if "q \<in> set rels" for q
      using rest[where q = q and b = base] that by simp
    from Cons.IH[OF m _ i] Cons.prems(2) r2 False show ?thesis by auto
  qed
qed

lemma merge_deletions_step:
  assumes "after r = None"
  shows "merge_deletions hash io after ((r, b) # rest) base res =
     (let v = three_way (hashFile hash base r) (Some b) None in
      if v = Skipped then merge_deletions hash io after rest base (res\<lparr>mg_Skipped := mg_Skipped res @ [r]\<rparr>)
      else if v = Removed then
        (case mi_remove io r of
           Some e \<Rightarrow> (base, res, Some e)
         | None \<Rightarrow> merge_deletions hash io after rest (base(r := None)) (res\<lparr>mg_Deleted := mg_Deleted res @ [tag v r]\<rparr>))
      else merge_deletions hash io after rest base (res\<lparr>mg_Conflicts := mg_Conflicts res @ [r]\<rparr>))"
  using assms by (auto simp: three_way_def tag_def Let_def split: option.split)

lemma three_way_baseline: "three_way h (Some l) None \<in> {Removed, Skipped, Conflicting}"
  by (auto simp: three_way_def)

lemma merge_deletions_done:
  assumes "merge_deletions hash io after baseline base res = (base', res', err)" "distinct (map fst baseline)"
    "\<And>r b. (r, b) \<in> set baseline \<Longrightarrow> after r = None \<Longrightarrow> three_way (hashFile hash base r) (Some b) None = v r"
  shows "(\<forall>r. base' r \<noteq> base r \<longrightarrow> r \<in> fst ` set baseline \<and> after r = None \<and> v r = Removed) \<and>
     (err = None \<longrightarrow> (\<forall>r\<in>fst ` set baseline. after r = None \<longrightarrow> v r = Removed \<longrightarrow> base' r = None) \<and>
       res' = reported v (filter (\<lambda>r. after r = None) (map fst baseline)) res)"
  using assms
proof (induction baseline arbitrary: base res)
  case Nil
  then show ?case by (simp add: reported_simps)
next
  case (Cons rb baseline)
  obtain r b where rb: "rb = (r, b)" by fastforce
  have rest: "three_way (hashFile hash g q) (Some l) None = v q" if "(q, l) \<in> set baseline" "after q = None" "g q = base q" for g q l
    using Cons.prems(3)[of q l] that(1,2) hashFile_cong[of g q base hash, OF that(3)] by (simp add: rb)
  have same: "three_way (hashFile hash base q) (Some l) None = v q" if "(q, l) \<in> set baseline" "after q = None" for q l
    using rest[where q = q and g = base] that by simp
  have d: "distinct (map fst baseline)" "r \<notin> fst ` set baseline" using Cons.prems(2) by (auto simp: rb)
  show ?case
  proof (cases "after r = None")
    case False
    with Cons.prems(1) have m: "merge_deletions hash io after baseline base res = (base', res', err)" by (simp add: rb)
    have ih0: "(\<forall>q. base' q \<noteq> base q \<longrightarrow> q \<in> fst ` set baseline \<and> after q = None \<and> v q = Removed) \<and> (err = None \<longrightarrow> (\<forall>q\<in>fst ` set baseline. after q = None \<longrightarrow> v q = Removed \<longrightarrow> base' q = None) \<and>
        res' = reported v (filter (\<lambda>q. after q = None) (map fst baseline)) res)"
      by (rule Cons.IH[OF m d(1)]) (rule same)
    note ih = conjunct1[OF ih0] conjunct2[OF ih0]
    have "\<forall>q. base' q \<noteq> base q \<longrightarrow> q \<in> fst ` set (rb # baseline) \<and> after q = None \<and> v q = Removed" using ih(1) by auto
    moreover have "err = None \<longrightarrow> (\<forall>q\<in>fst ` set (rb # baseline). after q = None \<longrightarrow> v q = Removed \<longrightarrow> base' q = None)"
      using ih(2) False by (auto simp: rb)
    moreover have "err = None \<longrightarrow> res' = reported v (filter (\<lambda>q. after q = None) (map fst (rb # baseline))) res" using ih(2) False by (auto simp: rb)
    ultimately show ?thesis by iprover
  next
    case True
    then have vr: "three_way (hashFile hash base r) (Some b) None = v r" using Cons.prems(3)[of r b] by (simp add: rb)
    note step = Cons.prems(1)[unfolded rb merge_deletions_step[where after = after and r = r, OF True] vr Let_def]
    show ?thesis
    proof (cases "v r = Removed")
      case False
      then have "v r = Skipped \<or> v r = Conflicting" using vr three_way_baseline[of "hashFile hash base r" b] by auto
      then obtain res2 where m: "merge_deletions hash io after baseline base res2 = (base', res', err)"
        and r2: "\<And>qs. reported v qs res2 = reported v (r # qs) res"
        using step False by (cases "v r = Skipped") (auto simp: reported_simps)
      have ih0: "(\<forall>q. base' q \<noteq> base q \<longrightarrow> q \<in> fst ` set baseline \<and> after q = None \<and> v q = Removed) \<and> (err = None \<longrightarrow> (\<forall>q\<in>fst ` set baseline. after q = None \<longrightarrow> v q = Removed \<longrightarrow> base' q = None) \<and>
          res' = reported v (filter (\<lambda>q. after q = None) (map fst baseline)) res2)"
        by (rule Cons.IH[OF m d(1)]) (rule same)
      note ih = conjunct1[OF ih0] conjunct2[OF ih0]
      have "\<forall>q. base' q \<noteq> base q \<longrightarrow> q \<in> fst ` set (rb # baseline) \<and> after q = None \<and> v q = Removed" using ih(1) by auto
      moreover have "err = None \<longrightarrow> (\<forall>q\<in>fst ` set (rb # baseline). after q = None \<longrightarrow> v q = Removed \<longrightarrow> base' q = None)"
        using ih(2) False by (auto simp: rb)
      moreover have "err = None \<longrightarrow> res' = reported v (filter (\<lambda>q. after q = None) (map fst (rb # baseline))) res" using ih(2) True by (simp add: rb r2)
      ultimately show ?thesis by iprover
    next
      case rm: True
      show ?thesis
      proof (cases "mi_remove io r")
        case (Some e)
        with step rm show ?thesis by auto
      next
        case None
        let ?res = "res\<lparr>mg_Deleted := mg_Deleted res @ [tag (v r) r]\<rparr>"
        have m: "merge_deletions hash io after baseline (base(r := None)) ?res = (base', res', err)"
          using step None rm by simp
        have i: "three_way (hashFile hash (base(r := None)) q) (Some l) None = v q" if "(q, l) \<in> set baseline" "after q = None" for q l
        proof (rule rest[OF that])
          from that(1) d(2) have "q \<noteq> r" by force
          then show "(base(r := None)) q = base q" by simp
        qed
        have ih0: "(\<forall>q. base' q \<noteq> (base(r := None)) q \<longrightarrow> q \<in> fst ` set baseline \<and> after q = None \<and> v q = Removed) \<and> (err = None \<longrightarrow> (\<forall>q\<in>fst ` set baseline. after q = None \<longrightarrow> v q = Removed \<longrightarrow> base' q = None) \<and>
            res' = reported v (filter (\<lambda>r. after r = None) (map fst baseline)) ?res)"
          by (rule Cons.IH[OF m d(1)]) (rule i)
        note ih = conjunct1[OF ih0] conjunct2[OF ih0]
        have "base' r = (base(r := None)) r" using ih(1) d(2) by blast
        then have "\<forall>q\<in>fst ` set (rb # baseline). after q = None \<longrightarrow> v q = Removed \<longrightarrow> base' q = None" if "err = None"
          using ih(2) that by (auto simp: rb)
        moreover have "\<forall>q. base' q \<noteq> base q \<longrightarrow> q \<in> fst ` set (rb # baseline) \<and> after q = None \<and> v q = Removed"
          using ih(1) True rm by (metis fun_upd_other fst_conv image_insert insert_iff list.set(2) rb)
        moreover have "err = None \<longrightarrow> res' = reported v (filter (\<lambda>q. after q = None) (map fst (rb # baseline))) res" using ih(2) True rm by (simp add: rb reported_simps)
        ultimately show ?thesis by iprover
      qed
    qed
  qed
qed

section \<open>The merge as a table\<close>

text \<open>The verdict of a path, from the hashes of the three sides when the merge starts.\<close>

definition merge_verdict :: "(string \<Rightarrow> string) \<Rightarrow> forest \<Rightarrow> (string \<times> string) list \<Rightarrow> base_tree \<Rightarrow> string \<Rightarrow> verdict" where
  "merge_verdict hash overlay baseline base r =
     three_way (hashFile hash base r) (map_of baseline r) (map_of (SnapshotWorkspace hash overlay) r)"

lemma verdict_names:
  "merge_verdict hash overlay baseline base r \<noteq> Untouched \<Longrightarrow>
     map_of (SnapshotWorkspace hash overlay) r \<noteq> None \<or> map_of baseline r \<noteq> None"
  by (auto simp: merge_verdict_def three_way_def split: option.splits)

lemma merge_phases:
  assumes "forest_ok overlay" "distinct (map fst baseline)" "MergeWorkspaces hash io overlay baseline base = (base', res, err)"
  defines "v \<equiv> merge_verdict hash overlay baseline base" and "snap \<equiv> SnapshotWorkspace hash overlay"
  shows "(\<forall>r. base' r \<noteq> base r \<longrightarrow> v r \<in> {Added, Replaced, Removed}) \<and>
     (err = None \<longrightarrow> (\<forall>r. (taken (v r) \<longrightarrow> base' r = workspace_read overlay r) \<and> (v r = Removed \<longrightarrow> base' r = None)) \<and>
       res = sorted_result (reported v (sort (map fst snap) @ filter (\<lambda>r. map_of snap r = None) (map fst baseline)) empty_result))"
proof -
  let ?names = "sort (map fst snap)"
  obtain b1 res1 err1 where p: "merge_paths hash io overlay (map_of baseline) (map_of snap) ?names base empty_result = (b1, res1, err1)"
    by (metis prod_cases3)
  have v1: "map_of snap r \<noteq> None \<and> three_way (hashFile hash base r) (map_of baseline r) (map_of snap r) = v r" if "r \<in> set ?names" for r
    using that by (auto simp: v_def snap_def merge_verdict_def map_of_eq_None_iff)
  have "distinct ?names" using snapshot_distinct[OF assms(1)] by (simp add: snap_def)
  then have ph1: "(\<forall>r. b1 r \<noteq> base r \<longrightarrow> r \<in> set ?names \<and> taken (v r)) \<and>
     (err1 = None \<longrightarrow> (\<forall>r\<in>set ?names. taken (v r) \<longrightarrow> b1 r = workspace_read overlay r) \<and> res1 = reported v ?names empty_result)"
    by (rule merge_paths_done[OF p]) (rule v1)
  show ?thesis
  proof (cases err1)
    case (Some e)
    then have "base' = b1" "err = Some e" using assms(3) p by (simp_all add: MergeWorkspaces_def Let_def snap_def)
    then show ?thesis using ph1 by (auto simp: taken_def)
  next
    case None
    obtain b2 res2 err2 where q: "merge_deletions hash io (map_of snap) baseline b1 res1 = (b2, res2, err2)" by (metis prod_cases3)
    have v2: "three_way (hashFile hash b1 r) (Some l) None = v r" if "(r, l) \<in> set baseline" "map_of snap r = None" for r l
    proof -
      have "b1 r = base r" using ph1 v1 that(2) by blast
      then have "hashFile hash b1 r = hashFile hash base r" by (rule hashFile_cong)
      moreover have "map_of baseline r = Some l" using assms(2) that(1) by simp
      ultimately show ?thesis using that(2) by (simp add: v_def merge_verdict_def snap_def)
    qed
    have ph2: "(\<forall>r. b2 r \<noteq> b1 r \<longrightarrow> r \<in> fst ` set baseline \<and> map_of snap r = None \<and> v r = Removed) \<and>
       (err2 = None \<longrightarrow> (\<forall>r\<in>fst ` set baseline. map_of snap r = None \<longrightarrow> v r = Removed \<longrightarrow> b2 r = None) \<and>
         res2 = reported v (filter (\<lambda>r. map_of snap r = None) (map fst baseline)) res1)"
      by (rule merge_deletions_done[OF q assms(2)]) (rule v2)
    have end2: "base' = b2" "err = err2" "err2 = None \<Longrightarrow> res = sorted_result res2"
      using assms(3) p None q by (auto simp: MergeWorkspaces_def Let_def snap_def split: option.splits)
    have frame: "v r \<in> {Added, Replaced, Removed}" if "b2 r \<noteq> base r" for r
      using that ph1 ph2 by (cases "b2 r = b1 r") (auto simp: taken_def)
    have take: "b2 r = workspace_read overlay r" if "taken (v r)" "err2 = None" for r
    proof -
      have "v r \<noteq> Untouched \<and> v r \<noteq> Removed" using that(1) by (auto simp: taken_def)
      moreover have "v r \<in> {Removed, Skipped, Conflicting, Untouched}" if "map_of snap r = None"
        using that by (auto simp: v_def merge_verdict_def snap_def three_way_def split: option.split)
      ultimately have "map_of snap r \<noteq> None" using that(1) unfolding taken_def by fastforce
      moreover have "r \<in> set ?names" using calculation map_of_eq_None_iff[of snap r] by simp
      ultimately show ?thesis using ph1 ph2 None that(1) by metis
    qed
    have drop: "b2 r = None" if rm: "v r = Removed" and "err2 = None" for r
    proof -
      have n: "map_of snap r = None"
      proof (rule ccontr)
        assume "map_of snap r \<noteq> None"
        from three_way_overlay[OF this, of "hashFile hash base r" "map_of baseline r"] rm show False
          by (auto simp: v_def merge_verdict_def snap_def)
      qed
      have "r \<in> fst ` set baseline"
        using verdict_names[of hash overlay baseline base r] rm n map_of_eq_None_iff[of baseline r]
        unfolding v_def snap_def by simp
      from conjunct1[OF mp[OF conjunct2[OF ph2] that(2)], rule_format, OF this n rm] show ?thesis .
    qed
    have lists: "res = sorted_result (reported v (?names @ filter (\<lambda>r. map_of snap r = None) (map fst baseline)) empty_result)"
      if "err2 = None"
      using end2(3)[OF that] conjunct2[OF mp[OF conjunct2[OF ph1] None]] conjunct2[OF mp[OF conjunct2[OF ph2] that]]
      by (simp only: reported_append)
    show ?thesis
      unfolding end2(1,2)
      by (intro conjI allI impI) (erule frame, erule (1) take, erule (1) drop, erule lists)
  qed
qed

lemma tag_image:
  "(\<lambda>r. tag (v r) r) ` {r \<in> R. taken (v r)} = (@) ''A '' ` {r \<in> R. v r = Added} \<union> (@) ''M '' ` {r \<in> R. v r = Replaced}"
  "(\<lambda>r. tag (v r) r) ` {r \<in> R. v r = Removed} = (@) ''D '' ` {r \<in> R. v r = Removed}"
proof -
  have "{r \<in> R. taken (v r)} = {r \<in> R. v r = Added} \<union> {r \<in> R. v r = Replaced}" by (auto simp: taken_def)
  moreover have "(\<lambda>r. tag (v r) r) ` {r \<in> R. v r = Added} = (@) ''A '' ` {r \<in> R. v r = Added}"
    "(\<lambda>r. tag (v r) r) ` {r \<in> R. v r = Replaced} = (@) ''M '' ` {r \<in> R. v r = Replaced}"
    by (rule image_cong, simp, simp add: tag_def)+
  ultimately show "(\<lambda>r. tag (v r) r) ` {r \<in> R. taken (v r)} =
      (@) ''A '' ` {r \<in> R. v r = Added} \<union> (@) ''M '' ` {r \<in> R. v r = Replaced}" by (simp only: image_Un)
  show "(\<lambda>r. tag (v r) r) ` {r \<in> R. v r = Removed} = (@) ''D '' ` {r \<in> R. v r = Removed}"
    by (rule image_cong, simp, simp add: tag_def)
qed

lemma sorted_result_reported:
  "set (mg_Merged (sorted_result (reported v rels empty_result))) =
     (@) ''A '' ` {r \<in> set rels. v r = Added} \<union> (@) ''M '' ` {r \<in> set rels. v r = Replaced}"
  "set (mg_Conflicts (sorted_result (reported v rels empty_result))) = {r \<in> set rels. v r = Conflicting}"
  "set (mg_Deleted (sorted_result (reported v rels empty_result))) = (@) ''D '' ` {r \<in> set rels. v r = Removed}"
  "set (mg_Skipped (sorted_result (reported v rels empty_result))) = {r \<in> set rels. v r = Skipped}"
  "sorted (mg_Merged (sorted_result (reported v rels empty_result)))" "sorted (mg_Conflicts (sorted_result (reported v rels empty_result)))"
  "sorted (mg_Deleted (sorted_result (reported v rels empty_result)))" "sorted (mg_Skipped (sorted_result (reported v rels empty_result)))"
  unfolding tag_image[symmetric] by (simp_all add: sorted_result_def reported_def empty_result_def)

text \<open>The names a finished merge has looked at, each once.\<close>

lemma merge_names:
  fixes hash :: "string \<Rightarrow> string"
  assumes "forest_ok overlay" "distinct (map fst baseline)"
  defines "snap \<equiv> SnapshotWorkspace hash overlay"
  defines "rels \<equiv> sort (map fst snap) @ filter (\<lambda>r. map_of snap r = None) (map fst baseline)"
  shows "distinct rels \<and> (merge_verdict hash overlay baseline base r \<noteq> Untouched \<longrightarrow> r \<in> set rels)"
proof
  show "distinct rels"
    using snapshot_distinct[OF assms(1), of hash] assms(2) map_of_eq_None_iff[of snap] unfolding rels_def snap_def by auto
  show "merge_verdict hash overlay baseline base r \<noteq> Untouched \<longrightarrow> r \<in> set rels"
    using verdict_names[of hash overlay baseline base r] map_of_eq_None_iff[of snap r] map_of_eq_None_iff[of baseline r]
    unfolding rels_def snap_def by auto
qed

section \<open>Property\<close>

text \<open>
  C40. \<open>MergeWorkspaces\<close> is the three-way merge. However it ends, a path of the base tree changes
  only if its verdict is Added, Replaced or Removed: the base file had no hash and no baseline, or
  still has the hash of the baseline. If it ends without error, every path of the base tree has
  the content the table gives it, and the four lists, sorted, name exactly the paths of each
  verdict, so the outcome does not depend on the order in which the baseline map is ranged over.
\<close>

theorem merge_is_three_way:
  assumes "forest_ok overlay" "distinct (map fst baseline)" "MergeWorkspaces hash io overlay baseline base = (base', res, err)"
  shows "(\<forall>r. base' r \<noteq> base r \<longrightarrow> merge_verdict hash overlay baseline base r \<in> {Added, Replaced, Removed}) \<and>
    (err = None \<longrightarrow>
      (\<forall>r. base' r = (case merge_verdict hash overlay baseline base r of
          Added \<Rightarrow> workspace_read overlay r | Replaced \<Rightarrow> workspace_read overlay r | Removed \<Rightarrow> None | _ \<Rightarrow> base r)) \<and>
      set (mg_Merged res) = (@) ''A '' ` {r. merge_verdict hash overlay baseline base r = Added} \<union>
        (@) ''M '' ` {r. merge_verdict hash overlay baseline base r = Replaced} \<and>
      set (mg_Conflicts res) = {r. merge_verdict hash overlay baseline base r = Conflicting} \<and>
      set (mg_Deleted res) = (@) ''D '' ` {r. merge_verdict hash overlay baseline base r = Removed} \<and>
      set (mg_Skipped res) = {r. merge_verdict hash overlay baseline base r = Skipped} \<and>
      sorted (mg_Merged res) \<and> sorted (mg_Conflicts res) \<and> sorted (mg_Deleted res) \<and> sorted (mg_Skipped res))"
proof -
  let ?v = "merge_verdict hash overlay baseline base" and ?snap = "SnapshotWorkspace hash overlay"
  let ?rels = "sort (map fst ?snap) @ filter (\<lambda>r. map_of ?snap r = None) (map fst baseline)"
  note ph = merge_phases[OF assms]
  have rels: "?v r \<noteq> Untouched \<Longrightarrow> r \<in> set ?rels" for r
    using merge_names[OF assms(1,2)] by blast
  have tree: "base' r = (case ?v r of Added \<Rightarrow> workspace_read overlay r | Replaced \<Rightarrow> workspace_read overlay r | Removed \<Rightarrow> None | _ \<Rightarrow> base r)"
    if "err = None" for r
    using ph that by (cases "?v r") (auto simp: taken_def)
  have in_rels: "{r \<in> set ?rels. ?v r = x} = {r. ?v r = x}" if "x \<noteq> Untouched" for x
    using rels that by blast
  have lists: "set (mg_Merged (sorted_result (reported ?v ?rels empty_result))) = (@) ''A '' ` {r. ?v r = Added} \<union> (@) ''M '' ` {r. ?v r = Replaced}"
    "set (mg_Conflicts (sorted_result (reported ?v ?rels empty_result))) = {r. ?v r = Conflicting}"
    "set (mg_Deleted (sorted_result (reported ?v ?rels empty_result))) = (@) ''D '' ` {r. ?v r = Removed}"
    "set (mg_Skipped (sorted_result (reported ?v ?rels empty_result))) = {r. ?v r = Skipped}"
    unfolding sorted_result_reported(1-4) by (simp_all only: in_rels verdict.distinct not_False_eq_True)
  have "res = sorted_result (reported ?v ?rels empty_result)" if "err = None" using ph that by blast
  with lists sorted_result_reported(5-8)[of ?v ?rels] tree conjunct1[OF ph] show ?thesis by (intro conjI impI allI) simp_all
qed

text \<open>A changed file, a new one and a deleted one; the base was left alone meanwhile.\<close>

definition sample_overlay :: forest where
  "sample_overlay = [(''a'', Leaf (Some 3) (Some ''new'')), (''d'', Dir [(''b'', Leaf (Some 1) (Some ''x''))])]"

definition sample_base :: base_tree where
  "sample_base = [''a'' \<mapsto> ''old'', ''c'' \<mapsto> ''c'']"

definition sample_merge :: "base_tree \<times> MergeResult \<times> string option" where
  "sample_merge = MergeWorkspaces (\<lambda>d. ''h'' @ d) \<lparr>mi_path = (\<lambda>r. r), mi_read = (\<lambda>r. []), mi_copy = (\<lambda>r. CopyOk), mi_remove = (\<lambda>r. None)\<rparr>
     sample_overlay [(''a'', ''hold''), (''c'', ''hc'')] sample_base"

lemma merge_is_three_way_witness:
  "fst sample_merge ''a'' = Some ''new'' \<and> fst sample_merge ''d/b'' = Some ''x'' \<and> fst sample_merge ''c'' = None \<and>
   set (mg_Conflicts (fst (snd sample_merge))) = {r. merge_verdict (\<lambda>d. ''h'' @ d) sample_overlay [(''a'', ''hold''), (''c'', ''hc'')] sample_base r = Conflicting}"
proof -
  let ?b = "[(''a'', ''hold''), (''c'', ''hc'')]" and ?h = "\<lambda>d. ''h'' @ d"
  have ok: "forest_ok sample_overlay" "distinct (map fst ?b)" by (simp_all add: sample_overlay_def)
  have snap: "SnapshotWorkspace ?h sample_overlay = [(''a'', ''hnew''), (''d/b'', ''hx'')]"
    by (simp add: SnapshotWorkspace_def sample_overlay_def rel_name_def snapshotSkip_def)
  have read: "workspace_read sample_overlay ''a'' = Some ''new''" "workspace_read sample_overlay ''d/b'' = Some ''x''"
    by (simp_all add: workspace_read_def sample_overlay_def rel_name_def snapshotSkip_def)
  have names: "sort (map fst (SnapshotWorkspace ?h sample_overlay)) = [''a'', ''d/b'']" unfolding snap by code_simp
  have e: "snd (snd sample_merge) = None"
    unfolding sample_merge_def MergeWorkspaces_def Let_def names unfolding snap
    by (simp add: copyFile_def read hashFile_def sample_base_def)
  have m: "MergeWorkspaces ?h \<lparr>mi_path = (\<lambda>r. r), mi_read = (\<lambda>r. []), mi_copy = (\<lambda>r. CopyOk), mi_remove = (\<lambda>r. None)\<rparr> sample_overlay ?b sample_base =
      (fst sample_merge, fst (snd sample_merge), None)"
    unfolding sample_merge_def[symmetric] by (metis e prod.collapse)
  note t = merge_is_three_way[OF ok m, THEN conjunct2, THEN mp, OF refl]
  have "merge_verdict ?h sample_overlay ?b sample_base ''a'' = Replaced" "merge_verdict ?h sample_overlay ?b sample_base ''d/b'' = Added"
    "merge_verdict ?h sample_overlay ?b sample_base ''c'' = Removed"
    unfolding merge_verdict_def snap by (simp_all add: hashFile_def sample_base_def three_way_def)
  with t read show ?thesis by simp
qed

section \<open>Where the sizes lead astray\<close>

text \<open>
  A base file of more than a mebibyte has no hash: what the overlay holds under its name, if the
  baseline does not list it (snapshots leave such files out), replaces it as if it were new.
\<close>

lemma large_base_file_is_overwritten:
  assumes "base r = Some data" "1048576 < length data" "map_of baseline r = None" "map_of (SnapshotWorkspace hash overlay) r \<noteq> None"
  shows "merge_verdict hash overlay baseline base r = Added"
  using assms by (auto simp: merge_verdict_def hashFile_def three_way_def)

text \<open>A file the role let grow beyond the limit of snapshots is deleted from the base tree.\<close>

lemma grown_file_is_deleted:
  assumes "forest_ok overlay" "(r, Some sz, content) \<in> set (walk_forest [] overlay)" "262144 < sz"
    and "map_of baseline r = Some (hashFile hash base r)" "hashFile hash base r \<noteq> []"
  shows "merge_verdict hash overlay baseline base r = Removed"
  using snapshot_omits_large[OF assms(1-3), of hash] assms(4,5) by (simp add: merge_verdict_def three_way_def)

end
