(* ===== verification/Team.thy ===== *)
theory Team
  imports TeamMerge GoFloat
begin

text \<open>
  \<open>internal/harness/team\<close>: teams (\<open>team.go\<close>), their execution with budgets, delegation and the review
  gate (\<open>exec.go\<close>), and the derivation of the least workforce (\<open>least_workforce.go\<close>). The roles of a
  batch work concurrently: what they do to the world and how each ends is one parameter of the
  batch, given by position. A budget or usage is a map of \<open>float64\<close>; only comparisons matter.
\<close>

section \<open>Teams\<close>

datatype Delegation = DelegationSolo | DelegationManual | DelegationSuggested | DelegationBoundedAuto | DelegationOther string


record TeamRole =
  ro_Name :: string
  ro_Binding :: string
  ro_Budget :: "string \<rightharpoonup> rat"
  ro_Workspace :: string

record Team =
  tm_ID :: string
  tm_Delegation :: Delegation
  tm_Roles :: "TeamRole list"

fun validate_roles :: "TeamRole list \<Rightarrow> (string \<rightharpoonup> string) \<Rightarrow> string option" where
  "validate_roles [] seen = None"
| "validate_roles (r # rs) seen =
     (if ro_Workspace r = [] then validate_roles rs seen
      else case seen (ro_Workspace r) of
        Some owner \<Rightarrow> Some (''worktree '' @ ro_Workspace r @ '' owned by both '' @ owner @ '' and '' @ ro_Name r @ '' without policy'')
      | None \<Rightarrow> validate_roles rs (seen(ro_Workspace r \<mapsto> ro_Name r)))"

definition team_Validate :: "Team \<Rightarrow> string option" where
  "team_Validate t = (if tm_Roles t = [] then Some ''team requires roles'' else validate_roles (tm_Roles t) Map.empty)"

record ReviewInput =
  ri_Diff :: string
  ri_Requirements :: "string list"
  ri_Evidence :: "string list"

record ReviewVerdict =
  rv_Approve :: bool
  rv_Notes :: string

record RoleResult =
  rr_Role :: string
  rr_Evidence :: "string list"
  rr_Usage :: "(string \<times> rat) list"
  rr_Error :: string


section \<open>Diffs for the reviewer\<close>





section \<open>Running a batch\<close>

record work_end =
  we_Evidence :: "string list"
  we_Usage :: "(string \<times> rat) list"
  we_Err :: "string option"

text \<open>
  The ports: work, review, suggestions, the workspaces and the error of the caller's context;
  \<open>%.0f\<close> is a parameter. The text of a cancelled context is the caller's if it has one.
\<close>

record 'w TeamRunner =
  tn_Team :: Team
  tn_Work :: "('w \<Rightarrow> TeamRole list \<Rightarrow> (nat \<Rightarrow> work_end) \<times> 'w) option"
  tn_ReviewerRole :: string
  tn_Review :: "('w \<Rightarrow> ReviewInput \<Rightarrow> (string, ReviewVerdict) outcome \<times> 'w) option"
  tn_Requirements :: "string list"
  tn_Suggester :: "('w \<Rightarrow> Team \<Rightarrow> RoleResult list \<Rightarrow> (string, TeamRole list) outcome \<times> 'w) option"
  tn_MaxDelegations :: int
  tn_tree :: "'w \<Rightarrow> string \<Rightarrow> forest"
  tn_hash :: "string \<Rightarrow> string"
  tn_CtxErr :: "'w \<Rightarrow> string option"
  tn_fmt :: "rat \<Rightarrow> string"

definition pendingRoles :: "TeamRole list \<Rightarrow> string \<Rightarrow> RoleResult list \<Rightarrow> TeamRole list" where
  "pendingRoles roles reviewer done =
     filter (\<lambda>r. ro_Name r \<noteq> reviewer \<and> ro_Name r \<notin> set (map rr_Role done)) roles"

fun overBudget :: "(rat \<Rightarrow> string) \<Rightarrow> TeamRole \<Rightarrow> (string \<times> rat) list \<Rightarrow> string" where
  "overBudget fmt role [] = []"
| "overBudget fmt role ((k, used) # rest) =
     (case ro_Budget role k of
        Some limit \<Rightarrow> if limit < used then k @ '' used '' @ fmt used @ '' > limit '' @ fmt limit else overBudget fmt role rest
      | None \<Rightarrow> overBudget fmt role rest)"

definition role_result :: "(rat \<Rightarrow> string) \<Rightarrow> TeamRole \<Rightarrow> work_end \<Rightarrow> RoleResult" where
  "role_result fmt role e =
     \<lparr>rr_Role = ro_Name role, rr_Evidence = we_Evidence e, rr_Usage = we_Usage e,
      rr_Error = (case we_Err e of
          Some err \<Rightarrow> err
        | None \<Rightarrow> (case overBudget fmt role (we_Usage e) of [] \<Rightarrow> [] | over \<Rightarrow> ''budget exhausted: '' @ over))\<rparr>"

definition cancels :: "(rat \<Rightarrow> string) \<Rightarrow> TeamRole \<Rightarrow> work_end \<Rightarrow> bool" where
  "cancels fmt role e \<longleftrightarrow> we_Err e \<noteq> None \<or> overBudget fmt role (we_Usage e) \<noteq> []"

definition runBatch :: "(rat \<Rightarrow> string) \<Rightarrow> ('w \<Rightarrow> string option) \<Rightarrow> TeamRole list \<Rightarrow> ('w \<Rightarrow> TeamRole list \<Rightarrow> (nat \<Rightarrow> work_end) \<times> 'w)
    \<Rightarrow> 'w \<Rightarrow> (string, RoleResult list) outcome \<times> 'w" where
  "runBatch fmt ctxErr roles work w =
     (let (ends, w) = work w roles;
          results = map (\<lambda>(i, r). role_result fmt r (ends i)) (enumerate 0 roles);
          ended = (ctxErr w \<noteq> None \<or> list_ex (\<lambda>(i, r). cancels fmt r (ends i)) (enumerate 0 roles)) in
      if ended \<and> roles \<noteq> [] \<and> \<not> list_ex (\<lambda>res. rr_Error res \<noteq> []) results
      then (Inl (case ctxErr w of Some e \<Rightarrow> e | None \<Rightarrow> ''context canceled''), w)
      else (Inr results, w))"

section \<open>Running a team\<close>

definition snapshot_roles :: "'w TeamRunner \<Rightarrow> 'w \<Rightarrow> TeamRole list \<Rightarrow> (string \<rightharpoonup> (string \<times> string) list) \<Rightarrow> (string \<rightharpoonup> (string \<times> string) list)" where
  "snapshot_roles r w batch before =
     fold (\<lambda>role m. if ro_Workspace role = [] then m
        else m(ro_Name role \<mapsto> SnapshotWorkspace (tn_hash r) (tn_tree r w (ro_Workspace role)))) batch before"

definition max_delegations :: "'w TeamRunner \<Rightarrow> int" where
  "max_delegations r = (if tn_MaxDelegations r \<le> 0 then 3 else tn_MaxDelegations r)"

text \<open>
  The delegation loop: \<open>roles\<close> so far, \<open>results\<close>, the snapshots taken before, and the number of
  delegated roles. The first argument bounds the rounds; \<open>None\<close> when they do not suffice.
\<close>

fun delegation_loop :: "nat \<Rightarrow> 'w TeamRunner \<Rightarrow> ('w \<Rightarrow> TeamRole list \<Rightarrow> (nat \<Rightarrow> work_end) \<times> 'w) \<Rightarrow> TeamRole list \<Rightarrow> RoleResult list
    \<Rightarrow> (string \<rightharpoonup> (string \<times> string) list) \<Rightarrow> int \<Rightarrow> 'w
    \<Rightarrow> ((string, RoleResult list \<times> (string \<rightharpoonup> (string \<times> string) list)) outcome \<times> 'w) option" where
  "delegation_loop 0 r work roles results before delegations w = None"
| "delegation_loop (Suc n) r work roles results before delegations w =
     (let batch = pendingRoles roles (tn_ReviewerRole r) results;
          before = snapshot_roles r w batch before;
          mode = tm_Delegation (tn_Team r) in
      case runBatch (tn_fmt r) (tn_CtxErr r) batch work w of
        (Inl e, w) \<Rightarrow> Some (Inl e, w)
      | (Inr got, w) \<Rightarrow>
          let results = results @ got in
          if mode \<noteq> DelegationSuggested \<and> mode \<noteq> DelegationBoundedAuto then Some (Inr (results, before), w)
          else if mode = DelegationBoundedAuto \<and> max_delegations r \<le> delegations then Some (Inr (results, before), w)
          else (case the (tn_Suggester r) w (tn_Team r) results of
             (Inl e, w) \<Rightarrow> Some (Inl e, w)
           | (Inr extra, w) \<Rightarrow>
               if extra = [] then Some (Inr (results, before), w)
               else (case team_Validate \<lparr>tm_ID = tm_ID (tn_Team r), tm_Delegation = DelegationOther [], tm_Roles = roles @ extra\<rparr> of
                  Some e \<Rightarrow> Some (Inl e, w)
                | None \<Rightarrow> delegation_loop n r work (roles @ extra) results before (delegations + int (length extra)) w)))"






section \<open>The least workforce\<close>

record WorkforceSpec =
  ws_TaskID :: string
  ws_RiskLevel :: string
  ws_RequiredCapabilities :: "string list"
  ws_AllowMultiAgent :: bool

record WorkforceExplanation =
  wx_DelegationMode :: Delegation
  wx_PrimaryReason :: string
  wx_AssignedRoles :: "string list"
  wx_RejectedRoles :: "string list"
  wx_RequiresReviewer :: bool
  wx_ModelDiversity :: bool

definition implementer_role :: TeamRole where
  "implementer_role = \<lparr>ro_Name = ''implementer'', ro_Binding = ''prumo-native-implementer'',
     ro_Budget = [''cost_usd'' \<mapsto> f64 (80/100)], ro_Workspace = []\<rparr>"

definition reviewer_role :: TeamRole where
  "reviewer_role = \<lparr>ro_Name = ''reviewer'', ro_Binding = ''prumo-native-reviewer'',
     ro_Budget = [''cost_usd'' \<mapsto> f64 (20/100)], ro_Workspace = []\<rparr>"

definition specialist_role :: TeamRole where
  "specialist_role = \<lparr>ro_Name = ''specialist'', ro_Binding = ''prumo-domain-specialist'',
     ro_Budget = [''cost_usd'' \<mapsto> f64 (50/100)], ro_Workspace = []\<rparr>"

definition ResolveLeastWorkforce :: "WorkforceSpec \<Rightarrow> Team \<times> WorkforceExplanation" where
  "ResolveLeastWorkforce spec =
     (let team_of = (\<lambda>mode roles. \<lparr>tm_ID = ''team-'' @ ws_TaskID spec, tm_Delegation = mode, tm_Roles = roles\<rparr>);
          x = \<lparr>wx_DelegationMode = DelegationSolo, wx_PrimaryReason = ''LEAST_WORKFORCE_SOLO'',
            wx_AssignedRoles = [''implementer''], wx_RejectedRoles = [], wx_RequiresReviewer = False, wx_ModelDiversity = False\<rparr> in
      if ws_RiskLevel spec = ''low'' \<or> \<not> ws_AllowMultiAgent spec then (team_of DelegationSolo [implementer_role], x)
      else
        let (roles, x) = (if ws_RiskLevel spec \<in> {''medium'', ''high'', ''critical''}
              then ([implementer_role, reviewer_role],
                x\<lparr>wx_DelegationMode := DelegationSuggested, wx_PrimaryReason := ''INDEPENDENT_REVIEW_REQUIRED'',
                  wx_AssignedRoles := wx_AssignedRoles x @ [''reviewer''], wx_RequiresReviewer := True, wx_ModelDiversity := True\<rparr>)
              else ([implementer_role], x));
            hasSpecialistCap = list_ex (\<lambda>c. c \<in> {''security'', ''kernel'', ''compiler''}) (ws_RequiredCapabilities spec);
            (roles, x) = (if ws_RiskLevel spec = ''critical'' \<and> hasSpecialistCap
              then (roles @ [specialist_role],
                x\<lparr>wx_DelegationMode := DelegationBoundedAuto,
                  wx_PrimaryReason := ''SPECIALIST_REQUIRED'' @ ''; '' @ ''INDEPENDENT_REVIEW_REQUIRED'',
                  wx_AssignedRoles := wx_AssignedRoles x @ [''specialist'']\<rparr>)
              else (roles, x))
        in (team_of (wx_DelegationMode x) roles, x))"

section \<open>Separate workspaces\<close>

definition owned_workspaces :: "TeamRole list \<Rightarrow> string list" where
  "owned_workspaces rs = filter (\<lambda>w. w \<noteq> []) (map ro_Workspace rs)"

lemma validate_roles_ok:
  "validate_roles rs seen = None \<longleftrightarrow> distinct (owned_workspaces rs) \<and> (\<forall>w\<in>set (owned_workspaces rs). seen w = None)"
proof (induction rs arbitrary: seen)
  case (Cons r rs)
  let ?w = "ro_Workspace r"
  have fresh: "(\<forall>v\<in>S. (seen(?w \<mapsto> ro_Name r)) v = None) \<longleftrightarrow> ?w \<notin> S \<and> (\<forall>v\<in>S. seen v = None)" for S
    by (metis fun_upd_apply option.distinct(1))
  have "owned_workspaces (r # rs) = (if ?w = [] then owned_workspaces rs else ?w # owned_workspaces rs)"
    by (simp add: owned_workspaces_def)
  then show ?case by (cases "?w = []"; cases "seen ?w") (auto simp: Cons.IH fresh)
qed (simp add: owned_workspaces_def)

text \<open>A valid team has roles, and no two of them own the same workspace.\<close>

lemma team_Validate_ok:
  "team_Validate t = None \<longleftrightarrow> tm_Roles t \<noteq> [] \<and> distinct (owned_workspaces (tm_Roles t))"
  by (simp add: team_Validate_def validate_roles_ok)

text \<open>The least workforce is a valid team whose assigned names are its roles, and it has a reviewer of
  its own whenever the risk is known to be more than low and several agents are allowed.\<close>

lemma least_workforce_ok:
  "ResolveLeastWorkforce spec = (t, x) \<Longrightarrow>
     team_Validate t = None \<and> wx_AssignedRoles x = map ro_Name (tm_Roles t) \<and> tm_Delegation t = wx_DelegationMode x \<and>
     implementer_role \<in> set (tm_Roles t) \<and> (tm_Delegation t = DelegationSolo \<longrightarrow> length (tm_Roles t) = 1) \<and>
     (reviewer_role \<in> set (tm_Roles t) \<longleftrightarrow> wx_RequiresReviewer x) \<and>
     (wx_RequiresReviewer x \<longleftrightarrow> ws_RiskLevel spec \<in> {''medium'', ''high'', ''critical''} \<and> ws_AllowMultiAgent spec)"
  by (auto simp: ResolveLeastWorkforce_def Let_def team_Validate_ok owned_workspaces_def implementer_role_def reviewer_role_def specialist_role_def
      split: if_splits)

section \<open>What a batch guarantees\<close>







section \<open>What the loop guarantees\<close>

text \<open>
  A runner that writes down what its suggester suggests and which roles it hands to the work.
\<close>

definition recorded :: "'w TeamRunner \<Rightarrow> ('w \<times> TeamRole list \<times> TeamRole list) TeamRunner" where
  "recorded r = \<lparr>tn_Team = tn_Team r,
     tn_Work = map_option (\<lambda>work (w, sug, worked) roles. case work w roles of (ends, w) \<Rightarrow> (ends, w, sug, worked @ roles)) (tn_Work r),
     tn_ReviewerRole = tn_ReviewerRole r,
     tn_Review = map_option (\<lambda>review (w, l) input. case review w input of (v, w) \<Rightarrow> (v, w, l)) (tn_Review r),
     tn_Requirements = tn_Requirements r,
     tn_Suggester = map_option (\<lambda>suggest (w, sug, worked) t results. case suggest w t results of (out, w) \<Rightarrow>
         (out, w, (case out of Inr extra \<Rightarrow> sug @ extra | Inl _ \<Rightarrow> sug), worked)) (tn_Suggester r),
     tn_MaxDelegations = tn_MaxDelegations r, tn_tree = (\<lambda>(w, l). tn_tree r w), tn_hash = tn_hash r,
     tn_CtxErr = (\<lambda>(w, l). tn_CtxErr r w), tn_fmt = tn_fmt r\<rparr>"

lemma recorded_simps [simp]:
  "tn_Team (recorded r) = tn_Team r" "tn_ReviewerRole (recorded r) = tn_ReviewerRole r" "tn_fmt (recorded r) = tn_fmt r"
  "max_delegations (recorded r) = max_delegations r" "tn_Review (recorded r) = None \<longleftrightarrow> tn_Review r = None"
  by (simp_all add: recorded_def max_delegations_def)











section \<open>Rounds\<close>

text \<open>In bounded mode each round that goes on delegates at least one role, so the cap ends the loop.\<close>

lemma delegation_loop_ends:
  assumes "tm_Delegation (tn_Team r) \<noteq> DelegationSuggested" "nat (max_delegations r - d) < n"
  shows "delegation_loop n r work roles results before d w \<noteq> None"
  using assms(2)
proof (induction n arbitrary: roles results before d w)
  case (Suc n)
  obtain b w1 where b: "runBatch (tn_fmt r) (tn_CtxErr r) (pendingRoles roles (tn_ReviewerRole r) results) work w = (b, w1)" by fastforce
  show ?case
  proof (cases b)
    case (Inl e)
    with b show ?thesis by (simp add: Let_def)
  next
    case (Inr got)
    obtain s w2 where s: "the (tn_Suggester r) w1 (tn_Team r) (results @ got) = (s, w2)" by fastforce
    have go: "delegation_loop n r work (roles @ extra) (results @ got) bf (d + int (length extra)) w2 \<noteq> None"
      if "\<not> max_delegations r \<le> d" "extra \<noteq> []" for extra bf
    proof (rule Suc.IH)
      have "0 < length extra" using that(2) by simp
      then show "nat (max_delegations r - (d + int (length extra))) < n" using Suc.prems that(1) by linarith
    qed
    show ?thesis
    proof (cases s)
      case (Inl e)
      with b Inr s show ?thesis by (simp add: Let_def)
    next
      case x: (Inr extra)
      with b Inr s assms(1) go[of extra] show ?thesis by (auto simp: Let_def split: option.split)
    qed
  qed
qed simp

text \<open>Nothing ends the loop in suggested mode while suggestions keep coming.\<close>

lemma suggested_mode_never_ends:
  assumes "tm_Delegation (tn_Team r) = DelegationSuggested" "tn_CtxErr r = (\<lambda>w. None)"
    "tn_Suggester r = Some (\<lambda>w t res. (Inr [x], w))" "ro_Workspace x = []" "distinct (owned_workspaces roles)"
  shows "delegation_loop n r (\<lambda>w rs. (\<lambda>i. \<lparr>we_Evidence = [], we_Usage = [], we_Err = None\<rparr>, w)) roles results before d w = None"
  using assms(5)
proof (induction n arbitrary: roles results before d w)
  case (Suc n)
  let ?ok = "\<lparr>we_Evidence = [], we_Usage = [], we_Err = None\<rparr>"
  have "runBatch (tn_fmt r) (tn_CtxErr r) rs (\<lambda>w rs. (\<lambda>i. ?ok, w)) w = (Inr (map (\<lambda>(i, q). role_result (tn_fmt r) q ?ok) (enumerate 0 rs)), w)" for rs
    by (simp add: runBatch_def assms(2) cancels_def split_beta list_ex_iff)
  moreover have "owned_workspaces (roles @ [x]) = owned_workspaces roles" using assms(4) by (simp add: owned_workspaces_def)
  moreover have "team_Validate \<lparr>tm_ID = tm_ID (tn_Team r), tm_Delegation = DelegationOther [], tm_Roles = roles @ [x]\<rparr> = None"
    using calculation(2) Suc.prems by (simp add: team_Validate_ok)
  ultimately show ?case
    using Suc by (simp add: Let_def assms(1,3))
qed simp

section \<open>Property\<close>


text \<open>A suggested role that has the name of one that worked is accepted and never runs.\<close>

lemma namesake_is_not_pending:
  "ro_Name x \<in> rr_Role ` set results \<Longrightarrow> x \<notin> set (pendingRoles (roles @ [x]) reviewer results)"
  by (auto simp: pendingRoles_def)




end
