(* ===== verification/Planning.thy ===== *)
theory Planning
  imports GoStrings "HOL-Library.Product_Lexorder"
begin

text \<open>
  \<open>internal/planning\<close>, the Living Plan: classified answers, decision proposals and their authority
  (\<open>classification.go\<close>, \<open>decision.go\<close>), open questions by priority (\<open>question.go\<close>), the resolver of
  answers (\<open>resolver.go\<close>) and the preview with its contradictions (\<open>preview.go\<close>).
\<close>

section \<open>Classifications, confidence, authority\<close>

datatype AnswerClassification =
    ExplicitDecision | Preference | Constraint | Requirement | NonGoal | Unresolved | Hypothesis
  | AgentSuggested | ClassificationOther string

definition classification_text :: "AnswerClassification \<Rightarrow> string" where
  "classification_text c = (case c of ExplicitDecision \<Rightarrow> ''explicit-decision'' | Preference \<Rightarrow> ''preference''
     | Constraint \<Rightarrow> ''constraint'' | Requirement \<Rightarrow> ''requirement'' | NonGoal \<Rightarrow> ''non-goal'' | Unresolved \<Rightarrow> ''unresolved''
     | Hypothesis \<Rightarrow> ''hypothesis'' | AgentSuggested \<Rightarrow> ''agent-suggestion'' | ClassificationOther s \<Rightarrow> s)"

definition classification_Valid :: "AnswerClassification \<Rightarrow> bool" where
  "classification_Valid c = (case c of ClassificationOther s \<Rightarrow> False | _ \<Rightarrow> True)"

definition IsDecision :: "AnswerClassification \<Rightarrow> bool" where
  "IsDecision c \<longleftrightarrow> c \<noteq> Hypothesis \<and> c \<noteq> AgentSuggested \<and> c \<noteq> Unresolved"

datatype Confidence = ConfidenceHigh | ConfidenceMedium | ConfidenceLow | ConfidenceUnknown | ConfidenceOther string

definition confidence_text :: "Confidence \<Rightarrow> string" where
  "confidence_text c = (case c of ConfidenceHigh \<Rightarrow> ''high'' | ConfidenceMedium \<Rightarrow> ''medium'' | ConfidenceLow \<Rightarrow> ''low''
     | ConfidenceUnknown \<Rightarrow> ''unknown'' | ConfidenceOther s \<Rightarrow> s)"

definition confidence_Valid :: "Confidence \<Rightarrow> bool" where
  "confidence_Valid c = (case c of ConfidenceOther s \<Rightarrow> False | _ \<Rightarrow> True)"

definition AuthorityRank :: "string \<Rightarrow> nat" where
  "AuthorityRank a =
     (if a = ''invariant'' then 1 else if a = ''user-decision'' then 2 else if a = ''project-decision'' then 3
      else if a = ''documented-evidence'' then 4 else if a = ''inferred-state'' then 5
      else if a = ''agent-suggestion'' then 6 else if a = ''external'' then 7 else 0)"

section \<open>Decision proposals\<close>

datatype DecisionStatus = StatusProposed | StatusAccepted | StatusRejected | StatusSuperseded | StatusOther string

definition status_text :: "DecisionStatus \<Rightarrow> string" where
  "status_text s = (case s of StatusProposed \<Rightarrow> ''proposed'' | StatusAccepted \<Rightarrow> ''accepted'' | StatusRejected \<Rightarrow> ''rejected''
     | StatusSuperseded \<Rightarrow> ''superseded'' | StatusOther t \<Rightarrow> t)"

definition status_Valid :: "DecisionStatus \<Rightarrow> bool" where
  "status_Valid s = (case s of StatusOther t \<Rightarrow> False | _ \<Rightarrow> True)"

record DecisionProposal =
  dp_ID :: string
  dp_Statement :: string
  dp_Classification :: AnswerClassification
  dp_Scope :: string
  dp_Actor :: string
  dp_Source :: string
  dp_Authority :: string
  dp_Confidence :: Confidence
  dp_Status :: DecisionStatus
  dp_Affected :: "string list"
  dp_Rationale :: string
  dp_Alternatives :: "string list"
  dp_Evidence :: "string list"
  dp_Supersedes :: string
  dp_CreatedAt :: string
  dp_ResolvedAt :: string

definition zero_proposal :: DecisionProposal where
  "zero_proposal = \<lparr>dp_ID = [], dp_Statement = [], dp_Classification = ClassificationOther [], dp_Scope = [], dp_Actor = [],
     dp_Source = [], dp_Authority = [], dp_Confidence = ConfidenceOther [], dp_Status = StatusOther [], dp_Affected = [],
     dp_Rationale = [], dp_Alternatives = [], dp_Evidence = [], dp_Supersedes = [], dp_CreatedAt = [], dp_ResolvedAt = []\<rparr>"

definition proposal_Validate :: "DecisionProposal \<Rightarrow> string option" where
  "proposal_Validate d =
     (if blank (dp_ID d) then Some ''decision proposal requires an id''
      else if blank (dp_Statement d) then Some ''decision proposal requires a statement''
      else if \<not> classification_Valid (dp_Classification d) then Some (''unknown classification '' @ quoted (classification_text (dp_Classification d)))
      else if AuthorityRank (dp_Authority d) = 0 then Some (''unknown or missing authority '' @ quoted (dp_Authority d))
      else if \<not> confidence_Valid (dp_Confidence d) then Some (''unknown confidence '' @ quoted (confidence_text (dp_Confidence d)))
      else if \<not> status_Valid (dp_Status d) then Some (''unknown status '' @ quoted (status_text (dp_Status d)))
      else if dp_Classification d = AgentSuggested \<and> dp_Status d = StatusAccepted
      then Some ''agent suggestion cannot be promoted to accepted without an explicit user decision''
      else if dp_Classification d = AgentSuggested \<and> dp_Authority d \<noteq> ''agent-suggestion''
      then Some ''agent suggestion must carry agent-suggestion authority''
      else None)"

definition AgentSuggestion :: "string \<Rightarrow> string \<Rightarrow> string \<Rightarrow> DecisionProposal" where
  "AgentSuggestion i statement scope = zero_proposal\<lparr>dp_ID := i, dp_Classification := AgentSuggested,
     dp_Authority := ''agent-suggestion'', dp_Confidence := ConfidenceUnknown, dp_Status := StatusProposed,
     dp_Statement := statement, dp_Scope := scope\<rparr>"

definition proposal_Resolve :: "string \<Rightarrow> DecisionProposal \<Rightarrow> DecisionProposal" where
  "proposal_Resolve actor d = d\<lparr>dp_Classification := ExplicitDecision, dp_Authority := ''user-decision'',
     dp_Confidence := ConfidenceUnknown, dp_Status := StatusAccepted, dp_Actor := actor\<rparr>"

section \<open>Open questions\<close>

definition priority_String :: "int \<Rightarrow> string" where
  "priority_String p =
     (if p = 0 then ''blocker'' else if p = 1 then ''irreversible'' else if p = 2 then ''high-risk''
      else if p = 3 then ''product'' else if p = 4 then ''important-detail'' else if p = 5 then ''nice-to-have'' else ''unknown'')"

definition ParsePriority :: "string \<Rightarrow> (string, int) outcome" where
  "ParsePriority v =
     (if v = ''blocker'' then Inr 0 else if v = ''irreversible'' then Inr 1 else if v = ''high-risk'' then Inr 2
      else if v = ''product'' then Inr 3 else if v = ''important-detail'' then Inr 4 else if v = ''nice-to-have'' then Inr 5
      else Inl (''unknown question priority: '' @ quoted v))"

record OpenQuestion =
  oq_ID :: string
  oq_Version :: int
  oq_Scope :: string
  oq_Contract :: string
  oq_Topic :: string
  oq_Priority :: string
  oq_Blocking :: bool
  oq_Reason :: string
  oq_SuggestedAnswer :: "string list"
  oq_Status :: string
  oq_Owner :: string
  oq_EligibleOwners :: "string list"
  oq_Question :: string
  oq_Answer :: string
  oq_AskedAt :: string
  oq_ResolvedAt :: string
  oq_DecisionRef :: string
  oq_SupersededBy :: string
  oq_Evidence :: "string list"

definition IsOpen :: "OpenQuestion \<Rightarrow> bool" where
  "IsOpen q \<longleftrightarrow> oq_Status q = ''open'' \<or> oq_Status q = ''asked''"

definition question_Validate :: "OpenQuestion \<Rightarrow> string option" where
  "question_Validate q =
     (if blank (oq_ID q) then Some ''question id is required''
      else if blank (oq_Scope q) then Some ''question scope is required''
      else case ParsePriority (oq_Priority q) of
        Inl e \<Rightarrow> Some e
      | Inr p \<Rightarrow>
          if oq_Status q \<notin> {''open'', ''asked'', ''resolved'', ''superseded''}
          then Some (''unknown question status: '' @ quoted (oq_Status q))
          else if oq_Blocking q \<and> oq_Status q \<noteq> ''open'' \<and> oq_Status q \<noteq> ''asked''
          then Some (''blocking question '' @ quoted (oq_ID q) @ '' resolved without an evidence/decision reference'')
          else if (oq_Status q = ''resolved'' \<or> oq_Status q = ''superseded'') \<and> oq_Answer q = [] \<and> oq_DecisionRef q = []
          then Some (''resolved question '' @ quoted (oq_ID q) @ '' must carry an answer or a decision reference'')
          else None)"

text \<open>The comparison of \<open>PriorityOrder\<close>, and the key it amounts to: a stable sort by the key.\<close>

definition priority_less :: "OpenQuestion \<Rightarrow> OpenQuestion \<Rightarrow> bool" where
  "priority_less a b =
     (case (ParsePriority (oq_Priority a), ParsePriority (oq_Priority b)) of
        (Inl _, Inl _) \<Rightarrow> oq_ID a < oq_ID b
      | (Inl _, Inr _) \<Rightarrow> False
      | (Inr _, Inl _) \<Rightarrow> True
      | (Inr i, Inr j) \<Rightarrow> i < j)"

definition priority_key :: "OpenQuestion \<Rightarrow> nat \<times> int \<times> string" where
  "priority_key q = (case ParsePriority (oq_Priority q) of Inr p \<Rightarrow> (0, p, []) | Inl _ \<Rightarrow> (1, 0, oq_ID q))"

lemma priority_less_key: "priority_less a b \<longleftrightarrow> priority_key a < priority_key b"
  by (auto simp: priority_less_def priority_key_def split: sum.split)

definition PriorityOrder :: "OpenQuestion list \<Rightarrow> OpenQuestion list" where
  "PriorityOrder qs = sort_key priority_key qs"

definition NextOpen :: "OpenQuestion list \<Rightarrow> OpenQuestion option" where
  "NextOpen qs = find IsOpen (PriorityOrder qs)"

definition BlockingOpenCount :: "OpenQuestion list \<Rightarrow> nat" where
  "BlockingOpenCount qs = length (filter (\<lambda>q. oq_Blocking q \<and> IsOpen q) qs)"

section \<open>Resolving an answer\<close>

datatype Source = SourceUser | SourceRepo | SourceModel | SourceOther string

definition source_text :: "Source \<Rightarrow> string" where
  "source_text s = (case s of SourceUser \<Rightarrow> ''user'' | SourceRepo \<Rightarrow> ''repository'' | SourceModel \<Rightarrow> ''model'' | SourceOther t \<Rightarrow> t)"

record ResolveRequest =
  rq_Question :: OpenQuestion
  rq_Statement :: string
  rq_Classification :: AnswerClassification
  rq_Source :: Source
  rq_Actor :: string
  rq_Evidence :: "string list"

record ResolveResult =
  rz_Proposal :: DecisionProposal
  rz_Resolved :: bool
  rz_Question :: OpenQuestion
  rz_BlockedNow :: bool

definition validateSourceAuthority :: "ResolveRequest \<Rightarrow> string option" where
  "validateSourceAuthority req =
     (if IsDecision (rq_Classification req) then
        (if rq_Source req \<noteq> SourceUser \<and> rq_Source req \<noteq> SourceRepo
         then Some (''decision classification '' @ quoted (classification_text (rq_Classification req)) @ '' requires a user or repository source'')
         else if rq_Source req = SourceUser \<and> blank (rq_Actor req) then Some ''user decision requires an actor''
         else None)
      else if rq_Source req \<noteq> SourceUser \<and> rq_Source req \<noteq> SourceModel \<and> rq_Source req \<noteq> SourceRepo
      then Some (''unknown source '' @ quoted (source_text (rq_Source req)))
      else None)"

definition proposalID :: "ResolveRequest \<Rightarrow> string \<Rightarrow> string" where
  "proposalID req sfx = ''DP-'' @ oq_ID (rq_Question req) @ ''-'' @ sfx"

definition inferConfidence :: "string list \<Rightarrow> Confidence" where
  "inferConfidence ev = (if ev = [] then ConfidenceUnknown else ConfidenceLow)"

definition hypothesisProposal :: "ResolveRequest \<Rightarrow> DecisionProposal" where
  "hypothesisProposal req = zero_proposal\<lparr>dp_ID := proposalID req ''hyp'', dp_Statement := rq_Statement req,
     dp_Classification := Hypothesis, dp_Scope := oq_Scope (rq_Question req), dp_Source := source_text (rq_Source req),
     dp_Actor := rq_Actor req, dp_Authority := ''inferred-state'', dp_Confidence := inferConfidence (rq_Evidence req),
     dp_Status := StatusProposed, dp_Evidence := rq_Evidence req\<rparr>"

definition suggestionProposal :: "ResolveRequest \<Rightarrow> DecisionProposal" where
  "suggestionProposal req =
     (AgentSuggestion (proposalID req ''sug'') (rq_Statement req) (oq_Scope (rq_Question req)))\<lparr>dp_Evidence := rq_Evidence req\<rparr>"

definition decision_of :: "ResolveRequest \<Rightarrow> DecisionProposal" where
  "decision_of req = zero_proposal\<lparr>dp_ID := proposalID req ''dec'', dp_Statement := rq_Statement req,
     dp_Classification := rq_Classification req, dp_Scope := oq_Scope (rq_Question req), dp_Source := source_text (rq_Source req),
     dp_Actor := rq_Actor req, dp_Authority := (if rq_Source req = SourceUser then ''user-decision'' else ''project-decision''),
     dp_Confidence := ConfidenceUnknown, dp_Status := StatusAccepted, dp_Evidence := rq_Evidence req,
     dp_Affected := (if oq_Contract (rq_Question req) \<noteq> [] then [oq_Contract (rq_Question req)] else [])\<rparr>"

definition acceptedProposal :: "ResolveRequest \<Rightarrow> DecisionProposal \<times> string option" where
  "acceptedProposal req = (decision_of req, proposal_Validate (decision_of req))"

definition resolved_question :: "ResolveRequest \<Rightarrow> DecisionProposal \<Rightarrow> OpenQuestion" where
  "resolved_question req d = (rq_Question req)\<lparr>oq_Status := ''resolved'', oq_Answer := rq_Statement req,
     oq_DecisionRef := dp_ID d, oq_ResolvedAt := dp_ResolvedAt d\<rparr>"

definition ResolveAnswer :: "ResolveRequest \<Rightarrow> ResolveResult \<times> string option" where
  "ResolveAnswer req =
     (let result = \<lparr>rz_Proposal = zero_proposal, rz_Resolved = False, rz_Question = rq_Question req, rz_BlockedNow = False\<rparr> in
      case question_Validate (rq_Question req) of
        Some e \<Rightarrow> (result, Some e)
      | None \<Rightarrow>
          if \<not> classification_Valid (rq_Classification req)
          then (result, Some (''unknown classification '' @ quoted (classification_text (rq_Classification req))))
          else case validateSourceAuthority req of
            Some e \<Rightarrow> (result, Some e)
          | None \<Rightarrow>
              (case rq_Classification req of
                 Unresolved \<Rightarrow> (result, None)
               | Hypothesis \<Rightarrow> (result\<lparr>rz_Proposal := hypothesisProposal req\<rparr>, None)
               | AgentSuggested \<Rightarrow> (result\<lparr>rz_Proposal := suggestionProposal req\<rparr>, None)
               | _ \<Rightarrow>
                   (case acceptedProposal req of
                      (d, Some e) \<Rightarrow> (result, Some e)
                    | (d, None) \<Rightarrow>
                        (result\<lparr>rz_Proposal := d, rz_Resolved := True, rz_Question := resolved_question req d,
                           rz_BlockedNow := oq_Blocking (rq_Question req)\<rparr>, None))))"

fun resolve_all_requests :: "ResolveRequest list \<Rightarrow> ResolveResult list \<times> string option" where
  "resolve_all_requests [] = ([], None)"
| "resolve_all_requests (req # reqs) =
     (case ResolveAnswer req of
        (res, Some e) \<Rightarrow> ([], Some e)
      | (res, None) \<Rightarrow> (case resolve_all_requests reqs of (rs, e) \<Rightarrow> (res # rs, e)))"

definition ResolveMany :: "OpenQuestion list \<Rightarrow> ResolveRequest list \<Rightarrow> ResolveResult list \<times> string option" where
  "ResolveMany questions reqs =
     (if length questions \<noteq> length reqs then ([], Some ''questions and requests must be paired'') else resolve_all_requests reqs)"

section \<open>Contradictions and the preview\<close>

record Contradiction =
  ct_Scope :: string
  ct_Contract :: string
  ct_ExistingID :: string
  ct_ExistingAuthority :: string
  ct_ExistingStatement :: string
  ct_NewID :: string
  ct_NewAuthority :: string
  ct_NewStatement :: string

record AuthorityResolution =
  au_Contradiction :: Contradiction
  au_WinnerID :: string
  au_Authority :: string
  au_Rejected :: bool
  au_Superseded :: bool
  au_Equal :: bool

definition zero_contradiction :: Contradiction where
  "zero_contradiction = \<lparr>ct_Scope = [], ct_Contract = [], ct_ExistingID = [], ct_ExistingAuthority = [], ct_ExistingStatement = [],
     ct_NewID = [], ct_NewAuthority = [], ct_NewStatement = []\<rparr>"

definition sharedContract :: "DecisionProposal \<Rightarrow> DecisionProposal \<Rightarrow> bool" where
  "sharedContract a b \<longleftrightarrow> list_ex (\<lambda>x. list_ex (\<lambda>y. x = y) (dp_Affected b)) (dp_Affected a)"

definition sharedAffected :: "DecisionProposal \<Rightarrow> DecisionProposal \<Rightarrow> string" where
  "sharedAffected a b = (case find (\<lambda>x. x \<in> set (dp_Affected b)) (dp_Affected a) of Some x \<Rightarrow> x | None \<Rightarrow> [])"

definition filterBinding :: "DecisionProposal list \<Rightarrow> DecisionProposal list" where
  "filterBinding ps = filter (\<lambda>p. IsDecision (dp_Classification p) \<and> (dp_Status p = StatusAccepted \<or> dp_Status p = StatusSuperseded)) ps"

definition lowerID :: "string \<Rightarrow> string \<Rightarrow> string" where "lowerID a b = (if a < b then a else b)"
definition higherID :: "string \<Rightarrow> string \<Rightarrow> string" where "higherID a b = (if b < a then a else b)"

definition statementFor :: "DecisionProposal \<Rightarrow> DecisionProposal \<Rightarrow> string \<Rightarrow> string" where
  "statementFor a b i = (if dp_ID a = i then dp_Statement a else dp_Statement b)"

definition conflicting :: "DecisionProposal \<Rightarrow> DecisionProposal \<Rightarrow> bool" where
  "conflicting a b \<longleftrightarrow> dp_Scope a = dp_Scope b \<and> sharedContract a b \<and> dp_Statement a \<noteq> dp_Statement b"

definition contradiction_of :: "DecisionProposal \<Rightarrow> DecisionProposal \<Rightarrow> Contradiction" where
  "contradiction_of a b = zero_contradiction\<lparr>ct_Scope := dp_Scope a, ct_Contract := sharedAffected a b,
     ct_ExistingID := lowerID (dp_ID a) (dp_ID b), ct_ExistingStatement := statementFor a b (lowerID (dp_ID a) (dp_ID b)),
     ct_NewID := higherID (dp_ID a) (dp_ID b), ct_NewStatement := statementFor a b (higherID (dp_ID a) (dp_ID b))\<rparr>"

fun contradiction_pairs :: "DecisionProposal list \<Rightarrow> Contradiction list" where
  "contradiction_pairs [] = []"
| "contradiction_pairs (a # rest) = map (contradiction_of a) (filter (conflicting a) rest) @ contradiction_pairs rest"

definition DetectContradictions :: "DecisionProposal list \<Rightarrow> Contradiction list" where
  "DetectContradictions ps = contradiction_pairs (filterBinding ps)"

definition ResolveContradiction :: "Contradiction \<Rightarrow> DecisionProposal \<Rightarrow> DecisionProposal \<Rightarrow> (string, AuthorityResolution) outcome" where
  "ResolveContradiction c existing proposed =
     (let ra = AuthorityRank (dp_Authority existing); rb = AuthorityRank (dp_Authority proposed);
          keep = \<lparr>au_Contradiction = c, au_WinnerID = dp_ID existing, au_Authority = dp_Authority existing,
            au_Rejected = False, au_Superseded = False, au_Equal = False\<rparr> in
      if ra = 0 \<or> rb = 0 then Inl ''cannot resolve contradiction with unknown authority''
      else if ra = rb then Inr (keep\<lparr>au_Equal := True\<rparr>)
      else if ra < rb then Inr (keep\<lparr>au_Rejected := True\<rparr>)
      else Inr (keep\<lparr>au_WinnerID := dp_ID proposed, au_Authority := dp_Authority proposed, au_Superseded := True\<rparr>))"

definition zero_resolution :: AuthorityResolution where
  "zero_resolution = \<lparr>au_Contradiction = zero_contradiction, au_WinnerID = [], au_Authority = [], au_Rejected = False,
     au_Superseded = False, au_Equal = False\<rparr>"

record Preview =
  pv_Extracted :: "DecisionProposal list"
  pv_Contradictions :: "Contradiction list"
  pv_Supersessions :: "AuthorityResolution list"
  pv_BlockersResolved :: nat
  pv_OpenRemaining :: nat
  pv_Mandatory :: bool

text \<open>The conflicts of one proposal with what exists: the error of an unknown authority is dropped.\<close>

definition supersessions_of :: "DecisionProposal list \<Rightarrow> DecisionProposal \<Rightarrow> AuthorityResolution list" where
  "supersessions_of existing p =
     concat (map (\<lambda>c. case find (\<lambda>e. dp_ID e = ct_ExistingID c) existing of
         None \<Rightarrow> []
       | Some e \<Rightarrow> [case ResolveContradiction c e p of Inl _ \<Rightarrow> zero_resolution | Inr r \<Rightarrow> r])
       (DetectContradictions (existing @ [p])))"

definition BuildPreview :: "ResolveResult list \<Rightarrow> DecisionProposal list \<Rightarrow> Preview" where
  "BuildPreview results existing =
     (let proposing = filter (\<lambda>r. dp_ID (rz_Proposal r) \<noteq> []) results;
          extracted = map rz_Proposal proposing;
          supersessions = concat (map (\<lambda>r. supersessions_of existing (rz_Proposal r)) proposing);
          resolved = length (filter (\<lambda>r. rz_Resolved r \<and> rz_BlockedNow r) proposing) in
      \<lparr>pv_Extracted = sort_key dp_ID extracted,
       pv_Contradictions = DetectContradictions (existing @ extracted),
       pv_Supersessions = supersessions,
       pv_BlockersResolved = resolved,
       pv_OpenRemaining = length (filter (\<lambda>r. IsOpen (rz_Question r)) results),
       pv_Mandatory = (0 < resolved \<or> list_ex (\<lambda>s. au_Superseded s \<or> au_Equal s \<or> au_Rejected s) supersessions)\<rparr>)"

end
