(* ===== verification/PlanningSession.thy ===== *)
theory PlanningSession
  imports Planning
begin

text \<open>
  \<open>internal/planning/session.go\<close>: the transcript-free state of a planning run, the folding of
  resolved batches into it, its checkpoint, and the sources a resumed turn may see. The clock is an
  argument.
\<close>

section \<open>Sessions\<close>

record SessionSource =
  so_Ref :: string
  so_Authority :: string
  so_TokenCost :: int

record PlanningSession =
  ps_ID :: string
  ps_RunID :: string
  ps_Scope :: string
  ps_Goal :: string
  ps_Decisions :: "DecisionProposal list"
  ps_Open :: "OpenQuestion list"
  ps_LastPreview :: Preview
  ps_UpdatedAt :: string

definition zero_preview :: Preview where
  "zero_preview = \<lparr>pv_Extracted = [], pv_Contradictions = [], pv_Supersessions = [], pv_BlockersResolved = 0,
     pv_OpenRemaining = 0, pv_Mandatory = False\<rparr>"

definition NewPlanningSession :: "string \<Rightarrow> string \<Rightarrow> string \<Rightarrow> string \<Rightarrow> string \<Rightarrow> PlanningSession" where
  "NewPlanningSession now i run scope goal = \<lparr>ps_ID = i, ps_RunID = run, ps_Scope = scope, ps_Goal = goal, ps_Decisions = [],
     ps_Open = [], ps_LastPreview = zero_preview, ps_UpdatedAt = now\<rparr>"

definition session_Validate :: "PlanningSession \<Rightarrow> string option" where
  "session_Validate s =
     (if blank (ps_ID s) then Some ''planning session requires an id''
      else if blank (ps_RunID s) then Some ''planning session requires a run id''
      else if blank (ps_Scope s) then Some ''planning session requires a scope''
      else None)"

record SessionCheckpoint =
  sk_Version :: int
  sk_SessionID :: string
  sk_RunID :: string
  sk_Scope :: string
  sk_Goal :: string
  sk_Decisions :: "DecisionProposal list"
  sk_Open :: "OpenQuestion list"
  sk_Preview :: Preview
  sk_UpdatedAt :: string

definition session_Checkpoint :: "PlanningSession \<Rightarrow> SessionCheckpoint" where
  "session_Checkpoint s = \<lparr>sk_Version = 1, sk_SessionID = ps_ID s, sk_RunID = ps_RunID s, sk_Scope = ps_Scope s,
     sk_Goal = ps_Goal s, sk_Decisions = ps_Decisions s, sk_Open = ps_Open s, sk_Preview = ps_LastPreview s,
     sk_UpdatedAt = ps_UpdatedAt s\<rparr>"

definition dedupeDecisions :: "DecisionProposal list \<Rightarrow> DecisionProposal list" where
  "dedupeDecisions ds = keep_first dp_ID (\<lambda>d. dp_ID d \<noteq> []) [] ds"

definition containsQuestion :: "OpenQuestion list \<Rightarrow> string \<Rightarrow> bool" where
  "containsQuestion qs i \<longleftrightarrow> list_ex (\<lambda>q. oq_ID q = i) qs"

text \<open>The first loop of \<open>WithResults\<close>: the decisions it keeps and the questions it resolves.\<close>

definition fold_decision :: "ResolveResult \<Rightarrow> DecisionProposal list \<Rightarrow> DecisionProposal list" where
  "fold_decision r ds =
     (if dp_ID (rz_Proposal r) \<noteq> [] \<and> dp_Status (rz_Proposal r) = StatusAccepted
      then dedupeDecisions (ds @ [rz_Proposal r]) else ds)"

definition resolved_ids :: "ResolveResult list \<Rightarrow> string list" where
  "resolved_ids results = map (\<lambda>r. oq_ID (rz_Question r)) (filter (\<lambda>r. dp_ID (rz_Proposal r) \<noteq> [] \<and> rz_Resolved r) results)"

text \<open>The second: questions of the batch that stay open join the open ones.\<close>

definition fold_open :: "string list \<Rightarrow> ResolveResult \<Rightarrow> OpenQuestion list \<Rightarrow> OpenQuestion list" where
  "fold_open resolved r qs =
     (if oq_ID (rz_Question r) \<in> set resolved then qs
      else if IsOpen (rz_Question r) \<and> \<not> containsQuestion qs (oq_ID (rz_Question r)) then qs @ [rz_Question r]
      else qs)"

definition WithResults :: "string \<Rightarrow> ResolveResult list \<Rightarrow> DecisionProposal list \<Rightarrow> PlanningSession \<Rightarrow> PlanningSession \<times> string option" where
  "WithResults now results existing s =
     (let decisions = fold fold_decision results (dedupeDecisions (ps_Decisions s @ existing));
          resolved = resolved_ids results;
          open_qs = fold (fold_open resolved) results (filter (\<lambda>q. oq_ID q \<notin> set resolved) (ps_Open s));
          next = s\<lparr>ps_Decisions := decisions, ps_Open := open_qs, ps_LastPreview := BuildPreview results decisions,
            ps_UpdatedAt := now\<rparr> in
      (next, session_Validate next))"

definition Resume :: "SessionCheckpoint \<Rightarrow> DecisionProposal list \<Rightarrow> OpenQuestion list \<Rightarrow> (string, PlanningSession) outcome" where
  "Resume cp decisions questions =
     (if sk_Version cp \<noteq> 1 then Inl (''unsupported session checkpoint version '' @ itoa (sk_Version cp))
      else let s = \<lparr>ps_ID = sk_SessionID cp, ps_RunID = sk_RunID cp, ps_Scope = sk_Scope cp, ps_Goal = sk_Goal cp,
            ps_Decisions = decisions, ps_Open = questions, ps_LastPreview = sk_Preview cp, ps_UpdatedAt = sk_UpdatedAt cp\<rparr> in
        case session_Validate s of Some e \<Rightarrow> Inl e | None \<Rightarrow> Inr s)"

section \<open>Sources of a resumed turn\<close>

text \<open>The contracts are collected in a set and sorted.\<close>

definition AffectedContracts :: "PlanningSession \<Rightarrow> string list" where
  "AffectedContracts s =
     sort (remdups (filter (\<lambda>c. c \<noteq> [])
       (map trim_space (concat (map dp_Affected (filter (\<lambda>d. dp_Status d = StatusAccepted) (ps_Decisions s)))) @
        map (\<lambda>q. trim_space (oq_Contract q)) (ps_Open s))))"

definition dedupeSortSources :: "SessionSource list \<Rightarrow> SessionSource list" where
  "dedupeSortSources ss = sort_key (\<lambda>s. (AuthorityRank (so_Authority s), so_Ref s)) (keep_first so_Ref (\<lambda>s. True) [] ss)"

definition decision_source :: "DecisionProposal \<Rightarrow> SessionSource" where
  "decision_source d = \<lparr>so_Ref = ''decision:'' @ dp_ID d,
     so_Authority = (if AuthorityRank (dp_Authority d) = 0 then ''project-decision'' else dp_Authority d), so_TokenCost = 120\<rparr>"

definition question_source :: "OpenQuestion \<Rightarrow> SessionSource" where
  "question_source q = \<lparr>so_Ref = ''question:'' @ oq_ID q, so_Authority = ''inferred-state'', so_TokenCost = 60\<rparr>"

definition contract_source :: "string \<Rightarrow> SessionSource" where
  "contract_source c = \<lparr>so_Ref = ''contract:'' @ c, so_Authority = ''documented-evidence'', so_TokenCost = 80\<rparr>"

definition goal_sources :: "PlanningSession \<Rightarrow> SessionSource list" where
  "goal_sources s = (if blank (ps_Goal s) then []
     else [\<lparr>so_Ref = ''goal:'' @ ps_Scope s, so_Authority = ''user-decision'', so_TokenCost = 40\<rparr>])"

definition preview_source :: "PlanningSession \<Rightarrow> SessionSource" where
  "preview_source s = \<lparr>so_Ref = ''preview:'' @ ps_ID s, so_Authority = ''inferred-state'', so_TokenCost = 100\<rparr>"

definition ContextSources :: "PlanningSession \<Rightarrow> SessionSource list" where
  "ContextSources s = dedupeSortSources
     (goal_sources s @ map contract_source (AffectedContracts s) @
      map decision_source (filter (\<lambda>d. dp_Status d = StatusAccepted) (ps_Decisions s)) @
      map question_source (ps_Open s) @ [preview_source s])"

section \<open>What the resolver lets through\<close>

text \<open>
  A decision is binding here: accepted, valid, of a class a user can state, with the authority of
  its source; a user decision names its actor.
\<close>

definition binding :: "DecisionProposal \<Rightarrow> bool" where
  "binding d \<longleftrightarrow> dp_Status d = StatusAccepted \<and> proposal_Validate d = None \<and> IsDecision (dp_Classification d) \<and>
     (dp_Source d = ''user'' \<and> dp_Authority d = ''user-decision'' \<and> \<not> blank (dp_Actor d) \<or>
      dp_Source d = ''repository'' \<and> dp_Authority d = ''project-decision'')"

lemma acceptedProposal_binding:
  assumes "validateSourceAuthority req = None" "IsDecision (rq_Classification req)" "acceptedProposal req = (d, None)"
  shows "binding d"
  using assms
  by (auto simp: binding_def acceptedProposal_def decision_of_def validateSourceAuthority_def source_text_def split: if_splits)

text \<open>A result that is resolved carries a binding decision; one that is not carries at most a proposal.\<close>

lemma Resolve_ok:
  assumes "ResolveAnswer req = (res, None)"
  shows "question_Validate (rq_Question req) = None \<and>
    (if IsDecision (rq_Classification req)
     then rz_Resolved res \<and> binding (rz_Proposal res) \<and> rz_Question res = resolved_question req (rz_Proposal res) \<and> dp_ID (rz_Proposal res) \<noteq> []
     else \<not> rz_Resolved res \<and> dp_Status (rz_Proposal res) \<noteq> StatusAccepted \<and> rz_Question res = rq_Question req)"
proof -
  have q: "question_Validate (rq_Question req) = None" and v: "classification_Valid (rq_Classification req)"
    and a: "validateSourceAuthority req = None"
    using assms by (auto simp: ResolveAnswer_def Let_def split: option.splits if_splits)
  show ?thesis
  proof (cases "IsDecision (rq_Classification req)")
    case True
    then obtain d where d: "acceptedProposal req = (d, None)" "res = \<lparr>rz_Proposal = d, rz_Resolved = True,
        rz_Question = resolved_question req d, rz_BlockedNow = oq_Blocking (rq_Question req)\<rparr>"
      using assms q v a
      by (cases "rq_Classification req"; cases "acceptedProposal req"; cases "snd (acceptedProposal req)")
        (auto simp: ResolveAnswer_def Let_def IsDecision_def classification_Valid_def)
    have "dp_ID d \<noteq> []" using d(1) by (auto simp: acceptedProposal_def decision_of_def proposalID_def)
    with True q d(2) acceptedProposal_binding[OF a True d(1)] show ?thesis by simp
  next
    case False
    with assms q v a show ?thesis
      by (cases "rq_Classification req")
        (auto simp: ResolveAnswer_def Let_def IsDecision_def zero_proposal_def hypothesisProposal_def suggestionProposal_def AgentSuggestion_def)
  qed
qed

lemma Resolve_many_ok:
  "resolve_all_requests reqs = (results, None) \<Longrightarrow> \<forall>res\<in>set results. \<exists>req\<in>set reqs. ResolveAnswer req = (res, None)"
  by (induction reqs arbitrary: results) (auto split: prod.splits option.splits)

text \<open>What a batch of the resolver satisfies.\<close>

definition batch_ok :: "ResolveResult list \<Rightarrow> bool" where
  "batch_ok results \<longleftrightarrow> (\<forall>r\<in>set results.
     (dp_Status (rz_Proposal r) = StatusAccepted \<longrightarrow> rz_Resolved r \<and> binding (rz_Proposal r)) \<and>
     (IsOpen (rz_Question r) \<longrightarrow> question_Validate (rz_Question r) = None \<and> \<not> rz_Resolved r))"

lemma ResolveMany_batch:
  assumes "ResolveMany qs reqs = (results, None)"
  shows "batch_ok results"
  unfolding batch_ok_def
proof
  fix r
  assume "r \<in> set results"
  with assms obtain req where req: "ResolveAnswer req = (r, None)"
    using Resolve_many_ok[of reqs results] by (auto simp: ResolveMany_def split: if_splits)
  have "\<not> IsOpen (resolved_question req d)" for d by (simp add: IsOpen_def resolved_question_def)
  with Resolve_ok[OF req] show "(dp_Status (rz_Proposal r) = StatusAccepted \<longrightarrow> rz_Resolved r \<and> binding (rz_Proposal r)) \<and>
     (IsOpen (rz_Question r) \<longrightarrow> question_Validate (rz_Question r) = None \<and> \<not> rz_Resolved r)"
    by (auto split: if_splits)
qed

section \<open>The invariant of a session\<close>

definition session_ok :: "PlanningSession \<Rightarrow> bool" where
  "session_ok s \<longleftrightarrow> session_Validate s = None \<and>
     distinct (map dp_ID (ps_Decisions s)) \<and> (\<forall>d\<in>set (ps_Decisions s). binding d) \<and>
     distinct (map oq_ID (ps_Open s)) \<and> (\<forall>q\<in>set (ps_Open s). IsOpen q \<and> question_Validate q = None)"

lemma dedupe_distinct: "distinct (map dp_ID (dedupeDecisions ds))"
  unfolding dedupeDecisions_def by (rule keep_first_distinct)

lemma dedupe_subset: "set (dedupeDecisions ds) \<subseteq> set ds"
  unfolding dedupeDecisions_def using keep_first_subset[of dp_ID "\<lambda>d. dp_ID d \<noteq> []" "[]" ds] by blast

lemma fold_decision_ok:
  "batch_ok results \<Longrightarrow> distinct (map dp_ID ds) \<Longrightarrow> \<forall>d\<in>set ds. binding d \<Longrightarrow>
     distinct (map dp_ID (fold fold_decision results ds)) \<and> (\<forall>d\<in>set (fold fold_decision results ds). binding d)"
proof (induction results arbitrary: ds)
  case (Cons r results)
  have "batch_ok results" using Cons.prems(1) by (simp add: batch_ok_def)
  moreover have "distinct (map dp_ID (fold_decision r ds))" using Cons.prems(2) by (simp add: fold_decision_def dedupe_distinct)
  moreover have "\<forall>d\<in>set (fold_decision r ds). binding d"
    using Cons.prems dedupe_subset[of "ds @ [rz_Proposal r]"] by (auto simp: fold_decision_def batch_ok_def)
  ultimately show ?case using Cons.IH by simp
qed simp

lemma fold_open_ok:
  "batch_ok results \<Longrightarrow> distinct (map oq_ID qs) \<Longrightarrow> \<forall>q\<in>set qs. IsOpen q \<and> question_Validate q = None \<Longrightarrow>
     distinct (map oq_ID (fold (fold_open resolved) results qs)) \<and>
     (\<forall>q\<in>set (fold (fold_open resolved) results qs). IsOpen q \<and> question_Validate q = None)"
proof (induction results arbitrary: qs)
  case (Cons r results)
  have "batch_ok results" using Cons.prems(1) by (simp add: batch_ok_def)
  moreover have "distinct (map oq_ID (fold_open resolved r qs))"
    using Cons.prems(2) by (auto simp: fold_open_def containsQuestion_def list_ex_iff)
  moreover have "\<forall>q\<in>set (fold_open resolved r qs). IsOpen q \<and> question_Validate q = None"
    using Cons.prems by (auto simp: fold_open_def batch_ok_def)
  ultimately show ?case unfolding fold_simps by (rule Cons.IH)
qed simp

lemma fold_open_resolved:
  "oq_ID q \<in> set resolved \<Longrightarrow> q \<in> set (fold (fold_open resolved) results qs) \<Longrightarrow> q \<in> set qs"
proof (induction results arbitrary: qs)
  case (Cons r results)
  from Cons.IH[OF Cons.prems(1)] Cons.prems(2) have "q \<in> set (fold_open resolved r qs)" by simp
  with Cons.prems(1) show ?case by (auto simp: fold_open_def split: if_splits)
qed simp

lemma WithResults_ok:
  assumes "session_ok s" "batch_ok results" "\<forall>d\<in>set existing. binding d" "WithResults now results existing s = (s', None)"
  shows "session_ok s' \<and> set (resolved_ids results) \<inter> oq_ID ` set (ps_Open s') = {}"
proof -
  let ?resolved = "resolved_ids results"
  let ?ds = "dedupeDecisions (ps_Decisions s @ existing)" and ?qs = "filter (\<lambda>q. oq_ID q \<notin> set ?resolved) (ps_Open s)"
  have s': "ps_Decisions s' = fold fold_decision results ?ds" "ps_Open s' = fold (fold_open ?resolved) results ?qs"
    "session_Validate s' = None"
    using assms(4) unfolding WithResults_def Let_def by (auto simp del: fold_simps)
  have "\<forall>d\<in>set ?ds. binding d" using assms(1,3) dedupe_subset[of "ps_Decisions s @ existing"] by (auto simp: session_ok_def)
  note ds = fold_decision_ok[OF assms(2) dedupe_distinct this]
  have "distinct (map oq_ID ?qs)" "\<forall>q\<in>set ?qs. IsOpen q \<and> question_Validate q = None"
    using assms(1) by (auto simp: session_ok_def distinct_map_filter)
  note qs = fold_open_ok[OF assms(2) this, of ?resolved]
  have "q \<notin> set (ps_Open s')" if "oq_ID q \<in> set ?resolved" for q
  proof
    assume "q \<in> set (ps_Open s')"
    from fold_open_resolved[OF that this[unfolded s'(2)]] that show False by simp
  qed
  then have "set ?resolved \<inter> oq_ID ` set (ps_Open s') = {}" by auto
  with ds qs s' show ?thesis by (simp add: session_ok_def)
qed

text \<open>Resuming from a session's own checkpoint and records gives the session back.\<close>

lemma Resume_Checkpoint: "session_Validate s = None \<Longrightarrow> Resume (session_Checkpoint s) (ps_Decisions s) (ps_Open s) = Inr s"
  by (simp add: Resume_def session_Checkpoint_def Let_def session_Validate_def split: if_splits)

section \<open>Reachable sessions\<close>

text \<open>
  A session starts valid; a batch the resolver accepted is folded into it together with binding
  decisions that exist already; and it is resumed from a checkpoint with the records it had.
\<close>

inductive planned :: "PlanningSession \<Rightarrow> bool" where
  start: "session_Validate (NewPlanningSession now i run scope goal) = None \<Longrightarrow> planned (NewPlanningSession now i run scope goal)"
| batch: "\<lbrakk>planned s; ResolveMany qs reqs = (results, None); \<forall>d\<in>set existing. binding d;
     WithResults now results existing s = (s', None)\<rbrakk> \<Longrightarrow> planned s'"
| resume: "\<lbrakk>planned s; Resume (session_Checkpoint s) (ps_Decisions s) (ps_Open s) = Inr s'\<rbrakk> \<Longrightarrow> planned s'"

lemma planned_ok: "planned s \<Longrightarrow> session_ok s"
proof (induction rule: planned.induct)
  case (start now i run scope goal)
  then show ?case by (simp add: session_ok_def NewPlanningSession_def)
next
  case (batch s qs reqs results existing now s')
  show ?case using WithResults_ok[OF batch.IH ResolveMany_batch[OF batch.hyps(2)] batch.hyps(3,4)] ..
next
  case (resume s s')
  then show ?case using Resume_Checkpoint[of s] by (simp add: session_ok_def)
qed

section \<open>Sources do not depend on the order of the records\<close>

lemma refs_distinct:
  assumes "session_ok s"
  shows "distinct (map so_Ref (goal_sources s @ map contract_source (AffectedContracts s) @
      map decision_source (filter (\<lambda>d. dp_Status d = StatusAccepted) (ps_Decisions s)) @
      map question_source (ps_Open s) @ [preview_source s]))"
proof -
  have "distinct (AffectedContracts s)" by (simp add: AffectedContracts_def)
  moreover have "distinct (map dp_ID (filter P (ps_Decisions s)))" for P
    using assms by (auto simp: session_ok_def distinct_map_filter)
  moreover have "distinct (map oq_ID (ps_Open s))" using assms by (simp add: session_ok_def)
  moreover have "map (so_Ref \<circ> f) xs = map (\<lambda>x. p @ g x) xs" if "\<And>x. so_Ref (f x) = p @ g x" for f :: "'a \<Rightarrow> SessionSource" and p g xs
    using that by simp
  ultimately show ?thesis
    by (auto simp: goal_sources_def contract_source_def decision_source_def question_source_def preview_source_def distinct_map
        inj_on_def comp_def)
qed

lemma ContextSources_sorted:
  assumes "session_ok s"
  shows "distinct (map so_Ref (ContextSources s)) \<and> sorted (map (\<lambda>x. (AuthorityRank (so_Authority x), so_Ref x)) (ContextSources s)) \<and>
    set (ContextSources s) = set (goal_sources s) \<union> contract_source ` set (AffectedContracts s) \<union>
      decision_source ` set (ps_Decisions s) \<union> question_source ` set (ps_Open s) \<union> {preview_source s}"
proof -
  let ?src = "goal_sources s @ map contract_source (AffectedContracts s) @
      map decision_source (filter (\<lambda>d. dp_Status d = StatusAccepted) (ps_Decisions s)) @ map question_source (ps_Open s) @ [preview_source s]"
  have k: "keep_first so_Ref (\<lambda>s. True) [] ?src = ?src" by (rule keep_first_idem) (simp_all only: refs_distinct[OF assms], simp_all)
  have acc: "filter (\<lambda>d. dp_Status d = StatusAccepted) (ps_Decisions s) = ps_Decisions s"
    using assms by (auto simp: session_ok_def binding_def filter_id_conv)
  have c: "ContextSources s = sort_key (\<lambda>x. (AuthorityRank (so_Authority x), so_Ref x)) ?src"
    unfolding ContextSources_def dedupeSortSources_def k ..
  show ?thesis unfolding c using refs_distinct[OF assms] acc by auto
qed

lemma AffectedContracts_cong:
  assumes "set (ps_Decisions s) = set (ps_Decisions t)" "set (ps_Open s) = set (ps_Open t)"
  shows "AffectedContracts s = AffectedContracts t"
proof -
  have "set (AffectedContracts s) = set (AffectedContracts t)" using assms by (simp add: AffectedContracts_def)
  then show ?thesis by (simp add: sorted_distinct_set_unique AffectedContracts_def)
qed

section \<open>What the preview misses\<close>

text \<open>Every pair of conflicting binding decisions is reported.\<close>

lemma contradiction_pairs_complete:
  "i < j \<Longrightarrow> j < length ps \<Longrightarrow> conflicting (ps ! i) (ps ! j) \<Longrightarrow> contradiction_of (ps ! i) (ps ! j) \<in> set (contradiction_pairs ps)"
proof (induction ps arbitrary: i j)
  case (Cons p ps)
  show ?case
  proof (cases i)
    case 0
    with Cons.prems show ?thesis by (cases j) auto
  next
    case (Suc k)
    with Cons show ?thesis by (cases j) auto
  qed
qed simp

text \<open>
  The decision of the smaller ID counts as the existing one. A proposal whose ID precedes those of
  all existing decisions therefore supersedes nothing, whatever it contradicts, and the preview
  does not gate it.
\<close>

lemma preview_not_gated:
  assumes "DetectContradictions existing = []" "\<forall>e\<in>set existing. dp_ID p < dp_ID e"
  shows "supersessions_of existing p = []"
proof -
  have snoc: "contradiction_pairs (xs @ [p]) = contradiction_pairs xs @ map (\<lambda>a. contradiction_of a p) (filter (\<lambda>a. conflicting a p) xs)"
    if "contradiction_pairs xs = []" for xs
    using that by (induction xs) auto
  have l: "lowerID (dp_ID a) (dp_ID p) = dp_ID p" if "a \<in> set existing" for a
    using assms(2) that by (auto simp: lowerID_def)
  have "ct_ExistingID c = dp_ID p" if "c \<in> set (DetectContradictions (existing @ [p]))" for c
  proof (cases "IsDecision (dp_Classification p) \<and> (dp_Status p = StatusAccepted \<or> dp_Status p = StatusSuperseded)")
    case True
    then have "filterBinding (existing @ [p]) = filterBinding existing @ [p]" by (simp add: filterBinding_def)
    with that snoc[of "filterBinding existing"] assms(1) obtain a where "a \<in> set (filterBinding existing)" "c = contradiction_of a p"
      by (auto simp: DetectContradictions_def)
    with l show ?thesis by (auto simp: contradiction_of_def filterBinding_def zero_contradiction_def)
  next
    case False
    then have "DetectContradictions (existing @ [p]) = DetectContradictions existing" by (auto simp: DetectContradictions_def filterBinding_def)
    with that assms(1) show ?thesis by simp
  qed
  moreover have "find (\<lambda>e. dp_ID e = dp_ID p) existing = None" using assms(2) by (auto simp: find_None_iff)
  ultimately show ?thesis by (simp add: supersessions_of_def)
qed

text \<open>A second answer to a question resolves it again, but the session keeps the first decision.\<close>

lemma second_answer_is_dropped:
  assumes "d \<in> set ds" "dp_ID d = dp_ID (rz_Proposal r)" "distinct (map dp_ID ds)" "\<forall>d\<in>set ds. dp_ID d \<noteq> []"
  shows "fold_decision r ds = ds"
proof -
  have snoc: "keep_first dp_ID ok seen (xs @ [p]) = keep_first dp_ID ok seen xs"
    if "dp_ID p \<in> set seen \<union> dp_ID ` {x \<in> set xs. ok x}" for xs p seen ok
    using that by (induction xs arbitrary: seen) auto
  have "dp_ID (rz_Proposal r) \<in> set [] \<union> dp_ID ` {x \<in> set ds. dp_ID x \<noteq> []}" using assms(1,2,4) by (auto simp: image_iff intro!: bexI[of _ d])
  then have "dedupeDecisions (ds @ [rz_Proposal r]) = dedupeDecisions ds" unfolding dedupeDecisions_def by (rule snoc)
  also have "\<dots> = ds" unfolding dedupeDecisions_def using assms(3,4) by (intro keep_first_idem) auto
  finally show ?thesis by (simp add: fold_decision_def)
qed

section \<open>Properties\<close>


text \<open>
  What a resumed turn may see does not depend on the order in which records were collected.
  Two reachable sessions of one identity, scope and goal with the same decisions and the same open
  questions have the same list of context sources; it is sorted by authority and reference and
  names no reference twice.
\<close>

theorem context_sources_are_stable:
  assumes "planned s" "planned t" "ps_ID s = ps_ID t" "ps_Scope s = ps_Scope t" "ps_Goal s = ps_Goal t"
    "set (ps_Decisions s) = set (ps_Decisions t)" "set (ps_Open s) = set (ps_Open t)"
  shows "ContextSources s = ContextSources t \<and> distinct (map so_Ref (ContextSources s)) \<and>
    sorted (map (\<lambda>x. (AuthorityRank (so_Authority x), so_Ref x)) (ContextSources s))"
proof
  let ?f = "\<lambda>x. (AuthorityRank (so_Authority x), so_Ref x)"
  note s = ContextSources_sorted[OF planned_ok[OF assms(1)]] and t = ContextSources_sorted[OF planned_ok[OF assms(2)]]
  have e: "set (ContextSources s) = set (ContextSources t)"
    using s t AffectedContracts_cong[OF assms(6,7)] assms(3-7) by (simp add: goal_sources_def preview_source_def)
  have d: "distinct (map so_Ref (ContextSources s))" "distinct (map so_Ref (ContextSources t))" using s t by blast+
  have inj: "inj_on ?f (set (ContextSources s) \<union> set (ContextSources t))"
    using d(1) unfolding e[symmetric] by (auto simp: inj_on_def distinct_map)
  have df: "distinct (map ?f xs)" if "distinct (map so_Ref xs)" for xs
    using that by (auto simp: distinct_map inj_on_def)
  show "ContextSources s = ContextSources t"
    by (rule map_sorted_distinct_set_unique[OF inj]) (use s t e df[OF d(1)] df[OF d(2)] in auto)
  show "distinct (map so_Ref (ContextSources s)) \<and> sorted (map ?f (ContextSources s))" using s by blast
qed

text \<open>Two questions, answered by the user in one batch in either order.\<close>

definition sample_question :: "string \<Rightarrow> OpenQuestion" where
  "sample_question i = \<lparr>oq_ID = i, oq_Version = 1, oq_Scope = ''auth'', oq_Contract = ''docs/a.md'', oq_Topic = [],
     oq_Priority = ''blocker'', oq_Blocking = True, oq_Reason = [], oq_SuggestedAnswer = [], oq_Status = ''open'', oq_Owner = [],
     oq_EligibleOwners = [], oq_Question = ''which?'', oq_Answer = [], oq_AskedAt = [], oq_ResolvedAt = [], oq_DecisionRef = [],
     oq_SupersededBy = [], oq_Evidence = []\<rparr>"

definition sample_request :: "string \<Rightarrow> ResolveRequest" where
  "sample_request i = \<lparr>rq_Question = sample_question i, rq_Statement = ''use A'', rq_Classification = ExplicitDecision,
     rq_Source = SourceUser, rq_Actor = ''ann'', rq_Evidence = []\<rparr>"

definition sample_resolution :: "string \<Rightarrow> ResolveResult" where
  "sample_resolution i = \<lparr>rz_Proposal = decision_of (sample_request i), rz_Resolved = True,
     rz_Question = resolved_question (sample_request i) (decision_of (sample_request i)), rz_BlockedNow = True\<rparr>"

definition sample_session :: "string \<Rightarrow> string \<Rightarrow> PlanningSession" where
  "sample_session i j = fst (WithResults ''t1'' [sample_resolution i, sample_resolution j] []
     (NewPlanningSession ''t0'' ''S1'' ''R1'' ''auth'' ''ship''))"

lemma nonblank_words [simp]: "\<not> blank ''S1''" "\<not> blank ''R1''" "\<not> blank ''auth''" "\<not> blank ''Q1''" "\<not> blank ''Q2''" "\<not> blank ''ann''"
  "\<not> blank ''use A''"
  by (simp_all add: blank_plain plain_char_def)

lemma sample_resolved: "\<not> blank i \<Longrightarrow> ResolveAnswer (sample_request i) = (sample_resolution i, None)"
proof -
  have "\<not> blank (''DP-'' @ x)" for x by (simp add: blank_plain plain_char_def)
  then show "\<not> blank i \<Longrightarrow> ResolveAnswer (sample_request i) = (sample_resolution i, None)"
    by (simp add: ResolveAnswer_def Let_def question_Validate_def ParsePriority_def sample_request_def sample_question_def sample_resolution_def
        classification_Valid_def validateSourceAuthority_def IsDecision_def acceptedProposal_def decision_of_def proposal_Validate_def
        proposalID_def zero_proposal_def AuthorityRank_def confidence_Valid_def status_Valid_def)
qed

lemma sample_planned: "\<not> blank i \<Longrightarrow> \<not> blank j \<Longrightarrow> planned (sample_session i j)"
proof -
  assume ij: "\<not> blank i" "\<not> blank j"
  let ?new = "NewPlanningSession ''t0'' ''S1'' ''R1'' ''auth'' ''ship''" and ?results = "[sample_resolution i, sample_resolution j]"
  have new: "planned ?new" by (rule planned.start) (simp add: session_Validate_def NewPlanningSession_def)
  have m: "ResolveMany [sample_question i, sample_question j] [sample_request i, sample_request j] = (?results, None)"
    by (simp add: ResolveMany_def sample_resolved ij)
  have "session_Validate (fst (WithResults ''t1'' ?results [] ?new)) = None"
    by (simp add: WithResults_def Let_def session_Validate_def NewPlanningSession_def)
  then have w: "WithResults ''t1'' ?results [] ?new = (sample_session i j, None)"
    unfolding sample_session_def by (simp add: WithResults_def Let_def)
  show ?thesis by (rule planned.batch[OF new m _ w]) simp
qed

lemma sample_records:
  "\<not> blank i \<Longrightarrow> \<not> blank j \<Longrightarrow> i \<noteq> j \<Longrightarrow>
     ps_Decisions (sample_session i j) = [decision_of (sample_request i), decision_of (sample_request j)] \<and> ps_Open (sample_session i j) = []"
  by (auto simp: sample_session_def WithResults_def Let_def NewPlanningSession_def fold_decision_def dedupeDecisions_def sample_resolution_def
      decision_of_def proposalID_def sample_request_def sample_question_def fold_open_def IsOpen_def resolved_question_def)


lemma context_sources_are_stable_witness:
  "ContextSources (sample_session ''Q1'' ''Q2'') = ContextSources (sample_session ''Q2'' ''Q1'')"
proof -
  have p: "planned (sample_session ''Q1'' ''Q2'')" "planned (sample_session ''Q2'' ''Q1'')" by (simp_all add: sample_planned)
  have f: "ps_ID (sample_session i j) = ''S1''" "ps_Scope (sample_session i j) = ''auth''" "ps_Goal (sample_session i j) = ''ship''" for i j
    by (simp_all add: sample_session_def WithResults_def Let_def NewPlanningSession_def)
  have "set (ps_Decisions (sample_session ''Q1'' ''Q2'')) = set (ps_Decisions (sample_session ''Q2'' ''Q1''))"
    "set (ps_Open (sample_session ''Q1'' ''Q2'')) = set (ps_Open (sample_session ''Q2'' ''Q1''))"
    using sample_records[of "''Q1''" "''Q2''"] sample_records[of "''Q2''" "''Q1''"] by auto
  from context_sources_are_stable[OF p _ _ _ this] show ?thesis by (simp add: f)
qed

end
