(* ===== verification/ContextCompiler.thy ===== *)
theory ContextCompiler
  imports RunnerState "HOL-Library.Product_Lexorder"
begin

text \<open>
  \<open>internal/harness/contextv2\<close>: the context compiler. \<open>disclosure.go\<close> (the five levels of
  progressive disclosure), \<open>dedup.go\<close> (canonical-preference deduplication, selection
  reasons) and \<open>contextv2.go\<close> (eligibility, rank fusion, near-duplicate removal and the
  packing of a budget with its recursion over dependencies).

  The recursion \<open>add\<close> of the code marks a reference only after its dependencies were
  added, so a dependency cycle never returns; the model spends a unit of fuel per nested
  call and \<open>None\<close> is a run that used it up. Scores are the rationals of
  \<^theory_text>\<open>GoFloat\<close>, token counts unbounded integers.
\<close>

section \<open>Levels of disclosure\<close>

datatype Level = LevelPointer | LevelSummary | LevelOutline | LevelExcerpt | LevelFull | LevelOther string

definition DefaultLevel :: Level where
  "DefaultLevel = LevelSummary"

definition excerptLines :: nat where
  "excerptLines = 40"

definition Levels :: "Level list" where
  "Levels = [LevelPointer, LevelSummary, LevelOutline, LevelExcerpt, LevelFull]"

definition ParseLevel :: "string \<Rightarrow> Level" where
  "ParseLevel s = (let l = trim_space (to_upper s) in
     if l = ''L0'' then LevelPointer
     else if l = ''L1'' then LevelSummary
     else if l = ''L2'' then LevelOutline
     else if l = ''L3'' then LevelExcerpt
     else if l = ''L4'' then LevelFull
     else DefaultLevel)"

definition level_valid :: "Level \<Rightarrow> bool" where
  "level_valid l \<longleftrightarrow> list_ex (\<lambda>known. l = known) Levels"

fun rank_from :: "nat \<Rightarrow> Level list \<Rightarrow> Level \<Rightarrow> nat" where
  "rank_from i [] l = 1"
| "rank_from i (known # ks) l = (if l = known then i else rank_from (Suc i) ks l)"

definition level_rank :: "Level \<Rightarrow> nat" where
  "level_rank l = rank_from 0 Levels l"

fun first_meaningful :: "string list \<Rightarrow> string" where
  "first_meaningful [] = []"
| "first_meaningful (line # ls) =
     (let trimmed = trim_space line in if trimmed \<noteq> [] then trimmed else first_meaningful ls)"

definition level_summary :: "string \<Rightarrow> string" where
  "level_summary content = first_meaningful (split_on (CHR ''\<newline>'') content)"

definition headingsOf :: "string \<Rightarrow> string list" where
  "headingsOf content =
     filter (\<lambda>t. has_prefix t ''#'') (map trim_space (split_on (CHR ''\<newline>'') content))"

definition Disclose :: "Level \<Rightarrow> string \<Rightarrow> string \<times> bool" where
  "Disclose l content =
     (if trim_space content = [] then ([], True)
      else case l of
        LevelPointer \<Rightarrow> ([], False)
      | LevelOutline \<Rightarrow>
          (let headings = headingsOf content in
           if headings = [] then (level_summary content, False)
           else (join ''\<newline>'' headings, False))
      | LevelExcerpt \<Rightarrow>
          (let lines = split_on (CHR ''\<newline>'') content in
           if length lines \<le> excerptLines then (content, True)
           else (join ''\<newline>'' (take excerptLines lines), False))
      | LevelFull \<Rightarrow> (content, True)
      | _ \<Rightarrow> (level_summary content, False))"

section \<open>Items, exclusions, manifests\<close>

record Item =
  cx_Ref :: string
  cx_Authority :: string
  cx_Trust :: string
  cx_Privacy :: string
  cx_Freshness :: string
  cx_Rev :: string
  cx_Score :: rat
  cx_Method :: string
  cx_TokenCost :: int
  cx_Content :: string
  cx_DependsOn :: "string list"
  cx_Reason :: string
  cx_Projection :: bool
  cx_CanonicalSource :: string
  cx_Level :: Level
  cx_Truncated :: bool

record Exclusion =
  xc_Ref :: string
  xc_Reason :: string
  xc_Detail :: string

record Manifest =
  mf_Version :: int
  mf_ID :: string
  mf_RunID :: string
  mf_CreatedAt :: string
  mf_Included :: "Item list"
  mf_Excluded :: "Exclusion list"
  mf_EstimatedTokens :: int
  mf_Pressure :: string
  mf_Level :: Level
  mf_InstructionTokens :: int
  mf_Policy :: string

record CompilePolicy =
  cp_Budget :: int
  cp_Level :: Level
  cp_Policy :: string
  cp_InstructionTokens :: int

definition DiscloseItem :: "Item \<Rightarrow> Level \<Rightarrow> Item" where
  "DiscloseItem it level =
     (case Disclose level (cx_Content it) of (content, full) \<Rightarrow>
       let it = it\<lparr>cx_Content := content, cx_Level := level, cx_Truncated := \<not> full\<rparr> in
       if level = LevelPointer then it\<lparr>cx_TokenCost := EstimateTokens (cx_Ref it) []\<rparr>
       else if cx_Content it = [] then it
       else it\<lparr>cx_TokenCost := EstimateTokens (cx_Ref it) [] + EstimateTokens content []\<rparr>)"

definition ReasonBudget :: string where "ReasonBudget = ''budget''"
definition ReasonDuplicate :: string where "ReasonDuplicate = ''duplicate-ref''"
definition ReasonProjection :: string where "ReasonProjection = ''prefer-canonical''"
definition ReasonIneligible :: string where "ReasonIneligible = ''ineligible''"
definition ReasonNotDisclosed :: string where "ReasonNotDisclosed = ''empty-at-level''"
definition ReasonDependencyOnly :: string where "ReasonDependencyOnly = ''dependency''"

definition ExclusionReasons :: "string list" where
  "ExclusionReasons = [ReasonBudget, ReasonDependencyOnly, ReasonDuplicate, ReasonIneligible,
     ReasonNotDisclosed, ReasonProjection]"

text \<open>The stable sort of exclusions, by reason and then by reference.\<close>

definition sort_exclusions :: "Exclusion list \<Rightarrow> Exclusion list" where
  "sort_exclusions = sort_key (\<lambda>e. (xc_Reason e, xc_Ref e))"

section \<open>Deduplication\<close>

definition canonicalPresent :: "Item list \<Rightarrow> string set" where
  "canonicalPresent items =
     cx_Ref ` set (filter (\<lambda>it. \<not> cx_Projection it \<and> cx_CanonicalSource it = []) items)"

fun dedup_loop :: "string set \<Rightarrow> string set \<Rightarrow> Item list \<Rightarrow> Item list \<times> Exclusion list" where
  "dedup_loop canon seen [] = ([], [])"
| "dedup_loop canon seen (it # items) =
     (if cx_Ref it \<in> seen then
        (case dedup_loop canon seen items of (kept, excluded) \<Rightarrow>
          (kept, \<lparr>xc_Ref = cx_Ref it, xc_Reason = ReasonDuplicate,
                  xc_Detail = ''reference already included''\<rparr> # excluded))
      else if cx_Projection it \<and> cx_CanonicalSource it \<in> canon then
        (case dedup_loop canon seen items of (kept, excluded) \<Rightarrow>
          (kept, \<lparr>xc_Ref = cx_Ref it, xc_Reason = ReasonProjection,
                  xc_Detail = ''canonical source '' @ cx_CanonicalSource it @ '' is already included''\<rparr> # excluded))
      else
        (case dedup_loop canon (insert (cx_Ref it) seen) items of (kept, excluded) \<Rightarrow>
          (it # kept, excluded)))"

definition DeduplicatePreferCanonical :: "Item list \<Rightarrow> Item list \<times> Exclusion list" where
  "DeduplicatePreferCanonical items =
     (case dedup_loop (canonicalPresent items) {} items of (kept, excluded) \<Rightarrow>
       (kept, sort_exclusions excluded))"

section \<open>Reasons\<close>

definition TrimRight1 :: "string \<Rightarrow> char \<Rightarrow> string" where
  "TrimRight1 s c = List.rev (dropWhile (\<lambda>d. d = c) (List.rev s))"

text \<open>\<open>strconv.FormatFloat(f, 'f', 3, 64)\<close>: the exact value rounded to thousandths, ties to even.\<close>

definition format3 :: "rat \<Rightarrow> string" where
  "format3 f = (let n = round_even (\<bar>f\<bar> * 1000) in
     (if f < 0 then ''-'' else []) @ itoa (n div 1000) @ ''.'' @ pad3 (n mod 1000))"

definition formatScore :: "rat \<Rightarrow> string" where
  "formatScore f = (let s = TrimRight1 (TrimRight1 (format3 f) (CHR ''0'')) (CHR ''.'') in
     if s = [] \<or> s = ''-'' then ''0'' else s)"

definition selectionReason :: "Item \<Rightarrow> string" where
  "selectionReason it =
     (let reason = (if cx_Reason it = [] then ''retrieved candidate'' else cx_Reason it);
          parts = [reason] @ (if cx_Method it \<noteq> [] then [''via '' @ cx_Method it] else [])
                  @ (if cx_Score it > 0 then [''score '' @ formatScore (cx_Score it)] else [])
      in join ''; '' parts)"

definition joinReason :: "string \<Rightarrow> string \<Rightarrow> string" where
  "joinReason reason signal =
     (if signal = [] \<or> contains_str reason signal then reason
      else if reason = [] then signal
      else reason @ ''; '' @ signal)"

section \<open>Gates and fusion\<close>

definition authorityRank :: "string \<Rightarrow> nat option" where
  "authorityRank = map_of [(''canonical'', 0), (''reference'', 1), (''imported'', 2), (''untrusted'', 3)]"

definition Eligible :: "Item \<Rightarrow> string \<Rightarrow> bool \<Rightarrow> bool" where
  "Eligible it minAuthority allowRestricted =
     (if cx_Privacy it = ''restricted'' \<and> \<not> allowRestricted then False
      else if cx_Trust it = ''low'' \<and> cx_Authority it = ''untrusted'' then False
      else
        let maxRank = (case authorityRank minAuthority of Some r \<Rightarrow> r | None \<Rightarrow> 3);
            rank = (case authorityRank (cx_Authority it) of Some r \<Rightarrow> r | None \<Rightarrow> 3)
        in rank \<le> maxRank)"

text \<open>
  Reciprocal rank fusion. The accumulator map is its entries in order of first appearance;
  the code ranges over it in an open order \<open>ks\<close> and sorts by score.
\<close>

fun rrf_list :: "rat \<Rightarrow> nat \<Rightarrow> Item list \<Rightarrow> (string, Item) gomap \<Rightarrow> (string, Item) gomap" where
  "rrf_list k i [] acc = acc"
| "rrf_list k i (it # its) acc =
     (let e = (case map_of acc (cx_Ref it) of Some e \<Rightarrow> e | None \<Rightarrow> it\<lparr>cx_Score := 0\<rparr>);
          e = e\<lparr>cx_Score := fadd (cx_Score e) (fdiv 1 (fadd k (of_nat (i + 1))))\<rparr>
      in rrf_list k (Suc i) its (AList.update (cx_Ref it) e acc))"

definition RRF :: "string list \<Rightarrow> Item list list \<Rightarrow> rat \<Rightarrow> Item list" where
  "RRF ks rankings k =
     (let acc = foldl (\<lambda>acc l. rrf_list k 0 l acc) [] rankings in
      sort_key (\<lambda>it. - cx_Score it) (List.map_filter (map_of acc) ks))"

definition mmr_key :: "Item \<Rightarrow> string" where
  "mmr_key it = (if length (cx_Content it) > 64 then cx_Ref it @ '':'' @ take 64 (cx_Content it) else cx_Ref it)"

definition MMRDedup :: "Item list \<Rightarrow> Item list" where
  "MMRDedup items = keep_first mmr_key (\<lambda>_. True) [] items"

section \<open>Packing\<close>

definition utility :: "Item \<Rightarrow> rat" where
  "utility it = (if cx_TokenCost it \<le> 0 then cx_Score it
     else fdiv (cx_Score it) (f64 (of_int (cx_TokenCost it))))"

text \<open>The variables that the closure \<open>add\<close> captures.\<close>

record packing =
  pk_included :: "Item list"
  pk_excluded :: "Exclusion list"
  pk_used :: int
  pk_inSet :: "string set"

text \<open>The part of \<open>add\<close> after its loop over the dependencies.\<close>

definition place :: "int \<Rightarrow> Item \<Rightarrow> packing \<Rightarrow> packing" where
  "place budget it st =
     (if pk_used st + cx_TokenCost it > budget then
        st\<lparr>pk_excluded := pk_excluded st @ [\<lparr>xc_Ref = cx_Ref it, xc_Reason = ReasonBudget,
             xc_Detail = ''would exceed the '' @ itoa budget @ '' token budget''\<rparr>]\<rparr>
      else
        st\<lparr>pk_inSet := insert (cx_Ref it) (pk_inSet st),
           pk_used := pk_used st + cx_TokenCost it,
           pk_included := pk_included st @ [it\<lparr>cx_Reason := selectionReason it\<rparr>]\<rparr>)"

fun add_deps :: "(Item \<Rightarrow> packing \<Rightarrow> packing option) \<Rightarrow> (string \<rightharpoonup> Item) \<Rightarrow> string list \<Rightarrow> packing
    \<Rightarrow> packing option" where
  "add_deps f byRef [] st = Some st"
| "add_deps f byRef (d # ds) st =
     (case byRef d of
        None \<Rightarrow> add_deps f byRef ds st
      | Some dep \<Rightarrow> (case f dep st of None \<Rightarrow> None | Some st' \<Rightarrow> add_deps f byRef ds st'))"

fun add_item :: "nat \<Rightarrow> (string \<rightharpoonup> Item) \<Rightarrow> int \<Rightarrow> Item \<Rightarrow> packing \<Rightarrow> packing option" where
  "add_item 0 byRef budget it st = None"
| "add_item (Suc n) byRef budget it st =
     (if cx_Ref it \<in> pk_inSet st then Some st
      else case add_deps (add_item n byRef budget) byRef (cx_DependsOn it) st of
             None \<Rightarrow> None
           | Some st' \<Rightarrow> Some (place budget it st'))"

fun add_all :: "nat \<Rightarrow> (string \<rightharpoonup> Item) \<Rightarrow> int \<Rightarrow> Item list \<Rightarrow> packing \<Rightarrow> packing option" where
  "add_all n byRef budget [] st = Some st"
| "add_all n byRef budget (it # its) st =
     (case add_item n byRef budget it st of None \<Rightarrow> None | Some st' \<Rightarrow> add_all n byRef budget its st')"

definition ManifestID :: "string \<Rightarrow> string" where
  "ManifestID runID = ''CTX-'' @ runID"

definition ManifestSchemaVersion :: int where
  "ManifestSchemaVersion = 2"

definition effective_budget :: "CompilePolicy \<Rightarrow> int" where
  "effective_budget policy = (if cp_Budget policy \<le> 0 then 8000 else cp_Budget policy)"

definition effective_level :: "CompilePolicy \<Rightarrow> Level" where
  "effective_level policy = (if \<not> level_valid (cp_Level policy) then DefaultLevel else cp_Level policy)"

definition pressure_of :: "int \<Rightarrow> int \<Rightarrow> string" where
  "pressure_of budget used =
     (if budget > 0 \<and> used \<ge> budget then ''critical''
      else if budget > 0 \<and> used > budget * 80 div 100 then ''pressure''
      else ''healthy'')"

definition disclosed_items :: "Item list \<Rightarrow> CompilePolicy \<Rightarrow> Item list" where
  "disclosed_items candidates policy =
     map (\<lambda>it. DiscloseItem it (effective_level policy)) (fst (DeduplicatePreferCanonical candidates))"

definition by_ref :: "Item list \<Rightarrow> string \<rightharpoonup> Item" where
  "by_ref disclosed = foldl (\<lambda>m c. m(cx_Ref c \<mapsto> c)) (\<lambda>_. None) disclosed"

text \<open>The comparator of the code is a total order on items of distinct references.\<close>

definition by_utility :: "Item list \<Rightarrow> Item list" where
  "by_utility = sort_key (\<lambda>it. (- utility it, cx_Ref it))"

definition CompileWithPolicy :: "nat \<Rightarrow> string \<Rightarrow> string \<Rightarrow> Item list \<Rightarrow> CompilePolicy \<Rightarrow> Manifest option" where
  "CompileWithPolicy fuel stamp runID candidates policy =
     (let budget = effective_budget policy;
          disclosed = disclosed_items candidates policy
      in case add_all fuel (by_ref disclosed) budget (by_utility disclosed)
                \<lparr>pk_included = [], pk_excluded = snd (DeduplicatePreferCanonical candidates),
                 pk_used = 0, pk_inSet = {}\<rparr> of
           None \<Rightarrow> None
         | Some st \<Rightarrow> Some
             \<lparr>mf_Version = ManifestSchemaVersion, mf_ID = ManifestID runID, mf_RunID = runID,
              mf_CreatedAt = stamp, mf_Included = pk_included st,
              mf_Excluded = sort_exclusions (pk_excluded st),
              mf_EstimatedTokens = pk_used st, mf_Pressure = pressure_of budget (pk_used st),
              mf_Level = effective_level policy,
              mf_InstructionTokens = cp_InstructionTokens policy, mf_Policy = cp_Policy policy\<rparr>)"

definition Compile :: "nat \<Rightarrow> string \<Rightarrow> string \<Rightarrow> Item list \<Rightarrow> int \<Rightarrow> string \<Rightarrow> Manifest option" where
  "Compile fuel stamp runID candidates budget level =
     CompileWithPolicy fuel stamp runID candidates
       \<lparr>cp_Budget = budget, cp_Level = ParseLevel level, cp_Policy = [], cp_InstructionTokens = 0\<rparr>"

text \<open>\<open>Fresh\<close>: \<open>age\<close> is the time since the parsed stamp, \<open>None\<close> when it does not parse.\<close>

definition Fresh :: "(string \<Rightarrow> int option) \<Rightarrow> string \<Rightarrow> int \<Rightarrow> bool" where
  "Fresh age freshness maxAge =
     (if freshness = [] \<or> freshness = ''current'' then True
      else case age freshness of
             None \<Rightarrow> \<not> contains_str freshness ''stale''
           | Some a \<Rightarrow> a \<le> maxAge)"

section \<open>Disclosure reveals no more than the content\<close>

lemma trim_left_length: "length (trim_left s) \<le> length s"
proof (induction s rule: trim_left.induct)
  case (1 s)
  then show ?case using lead_space_dec[of s] by (subst trim_left.simps) (fastforce split: option.split)
qed

lemma trim_right_length: "length (trim_right s) \<le> length s"
proof (induction s rule: trim_right.induct)
  case (1 s)
  then show ?case using last_space_dec[of s] by (subst trim_right.simps) (fastforce split: option.split)
qed

lemma trim_space_length: "length (trim_space s) \<le> length s"
  unfolding trim_space_def by (rule le_trans[OF trim_right_length trim_left_length])

lemma length_join: "ws \<noteq> [] \<Longrightarrow> length (join [c] ws) + 1 = sum_list (map (\<lambda>w. length w + 1) ws)"
  by (induction "[c]" ws rule: join.induct) auto

lemma length_join_le:
  assumes "sum_list (map (\<lambda>w. length w + 1) ws) \<le> sum_list (map (\<lambda>w. length w + 1) vs)"
  shows "length (join [c] ws) \<le> length (join [c] vs)"
  using assms length_join[of ws c] length_join[of vs c] by (cases "ws = []"; cases "vs = []") auto

lemma weight_filter_map:
  "(\<And>w. length (g w) \<le> length w) \<Longrightarrow>
   sum_list (map (\<lambda>w. length w + 1) (filter P (map g ws))) \<le> sum_list (map (\<lambda>w. length w + 1) ws)"
proof (induction ws)
  case (Cons w ws)
  from Cons.IH[OF Cons.prems] Cons.prems[of w] show ?case by auto
qed simp

lemma weight_take:
  "sum_list (map (\<lambda>w. length w + 1) (take n ws)) \<le> sum_list (map (\<lambda>w. length w + (1::nat)) ws)"
proof -
  have "sum_list (map (\<lambda>w. length w + 1) ws) =
      sum_list (map (\<lambda>w. length w + 1) (take n ws)) + sum_list (map (\<lambda>w. length w + (1::nat)) (drop n ws))"
    by (metis append_take_drop_id map_append sum_list_append)
  then show ?thesis by simp
qed

lemma first_meaningful_weight:
  "length (first_meaningful ws) \<le> sum_list (map (\<lambda>w. length w + 1) ws) - 1"
proof (induction ws)
  case (Cons w ws)
  then show ?case using trim_space_length[of w] by (auto simp: Let_def)
qed simp

lemma outline_length: "length (join ''\<newline>'' (headingsOf c)) \<le> length c"
proof -
  have "length (join ''\<newline>'' (headingsOf c)) \<le> length (join ''\<newline>'' (split_on (CHR ''\<newline>'') c))"
    unfolding headingsOf_def by (intro length_join_le weight_filter_map trim_space_length)
  then show ?thesis by (simp add: join_split_on)
qed

lemma excerpt_length: "length (join ''\<newline>'' (take n (split_on (CHR ''\<newline>'') c))) \<le> length c"
proof -
  have "length (join ''\<newline>'' (take n (split_on (CHR ''\<newline>'') c))) \<le> length (join ''\<newline>'' (split_on (CHR ''\<newline>'') c))"
    by (intro length_join_le weight_take)
  then show ?thesis by (simp add: join_split_on)
qed

lemma summary_length: "length (level_summary c) \<le> length c"
  using first_meaningful_weight[of "split_on (CHR ''\<newline>'') c"]
    length_join[of "split_on (CHR ''\<newline>'') c" "CHR ''\<newline>''"]
  by (simp add: level_summary_def join_split_on)

lemma first_meaningful_Nil: "first_meaningful ws = [] \<longleftrightarrow> (\<forall>w\<in>set ws. trim_space w = [])"
  by (induction ws) (auto simp: Let_def)

lemma disclose_bounds:
  assumes "Disclose l c = (revealed, full)"
  shows "length revealed \<le> length c"
    "full \<Longrightarrow> trim_space c \<noteq> [] \<Longrightarrow> revealed = c"
  using assms outline_length[of c] excerpt_length[of excerptLines c] summary_length[of c]
  by (auto simp: Disclose_def Let_def split: if_splits Level.splits)

text \<open>The levels are not monotonic: the summary of this note is longer than its outline.\<close>

lemma levels_not_monotonic:
  "level_rank LevelSummary < level_rank LevelOutline \<and>
   length (fst (Disclose LevelOutline ''ab\<newline>#'')) < length (fst (Disclose LevelSummary ''ab\<newline>#''))"
proof -
  have t: "trim_space ''ab'' = ''ab''" "trim_space ''#'' = ''#''" "trim_space ''ab\<newline>#'' = ''ab\<newline>#''"
    by (rule trim_space_ends; code_simp)+
  have sp: "split_on (CHR ''\<newline>'') ''ab\<newline>#'' = [''ab'', ''#'']" by code_simp
  have "headingsOf ''ab\<newline>#'' = [''#'']" by (simp add: headingsOf_def sp t has_prefix_def)
  moreover have "level_summary ''ab\<newline>#'' = ''ab''" by (simp add: level_summary_def sp t Let_def)
  moreover have "level_rank LevelSummary < level_rank LevelOutline" by code_simp
  ultimately show ?thesis by (simp add: Disclose_def t)
qed

section \<open>The dependency recursion\<close>

definition dep_rel :: "(string \<rightharpoonup> Item) \<Rightarrow> (string \<times> string) set" where
  "dep_rel m = {(d, r). \<exists>x. m r = Some x \<and> d \<in> set (cx_DependsOn x) \<and> m d \<noteq> None}"

definition refs_ok :: "(string \<rightharpoonup> Item) \<Rightarrow> bool" where
  "refs_ok m \<longleftrightarrow> (\<forall>r x. m r = Some x \<longrightarrow> cx_Ref x = r)"

lemma refs_okD: "refs_ok m \<Longrightarrow> m r = Some x \<Longrightarrow> cx_Ref x = r"
  by (simp add: refs_ok_def)

lemma dep_relI: "m r = Some x \<Longrightarrow> d \<in> set (cx_DependsOn x) \<Longrightarrow> m d = Some y \<Longrightarrow> (d, r) \<in> dep_rel m"
  by (auto simp: dep_rel_def)

lemma add_deps_inv:
  "\<forall>d\<in>set ds. \<forall>dep st st'. m d = Some dep \<longrightarrow> P st \<longrightarrow> f dep st = Some st' \<longrightarrow> P st' \<Longrightarrow>
   P st \<Longrightarrow> add_deps f m ds st = Some st' \<Longrightarrow> P st'"
proof (induction ds arbitrary: st)
  case (Cons d ds)
  have IH: "P st1 \<Longrightarrow> add_deps f m ds st1 = Some st' \<Longrightarrow> P st'" for st1
    using Cons.IH Cons.prems(1) by (meson list.set_intros(2))
  show ?case
  proof (cases "m d")
    case None
    with Cons.prems(3) IH[OF Cons.prems(2)] show ?thesis by simp
  next
    case (Some dep)
    with Cons.prems(3) obtain st1 where st1: "f dep st = Some st1" "add_deps f m ds st1 = Some st'"
      by (auto split: option.splits)
    have "P st1" using Cons.prems(1,2) Some st1(1) by (meson list.set_intros(1))
    from IH[OF this st1(2)] show ?thesis .
  qed
qed simp

text \<open>What \<open>place\<close> keeps, the whole recursion keeps.\<close>

lemma add_item_inv:
  assumes place: "\<And>r x st. m r = Some x \<Longrightarrow> Q st \<Longrightarrow> Q (place b x st)"
  shows "m r = Some x \<Longrightarrow> Q st \<Longrightarrow> add_item n m b x st = Some st' \<Longrightarrow> Q st'"
proof (induction n arbitrary: r x st st')
  case (Suc n)
  show ?case
  proof (cases "cx_Ref x \<in> pk_inSet st")
    case False
    with Suc.prems(3) obtain st1 where st1: "add_deps (add_item n m b) m (cx_DependsOn x) st = Some st1"
      "st' = place b x st1" by (auto split: option.splits)
    have "Q st1" by (rule add_deps_inv[where P = Q, OF _ Suc.prems(2) st1(1)]) (use Suc.IH in blast)
    with place[OF Suc.prems(1)] st1(2) show ?thesis by simp
  qed (use Suc.prems in auto)
qed simp

lemma add_all_inv:
  assumes item: "\<And>x st st'. x \<in> set its \<Longrightarrow> Q st \<Longrightarrow> add_item n m b x st = Some st' \<Longrightarrow> Q st'"
    and "Q st" "add_all n m b its st = Some st'"
  shows "Q st'"
  using assms by (induction its arbitrary: st) (auto split: option.splits)

section \<open>A cycle never returns\<close>

definition looping :: "(string \<rightharpoonup> Item) \<Rightarrow> string set" where
  "looping m = {r. \<exists>c. (c, c) \<in> (dep_rel m)\<^sup>+ \<and> (c, r) \<in> (dep_rel m)\<^sup>*}"

lemma looping_dep:
  assumes "r \<in> looping m" "m r = Some x"
  shows "\<exists>d\<in>set (cx_DependsOn x). d \<in> looping m \<and> m d \<noteq> None"
proof -
  obtain c where c: "(c, c) \<in> (dep_rel m)\<^sup>+" "(c, r) \<in> (dep_rel m)\<^sup>*"
    using assms(1) by (auto simp: looping_def)
  then have "(c, r) \<in> (dep_rel m)\<^sup>+" by auto
  then obtain d where d: "(c, d) \<in> (dep_rel m)\<^sup>*" "(d, r) \<in> dep_rel m" by (meson tranclD2)
  with c(1) have "d \<in> looping m" by (auto simp: looping_def)
  with d(2) assms(2) show ?thesis by (auto simp: dep_rel_def)
qed

lemma looping_up: "d \<in> looping m \<Longrightarrow> (d, r) \<in> dep_rel m \<Longrightarrow> r \<in> looping m"
  unfolding looping_def by (auto intro: rtrancl_into_rtrancl)

lemma add_deps_loop:
  "\<forall>d\<in>set ds. \<forall>dep st. m d = Some dep \<longrightarrow> Q st \<longrightarrow> d \<in> L \<longrightarrow> f dep st = None \<Longrightarrow>
   \<forall>d\<in>set ds. \<forall>dep st st'. m d = Some dep \<longrightarrow> Q st \<longrightarrow> d \<notin> L \<longrightarrow> f dep st = Some st' \<longrightarrow> Q st' \<Longrightarrow>
   Q st \<Longrightarrow> \<exists>d\<in>set ds. d \<in> L \<and> m d \<noteq> None \<Longrightarrow> add_deps f m ds st = None"
proof (induction ds arbitrary: st)
  case (Cons d ds)
  have IH: "Q st1 \<Longrightarrow> \<exists>d\<in>set ds. d \<in> L \<and> m d \<noteq> None \<Longrightarrow> add_deps f m ds st1 = None" for st1
    by (rule Cons.IH) (use Cons.prems(1,2) in simp_all)
  show ?case
  proof (cases "m d")
    case None
    with IH[OF Cons.prems(3)] Cons.prems(4) show ?thesis by auto
  next
    case (Some dep)
    show ?thesis
    proof (cases "d \<in> L")
      case True
      then have "f dep st = None" using Cons.prems(1,3) Some by (meson list.set_intros(1))
      with Some show ?thesis by simp
    next
      case False
      then have ex: "\<exists>d\<in>set ds. d \<in> L \<and> m d \<noteq> None" using Cons.prems(4) by auto
      have "add_deps f m ds st1 = None" if "f dep st = Some st1" for st1
        by (rule IH[OF _ ex]) (use Cons.prems(2,3) Some False that in \<open>meson list.set_intros(1)\<close>)
      with Some show ?thesis by (auto split: option.split)
    qed
  qed
qed simp

lemma add_item_loop:
  assumes ok: "refs_ok m"
  shows "m r = Some x \<Longrightarrow> pk_inSet st \<inter> looping m = {} \<Longrightarrow>
    (r \<in> looping m \<longrightarrow> add_item n m b x st = None) \<and>
    (r \<notin> looping m \<longrightarrow> (\<forall>st'. add_item n m b x st = Some st' \<longrightarrow> pk_inSet st' \<inter> looping m = {}))"
proof (induction n arbitrary: r x st)
  case (Suc n)
  let ?Q = "\<lambda>st. pk_inSet st \<inter> looping m = {}"
  have ref: "cx_Ref x = r" by (rule refs_okD[OF ok Suc.prems(1)])
  have in_loop: "add_item n m b dep st = None" if "m d = Some dep" "?Q st" "d \<in> looping m" for d dep st
    using Suc.IH[OF that(1,2)] that(3) by simp
  have out_loop: "?Q st'" if "m d = Some dep" "?Q st" "d \<notin> looping m" "add_item n m b dep st = Some st'" for d dep st st'
    using Suc.IH[OF that(1,2)] that(3,4) by simp
  show ?case
  proof (cases "r \<in> looping m")
    case True
    have "add_deps (add_item n m b) m (cx_DependsOn x) st = None"
      by (rule add_deps_loop[where Q = ?Q, OF _ _ Suc.prems(2) looping_dep[OF True Suc.prems(1)]])
        (use in_loop out_loop in blast)+
    moreover have "r \<notin> pk_inSet st" using True Suc.prems(2) by auto
    ultimately show ?thesis using True ref by simp
  next
    case False
    have deps: "?Q st1" if "add_deps (add_item n m b) m (cx_DependsOn x) st = Some st1" for st1
    proof (rule add_deps_inv[where P = ?Q, OF _ Suc.prems(2) that], intro ballI allI impI)
      fix d dep st st' assume d: "d \<in> set (cx_DependsOn x)" "m d = Some dep" "?Q st" "add_item n m b dep st = Some st'"
      have "d \<notin> looping m" using False looping_up dep_relI[OF Suc.prems(1) d(1,2)] by blast
      with out_loop d(2-4) show "?Q st'" by blast
    qed
    have "?Q st'" if "add_item (Suc n) m b x st = Some st'" for st'
      using that Suc.prems(2) False deps ref by (fastforce simp: place_def split: if_splits option.splits)
    with False show ?thesis by simp
  qed
qed simp

section \<open>An acyclic run returns\<close>

lemma add_deps_returns:
  "\<forall>d\<in>set ds. \<forall>dep st. m d = Some dep \<longrightarrow> f dep st \<noteq> None \<Longrightarrow> add_deps f m ds st \<noteq> None"
proof (induction ds arbitrary: st)
  case (Cons d ds)
  have IH: "add_deps f m ds st1 \<noteq> None" for st1 using Cons by simp
  show ?case
  proof (cases "m d")
    case (Some dep)
    then obtain st1 where "f dep st = Some st1" using Cons.prems by fastforce
    with Some IH show ?thesis by simp
  qed (use IH in simp)
qed simp

definition deps_of :: "(string \<rightharpoonup> Item) \<Rightarrow> string \<Rightarrow> string set" where
  "deps_of m r = {s. (s, r) \<in> (dep_rel m)\<^sup>+}"

lemma deps_of_dom: "deps_of m r \<subseteq> dom m"
proof -
  have "m s \<noteq> None" if "(s, r) \<in> (dep_rel m)\<^sup>+" for s
    using that by (cases rule: converse_tranclE) (auto simp: dep_rel_def)
  then show ?thesis by (auto simp: deps_of_def dom_def)
qed

lemma deps_of_less:
  assumes "acyclic (dep_rel m)" "(d, r) \<in> dep_rel m"
  shows "deps_of m d \<subset> deps_of m r"
proof
  show "deps_of m d \<subseteq> deps_of m r" using assms(2) by (auto simp: deps_of_def intro: trancl_into_trancl)
  have "d \<in> deps_of m r" "d \<notin> deps_of m d" using assms by (auto simp: deps_of_def acyclic_def)
  then show "deps_of m d \<noteq> deps_of m r" by blast
qed

lemma add_item_returns:
  assumes "acyclic (dep_rel m)" "finite (dom m)"
  shows "m r = Some x \<Longrightarrow> card (deps_of m r) < n \<Longrightarrow> add_item n m b x st \<noteq> None"
proof (induction n arbitrary: r x st)
  case (Suc n)
  have "add_deps (add_item n m b) m (cx_DependsOn x) st \<noteq> None"
  proof (rule add_deps_returns, intro ballI allI impI)
    fix d dep st assume d: "d \<in> set (cx_DependsOn x)" "m d = Some dep"
    have "deps_of m d \<subset> deps_of m r" by (rule deps_of_less[OF assms(1) dep_relI[OF Suc.prems(1) d]])
    then have "card (deps_of m d) < card (deps_of m r)"
      by (rule psubset_card_mono[OF finite_subset[OF deps_of_dom assms(2)]])
    then have "card (deps_of m d) < n" using Suc.prems(2) by linarith
    from Suc.IH[OF d(2) this] show "add_item n m b dep st \<noteq> None" .
  qed
  then obtain st1 where "add_deps (add_item n m b) m (cx_DependsOn x) st = Some st1" by blast
  then show ?case by simp
qed simp

lemma card_below:
  assumes "acyclic (dep_rel m)" "finite (dom m)" "m r = Some x"
  shows "card (deps_of m r) < card (dom m)"
proof (rule psubset_card_mono[OF assms(2)])
  have "r \<in> dom m - deps_of m r" using assms by (auto simp: deps_of_def acyclic_def)
  with deps_of_dom[of m r] show "deps_of m r \<subset> dom m" by blast
qed

lemma add_all_returns:
  "\<forall>x\<in>set its. \<forall>st. add_item n m b x st \<noteq> None \<Longrightarrow> add_all n m b its st \<noteq> None"
proof (induction its arbitrary: st)
  case (Cons x its)
  then obtain st1 where "add_item n m b x st = Some st1" by fastforce
  with Cons show ?case by simp
qed simp

lemma add_all_loops:
  "\<forall>x\<in>set its. \<forall>st. Q st \<longrightarrow> x \<in> L \<longrightarrow> add_item n m b x st = None \<Longrightarrow>
   \<forall>x\<in>set its. \<forall>st st'. Q st \<longrightarrow> x \<notin> L \<longrightarrow> add_item n m b x st = Some st' \<longrightarrow> Q st' \<Longrightarrow>
   Q st \<Longrightarrow> x \<in> set its \<Longrightarrow> x \<in> L \<Longrightarrow> add_all n m b its st = None"
proof (induction its arbitrary: st)
  case (Cons y its)
  show ?case
  proof (cases "y \<in> L")
    case True
    then have "add_item n m b y st = None" using Cons.prems(1,3) by (meson list.set_intros(1))
    then show ?thesis by simp
  next
    case False
    with Cons.prems(4,5) have x: "x \<in> set its" by auto
    have "add_all n m b its st1 = None" if "add_item n m b y st = Some st1" for st1
    proof (rule Cons.IH[OF _ _ _ x Cons.prems(5)])
      show "Q st1" using Cons.prems(2,3) False that by (meson list.set_intros(1))
    qed (use Cons.prems(1,2) in \<open>meson list.set_intros(2)\<close>)+
    then show ?thesis by (auto split: option.split)
  qed
qed simp

section \<open>The order of placements\<close>

definition tried :: "packing \<Rightarrow> string \<Rightarrow> bool" where
  "tried st d \<longleftrightarrow> d \<in> pk_inSet st \<or> (\<exists>e\<in>set (pk_excluded st). xc_Ref e = d \<and> xc_Reason e = ReasonBudget)"

lemma tried_place: "tried st d \<Longrightarrow> tried (place b x st) d"
  by (auto simp: tried_def place_def)

lemma tried_placed: "tried (place b x st) (cx_Ref x)"
  by (auto simp: tried_def place_def)

lemma add_item_keeps_tried:
  "m r = Some x \<Longrightarrow> tried st d \<Longrightarrow> add_item n m b x st = Some st' \<Longrightarrow> tried st' d"
  by (rule add_item_inv[where Q = "\<lambda>st. tried st d"]) (rule tried_place)

lemma add_item_tried:
  assumes "add_item n m b x st = Some st'"
  shows "tried st' (cx_Ref x)"
proof -
  obtain k where k: "n = Suc k" using assms by (cases n) auto
  show ?thesis
  proof (cases "cx_Ref x \<in> pk_inSet st")
    case True
    with assms k show ?thesis by (simp add: tried_def)
  next
    case False
    with assms k obtain st1 where "st' = place b x st1" by (auto split: option.splits)
    then show ?thesis by (simp add: tried_placed)
  qed
qed

lemma add_deps_tried:
  assumes ok: "refs_ok m"
  shows "add_deps (add_item n m b) m ds st = Some st' \<Longrightarrow> d \<in> set ds \<Longrightarrow> m d = Some dep \<Longrightarrow> tried st' d"
proof (induction ds arbitrary: st)
  case (Cons c ds)
  show ?case
  proof (cases "m c")
    case None
    with Cons show ?thesis by auto
  next
    case (Some y)
    with Cons.prems(1) obtain st1 where st1: "add_item n m b y st = Some st1"
      "add_deps (add_item n m b) m ds st1 = Some st'" by (auto split: option.splits)
    show ?thesis
    proof (cases "d \<in> set ds")
      case True
      from Cons.IH[OF st1(2) True Cons.prems(3)] show ?thesis .
    next
      case False
      with Cons.prems(2) have "d = c" by simp
      then have "tried st1 d" using add_item_tried[OF st1(1)] refs_okD[OF ok Some] by simp
      then show ?thesis
        by (rule add_deps_inv[where P = "\<lambda>st. tried st d", rotated, OF _ st1(2)]) (blast intro: add_item_keeps_tried)
    qed
  qed
qed simp

lemma deps_grow:
  assumes x: "m r = Some x"
    and f: "\<forall>d dep s s'. m d = Some dep \<longrightarrow> f dep s = Some s' \<longrightarrow> pk_inSet s' \<subseteq> pk_inSet s \<union> insert d (deps_of m d)"
    and deps: "add_deps f m (cx_DependsOn x) st = Some st1"
  shows "pk_inSet st1 \<subseteq> pk_inSet st \<union> deps_of m r"
proof (rule add_deps_inv[where P = "\<lambda>s. pk_inSet s \<subseteq> pk_inSet st \<union> deps_of m r", OF _ _ deps],
    intro ballI allI impI)
  fix d dep s s' assume d: "d \<in> set (cx_DependsOn x)" "m d = Some dep"
    and s: "pk_inSet s \<subseteq> pk_inSet st \<union> deps_of m r" "f dep s = Some s'"
  have "(d, r) \<in> dep_rel m" by (rule dep_relI[OF x d])
  then have "insert d (deps_of m d) \<subseteq> deps_of m r" by (auto simp: deps_of_def intro: trancl_into_trancl)
  moreover have "pk_inSet s' \<subseteq> pk_inSet s \<union> insert d (deps_of m d)" using f d(2) s(2) by blast
  ultimately show "pk_inSet s' \<subseteq> pk_inSet st \<union> deps_of m r" using s(1) by blast
qed simp

lemma add_item_grow:
  assumes ok: "refs_ok m"
  shows "m r = Some x \<Longrightarrow> add_item n m b x st = Some st' \<Longrightarrow>
    pk_inSet st' \<subseteq> pk_inSet st \<union> insert r (deps_of m r)"
proof (induction n arbitrary: r x st st')
  case (Suc n)
  have ref: "cx_Ref x = r" by (rule refs_okD[OF ok Suc.prems(1)])
  show ?case
  proof (cases "r \<in> pk_inSet st")
    case False
    with Suc.prems(2) ref obtain st1 where
      st1: "add_deps (add_item n m b) m (cx_DependsOn x) st = Some st1" "st' = place b x st1"
      by (auto split: option.splits)
    have "pk_inSet st1 \<subseteq> pk_inSet st \<union> deps_of m r"
      by (rule deps_grow[OF Suc.prems(1) _ st1(1)]) (use Suc.IH in blast)
    then show ?thesis using st1(2) ref by (auto simp: place_def)
  qed (use Suc.prems ref in auto)
qed simp

text \<open>
  The invariant rule of a returning run: an item is placed once, and only after each of
  its dependencies was tried.
\<close>

lemma add_item_strong:
  assumes ok: "refs_ok m" and acyc: "acyclic (dep_rel m)"
    and place: "\<And>r x st. m r = Some x \<Longrightarrow> Q st \<Longrightarrow> r \<notin> pk_inSet st \<Longrightarrow>
      \<forall>d\<in>set (cx_DependsOn x). m d \<noteq> None \<longrightarrow> tried st d \<Longrightarrow> Q (place b x st)"
  shows "m r = Some x \<Longrightarrow> Q st \<Longrightarrow> add_item n m b x st = Some st' \<Longrightarrow> Q st'"
proof (induction n arbitrary: r x st st')
  case (Suc n)
  have ref: "cx_Ref x = r" by (rule refs_okD[OF ok Suc.prems(1)])
  show ?case
  proof (cases "r \<in> pk_inSet st")
    case False
    with Suc.prems(3) ref obtain st1 where
      st1: "add_deps (add_item n m b) m (cx_DependsOn x) st = Some st1" "st' = place b x st1"
      by (auto split: option.splits)
    have Q: "Q st1" by (rule add_deps_inv[where P = Q, OF _ Suc.prems(2) st1(1)]) (use Suc.IH in blast)
    have "pk_inSet st1 \<subseteq> pk_inSet st \<union> deps_of m r"
      by (rule deps_grow[OF Suc.prems(1) _ st1(1)]) (use add_item_grow[OF ok] in blast)
    then have "r \<notin> pk_inSet st1" using False acyc by (auto simp: deps_of_def acyclic_def)
    then show ?thesis
      using place[OF Suc.prems(1) Q] add_deps_tried[OF ok st1(1)] st1(2) by blast
  qed (use Suc.prems ref in auto)
qed simp

section \<open>What packing keeps\<close>

definition packed :: "(string \<rightharpoonup> Item) \<Rightarrow> int \<Rightarrow> packing \<Rightarrow> bool" where
  "packed m b st \<longleftrightarrow>
     pk_inSet st = cx_Ref ` set (pk_included st) \<and>
     distinct (map cx_Ref (pk_included st)) \<and>
     pk_used st = sum_list (map cx_TokenCost (pk_included st)) \<and> pk_used st \<le> b \<and>
     (\<forall>it\<in>set (pk_included st). \<exists>x. m (cx_Ref it) = Some x \<and> it = x\<lparr>cx_Reason := selectionReason x\<rparr>)"

text \<open>Each dependency that is a candidate stands earlier, or was turned away for budget.\<close>

definition deps_first :: "(string \<rightharpoonup> Item) \<Rightarrow> Item list \<Rightarrow> Exclusion list \<Rightarrow> bool" where
  "deps_first m inc exc \<longleftrightarrow>
     (\<forall>i<length inc. \<forall>d\<in>set (cx_DependsOn (inc ! i)). m d \<noteq> None \<longrightarrow>
        d \<in> cx_Ref ` set (take i inc) \<or> (\<exists>e\<in>set exc. xc_Ref e = d \<and> xc_Reason e = ReasonBudget))"

lemma packed_place:
  assumes ok: "refs_ok m" and x: "m r = Some x" "r \<notin> pk_inSet st" and st: "packed m b st"
  shows "packed m b (place b x st)"
  using st x refs_okD[OF ok x(1)] by (auto simp: packed_def place_def)

lemma packed_inSet: "packed m b st \<Longrightarrow> pk_inSet st = cx_Ref ` set (pk_included st)"
  by (simp add: packed_def)

lemma deps_first_snoc:
  assumes "deps_first m inc exc"
    "\<forall>d\<in>set (cx_DependsOn it). m d \<noteq> None \<longrightarrow>
       d \<in> cx_Ref ` set inc \<or> (\<exists>e\<in>set exc. xc_Ref e = d \<and> xc_Reason e = ReasonBudget)"
  shows "deps_first m (inc @ [it]) exc"
  using assms by (auto simp: deps_first_def nth_append less_Suc_eq)

lemma deps_first_more: "deps_first m inc exc \<Longrightarrow> deps_first m inc (exc @ es)"
  unfolding deps_first_def by (metis UnCI set_append)

lemma deps_first_place:
  assumes st: "pk_inSet st = cx_Ref ` set (pk_included st)" "deps_first m (pk_included st) (pk_excluded st)"
    and deps: "\<forall>d\<in>set (cx_DependsOn x). m d \<noteq> None \<longrightarrow> tried st d"
  shows "deps_first m (pk_included (place b x st)) (pk_excluded (place b x st))"
proof (cases "pk_used st + cx_TokenCost x > b")
  case True
  with st(2) show ?thesis by (simp add: place_def deps_first_more)
next
  case False
  have "deps_first m (pk_included st @ [x\<lparr>cx_Reason := selectionReason x\<rparr>]) (pk_excluded st)"
    by (rule deps_first_snoc[OF st(2)]) (use deps st(1) in \<open>auto simp: tried_def\<close>)
  with False show ?thesis by (simp add: place_def)
qed

section \<open>The candidates after deduplication\<close>

lemma dedup_loop_kept:
  "dedup_loop canon seen items = (kept, exc) \<Longrightarrow>
     distinct (map cx_Ref kept) \<and> cx_Ref ` set kept \<inter> seen = {} \<and> set kept \<subseteq> set items"
proof (induction items arbitrary: seen kept exc)
  case (Cons it items)
  then show ?case by (fastforce split: if_splits prod.splits)
qed simp

lemma dedup_loop_explained:
  "dedup_loop canon seen items = (kept, exc) \<Longrightarrow> c \<in> set items \<Longrightarrow> c \<in> set kept \<or> cx_Ref c \<in> xc_Ref ` set exc"
proof (induction items arbitrary: seen kept exc)
  case (Cons it items)
  then show ?case by (fastforce split: if_splits prod.splits)
qed simp

lemma dedup_loop_reasons:
  "dedup_loop canon seen items = (kept, exc) \<Longrightarrow> e \<in> set exc \<Longrightarrow>
     xc_Reason e = ReasonDuplicate \<or> xc_Reason e = ReasonProjection"
proof (induction items arbitrary: seen kept exc)
  case (Cons it items)
  then show ?case by (auto split: if_splits prod.splits)
qed simp

text \<open>A reference whose canonical text is a candidate is always kept.\<close>

lemma dedup_loop_canonical:
  "dedup_loop canon seen items = (kept, exc) \<Longrightarrow> c \<in> set items \<Longrightarrow> \<not> cx_Projection c \<Longrightarrow>
     cx_Ref c \<in> seen \<or> cx_Ref c \<in> cx_Ref ` set kept"
proof (induction items arbitrary: seen kept exc)
  case (Cons it items)
  then show ?case by (fastforce split: if_splits prod.splits)
qed simp

lemma dedup_loop_projection:
  "dedup_loop canon seen items = (kept, exc) \<Longrightarrow> e \<in> set exc \<Longrightarrow> xc_Reason e = ReasonProjection \<Longrightarrow>
     \<exists>c\<in>set items. cx_Ref c = xc_Ref e \<and> cx_Projection c \<and> cx_CanonicalSource c \<in> canon"
proof (induction items arbitrary: seen kept exc)
  case (Cons it items)
  then show ?case by (fastforce split: if_splits prod.splits simp: ReasonProjection_def ReasonDuplicate_def)
qed simp

lemma dedup_loop_id:
  "distinct (map cx_Ref items) \<Longrightarrow> cx_Ref ` set items \<inter> seen = {} \<Longrightarrow>
   \<forall>it\<in>set items. \<not> (cx_Projection it \<and> cx_CanonicalSource it \<in> canon) \<Longrightarrow>
   dedup_loop canon seen items = (items, [])"
  by (induction items arbitrary: seen) auto

lemma dedup_loop_no_projection:
  "dedup_loop canon seen items = (kept, exc) \<Longrightarrow> it \<in> set kept \<Longrightarrow>
     \<not> (cx_Projection it \<and> cx_CanonicalSource it \<in> canon)"
proof (induction items arbitrary: seen kept exc)
  case (Cons x items)
  then show ?case by (auto split: if_splits prod.splits)
qed simp

lemma set_sort_exclusions [simp]: "set (sort_exclusions es) = set es"
  by (simp add: sort_exclusions_def)

lemma dedup_eq: "DeduplicatePreferCanonical items = (kept, exc) \<Longrightarrow>
   \<exists>es. dedup_loop (canonicalPresent items) {} items = (kept, es) \<and> exc = sort_exclusions es"
  by (auto simp: DeduplicatePreferCanonical_def split: prod.splits)

lemma disclose_same [simp]:
  "cx_Ref (DiscloseItem it l) = cx_Ref it" "cx_DependsOn (DiscloseItem it l) = cx_DependsOn it"
  "cx_Reason (DiscloseItem it l) = cx_Reason it"
  by (simp_all add: DiscloseItem_def Let_def split: prod.splits)

lemma selectionReason_nonempty: "selectionReason it \<noteq> []"
  by (auto simp: selectionReason_def Let_def join_Cons)

text \<open>Deduplication twice drops nothing more.\<close>

lemma dedup_idempotent:
  assumes "DeduplicatePreferCanonical items = (kept, exc)"
  shows "DeduplicatePreferCanonical kept = (kept, [])"
proof -
  obtain es where es: "dedup_loop (canonicalPresent items) {} items = (kept, es)" using dedup_eq[OF assms] by blast
  have sub: "canonicalPresent kept \<subseteq> canonicalPresent items"
    using dedup_loop_kept[OF es] by (auto simp: canonicalPresent_def)
  have "dedup_loop (canonicalPresent kept) {} kept = (kept, [])"
    by (rule dedup_loop_id) (use dedup_loop_kept[OF es] dedup_loop_no_projection[OF es] sub in auto)
  then show ?thesis by (simp add: DeduplicatePreferCanonical_def sort_exclusions_def)
qed

lemma foldl_by_ref:
  "foldl (\<lambda>m c. m(cx_Ref c \<mapsto> c)) m0 xs r = Some x \<Longrightarrow> (x \<in> set xs \<and> cx_Ref x = r) \<or> m0 r = Some x"
  by (induction xs arbitrary: m0) (fastforce split: if_splits)+

lemma foldl_by_ref_notin: "r \<notin> cx_Ref ` set xs \<Longrightarrow> foldl (\<lambda>m c. m(cx_Ref c \<mapsto> c)) m0 xs r = m0 r"
  by (induction xs arbitrary: m0) auto

lemma foldl_by_ref_mem:
  "x \<in> set xs \<Longrightarrow> distinct (map cx_Ref xs) \<Longrightarrow> foldl (\<lambda>m c. m(cx_Ref c \<mapsto> c)) m0 xs (cx_Ref x) = Some x"
  by (induction xs arbitrary: m0) (auto simp: foldl_by_ref_notin)

lemma by_ref_Some: "by_ref xs r = Some x \<Longrightarrow> x \<in> set xs \<and> cx_Ref x = r"
  unfolding by_ref_def by (drule foldl_by_ref) simp

lemma by_ref_mem: "x \<in> set xs \<Longrightarrow> distinct (map cx_Ref xs) \<Longrightarrow> by_ref xs (cx_Ref x) = Some x"
  unfolding by_ref_def by (rule foldl_by_ref_mem)

lemma by_ref_ok: "refs_ok (by_ref xs)"
  by (auto simp: refs_ok_def dest: by_ref_Some)

lemma by_ref_dom: "dom (by_ref xs) \<subseteq> cx_Ref ` set xs"
  by (auto dest: by_ref_Some)

lemma disclosed_distinct: "distinct (map cx_Ref (disclosed_items candidates policy))"
proof -
  obtain kept exc where d: "DeduplicatePreferCanonical candidates = (kept, exc)" by fastforce
  with dedup_eq[OF d] dedup_loop_kept show ?thesis by (auto simp: disclosed_items_def comp_def)
qed

lemma disclosed_length: "card (dom (by_ref (disclosed_items candidates policy))) \<le> length candidates"
proof -
  obtain kept exc where d: "DeduplicatePreferCanonical candidates = (kept, exc)" by fastforce
  then obtain es where es: "dedup_loop (canonicalPresent candidates) {} candidates = (kept, es)" using dedup_eq by blast
  have "card (dom (by_ref (disclosed_items candidates policy))) \<le> card (cx_Ref ` set (disclosed_items candidates policy))"
    by (rule card_mono[OF _ by_ref_dom]) simp
  also have "cx_Ref ` set (disclosed_items candidates policy) = cx_Ref ` set kept"
    by (simp add: disclosed_items_def d image_image)
  also have "\<dots> \<subseteq> cx_Ref ` set candidates" using dedup_loop_kept[OF es] by blast
  then have "card (cx_Ref ` set kept) \<le> length candidates"
    by (meson List.finite_set card_image_le card_length card_mono finite_imageI le_trans)
  finally show ?thesis by simp
qed

section \<open>Compilation\<close>

text \<open>The facts of one compilation, with the start state of the packing named.\<close>

definition start_packing :: "Item list \<Rightarrow> packing" where
  "start_packing candidates =
     \<lparr>pk_included = [], pk_excluded = snd (DeduplicatePreferCanonical candidates), pk_used = 0, pk_inSet = {}\<rparr>"

abbreviation pack :: "nat \<Rightarrow> Item list \<Rightarrow> CompilePolicy \<Rightarrow> packing option" where
  "pack n candidates policy \<equiv> add_all n (by_ref (disclosed_items candidates policy)) (effective_budget policy)
     (by_utility (disclosed_items candidates policy)) (start_packing candidates)"

lemma compile_pack: "CompileWithPolicy n stamp runID candidates policy \<noteq> None \<longleftrightarrow> pack n candidates policy \<noteq> None"
  by (simp add: CompileWithPolicy_def Let_def start_packing_def split: option.split)

lemma compile_packE:
  assumes "CompileWithPolicy n stamp runID candidates policy = Some m"
  obtains st where "pack n candidates policy = Some st"
    "mf_Included m = pk_included st" "mf_Excluded m = sort_exclusions (pk_excluded st)"
    "mf_EstimatedTokens m = pk_used st" "mf_Pressure m = pressure_of (effective_budget policy) (pk_used st)"
  using assms by (auto simp: CompileWithPolicy_def Let_def start_packing_def split: option.splits)

lemma utility_mem [simp]: "set (by_utility xs) = set xs"
  by (simp add: by_utility_def)

lemma pack_loops:
  assumes "\<not> acyclic (dep_rel (by_ref (disclosed_items candidates policy)))"
  shows "pack n candidates policy = None"
proof -
  let ?xs = "disclosed_items candidates policy"
  let ?m = "by_ref ?xs"
  obtain c where c: "(c, c) \<in> (dep_rel ?m)\<^sup>+" using assms by (auto simp: acyclic_def)
  then obtain d where "(d, c) \<in> dep_rel ?m" by (meson tranclD2)
  then obtain x where "?m c = Some x" by (auto simp: dep_rel_def)
  with by_ref_Some have x: "x \<in> set ?xs" "cx_Ref x = c" by blast+
  have loop: "c \<in> looping ?m" using c by (auto simp: looping_def)
  have mem: "?m (cx_Ref y) = Some y" if "y \<in> set ?xs" for y by (rule by_ref_mem[OF that disclosed_distinct])
  show ?thesis
  proof (rule add_all_loops[where Q = "\<lambda>st. pk_inSet st \<inter> looping ?m = {}" and L = "{y. cx_Ref y \<in> looping ?m}" and x = x])
    show "pk_inSet (start_packing candidates) \<inter> looping ?m = {}" by (simp add: start_packing_def)
    show "\<forall>y\<in>set (by_utility ?xs). \<forall>st. pk_inSet st \<inter> looping ?m = {} \<longrightarrow> y \<in> {y. cx_Ref y \<in> looping ?m} \<longrightarrow>
        add_item n ?m (effective_budget policy) y st = None"
      using add_item_loop[OF by_ref_ok mem] by simp
    show "\<forall>y\<in>set (by_utility ?xs). \<forall>st st'. pk_inSet st \<inter> looping ?m = {} \<longrightarrow> y \<notin> {y. cx_Ref y \<in> looping ?m} \<longrightarrow>
        add_item n ?m (effective_budget policy) y st = Some st' \<longrightarrow> pk_inSet st' \<inter> looping ?m = {}"
      using add_item_loop[OF by_ref_ok mem] by simp
  qed (use x loop in auto)
qed

lemma pack_returns:
  assumes "acyclic (dep_rel (by_ref (disclosed_items candidates policy)))" "length candidates \<le> n"
  shows "pack n candidates policy \<noteq> None"
proof (rule add_all_returns, intro ballI allI)
  let ?xs = "disclosed_items candidates policy"
  fix x st assume "x \<in> set (by_utility ?xs)"
  then have m: "by_ref ?xs (cx_Ref x) = Some x" by (simp add: by_ref_mem disclosed_distinct)
  have fin: "finite (dom (by_ref ?xs))" by (rule finite_subset[OF by_ref_dom]) simp
  have "card (deps_of (by_ref ?xs) (cx_Ref x)) < n"
    using card_below[OF assms(1) fin m] disclosed_length[of candidates policy] assms(2) by linarith
  then show "add_item n (by_ref ?xs) (effective_budget policy) x st \<noteq> None"
    by (rule add_item_returns[OF assms(1) fin m])
qed

lemma add_all_tried:
  assumes m: "\<forall>x\<in>set its. m (cx_Ref x) = Some x"
  shows "add_all n m b its st = Some st' \<Longrightarrow> x \<in> set its \<Longrightarrow> tried st' (cx_Ref x)"
  using m
proof (induction its arbitrary: st)
  case (Cons y its)
  from Cons.prems(1) obtain st1 where st1: "add_item n m b y st = Some st1" "add_all n m b its st1 = Some st'"
    by (auto split: option.splits)
  show ?case
  proof (cases "x \<in> set its")
    case True
    with Cons.IH[OF st1(2)] Cons.prems(3) show ?thesis by simp
  next
    case False
    with Cons.prems(2) have "tried st1 (cx_Ref x)" using add_item_tried[OF st1(1)] by simp
    then show ?thesis
      by (rule add_all_inv[where Q = "\<lambda>st. tried st (cx_Ref x)", rotated, OF _ st1(2)])
         (use Cons.prems(3) in \<open>auto intro: add_item_keeps_tried\<close>)
  qed
qed simp

text \<open>Everything a returning compilation guarantees about its packing.\<close>

lemma pack_facts:
  assumes run: "pack n candidates policy = Some st"
  defines "m \<equiv> by_ref (disclosed_items candidates policy)"
  shows "packed m (effective_budget policy) st" "deps_first m (pk_included st) (pk_excluded st)"
    "set (pk_excluded (start_packing candidates)) \<subseteq> set (pk_excluded st)"
    "\<forall>e\<in>set (pk_excluded st). e \<in> set (pk_excluded (start_packing candidates)) \<or> xc_Reason e = ReasonBudget"
    "\<forall>x\<in>set (disclosed_items candidates policy). tried st (cx_Ref x)"
proof -
  let ?b = "effective_budget policy" and ?xs = "disclosed_items candidates policy"
  have b: "0 \<le> ?b" by (simp add: effective_budget_def)
  have acyc: "acyclic (dep_rel m)" using pack_loops run unfolding m_def by fastforce
  have ok: "refs_ok m" unfolding m_def by (rule by_ref_ok)
  have mem: "m (cx_Ref y) = Some y" if "y \<in> set ?xs" for y
    unfolding m_def by (rule by_ref_mem[OF that disclosed_distinct])
  let ?Q = "\<lambda>st. packed m ?b st \<and> deps_first m (pk_included st) (pk_excluded st)"
  have "?Q st"
  proof (rule add_all_inv[where Q = ?Q, OF _ _ run[folded m_def]])
    show "?Q (start_packing candidates)" using b by (simp add: start_packing_def packed_def deps_first_def)
    fix x s s' assume x: "x \<in> set (by_utility ?xs)" and s: "?Q s" "add_item n m ?b x s = Some s'"
    show "?Q s'"
      by (rule add_item_strong[where Q = ?Q, OF ok acyc _ mem s])
         (use x packed_place[OF ok] deps_first_place packed_inSet in \<open>simp_all, blast\<close>)
  qed
  then show "packed m ?b st" "deps_first m (pk_included st) (pk_excluded st)" by auto
  let ?E = "\<lambda>s. set (pk_excluded (start_packing candidates)) \<subseteq> set (pk_excluded s) \<and>
    (\<forall>e\<in>set (pk_excluded s). e \<in> set (pk_excluded (start_packing candidates)) \<or> xc_Reason e = ReasonBudget)"
  have "?E st"
  proof (rule add_all_inv[where Q = ?E, OF _ _ run[folded m_def]])
    fix x s s' assume x: "x \<in> set (by_utility ?xs)" and s: "?E s" "add_item n m ?b x s = Some s'"
    show "?E s'"
      by (rule add_item_inv[where Q = ?E, OF _ mem s]) (use x in \<open>auto simp: place_def\<close>)
  qed simp
  then show "set (pk_excluded (start_packing candidates)) \<subseteq> set (pk_excluded st)"
    "\<forall>e\<in>set (pk_excluded st). e \<in> set (pk_excluded (start_packing candidates)) \<or> xc_Reason e = ReasonBudget" by auto
  show "\<forall>x\<in>set ?xs. tried st (cx_Ref x)"
    using add_all_tried[OF _ run[folded m_def]] mem by simp
qed

lemma compile_facts:
  assumes "CompileWithPolicy n stamp runID candidates policy = Some m"
  defines "xs \<equiv> disclosed_items candidates policy"
  shows "distinct (map cx_Ref (mf_Included m))"
    "mf_EstimatedTokens m = sum_list (map cx_TokenCost (mf_Included m))"
    "mf_EstimatedTokens m \<le> effective_budget policy"
    "mf_Pressure m = pressure_of (effective_budget policy) (mf_EstimatedTokens m)"
    "deps_first (by_ref xs) (mf_Included m) (mf_Excluded m)"
    "\<forall>it\<in>set (mf_Included m). \<exists>x\<in>set xs. it = x\<lparr>cx_Reason := selectionReason x\<rparr>"
    "\<forall>x\<in>set xs. cx_Ref x \<in> cx_Ref ` set (mf_Included m)
       \<or> (\<exists>e\<in>set (mf_Excluded m). xc_Ref e = cx_Ref x \<and> xc_Reason e = ReasonBudget)"
    "set (snd (DeduplicatePreferCanonical candidates)) \<subseteq> set (mf_Excluded m)"
    "\<forall>e\<in>set (mf_Excluded m). e \<in> set (snd (DeduplicatePreferCanonical candidates)) \<or> xc_Reason e = ReasonBudget"
proof -
  obtain st where run: "pack n candidates policy = Some st" and m: "mf_Included m = pk_included st"
    "mf_Excluded m = sort_exclusions (pk_excluded st)" "mf_EstimatedTokens m = pk_used st"
    "mf_Pressure m = pressure_of (effective_budget policy) (pk_used st)"
    using compile_packE[OF assms(1)] by blast
  note f = pack_facts[OF run, folded xs_def]
  show "distinct (map cx_Ref (mf_Included m))"
    "mf_EstimatedTokens m = sum_list (map cx_TokenCost (mf_Included m))"
    "mf_EstimatedTokens m \<le> effective_budget policy"
    using f(1) by (simp_all add: packed_def m)
  show "mf_Pressure m = pressure_of (effective_budget policy) (mf_EstimatedTokens m)" by (simp add: m)
  show "deps_first (by_ref xs) (mf_Included m) (mf_Excluded m)" using f(2) by (simp add: m deps_first_def)
  show "\<forall>it\<in>set (mf_Included m). \<exists>x\<in>set xs. it = x\<lparr>cx_Reason := selectionReason x\<rparr>"
    using f(1) by (fastforce simp: packed_def m dest: by_ref_Some)
  show "\<forall>x\<in>set xs. cx_Ref x \<in> cx_Ref ` set (mf_Included m)
       \<or> (\<exists>e\<in>set (mf_Excluded m). xc_Ref e = cx_Ref x \<and> xc_Reason e = ReasonBudget)"
    using f(5) packed_inSet[OF f(1)] by (simp add: tried_def m)
  show "set (snd (DeduplicatePreferCanonical candidates)) \<subseteq> set (mf_Excluded m)"
    "\<forall>e\<in>set (mf_Excluded m). e \<in> set (snd (DeduplicatePreferCanonical candidates)) \<or> xc_Reason e = ReasonBudget"
    using f(3,4) by (simp_all add: m start_packing_def)
qed

section \<open>The properties\<close>

text \<open>
  C26: compiling a context returns exactly when the dependencies among its deduplicated
  candidates are acyclic, and then a nesting of one call per candidate is enough: the
  recursion marks a reference only after its dependencies, so a cycle is entered again and
  again whatever the stack.
\<close>

theorem compile_returns_iff_acyclic:
  "(CompileWithPolicy (length candidates) stamp runID candidates policy \<noteq> None
      \<longleftrightarrow> acyclic (dep_rel (by_ref (disclosed_items candidates policy)))) \<and>
   ((\<exists>n. CompileWithPolicy n stamp runID candidates policy \<noteq> None)
      \<longleftrightarrow> acyclic (dep_rel (by_ref (disclosed_items candidates policy))))"
  unfolding compile_pack using pack_loops pack_returns[OF _ order_refl] by metis

text \<open>
  C9: a compiled manifest fits its budget: its estimate is the sum of the costs of the
  included items, no reference is included twice, the estimate is at most the budget (8000
  when none was given) and the pressure is read off it. Every dependency of an included item
  that is a candidate stands earlier in the list or was turned away because the budget
  was spent.
\<close>

theorem compile_fits_the_budget:
  assumes "CompileWithPolicy n stamp runID candidates policy = Some m"
  shows "mf_EstimatedTokens m = sum_list (map cx_TokenCost (mf_Included m)) \<and>
    mf_EstimatedTokens m \<le> effective_budget policy \<and>
    mf_Pressure m = pressure_of (effective_budget policy) (mf_EstimatedTokens m) \<and>
    distinct (map cx_Ref (mf_Included m)) \<and>
    (\<forall>i<length (mf_Included m). \<forall>d\<in>set (cx_DependsOn (mf_Included m ! i)).
       by_ref (disclosed_items candidates policy) d \<noteq> None \<longrightarrow>
       d \<in> cx_Ref ` set (take i (mf_Included m)) \<or>
       (\<exists>e\<in>set (mf_Excluded m). xc_Ref e = d \<and> xc_Reason e = ReasonBudget))"
  using compile_facts[OF assms] by (simp add: deps_first_def)

text \<open>
  C8: every candidate of a compilation is accounted for: its reference is included or named
  by an exclusion; an included item is a candidate disclosed at the manifest's level with a
  stated reason; exclusions carry one of three reasons; and a projection is dropped only
  when its canonical source is included or itself turned away for budget.
\<close>

theorem every_candidate_is_explained:
  assumes run: "CompileWithPolicy n stamp runID candidates policy = Some m"
  shows "(\<forall>c\<in>set candidates. cx_Ref c \<in> cx_Ref ` set (mf_Included m) \<or> cx_Ref c \<in> xc_Ref ` set (mf_Excluded m)) \<and>
    (\<forall>it\<in>set (mf_Included m). cx_Reason it \<noteq> [] \<and>
       (\<exists>c\<in>set candidates. it = (DiscloseItem c (effective_level policy))\<lparr>cx_Reason := cx_Reason it\<rparr>)) \<and>
    (\<forall>e\<in>set (mf_Excluded m). xc_Reason e \<in> {ReasonBudget, ReasonDuplicate, ReasonProjection}) \<and>
    (\<forall>e\<in>set (mf_Excluded m). xc_Reason e = ReasonProjection \<longrightarrow>
       (\<exists>c\<in>set candidates. cx_Ref c = xc_Ref e \<and> cx_Projection c \<and>
         (cx_CanonicalSource c \<in> cx_Ref ` set (mf_Included m) \<or>
          (\<exists>e'\<in>set (mf_Excluded m). xc_Ref e' = cx_CanonicalSource c \<and> xc_Reason e' = ReasonBudget))))"
proof -
  obtain kept exc where d: "DeduplicatePreferCanonical candidates = (kept, exc)" by fastforce
  then obtain es where es: "dedup_loop (canonicalPresent candidates) {} candidates = (kept, es)" "set exc = set es"
    using dedup_eq by fastforce
  have xs: "disclosed_items candidates policy = map (\<lambda>it. DiscloseItem it (effective_level policy)) kept"
    by (simp add: disclosed_items_def d)
  note f = compile_facts[OF run, unfolded xs d snd_conv es(2)]
  have kept: "cx_Ref c \<in> cx_Ref ` set (mf_Included m) \<or>
      (\<exists>e\<in>set (mf_Excluded m). xc_Ref e = cx_Ref c \<and> xc_Reason e = ReasonBudget)" if "c \<in> set kept" for c
    using f(7) that by auto
  have "cx_Ref c \<in> cx_Ref ` set (mf_Included m) \<or> cx_Ref c \<in> xc_Ref ` set (mf_Excluded m)" if "c \<in> set candidates" for c
    using dedup_loop_explained[OF es(1) that] kept f(8) by (metis imageI image_mono subsetD)
  moreover have "cx_Reason it \<noteq> [] \<and>
      (\<exists>c\<in>set candidates. it = (DiscloseItem c (effective_level policy))\<lparr>cx_Reason := cx_Reason it\<rparr>)"
    if it: "it \<in> set (mf_Included m)" for it
  proof -
    obtain c where c: "c \<in> set kept" "it = (DiscloseItem c (effective_level policy))
        \<lparr>cx_Reason := selectionReason (DiscloseItem c (effective_level policy))\<rparr>" using f(6) it by auto
    moreover have "c \<in> set candidates" using dedup_loop_kept[OF es(1)] c(1) by blast
    ultimately show ?thesis using selectionReason_nonempty by auto
  qed
  moreover have "xc_Reason e \<in> {ReasonBudget, ReasonDuplicate, ReasonProjection}" if "e \<in> set (mf_Excluded m)" for e
    using f(9) that dedup_loop_reasons[OF es(1)] by blast
  moreover have "\<exists>c\<in>set candidates. cx_Ref c = xc_Ref e \<and> cx_Projection c \<and>
         (cx_CanonicalSource c \<in> cx_Ref ` set (mf_Included m) \<or>
          (\<exists>e'\<in>set (mf_Excluded m). xc_Ref e' = cx_CanonicalSource c \<and> xc_Reason e' = ReasonBudget))"
    if e: "e \<in> set (mf_Excluded m)" "xc_Reason e = ReasonProjection" for e
  proof -
    have "e \<in> set es" using f(9) e by (auto simp: ReasonBudget_def ReasonProjection_def)
    from dedup_loop_projection[OF es(1) this e(2)] obtain c where
      c: "c \<in> set candidates" "cx_Ref c = xc_Ref e" "cx_Projection c"
        "cx_CanonicalSource c \<in> canonicalPresent candidates" by blast
    then obtain s where s: "s \<in> set candidates" "\<not> cx_Projection s" "cx_Ref s = cx_CanonicalSource c"
      by (auto simp: canonicalPresent_def)
    then obtain k where "k \<in> set kept" "cx_Ref k = cx_CanonicalSource c"
      using dedup_loop_canonical[OF es(1) s(1,2)] by auto
    with kept c show ?thesis by metis
  qed
  ultimately show ?thesis by blast
qed

section \<open>Concrete compilations\<close>

definition sample_item :: "string \<Rightarrow> int \<Rightarrow> string list \<Rightarrow> Item" where
  "sample_item r cost deps =
     \<lparr>cx_Ref = r, cx_Authority = ''canonical'', cx_Trust = ''high'', cx_Privacy = ''internal'',
      cx_Freshness = ''current'', cx_Rev = [], cx_Score = 0, cx_Method = ''exact'',
      cx_TokenCost = cost, cx_Content = [], cx_DependsOn = deps, cx_Reason = [],
      cx_Projection = False, cx_CanonicalSource = [], cx_Level = LevelOther [], cx_Truncated = False\<rparr>"

definition sample_policy :: CompilePolicy where
  "sample_policy = \<lparr>cp_Budget = 50, cp_Level = LevelSummary, cp_Policy = [], cp_InstructionTokens = 0\<rparr>"

text \<open>\<open>a\<close> needs \<open>b\<close>, \<open>c\<close> is too large, \<open>p\<close> repeats \<open>a\<close>'s text and the second \<open>b\<close> its reference.\<close>

definition sample_candidates :: "Item list" where
  "sample_candidates = [sample_item ''a'' 5 [''b''], sample_item ''b'' 7 [], sample_item ''c'' 100 [],
     (sample_item ''p'' 1 [])\<lparr>cx_Projection := True, cx_CanonicalSource := ''a''\<rparr>, sample_item ''b'' 1 []]"

lemma sample_compiles:
  "map_option (\<lambda>m. (map cx_Ref (mf_Included m), map (\<lambda>e. (xc_Ref e, xc_Reason e)) (mf_Excluded m), mf_EstimatedTokens m))
     (CompileWithPolicy 5 [] ''r'' sample_candidates sample_policy)
   = Some ([''b'', ''a''], [(''c'', ''budget''), (''b'', ''duplicate-ref''), (''p'', ''prefer-canonical'')], 12)"
  by code_simp

lemma sample_cycle:
  "CompileWithPolicy 9 [] ''r'' [sample_item ''a'' 1 [''b''], sample_item ''b'' 1 [''a'']] sample_policy = None"
  by code_simp

text \<open>A dependency that does not fit is reported twice, and the item that needs it is included all the same.\<close>

lemma excluded_twice:
  "map_option (\<lambda>m. (map cx_Ref (mf_Included m), map xc_Ref (mf_Excluded m)))
     (CompileWithPolicy 5 [] ''r'' [sample_item ''a'' 5 [''c''], sample_item ''c'' 100 []] sample_policy)
   = Some ([''a''], [''c'', ''c''])"
  by code_simp

lemma compile_fits_the_budget_witness:
  "\<exists>m. CompileWithPolicy 5 [] ''r'' sample_candidates sample_policy = Some m \<and>
     mf_EstimatedTokens m = 12 \<and> mf_EstimatedTokens m \<le> effective_budget sample_policy"
proof -
  obtain m where m: "CompileWithPolicy 5 [] ''r'' sample_candidates sample_policy = Some m" "mf_EstimatedTokens m = 12"
    using sample_compiles by auto
  with compile_fits_the_budget[OF m(1)] show ?thesis by blast
qed

lemma every_candidate_is_explained_witness:
  "\<exists>m. CompileWithPolicy 5 [] ''r'' sample_candidates sample_policy = Some m \<and>
     ''p'' \<in> xc_Ref ` set (mf_Excluded m) \<and> (\<forall>it\<in>set (mf_Included m). cx_Reason it \<noteq> [])"
proof -
  obtain m where m: "CompileWithPolicy 5 [] ''r'' sample_candidates sample_policy = Some m"
    "map cx_Ref (mf_Included m) = [''b'', ''a'']" using sample_compiles by auto
  have "(sample_item ''p'' 1 [])\<lparr>cx_Projection := True, cx_CanonicalSource := ''a''\<rparr> \<in> set sample_candidates"
    by (simp add: sample_candidates_def)
  then have "''p'' \<in> cx_Ref ` set (mf_Included m) \<or> ''p'' \<in> xc_Ref ` set (mf_Excluded m)"
    using every_candidate_is_explained[OF m(1)] by (fastforce simp: sample_item_def)
  moreover have "''p'' \<notin> cx_Ref ` set (mf_Included m)"
    using arg_cong[where f = set, OF m(2)] by auto
  ultimately show ?thesis using m(1) every_candidate_is_explained[OF m(1)] by blast
qed

end
