(* ===== verification/ContextStore.thy ===== *)
theory ContextStore
  imports ContextCompiler
begin

text \<open>
  \<open>internal/harness/contextv2/store.go\<close> and \<open>workspace.go\<close>: where compiled manifests are
  kept, what an operator is told about one, and how the candidates of a workspace are
  collected. The JSON codec is a parameter; the writes of \<open>SaveManifest\<close> may fail at each
  step. The directory scan reads the file system through \<open>os.ReadDir\<close> and \<open>os.Stat\<close>, its
  recursion is bounded by the depth limit of the code. The project memory, the code
  intelligence and the lexical scorer are other packages or files; their contributions are
  arguments of \<open>CompileWorkspace\<close>.
\<close>

section \<open>Where manifests are kept\<close>

definition ManifestDir :: "string \<Rightarrow> string" where
  "ManifestDir rt = path_join [rt, ''.prumo'', ''runtime'', ''harness'']"

definition ManifestPath :: "string \<Rightarrow> string \<Rightarrow> (id_error, string) outcome" where
  "ManifestPath rt runID = (case ValidateID runID of
     Some e \<Rightarrow> Inl e
   | None \<Rightarrow> Inr (path_join [ManifestDir rt, ''context-'' @ runID @ ''.json'']))"

definition NormalizeManifestRef :: "string \<Rightarrow> string" where
  "NormalizeManifestRef i = (let trimmed = trim_space i in
     if length trimmed \<ge> 4 \<and> equal_fold (take 4 trimmed) ''ctx-'' then drop 4 trimmed else trimmed)"

definition RunIDOf :: "Manifest \<Rightarrow> string" where
  "RunIDOf m = (if mf_RunID m \<noteq> [] then mf_RunID m else NormalizeManifestRef (mf_ID m))"

text \<open>How far a save gets: a failed write may leave part of the data in the temporary file.\<close>

datatype save_io = SaveDone | MkdirFails | WriteFails "string option" | MoveFails

datatype manifest_error = ManifestBadId id_error | ManifestIdRequired | ManifestMissing | ManifestCorrupt
  | MkdirError | WriteError | MoveError

type_synonym disk = "string \<rightharpoonup> string"

definition SaveManifest :: "(Manifest \<Rightarrow> string) \<Rightarrow> save_io \<Rightarrow> string \<Rightarrow> Manifest \<Rightarrow> disk
    \<Rightarrow> (manifest_error, string) outcome \<times> disk" where
  "SaveManifest enc io rt m disk =
     (case ManifestPath rt (RunIDOf m) of
        Inl e \<Rightarrow> (Inl (ManifestBadId e), disk)
      | Inr path \<Rightarrow>
          let tmp = path @ ''.tmp''; data = enc m @ ''\<newline>'' in
          (case io of
             MkdirFails \<Rightarrow> (Inl MkdirError, disk)
           | WriteFails part \<Rightarrow> (Inl WriteError, case part of None \<Rightarrow> disk | Some d \<Rightarrow> disk(tmp \<mapsto> d))
           | MoveFails \<Rightarrow> (Inl MoveError, disk(tmp \<mapsto> data))
           | SaveDone \<Rightarrow> (Inr path, (disk(tmp \<mapsto> data))(path \<mapsto> data, tmp := None))))"

definition LoadManifest :: "(string \<Rightarrow> Manifest option) \<Rightarrow> disk \<Rightarrow> string \<Rightarrow> string
    \<Rightarrow> (manifest_error, Manifest) outcome" where
  "LoadManifest dec disk rt i =
     (let runID = NormalizeManifestRef i in
      if runID = [] then Inl ManifestIdRequired
      else case ManifestPath rt runID of
        Inl e \<Rightarrow> Inl (ManifestBadId e)
      | Inr path \<Rightarrow>
          (case disk path of
             None \<Rightarrow> Inl ManifestMissing
           | Some data \<Rightarrow>
               (case dec data of
                  None \<Rightarrow> Inl ManifestCorrupt
                | Some m \<Rightarrow>
                    let m = (if mf_RunID m = [] then m\<lparr>mf_RunID := runID\<rparr> else m);
                        m = (if mf_ID m = [] then m\<lparr>mf_ID := ManifestID runID\<rparr> else m)
                    in Inr m)))"

section \<open>Explaining a manifest\<close>

record Sufficiency =
  sy_Required :: "string list"
  sy_Missing :: "string list"
  sy_Sufficient :: bool

fun sufficiency_loop :: "string set \<Rightarrow> string list \<Rightarrow> Sufficiency \<Rightarrow> Sufficiency" where
  "sufficiency_loop present [] v = v"
| "sufficiency_loop present (req # reqs) v =
     (let req = trim_space req in
      if req = [] then sufficiency_loop present reqs v
      else
        let v = v\<lparr>sy_Required := sy_Required v @ [req]\<rparr>;
            v = (if req \<notin> present then v\<lparr>sy_Missing := sy_Missing v @ [req], sy_Sufficient := False\<rparr> else v)
        in sufficiency_loop present reqs v)"

definition EvaluateSufficiency :: "Manifest \<Rightarrow> string list \<Rightarrow> Sufficiency" where
  "EvaluateSufficiency m required =
     (let v = sufficiency_loop (cx_Ref ` set (mf_Included m)) required
                \<lparr>sy_Required = [], sy_Missing = [], sy_Sufficient = True\<rparr>
      in v\<lparr>sy_Required := sort (sy_Required v), sy_Missing := sort (sy_Missing v)\<rparr>)"

record ExplainEntry =
  xe_Ref :: string
  xe_Reason :: string
  xe_Tokens :: int
  xe_Level :: Level
  xe_Truncated :: bool
  xe_Authority :: string

record Explanation =
  xn_ID :: string
  xn_RunID :: string
  xn_Level :: Level
  xn_Policy :: string
  xn_EstimatedTokens :: int
  xn_InstructionTokens :: int
  xn_Pressure :: string
  xn_Budget :: int
  xn_IncludedCount :: nat
  xn_Included :: "ExplainEntry list"
  xn_ExcludedCount :: nat
  xn_Excluded :: "Exclusion list"
  xn_ExclusionReasons :: "string \<rightharpoonup> nat"
  xn_Sufficiency :: Sufficiency
  xn_Notes :: "string list"

definition level_string :: "Level \<Rightarrow> string" where
  "level_string l = (case l of LevelPointer \<Rightarrow> ''L0'' | LevelSummary \<Rightarrow> ''L1'' | LevelOutline \<Rightarrow> ''L2''
     | LevelExcerpt \<Rightarrow> ''L3'' | LevelFull \<Rightarrow> ''L4'' | LevelOther s \<Rightarrow> s)"

text \<open>\<open>%.0f\<close> of \<open>100 * float64(a) / float64(b)\<close>.\<close>

definition percent0 :: "int \<Rightarrow> int \<Rightarrow> string" where
  "percent0 a b = (let f = fdiv (fmul 100 (f64 (of_int a))) (f64 (of_int b)) in
     (if f < 0 then ''-'' else []) @ itoa (round_even \<bar>f\<bar>))"

definition maxInt :: "int \<Rightarrow> int \<Rightarrow> int" where
  "maxInt a b = (if a > b then a else b)"

definition count_reason :: "(string \<rightharpoonup> nat) \<Rightarrow> Exclusion \<Rightarrow> (string \<rightharpoonup> nat)" where
  "count_reason f e = f(xc_Reason e \<mapsto> (case f (xc_Reason e) of Some k \<Rightarrow> k + 1 | None \<Rightarrow> 1))"

definition explain_entry :: "Item \<Rightarrow> ExplainEntry" where
  "explain_entry it = \<lparr>xe_Ref = cx_Ref it,
     xe_Reason = (if cx_Reason it = [] then ''unexplained selection'' else cx_Reason it),
     xe_Tokens = cx_TokenCost it, xe_Level = cx_Level it, xe_Truncated = cx_Truncated it,
     xe_Authority = cx_Authority it\<rparr>"

definition unexplained_notes :: "Item list \<Rightarrow> string list" where
  "unexplained_notes its = map (\<lambda>it. ''item '' @ cx_Ref it @ '' was included without a selection reason'')
     (filter (\<lambda>it. cx_Reason it = []) its)"

definition Explain :: "Manifest \<Rightarrow> int \<Rightarrow> string list \<Rightarrow> Explanation" where
  "Explain m budget required =
     (let suff = EvaluateSufficiency m required;
          notes = unexplained_notes (mf_Included m)
            @ (if budget > 0 then [''used '' @ itoa (mf_EstimatedTokens m) @ '' of '' @ itoa budget
                 @ '' tokens ('' @ percent0 (mf_EstimatedTokens m) budget @ ''%) at level '' @ level_string (mf_Level m)] else [])
            @ (if mf_InstructionTokens m > 0 then [itoa (mf_InstructionTokens m) @ '' tokens (''
                 @ percent0 (mf_InstructionTokens m) (maxInt (mf_EstimatedTokens m) 1)
                 @ ''% of the compilation) are agent instruction surfaces''] else [])
            @ (if sy_Missing suff \<noteq> [] then [''the compilation is not sufficient: ''
                 @ join '', '' (sy_Missing suff) @ '' absent''] else [])
      in \<lparr>xn_ID = (if mf_ID m = [] then ManifestID (mf_RunID m) else mf_ID m), xn_RunID = mf_RunID m,
          xn_Level = mf_Level m, xn_Policy = mf_Policy m, xn_EstimatedTokens = mf_EstimatedTokens m,
          xn_InstructionTokens = mf_InstructionTokens m, xn_Pressure = mf_Pressure m, xn_Budget = budget,
          xn_IncludedCount = length (mf_Included m),
          xn_Included = sort_key xe_Ref (map explain_entry (mf_Included m)),
          xn_ExcludedCount = length (mf_Excluded m),
          xn_Excluded = sort_exclusions (mf_Excluded m),
          xn_ExclusionReasons = foldl count_reason (\<lambda>_. None) (mf_Excluded m),
          xn_Sufficiency = suff, xn_Notes = notes\<rparr>)"

section \<open>The candidates of a workspace\<close>

datatype scan_stat = ScanError | ScanDir | ScanFile int string

record scan_fs =
  sf_readdir :: "string \<Rightarrow> string list option"
  sf_stat :: "string \<Rightarrow> scan_stat"
  sf_read :: "string \<Rightarrow> string option"

definition instructionRefNames :: "string list" where
  "instructionRefNames = [''AGENTS.md'', ''CLAUDE.md'', ''ENTRYPOINT.md'']"

definition isInstructionSurface :: "string \<Rightarrow> bool" where
  "isInstructionSurface ref \<longleftrightarrow> list_ex (\<lambda>name. ref = name) instructionRefNames
     \<or> contains_str ref ''.github/copilot-instructions'' \<or> contains_str ref ''.cursor/rules/''"

definition entrypoints :: "string list" where
  "entrypoints = [''ENTRYPOINT.md'', ''AGENTS.md'', ''README.md'', ''prumo.json'', ''go.mod'']"

text \<open>Sizes are non-negative, so Go's division is \<open>div\<close>.\<close>

definition cappedEstimate :: "int \<Rightarrow> int" where
  "cappedEstimate sz = (let n = sz div 4; n = (if n < 1 then 1 else n) in if n > 2000 then 2000 else n)"

definition base_item :: Item where
  "base_item = \<lparr>cx_Ref = [], cx_Authority = [], cx_Trust = [], cx_Privacy = [], cx_Freshness = [],
     cx_Rev = [], cx_Score = 0, cx_Method = [], cx_TokenCost = 0, cx_Content = [], cx_DependsOn = [],
     cx_Reason = [], cx_Projection = False, cx_CanonicalSource = [], cx_Level = LevelOther [],
     cx_Truncated = False\<rparr>"

definition entrypoint_item :: "scan_fs \<Rightarrow> string \<Rightarrow> string \<Rightarrow> Item list" where
  "entrypoint_item fs rt name =
     (let p = path_join [rt, name] in
      case sf_stat fs p of
        ScanFile sz mtime \<Rightarrow>
          [base_item\<lparr>cx_Ref := name, cx_Authority := ''canonical'', cx_Trust := ''high'',
             cx_Privacy := ''internal'', cx_Freshness := mtime, cx_Score := f64 (9/10), cx_Method := ''exact'',
             cx_TokenCost := cappedEstimate sz,
             cx_Content := (if sz \<le> 2 ^ 18 then (case sf_read fs p of Some d \<Rightarrow> d | None \<Rightarrow> []) else []),
             cx_Reason := ''repository entry point''\<rparr>]
      | _ \<Rightarrow> [])"

definition entrypointItems :: "scan_fs \<Rightarrow> string \<Rightarrow> Item list" where
  "entrypointItems fs rt = concat (map (entrypoint_item fs rt) entrypoints)"

definition trim_quotes :: "string \<Rightarrow> string" where
  "trim_quotes s = TrimRight1 (dropWhile (\<lambda>c. c = CHR 0x22) s) (CHR 0x22)"

text \<open>One line of \<open>git status --short\<close>; \<open>None\<close> for a line that names no file.\<close>

definition git_line :: "string \<Rightarrow> string option" where
  "git_line line =
     (if length line < 4 then None
      else
        let name = trim_space (drop 2 line);
            name = (case index_of name '' -> '' of Some i \<Rightarrow> drop (i + 4) name | None \<Rightarrow> name);
            name = trim_quotes name
        in if name \<noteq> [] then Some name else None)"

definition gitModified :: "string option \<Rightarrow> string set" where
  "gitModified output = (case output of
     None \<Rightarrow> {}
   | Some data \<Rightarrow> set (List.map_filter git_line (split_on (CHR ''\<newline>'') data)))"

definition skipDirs :: "string list" where
  "skipDirs = [''.git'', ''node_modules'', ''.prumo'', ''target'', ''dist'', ''.venv'']"

definition maxScanDepth :: nat where "maxScanDepth = 4"
definition maxScanFiles :: nat where "maxScanFiles = 50"
definition maxScanBytes :: int where "maxScanBytes = 2 ^ 20"

definition documentationScore :: "string \<Rightarrow> rat" where
  "documentationScore rel =
     (if has_prefix rel ''docs/'' \<and> (has_suffix rel ''.md'' \<or> has_suffix rel ''.json'') then f64 (7/10) else 1/2)"

definition visible_name :: "string \<Rightarrow> bool" where
  "visible_name name \<longleftrightarrow> \<not> (name \<in> set skipDirs \<or> (has_prefix name ''.'' \<and> name \<noteq> ''.''))"

definition file_item :: "string set \<Rightarrow> string \<Rightarrow> int \<Rightarrow> string \<Rightarrow> Item" where
  "file_item modified rel sz mtime =
     (let reason = (if has_prefix rel ''docs/'' then ''documentation file'' else ''workspace file'') in
      base_item\<lparr>cx_Ref := ''file:'' @ rel, cx_Authority := ''reference'', cx_Trust := ''medium'',
        cx_Privacy := ''internal'', cx_Freshness := mtime, cx_Method := ''structured'',
        cx_Score := (if rel \<in> modified then f64 (8/10) else documentationScore rel),
        cx_TokenCost := cappedEstimate sz,
        cx_Reason := (if rel \<in> modified then ''recently modified '' @ reason else reason)\<rparr>)"

text \<open>\<open>count\<close>, \<open>seen\<close> and \<open>out\<close>, captured by the closure \<open>walk\<close>.\<close>

record scan_state =
  sn_count :: nat
  sn_seen :: "string set"
  sn_out :: "Item list"

text \<open>The loop over the sorted names of one directory; \<open>rec\<close> is the recursive call of \<open>walk\<close>.\<close>

fun scan_names :: "(string \<Rightarrow> string \<Rightarrow> scan_state \<Rightarrow> scan_state) \<Rightarrow> scan_fs \<Rightarrow> string set \<Rightarrow> string \<Rightarrow> string
    \<Rightarrow> string list \<Rightarrow> scan_state \<Rightarrow> scan_state" where
  "scan_names rec fs modified dir pre [] st = st"
| "scan_names rec fs modified dir pre (name # names) st =
     (if sn_count st \<ge> maxScanFiles then st
      else
        let full = path_join [dir, name];
            rel = (if pre \<noteq> [] then path_join [pre, name] else name)
        in if rel \<in> sn_seen st then scan_names rec fs modified dir pre names st
           else case sf_stat fs full of
             ScanError \<Rightarrow> scan_names rec fs modified dir pre names st
           | ScanDir \<Rightarrow> scan_names rec fs modified dir pre names (rec full rel st)
           | ScanFile sz mtime \<Rightarrow>
               if sz > maxScanBytes then scan_names rec fs modified dir pre names st
               else scan_names rec fs modified dir pre names
                 \<lparr>sn_count = sn_count st + 1, sn_seen = insert rel (sn_seen st),
                  sn_out = sn_out st @ [file_item modified rel sz mtime]\<rparr>)"

text \<open>\<open>walk\<close> with the levels left, \<open>maxScanDepth + 1 - depth\<close>; at zero the depth exceeds the limit.\<close>

fun scan_walk :: "nat \<Rightarrow> scan_fs \<Rightarrow> string set \<Rightarrow> string \<Rightarrow> string \<Rightarrow> scan_state \<Rightarrow> scan_state" where
  "scan_walk 0 fs modified dir pre st = st"
| "scan_walk (Suc left) fs modified dir pre st =
     (if sn_count st \<ge> maxScanFiles then st
      else case sf_readdir fs dir of
        None \<Rightarrow> st
      | Some entries \<Rightarrow>
          scan_names (scan_walk left fs modified) fs modified dir pre (sort (filter visible_name entries)) st)"

definition fileItems :: "scan_fs \<Rightarrow> string \<Rightarrow> string set \<Rightarrow> Item list" where
  "fileItems fs rt modified =
     sn_out (scan_walk maxScanDepth fs modified rt [] \<lparr>sn_count = 0, sn_seen = {}, sn_out = []\<rparr>)"

definition goal_item :: "string \<Rightarrow> Item" where
  "goal_item goal = base_item\<lparr>cx_Ref := ''goal'', cx_Authority := ''canonical'', cx_Trust := ''high'',
     cx_Privacy := ''internal'', cx_Freshness := ''current'', cx_Score := 1, cx_Method := ''exact'',
     cx_TokenCost := EstimateTokens goal [], cx_Content := goal, cx_Reason := ''the run goal''\<rparr>"

definition boost_item :: "(string \<times> rat) \<Rightarrow> Item \<Rightarrow> Item" where
  "boost_item b it = (if cx_Ref it \<noteq> fst b then it
     else it\<lparr>cx_Score := fadd (cx_Score it) (snd b),
             cx_Reason := joinReason (cx_Reason it) ''lexically matched the goal''\<rparr>)"

text \<open>
  \<open>absRoot\<close> is the absolute root, \<open>extra\<close> what the project memory and the code
  intelligence add, \<open>boost\<close> the lexical bonus of the references as a map in iteration order.
\<close>

definition workspace_candidates :: "scan_fs \<Rightarrow> string option \<Rightarrow> Item list \<Rightarrow> (Item list \<Rightarrow> (string, rat) gomap)
    \<Rightarrow> string \<Rightarrow> string \<Rightarrow> Item list" where
  "workspace_candidates fs gitOut extra boost goal absRoot =
     (let candidates = goal_item goal # entrypointItems fs absRoot @ fileItems fs absRoot (gitModified gitOut);
          eligible = filter (\<lambda>it. Eligible it ''reference'' False) candidates @ extra
      in foldl (\<lambda>its b. map (boost_item b) its) eligible (boost eligible))"

definition CompileWorkspace :: "nat \<Rightarrow> string \<Rightarrow> scan_fs \<Rightarrow> string option \<Rightarrow> Item list
    \<Rightarrow> (Item list \<Rightarrow> (string, rat) gomap) \<Rightarrow> string \<Rightarrow> string \<Rightarrow> string \<Rightarrow> int \<Rightarrow> string \<Rightarrow> Manifest option" where
  "CompileWorkspace fuel stamp fs gitOut extra boost runID goal absRoot budget level =
     (let budget = (if budget \<le> 0 then 8000 else budget);
          level = (if level = [] then ''L1'' else level)
      in if sf_stat fs absRoot \<noteq> ScanDir then Compile fuel stamp runID [goal_item goal] budget level
         else map_option (\<lambda>m. m\<lparr>mf_InstructionTokens :=
             sum_list (map cx_TokenCost (filter (\<lambda>it. isInstructionSurface (cx_Ref it)) (mf_Included m)))\<rparr>)
           (CompileWithPolicy fuel stamp runID (workspace_candidates fs gitOut extra boost goal absRoot)
             \<lparr>cp_Budget = budget, cp_Level = ParseLevel level, cp_Policy = ''workspace-v2'',
              cp_InstructionTokens = 0\<rparr>))"

section \<open>Saving is atomic\<close>

lemma split_on_sep: "split_on d (a @ d # b) = split_on d a @ split_on d b"
proof (induction a)
  case (Cons c a)
  obtain w ws where "split_on d a = w # ws" by (cases "split_on d a") auto
  with Cons show ?case by auto
qed simp

lemma clean_comps_name:
  assumes "d \<noteq> []" "is_name c"
  shows "clean_comps (d @ CHR ''/'' # c) = clean_comps d @ [c]" "is_abs (d @ CHR ''/'' # c) = is_abs d"
proof -
  show abs: "is_abs (d @ CHR ''/'' # c) = is_abs d" using assms(1) by (cases d) (auto simp: is_abs_def has_prefix_def)
  have "split_on (CHR ''/'') c = [c]" using assms(2) by (simp add: split_on_single is_name_def)
  then show "clean_comps (d @ CHR ''/'' # c) = clean_comps d @ [c]"
    using assms(2) by (simp add: clean_comps_def abs split_on_sep clean_step_def is_name_def)
qed

lemma path_join_name:
  assumes "d \<noteq> []"
  shows "\<exists>pre. \<forall>c. is_name c \<longrightarrow> path_join [d, c] = pre @ c"
proof -
  let ?cs = "clean_comps d"
  have "path_join [d, c] = ((if is_abs d then ''/'' else []) @ (if ?cs = [] then [] else join ''/'' ?cs @ ''/'')) @ c"
    if "is_name c" for c
    using assms that clean_comps_name[OF assms that]
    by (auto simp: path_join_def path_clean_def path_string_def is_name_def join_app)
  then show ?thesis by blast
qed

lemma id_char_plain: "id_char c \<Longrightarrow> plain_char c"
  by (auto simp: id_char_def plain_char_def Let_def)

lemma manifest_name: "ValidateID r = None \<Longrightarrow> is_name (''context-'' @ r @ ''.json'')"
  using id_char_not_special by (auto simp: ValidateID_None is_name_def list_all_iff)

lemma ManifestDir_nonempty: "ManifestDir rt \<noteq> []"
proof -
  let ?es = "filter (\<lambda>e. e \<noteq> []) [rt, ''.prumo'', ''runtime'', ''harness'']"
  have "path_string r cs \<noteq> []" if "list_all is_comp cs" for r cs
    using that by (induction "''/''" cs rule: join.induct) (auto simp: path_string_def is_comp_def is_name_def)
  then have "path_clean p \<noteq> []" for p
    using clean_comps_comp by (simp add: path_clean_def list_all_iff)
  then show ?thesis by (simp add: ManifestDir_def path_join_def Let_def)
qed

text \<open>Manifests of different runs are different files, and no manifest is another's temporary file.\<close>

lemma manifest_paths:
  assumes "ManifestPath rt a = Inr p" "ManifestPath rt b = Inr q"
  shows "p = q \<longleftrightarrow> a = b" "p \<noteq> q @ ''.tmp''"
proof -
  obtain pre where pre: "is_name c \<Longrightarrow> path_join [ManifestDir rt, c] = pre @ c" for c
    using path_join_name[OF ManifestDir_nonempty] by blast
  have "ValidateID a = None" "ValidateID b = None" using assms by (auto simp: ManifestPath_def split: option.splits)
  then have p: "p = pre @ ''context-'' @ a @ ''.json''" "q = pre @ ''context-'' @ b @ ''.json''"
    using assms pre[OF manifest_name] by (auto simp: ManifestPath_def)
  then show "p = q \<longleftrightarrow> a = b" by simp
  have "last p = CHR ''n''" "last (q @ ''.tmp'') = CHR ''p''" by (simp_all add: p)
  then show "p \<noteq> q @ ''.tmp''" by force
qed

lemma NormalizeManifestRef_id:
  assumes "ValidateID r = None"
  shows "NormalizeManifestRef (ManifestID r) = r"
proof -
  have r: "r \<noteq> []" "list_all id_char r" using assms by (auto simp: ValidateID_None)
  then have "trim_space (''CTX-'' @ r) = ''CTX-'' @ r"
    by (intro trim_space_ends) (auto simp: list_all_iff intro: id_char_plain; simp add: plain_char_def)+
  moreover have "equal_fold ''CTX-'' ''ctx-''" by code_simp
  ultimately show ?thesis by (simp add: NormalizeManifestRef_def ManifestID_def)
qed

lemma load_after_save_other:
  assumes "NormalizeManifestRef i \<noteq> RunIDOf m" "SaveManifest enc io rt m disk = (res, disk')"
  shows "LoadManifest dec disk' rt i = LoadManifest dec disk rt i"
proof (cases "ManifestPath rt (NormalizeManifestRef i)")
  case (Inr p)
  have "disk' p = disk p"
  proof (cases "ManifestPath rt (RunIDOf m)")
    case (Inr q)
    have "p \<noteq> q" "p \<noteq> q @ ''.tmp''" using manifest_paths[OF \<open>ManifestPath rt (NormalizeManifestRef i) = Inr p\<close> Inr] assms(1) by auto
    with assms(2) Inr show ?thesis by (auto simp: SaveManifest_def Let_def split: save_io.splits option.splits)
  qed (use assms(2) in \<open>auto simp: SaveManifest_def\<close>)
  with Inr show ?thesis by (simp add: LoadManifest_def Let_def)
qed (simp add: LoadManifest_def Let_def)

lemma load_after_save:
  assumes dec: "dec (enc m @ ''\<newline>'') = Some m" and m: "mf_RunID m = r" "mf_ID m = ManifestID r" "ValidateID r = None"
    and save: "SaveManifest enc io rt m disk = (res, disk')"
  shows "LoadManifest dec disk' rt (ManifestID r) =
    (case res of Inl _ \<Rightarrow> LoadManifest dec disk rt (ManifestID r) | Inr _ \<Rightarrow> Inr m)"
proof -
  have r: "r \<noteq> []" "NormalizeManifestRef (ManifestID r) = r" "RunIDOf m = r"
    using m NormalizeManifestRef_id by (auto simp: RunIDOf_def ValidateID_None)
  obtain p where p: "ManifestPath rt r = Inr p" using m(3) by (simp add: ManifestPath_def)
  have mid: "mf_ID m \<noteq> []" by (simp add: m(2) ManifestID_def)
  show ?thesis
  proof (cases res)
    case (Inl e)
    then have "disk' p = disk p" using save p r(3) by (auto simp: SaveManifest_def Let_def split: save_io.splits option.splits)
    with Inl p r show ?thesis by (simp add: LoadManifest_def Let_def)
  next
    case (Inr q)
    then have "disk' p = Some (enc m @ ''\<newline>'')"
      using save p r(3) by (auto simp: SaveManifest_def Let_def split: save_io.splits)
    with Inr p r dec m(1) mid show ?thesis by (simp add: LoadManifest_def Let_def)
  qed
qed

section \<open>Sufficiency\<close>

lemma sufficiency_loop_facts:
  "let v' = sufficiency_loop present reqs v; asked = filter (\<lambda>r. r \<noteq> []) (map trim_space reqs) in
   sy_Required v' = sy_Required v @ asked \<and>
   sy_Missing v' = sy_Missing v @ filter (\<lambda>r. r \<notin> present) asked \<and>
   sy_Sufficient v' = (sy_Sufficient v \<and> set asked \<subseteq> present)"
  by (induction present reqs v rule: sufficiency_loop.induct) (auto simp: Let_def)

lemma sort_Nil: "sort xs = [] \<longleftrightarrow> xs = []"
  by (metis set_empty set_sort)

lemma sufficiency_is_coverage:
  "sy_Sufficient (EvaluateSufficiency m required) \<longleftrightarrow>
     (\<forall>r\<in>set required. trim_space r \<noteq> [] \<longrightarrow> trim_space r \<in> cx_Ref ` set (mf_Included m))"
  "sy_Missing (EvaluateSufficiency m required) = [] \<longleftrightarrow> sy_Sufficient (EvaluateSufficiency m required)"
  using sufficiency_loop_facts[of "cx_Ref ` set (mf_Included m)" required "\<lparr>sy_Required = [], sy_Missing = [], sy_Sufficient = True\<rparr>"]
  by (auto simp: EvaluateSufficiency_def Let_def filter_empty_conv sort_Nil)

text \<open>The reasons counted in an explanation are those of its exclusions.\<close>

lemma count_reason_fold:
  "foldl count_reason f es r =
     (case length (filter (\<lambda>e. xc_Reason e = r) es) of 0 \<Rightarrow> f r
      | Suc k \<Rightarrow> Some (Suc k + (case f r of Some j \<Rightarrow> j | None \<Rightarrow> 0)))"
  by (induction es arbitrary: f) (auto simp: count_reason_def split: nat.splits option.splits)

section \<open>The directory scan is bounded\<close>

definition scan_ok :: "scan_state \<Rightarrow> bool" where
  "scan_ok st \<longleftrightarrow> sn_count st = length (sn_out st) \<and> sn_count st \<le> maxScanFiles \<and>
     distinct (map cx_Ref (sn_out st)) \<and> cx_Ref ` set (sn_out st) = (@) ''file:'' ` sn_seen st"

text \<open>The components of a scanned path: visible names, at most as many as the depth limit.\<close>

definition scan_path :: "nat \<Rightarrow> string \<Rightarrow> bool" where
  "scan_path k rel \<longleftrightarrow> (\<exists>cs. rel = join ''/'' cs \<and> cs \<noteq> [] \<and> length cs \<le> k \<and> list_all (\<lambda>c. is_name c \<and> visible_name c) cs)"

definition scanned_item :: "Item \<Rightarrow> bool" where
  "scanned_item it \<longleftrightarrow> (\<exists>rel modified sz mtime. it = file_item modified rel sz mtime \<and> sz \<le> maxScanBytes \<and> scan_path maxScanDepth rel)"

definition entries_ok :: "scan_fs \<Rightarrow> bool" where
  "entries_ok fs \<longleftrightarrow> (\<forall>d ns. sf_readdir fs d = Some ns \<longrightarrow> list_all is_name ns)"

lemma file_item_ref [simp]: "cx_Ref (file_item modified rel sz mtime) = ''file:'' @ rel"
  by (simp add: file_item_def Let_def)

lemma join_names: "list_all is_name cs \<Longrightarrow> cs \<noteq> [] \<Longrightarrow> is_name c \<Longrightarrow>
   path_join [join ''/'' cs, c] = join ''/'' (cs @ [c])"
proof -
  assume cs: "list_all is_name cs" "cs \<noteq> []" and c: "is_name c"
  have ne: "join ''/'' cs \<noteq> []" using cs by (cases cs; cases "tl cs") (auto simp: is_name_def)
  have abs: "\<not> is_abs (join ''/'' cs)" using hd_join_name[of "hd cs" "tl cs"] cs is_name_comp by (cases cs) auto
  have cc: "clean_comps (join ''/'' cs @ CHR ''/'' # c) = cs @ [c]"
    using clean_comps_name(1)[OF ne c] clean_comps_rel_names[OF cs(1)] by simp
  have "\<not> is_abs (join ''/'' cs @ CHR ''/'' # c)" using clean_comps_name(2)[OF ne c] abs by simp
  with ne c cc show ?thesis by (simp add: path_join_def path_clean_def path_string_def is_name_def)
qed

text \<open>\<open>pre\<close> is the relative path of a directory at depth \<open>k\<close>: empty for the root, else \<open>k\<close> components.\<close>

definition dir_prefix :: "nat \<Rightarrow> string \<Rightarrow> bool" where
  "dir_prefix k pre \<longleftrightarrow> (\<exists>cs. pre = join ''/'' cs \<and> length cs = k \<and> list_all (\<lambda>c. is_name c \<and> visible_name c) cs)"

lemma dir_prefix_step:
  assumes "dir_prefix k pre" "is_name name" "visible_name name"
  shows "dir_prefix (Suc k) (if pre \<noteq> [] then path_join [pre, name] else name)"
proof -
  obtain cs where cs: "pre = join ''/'' cs" "length cs = k" "list_all (\<lambda>c. is_name c \<and> visible_name c) cs"
    using assms(1) by (auto simp: dir_prefix_def)
  have names: "list_all is_name cs" using cs(3) by (simp add: list_all_iff)
  have empty: "pre = [] \<longleftrightarrow> cs = []" using cs(1) names by (cases cs; cases "tl cs") (auto simp: is_name_def)
  have "(if pre \<noteq> [] then path_join [pre, name] else name) = join ''/'' (cs @ [name])"
    using join_names[OF names _ assms(2)] empty cs(1) by auto
  with cs assms(2,3) show ?thesis unfolding dir_prefix_def by (intro exI[of _ "cs @ [name]"]) simp
qed

definition scan_inv :: "scan_state \<Rightarrow> bool" where
  "scan_inv st \<longleftrightarrow> scan_ok st \<and> (\<forall>it\<in>set (sn_out st). scanned_item it)"

lemma scan_inv_add:
  assumes "scan_inv st" "sn_count st < maxScanFiles" "rel \<notin> sn_seen st" "sz \<le> maxScanBytes" "scan_path maxScanDepth rel"
  shows "scan_inv \<lparr>sn_count = sn_count st + 1, sn_seen = insert rel (sn_seen st),
    sn_out = sn_out st @ [file_item modified rel sz mtime]\<rparr>"
proof -
  have "''file:'' @ rel \<notin> cx_Ref ` set (sn_out st)" using assms(1,3) by (auto simp: scan_inv_def scan_ok_def)
  moreover have "scanned_item (file_item modified rel sz mtime)" using assms(4,5) by (auto simp: scanned_item_def)
  ultimately show ?thesis using assms(1,2) by (auto simp: scan_inv_def scan_ok_def)
qed

lemma scan_names_inv:
  assumes rec: "\<forall>full rel st. dir_prefix (Suc k) rel \<longrightarrow> scan_inv st \<longrightarrow> scan_inv (rec full rel st)"
    and pre: "dir_prefix k pre" "Suc k \<le> maxScanDepth"
  shows "list_all (\<lambda>c. is_name c \<and> visible_name c) names \<Longrightarrow> scan_inv st \<Longrightarrow>
    scan_inv (scan_names rec fs modified dir pre names st)"
proof (induction names arbitrary: st)
  case (Cons name names)
  define rel where "rel = (if pre \<noteq> [] then path_join [pre, name] else name)"
  note step = scan_names.simps(2)[of rec fs modified dir pre name names st, unfolded Let_def, folded rel_def]
  have rel: "dir_prefix (Suc k) rel" using dir_prefix_step[OF pre(1)] Cons.prems(1) by (simp add: rel_def)
  then have path: "scan_path maxScanDepth rel"
    using pre(2) unfolding dir_prefix_def scan_path_def by (metis Zero_not_Suc list.size(3))
  have IH: "scan_inv s \<Longrightarrow> scan_inv (scan_names rec fs modified dir pre names s)" for s
    using Cons.IH Cons.prems(1) by simp
  have rec': "scan_inv (rec (path_join [dir, name]) rel st)" using rec rel Cons.prems(2) by blast
  show ?case
  proof (cases "sn_count st \<ge> maxScanFiles \<or> rel \<in> sn_seen st")
    case True
    with IH[OF Cons.prems(2)] Cons.prems(2) show ?thesis unfolding step by (simp only: if_True split: if_split) blast
  next
    case False
    have add: "scan_inv (scan_names rec fs modified dir pre names
        \<lparr>sn_count = sn_count st + 1, sn_seen = insert rel (sn_seen st), sn_out = sn_out st @ [file_item modified rel sz mtime]\<rparr>)"
      if "\<not> sz > maxScanBytes" for sz mtime
      by (rule IH[OF scan_inv_add[OF Cons.prems(2) _ _ _ path]]) (use False that in simp_all)
    show ?thesis unfolding step using False IH[OF Cons.prems(2)] IH[OF rec'] add
      by (simp split: scan_stat.split)
  qed
qed simp

lemma scan_walk_inv:
  assumes fs: "entries_ok fs"
  shows "left \<le> maxScanDepth \<Longrightarrow> dir_prefix (maxScanDepth - left) pre \<Longrightarrow> scan_inv st \<Longrightarrow>
    scan_inv (scan_walk left fs modified dir pre st)"
proof (induction left arbitrary: dir pre st)
  case (Suc left)
  let ?k = "maxScanDepth - Suc left"
  have k: "Suc ?k = maxScanDepth - left" using Suc.prems(1) by simp
  have rec: "\<forall>full rel st. dir_prefix (Suc ?k) rel \<longrightarrow> scan_inv st \<longrightarrow> scan_inv (scan_walk left fs modified full rel st)"
    using Suc.IH Suc.prems(1) unfolding k by simp
  have "scan_inv (scan_names (scan_walk left fs modified) fs modified dir pre (sort (filter visible_name es)) st)"
    if "sf_readdir fs dir = Some es" for es
    by (rule scan_names_inv[OF rec Suc.prems(2) _ _ Suc.prems(3)])
       (use that fs Suc.prems(1) in \<open>auto simp: entries_ok_def list_all_iff\<close>)
  with Suc.prems(3) show ?case by (auto split: option.split)
qed simp

text \<open>
  Whatever the directory tree holds, cyclic links included, the scan yields at most fifty
  distinct files, at most four levels deep, none hidden or below a skipped directory.
\<close>

lemma scan_is_bounded:
  assumes "entries_ok fs"
  shows "length (fileItems fs rt modified) \<le> 50 \<and> distinct (map cx_Ref (fileItems fs rt modified)) \<and>
    (\<forall>it\<in>set (fileItems fs rt modified). scanned_item it)"
proof -
  have "scan_inv (scan_walk maxScanDepth fs modified rt [] \<lparr>sn_count = 0, sn_seen = {}, sn_out = []\<rparr>)"
    by (rule scan_walk_inv[OF assms]) (simp_all add: dir_prefix_def scan_inv_def scan_ok_def)
  then show ?thesis by (simp add: fileItems_def scan_inv_def scan_ok_def maxScanFiles_def)
qed

section \<open>A workspace compilation returns\<close>

lemma no_deps_acyclic: "\<forall>x\<in>set xs. cx_DependsOn x = [] \<Longrightarrow> acyclic (dep_rel (by_ref xs))"
proof -
  assume "\<forall>x\<in>set xs. cx_DependsOn x = []"
  then have "dep_rel (by_ref xs) = {}" by (auto simp: dep_rel_def dest: by_ref_Some)
  then show ?thesis by (simp add: acyclic_def)
qed

lemma compile_without_deps:
  assumes "\<forall>x\<in>set candidates. cx_DependsOn x = []"
  shows "CompileWithPolicy (length candidates) stamp runID candidates policy \<noteq> None"
proof -
  obtain kept exc where d: "DeduplicatePreferCanonical candidates = (kept, exc)" by fastforce
  then obtain es where "dedup_loop (canonicalPresent candidates) {} candidates = (kept, es)" using dedup_eq by blast
  then have "set kept \<subseteq> set candidates" using dedup_loop_kept by blast
  then have "\<forall>x\<in>set (disclosed_items candidates policy). cx_DependsOn x = []"
    using assms by (auto simp: disclosed_items_def d)
  then show ?thesis unfolding compile_pack by (intro pack_returns no_deps_acyclic order_refl)
qed

lemma boost_fold_deps:
  "\<forall>it\<in>set its. cx_DependsOn it = [] \<Longrightarrow> \<forall>it\<in>set (foldl (\<lambda>its b. map (boost_item b) its) its bs). cx_DependsOn it = []"
proof (induction bs arbitrary: its)
  case (Cons b bs)
  have "\<forall>it\<in>set (map (boost_item b) its). cx_DependsOn it = []" using Cons.prems by (auto simp: boost_item_def)
  from Cons.IH[OF this] show ?case by simp
qed simp

lemma file_items_deps: "it \<in> set (fileItems fs rt modified) \<Longrightarrow> entries_ok fs \<Longrightarrow> cx_DependsOn it = []"
  using scan_is_bounded[of fs rt modified] by (auto simp: scanned_item_def file_item_def base_item_def Let_def)

lemma entrypoint_deps: "it \<in> set (entrypointItems fs rt) \<Longrightarrow> cx_DependsOn it = []"
  by (auto simp: entrypointItems_def entrypoint_item_def base_item_def Let_def split: scan_stat.splits)

lemma workspace_candidates_deps:
  assumes "entries_ok fs" "\<forall>it\<in>set extra. cx_DependsOn it = []"
  shows "\<forall>it\<in>set (workspace_candidates fs gitOut extra boost goal absRoot). cx_DependsOn it = []"
  unfolding workspace_candidates_def Let_def
  by (rule boost_fold_deps) (use assms file_items_deps entrypoint_deps in \<open>auto simp: goal_item_def base_item_def\<close>)

text \<open>
  No producer declares dependencies, so compiling a workspace always returns a manifest, and
  the manifest fits the budget.
\<close>

lemma workspace_compiles:
  assumes "entries_ok fs" "\<forall>it\<in>set extra. cx_DependsOn it = []"
  shows "\<exists>n m. CompileWorkspace n stamp fs gitOut extra boost runID goal absRoot budget level = Some m \<and>
    mf_EstimatedTokens m \<le> (if budget \<le> 0 then 8000 else budget) \<and>
    mf_EstimatedTokens m = sum_list (map cx_TokenCost (mf_Included m))"
proof (cases "sf_stat fs absRoot = ScanDir")
  case False
  have "cx_DependsOn (goal_item goal) = []" by (simp add: goal_item_def base_item_def)
  then obtain m where m: "CompileWithPolicy (length [goal_item goal]) stamp runID [goal_item goal]
      \<lparr>cp_Budget = (if budget \<le> 0 then 8000 else budget), cp_Level = ParseLevel (if level = [] then ''L1'' else level),
       cp_Policy = [], cp_InstructionTokens = 0\<rparr> = Some m"
    using compile_without_deps[of "[goal_item goal]"] by fastforce
  from compile_facts(2,3)[OF m] False m show ?thesis
    by (intro exI[of _ "length [goal_item goal]"]) (auto simp: CompileWorkspace_def Compile_def Let_def effective_budget_def)
next
  case True
  let ?cs = "workspace_candidates fs gitOut extra boost goal absRoot"
  obtain m where m: "CompileWithPolicy (length ?cs) stamp runID ?cs
      \<lparr>cp_Budget = (if budget \<le> 0 then 8000 else budget), cp_Level = ParseLevel (if level = [] then ''L1'' else level),
       cp_Policy = ''workspace-v2'', cp_InstructionTokens = 0\<rparr> = Some m"
    using compile_without_deps[OF workspace_candidates_deps[OF assms]] by blast
  from compile_facts(2,3)[OF m] True m show ?thesis
    by (intro exI[of _ "length ?cs"]) (auto simp: CompileWorkspace_def Let_def effective_budget_def)
qed

section \<open>The property\<close>

text \<open>
  C13: saving a manifest is atomic: whether the directory, the write or the rename fails, and
  whatever a failed write leaves behind, loading the run afterwards gives the new manifest
  when the save reported success and the previous state of the run when it did not, and
  every other run loads as before.
\<close>

theorem manifest_save_is_atomic:
  assumes dec: "dec (enc m @ ''\<newline>'') = Some m"
    and m: "mf_RunID m = r" "mf_ID m = ManifestID r" "ValidateID r = None"
    and save: "SaveManifest enc io rt m disk = (res, disk')"
  shows "LoadManifest dec disk' rt (ManifestID r) =
      (case res of Inl _ \<Rightarrow> LoadManifest dec disk rt (ManifestID r) | Inr _ \<Rightarrow> Inr m) \<and>
    (\<forall>i. NormalizeManifestRef i \<noteq> r \<longrightarrow> LoadManifest dec disk' rt i = LoadManifest dec disk rt i) \<and>
    (is_ok res \<longleftrightarrow> io = SaveDone)"
proof -
  have r: "RunIDOf m = r" using m by (simp add: RunIDOf_def ValidateID_None)
  obtain p where "ManifestPath rt r = Inr p" using m(3) by (simp add: ManifestPath_def)
  then have "is_ok res \<longleftrightarrow> io = SaveDone"
    using save r by (auto simp: SaveManifest_def Let_def split: save_io.splits option.splits)
  with load_after_save[where dec = dec and enc = enc and m = m, OF dec m save] load_after_save_other[OF _ save] r show ?thesis by auto
qed

definition sample_manifest :: Manifest where
  "sample_manifest = \<lparr>mf_Version = 2, mf_ID = ''CTX-R1'', mf_RunID = ''R1'', mf_CreatedAt = [],
     mf_Included = [], mf_Excluded = [], mf_EstimatedTokens = 0, mf_Pressure = ''healthy'',
     mf_Level = LevelSummary, mf_InstructionTokens = 0, mf_Policy = []\<rparr>"

lemma manifest_save_is_atomic_witness:
  "let save = (\<lambda>io. SaveManifest (\<lambda>_. ''json'') io ''/w'' sample_manifest (\<lambda>_. None));
       load = (\<lambda>d. LoadManifest (\<lambda>_. Some sample_manifest) d ''/w'' ''CTX-R1'')
   in load (snd (save SaveDone)) = Inr sample_manifest \<and>
      load (snd (save (WriteFails (Some ''js'')))) = load (\<lambda>_. None)"
proof -
  have m: "mf_RunID sample_manifest = ''R1''" "mf_ID sample_manifest = ManifestID ''R1''" "ValidateID ''R1'' = None"
    by code_simp+
  have i: "ManifestID ''R1'' = ''CTX-R1''" by (simp add: ManifestID_def)
  let ?save = "\<lambda>io. SaveManifest (\<lambda>_. ''json'') io ''/w'' sample_manifest (\<lambda>_. None)"
  note atomic = manifest_save_is_atomic[where dec = "\<lambda>_. Some sample_manifest" and enc = "\<lambda>_. ''json''"
      and disk = "\<lambda>_. None" and rt = "''/w''", OF refl m, unfolded i]
  obtain res1 d1 where s1: "?save SaveDone = (res1, d1)" by fastforce
  obtain res2 d2 where s2: "?save (WriteFails (Some ''js'')) = (res2, d2)" by fastforce
  from atomic[OF s1] atomic[OF s2] s1 s2 show ?thesis by (auto split: sum.splits)
qed

end
