(* ===== verification/Traceability.thy ===== *)
theory Traceability
  imports GoStrings
begin

text \<open>
  \<open>internal/traceability\<close>: \<open>graph.go\<close> (the typed graph of requirements, decisions, code, tests
  and evidence with its two-way traversal), \<open>journal.go\<close> (the implementation journal and its
  filter) and \<open>registers.go\<close> (experiments, rejections, debt). A graph's node map is a partial
  function; \<open>FindNode\<close> ranges over it when no node has the queried ID, in an open order that
  the model takes as the list \<open>ks\<close> of its keys. The clock is the argument \<open>stamp\<close>.
\<close>

section \<open>The graph\<close>

text \<open>Kinds are strings of a closed vocabulary.\<close>

definition node_kinds :: "string list" where
  "node_kinds = [''req'', ''dec'', ''goal'', ''code'', ''test'', ''doc'', ''evidence'', ''experiment'',
     ''rejection'', ''debt'']"

definition node_kind_valid :: "string \<Rightarrow> bool" where
  "node_kind_valid k \<longleftrightarrow> k \<in> set node_kinds"

definition edge_kinds :: "string list" where
  "edge_kinds = [''satisfies'', ''derives_from'', ''implements'', ''verifies'', ''documents'',
     ''evidenced_by'', ''rejects'', ''incurs_debt'']"

definition edge_kind_valid :: "string \<Rightarrow> bool" where
  "edge_kind_valid k \<longleftrightarrow> k \<in> set edge_kinds"

record Node =
  nd_ID :: string
  nd_Kind :: string
  nd_Title :: string
  nd_Ref :: string
  nd_Metadata :: "string \<rightharpoonup> string"

record Edge =
  ed_ID :: string
  ed_From :: string
  ed_To :: string
  ed_Kind :: string
  ed_Evidence :: "string list"

record TracePath =
  tx_Root :: Node
  tx_Upstream :: "Node list"
  tx_Downstream :: "Node list"
  tx_LinkedEdges :: "Edge list"

record Graph =
  gr_Nodes :: "string \<rightharpoonup> Node"
  gr_Edges :: "Edge list"

definition NewGraph :: Graph where
  "NewGraph = \<lparr>gr_Nodes = (\<lambda>_. None), gr_Edges = []\<rparr>"

datatype graph_error = NodeNeedsID | BadNodeKind string | NoSource string | NoTarget string | BadEdgeKind string
  | TraceNotFound string

definition AddNode :: "Node \<Rightarrow> Graph \<Rightarrow> (graph_error, Graph) outcome" where
  "AddNode n g =
     (if blank (nd_ID n) then Inl NodeNeedsID
      else if \<not> node_kind_valid (nd_Kind n) then Inl (BadNodeKind (nd_Kind n))
      else Inr (g\<lparr>gr_Nodes := (gr_Nodes g)(nd_ID n \<mapsto> n)\<rparr>))"

definition AddEdge :: "Edge \<Rightarrow> Graph \<Rightarrow> (graph_error, Graph) outcome" where
  "AddEdge e g =
     (let e = (if blank (ed_ID e) then e\<lparr>ed_ID := ed_From e @ ''-'' @ ed_Kind e @ ''-'' @ ed_To e\<rparr> else e) in
      if gr_Nodes g (ed_From e) = None then Inl (NoSource (ed_From e))
      else if gr_Nodes g (ed_To e) = None then Inl (NoTarget (ed_To e))
      else if \<not> edge_kind_valid (ed_Kind e) then Inl (BadEdgeKind (ed_Kind e))
      else Inr (g\<lparr>gr_Edges := gr_Edges g @ [e]\<rparr>))"

fun find_by_ref :: "(string \<rightharpoonup> Node) \<Rightarrow> string \<Rightarrow> string list \<Rightarrow> Node option" where
  "find_by_ref nodes query [] = None"
| "find_by_ref nodes query (k # ks) =
     (case nodes k of
        None \<Rightarrow> find_by_ref nodes query ks
      | Some n \<Rightarrow> if nd_Ref n = query \<or> equal_fold (nd_Title n) query then Some n else find_by_ref nodes query ks)"

definition FindNode :: "string list \<Rightarrow> Graph \<Rightarrow> string \<Rightarrow> Node option" where
  "FindNode ks g query =
     (case gr_Nodes g query of Some n \<Rightarrow> Some n | None \<Rightarrow> find_by_ref (gr_Nodes g) query ks)"

section \<open>The traversal\<close>

text \<open>
  One direction: \<open>src\<close> and \<open>dst\<close> are the ends of an edge in the order it is followed. The
  state is \<open>visited\<close>, the queue, and what the result collected.
\<close>

record search =
  se_visited :: "string set"
  se_queue :: "string list"
  se_found :: "Node list"
  se_edges :: "Edge list"

definition visit :: "(string \<rightharpoonup> Node) \<Rightarrow> (Edge \<Rightarrow> string) \<Rightarrow> Edge \<Rightarrow> search \<Rightarrow> search" where
  "visit nodes dst e s =
     (case nodes (dst e) of
        None \<Rightarrow> s\<lparr>se_visited := insert (dst e) (se_visited s)\<rparr>
      | Some n \<Rightarrow> s\<lparr>se_visited := insert (dst e) (se_visited s), se_queue := se_queue s @ [dst e],
                   se_found := se_found s @ [n], se_edges := se_edges s @ [e]\<rparr>)"

fun follow_edges :: "(string \<rightharpoonup> Node) \<Rightarrow> (Edge \<Rightarrow> string) \<Rightarrow> (Edge \<Rightarrow> string) \<Rightarrow> string \<Rightarrow> Edge list \<Rightarrow> search \<Rightarrow> search" where
  "follow_edges nodes src dst c [] s = s"
| "follow_edges nodes src dst c (e # es) s =
     (if src e = c \<and> dst e \<notin> se_visited s then follow_edges nodes src dst c es (visit nodes dst e s)
      else follow_edges nodes src dst c es s)"

lemma visit_visited [simp]: "se_visited (visit nodes dst e s) = insert (dst e) (se_visited s)"
  by (simp add: visit_def split: option.split)

lemma follow_edges_mono: "se_visited s \<subseteq> se_visited (follow_edges nodes src dst c es s)"
proof (induction es arbitrary: s)
  case (Cons e es)
  from Cons[of s] Cons[of "visit nodes dst e s"] show ?case by auto
qed simp

text \<open>Following edges visits something new or leaves the state alone.\<close>

lemma follow_edges_cases:
  "follow_edges nodes src dst c es s = s \<or>
   (\<exists>x\<in>dst ` set es. x \<notin> se_visited s \<and> x \<in> se_visited (follow_edges nodes src dst c es s))"
proof (induction es arbitrary: s)
  case (Cons e es)
  show ?case
  proof (cases "src e = c \<and> dst e \<notin> se_visited s")
    case True
    then have "dst e \<in> se_visited (follow_edges nodes src dst c (e # es) s)"
      using follow_edges_mono[of "visit nodes dst e s" nodes src dst c es] by auto
    with True show ?thesis by auto
  next
    case False
    then have "follow_edges nodes src dst c (e # es) s = follow_edges nodes src dst c es s" by auto
    with Cons[of s] show ?thesis by auto
  qed
qed simp

text \<open>The loop over the queue ends: a turn that visits nothing new shortens the queue.\<close>

function trace_loop :: "(string \<rightharpoonup> Node) \<Rightarrow> (Edge \<Rightarrow> string) \<Rightarrow> (Edge \<Rightarrow> string) \<Rightarrow> Edge list \<Rightarrow> search \<Rightarrow> search" where
  "trace_loop nodes src dst es s =
     (case se_queue s of
        [] \<Rightarrow> s
      | c # q \<Rightarrow> trace_loop nodes src dst es (follow_edges nodes src dst c es (s\<lparr>se_queue := q\<rparr>)))"
  by pat_completeness auto
termination
proof (relation "measures [\<lambda>(nodes, src, dst, es, s). card (dst ` set es - se_visited s),
    \<lambda>(nodes, src, dst, es, s). length (se_queue s)]")
  fix nodes :: "string \<rightharpoonup> Node" and src dst :: "Edge \<Rightarrow> string" and es c q and s :: search
  assume q: "se_queue s = c # q"
  let ?s = "s\<lparr>se_queue := q\<rparr>"
  let ?t = "follow_edges nodes src dst c es ?s"
  have "dst ` set es - se_visited ?t \<subseteq> dst ` set es - se_visited s"
    using follow_edges_mono[of ?s nodes src dst c es] by auto
  then have le: "card (dst ` set es - se_visited ?t) \<le> card (dst ` set es - se_visited s)"
    by (intro card_mono) auto
  show "((nodes, src, dst, es, ?t), (nodes, src, dst, es, s)) \<in> measures [\<lambda>(nodes, src, dst, es, s).
      card (dst ` set es - se_visited s), \<lambda>(nodes, src, dst, es, s). length (se_queue s)]"
  proof (cases "?t = ?s")
    case True
    with q show ?thesis by simp
  next
    case False
    then obtain x where x: "x \<in> dst ` set es" "x \<notin> se_visited s" "x \<in> se_visited ?t"
      using follow_edges_cases[of nodes src dst c es ?s] by auto
    have "dst ` set es - se_visited ?t \<subset> dst ` set es - se_visited s"
      using x follow_edges_mono[of ?s nodes src dst c es] by auto
    then have "card (dst ` set es - se_visited ?t) < card (dst ` set es - se_visited s)"
      by (intro psubset_card_mono) auto
    then show ?thesis by simp
  qed
qed simp

declare trace_loop.simps [simp del]

definition start_search :: "string \<Rightarrow> search" where
  "start_search r = \<lparr>se_visited = {}, se_queue = [r], se_found = [], se_edges = []\<rparr>"

definition Trace :: "string list \<Rightarrow> Graph \<Rightarrow> string \<Rightarrow> (graph_error, TracePath) outcome" where
  "Trace ks g ref =
     (case FindNode ks g ref of
        None \<Rightarrow> Inl (TraceNotFound ref)
      | Some n \<Rightarrow>
          let up = trace_loop (gr_Nodes g) ed_From ed_To (gr_Edges g) (start_search (nd_ID n));
              down = trace_loop (gr_Nodes g) ed_To ed_From (gr_Edges g) (start_search (nd_ID n))
          in Inr \<lparr>tx_Root = n, tx_Upstream = sort_key nd_ID (se_found up),
                  tx_Downstream = sort_key nd_ID (se_found down),
                  tx_LinkedEdges = se_edges up @ se_edges down\<rparr>)"

section \<open>The implementation journal\<close>

record JournalEntry =
  je_ID :: string
  je_Goal :: string
  je_Title :: string
  je_Summary :: string
  je_Decisions :: "string list"
  je_CodeChanges :: "string list"
  je_Tests :: "string list"
  je_Evidence :: "string list"
  je_ChangedDocs :: "string list"
  je_CreatedAt :: string

record JournalFilter =
  jf_Goal :: string
  jf_Decision :: string
  jf_File :: string

datatype register_error = NeedsID | NeedsSummary | NeedsHypothesis | NeedsRationale | NeedsTitle

definition journal_Add :: "string \<Rightarrow> JournalEntry \<Rightarrow> JournalEntry list \<Rightarrow> (register_error, JournalEntry list) outcome" where
  "journal_Add stamp e entries =
     (if blank (je_ID e) then Inl NeedsID
      else if blank (je_Summary e) then Inl NeedsSummary
      else Inr (entries @ [if je_CreatedAt e = [] then e\<lparr>je_CreatedAt := stamp\<rparr> else e]))"

definition FindByID :: "JournalEntry list \<Rightarrow> string \<Rightarrow> JournalEntry option" where
  "FindByID entries i = find (\<lambda>e. je_ID e = i) entries"

definition mentions :: "string list \<Rightarrow> string \<Rightarrow> bool" where
  "mentions fs f \<longleftrightarrow> list_ex (\<lambda>d. contains_str (to_lower d) (to_lower f)) fs"

definition journal_matches :: "JournalFilter \<Rightarrow> JournalEntry \<Rightarrow> bool" where
  "journal_matches flt e \<longleftrightarrow>
     (if jf_Goal flt \<noteq> [] \<and> \<not> equal_fold (je_Goal e) (jf_Goal flt) then False
      else if jf_Decision flt \<noteq> [] \<and> \<not> list_ex (\<lambda>d. equal_fold d (jf_Decision flt)) (je_Decisions e) then False
      else if jf_File flt \<noteq> [] \<and> \<not> (if mentions (je_CodeChanges e) (jf_File flt) then True
                                     else mentions (je_ChangedDocs e) (jf_File flt)) then False
      else True)"

definition Query :: "JournalEntry list \<Rightarrow> JournalFilter \<Rightarrow> JournalEntry list" where
  "Query entries flt = filter (journal_matches flt) entries"

section \<open>The registers\<close>

record ExperimentEntry =
  xp_ID :: string
  xp_Goal :: string
  xp_Hypothesis :: string
  xp_Method :: string
  xp_Outcome :: string
  xp_Conclusion :: string
  xp_Evidence :: "string list"
  xp_CreatedAt :: string

record RejectionEntry =
  rj_ID :: string
  rj_ProposalID :: string
  rj_Title :: string
  rj_Alternative :: string
  rj_Rationale :: string
  rj_RejectedBy :: string
  rj_Evidence :: "string list"
  rj_CreatedAt :: string

record DebtEntry =
  db_ID :: string
  db_Title :: string
  db_Description :: string
  db_ImpactedContracts :: "string list"
  db_Severity :: string
  db_RemediationPlan :: string
  db_Status :: string
  db_CreatedAt :: string

record Registers =
  rg_Experiments :: "ExperimentEntry list"
  rg_Rejections :: "RejectionEntry list"
  rg_Debt :: "DebtEntry list"

definition NewRegisters :: Registers where
  "NewRegisters = \<lparr>rg_Experiments = [], rg_Rejections = [], rg_Debt = []\<rparr>"

definition RecordExperiment :: "string \<Rightarrow> ExperimentEntry \<Rightarrow> Registers \<Rightarrow> (register_error, Registers) outcome" where
  "RecordExperiment stamp e r =
     (if blank (xp_ID e) then Inl NeedsID
      else if blank (xp_Hypothesis e) then Inl NeedsHypothesis
      else Inr (r\<lparr>rg_Experiments := rg_Experiments r @ [if xp_CreatedAt e = [] then e\<lparr>xp_CreatedAt := stamp\<rparr> else e]\<rparr>))"

definition RecordRejection :: "string \<Rightarrow> RejectionEntry \<Rightarrow> Registers \<Rightarrow> (register_error, Registers) outcome" where
  "RecordRejection stamp e r =
     (if blank (rj_ID e) then Inl NeedsID
      else if blank (rj_Rationale e) then Inl NeedsRationale
      else Inr (r\<lparr>rg_Rejections := rg_Rejections r @ [if rj_CreatedAt e = [] then e\<lparr>rj_CreatedAt := stamp\<rparr> else e]\<rparr>))"

definition RecordDebt :: "string \<Rightarrow> DebtEntry \<Rightarrow> Registers \<Rightarrow> (register_error, Registers) outcome" where
  "RecordDebt stamp e r =
     (if blank (db_ID e) then Inl NeedsID
      else if blank (db_Title e) then Inl NeedsTitle
      else
        let e = (if db_Status e = [] then e\<lparr>db_Status := ''open''\<rparr> else e);
            e = (if db_CreatedAt e = [] then e\<lparr>db_CreatedAt := stamp\<rparr> else e)
        in Inr (r\<lparr>rg_Debt := rg_Debt r @ [e]\<rparr>))"

section \<open>The invariant of a graph\<close>

text \<open>Nodes stand under their own ID and the ends of every edge are nodes.\<close>

definition graph_ok :: "Graph \<Rightarrow> bool" where
  "graph_ok g \<longleftrightarrow> (\<forall>k n. gr_Nodes g k = Some n \<longrightarrow> nd_ID n = k \<and> node_kind_valid (nd_Kind n)) \<and>
     (\<forall>e\<in>set (gr_Edges g). gr_Nodes g (ed_From e) \<noteq> None \<and> gr_Nodes g (ed_To e) \<noteq> None \<and> edge_kind_valid (ed_Kind e))"

text \<open>The graphs the operations build.\<close>

inductive built :: "Graph \<Rightarrow> bool" where
  built_new: "built NewGraph"
| built_node: "built g \<Longrightarrow> AddNode n g = Inr g' \<Longrightarrow> built g'"
| built_edge: "built g \<Longrightarrow> AddEdge e g = Inr g' \<Longrightarrow> built g'"

lemma built_ok: "built g \<Longrightarrow> graph_ok g"
proof (induction rule: built.induct)
  case (built_edge g e g')
  then show ?case by (auto simp: graph_ok_def AddEdge_def Let_def split: if_splits)
qed (auto simp: graph_ok_def NewGraph_def AddNode_def split: if_splits)

section \<open>A trace is reachability\<close>

definition follows :: "(Edge \<Rightarrow> string) \<Rightarrow> (Edge \<Rightarrow> string) \<Rightarrow> Edge list \<Rightarrow> (string \<times> string) set" where
  "follows src dst es = (\<lambda>e. (src e, dst e)) ` set es"

definition ends_ok :: "(string \<rightharpoonup> Node) \<Rightarrow> (Edge \<Rightarrow> string) \<Rightarrow> Edge list \<Rightarrow> bool" where
  "ends_ok nodes dst es \<longleftrightarrow> (\<forall>e\<in>set es. \<exists>n. nodes (dst e) = Some n \<and> nd_ID n = dst e)"

definition found_ok :: "(Edge \<Rightarrow> string) \<Rightarrow> search \<Rightarrow> bool" where
  "found_ok dst s \<longleftrightarrow> se_visited s = nd_ID ` set (se_found s) \<and> distinct (map nd_ID (se_found s)) \<and>
     map dst (se_edges s) = map nd_ID (se_found s)"

lemma visit_facts:
  assumes "nodes (dst e) = Some n" "nd_ID n = dst e" "dst e \<notin> se_visited s"
  shows "found_ok dst s \<Longrightarrow> found_ok dst (visit nodes dst e s)"
    "se_queue (visit nodes dst e s) = se_queue s @ [dst e]"
  using assms by (auto simp: found_ok_def visit_def)

lemma follow_edges_facts:
  assumes "ends_ok nodes dst es"
  shows "se_visited (follow_edges nodes src dst c es s) = se_visited s \<union> follows src dst es `` {c}"
    "set (se_queue (follow_edges nodes src dst c es s)) =
       set (se_queue s) \<union> (se_visited (follow_edges nodes src dst c es s) - se_visited s)"
    "found_ok dst s \<Longrightarrow> found_ok dst (follow_edges nodes src dst c es s)"
proof -
  have "se_visited (follow_edges nodes src dst c es s) = se_visited s \<union> follows src dst es `` {c} \<and>
    set (se_queue (follow_edges nodes src dst c es s)) =
       set (se_queue s) \<union> (se_visited (follow_edges nodes src dst c es s) - se_visited s) \<and>
    (found_ok dst s \<longrightarrow> found_ok dst (follow_edges nodes src dst c es s))"
    using assms
  proof (induction es arbitrary: s)
    case (Cons e es)
    have ends: "ends_ok nodes dst es" using Cons.prems by (simp add: ends_ok_def)
    obtain n where n: "nodes (dst e) = Some n" "nd_ID n = dst e" using Cons.prems by (auto simp: ends_ok_def)
    show ?case
    proof (cases "src e = c \<and> dst e \<notin> se_visited s")
      case True
      let ?s = "visit nodes dst e s"
      note v = visit_facts[where s = s and dst = dst and nodes = nodes and e = e, OF n conjunct2[OF True]]
      have mono: "se_visited ?s \<subseteq> se_visited (follow_edges nodes src dst c es ?s)" by (rule follow_edges_mono)
      show ?thesis using Cons.IH[OF ends, of ?s] True v mono by (auto simp: follows_def)
    next
      case False
      then have "follow_edges nodes src dst c (e # es) s = follow_edges nodes src dst c es s" by auto
      moreover have "se_visited s \<union> follows src dst (e # es) `` {c} = se_visited s \<union> follows src dst es `` {c}"
        using False by (auto simp: follows_def)
      ultimately show ?thesis using Cons.IH[OF ends, of s] by simp
    qed
  qed (simp add: follows_def)
  then show "se_visited (follow_edges nodes src dst c es s) = se_visited s \<union> follows src dst es `` {c}"
    "set (se_queue (follow_edges nodes src dst c es s)) =
       set (se_queue s) \<union> (se_visited (follow_edges nodes src dst c es s) - se_visited s)"
    "found_ok dst s \<Longrightarrow> found_ok dst (follow_edges nodes src dst c es s)" by blast+
qed

text \<open>What the loop keeps: everything visited is reachable, and every node outside the queue is expanded.\<close>

definition search_inv :: "(string \<times> string) set \<Rightarrow> string \<Rightarrow> search \<Rightarrow> bool" where
  "search_inv R r s \<longleftrightarrow> se_visited s \<subseteq> R\<^sup>+ `` {r} \<and> set (se_queue s) \<subseteq> insert r (se_visited s) \<and>
     (\<forall>x\<in>insert r (se_visited s). x \<in> set (se_queue s) \<or> R `` {x} \<subseteq> se_visited s)"

lemma search_inv_step:
  assumes ends: "ends_ok nodes dst es" and inv: "search_inv (follows src dst es) r s" and q: "se_queue s = c # q"
  shows "search_inv (follows src dst es) r (follow_edges nodes src dst c es (s\<lparr>se_queue := q\<rparr>))"
proof -
  let ?R = "follows src dst es" and ?t = "follow_edges nodes src dst c es (s\<lparr>se_queue := q\<rparr>)"
  have v: "se_visited ?t = se_visited s \<union> ?R `` {c}" using follow_edges_facts(1)[OF ends] by simp
  have w: "set (se_queue ?t) = set q \<union> (?R `` {c} - se_visited s)" using follow_edges_facts(2)[OF ends, of src c "s\<lparr>se_queue := q\<rparr>"] v by auto
  have "c = r \<or> c \<in> se_visited s" using inv q by (auto simp: search_inv_def)
  then have "?R `` {c} \<subseteq> ?R\<^sup>+ `` {r}" using inv by (auto simp: search_inv_def intro: trancl_into_trancl)
  then have "se_visited ?t \<subseteq> ?R\<^sup>+ `` {r}" using inv v by (auto simp: search_inv_def)
  moreover have "set (se_queue ?t) \<subseteq> insert r (se_visited ?t)" using inv q v w by (auto simp: search_inv_def)
  moreover have "x \<in> set (se_queue ?t) \<or> ?R `` {x} \<subseteq> se_visited ?t" if x: "x \<in> insert r (se_visited ?t)" for x
  proof (cases "x = c \<or> (x \<notin> insert r (se_visited s))")
    case True
    then show ?thesis using x v w by auto
  next
    case False
    then have "x \<in> set (c # q) \<or> ?R `` {x} \<subseteq> se_visited s" using inv q by (auto simp: search_inv_def)
    with False show ?thesis using v w by auto
  qed
  ultimately show ?thesis by (simp add: search_inv_def)
qed

lemma trace_loop_inv:
  "ends_ok nodes dst es \<Longrightarrow> search_inv (follows src dst es) r s \<Longrightarrow> found_ok dst s \<Longrightarrow>
   search_inv (follows src dst es) r (trace_loop nodes src dst es s) \<and> found_ok dst (trace_loop nodes src dst es s) \<and>
   se_queue (trace_loop nodes src dst es s) = []"
proof (induction nodes src dst es s rule: trace_loop.induct)
  case (1 nodes src dst es s)
  show ?case
  proof (cases "se_queue s")
    case Nil
    with 1(3,4) show ?thesis by (simp add: trace_loop.simps[of nodes src dst es s])
  next
    case (Cons c q)
    have "found_ok dst (s\<lparr>se_queue := q\<rparr>)" using 1(4) by (simp add: found_ok_def)
    from 1(1)[OF Cons 1(2) search_inv_step[OF 1(2,3) Cons] follow_edges_facts(3)[OF 1(2) this]]
    show ?thesis by (simp add: trace_loop.simps[of nodes src dst es s] Cons)
  qed
qed

lemma closed_trancl: "R `` insert r V \<subseteq> V \<Longrightarrow> (r, y) \<in> R\<^sup>+ \<Longrightarrow> y \<in> V"
  by (rotate_tac 1, induction rule: trancl_induct) auto

lemma trace_loop_result:
  fixes src dst :: "Edge \<Rightarrow> string" and r :: string
  assumes "ends_ok nodes dst es"
  defines "s \<equiv> trace_loop nodes src dst es (start_search r)"
  shows "nd_ID ` set (se_found s) = (follows src dst es)\<^sup>+ `` {r}" "distinct (map nd_ID (se_found s))"
    "map dst (se_edges s) = map nd_ID (se_found s)"
proof -
  have "search_inv (follows src dst es) r (start_search r)" "found_ok dst (start_search r)"
    by (simp_all add: search_inv_def found_ok_def start_search_def)
  from trace_loop_inv[OF assms(1) this, folded s_def]
  have inv: "search_inv (follows src dst es) r s" and f: "found_ok dst s" and q: "se_queue s = []" by auto
  have "follows src dst es `` insert r (se_visited s) \<subseteq> se_visited s"
    using inv q by (auto simp: search_inv_def)
  then have "(follows src dst es)\<^sup>+ `` {r} \<subseteq> se_visited s"
    using closed_trancl[of "follows src dst es" r "se_visited s"] by blast
  then have "se_visited s = (follows src dst es)\<^sup>+ `` {r}" using inv by (simp add: search_inv_def)
  then show "nd_ID ` set (se_found s) = (follows src dst es)\<^sup>+ `` {r}" "distinct (map nd_ID (se_found s))"
    "map dst (se_edges s) = map nd_ID (se_found s)" using f by (simp_all add: found_ok_def)
qed

lemma map_sort_key_self: "distinct (map f xs) \<Longrightarrow> map f (sort_key f xs) = sorted_list_of_set (f ` set xs)"
  by (rule sorted_distinct_set_unique) (simp_all add: distinct_map)

lemma follows_converse: "follows dst src es = (follows src dst es)\<inverse>"
  by (auto simp: follows_def)

text \<open>
  a trace is reachability. In every graph the operations build, tracing a node that is
  found lists upstream exactly the nodes the edges lead to and downstream exactly the nodes
  that lead to it, each once and in the order of the IDs, with one linking edge per node; a
  cycle neither repeats a node nor keeps the traversal from ending.
\<close>

theorem trace_is_reachability:
  assumes "built g" "Trace ks g ref = Inr p"
  shows "map nd_ID (tx_Upstream p) =
      sorted_list_of_set {y. (nd_ID (tx_Root p), y) \<in> (follows ed_From ed_To (gr_Edges g))\<^sup>+} \<and>
    map nd_ID (tx_Downstream p) =
      sorted_list_of_set {y. (y, nd_ID (tx_Root p)) \<in> (follows ed_From ed_To (gr_Edges g))\<^sup>+} \<and>
    length (tx_LinkedEdges p) = length (tx_Upstream p) + length (tx_Downstream p)"
proof -
  let ?E = "follows ed_From ed_To (gr_Edges g)"
  have ends: "ends_ok (gr_Nodes g) ed_To (gr_Edges g)" "ends_ok (gr_Nodes g) ed_From (gr_Edges g)"
    using built_ok[OF assms(1)] by (auto simp: ends_ok_def graph_ok_def)
  obtain n where n: "FindNode ks g ref = Some n" using assms(2) by (auto simp: Trace_def split: option.splits)
  define up where "up = trace_loop (gr_Nodes g) ed_From ed_To (gr_Edges g) (start_search (nd_ID n))"
  define down where "down = trace_loop (gr_Nodes g) ed_To ed_From (gr_Edges g) (start_search (nd_ID n))"
  have p: "p = \<lparr>tx_Root = n, tx_Upstream = sort_key nd_ID (se_found up),
      tx_Downstream = sort_key nd_ID (se_found down), tx_LinkedEdges = se_edges up @ se_edges down\<rparr>"
    using assms(2) n by (simp add: Trace_def up_def down_def Let_def)
  note u = trace_loop_result[OF ends(1), where src = ed_From and r = "nd_ID n", folded up_def]
  note d = trace_loop_result[OF ends(2), where src = ed_To and r = "nd_ID n", folded down_def]
  have down_rel: "(follows ed_To ed_From (gr_Edges g))\<^sup>+ `` {nd_ID n} = {y. (y, nd_ID n) \<in> ?E\<^sup>+}"
    unfolding follows_converse[of ed_To ed_From] by (auto simp: trancl_converse)
  have "map nd_ID (sort_key nd_ID (se_found up)) = sorted_list_of_set {y. (nd_ID n, y) \<in> ?E\<^sup>+}"
    using map_sort_key_self[OF u(2)] u(1) by (simp add: Image_singleton)
  moreover have "map nd_ID (sort_key nd_ID (se_found down)) = sorted_list_of_set {y. (y, nd_ID n) \<in> ?E\<^sup>+}"
    using map_sort_key_self[OF d(2)] d(1) down_rel by simp
  moreover have "length (se_edges up) = length (se_found up)" "length (se_edges down) = length (se_found down)"
    using u(3) d(3) by (metis length_map)+
  ultimately show ?thesis unfolding p by simp
qed

definition sample_node :: "string \<Rightarrow> string \<Rightarrow> Node" where
  "sample_node i k = \<lparr>nd_ID = i, nd_Kind = k, nd_Title = i, nd_Ref = [], nd_Metadata = (\<lambda>_. None)\<rparr>"

definition sample_edge :: "string \<Rightarrow> string \<Rightarrow> string \<Rightarrow> Edge" where
  "sample_edge a b k = \<lparr>ed_ID = a @ b, ed_From = a, ed_To = b, ed_Kind = k, ed_Evidence = []\<rparr>"

definition sample_graph :: Graph where
  "sample_graph = \<lparr>gr_Nodes = [''r'' \<mapsto> sample_node ''r'' ''req'', ''c'' \<mapsto> sample_node ''c'' ''code'', ''t'' \<mapsto> sample_node ''t'' ''test''],
     gr_Edges = [sample_edge ''c'' ''r'' ''implements'', sample_edge ''t'' ''c'' ''verifies'', sample_edge ''r'' ''t'' ''evidenced_by'']\<rparr>"

lemma built_add_node: "built g \<Longrightarrow> \<not> blank (nd_ID n) \<Longrightarrow> node_kind_valid (nd_Kind n) \<Longrightarrow>
   built (g\<lparr>gr_Nodes := (gr_Nodes g)(nd_ID n \<mapsto> n)\<rparr>)"
  by (rule built_node[where n = n]) (simp_all add: AddNode_def)

lemma built_add_edge: "built g \<Longrightarrow> \<not> blank (ed_ID e) \<Longrightarrow> gr_Nodes g (ed_From e) \<noteq> None \<Longrightarrow>
   gr_Nodes g (ed_To e) \<noteq> None \<Longrightarrow> edge_kind_valid (ed_Kind e) \<Longrightarrow> built (g\<lparr>gr_Edges := gr_Edges g @ [e]\<rparr>)"
  by (rule built_edge[where e = e]) (auto simp: AddEdge_def)

lemma sample_built: "built sample_graph"
proof -
  have b: "\<not> blank ''r''" "\<not> blank ''c''" "\<not> blank ''t''" "\<not> blank ''cr''" "\<not> blank ''tc''" "\<not> blank ''rt''"
    by (rule blank_plain, simp add: plain_char_def)+
  note n = built_add_node[OF built_add_node[OF built_add_node[OF built_new, of "sample_node ''r'' ''req''"],
      of "sample_node ''c'' ''code''"], of "sample_node ''t'' ''test''"]
  have "built \<lparr>gr_Nodes = [''r'' \<mapsto> sample_node ''r'' ''req'', ''c'' \<mapsto> sample_node ''c'' ''code'', ''t'' \<mapsto> sample_node ''t'' ''test''], gr_Edges = []\<rparr>"
    using n b by (simp add: sample_node_def NewGraph_def node_kind_valid_def node_kinds_def)
  note e = built_add_edge[OF built_add_edge[OF built_add_edge[OF this, of "sample_edge ''c'' ''r'' ''implements''"],
      of "sample_edge ''t'' ''c'' ''verifies''"], of "sample_edge ''r'' ''t'' ''evidenced_by''"]
  show ?thesis using e b by (simp add: sample_graph_def sample_edge_def edge_kind_valid_def edge_kinds_def)
qed

lemma trace_is_reachability_witness:
  "\<exists>p. Trace [] sample_graph ''c'' = Inr p \<and> map nd_ID (tx_Upstream p) =
     sorted_list_of_set {y. (nd_ID (tx_Root p), y) \<in> (follows ed_From ed_To (gr_Edges sample_graph))\<^sup>+}"
proof -
  have "FindNode [] sample_graph ''c'' = Some (sample_node ''c'' ''code'')" by (simp add: FindNode_def sample_graph_def)
  then obtain p where "Trace [] sample_graph ''c'' = Inr p" by (simp add: Trace_def Let_def)
  with trace_is_reachability[OF sample_built this] show ?thesis by blast
qed

end
