(* ===== verification/ToolGateway.thy ===== *)
theory ToolGateway
  imports Safepath
begin

text \<open>
  \<open>internal/toolgateway/gateway.go\<close>: the policy decision for a tool call and for a tool of an
  MCP server, the tool registry with its lazy discovery, the output budget and the intent and
  outcome records. Containment is \<^theory_text>\<open>IsWithin\<close> of the path containment component, so
  the decisions inherit its operating system parameter; the hash is a parameter. The registry
  is a partial function from IDs, ranged over in an open order \<open>ks\<close>.
\<close>

section \<open>Decisions\<close>

datatype Kind = ReadOnly | Idempotent | SideEffecting | Destructive | KindOther string

record Descriptor =
  td_ID :: string
  td_Version :: int
  td_Description :: string
  td_Kind :: Kind
  td_Trust :: string
  td_Capabilities :: "string list"
  td_FilesystemScope :: "string list"
  td_NetworkEgress :: "string list"
  td_CredentialScope :: "string list"
  td_TimeoutMS :: int
  td_OutputLimit :: int

record Summary =
  ts_ID :: string
  ts_Kind :: Kind
  ts_Trust :: string
  ts_Description :: string
  ts_Capabilities :: "string list"

record ToolDecision =
  tn_Allowed :: bool
  tn_Reason :: string
  tn_Descriptor :: Descriptor

definition refuse :: "string \<Rightarrow> Descriptor \<Rightarrow> ToolDecision" where
  "refuse reason d = \<lparr>tn_Allowed = False, tn_Reason = reason, tn_Descriptor = d\<rparr>"

definition permit :: "Descriptor \<Rightarrow> ToolDecision" where
  "permit d = \<lparr>tn_Allowed = True, tn_Reason = ''tool permitted by descriptor and policy'', tn_Descriptor = d\<rparr>"

fun in_scope :: "os \<Rightarrow> string \<Rightarrow> string list \<Rightarrow> string \<Rightarrow> bool" where
  "in_scope os projectRoot [] target = False"
| "in_scope os projectRoot (rt # rts) target =
     (if rt = ''*'' then True
      else
        let effectiveRoot = (if rt \<noteq> ''project-root'' then rt else projectRoot)
        in if IsWithin os effectiveRoot target then True else in_scope os projectRoot rts target)"

definition EvaluateTool :: "os \<Rightarrow> Descriptor \<Rightarrow> string \<Rightarrow> string \<Rightarrow> bool \<Rightarrow> ToolDecision" where
  "EvaluateTool os d projectRoot target safe =
     (if td_ID d = [] then refuse ''tool descriptor missing id'' d
      else if safe \<and> td_Kind d = Destructive then refuse ''safe mode denies destructive tool'' d
      else if (td_Kind d = SideEffecting \<or> td_Kind d = Destructive) \<and> target \<noteq> []
              \<and> \<not> in_scope os projectRoot (td_FilesystemScope d) target
        then refuse (''tool target outside allowed scope: '' @ target) d
      else permit d)"

record MCPServerDescriptor =
  mcp_ID :: string
  mcp_Transport :: string
  mcp_Command :: string
  mcp_Args :: "string list"
  mcp_URL :: string
  mcp_Trust :: string
  mcp_AllowedTools :: "string list"
  mcp_RootScopes :: "string list"
  mcp_NetworkPolicy :: string
  mcp_SecretScopes :: "string list"

fun in_roots :: "os \<Rightarrow> string list \<Rightarrow> string \<Rightarrow> bool" where
  "in_roots os [] target = False"
| "in_roots os (rt # rts) target =
     (if rt = ''*'' then True else if IsWithin os rt target then True else in_roots os rts target)"

definition EvaluateMCP :: "os \<Rightarrow> MCPServerDescriptor \<Rightarrow> Descriptor \<Rightarrow> string \<Rightarrow> bool \<Rightarrow> ToolDecision" where
  "EvaluateMCP os server tool target safe =
     (if mcp_ID server = [] then refuse ''mcp server descriptor missing id'' tool
      else
        let trust = (if mcp_Trust server = [] then ''untrusted'' else mcp_Trust server) in
        if trust = ''untrusted'' \<and> td_Kind tool = Destructive
          then refuse ''untrusted mcp server cannot execute destructive tool'' tool
        else if mcp_AllowedTools server \<noteq> []
                \<and> \<not> list_ex (\<lambda>name. name = td_ID tool \<or> name = ''*'') (mcp_AllowedTools server)
          then refuse (''tool '' @ td_ID tool @ '' is not in allowed list for mcp server '' @ mcp_ID server) tool
        else if mcp_RootScopes server \<noteq> [] \<and> target \<noteq> [] \<and> \<not> in_roots os (mcp_RootScopes server) target
          then refuse (''target '' @ target @ '' outside mcp server root scopes'') tool
        else if td_ID tool = [] then refuse ''tool descriptor missing id'' tool
        else if safe \<and> td_Kind tool = Destructive then refuse ''safe mode denies destructive tool'' tool
        else permit tool)"

section \<open>The registry\<close>

type_synonym registry = "string \<rightharpoonup> Descriptor"

definition NewRegistry :: registry where
  "NewRegistry = (\<lambda>_. None)"

definition Register :: "Descriptor \<Rightarrow> registry \<Rightarrow> registry" where
  "Register d r = r(td_ID d \<mapsto> d)"

definition registry_Get :: "registry \<Rightarrow> string \<Rightarrow> Descriptor option" where
  "registry_Get r i = r i"

definition registry_List :: "string list \<Rightarrow> registry \<Rightarrow> Descriptor list" where
  "registry_List ks r = sort_key td_ID (List.map_filter r ks)"

definition capable :: "string list \<Rightarrow> Descriptor \<Rightarrow> bool" where
  "capable needs d \<longleftrightarrow> needs = [] \<or> list_ex (\<lambda>need. list_ex (\<lambda>c. c = need) (td_Capabilities d)) needs"

definition tool_summary :: "Descriptor \<Rightarrow> Summary" where
  "tool_summary d = \<lparr>ts_ID = td_ID d, ts_Kind = td_Kind d, ts_Trust = td_Trust d,
     ts_Description = td_Description d, ts_Capabilities = td_Capabilities d\<rparr>"

definition Discover :: "string list \<Rightarrow> registry \<Rightarrow> string list \<Rightarrow> Summary list" where
  "Discover ks r needs = sort_key ts_ID (map tool_summary (filter (capable needs) (List.map_filter r ks)))"

section \<open>Output budget, intents and outcomes\<close>

definition EnforceOutputBudget :: "(string \<Rightarrow> string) \<Rightarrow> string \<Rightarrow> int \<Rightarrow> string \<times> bool \<times> string" where
  "EnforceOutputBudget sha out maxBytes =
     (if maxBytes \<le> 0 \<or> int (length out) \<le> maxBytes then (out, False, [])
      else
        let ptr = ''sha256:'' @ sha out;
            truncated = take (nat maxBytes) out @ ''\<newline>... [output truncated: '' @ itoa (int (length out))
              @ '' bytes total, full content hash '' @ ptr @ '']''
        in (truncated, True, ptr))"

record Intent =
  in_ToolID :: string
  in_IdempotencyKey :: string
  in_Target :: string
  in_PayloadHash :: string
  in_Timestamp :: string

record ToolOutcome =
  to_ToolID :: string
  to_IdempotencyKey :: string
  to_Success :: bool
  to_OutputHash :: string
  to_Error :: string
  to_Timestamp :: string

datatype intent_error = ToolIdRequired | IdempotencyKeyRequired

definition ValidateIntent :: "Intent \<Rightarrow> intent_error option" where
  "ValidateIntent i =
     (if in_ToolID i = [] then Some ToolIdRequired
      else if in_IdempotencyKey i = [] then Some IdempotencyKeyRequired else None)"

definition RecordToolOutcome :: "(string \<Rightarrow> string) \<Rightarrow> string \<Rightarrow> Intent \<Rightarrow> bool \<Rightarrow> string \<Rightarrow> string option \<Rightarrow> ToolOutcome" where
  "RecordToolOutcome sha stamp i success out err =
     \<lparr>to_ToolID = in_ToolID i, to_IdempotencyKey = in_IdempotencyKey i, to_Success = success,
      to_OutputHash = (if out \<noteq> [] then ''sha256:'' @ sha out else []),
      to_Error = (case err of Some e \<Rightarrow> e | None \<Rightarrow> []), to_Timestamp = stamp\<rparr>"

section \<open>Containment by components\<close>

text \<open>The components a path denotes below a root, both made absolute against the working directory.\<close>

definition target_comps :: "os \<Rightarrow> string \<Rightarrow> string \<Rightarrow> string list" where
  "target_comps os rt target =
     clean_comps (if is_abs target then target else path_join [path_abs os rt, target])"

lemma path_join_abs: "is_abs d \<Longrightarrow> is_abs (path_join (d # es))"
proof -
  assume d: "is_abs d"
  then have ne: "d \<noteq> []" by (auto simp: is_abs_def has_prefix_def)
  have "is_abs (join ''/'' (d # filter (\<lambda>e. e \<noteq> []) es))"
    using d by (cases "filter (\<lambda>e. e \<noteq> []) es") (auto simp: is_abs_def has_prefix_def prefix_def)
  with ne show ?thesis by (simp add: path_join_def path_clean_abs)
qed

lemma path_abs_abs: "is_abs (os_cwd os) \<Longrightarrow> is_abs (path_abs os p)"
  by (simp add: path_abs_def path_clean_abs path_join_abs)

lemma IsWithin_comps:
  assumes "is_abs (os_cwd os)"
  shows "IsWithin os rt target \<longleftrightarrow> prefix (clean_comps (path_abs os rt)) (target_comps os rt target)"
proof -
  let ?r = "path_abs os rt" and ?t = "if is_abs target then target else path_join [path_abs os rt, target]"
  have r: "is_abs ?r" by (rule path_abs_abs[OF assms])
  then have t: "is_abs ?t" using path_join_abs[of ?r "[target]"] by simp
  have "IsWithin os rt target \<longleftrightarrow> contains (path_clean ?r) (path_clean ?t)" by (simp add: IsWithin_def Let_def)
  also have "\<dots> \<longleftrightarrow> prefix (clean_comps ?r) (clean_comps ?t)"
    using contains_abs[OF path_clean_abs[OF r] path_clean_abs[OF t]]
    by (simp only: clean_comps_clean_abs[OF r] clean_comps_clean_abs[OF t])
  finally show ?thesis by (simp add: target_comps_def)
qed

text \<open>A scope entry admits a target when it is the wildcard or the target lies below its root.\<close>

definition entry_admits :: "os \<Rightarrow> string \<Rightarrow> string \<Rightarrow> bool" where
  "entry_admits os rt target \<longleftrightarrow> prefix (clean_comps (path_abs os rt)) (target_comps os rt target)"

lemma in_scope_iff:
  "is_abs (os_cwd os) \<Longrightarrow> in_scope os projectRoot rts target \<longleftrightarrow>
     (\<exists>rt\<in>set rts. rt = ''*'' \<or> entry_admits os (if rt = ''project-root'' then projectRoot else rt) target)"
  by (induction rts) (auto simp: Let_def IsWithin_comps entry_admits_def)

lemma in_roots_iff:
  "is_abs (os_cwd os) \<Longrightarrow> in_roots os rts target \<longleftrightarrow> (\<exists>rt\<in>set rts. rt = ''*'' \<or> entry_admits os rt target)"
  by (induction rts) (auto simp: IsWithin_comps entry_admits_def)

lemma allowed_iff: "list_ex (\<lambda>name. name = i \<or> name = ''*'') ns \<longleftrightarrow> i \<in> set ns \<or> ''*'' \<in> set ns"
  by (auto simp: list_ex_iff)

text \<open>
  C36: what the gateway lets a tool do. In an absolute working directory a named tool is
  allowed exactly if safe mode does not stop a destructive one and, when it changes things and
  names a target, the target lies by path components below an entry of its scope; a tool of
  an MCP server is allowed exactly if server and tool are named, an untrusted server or safe
  mode does not stop a destructive one, the server's tool list, if any, has it, and its roots,
  if any, contain the target.
\<close>

theorem gateway_decides_by_scope:
  assumes "is_abs (os_cwd os)"
  shows "(tn_Allowed (EvaluateTool os d projectRoot target safe) \<longleftrightarrow>
      td_ID d \<noteq> [] \<and> \<not> (safe \<and> td_Kind d = Destructive) \<and>
      (td_Kind d \<in> {SideEffecting, Destructive} \<and> target \<noteq> [] \<longrightarrow>
         (\<exists>rt\<in>set (td_FilesystemScope d).
            rt = ''*'' \<or> entry_admits os (if rt = ''project-root'' then projectRoot else rt) target))) \<and>
    (tn_Allowed (EvaluateMCP os server d target safe) \<longleftrightarrow>
      mcp_ID server \<noteq> [] \<and> td_ID d \<noteq> [] \<and>
      \<not> (td_Kind d = Destructive \<and> (safe \<or> mcp_Trust server \<in> {[], ''untrusted''})) \<and>
      (mcp_AllowedTools server = [] \<or> td_ID d \<in> set (mcp_AllowedTools server) \<or> ''*'' \<in> set (mcp_AllowedTools server)) \<and>
      (mcp_RootScopes server \<noteq> [] \<and> target \<noteq> [] \<longrightarrow>
         (\<exists>rt\<in>set (mcp_RootScopes server). rt = ''*'' \<or> entry_admits os rt target)))"
proof
  show "tn_Allowed (EvaluateTool os d projectRoot target safe) \<longleftrightarrow>
      td_ID d \<noteq> [] \<and> \<not> (safe \<and> td_Kind d = Destructive) \<and>
      (td_Kind d \<in> {SideEffecting, Destructive} \<and> target \<noteq> [] \<longrightarrow>
         (\<exists>rt\<in>set (td_FilesystemScope d).
            rt = ''*'' \<or> entry_admits os (if rt = ''project-root'' then projectRoot else rt) target))"
    using in_scope_iff[OF assms, of projectRoot "td_FilesystemScope d" target]
    by (simp add: EvaluateTool_def refuse_def permit_def)
  show "tn_Allowed (EvaluateMCP os server d target safe) \<longleftrightarrow>
      mcp_ID server \<noteq> [] \<and> td_ID d \<noteq> [] \<and>
      \<not> (td_Kind d = Destructive \<and> (safe \<or> mcp_Trust server \<in> {[], ''untrusted''})) \<and>
      (mcp_AllowedTools server = [] \<or> td_ID d \<in> set (mcp_AllowedTools server) \<or> ''*'' \<in> set (mcp_AllowedTools server)) \<and>
      (mcp_RootScopes server \<noteq> [] \<and> target \<noteq> [] \<longrightarrow>
         (\<exists>rt\<in>set (mcp_RootScopes server). rt = ''*'' \<or> entry_admits os rt target))"
    using in_roots_iff[OF assms, of "mcp_RootScopes server" target] allowed_iff[of "td_ID d" "mcp_AllowedTools server"]
    by (cases "td_Kind d = Destructive"; cases "mcp_Trust server = []"; cases safe)
       (simp_all add: EvaluateMCP_def refuse_def permit_def Let_def)
qed

definition sample_os :: os where
  "sample_os = \<lparr>os_cwd = ''/w'', os_lstat = (\<lambda>_. Missing), os_eval = Inr\<rparr>"

definition sample_tool :: "Kind \<Rightarrow> Descriptor" where
  "sample_tool k = \<lparr>td_ID = ''t'', td_Version = 1, td_Description = [], td_Kind = k, td_Trust = ''core'',
     td_Capabilities = [''fs''], td_FilesystemScope = [''project-root''], td_NetworkEgress = [],
     td_CredentialScope = [], td_TimeoutMS = 0, td_OutputLimit = 0\<rparr>"

definition sample_server :: MCPServerDescriptor where
  "sample_server = \<lparr>mcp_ID = ''s'', mcp_Transport = ''stdio'', mcp_Command = [], mcp_Args = [], mcp_URL = [],
     mcp_Trust = ''partial'', mcp_AllowedTools = [], mcp_RootScopes = [], mcp_NetworkPolicy = [], mcp_SecretScopes = []\<rparr>"

text \<open>A sibling whose name extends the root's is outside, a file below it is inside.\<close>

lemma gateway_decides_by_scope_witness:
  "tn_Allowed (EvaluateTool sample_os (sample_tool SideEffecting) ''/repo'' ''/repo/a'' True) \<and>
   \<not> tn_Allowed (EvaluateTool sample_os (sample_tool SideEffecting) ''/repo'' ''/repo-private/a'' True)"
proof -
  have cwd: "is_abs (os_cwd sample_os)" by code_simp
  have "entry_admits sample_os ''/repo'' ''/repo/a''" "\<not> entry_admits sample_os ''/repo'' ''/repo-private/a''" by code_simp+
  then show ?thesis
    using gateway_decides_by_scope[OF cwd, of "sample_tool SideEffecting"] by (simp add: sample_tool_def)
qed

text \<open>
  A server without roots is asked for no containment at all, and a trust level other than the
  two of the code counts as trusted: a destructive tool reaches a path far from the project.
\<close>

lemma mcp_without_roots_admits:
  "tn_Allowed (EvaluateMCP sample_os sample_server (sample_tool Destructive) ''/etc/passwd'' False)"
  by code_simp

section \<open>The registry is canonical\<close>

definition registry_ok :: "registry \<Rightarrow> bool" where
  "registry_ok r \<longleftrightarrow> (\<forall>k d. r k = Some d \<longrightarrow> td_ID d = k)"

lemma registry_ok_New: "registry_ok NewRegistry"
  by (simp add: registry_ok_def NewRegistry_def)

lemma registry_ok_Register: "registry_ok r \<Longrightarrow> registry_ok (Register d r)"
  by (auto simp: registry_ok_def Register_def)

definition enumerates :: "string list \<Rightarrow> registry \<Rightarrow> bool" where
  "enumerates ks r \<longleftrightarrow> distinct ks \<and> set ks = dom r"

lemma map_filter_keys:
  "registry_ok r \<Longrightarrow> set ks \<subseteq> dom r \<Longrightarrow> map td_ID (List.map_filter r ks) = ks"
proof (induction ks)
  case (Cons k ks)
  then obtain d where "r k = Some d" by auto
  with Cons show ?case by (auto simp: List.map_filter_simps registry_ok_def)
qed (simp add: List.map_filter_simps)

lemma sort_key_canonical:
  assumes "distinct (map f xs)" "distinct (map f ys)" "set xs = set ys"
  shows "sort_key f xs = sort_key f ys"
proof -
  have "map f (sort_key f xs) = map f (sort_key f ys)"
    by (rule sorted_distinct_set_unique) (use assms in \<open>simp_all add: distinct_map\<close>)
  moreover have "inj_on f (set (sort_key f xs) \<union> set (sort_key f ys))" using assms by (simp add: distinct_map)
  ultimately show ?thesis by (rule map_inj_on)
qed

lemma set_map_filter_dom: "set ks = dom r \<Longrightarrow> set (List.map_filter r ks) = ran r"
proof -
  have "set (List.map_filter r ks) = {d. \<exists>k\<in>set ks. r k = Some d}"
    by (induction ks) (auto simp: List.map_filter_simps split: option.split)
  moreover assume "set ks = dom r"
  ultimately show ?thesis by (auto simp: ran_def)
qed

lemma enumerations_agree:
  "enumerates ks r \<Longrightarrow> enumerates ks' r \<Longrightarrow> set (List.map_filter r ks) = set (List.map_filter r ks')"
  by (simp add: enumerates_def set_map_filter_dom)

text \<open>Neither the listing nor a discovery depends on the order in which Go walks the map.\<close>

lemma registry_List_canonical:
  assumes "registry_ok r" "enumerates ks r" "enumerates ks' r"
  shows "registry_List ks r = registry_List ks' r"
  unfolding registry_List_def
  by (rule sort_key_canonical)
     (use assms(2,3) map_filter_keys[OF assms(1)] enumerations_agree[OF assms(2,3)] in \<open>simp_all add: enumerates_def\<close>)

lemma Discover_canonical:
  assumes "registry_ok r" "enumerates ks r" "enumerates ks' r"
  shows "Discover ks r needs = Discover ks' r needs"
proof -
  have ids: "map ts_ID (map tool_summary ds) = map td_ID ds" for ds by (simp add: tool_summary_def)
  have "distinct (map ts_ID (map tool_summary (filter (capable needs) (List.map_filter r ls))))"
    if "enumerates ls r" for ls
    unfolding ids using that map_filter_keys[OF assms(1), of ls] by (simp add: enumerates_def distinct_map_filter)
  then show ?thesis unfolding Discover_def
    by (intro sort_key_canonical) (use assms(2,3) enumerations_agree[OF assms(2,3)] in simp_all)
qed

text \<open>The notice is added on top of the budget, so a truncated output exceeds it.\<close>

lemma truncated_output_exceeds_budget:
  "EnforceOutputBudget sha out k = (t, True, p) \<Longrightarrow> int (length t) > k"
  by (auto simp: EnforceOutputBudget_def Let_def split: if_splits)

end
