(* ===== verification/Egress.thy ===== *)
theory Egress
  imports Boundary
begin

text \<open>
  \<open>internal/egress/policy.go\<close>: which data class may leave to which destination, secret lookup
  and redaction. The compiled patterns of a redactor are functions that replace their
  matches by a fixed string.
\<close>

section \<open>Decisions\<close>

datatype DataClass = Public | Internal | Confidential | Restricted | ClassOther string

record EgressDecision =
  eg_Allowed :: bool
  eg_Reason :: string
  eg_DataClass :: DataClass
  eg_Destination :: string

definition egress_answer :: "bool \<Rightarrow> string \<Rightarrow> DataClass \<Rightarrow> string \<Rightarrow> EgressDecision" where
  "egress_answer ok reason d dest = \<lparr>eg_Allowed = ok, eg_Reason = reason, eg_DataClass = d, eg_Destination = dest\<rparr>"

definition AllowLocal :: "DataClass \<Rightarrow> string \<Rightarrow> bool \<Rightarrow> EgressDecision" where
  "AllowLocal d dest local =
     (if d = Restricted \<and> \<not> local then egress_answer False ''restricted data requires local destination'' d dest
      else egress_answer True ''egress permitted by data policy'' d dest)"

definition AllowEgress :: "DataClass \<Rightarrow> string \<Rightarrow> bool \<Rightarrow> bool \<Rightarrow> EgressDecision" where
  "AllowEgress d dest secureTLS trustedHost =
     (let permitted = egress_answer True ''egress permitted by policy'' d dest in
      case d of
        Restricted \<Rightarrow> egress_answer False ''restricted data cannot egress externally'' d dest
      | Confidential \<Rightarrow>
          if \<not> secureTLS then egress_answer False ''confidential data requires secure TLS connection'' d dest
          else if \<not> trustedHost then egress_answer False ''confidential data requires trusted destination host'' d dest
          else permitted
      | Internal \<Rightarrow>
          if \<not> secureTLS \<and> \<not> has_prefix dest ''localhost'' \<and> \<not> has_prefix dest ''127.0.0.1''
          then egress_answer False ''internal data requires secure TLS connection for external hosts'' d dest
          else permitted
      | Public \<Rightarrow> permitted
      | ClassOther _ \<Rightarrow> permitted)"

lemma AllowEgress_iff:
  "eg_Allowed (AllowEgress d dest tls trusted) \<longleftrightarrow>
     d \<noteq> Restricted \<and> (d = Confidential \<longrightarrow> tls \<and> trusted) \<and>
     (d = Internal \<longrightarrow> tls \<or> has_prefix dest ''localhost'' \<or> has_prefix dest ''127.0.0.1'')"
  by (cases d) (auto simp: AllowEgress_def egress_answer_def Let_def)

text \<open>The exemption of the local host is a prefix test: a host of another domain passes it.\<close>

lemma local_prefix_is_not_local:
  "eg_Allowed (AllowEgress Internal ''localhost.example.com'' False False)"
  by (simp add: AllowEgress_iff has_prefix_def)

section \<open>Secrets and redaction\<close>

definition ResolveEnv :: "(string \<rightharpoonup> string) \<Rightarrow> string \<Rightarrow> string option" where
  "ResolveEnv env name = (case env name of None \<Rightarrow> None | Some v \<Rightarrow> if v = [] then None else Some v)"

definition ResolveStatic :: "(string \<rightharpoonup> string) \<Rightarrow> string \<Rightarrow> string option" where
  "ResolveStatic secrets name = secrets name"

definition Redact :: "(string \<Rightarrow> string) list \<Rightarrow> string \<Rightarrow> string" where
  "Redact res txt = foldl (\<lambda>t re. re t) txt res"

definition RedactValues :: "(string \<Rightarrow> string) list \<Rightarrow> string \<Rightarrow> string list \<Rightarrow> string" where
  "RedactValues res txt secrets =
     Redact res (foldl (\<lambda>t s. if length s > 0 then ReplaceAll t s ''[REDACTED_SECRET]'' else t) txt secrets)"

text \<open>A secret that begins with a character of no replacement and holds no bracket is gone.\<close>

lemma redacted_value_is_gone:
  assumes "s \<noteq> []" "hd s \<notin> set ''[REDACTED_SECRET]''" "CHR ''['' \<notin> set s"
  shows "\<not> sublist s (ReplaceAll txt s ''[REDACTED_SECRET]'')"
proof -
  have "clean_pairs [(s, ''[REDACTED_SECRET]'')]" using assms by (simp add: clean_pairs_def)
  from replacer_removes[OF this, of "(s, ''[REDACTED_SECRET]'')" "txt"] show ?thesis by (simp add: ReplaceAll_def)
qed

text \<open>
  Values are replaced one after the other: when one secret is a prefix of another and comes
  first, the rest of the longer one stays in the text.
\<close>

lemma prefix_secret_leaks_the_rest:
  "RedactValues [] ''key=abcXYZ'' [''abc'', ''abcXYZ''] = ''key=[REDACTED_SECRET]XYZ''"
  by code_simp

end
