(* ===== verification/RepoPolicy.thy ===== *)
theory RepoPolicy
  imports GoStrings
begin

text \<open>
  \<open>internal/repositorypolicy\<close>: \<open>policy.go\<close> (the repository policy, its own validation and the
  rules for branches, commits, tags and emergencies), \<open>evaluation.go\<close> (the local checks and the
  planned actions) and \<open>service.go\<close> (the comparison with the host and \<open>Apply\<close>).

  Regular expressions of the policy and glob patterns are matched by parameters; the commit
  pattern is fixed and translated. The host of the repository is a record of its four calls
  over a world \<open>'w\<close>, which any call may change.
\<close>

section \<open>The policy\<close>

record Branches =
  rb_AllowedCategories :: "string list"
  rb_Patterns :: "string \<rightharpoonup> string"
  rb_AutomationPrefixes :: "string list"

record Commits =
  rc_Types :: "string list"
  rc_SubjectRequired :: bool
  rc_Format :: string

record RepositoryPolicy =
  rp_SchemaVersion :: int
  rp_DefaultBranch :: string
  rp_Provider :: string
  rp_GovernanceProfile :: string
  rp_Branches :: Branches
  rp_Commits :: Commits
  rp_ForceMain :: string
  rp_RequiredApprovals :: int
  rp_MergeStrategy :: string
  rp_ConversationResolution :: bool
  rp_ForbiddenOperations :: "string list"
  rp_TagPattern :: string
  rp_ReleasePatterns :: "string list"
  rp_TagsDeletion :: string
  rp_TagsRewrite :: string
  rp_EmergencyEnabled :: bool
  rp_EmergencyFields :: "string list"

datatype policy_error = BadSchemaVersion int | DefaultBranchRequired | ProviderNotGithub | UnknownProfile string
  | NoCategories | NoCommitTypes | StrategyNotSquash | TagsMustDeny | ForceMainMustDeny

definition ValidatePolicy :: "RepositoryPolicy \<Rightarrow> policy_error option" where
  "ValidatePolicy p =
     (if rp_SchemaVersion p \<noteq> 1 then Some (BadSchemaVersion (rp_SchemaVersion p))
      else if rp_DefaultBranch p = [] then Some DefaultBranchRequired
      else if rp_Provider p \<noteq> ''github'' then Some ProviderNotGithub
      else if rp_GovernanceProfile p \<noteq> ''solo'' \<and> rp_GovernanceProfile p \<noteq> ''team'' \<and> rp_GovernanceProfile p \<noteq> ''strict''
        then Some (UnknownProfile (rp_GovernanceProfile p))
      else if rb_AllowedCategories (rp_Branches p) = [] then Some NoCategories
      else if rc_Types (rp_Commits p) = [] then Some NoCommitTypes
      else if rp_MergeStrategy p \<noteq> ''squash'' then Some StrategyNotSquash
      else if rp_TagsDeletion p \<noteq> ''deny'' \<or> rp_TagsRewrite p \<noteq> ''deny'' then Some TagsMustDeny
      else if rp_ForceMain p \<noteq> ''deny'' then Some ForceMainMustDeny
      else None)"

section \<open>Branches, commits, tags, emergencies\<close>

definition Category :: "string \<Rightarrow> string" where
  "Category branch =
     (if branch = [] then []
      else case index_of branch ''/'' of
             Some idx \<Rightarrow> if idx > 0 then take idx branch else []
           | None \<Rightarrow> [])"

definition BranchKind :: "Branches \<Rightarrow> string \<Rightarrow> string \<Rightarrow> string" where
  "BranchKind b branch defaultBranch =
     (if branch = defaultBranch then ''default''
      else if list_ex (\<lambda>pre. has_prefix branch pre) (rb_AutomationPrefixes b) then ''automation''
      else if list_ex (\<lambda>allowed. Category branch = allowed) (rb_AllowedCategories b) then ''work''
      else ''unknown'')"

datatype branch_error = NoWorkCategory string | NoCategoryPattern string | BranchMismatch string string

text \<open>\<open>re p s\<close> is \<open>regexp.MatchString\<close>: \<open>None\<close> for a pattern that does not compile.\<close>

definition ValidateBranch :: "(string \<Rightarrow> string \<Rightarrow> bool option) \<Rightarrow> Branches \<Rightarrow> string \<Rightarrow> string \<Rightarrow> branch_error option" where
  "ValidateBranch re b branch defaultBranch =
     (let kind = BranchKind b branch defaultBranch in
      if kind = ''default'' \<or> kind = ''automation'' then None
      else if kind \<noteq> ''work'' then Some (NoWorkCategory branch)
      else case rb_Patterns b (Category branch) of
             None \<Rightarrow> Some (NoCategoryPattern branch)
           | Some pattern \<Rightarrow> if re pattern branch = Some True then None else Some (BranchMismatch branch pattern))"

text \<open>
  \<open>commitPattern\<close>, \<open>^([a-z]+)(\([^)]*\))?:\s+\S\<close>: the type and what the rest must look like. The
  greedy letters cannot be followed by a letter, so the match is unique.
\<close>

definition re_lower :: "char \<Rightarrow> bool" where
  "re_lower c \<longleftrightarrow> (let n = (of_char c :: nat) in 97 \<le> n \<and> n \<le> 122)"

definition re_space :: "char \<Rightarrow> bool" where
  "re_space c \<longleftrightarrow> (of_char c :: nat) \<in> {9, 10, 12, 13, 32}"

definition after_scope :: "string \<Rightarrow> string option" where
  "after_scope s =
     (case s of
        c # r \<Rightarrow>
          if c = CHR ''('' then
            (case dropWhile (\<lambda>d. d \<noteq> CHR '')'') r of [] \<Rightarrow> None | _ # r' \<Rightarrow> Some r')
          else Some s
      | [] \<Rightarrow> Some s)"

definition commit_type :: "string \<Rightarrow> string option" where
  "commit_type subject =
     (let typ = takeWhile re_lower subject; rest = dropWhile re_lower subject in
      if typ = [] then None
      else case after_scope rest of
             None \<Rightarrow> None
           | Some [] \<Rightarrow> None
           | Some (c # r) \<Rightarrow>
               if c = CHR '':'' \<and> takeWhile re_space r \<noteq> [] \<and> dropWhile re_space r \<noteq> [] then Some typ else None)"

datatype commit_error = SubjectRequired | SubjectMalformed string | TypeNotAllowed string

definition ValidateCommit :: "Commits \<Rightarrow> string \<Rightarrow> commit_error option" where
  "ValidateCommit c subject =
     (let subject = trim_space subject in
      if subject = [] then (if rc_SubjectRequired c then Some SubjectRequired else None)
      else case commit_type subject of
             None \<Rightarrow> Some (SubjectMalformed subject)
           | Some typ \<Rightarrow> if list_ex (\<lambda>allowed. typ = allowed) (rc_Types c) then None else Some (TypeNotAllowed typ))"

definition ApprovalRequirement :: "int \<Rightarrow> string \<Rightarrow> int" where
  "ApprovalRequirement required risk =
     (if risk = ''high'' \<or> risk = ''critical'' then (if required > 1 then required else 1) else required)"

definition IsForbidden :: "RepositoryPolicy \<Rightarrow> string \<Rightarrow> bool" where
  "IsForbidden p operation \<longleftrightarrow> list_ex (\<lambda>f. operation = f) (rp_ForbiddenOperations p)"

definition ValidateTag :: "(string \<Rightarrow> string \<Rightarrow> bool option) \<Rightarrow> RepositoryPolicy \<Rightarrow> string \<Rightarrow> bool" where
  "ValidateTag re p tag \<longleftrightarrow> re (rp_TagPattern p) tag = Some True"

definition IsRelease :: "(string \<Rightarrow> string \<Rightarrow> bool option) \<Rightarrow> RepositoryPolicy \<Rightarrow> string \<Rightarrow> bool" where
  "IsRelease glob p tag \<longleftrightarrow> list_ex (\<lambda>pattern. glob pattern tag = Some True) (rp_ReleasePatterns p)"

datatype emergency_error = BypassDisabled | BypassMissing string

definition ValidateEmergency :: "(rat \<Rightarrow> string) \<Rightarrow> RepositoryPolicy \<Rightarrow> (string \<rightharpoonup> jval) \<Rightarrow> emergency_error option" where
  "ValidateEmergency num p rec =
     (if \<not> rp_EmergencyEnabled p then Some BypassDisabled
      else map_option BypassMissing
        (find (\<lambda>field. case rec field of None \<Rightarrow> True | Some v \<Rightarrow> sprint num v = []) (rp_EmergencyFields p)))"

section \<open>Checks and actions\<close>

datatype Status = Compliant | NonCompliant | Unavailable | Unsupported | EvaluationError

record Check =
  kh_ID :: string
  kh_Status :: Status
  kh_Severity :: string
  kh_Remediable :: bool
  kh_Source :: string
  kh_Explanation :: string

record Action =
  an_ID :: string
  an_Description :: string
  an_SideEffect :: string
  an_Reversibility :: string
  an_RequiredPermission :: string
  an_Risk :: string

record LocalState =
  lo_Branch :: string
  lo_Clean :: bool
  lo_HeadSubject :: string

definition EvaluateLocal :: "(string \<Rightarrow> string \<Rightarrow> bool option) \<Rightarrow> (branch_error \<Rightarrow> string) \<Rightarrow> (commit_error \<Rightarrow> string)
    \<Rightarrow> RepositoryPolicy \<Rightarrow> LocalState \<Rightarrow> Check list" where
  "EvaluateLocal re btext ctext p st =
     [case ValidateBranch re (rp_Branches p) (lo_Branch st) (rp_DefaultBranch p) of
        None \<Rightarrow> \<lparr>kh_ID = ''local.branch.naming'', kh_Status = Compliant, kh_Severity = ''medium'', kh_Remediable = False,
          kh_Source = ''local.git'', kh_Explanation = ''current branch matches repository policy''\<rparr>
      | Some e \<Rightarrow> \<lparr>kh_ID = ''local.branch.naming'', kh_Status = NonCompliant, kh_Severity = ''medium'', kh_Remediable = False,
          kh_Source = ''local.git'', kh_Explanation = btext e\<rparr>,
      \<lparr>kh_ID = ''local.working_tree.clean'', kh_Status = (if lo_Clean st then Compliant else NonCompliant),
        kh_Severity = ''low'', kh_Remediable = False, kh_Source = ''local.git'',
        kh_Explanation = (if lo_Clean st then ''working tree is clean'' else ''working tree has uncommitted changes'')\<rparr>,
      case ValidateCommit (rp_Commits p) (lo_HeadSubject st) of
        None \<Rightarrow> \<lparr>kh_ID = ''local.commit.subject'', kh_Status = Compliant, kh_Severity = ''medium'', kh_Remediable = False,
          kh_Source = ''local.git'', kh_Explanation = ''HEAD subject matches commit policy''\<rparr>
      | Some e \<Rightarrow> \<lparr>kh_ID = ''local.commit.subject'', kh_Status = NonCompliant, kh_Severity = ''medium'', kh_Remediable = False,
          kh_Source = ''local.git'', kh_Explanation = ctext e\<rparr>]"

definition remote_action :: "string \<Rightarrow> string \<Rightarrow> string \<Rightarrow> Action" where
  "remote_action i description risk = \<lparr>an_ID = i, an_Description = description, an_SideEffect = ''remote'',
     an_Reversibility = ''reversible'', an_RequiredPermission = ''admin'', an_Risk = risk\<rparr>"

definition remoteActions :: "Action list" where
  "remoteActions =
     [remote_action ''github.merge.squash_only'' ''Enable squash merge and disable merge commits and rebase merges'' ''medium'',
      remote_action ''github.branches.delete_after_merge'' ''Enable automatic deletion of merged branches'' ''low'',
      remote_action ''github.ruleset.main'' ''Ensure main is protected by a pull-request ruleset'' ''high'',
      remote_action ''github.ruleset.release_tags'' ''Protect semantic release tags from deletion and rewrite'' ''high'']"

definition PlanActions :: "Check list \<Rightarrow> bool \<Rightarrow> Action list" where
  "PlanActions checks remoteAvailable =
     map (\<lambda>c. \<lparr>an_ID = kh_ID c, an_Description = kh_Explanation c, an_SideEffect = ''remote'',
            an_Reversibility = ''policy-reversible'', an_RequiredPermission = ''admin'', an_Risk = kh_Severity c\<rparr>)
       (filter (\<lambda>c. kh_Status c = NonCompliant \<and> kh_Remediable c) checks)
     @ (if remoteAvailable then remoteActions else [])"

section \<open>The host\<close>

record HostState =
  hs_DefaultBranch :: string
  hs_SquashMerge :: bool
  hs_MergeCommits :: bool
  hs_RebaseMerge :: bool
  hs_DeleteAfterMerge :: bool

record RulesetState =
  ru_ID :: int
  ru_Name :: string
  ru_Target :: string
  ru_Enforcement :: string

definition status_of :: "bool \<Rightarrow> bool \<Rightarrow> Status" where
  "status_of match available = (if \<not> available then Unavailable else if match then Compliant else NonCompliant)"

definition containsFold :: "string \<Rightarrow> string \<Rightarrow> bool" where
  "containsFold v part \<longleftrightarrow> contains_str (to_lower v) (to_lower part)"

definition hasMainRuleset :: "RulesetState list \<Rightarrow> bool" where
  "hasMainRuleset rules \<longleftrightarrow> list_ex (\<lambda>r. ru_Target r \<noteq> ''tag'' \<and> containsFold (ru_Name r) ''main'') rules"

definition CompareRemote :: "RepositoryPolicy \<Rightarrow> HostState \<Rightarrow> RulesetState list \<Rightarrow> Check list" where
  "CompareRemote p remote rules =
     [\<lparr>kh_ID = ''github.repository.default_branch'',
        kh_Status = status_of (hs_DefaultBranch remote = rp_DefaultBranch p) (hs_DefaultBranch remote \<noteq> []),
        kh_Severity = ''high'', kh_Remediable = False, kh_Source = ''github'',
        kh_Explanation = ''default branch must match repository policy''\<rparr>,
      \<lparr>kh_ID = ''github.merge.squash_only'',
        kh_Status = status_of (hs_SquashMerge remote \<and> \<not> hs_MergeCommits remote \<and> \<not> hs_RebaseMerge remote) True,
        kh_Severity = ''medium'', kh_Remediable = True, kh_Source = ''github'',
        kh_Explanation = ''only squash merge should be enabled''\<rparr>,
      \<lparr>kh_ID = ''github.branches.delete_after_merge'', kh_Status = status_of (hs_DeleteAfterMerge remote) True,
        kh_Severity = ''low'', kh_Remediable = True, kh_Source = ''github'',
        kh_Explanation = ''merged branches should be deleted automatically''\<rparr>,
      \<lparr>kh_ID = ''github.ruleset.main'', kh_Status = status_of (hasMainRuleset rules) True,
        kh_Severity = ''high'', kh_Remediable = True, kh_Source = ''github'',
        kh_Explanation = ''main must be protected by a pull-request ruleset''\<rparr>]"

record RulesetPayload =
  pl_Name :: string
  pl_Target :: string
  pl_Enforcement :: string
  pl_Include :: "string list"
  pl_Rules :: "string list"
  pl_Approvals :: int
  pl_ThreadResolution :: bool
  pl_MergeMethods :: "string list"

definition MainRulesetPayload :: "RepositoryPolicy \<Rightarrow> RulesetPayload" where
  "MainRulesetPayload p = \<lparr>pl_Name = ''Prumo main governance'', pl_Target = ''branch'', pl_Enforcement = ''active'',
     pl_Include = [''~DEFAULT_BRANCH''],
     pl_Rules = [''deletion'', ''non_fast_forward'', ''required_linear_history'', ''pull_request''],
     pl_Approvals = rp_RequiredApprovals p, pl_ThreadResolution = rp_ConversationResolution p,
     pl_MergeMethods = [''squash'']\<rparr>"

record 'w host =
  ho_state :: "'w \<Rightarrow> (string, HostState) outcome \<times> 'w"
  ho_rulesets :: "'w \<Rightarrow> (string, RulesetState list) outcome \<times> 'w"
  ho_update :: "(string \<times> bool) list \<Rightarrow> 'w \<Rightarrow> string option \<times> 'w"
  ho_create :: "RulesetPayload \<Rightarrow> 'w \<Rightarrow> string option \<times> 'w"

record ApplyResult =
  ay_Applied :: "string list"
  ay_Skipped :: "string list"
  ay_DryRun :: bool

datatype apply_error = HostError string | StateChanged | RulesetsChanged

definition settings_for :: "HostState \<Rightarrow> (string \<times> bool) list" where
  "settings_for current =
     (if hs_MergeCommits current then [(''allow_merge_commit'', False)] else [])
     @ (if hs_RebaseMerge current then [(''allow_rebase_merge'', False)] else [])
     @ (if \<not> hs_SquashMerge current then [(''allow_squash_merge'', True)] else [])
     @ (if \<not> hs_DeleteAfterMerge current then [(''delete_branch_on_merge'', True)] else [])"

definition same_merge_settings :: "HostState \<Rightarrow> HostState \<Rightarrow> bool" where
  "same_merge_settings a b \<longleftrightarrow> hs_MergeCommits a = hs_MergeCommits b \<and> hs_RebaseMerge a = hs_RebaseMerge b
     \<and> hs_SquashMerge a = hs_SquashMerge b \<and> hs_DeleteAfterMerge a = hs_DeleteAfterMerge b"

text \<open>The first half of \<open>Apply\<close>: what it applied and skipped, or the error.\<close>

definition apply_settings :: "'w host \<Rightarrow> bool \<Rightarrow> 'w \<Rightarrow> (apply_error, string list \<times> string list) outcome \<times> 'w" where
  "apply_settings h dryRun w =
     (case ho_state h w of
        (Inl e, w) \<Rightarrow> (Inl (HostError e), w)
      | (Inr current, w) \<Rightarrow>
          if settings_for current = [] then (Inr ([], []), w)
          else if dryRun then (Inr ([], [''github.repository.settings'']), w)
          else (case ho_state h w of
                  (Inl e, w) \<Rightarrow> (Inl (HostError e), w)
                | (Inr fresh, w) \<Rightarrow>
                    if \<not> same_merge_settings fresh current then (Inl StateChanged, w)
                    else (case ho_update h (settings_for current) w of
                            (Some e, w) \<Rightarrow> (Inl (HostError e), w)
                          | (None, w) \<Rightarrow> (Inr ([''github.repository.settings''], []), w))))"

definition apply_ruleset :: "'w host \<Rightarrow> RepositoryPolicy \<Rightarrow> bool \<Rightarrow> 'w
    \<Rightarrow> (apply_error, string list \<times> string list) outcome \<times> 'w" where
  "apply_ruleset h p dryRun w =
     (case ho_rulesets h w of
        (Inl e, w) \<Rightarrow> (Inl (HostError e), w)
      | (Inr rules, w) \<Rightarrow>
          if hasMainRuleset rules then (Inr ([], []), w)
          else if dryRun then (Inr ([], [''github.ruleset.main'']), w)
          else (case ho_rulesets h w of
                  (Inl e, w) \<Rightarrow> (Inl (HostError e), w)
                | (Inr fresh, w) \<Rightarrow>
                    if length fresh \<noteq> length rules then (Inl RulesetsChanged, w)
                    else (case ho_create h (MainRulesetPayload p) w of
                            (Some e, w) \<Rightarrow> (Inl (HostError e), w)
                          | (None, w) \<Rightarrow> (Inr ([''github.ruleset.main''], []), w))))"

definition Apply :: "'w host \<Rightarrow> RepositoryPolicy \<Rightarrow> bool \<Rightarrow> 'w \<Rightarrow> (apply_error, ApplyResult) outcome \<times> 'w" where
  "Apply h p dryRun w =
     (case apply_settings h dryRun w of
        (Inl e, w) \<Rightarrow> (Inl e, w)
      | (Inr (applied, skipped), w) \<Rightarrow>
          (case apply_ruleset h p dryRun w of
             (Inl e, w) \<Rightarrow> (Inl e, w)
           | (Inr (applied', skipped'), w) \<Rightarrow>
               (Inr \<lparr>ay_Applied = applied @ applied', ay_Skipped = skipped @ skipped', ay_DryRun = dryRun\<rparr>, w)))"

section \<open>What applying a policy achieves\<close>

text \<open>What a settings request does to the merge settings of the host.\<close>

fun set_setting :: "HostState \<Rightarrow> string \<times> bool \<Rightarrow> HostState" where
  "set_setting s (k, b) =
     (if k = ''allow_merge_commit'' then s\<lparr>hs_MergeCommits := b\<rparr>
      else if k = ''allow_rebase_merge'' then s\<lparr>hs_RebaseMerge := b\<rparr>
      else if k = ''allow_squash_merge'' then s\<lparr>hs_SquashMerge := b\<rparr>
      else if k = ''delete_branch_on_merge'' then s\<lparr>hs_DeleteAfterMerge := b\<rparr>
      else s)"

text \<open>
  The documented behaviour of the host that \<open>Apply\<close> relies on, with \<open>st\<close> and \<open>rs\<close> the settings
  and rulesets it holds: reading changes nothing and tells the truth when it succeeds, a
  successful update sets the named settings only, a successful creation adds one ruleset as
  requested. Any call may fail, and a failed write may leave anything behind.
\<close>

definition host_ok :: "'w host \<Rightarrow> ('w \<Rightarrow> HostState) \<Rightarrow> ('w \<Rightarrow> RulesetState list) \<Rightarrow> bool" where
  "host_ok h st rs \<longleftrightarrow>
     (\<forall>w r w'. ho_state h w = (r, w') \<longrightarrow> w' = w \<and> (\<forall>s. r = Inr s \<longrightarrow> s = st w)) \<and>
     (\<forall>w r w'. ho_rulesets h w = (r, w') \<longrightarrow> w' = w \<and> (\<forall>l. r = Inr l \<longrightarrow> l = rs w)) \<and>
     (\<forall>ss w w'. ho_update h ss w = (None, w') \<longrightarrow> st w' = foldl set_setting (st w) ss \<and> rs w' = rs w) \<and>
     (\<forall>pl w w'. ho_create h pl w = (None, w') \<longrightarrow> st w' = st w \<and>
        (\<exists>r. ru_Name r = pl_Name pl \<and> ru_Target r = pl_Target pl \<and> ru_Enforcement r = pl_Enforcement pl \<and>
           set (rs w') = insert r (set (rs w))))"

lemma host_reads:
  assumes "host_ok h st rs"
  shows "ho_state h w = (r, w') \<Longrightarrow> w' = w \<and> (\<forall>s. r = Inr s \<longrightarrow> s = st w)"
    "ho_rulesets h w = (l, w') \<Longrightarrow> w' = w \<and> (\<forall>x. l = Inr x \<longrightarrow> x = rs w)"
  using assms unfolding host_ok_def by blast+

lemma settings_reached: "settings_for (foldl set_setting s (settings_for s)) = []"
  by (cases "hs_MergeCommits s"; cases "hs_RebaseMerge s"; cases "hs_SquashMerge s"; cases "hs_DeleteAfterMerge s")
     (simp_all add: settings_for_def)

lemma settings_for_Nil:
  "settings_for s = [] \<longleftrightarrow> hs_SquashMerge s \<and> \<not> hs_MergeCommits s \<and> \<not> hs_RebaseMerge s \<and> hs_DeleteAfterMerge s"
  by (auto simp: settings_for_def)

lemma payload_protects_main:
  assumes "ru_Name r = pl_Name (MainRulesetPayload p)" "ru_Target r = pl_Target (MainRulesetPayload p)" "r \<in> set rules"
  shows "hasMainRuleset rules"
proof -
  have "containsFold ''Prumo main governance'' ''main''" by code_simp
  with assms(1,2) have "ru_Target r \<noteq> ''tag'' \<and> containsFold (ru_Name r) ''main''" by (simp add: MainRulesetPayload_def)
  with assms(3) show ?thesis unfolding hasMainRuleset_def list_ex_iff by blast
qed

lemma apply_settings_facts:
  assumes ok: "host_ok h st rs" and run: "apply_settings h False w = (Inr x, w')"
  shows "settings_for (st w') = []" "rs w' = rs w"
proof -
  obtain current where c: "ho_state h w = (Inr current, w)" "current = st w"
    using run host_reads(1)[OF ok] by (cases "ho_state h w") (fastforce simp: apply_settings_def split: sum.splits)
  have "settings_for (st w') = [] \<and> rs w' = rs w"
  proof (cases "settings_for current = []")
    case True
    with run c show ?thesis by (simp add: apply_settings_def)
  next
    case False
    then obtain w1 where u: "ho_update h (settings_for current) w = (None, w1)" "w' = w1"
      using run c by (auto simp: apply_settings_def split: sum.splits if_splits option.splits prod.splits)
    then have "st w' = foldl set_setting (st w) (settings_for (st w))" "rs w' = rs w"
      using ok c(2) unfolding host_ok_def by blast+
    then show ?thesis by (simp add: settings_reached)
  qed
  then show "settings_for (st w') = []" "rs w' = rs w" by auto
qed

lemma apply_ruleset_facts:
  assumes ok: "host_ok h st rs" and run: "apply_ruleset h p False w = (Inr x, w')"
  shows "hasMainRuleset (rs w')" "st w' = st w"
proof -
  obtain rules where c: "ho_rulesets h w = (Inr rules, w)" "rules = rs w"
    using run host_reads(2)[OF ok] by (cases "ho_rulesets h w") (fastforce simp: apply_ruleset_def split: sum.splits)
  have "hasMainRuleset (rs w') \<and> st w' = st w"
  proof (cases "hasMainRuleset rules")
    case True
    with run c show ?thesis by (auto simp: apply_ruleset_def)
  next
    case False
    then obtain w1 where u: "ho_create h (MainRulesetPayload p) w = (None, w1)" "w' = w1"
      using run c by (auto simp: apply_ruleset_def split: sum.splits if_splits option.splits prod.splits)
    then obtain r where "st w' = st w" "ru_Name r = pl_Name (MainRulesetPayload p)"
      "ru_Target r = pl_Target (MainRulesetPayload p)" "r \<in> set (rs w')"
      using ok unfolding host_ok_def by blast
    with payload_protects_main show ?thesis by blast
  qed
  then show "hasMainRuleset (rs w')" "st w' = st w" by auto
qed

lemma apply_again:
  assumes ok: "host_ok h st rs" and fin: "settings_for (st w) = []" "hasMainRuleset (rs w)"
  shows "Apply h p dry w \<in> insert (Inr \<lparr>ay_Applied = [], ay_Skipped = [], ay_DryRun = dry\<rparr>, w) (range (\<lambda>e. (Inl (HostError e), w)))"
proof -
  obtain s where s: "ho_state h w = (s, w)" "\<And>x. s = Inr x \<Longrightarrow> x = st w"
    using host_reads(1)[OF ok] by (metis prod.exhaust)
  obtain l where l: "ho_rulesets h w = (l, w)" "\<And>x. l = Inr x \<Longrightarrow> x = rs w"
    using host_reads(2)[OF ok] by (metis prod.exhaust)
  show ?thesis
  proof (cases s)
    case (Inr x)
    then have a: "apply_settings h dry w = (Inr ([], []), w)" using s fin(1) by (simp add: apply_settings_def)
    show ?thesis
      using a l fin(2) by (cases l) (simp_all add: Apply_def apply_ruleset_def)
  qed (simp add: Apply_def apply_settings_def s)
qed

lemma dry_run_ignores_writes:
  "Apply (h\<lparr>ho_update := u, ho_create := c\<rparr>) p True v = Apply h p True v"
proof -
  have "apply_settings (h\<lparr>ho_update := u, ho_create := c\<rparr>) True = apply_settings h True"
    by (rule ext) (simp add: apply_settings_def split: sum.split prod.split)
  moreover have "apply_ruleset (h\<lparr>ho_update := u, ho_create := c\<rparr>) p True = apply_ruleset h p True"
    by (rule ext) (simp add: apply_ruleset_def split: sum.split prod.split)
  ultimately show ?thesis unfolding Apply_def by (simp only:)
qed

text \<open>
  C31: applying a policy is idempotent and reaches it. When \<open>Apply\<close> reports success against a
  host that does what it documents, every remediable check of the comparison is compliant and
  a second run, dry or not, changes nothing: it finds nothing to apply or skip unless the host
  cannot be read. A dry run never writes: its result is the same whatever the writing calls do.
\<close>

theorem apply_is_idempotent:
  assumes "host_ok h st rs" "Apply h p False w = (Inr r, w')"
  shows "(\<forall>c\<in>set (CompareRemote p (st w') (rs w')). kh_Remediable c \<longrightarrow> kh_Status c = Compliant) \<and>
    (\<forall>dry. Apply h p dry w' = (Inr \<lparr>ay_Applied = [], ay_Skipped = [], ay_DryRun = dry\<rparr>, w') \<or>
      (\<exists>e. Apply h p dry w' = (Inl (HostError e), w'))) \<and>
    (\<forall>v u c. Apply (h\<lparr>ho_update := u, ho_create := c\<rparr>) p True v = Apply h p True v)"
proof -
  obtain x w1 where x: "apply_settings h False w = (Inr x, w1)"
    using assms(2) by (auto simp: Apply_def split: sum.splits prod.splits)
  then obtain y where y: "apply_ruleset h p False w1 = (Inr y, w')"
    using assms(2) by (auto simp: Apply_def split: sum.splits prod.splits)
  have s: "settings_for (st w') = []" and m: "hasMainRuleset (rs w')"
    using apply_settings_facts(1)[OF assms(1) x] apply_ruleset_facts[OF assms(1) y] by simp_all
  have "\<forall>c\<in>set (CompareRemote p (st w') (rs w')). kh_Remediable c \<longrightarrow> kh_Status c = Compliant"
    using s m by (simp add: CompareRemote_def status_of_def settings_for_Nil)
  moreover have "Apply h p dry w' = (Inr \<lparr>ay_Applied = [], ay_Skipped = [], ay_DryRun = dry\<rparr>, w') \<or>
      (\<exists>e. Apply h p dry w' = (Inl (HostError e), w'))" for dry
    using apply_again[OF assms(1) s m, of p dry] by auto
  ultimately show ?thesis by (simp add: dry_run_ignores_writes)
qed

text \<open>A host whose world is the pair of its settings and rulesets.\<close>

definition sample_host :: "(HostState \<times> RulesetState list) host" where
  "sample_host = \<lparr>ho_state = (\<lambda>w. (Inr (fst w), w)), ho_rulesets = (\<lambda>w. (Inr (snd w), w)),
     ho_update = (\<lambda>ss w. (None, (foldl set_setting (fst w) ss, snd w))),
     ho_create = (\<lambda>pl w. (None, (fst w, \<lparr>ru_ID = 1, ru_Name = pl_Name pl, ru_Target = pl_Target pl,
        ru_Enforcement = pl_Enforcement pl\<rparr> # snd w)))\<rparr>"

lemma sample_host_ok: "host_ok sample_host fst snd"
proof -
  have "\<exists>r. ru_Name r = pl_Name pl \<and> ru_Target r = pl_Target pl \<and> ru_Enforcement r = pl_Enforcement pl \<and>
      insert \<lparr>ru_ID = 1, ru_Name = pl_Name pl, ru_Target = pl_Target pl, ru_Enforcement = pl_Enforcement pl\<rparr> R = insert r R"
    for pl R
    by (rule exI[of _ "\<lparr>ru_ID = 1, ru_Name = pl_Name pl, ru_Target = pl_Target pl, ru_Enforcement = pl_Enforcement pl\<rparr>"]) simp
  then show ?thesis unfolding host_ok_def sample_host_def by simp blast
qed

definition sample_policy :: RepositoryPolicy where
  "sample_policy = \<lparr>rp_SchemaVersion = 1, rp_DefaultBranch = ''main'', rp_Provider = ''github'',
     rp_GovernanceProfile = ''solo'',
     rp_Branches = \<lparr>rb_AllowedCategories = [''feat''], rb_Patterns = (\<lambda>_. None), rb_AutomationPrefixes = []\<rparr>,
     rp_Commits = \<lparr>rc_Types = [''feat''], rc_SubjectRequired = True, rc_Format = []\<rparr>, rp_ForceMain = ''deny'',
     rp_RequiredApprovals = 0, rp_MergeStrategy = ''squash'', rp_ConversationResolution = True,
     rp_ForbiddenOperations = [], rp_TagPattern = [], rp_ReleasePatterns = [], rp_TagsDeletion = ''deny'',
     rp_TagsRewrite = ''deny'', rp_EmergencyEnabled = False, rp_EmergencyFields = []\<rparr>"

definition open_host :: "HostState \<times> RulesetState list" where
  "open_host = (\<lparr>hs_DefaultBranch = ''main'', hs_SquashMerge = True, hs_MergeCommits = True, hs_RebaseMerge = False,
     hs_DeleteAfterMerge = False\<rparr>, [])"

lemma sample_apply:
  "map_sum id ay_Applied (fst (Apply sample_host sample_policy False open_host))
   = Inr [''github.repository.settings'', ''github.ruleset.main'']"
  by code_simp

lemma apply_is_idempotent_witness:
  "\<exists>r w'. Apply sample_host sample_policy False open_host = (Inr r, w') \<and>
     ay_Applied r \<noteq> [] \<and> (\<forall>e. Apply sample_host sample_policy False w' \<noteq> (Inl (HostError e), w') \<longrightarrow>
       Apply sample_host sample_policy False w' = (Inr \<lparr>ay_Applied = [], ay_Skipped = [], ay_DryRun = False\<rparr>, w'))"
proof -
  obtain r w' where r: "Apply sample_host sample_policy False open_host = (Inr r, w')" "ay_Applied r \<noteq> []"
    using sample_apply by (cases "Apply sample_host sample_policy False open_host"; cases "fst (Apply sample_host sample_policy False open_host)") auto
  have reads: "\<nexists>e. Apply sample_host sample_policy False w' = (Inl (HostError e), w')"
    by (simp add: Apply_def apply_settings_def apply_ruleset_def sample_host_def)
  from apply_is_idempotent[OF sample_host_ok r(1)] r reads show ?thesis by blast
qed

text \<open>Only the name is looked at: a disabled ruleset for domains passes for the protection of main.\<close>

lemma domain_ruleset_counts:
  "hasMainRuleset [\<lparr>ru_ID = 7, ru_Name = ''Domain names'', ru_Target = ''branch'', ru_Enforcement = ''disabled''\<rparr>]"
  by code_simp

end
