(* ===== verification/RunMachine.thy ===== *)
theory RunMachine
  imports GoStrings
begin

text \<open>
  \<open>internal/runtime/runtime.go\<close>: the older run state machine with its executor sessions,
  checkpoints and portable continuation records. The clock is the argument \<open>stamp\<close> of the
  operations that read it; the state of the repository, read by git commands, is a value.
  \<open>run_step\<close> is the step relation of a run and \<open>run_reaches\<close> its histories.
\<close>

section \<open>Runs\<close>

datatype RunStatus = RunCreated | RunPlanning | RunReady | RunRunning | RunWaitingApproval | RunWaitingResource
  | RunRetrying | RunVerifying | RunBlocked | RunCompleted | RunFailed | RunCancelled

record Run =
  rn_ID :: string
  rn_Version :: int
  rn_GoalID :: string
  rn_TaskID :: string
  rn_Status :: RunStatus
  rn_CreatedAt :: string
  rn_StartedAt :: string
  rn_FinishedAt :: string
  rn_Sessions :: "string list"
  rn_LatestCheckpoint :: string
  rn_Evidence :: "string list"
  rn_Failure :: string
  rn_PendingSideEffects :: "string list"

fun run_transitions :: "RunStatus \<Rightarrow> RunStatus list" where
  "run_transitions RunCreated = [RunPlanning, RunCancelled]"
| "run_transitions RunPlanning = [RunReady, RunBlocked, RunCancelled]"
| "run_transitions RunReady = [RunRunning, RunCancelled]"
| "run_transitions RunRunning = [RunWaitingApproval, RunWaitingResource, RunRetrying, RunVerifying, RunBlocked,
     RunCompleted, RunFailed, RunCancelled]"
| "run_transitions RunRetrying = [RunRunning, RunFailed, RunCancelled]"
| "run_transitions RunVerifying = [RunCompleted, RunFailed, RunBlocked, RunCancelled]"
| "run_transitions RunWaitingApproval = [RunRunning, RunBlocked, RunCancelled]"
| "run_transitions RunWaitingResource = [RunRunning, RunBlocked, RunCancelled]"
| "run_transitions RunBlocked = [RunPlanning, RunCancelled]"
| "run_transitions _ = []"

definition NewRun :: "string \<Rightarrow> string \<Rightarrow> string \<Rightarrow> string \<Rightarrow> Run" where
  "NewRun stamp i goal task = \<lparr>rn_ID = i, rn_Version = 1, rn_GoalID = goal, rn_TaskID = task,
     rn_Status = RunCreated, rn_CreatedAt = stamp, rn_StartedAt = [], rn_FinishedAt = [], rn_Sessions = [],
     rn_LatestCheckpoint = [], rn_Evidence = [], rn_Failure = [], rn_PendingSideEffects = []\<rparr>"

text \<open>An invalid transition returns the run unchanged and the pair of states.\<close>

definition RunTransition :: "string \<Rightarrow> RunStatus \<Rightarrow> Run \<Rightarrow> Run \<times> (RunStatus \<times> RunStatus) option" where
  "RunTransition stamp next r =
     (if next \<notin> set (run_transitions (rn_Status r)) then (r, Some (rn_Status r, next))
      else
        let r = r\<lparr>rn_Status := next\<rparr>;
            r = (if next = RunRunning \<and> rn_StartedAt r = [] then r\<lparr>rn_StartedAt := stamp\<rparr> else r);
            r = (if next = RunCompleted \<or> next = RunFailed \<or> next = RunCancelled then r\<lparr>rn_FinishedAt := stamp\<rparr> else r)
        in (r, None))"

definition CanRetry :: "string \<Rightarrow> int \<Rightarrow> int \<Rightarrow> bool" where
  "CanRetry failureClass attempts maxAttempts \<longleftrightarrow>
     attempts < maxAttempts \<and> failureClass \<noteq> ''side_effect_unknown'' \<and> failureClass \<noteq> ''budget_exhausted''
     \<and> failureClass \<noteq> ''internal_invariant''"

section \<open>Sessions, checkpoints, continuations\<close>

record ExecutorSession =
  es_ID :: string
  es_Version :: int
  es_RunID :: string
  es_StartedAt :: string
  es_EndedAt :: string
  es_Harness :: string
  es_Model :: string
  es_EndReason :: string
  es_Status :: string
  es_Predecessor :: string
  es_Successor :: string

definition NewSession :: "string \<Rightarrow> string \<Rightarrow> string \<Rightarrow> string \<Rightarrow> string \<Rightarrow> ExecutorSession" where
  "NewSession stamp i runID harness model = \<lparr>es_ID = i, es_Version = 1, es_RunID = runID, es_StartedAt = stamp,
     es_EndedAt = [], es_Harness = harness, es_Model = model, es_EndReason = [], es_Status = ''active'',
     es_Predecessor = [], es_Successor = []\<rparr>"

definition EndSession :: "string \<Rightarrow> string \<Rightarrow> ExecutorSession \<Rightarrow> ExecutorSession" where
  "EndSession stamp reason s = s\<lparr>es_Status := ''ended'', es_EndReason := reason, es_EndedAt := stamp\<rparr>"

definition AttachSession :: "ExecutorSession \<Rightarrow> Run \<Rightarrow> Run" where
  "AttachSession s r = r\<lparr>rn_Sessions := rn_Sessions r @ [es_ID s]\<rparr>"

record RunCheckpoint =
  rk_ID :: string
  rk_Version :: int
  rk_RunID :: string
  rk_Phase :: string
  rk_CreatedAt :: string
  rk_CompletedSteps :: "string list"
  rk_PendingSteps :: "string list"
  rk_ResumeToken :: string

definition NewRunCheckpoint :: "string \<Rightarrow> string \<Rightarrow> string \<Rightarrow> string \<Rightarrow> string list \<Rightarrow> string list \<Rightarrow> RunCheckpoint" where
  "NewRunCheckpoint stamp i runID phase completed pending = \<lparr>rk_ID = i, rk_Version = 1, rk_RunID = runID,
     rk_Phase = phase, rk_CreatedAt = stamp, rk_CompletedSteps = completed, rk_PendingSteps = pending, rk_ResumeToken = i\<rparr>"

record RepositoryState =
  rs_Branch :: string
  rs_Revision :: string
  rs_Dirty :: bool

record ContinuationRecord =
  cn_Version :: int
  cn_Project :: string
  cn_Goal :: string
  cn_Task :: string
  cn_Run :: string
  cn_State :: string
  cn_Repository :: RepositoryState
  cn_Completed :: "string list"
  cn_Current :: "string list"
  cn_Pending :: "string list"
  cn_Evidence :: "string list"
  cn_PendingSideEffects :: "string list"
  cn_NextSteps :: "string list"

fun run_status_string :: "RunStatus \<Rightarrow> string" where
  "run_status_string RunCreated = ''created''"
| "run_status_string RunPlanning = ''planning''"
| "run_status_string RunReady = ''ready''"
| "run_status_string RunRunning = ''running''"
| "run_status_string RunWaitingApproval = ''waiting_approval''"
| "run_status_string RunWaitingResource = ''waiting_resource''"
| "run_status_string RunRetrying = ''retrying''"
| "run_status_string RunVerifying = ''verifying''"
| "run_status_string RunBlocked = ''blocked''"
| "run_status_string RunCompleted = ''completed''"
| "run_status_string RunFailed = ''failed''"
| "run_status_string RunCancelled = ''cancelled''"

definition ContinuationFromRun :: "Run \<Rightarrow> RepositoryState \<Rightarrow> string list \<Rightarrow> string list \<Rightarrow> string list \<Rightarrow> string list
    \<Rightarrow> ContinuationRecord" where
  "ContinuationFromRun r repo completed current pending nextSteps = \<lparr>cn_Version = 1, cn_Project = ''prumo'',
     cn_Goal = rn_GoalID r, cn_Task = rn_TaskID r, cn_Run = rn_ID r, cn_State = run_status_string (rn_Status r),
     cn_Repository = repo, cn_Completed = completed, cn_Current = current, cn_Pending = pending,
     cn_Evidence = rn_Evidence r, cn_PendingSideEffects = rn_PendingSideEffects r, cn_NextSteps = nextSteps\<rparr>"

definition bullet_list :: "string \<Rightarrow> string list \<Rightarrow> string" where
  "bullet_list title vs = ''\<newline>'' @ title @ ''\<newline>'' @ concat (map (\<lambda>v. ''- '' @ v @ ''\<newline>'') vs)"

definition RenderPrompt :: "ContinuationRecord \<Rightarrow> string" where
  "RenderPrompt c =
     ''Prumo Portable Continuation\<newline>\<newline>''
     @ ''Run: '' @ cn_Run c @ ''\<newline>State: '' @ cn_State c @ ''\<newline>''
     @ (if cn_Goal c \<noteq> [] then ''Goal: '' @ cn_Goal c @ ''\<newline>'' else [])
     @ (if rs_Branch (cn_Repository c) \<noteq> [] then ''Branch: '' @ rs_Branch (cn_Repository c) @ '' @ '' @ rs_Revision (cn_Repository c)
          @ '' (dirty='' @ (if rs_Dirty (cn_Repository c) then ''true'' else ''false'') @ '')\<newline>'' else [])
     @ bullet_list ''Completed:'' (cn_Completed c) @ bullet_list ''Current:'' (cn_Current c)
     @ bullet_list ''Pending:'' (cn_Pending c) @ bullet_list ''Next steps:'' (cn_NextSteps c)
     @ (if cn_PendingSideEffects c \<noteq> []
        then bullet_list ''Pending side effects require reconciliation before replay:'' (cn_PendingSideEffects c) else [])"

section \<open>Histories of a run\<close>

inductive run_step :: "Run \<Rightarrow> Run \<Rightarrow> bool" where
  step_transition: "stamp \<noteq> [] \<Longrightarrow> run_step r (fst (RunTransition stamp next r))"
| step_attach: "run_step r (AttachSession s r)"

inductive run_reaches :: "Run \<Rightarrow> Run \<Rightarrow> bool" where
  reaches_refl: "run_reaches r r"
| reaches_step: "run_reaches r q \<Longrightarrow> run_step q q' \<Longrightarrow> run_reaches r q'"

definition run_ended :: "RunStatus \<Rightarrow> bool" where
  "run_ended s \<longleftrightarrow> s \<in> {RunCompleted, RunFailed, RunCancelled}"

definition run_ok :: "Run \<Rightarrow> bool" where
  "run_ok r \<longleftrightarrow> (rn_FinishedAt r \<noteq> [] \<longleftrightarrow> run_ended (rn_Status r)) \<and>
     (rn_Status r \<in> {RunRunning, RunWaitingApproval, RunWaitingResource, RunRetrying, RunVerifying, RunCompleted, RunFailed}
        \<longrightarrow> rn_StartedAt r \<noteq> [])"

lemma ended_no_transition: "run_ended s \<longleftrightarrow> run_transitions s = []"
  by (cases s) (auto simp: run_ended_def)

lemma run_ok_transition:
  assumes "run_ok r" "stamp \<noteq> []" "next \<in> set (run_transitions (rn_Status r))"
  shows "run_ok (fst (RunTransition stamp next r))"
  using assms by (cases "rn_Status r") (auto simp: run_ok_def RunTransition_def run_ended_def Let_def)

lemma run_ok_step:
  assumes "run_ok r" "run_step r r'"
  shows "run_ok r'"
  using assms(2)
proof cases
  case (step_transition stamp nxt)
  then show ?thesis
    using run_ok_transition[OF assms(1)] assms(1)
    by (cases "nxt \<in> set (run_transitions (rn_Status r))") (simp_all add: RunTransition_def)
next
  case (step_attach s)
  with assms(1) show ?thesis by (simp add: run_ok_def AttachSession_def)
qed

lemma run_ok_reaches: "run_reaches p q \<Longrightarrow> run_ok p \<Longrightarrow> run_ok q"
  by (induction rule: run_reaches.induct) (simp_all add: run_ok_step)

lemma run_ok_new: "run_ok (NewRun stamp i goal task)"
  by (simp add: run_ok_def NewRun_def run_ended_def)

lemma run_step_start: "run_step r r' \<Longrightarrow> rn_StartedAt r \<noteq> [] \<Longrightarrow> rn_StartedAt r' = rn_StartedAt r"
  by (induction rule: run_step.cases) (auto simp: RunTransition_def AttachSession_def Let_def)

lemma run_step_ended: "run_step r r' \<Longrightarrow> run_ended (rn_Status r) \<Longrightarrow> rn_Status r' = rn_Status r \<and> rn_FinishedAt r' = rn_FinishedAt r"
  by (induction rule: run_step.cases) (auto simp: ended_no_transition RunTransition_def AttachSession_def)

text \<open>
  However transitions and sessions follow each other from a new run on: a run carries an end
  time exactly in its three final states and never leaves them, no run completes, fails, waits
  or verifies without having started, and the start time never changes.
\<close>

lemma run_history_is_consistent:
  assumes "run_reaches (NewRun stamp i goal task) r"
  shows "(rn_FinishedAt r \<noteq> [] \<longleftrightarrow> rn_Status r \<in> {RunCompleted, RunFailed, RunCancelled}) \<and>
    (rn_Status r \<in> {RunRunning, RunWaitingApproval, RunWaitingResource, RunRetrying, RunVerifying, RunCompleted, RunFailed}
       \<longrightarrow> rn_StartedAt r \<noteq> []) \<and>
    (\<forall>r'. run_reaches r r' \<longrightarrow>
       (rn_StartedAt r \<noteq> [] \<longrightarrow> rn_StartedAt r' = rn_StartedAt r) \<and>
       (run_ended (rn_Status r) \<longrightarrow> rn_Status r' = rn_Status r \<and> rn_FinishedAt r' = rn_FinishedAt r))"
proof -
  have ok: "run_ok r" by (rule run_ok_reaches[OF assms run_ok_new])
  have start: "rn_StartedAt r' = rn_StartedAt q" if "run_reaches q r'" "rn_StartedAt q \<noteq> []" for q r'
    using that by (induction rule: run_reaches.induct) (auto simp: run_step_start)
  have ended: "rn_Status r' = rn_Status q \<and> rn_FinishedAt r' = rn_FinishedAt q"
    if "run_reaches q r'" "run_ended (rn_Status q)" for q r'
    using that by (induction rule: run_reaches.induct) (auto simp: run_step_ended)
  from ok start ended show ?thesis unfolding run_ok_def run_ended_def by blast
qed

end
