(* ===== verification/DaemonLock.thy ===== *)
theory DaemonLock
  imports GoStrings
begin

text \<open>
  \<open>internal/harness/daemon/supervise.go\<close>: the single-instance lock and \<open>Stop\<close>. The lock file is its
  text, absent when there is none; the JSON codec of a lock record is the parameters \<open>enc\<close> and
  \<open>js\<close>. The processes of the machine are the record \<open>procs\<close>: the state letter \<open>/proc\<close> shows and what
  signal 0 answers. \<open>AcquireLock\<close> is given twice: as the sequential operation with its failures, and
  as the atomic file operations of many callers interleaved.
\<close>

section \<open>Numbers in text\<close>

text \<open>\<open>strconv.Atoi\<close> on a 64-bit platform.\<close>

definition is_digit :: "char \<Rightarrow> bool" where
  "is_digit c \<longleftrightarrow> (48 :: nat) \<le> of_char c \<and> of_char c \<le> (57 :: nat)"

definition atoi :: "string \<Rightarrow> int option" where
  "atoi s =
     (let neg = (s \<noteq> [] \<and> hd s = CHR ''-'');
          ds = (if s \<noteq> [] \<and> (hd s = CHR ''-'' \<or> hd s = CHR ''+'') then tl s else s);
          v = (if neg then - int (undec ds) else int (undec ds))
      in if ds = [] \<or> \<not> list_all is_digit ds then None
         else if v < - (2 ^ 63) \<or> 2 ^ 63 \<le> v then None else Some v)"

section \<open>Lock records\<close>

record LockRecord =
  lk_PID :: int
  lk_StartTime :: nat
  lk_BootID :: string
  lk_Version :: int
  lk_AcquiredAt :: string

datatype lock_error = NoLockFile | BadLock | NamesNoProcess

text \<open>A file that is not a record may be the bare number of the older format.\<close>

definition ReadLock :: "(string \<Rightarrow> LockRecord option) \<Rightarrow> string option \<Rightarrow> (lock_error, LockRecord) outcome" where
  "ReadLock js f =
     (case f of None \<Rightarrow> Inl NoLockFile
      | Some data \<Rightarrow>
        (case js data of
           None \<Rightarrow> (case atoi (trim_space data) of
               None \<Rightarrow> Inl BadLock
             | Some legacy \<Rightarrow> if legacy \<le> 0 then Inl BadLock
                 else Inr \<lparr>lk_PID = legacy, lk_StartTime = 0, lk_BootID = [], lk_Version = 0, lk_AcquiredAt = []\<rparr>)
         | Some r \<Rightarrow> if lk_PID r \<le> 0 then Inl NamesNoProcess else Inr r))"

definition ReadPID :: "(string \<Rightarrow> LockRecord option) \<Rightarrow> string option \<Rightarrow> (lock_error, int) outcome" where
  "ReadPID js f = (case ReadLock js f of Inl e \<Rightarrow> Inl e | Inr r \<Rightarrow> Inr (lk_PID r))"

definition sameIdentity :: "LockRecord \<Rightarrow> LockRecord \<Rightarrow> bool" where
  "sameIdentity a b =
     (if lk_PID a \<noteq> lk_PID b then False
      else if lk_StartTime a = 0 \<or> lk_StartTime b = 0 then True
      else lk_StartTime a = lk_StartTime b \<and> lk_BootID a = lk_BootID b)"

text \<open>The state letter is absent when the platform does not tell; signal 0 also reaches a zombie.\<close>

record procs =
  pr_state :: "int \<Rightarrow> char option"
  pr_signalled :: "int \<Rightarrow> bool"

definition processAlive :: "procs \<Rightarrow> LockRecord \<Rightarrow> bool" where
  "processAlive ps r =
     (if pr_state ps (lk_PID r) = Some CHR ''Z'' \<or> pr_state ps (lk_PID r) = Some CHR ''X'' then False
      else pr_signalled ps (lk_PID r))"

section \<open>Acquiring and releasing\<close>

datatype verdict = Refuse int | TakeUnreadable lock_error | TakeStale

text \<open>What \<open>AcquireLock\<close> makes of an existing lock; \<open>me\<close> is the record of the caller.\<close>

definition lock_verdict :: "(string \<Rightarrow> LockRecord option) \<Rightarrow> procs \<Rightarrow> LockRecord \<Rightarrow> string option \<Rightarrow> verdict" where
  "lock_verdict js ps me f =
     (case ReadLock js f of
        Inl e \<Rightarrow> TakeUnreadable e
      | Inr existing \<Rightarrow>
          if 0 < lk_PID existing \<and> processAlive ps existing \<and> sameIdentity existing me
          then Refuse (lk_PID existing) else TakeStale)"

datatype acquire_error =
    MkdirFailed | StagingFailed | LinkFailed | AlreadyRunning int
  | UnreadableNotReplaced lock_error | TakeOverFailed

record lock_io =
  li_mkdir_fails :: bool
  li_staging_fails :: bool
  li_link_fails :: bool
  li_takeover_fails :: bool

text \<open>\<open>takeOver\<close> writes a temporary file and renames it, so a failure leaves the lock as it was.\<close>

definition takeOver :: "(LockRecord \<Rightarrow> string) \<Rightarrow> bool \<Rightarrow> LockRecord \<Rightarrow> string option \<Rightarrow> bool \<times> string option" where
  "takeOver enc fails me f = (if fails then (False, f) else (True, Some (enc me)))"

definition AcquireLock :: "(LockRecord \<Rightarrow> string) \<Rightarrow> (string \<Rightarrow> LockRecord option) \<Rightarrow> lock_io \<Rightarrow> procs \<Rightarrow> LockRecord
    \<Rightarrow> string option \<Rightarrow> acquire_error option \<times> string option" where
  "AcquireLock enc js io ps me f =
     (if li_mkdir_fails io then (Some MkdirFailed, f)
      else if li_staging_fails io then (Some StagingFailed, f)
      else if li_link_fails io then (Some LinkFailed, f)
      else case f of
        None \<Rightarrow> (None, Some (enc me))
      | Some _ \<Rightarrow>
          (case lock_verdict js ps me f of
             Refuse pid \<Rightarrow> (Some (AlreadyRunning pid), f)
           | TakeUnreadable e \<Rightarrow> (case takeOver enc (li_takeover_fails io) me f of
               (True, f) \<Rightarrow> (None, f) | (False, f) \<Rightarrow> (Some (UnreadableNotReplaced e), f))
           | TakeStale \<Rightarrow> (case takeOver enc (li_takeover_fails io) me f of
               (True, f) \<Rightarrow> (None, f) | (False, f) \<Rightarrow> (Some TakeOverFailed, f))))"

text \<open>The check of \<open>releaseLock\<close>: process and start time, not the boot.\<close>

definition releases :: "(string \<Rightarrow> LockRecord option) \<Rightarrow> LockRecord \<Rightarrow> string option \<Rightarrow> bool" where
  "releases js mine f =
     (case ReadLock js f of
        Inl _ \<Rightarrow> False
      | Inr current \<Rightarrow> \<not> (lk_PID current \<noteq> lk_PID mine \<or> lk_StartTime current \<noteq> lk_StartTime mine))"

definition releaseLock :: "(string \<Rightarrow> LockRecord option) \<Rightarrow> bool \<Rightarrow> LockRecord \<Rightarrow> string option \<Rightarrow> string option" where
  "releaseLock js remove_fails mine f =
     (if \<not> releases js mine f then f else if remove_fails then f else None)"

section \<open>Stopping a daemon\<close>

datatype stop_result = Stopped | NoDaemonLock lock_error | StaleCleared int | CannotSignal int | StillRunning int

text \<open>\<open>waitForExit\<close> with the number of polls that fit the grace period; \<open>probe i\<close> is the i-th answer.\<close>

definition waitForExit :: "nat \<Rightarrow> (nat \<Rightarrow> bool) \<Rightarrow> LockRecord \<Rightarrow> stop_result" where
  "waitForExit polls probe r = (if list_ex (\<lambda>i. \<not> probe i) [0..<polls] then Stopped else StillRunning (lk_PID r))"

definition StopDaemon :: "(string \<Rightarrow> LockRecord option) \<Rightarrow> procs \<Rightarrow> bool \<Rightarrow> bool \<Rightarrow> nat \<Rightarrow> (nat \<Rightarrow> bool) \<Rightarrow> string option
    \<Rightarrow> stop_result \<times> string option" where
  "StopDaemon js ps remove_fails signalled polls probe f =
     (case ReadLock js f of
        Inl e \<Rightarrow> (NoDaemonLock e, f)
      | Inr r \<Rightarrow>
          if \<not> processAlive ps r then (StaleCleared (lk_PID r), if remove_fails then f else None)
          else if \<not> signalled then (CannotSignal (lk_PID r), f)
          else (waitForExit polls probe r, f))"

text \<open>A lock whose process is alive is never removed, whatever the signal does.\<close>

lemma StopDaemon_spares_live:
  "ReadLock js f = Inr r \<Longrightarrow> processAlive ps r \<Longrightarrow> snd (StopDaemon js ps rm sg n probe f) = f"
  by (simp add: StopDaemon_def)

lemma StopDaemon_clears_stale:
  "ReadLock js f = Inr r \<Longrightarrow> \<not> processAlive ps r \<Longrightarrow> StopDaemon js ps False sg n probe f = (StaleCleared (lk_PID r), None)"
  by (simp add: StopDaemon_def)

section \<open>Interleaved callers\<close>

text \<open>
  Every caller \<open>'t\<close> is between two of its atomic file operations: linking the staged record,
  reading an existing lock, renaming its record over it, reading before the release, removing.
\<close>

datatype caller_stage = Outside | MustRead | MustTake | Holds | MustRemove

record 't lock_state =
  ls_file :: "string option"
  ls_stage :: "'t \<Rightarrow> caller_stage"

datatype lock_act = Acquire | Release

definition lock_next :: "(LockRecord \<Rightarrow> string) \<Rightarrow> (string \<Rightarrow> LockRecord option) \<Rightarrow> procs \<Rightarrow> ('t \<Rightarrow> LockRecord)
    \<Rightarrow> 't lock_state \<Rightarrow> 't \<times> lock_act \<Rightarrow> 't lock_state" where
  "lock_next enc js ps me s step =
     (case step of (t, act) \<Rightarrow>
       let goto = (\<lambda>g. (ls_stage s)(t := g)) in
       case ls_stage s t of
         Outside \<Rightarrow>
           (if act = Release then s
            else if ls_file s = None then \<lparr>ls_file = Some (enc (me t)), ls_stage = goto Holds\<rparr>
            else s\<lparr>ls_stage := goto MustRead\<rparr>)
       | MustRead \<Rightarrow>
           (case lock_verdict js ps (me t) (ls_file s) of
              Refuse _ \<Rightarrow> s\<lparr>ls_stage := goto Outside\<rparr>
            | TakeUnreadable _ \<Rightarrow> s\<lparr>ls_stage := goto MustTake\<rparr>
            | TakeStale \<Rightarrow> s\<lparr>ls_stage := goto MustTake\<rparr>)
       | MustTake \<Rightarrow> \<lparr>ls_file = Some (enc (me t)), ls_stage = goto Holds\<rparr>
       | Holds \<Rightarrow>
           (if act = Acquire then s
            else s\<lparr>ls_stage := goto (if releases js (me t) (ls_file s) then MustRemove else Outside)\<rparr>)
       | MustRemove \<Rightarrow> \<lparr>ls_file = None, ls_stage = goto Outside\<rparr>)"

text \<open>All callers are outside; \<open>f\<close> is the lock file they find.\<close>

definition lock_init :: "string option \<Rightarrow> 't lock_state" where
  "lock_init f = \<lparr>ls_file = f, ls_stage = (\<lambda>t. Outside)\<rparr>"

definition lock_history :: "(LockRecord \<Rightarrow> string) \<Rightarrow> (string \<Rightarrow> LockRecord option) \<Rightarrow> procs \<Rightarrow> ('t \<Rightarrow> LockRecord)
    \<Rightarrow> string option \<Rightarrow> ('t \<times> lock_act) list \<Rightarrow> 't lock_state" where
  "lock_history enc js ps me f steps = foldl (lock_next enc js ps me) (lock_init f) steps"

text \<open>
  The steps are those of \<open>AcquireLock\<close>: a caller that runs alone through its next three (a linked
  record needs one, a refusal two) holds the lock exactly when \<open>AcquireLock\<close> succeeds, and
  leaves the file as \<open>AcquireLock\<close> does.
\<close>

lemma lock_next_is_AcquireLock:
  assumes io: "\<not> li_mkdir_fails io" "\<not> li_staging_fails io" "\<not> li_link_fails io" "\<not> li_takeover_fails io"
    and s: "ls_stage s t = Outside" and r: "AcquireLock enc js io ps (me t) (ls_file s) = (e, f)"
  shows "\<exists>n \<le> 3. let s' = ((\<lambda>s. lock_next enc js ps me s (t, Acquire)) ^^ n) s in
    ls_file s' = f \<and> ls_stage s' = (ls_stage s)(t := if e = None then Holds else Outside)"
proof -
  let ?N = "\<lambda>s. lock_next enc js ps me s (t, Acquire)"
  show ?thesis
  proof (cases "ls_file s")
    case None
    with assms show ?thesis by (intro exI[of _ 1]) (auto simp: AcquireLock_def lock_next_def Let_def)
  next
    case (Some x)
    have 1: "?N s = s\<lparr>ls_stage := (ls_stage s)(t := MustRead)\<rparr>" using s Some by (simp add: lock_next_def)
    show ?thesis
    proof (cases "\<exists>pid. lock_verdict js ps (me t) (ls_file s) = Refuse pid")
      case True
      with r io Some have ef: "e \<noteq> None" "f = ls_file s" by (auto simp: AcquireLock_def)
      have 2: "?N (?N s) = s\<lparr>ls_stage := (ls_stage s)(t := Outside)\<rparr>"
        unfolding 1 using True by (auto simp: lock_next_def Let_def)
      have "(?N ^^ 2) s = ?N (?N s)" unfolding numeral_2_eq_2 by simp
      with 2 ef show ?thesis by (intro exI[of _ 2]) (simp only: Let_def, simp)
    next
      case False
      with r io Some have ef: "e = None" "f = Some (enc (me t))"
        by (auto simp: AcquireLock_def takeOver_def split: verdict.splits)
      have 2: "?N (?N s) = s\<lparr>ls_stage := (ls_stage s)(t := MustTake)\<rparr>"
        using False unfolding 1 by (auto simp: lock_next_def Let_def split: verdict.splits)
      have 3: "?N (?N (?N s)) = \<lparr>ls_file = Some (enc (me t)), ls_stage = (ls_stage s)(t := Holds)\<rparr>"
        unfolding 2 by (simp add: lock_next_def)
      have "(?N ^^ 3) s = ?N (?N (?N s))" unfolding numeral_3_eq_3 by simp
      with 3 ef show ?thesis by (intro exI[of _ 3]) (simp only: Let_def, simp)
    qed
  qed
qed

text \<open>The callers of one live process: they differ in nothing the lock compares.\<close>

definition one_process :: "procs \<Rightarrow> ('t \<Rightarrow> LockRecord) \<Rightarrow> bool" where
  "one_process ps me \<longleftrightarrow> (\<forall>t u. 0 < lk_PID (me t) \<and> processAlive ps (me t) \<and> sameIdentity (me t) (me u))"

lemma one_process_refuses:
  "one_process ps me \<Longrightarrow> js (enc (me t)) = Some (me t)
   \<Longrightarrow> lock_verdict js ps (me u) (Some (enc (me t))) = Refuse (lk_PID (me t))"
  by (auto simp: one_process_def lock_verdict_def ReadLock_def not_le)

definition one_holder :: "(LockRecord \<Rightarrow> string) \<Rightarrow> ('t \<Rightarrow> LockRecord) \<Rightarrow> 't lock_state \<Rightarrow> 't \<Rightarrow> bool" where
  "one_holder enc me s h \<longleftrightarrow> ls_file s = Some (enc (me h)) \<and> ls_stage s h = Holds
     \<and> (\<forall>t. t \<noteq> h \<longrightarrow> ls_stage s t \<in> {Outside, MustRead})"

lemma one_holder_next:
  assumes "one_process ps me" "\<forall>t. js (enc (me t)) = Some (me t)" "one_holder enc me s h"
  shows "one_holder enc me (lock_next enc js ps me s (t, Acquire)) h"
  using assms one_process_refuses[OF assms(1), of js enc h t]
  by (cases "t = h"; cases "ls_stage s t") (auto simp: one_holder_def lock_next_def Let_def)

lemma refused_next:
  assumes "\<forall>u. \<exists>pid. lock_verdict js ps (me u) (Some f) = Refuse pid"
    and "ls_file s = Some f" "\<forall>t. ls_stage s t \<in> {Outside, MustRead}"
  shows "ls_file (lock_next enc js ps me s (t, Acquire)) = Some f"
    "\<forall>u. ls_stage (lock_next enc js ps me s (t, Acquire)) u \<in> {Outside, MustRead}"
proof -
  obtain pid where "lock_verdict js ps (me t) (Some f) = Refuse pid" using assms(1) by blast
  then have "lock_next enc js ps me s (t, Acquire) =
      s\<lparr>ls_stage := (ls_stage s)(t := if ls_stage s t = Outside then MustRead else Outside)\<rparr>"
    using assms(2) spec[OF assms(3), of t] by (cases "ls_stage s t") (simp_all add: lock_next_def)
  then show "ls_file (lock_next enc js ps me s (t, Acquire)) = Some f"
    "\<forall>u. ls_stage (lock_next enc js ps me s (t, Acquire)) u \<in> {Outside, MustRead}"
    using assms(2,3) by simp_all
qed

lemma refused_history:
  assumes "\<forall>u. \<exists>pid. lock_verdict js ps (me u) (Some f) = Refuse pid"
  shows "\<forall>s\<in>set steps. snd s = Acquire \<Longrightarrow> ls_file s = Some f \<Longrightarrow> \<forall>t. ls_stage s t \<in> {Outside, MustRead} \<Longrightarrow>
    ls_file (foldl (lock_next enc js ps me) s steps) = Some f \<and>
    (\<forall>t. ls_stage (foldl (lock_next enc js ps me) s steps) t \<in> {Outside, MustRead})"
proof (induction steps arbitrary: s)
  case (Cons x xs)
  then obtain u where x: "x = (u, Acquire)" by (cases x) auto
  from Cons refused_next[OF assms Cons.prems(2,3), of enc u] show ?case by (simp add: x)
qed simp

text \<open>
  C25: concurrent acquires admit at most one. However the file operations of the callers of one
  live process interleave, and however often a refused caller tries again, as long as nobody
  releases: where there was no lock file there is one holder from the first operation on, and the
  lock file holds its complete record; and where there was a lock that refuses them (one of this
  live process) nobody gets it and the file stays. A stale or unreadable lock is another matter
  (\<open>stale_lock_admits_two\<close> below).
\<close>

theorem acquire_admits_one:
  assumes "one_process ps me" "\<forall>t. js (enc (me t)) = Some (me t)" "steps \<noteq> []" "\<forall>s\<in>set steps. snd s = Acquire"
  shows "(\<exists>h. {t. ls_stage (lock_history enc js ps me None steps) t = Holds} = {h}
      \<and> ls_file (lock_history enc js ps me None steps) = Some (enc (me h)))
    \<and> ((\<forall>u. \<exists>pid. lock_verdict js ps (me u) (Some f) = Refuse pid) \<longrightarrow>
      {t. ls_stage (lock_history enc js ps me (Some f) steps) t = Holds} = {}
      \<and> ls_file (lock_history enc js ps me (Some f) steps) = Some f)"
proof -
  obtain t rest where st: "steps = (t, Acquire) # rest" using assms(3,4) by (cases steps) auto
  have "one_holder enc me (foldl (lock_next enc js ps me) s rest) t" if "one_holder enc me s t" for s
    using that assms(4) unfolding st
  proof (induction rest arbitrary: s)
    case (Cons x xs)
    then obtain u where "x = (u, Acquire)" by (cases x) auto
    with Cons one_holder_next[OF assms(1,2) Cons.prems(1), of u] show ?case by simp
  qed simp
  moreover have "one_holder enc me (lock_next enc js ps me (lock_init None) (t, Acquire)) t"
    by (simp add: one_holder_def lock_next_def lock_init_def)
  ultimately have "one_holder enc me (lock_history enc js ps me None steps) t" by (simp add: lock_history_def st)
  then have "{t. ls_stage (lock_history enc js ps me None steps) t = Holds} = {t}"
    "ls_file (lock_history enc js ps me None steps) = Some (enc (me t))"
    by (fastforce simp: one_holder_def)+
  moreover have "{t. ls_stage (lock_history enc js ps me (Some f) steps) t = Holds} = {}
      \<and> ls_file (lock_history enc js ps me (Some f) steps) = Some f"
    if "\<forall>u. \<exists>pid. lock_verdict js ps (me u) (Some f) = Refuse pid"
  proof -
    have "ls_file (lock_init (Some f)) = Some f" "\<forall>t. ls_stage (lock_init (Some f)) t \<in> {Outside, MustRead}"
      by (simp_all add: lock_init_def)
    note h = refused_history[OF that assms(4) this, of enc, folded lock_history_def]
    have "ls_stage (lock_history enc js ps me (Some f) steps) t \<noteq> Holds" for t
      using spec[OF conjunct2[OF h], of t] by auto
    with h show ?thesis by simp
  qed
  ultimately show ?thesis by blast
qed

section \<open>Samples\<close>

text \<open>Two records; the text of a record is its process number.\<close>

definition sample_lock :: "int \<Rightarrow> LockRecord" where
  "sample_lock p = \<lparr>lk_PID = p, lk_StartTime = 5, lk_BootID = ''b'', lk_Version = 1, lk_AcquiredAt = []\<rparr>"

definition sample_lock_text :: "LockRecord \<Rightarrow> string" where
  "sample_lock_text r = (if lk_PID r = 7 then ''seven'' else ''eight'')"

definition sample_lock_read :: "string \<Rightarrow> LockRecord option" where
  "sample_lock_read s = (if s = ''seven'' then Some (sample_lock 7) else if s = ''eight'' then Some (sample_lock 8) else None)"

definition all_alive :: procs where
  "all_alive = \<lparr>pr_state = (\<lambda>p. Some CHR ''S''), pr_signalled = (\<lambda>p. True)\<rparr>"

definition sample_steps :: "(nat \<times> lock_act) list" where
  "sample_steps = [(1, Acquire), (2, Acquire), (2, Acquire), (2, Acquire)]"

theorem acquire_admits_one_witness:
  "(\<exists>h. {t. ls_stage (lock_history sample_lock_text sample_lock_read all_alive (\<lambda>t. sample_lock 7) None sample_steps) t = Holds} = {h}) \<and>
   {t. ls_stage (lock_history sample_lock_text sample_lock_read all_alive (\<lambda>t. sample_lock 7) (Some ''seven'') sample_steps) t = Holds} = {}"
proof -
  have one: "one_process all_alive (\<lambda>t :: nat. sample_lock 7)"
    by (simp add: one_process_def processAlive_def all_alive_def sample_lock_def sameIdentity_def)
  have js: "\<forall>t :: nat. sample_lock_read (sample_lock_text (sample_lock 7)) = Some (sample_lock 7)"
    by (auto simp: sample_lock_read_def sample_lock_text_def sample_lock_def)
  have "lock_verdict sample_lock_read all_alive (sample_lock 7) (Some ''seven'') = Refuse 7" by code_simp
  then show ?thesis
    using acquire_admits_one[where enc = sample_lock_text and steps = sample_steps and f = "''seven''"
        and me = "\<lambda>t. sample_lock 7" and js = sample_lock_read, OF one js]
    by (auto simp: sample_steps_def)
qed

section \<open>Where the lock does not exclude\<close>

text \<open>
  The identity of the existing lock is compared with the record of the caller, not with the
  process its number belongs to now: the lock of a live daemon in another process is taken over.
\<close>

lemma other_process_takes_over:
  "js (enc r) = Some r \<Longrightarrow> 0 < lk_PID r \<Longrightarrow> lk_PID r \<noteq> lk_PID me
   \<Longrightarrow> AcquireLock enc js \<lparr>li_mkdir_fails = False, li_staging_fails = False, li_link_fails = False, li_takeover_fails = False\<rparr>
        ps me (Some (enc r)) = (None, Some (enc me))"
  by (simp add: AcquireLock_def lock_verdict_def ReadLock_def sameIdentity_def takeOver_def)

text \<open>
  Within one process a release can race: a caller that finds no file where it expected one takes
  the lock over although another has linked it meanwhile.
\<close>

lemma release_race_admits_two:
  "let s = lock_history sample_lock_text sample_lock_read all_alive (\<lambda>t :: nat. sample_lock 7) None
     [(1, Acquire), (2, Acquire), (1, Release), (1, Release), (2, Acquire), (3, Acquire), (2, Acquire)]
   in ls_stage s 2 = Holds \<and> ls_stage s 3 = Holds"
  by code_simp

text \<open>
  A stale lock and one that cannot be read are taken over by everybody who has read them: the
  rename of the second caller replaces the record of the first, and both hold the lock.
\<close>

lemma stale_lock_admits_two:
  fixes t u :: 't
  assumes "\<And>u pid. lock_verdict js ps (me u) (Some f) \<noteq> Refuse pid" "t \<noteq> u"
  shows "let s = lock_history enc js ps me (Some f)
      [(t, Acquire), (u, Acquire), (t, Acquire), (u, Acquire), (t, Acquire), (u, Acquire)]
    in ls_stage s t = Holds \<and> ls_stage s u = Holds"
proof -
  let ?N = "\<lambda>s c. lock_next enc js ps me s (c, Acquire)"
  have read: "?N (s\<lparr>ls_stage := g(c := MustRead)\<rparr>) c = s\<lparr>ls_stage := g(c := MustTake)\<rparr>"
    if "ls_file s = Some f" for s g c
    using assms(1)[of c] that by (auto simp: lock_next_def Let_def split: verdict.splits)
  define o' where "o' = (\<lambda>c :: 't. Outside)"
  have 2: "?N (?N (lock_init (Some f)) t) u = \<lparr>ls_file = Some f, ls_stage = (o'(u := MustRead))(t := MustRead)\<rparr>"
    using assms(2) by (auto simp: lock_init_def lock_next_def o'_def)
  have 3: "?N \<lparr>ls_file = Some f, ls_stage = (o'(u := MustRead))(t := MustRead)\<rparr> t
      = \<lparr>ls_file = Some f, ls_stage = (o'(t := MustTake))(u := MustRead)\<rparr>"
    using read[of "\<lparr>ls_file = Some f, ls_stage = o'\<rparr>" "o'(u := MustRead)" t] assms(2) by (simp add: fun_upd_twist)
  have 4: "?N \<lparr>ls_file = Some f, ls_stage = (o'(t := MustTake))(u := MustRead)\<rparr> u
      = \<lparr>ls_file = Some f, ls_stage = (o'(t := MustTake))(u := MustTake)\<rparr>"
    using read[of "\<lparr>ls_file = Some f, ls_stage = o'\<rparr>" "o'(t := MustTake)" u] by simp
  have "lock_history enc js ps me (Some f) [(t, Acquire), (u, Acquire), (t, Acquire), (u, Acquire), (t, Acquire), (u, Acquire)]
      = ?N (?N \<lparr>ls_file = Some f, ls_stage = (o'(t := MustTake))(u := MustTake)\<rparr> t) u"
    by (simp add: lock_history_def 2 3 4)
  then show ?thesis using assms(2) by (simp add: lock_next_def)
qed

lemma unreadable_lock_never_refuses:
  "ReadLock js (Some f) = Inl e \<Longrightarrow> lock_verdict js ps me (Some f) \<noteq> Refuse pid"
  by (simp add: lock_verdict_def)

end
