(* ===== verification/DaemonProtocol.thy ===== *)
theory DaemonProtocol
  imports DaemonLock
begin

text \<open>
  How a request reaches the daemon: version negotiation (\<open>internal/harness/protocol/protocol.go\<close>), the
  routing of \<open>dispatch\<close> with its refusal of other protocols (\<open>daemon.go\<close>), and the authentication of
  remote connections (\<open>remote.go\<close>). A decoded message is its list of entries. The operations are a
  record of handlers over a server state \<open>'s\<close>; the daemon's own stand in \<^theory_text>\<open>DaemonRuns\<close>.
\<close>

section \<open>Versions\<close>

definition Version :: string where
  "Version = ''0.4.0''"

definition MinCompatible :: string where
  "MinCompatible = ''0.1.0''"

datatype version_error = VersionRequired | InvalidVersion string

definition version_split :: "string \<Rightarrow> (version_error, int \<times> int) outcome" where
  "version_split v =
     (let parts = split_on CHR ''.'' (trim_space v) in
      if length parts < 2 then Inl (InvalidVersion v)
      else case atoi (parts ! 0) of None \<Rightarrow> Inl (InvalidVersion v)
      | Some maj \<Rightarrow> (case atoi (parts ! 1) of None \<Rightarrow> Inl (InvalidVersion v) | Some mi \<Rightarrow> Inr (maj, mi)))"

definition Negotiate :: "string \<Rightarrow> (version_error, string \<times> bool) outcome" where
  "Negotiate client =
     (if blank client then Inl VersionRequired
      else case version_split client of Inl e \<Rightarrow> Inl e
      | Inr (cMaj, cMin) \<Rightarrow>
        (case version_split Version of Inl e \<Rightarrow> Inl e
         | Inr (sMaj, sMin) \<Rightarrow>
           (case version_split MinCompatible of Inl e \<Rightarrow> Inl e
            | Inr (mMaj, mMin) \<Rightarrow>
                if cMaj \<noteq> sMaj then Inr (Version, False)
                else if cMaj < mMaj \<or> (cMaj = mMaj \<and> cMin < mMin) then Inr (Version, False)
                else Inr (Version, True))))"

lemma server_versions [simp]:
  "version_split Version = Inr (0, 4)" "version_split MinCompatible = Inr (0, 1)"
proof -
  have t: "trim_space Version = Version" "trim_space MinCompatible = MinCompatible"
    unfolding Version_def MinCompatible_def by (rule trim_space_ends; code_simp)+
  show "version_split Version = Inr (0, 4)" unfolding version_split_def t by code_simp
  show "version_split MinCompatible = Inr (0, 1)" unfolding version_split_def t by code_simp
qed

text \<open>The decision in closed form.\<close>

lemma Negotiate_iff:
  "Negotiate client = Inr (server, ok) \<longleftrightarrow> \<not> blank client \<and> server = Version
     \<and> (\<exists>maj mi. version_split client = Inr (maj, mi) \<and> (ok \<longleftrightarrow> maj = 0 \<and> 1 \<le> mi))"
  by (auto simp: Negotiate_def split: sum.splits)

section \<open>Messages\<close>

type_synonym message = "(string \<times> jval) list"

definition msg_str :: "message \<Rightarrow> string \<Rightarrow> string" where
  "msg_str m k = (case jobj_get m k of JStr s \<Rightarrow> s | _ \<Rightarrow> [])"

text \<open>A response: the error text of \<open>ok: false\<close>, or the other fields of \<open>ok: true\<close>.\<close>

type_synonym response = "(string, (string \<times> jval) list) outcome"

definition checkProtocol :: "message \<Rightarrow> string option" where
  "checkProtocol m =
     (let declared = msg_str m ''protocol_version'' in
      if blank declared
      then Some (''protocol_version required: this daemon speaks '' @ Version @ '' (compatible from '' @ MinCompatible
                 @ ''); send it on every request'')
      else case Negotiate declared of
        Inl VersionRequired \<Rightarrow> Some (''invalid protocol_version '' @ quoted declared @ '': client version required'')
      | Inl (InvalidVersion v) \<Rightarrow> Some (''invalid protocol_version '' @ quoted declared @ '': invalid version '' @ quoted v)
      | Inr (server, True) \<Rightarrow> None
      | Inr (server, False) \<Rightarrow> Some (''protocol version mismatch: client '' @ declared @ '', daemon '' @ server
                 @ '' (compatible from '' @ MinCompatible @ '')''))"

lemma checkProtocol_Negotiate:
  "checkProtocol m = None \<longleftrightarrow> (\<exists>server. Negotiate (msg_str m ''protocol_version'') = Inr (server, True))"
proof (cases "blank (msg_str m ''protocol_version'')")
  case True
  then show ?thesis by (simp add: checkProtocol_def Negotiate_def)
next
  case False
  show ?thesis
  proof (cases "Negotiate (msg_str m ''protocol_version'')")
    case (Inl e)
    with False show ?thesis by (cases e) (simp_all add: checkProtocol_def)
  next
    case (Inr x)
    with False show ?thesis by (cases x; cases "snd x") (simp_all add: checkProtocol_def)
  qed
qed

lemma checkProtocol_None:
  "checkProtocol m = None \<longleftrightarrow> \<not> blank (msg_str m ''protocol_version'')
     \<and> (\<exists>mi. version_split (msg_str m ''protocol_version'') = Inr (0, mi) \<and> 1 \<le> mi)"
  unfolding checkProtocol_Negotiate Negotiate_iff by blast

section \<open>Routing\<close>

record 's handlers =
  oh_models :: "message \<Rightarrow> 's \<Rightarrow> response \<times> 's"
  oh_start :: "message \<Rightarrow> 's \<Rightarrow> response \<times> 's"
  oh_status :: "string \<Rightarrow> 's \<Rightarrow> response \<times> 's"
  oh_list :: "'s \<Rightarrow> response \<times> 's"
  oh_events :: "string \<Rightarrow> 's \<Rightarrow> response \<times> 's"
  oh_cancel :: "string \<Rightarrow> 's \<Rightarrow> response \<times> 's"
  oh_steer :: "string \<Rightarrow> string \<Rightarrow> 's \<Rightarrow> response \<times> 's"
  oh_permission :: "string \<Rightarrow> string \<Rightarrow> string \<Rightarrow> string \<Rightarrow> bool \<Rightarrow> 's \<Rightarrow> response \<times> 's"
  oh_schedule :: "message \<Rightarrow> 's \<Rightarrow> response \<times> 's"
  oh_unschedule :: "message \<Rightarrow> 's \<Rightarrow> response \<times> 's"
  oh_jobs :: "'s \<Rightarrow> response \<times> 's"
  oh_diff :: "message \<Rightarrow> 's \<Rightarrow> response \<times> 's"

definition Schemas :: "string list" where
  "Schemas = [''schemas/harness-checkpoint.schema.json'', ''schemas/harness-handoff.schema.json'',
     ''schemas/agent-event.schema.json'']"

definition Ops :: "string list" where
  "Ops = [''start'', ''status'', ''list'', ''events'', ''cancel'', ''steer'', ''schedule'', ''unschedule'', ''jobs'',
     ''protocol'', ''approve'', ''deny'', ''models'', ''diff'', ''subscribe'']"

definition protocol_info :: "(string \<times> jval) list" where
  "protocol_info = [(''version'', JStr Version), (''min_compatible'', JStr MinCompatible),
     (''schemas'', JArr (map JStr Schemas)), (''ops'', JArr (map JStr Ops))]"

definition route :: "'s handlers \<Rightarrow> message \<Rightarrow> 's \<Rightarrow> response \<times> 's" where
  "route h m s =
     (let oper = msg_str m ''op'' in
      if oper = ''protocol'' then (Inr protocol_info, s)
      else if oper = ''models'' then oh_models h m s
      else if oper = ''start'' then oh_start h m s
      else if oper = ''status'' then oh_status h (msg_str m ''run_id'') s
      else if oper = ''list'' then oh_list h s
      else if oper = ''events'' then oh_events h (msg_str m ''run_id'') s
      else if oper = ''cancel'' then oh_cancel h (msg_str m ''run_id'') s
      else if oper = ''steer'' then oh_steer h (msg_str m ''run_id'') (msg_str m ''message'') s
      else if oper = ''approve'' then oh_permission h (msg_str m ''run_id'') (msg_str m ''request_id'')
                                       (msg_str m ''fingerprint'') (msg_str m ''reason'') True s
      else if oper = ''deny'' then oh_permission h (msg_str m ''run_id'') (msg_str m ''request_id'')
                                       (msg_str m ''fingerprint'') (msg_str m ''reason'') False s
      else if oper = ''schedule'' then oh_schedule h m s
      else if oper = ''unschedule'' then oh_unschedule h m s
      else if oper = ''jobs'' then oh_jobs h s
      else if oper = ''diff'' then oh_diff h m s
      else if oper = ''subscribe'' then
        (if msg_str m ''run_id'' = [] then (Inl ''run_id required'', s)
         else (Inl ''subscribe requires a streaming connection'', s))
      else (Inl ''unknown op'', s))"

definition dispatch :: "'s handlers \<Rightarrow> message \<Rightarrow> 's \<Rightarrow> response \<times> 's" where
  "dispatch h m s =
     (if msg_str m ''op'' \<noteq> ''protocol'' then
        (case checkProtocol m of Some e \<Rightarrow> (Inl e, s) | None \<Rightarrow> route h m s)
      else route h m s)"

text \<open>
  Every operation but the question for the version is refused unless the client declares a
  compatible one, whatever the handlers would do.
\<close>

lemma dispatch_negotiates:
  assumes "msg_str m ''op'' \<noteq> ''protocol''"
    and "\<nexists>mi. version_split (msg_str m ''protocol_version'') = Inr (0, mi) \<and> 1 \<le> mi"
  shows "\<exists>e. \<forall>h. dispatch h m s = (Inl e, s)"
proof -
  from assms(2) checkProtocol_None[of m] obtain e where "checkProtocol m = Some e" by fastforce
  with assms(1) show ?thesis by (auto simp: dispatch_def)
qed

lemma dispatch_asks_freely: "msg_str m ''op'' = ''protocol'' \<Longrightarrow> dispatch h m s = (Inr protocol_info, s)"
  by (simp add: dispatch_def route_def)

section \<open>Remote connections\<close>

text \<open>
  \<open>handleRemote\<close>: one decoded line after the other, \<open>None\<close> where the JSON is invalid. The result
  is what was answered, and the server after the dispatched requests.
\<close>

datatype remote_answer = InvalidJSON | AuthAccepted | Unauthorized | Answered response

definition subtleCompare :: "string \<Rightarrow> string \<Rightarrow> bool" where
  "subtleCompare a b \<longleftrightarrow> a = b"

fun handleRemote :: "'s handlers \<Rightarrow> string \<Rightarrow> bool \<Rightarrow> message option list \<Rightarrow> 's \<Rightarrow> remote_answer list \<times> 's" where
  "handleRemote h token authed [] s = ([], s)"
| "handleRemote h token authed (None # ms) s =
     (case handleRemote h token authed ms s of (out, s) \<Rightarrow> (InvalidJSON # out, s))"
| "handleRemote h token authed (Some m # ms) s =
     (if \<not> authed then
        (if subtleCompare (msg_str m ''auth'') token
         then (case handleRemote h token True ms s of (out, s) \<Rightarrow> (AuthAccepted # out, s))
         else ([Unauthorized], s))
      else (case dispatch h m s of (r, s) \<Rightarrow>
              (case handleRemote h token True ms s of (out, s) \<Rightarrow> (Answered r # out, s))))"

text \<open>
  A connection whose first well-formed line is not the token reaches no handler: the answers and
  the state are the same for all handlers, and nothing but invalid lines was answered before.
\<close>

lemma remote_requires_token:
  assumes "\<forall>m ms. dropWhile (\<lambda>x. x = None) lines = Some m # ms \<longrightarrow> msg_str m ''auth'' \<noteq> token"
  shows "snd (handleRemote h token False lines s) = s
    \<and> set (fst (handleRemote h token False lines s)) \<subseteq> {InvalidJSON, Unauthorized}"
  using assms
proof (induction lines)
  case (Cons x xs)
  then show ?case by (cases x) (auto simp: subtleCompare_def split: prod.splits)
qed simp

end
