(* ===== verification/DaemonRuns.thy ===== *)
theory DaemonRuns
  imports DaemonProtocol RunnerFrame RunLayer
begin

text \<open>
  The runs a daemon hosts (\<open>internal/harness/daemon/daemon.go\<close>): the run map, the operations of a
  client on it, the goroutines that advance a run, and the records they leave. An \<open>activeRun\<close> is
  shared between the map and its goroutine, so it lives in a heap: the map and the tasks hold
  its address. The runner is that of \<^theory_text>\<open>RunnerState\<close> and \<^theory_text>\<open>RunnerStep\<close>.
\<close>

section \<open>State\<close>

record 'w ActiveRun =
  ar_cancelled :: bool
  ar_runner :: "'w Runner option"
  ar_goal :: string
  ar_workspace :: string
  ar_busy :: bool

record RunRecord =
  rr_RunID :: string
  rr_Status :: string
  rr_Phase :: string
  rr_StopReason :: string
  rr_UpdatedAt :: string
  rr_PendingPermissions :: "string list"
  rr_ResumeCheckpoint :: string
  rr_Interrupted :: bool

datatype record_file = RecordFile RunRecord | CorruptRecord

definition fresh_record :: "string \<Rightarrow> string \<Rightarrow> string \<Rightarrow> string \<Rightarrow> RunRecord" where
  "fresh_record runID status phase stop =
     \<lparr>rr_RunID = runID, rr_Status = status, rr_Phase = phase, rr_StopReason = stop, rr_UpdatedAt = [],
      rr_PendingPermissions = [], rr_ResumeCheckpoint = [], rr_Interrupted = False\<rparr>"

text \<open>The goroutines in flight; \<open>execute\<close> goes on as \<open>observe\<close>.\<close>

datatype task = Execute nat string string string int | Observe nat string

fun task_addr :: "task \<Rightarrow> nat" where
  "task_addr (Execute a runID goal workspace turns) = a"
| "task_addr (Observe a runID) = a"

record 'w Server =
  se_runs :: "string \<rightharpoonup> nat"
  se_heap :: "nat \<rightharpoonup> 'w ActiveRun"
  se_next :: nat
  se_seq :: nat
  se_tasks :: "task list"
  se_records :: "string \<rightharpoonup> record_file"
  se_published :: "(string \<times> string \<times> (string \<times> jval) list) list"

text \<open>
  What the daemon calls: \<open>NewProvider\<close> and its error, whether a tool executor is configured, the
  services and collaborators of a run, the workspace settings, the clock and the file writes.
\<close>

record 'w DaemonEnv =
  de_NewProvider :: "string \<Rightarrow> string \<Rightarrow> string \<Rightarrow> string \<Rightarrow> string option"
  de_HasTools :: bool
  de_Services :: "string \<Rightarrow> 'w Services"
  de_Policy :: Policy
  de_Trail :: "string \<Rightarrow> string list"
  de_TrailDec :: "string \<Rightarrow> PermissionResolution option"
  de_Store :: dir
  de_Journal :: fx_file
  de_World :: 'w
  de_IdText :: "id_error \<Rightarrow> string"
  de_Workspace :: string
  de_StoreDir :: string
  de_Now :: string
  de_RecordWrites :: bool
  de_EvidenceError :: "string option"

section \<open>Records and published events\<close>

definition saveRecord :: "'w DaemonEnv \<Rightarrow> RunRecord \<Rightarrow> 'w Server \<Rightarrow> 'w Server" where
  "saveRecord env r s =
     (case ValidateID (rr_RunID r) of
        Some _ \<Rightarrow> s
      | None \<Rightarrow> if de_RecordWrites env
          then s\<lparr>se_records := (se_records s)(rr_RunID r \<mapsto> RecordFile (r\<lparr>rr_UpdatedAt := de_Now env\<rparr>))\<rparr> else s)"

text \<open>An event handed to the log of its run, see \<^theory_text>\<open>DaemonLog\<close>; an unusable ID drops it.\<close>

definition publish :: "string \<Rightarrow> string \<Rightarrow> (string \<times> jval) list \<Rightarrow> 'w Server \<Rightarrow> 'w Server" where
  "publish runID kind payload s =
     (case ValidateID runID of Some _ \<Rightarrow> s
      | None \<Rightarrow> s\<lparr>se_published := se_published s @ [(runID, kind, payload)]\<rparr>)"

section \<open>Starting a run\<close>

definition max_turns_of :: "jval \<Rightarrow> int" where
  "max_turns_of v = (case v of JNum q \<Rightarrow> if 0 < q then trunc_rat q else 5 | _ \<Rightarrow> 5)"

definition first_set :: "string list \<Rightarrow> string" where
  "first_set xs = (case find (\<lambda>x. x \<noteq> []) xs of Some x \<Rightarrow> x | None \<Rightarrow> last xs)"

text \<open>The run enters the map claimed, its record and first event are written, its goroutine starts.\<close>

definition launch_run :: "'w DaemonEnv \<Rightarrow> string \<Rightarrow> string \<Rightarrow> string \<Rightarrow> string \<Rightarrow> int \<Rightarrow> 'w Server \<Rightarrow> 'w Server" where
  "launch_run env runID goal provider workspace turns s =
     (let a = se_next s;
          s = s\<lparr>se_heap := (se_heap s)(a \<mapsto> \<lparr>ar_cancelled = False, ar_runner = None, ar_goal = goal,
                     ar_workspace = [], ar_busy = True\<rparr>),
                se_next := a + 1, se_runs := (se_runs s)(runID \<mapsto> a)\<rparr>;
          s = saveRecord env (fresh_record runID ''running'' [] []) s;
          s = publish runID ''run.started'' [(''goal'', JStr goal), (''provider'', JStr provider)] s
      in s\<lparr>se_tasks := se_tasks s @ [Execute a runID goal workspace turns]\<rparr>)"

definition opStart :: "'w DaemonEnv \<Rightarrow> message \<Rightarrow> 'w Server \<Rightarrow> response \<times> 'w Server" where
  "opStart env m s =
     (let goal = msg_str m ''goal'';
          provider = (if msg_str m ''provider'' = [] then ''fake'' else msg_str m ''provider'') in
      if goal = [] then (Inl ''goal required'', s)
      else case de_NewProvider env provider (msg_str m ''base_url'') (msg_str m ''api_key'') (msg_str m ''model'') of
        Some e \<Rightarrow> (Inl e, s)
      | None \<Rightarrow>
          (let turns = max_turns_of (jobj_get m ''max_turns'');
               asked = msg_str m ''run_id'';
               s = (if asked = [] then s\<lparr>se_seq := se_seq s + 1\<rparr> else s);
               runID = (if asked = [] then ''R-daemon-'' @ itoa (int (se_seq s)) else asked);
               workspace = first_set [msg_str m ''workspace'', de_Workspace env, de_StoreDir env] in
           if asked \<noteq> [] \<and> ValidateID asked \<noteq> None then (Inl (de_IdText env (the (ValidateID asked))), s)
           else if \<not> de_HasTools env then (Inl ''no tool executor configured'', s)
           else if se_runs s runID \<noteq> None then (Inl (''run already active: '' @ runID), s)
           else (Inr [(''run_id'', JStr runID)], launch_run env runID goal provider workspace turns s)))"

text \<open>\<open>execute\<close>: the runner of a fresh run, with the decisions its trail already holds.\<close>

definition run_runner :: "'w DaemonEnv \<Rightarrow> string \<Rightarrow> string \<Rightarrow> int \<Rightarrow> 'w Runner" where
  "run_runner env runID goal turns =
     (let engine = LoadPermissions (de_TrailDec env) (de_Trail env runID) (engine_new (de_Policy env));
          svc = de_Services env runID
      in SeedMessages [blank_message\<lparr>ms_ID := ''m1'', ms_Role := RoleUser, ms_Content := goal, ms_CreatedAt := de_Now env\<rparr>]
           ((NewRunner svc (Some engine) (Some (de_Store env)) (Some (de_Journal env)) (de_World env) runID ''S-daemon'')
              \<lparr>r_MaxTurns := turns\<rparr>))"

definition set_run :: "nat \<Rightarrow> 'w ActiveRun \<Rightarrow> 'w Server \<Rightarrow> 'w Server" where
  "set_run a ar s = s\<lparr>se_heap := (se_heap s)(a \<mapsto> ar)\<rparr>"

definition execute_run :: "'w DaemonEnv \<Rightarrow> nat \<Rightarrow> string \<Rightarrow> string \<Rightarrow> string \<Rightarrow> int \<Rightarrow> 'w Server \<Rightarrow> 'w Server" where
  "execute_run env a runID goal workspace turns s =
     (case se_heap s a of None \<Rightarrow> s
      | Some ar \<Rightarrow> set_run a (ar\<lparr>ar_goal := goal, ar_workspace := workspace,
                                 ar_runner := Some (run_runner env runID goal turns)\<rparr>) s)"

section \<open>Advancing a run\<close>

definition observe_status :: "bool \<Rightarrow> bool \<Rightarrow> Phase \<Rightarrow> string list \<Rightarrow> string" where
  "observe_status failed cancelled phase pending =
     (if failed \<and> cancelled then ''cancelled''
      else if failed then ''failed''
      else if phase = PhaseYield \<and> 0 < length pending then ''awaiting_approval''
      else if phase = PhaseYield then ''yielded''
      else ''complete'')"

definition ended_statuses :: "string list" where
  "ended_statuses = [''complete'', ''failed'', ''cancelled'']"

text \<open>
  \<open>observe\<close> after its loop returned the runner \<open>r\<close> and maybe an error. The knowledge, budget, trail
  and observability files it writes next belong to other components.
\<close>

definition observe_end :: "'w DaemonEnv \<Rightarrow> nat \<Rightarrow> string \<Rightarrow> 'w Runner \<Rightarrow> bool \<Rightarrow> 'w Server \<Rightarrow> 'w Server" where
  "observe_end env a runID r failed s =
     (case se_heap s a of None \<Rightarrow> s
      | Some ar \<Rightarrow>
          (let ar = ar\<lparr>ar_runner := Some r\<rparr>;
               phase = phase_of r;
               status = observe_status failed (ar_cancelled ar) phase (st_PendingPerms (r_State r));
               fields = [(''status'', JStr status), (''phase'', JStr (phase_text phase))];
               s = set_run a ar s;
               s = (case de_EvidenceError env of None \<Rightarrow> s
                    | Some e \<Rightarrow> publish runID ''evidence.write_failed'' [(''error'', JStr e)] s);
               s = publish runID (if status \<in> set ended_statuses then ''run.finished'' else ''run.paused'') fields s;
               s = saveRecord env (fresh_record runID status (phase_text phase) (st_StopReason (r_State r))) s
           in if status = ''awaiting_approval'' then set_run a (ar\<lparr>ar_busy := False\<rparr>) s
              else s\<lparr>se_runs := (se_runs s)(runID := None)\<rparr>))"

definition observe_run :: "'w DaemonEnv \<Rightarrow> nat \<Rightarrow> string \<Rightarrow> 'w Server \<Rightarrow> 'w Server" where
  "observe_run env a runID s =
     (case se_heap s a of None \<Rightarrow> s
      | Some ar \<Rightarrow> (case ar_runner ar of None \<Rightarrow> s
          | Some r \<Rightarrow> (case RunUntilDone (de_Services env runID) r of
              (r', e) \<Rightarrow> observe_end env a runID r' (e \<noteq> None) s)))"

section \<open>Operations of a client\<close>

definition run_of :: "'w Server \<Rightarrow> string \<Rightarrow> (nat \<times> 'w ActiveRun) option" where
  "run_of s runID = (case se_runs s runID of None \<Rightarrow> None
     | Some a \<Rightarrow> map_option (Pair a) (se_heap s a))"

definition opCancel :: "string \<Rightarrow> 'w Server \<Rightarrow> response \<times> 'w Server" where
  "opCancel runID s =
     (if runID = [] then (Inl ''run_id required'', s)
      else case run_of s runID of None \<Rightarrow> (Inl (''run not active: '' @ runID), s)
      | Some (a, ar) \<Rightarrow> (Inr [(''cancelled'', JBool True)], set_run a (ar\<lparr>ar_cancelled := True\<rparr>) s))"

definition opSteer :: "'w DaemonEnv \<Rightarrow> string \<Rightarrow> string \<Rightarrow> 'w Server \<Rightarrow> response \<times> 'w Server" where
  "opSteer env runID text s =
     (if runID = [] then (Inl ''run_id required'', s)
      else if text = [] then (Inl ''message required'', s)
      else case run_of s runID of None \<Rightarrow> (Inl (''run not active: '' @ runID), s)
      | Some (a, ar) \<Rightarrow>
          (case ar_runner ar of None \<Rightarrow> (Inl (''run not active: '' @ runID), s)
           | Some r \<Rightarrow>
               (case Inject (de_Services env runID) (blank_message\<lparr>ms_ID := ''steer-'' @ runID, ms_Role := RoleUser,
                        ms_Content := text, ms_CreatedAt := de_Now env\<rparr>) r of
                  (_, Some e) \<Rightarrow> (Inl (err_text (de_Services env runID) e), s)
                | (r', None) \<Rightarrow> (Inr [(''steered'', JBool True)], set_run a (ar\<lparr>ar_runner := Some r'\<rparr>) s))))"

text \<open>
  \<open>opPermission\<close>: the run is claimed, the answer resolved, and the loop started again, or the claim
  given back with the error.
\<close>

definition opPermission :: "'w DaemonEnv \<Rightarrow> string \<Rightarrow> string \<Rightarrow> string \<Rightarrow> string \<Rightarrow> bool \<Rightarrow> 'w Server \<Rightarrow> response \<times> 'w Server" where
  "opPermission env runID requestID fingerprint reason allow s =
     (if runID = [] then (Inl ''run_id required'', s)
      else if requestID = [] then (Inl ''permission request required'', s)
      else if fingerprint = []
      then (Inl ''fingerprint required: answer with the fingerprint from the permission_wait event'', s)
      else case run_of s runID of None \<Rightarrow> (Inl (''run not active: '' @ runID), s)
      | Some (a, ar) \<Rightarrow>
          (case ar_runner ar of None \<Rightarrow> (Inl (''run not active: '' @ runID), s)
           | Some r \<Rightarrow>
               if ar_busy ar then (Inl (''run is advancing: '' @ runID), s)
               else (case ResolvePermission (de_Services env runID) requestID fingerprint allow ''client'' reason r of
                  (r', Some e) \<Rightarrow> (Inl (err_text (de_Services env runID) e),
                      set_run a (ar\<lparr>ar_runner := Some r', ar_busy := False\<rparr>) s)
                | (r', None) \<Rightarrow>
                    (Inr [(''run_id'', JStr runID), (''request_id'', JStr requestID), (''approved'', JBool allow)],
                     (set_run a (ar\<lparr>ar_runner := Some r', ar_busy := True\<rparr>) s)
                       \<lparr>se_tasks := se_tasks s @ [Observe a runID]\<rparr>))))"

text \<open>
  \<open>opStatus\<close>; \<open>read\<close> tells whether the state of the runner could be copied without waiting for a step
  in progress. It changes nothing.
\<close>

definition strs :: "string list \<Rightarrow> jval" where
  "strs xs = JArr (map JStr xs)"

definition fingerprints_of :: "'w Services \<Rightarrow> 'w Runner \<Rightarrow> jval" where
  "fingerprints_of svc r = JObj (map (\<lambda>i. (i, JStr (pendingFingerprint svc r i))) (st_PendingPerms (r_State r)))"

definition opStatus :: "'w DaemonEnv \<Rightarrow> bool \<Rightarrow> string \<Rightarrow> 'w Server \<Rightarrow> response" where
  "opStatus env read runID s =
     (if runID = [] then Inl ''run_id required''
      else case ValidateID runID of Some e \<Rightarrow> Inl (de_IdText env e)
      | None \<Rightarrow>
        (case se_records s runID of
           None \<Rightarrow> Inl (''unknown run '' @ runID)
         | Some CorruptRecord \<Rightarrow> Inl (''corrupt record '' @ runID)
         | Some (RecordFile rec) \<Rightarrow>
             (let active = (se_runs s runID \<noteq> None);
                  reply = (\<lambda>status phase pending prints.
                    Inr [(''run_id'', JStr (rr_RunID rec)), (''status'', JStr status), (''phase'', JStr phase),
                         (''stop_reason'', JStr (rr_StopReason rec)), (''active'', JBool active),
                         (''pending_permissions'', strs pending), (''permission_fingerprints'', prints),
                         (''interrupted'', JBool (rr_Interrupted rec)), (''resume_checkpoint'', JStr (rr_ResumeCheckpoint rec))])
              in case run_of s runID of
                   None \<Rightarrow> reply (rr_Status rec) (rr_Phase rec) (rr_PendingPermissions rec) (JObj [])
                 | Some (a, ar) \<Rightarrow>
                     (case ar_runner ar of
                        None \<Rightarrow> reply (rr_Status rec) (rr_Phase rec) (rr_PendingPermissions rec) (JObj [])
                      | Some r \<Rightarrow>
                          if \<not> read then
                            Inr [(''run_id'', JStr (rr_RunID rec)), (''status'', JStr ''running''), (''phase'', JStr (rr_Phase rec)),
                                 (''active'', JBool active), (''pending_permissions'', strs (rr_PendingPermissions rec)),
                                 (''permission_fingerprints'', JObj [])]
                          else reply (if ar_busy ar then ''running'' else ''awaiting_approval'') (phase_text (phase_of r))
                                 (rr_PendingPermissions rec @ st_PendingPerms (r_State r))
                                 (fingerprints_of (de_Services env runID) r)))))"

text \<open>\<open>opList\<close>: one row per readable record, by run ID; \<open>ks\<close> are the run IDs with a record file.\<close>

definition list_row :: "'w DaemonEnv \<Rightarrow> 'w Server \<Rightarrow> RunRecord \<Rightarrow> jval" where
  "list_row env s rec =
     (let row = (\<lambda>status pending prints active. JObj
            ([(''run_id'', JStr (rr_RunID rec)), (''status'', JStr status), (''phase'', JStr (rr_Phase rec)),
              (''pending_permissions'', strs pending), (''active'', JBool active),
              (''interrupted'', JBool (rr_Interrupted rec)), (''resume_checkpoint'', JStr (rr_ResumeCheckpoint rec))] @ prints))
      in case run_of s (rr_RunID rec) of
           Some (a, ar) \<Rightarrow>
             (case ar_runner ar of
                Some r \<Rightarrow>
                  if st_PendingPerms (r_State r) \<noteq> []
                  then row ''awaiting_approval'' (st_PendingPerms (r_State r))
                         [(''permission_fingerprints'', fingerprints_of (de_Services env (rr_RunID rec)) r)] True
                  else row (rr_Status rec) (rr_PendingPermissions rec) [] False
              | None \<Rightarrow> row (rr_Status rec) (rr_PendingPermissions rec) [] False)
         | None \<Rightarrow> row (rr_Status rec) (rr_PendingPermissions rec) [] False)"

definition opList :: "'w DaemonEnv \<Rightarrow> string list \<Rightarrow> 'w Server \<Rightarrow> response" where
  "opList env ks s =
     (let recs = List.map_filter (\<lambda>k. case se_records s k of Some (RecordFile rec) \<Rightarrow> Some rec | _ \<Rightarrow> None) ks
      in Inr [(''runs'', JArr (map (list_row env s) (sort_key rr_RunID recs)))])"

section \<open>Draining\<close>

text \<open>
  What a shutdown waits for: every run of the map but those whose state can be read (\<open>read\<close>) and
  waits for an answer. A run without a runner is starting up.
\<close>

definition parked :: "(nat \<Rightarrow> bool) \<Rightarrow> 'w Server \<Rightarrow> string \<Rightarrow> bool" where
  "parked read s runID = (case run_of s runID of None \<Rightarrow> False
     | Some (a, ar) \<Rightarrow> (case ar_runner ar of None \<Rightarrow> False | Some r \<Rightarrow> read a \<and> st_PendingPerms (r_State r) \<noteq> []))"

definition waits_for :: "(nat \<Rightarrow> bool) \<Rightarrow> 'w Server \<Rightarrow> string list \<Rightarrow> bool" where
  "waits_for read s ks = list_ex (\<lambda>k. run_of s k \<noteq> None \<and> \<not> parked read s k) ks"

definition releaseParked :: "(nat \<Rightarrow> bool) \<Rightarrow> 'w Server \<Rightarrow> 'w Server" where
  "releaseParked read s = s\<lparr>se_runs := (\<lambda>k. if parked read s k then None else se_runs s k)\<rparr>"

text \<open>\<open>cancelAllRuns\<close> cancels the runs of the map (\<open>ks\<close> are its keys), then drops the parked ones.\<close>

definition cancelAllRuns :: "(nat \<Rightarrow> bool) \<Rightarrow> string list \<Rightarrow> 'w Server \<Rightarrow> 'w Server" where
  "cancelAllRuns read ks s = releaseParked read (fold (\<lambda>k s. case run_of s k of None \<Rightarrow> s
     | Some (a, ar) \<Rightarrow> set_run a (ar\<lparr>ar_cancelled := True\<rparr>) s) ks s)"

section \<open>The steps of a daemon\<close>

text \<open>
  Client operations and goroutines in any order. A goroutine ends its loop with any runner and
  any error: what \<open>RunUntilDone\<close> and the answers and messages that reach the runner meanwhile can
  produce is among them.
\<close>

fun task_run :: "task \<Rightarrow> string" where
  "task_run (Execute a runID goal workspace turns) = runID"
| "task_run (Observe a runID) = runID"

inductive server_step :: "'w DaemonEnv \<Rightarrow> 'w Server \<Rightarrow> 'w Server \<Rightarrow> bool" for env where
  start: "server_step env s (snd (opStart env m s))"
| cancel: "server_step env s (snd (opCancel runID s))"
| steer: "server_step env s (snd (opSteer env runID text s))"
| permission: "server_step env s (snd (opPermission env runID requestID fp reason allow s))"
| execute: "se_tasks s = xs @ Execute a runID goal workspace turns # ys \<Longrightarrow>
    server_step env s ((execute_run env a runID goal workspace turns s)\<lparr>se_tasks := xs @ Observe a runID # ys\<rparr>)"
| observe: "se_tasks s = xs @ Observe a runID # ys \<Longrightarrow>
    server_step env s ((observe_end env a runID r failed s)\<lparr>se_tasks := xs @ ys\<rparr>)"

definition server_init :: "'w Server" where
  "server_init = \<lparr>se_runs = Map.empty, se_heap = Map.empty, se_next = 0, se_seq = 0, se_tasks = [],
     se_records = Map.empty, se_published = []\<rparr>"

inductive server_reaches :: "'w DaemonEnv \<Rightarrow> 'w Server \<Rightarrow> bool" for env where
  init: "server_reaches env server_init"
| step: "server_reaches env s \<Longrightarrow> server_step env s s' \<Longrightarrow> server_reaches env s'"

text \<open>
  A run of the map that no goroutine advances: it waits for an answer, or its answer was resolved
  and the checkpoint that should record it could not be written.
\<close>

definition awaits_answer :: "'w ActiveRun \<Rightarrow> bool" where
  "awaits_answer ar \<longleftrightarrow> (case ar_runner ar of None \<Rightarrow> False
     | Some r \<Rightarrow> phase_of r = PhaseYield \<and> st_PendingPerms (r_State r) \<noteq> [])"

definition answer_unsaved :: "'w ActiveRun \<Rightarrow> bool" where
  "answer_unsaved ar \<longleftrightarrow> (case ar_runner ar of None \<Rightarrow> False | Some r \<Rightarrow> phase_of r = PhasePermissionCheck)"

definition idle_ok :: "'w ActiveRun \<Rightarrow> bool" where
  "idle_ok ar \<longleftrightarrow> \<not> ar_busy ar \<longrightarrow> awaits_answer ar \<or> answer_unsaved ar"

definition server_ok :: "'w Server \<Rightarrow> bool" where
  "server_ok s \<longleftrightarrow> distinct (map task_run (se_tasks s))
     \<and> (\<forall>t\<in>set (se_tasks s). se_runs s (task_run t) = Some (task_addr t))
     \<and> (\<forall>i j a. se_runs s i = Some a \<longrightarrow> se_runs s j = Some a \<longrightarrow> i = j)
     \<and> (\<forall>i a. se_runs s i = Some a \<longrightarrow> a < se_next s
          \<and> (\<exists>ar. se_heap s a = Some ar \<and> (ar_busy ar \<longleftrightarrow> i \<in> task_run ` set (se_tasks s)) \<and> idle_ok ar))"

lemma server_okD:
  assumes "server_ok s"
  shows "distinct (map task_run (se_tasks s))"
    "t \<in> set (se_tasks s) \<Longrightarrow> se_runs s (task_run t) = Some (task_addr t)"
    "se_runs s i = Some a \<Longrightarrow> se_runs s j = Some a \<Longrightarrow> i = j"
    "se_runs s i = Some a \<Longrightarrow> a < se_next s"
    "se_runs s i = Some a \<Longrightarrow> \<exists>ar. se_heap s a = Some ar \<and> (ar_busy ar \<longleftrightarrow> i \<in> task_run ` set (se_tasks s)) \<and> idle_ok ar"
  using assms unfolding server_ok_def by blast+

lemma set_run_fields [simp]:
  "se_runs (set_run a ar s) = se_runs s" "se_tasks (set_run a ar s) = se_tasks s" "se_next (set_run a ar s) = se_next s"
  "se_heap (set_run a ar s) = (se_heap s)(a \<mapsto> ar)"
  by (simp_all add: set_run_def)

lemma saveRecord_fields [simp]:
  "se_runs (saveRecord env r s) = se_runs s" "se_tasks (saveRecord env r s) = se_tasks s"
  "se_next (saveRecord env r s) = se_next s" "se_heap (saveRecord env r s) = se_heap s"
  by (simp_all add: saveRecord_def split: option.split)

lemma publish_fields [simp]:
  "se_runs (publish i k p s) = se_runs s" "se_tasks (publish i k p s) = se_tasks s"
  "se_next (publish i k p s) = se_next s" "se_heap (publish i k p s) = se_heap s"
  by (simp_all add: publish_def split: option.split)

lemma run_of_Some: "run_of s i = Some (a, ar) \<longleftrightarrow> se_runs s i = Some a \<and> se_heap s a = Some ar"
  by (auto simp: run_of_def split: option.splits)

text \<open>
  What most operations do: the run \<open>i\<close> of the map gets a new state, and the goroutines a new list
  in which only \<open>i\<close>'s claim may change.
\<close>

lemma server_ok_update:
  assumes ok: "server_ok s" and i: "se_runs s i = Some a"
    and s': "se_runs s' = se_runs s" "se_heap s' = (se_heap s)(a \<mapsto> ar)" "se_next s' = se_next s"
    and t: "distinct (map task_run (se_tasks s'))"
      "\<forall>t\<in>set (se_tasks s'). t \<in> set (se_tasks s) \<or> task_run t = i \<and> task_addr t = a"
      "\<forall>j. j \<noteq> i \<longrightarrow> (j \<in> task_run ` set (se_tasks s') \<longleftrightarrow> j \<in> task_run ` set (se_tasks s))"
    and ar: "ar_busy ar \<longleftrightarrow> i \<in> task_run ` set (se_tasks s')" "idle_ok ar"
  shows "server_ok s'"
  unfolding server_ok_def s'
proof (intro conjI ballI allI impI)
  show "distinct (map task_run (se_tasks s'))" by (rule t(1))
  show "se_runs s (task_run u) = Some (task_addr u)" if "u \<in> set (se_tasks s')" for u
    using t(2) that i server_okD(2)[OF ok] by auto
  show "j = k" if "se_runs s j = Some b" "se_runs s k = Some b" for j k b
    using server_okD(3)[OF ok] that by blast
  show "b < se_next s" if "se_runs s j = Some b" for j b using server_okD(4)[OF ok that] .
  show "\<exists>x. ((se_heap s)(a \<mapsto> ar)) b = Some x \<and> (ar_busy x \<longleftrightarrow> j \<in> task_run ` set (se_tasks s')) \<and> idle_ok x"
    if j: "se_runs s j = Some b" for j b
  proof (cases "j = i")
    case True
    with i j ar show ?thesis by simp
  next
    case False
    then have "b \<noteq> a" using server_okD(3)[OF ok] i j by blast
    with server_okD(5)[OF ok j] t(3) False show ?thesis by simp
  qed
qed

lemma server_ok_set_run:
  assumes "server_ok s" "run_of s i = Some (a, ar)" "ar_busy ar' = ar_busy ar" "idle_ok ar'"
  shows "server_ok (set_run a ar' s)"
proof -
  have i: "se_runs s i = Some a" "se_heap s a = Some ar" using assms(2) by (simp_all add: run_of_Some)
  show ?thesis
    by (rule server_ok_update[OF assms(1) i(1), where ar = ar'])
      (use server_okD(1,5)[OF assms(1)] i assms(3,4) in fastforce)+
qed

lemma idle_ok_of: "server_ok s \<Longrightarrow> run_of s i = Some (a, ar) \<Longrightarrow> idle_ok ar"
  using server_okD(5) by (fastforce simp: run_of_Some)

lemma persist_phase: "persist svc r = (r', e) \<Longrightarrow> phase_of r' = phase_of r"
  by (auto simp: persist_def phase_of_def Let_def split: option.splits prod.splits)

lemma phase_of_set_state: "phase_of (r\<lparr>r_State := st\<rparr>) = st_Phase st"
  by (simp add: phase_of_def)

text \<open>An answer that ends with an error left the state alone or failed to save it.\<close>

lemma ResolvePermission_error:
  "ResolvePermission svc i fp allow actor reason r = (r', Some e)
   \<Longrightarrow> r_State r' = r_State r \<or> phase_of r' = PhasePermissionCheck"
  by (auto simp: ResolvePermission_def Let_def phase_of_set_state dest!: persist_phase
      split: if_splits option.splits prod.splits sum.splits)

lemma Inject_state: "r_State (fst (Inject svc m r)) = r_State r"
  by (simp add: Inject_def Let_def)

lemma idle_ok_same_state:
  "ar_runner ar = Some r \<Longrightarrow> r_State r' = r_State r \<Longrightarrow> ar_busy ar' = ar_busy ar \<Longrightarrow> ar_runner ar' = Some r' \<Longrightarrow> idle_ok ar
   \<Longrightarrow> idle_ok ar'"
  by (simp add: idle_ok_def awaits_answer_def answer_unsaved_def phase_of_def)

lemma server_ok_launch:
  assumes ok: "server_ok s" and fresh: "se_runs s i = None"
  shows "server_ok (launch_run env i goal provider workspace turns s)"
proof -
  define ar where "ar = \<lparr>ar_cancelled = False, ar_runner = None :: 'a Runner option, ar_goal = goal, ar_workspace = [], ar_busy = True\<rparr>"
  let ?task = "Execute (se_next s) i goal workspace turns"
  let ?t = "launch_run env i goal provider workspace turns s"
  have t: "se_runs ?t = (se_runs s)(i \<mapsto> se_next s)" "se_next ?t = se_next s + 1"
    "se_heap ?t = (se_heap s)(se_next s \<mapsto> ar)" "se_tasks ?t = se_tasks s @ [?task]"
    by (simp_all add: launch_run_def Let_def ar_def)
  have old: "se_runs s j = Some b \<Longrightarrow> b < se_next s" for j b using server_okD(4)[OF ok] .
  have ne: "i \<notin> task_run ` set (se_tasks s)"
    using server_okD(2)[OF ok] fresh by (metis image_iff option.distinct(1))
  show ?thesis
    unfolding server_ok_def t
  proof (intro conjI ballI allI impI)
    show "distinct (map task_run (se_tasks s @ [?task]))" using server_okD(1)[OF ok] ne by simp
    show "((se_runs s)(i \<mapsto> se_next s)) (task_run u) = Some (task_addr u)" if "u \<in> set (se_tasks s @ [?task])" for u
      using that server_okD(2)[OF ok, of u] fresh by auto
    show "j = k" if "((se_runs s)(i \<mapsto> se_next s)) j = Some b" "((se_runs s)(i \<mapsto> se_next s)) k = Some b" for j k b
      using that old server_okD(3)[OF ok, of j b k] by (auto split: if_splits)
    show "b < se_next s + 1" if "((se_runs s)(i \<mapsto> se_next s)) j = Some b" for j b
      using that old by (auto split: if_splits intro: less_SucI)
    show "\<exists>x. ((se_heap s)(se_next s \<mapsto> ar)) b = Some x
        \<and> (ar_busy x \<longleftrightarrow> j \<in> task_run ` set (se_tasks s @ [?task])) \<and> idle_ok x"
      if j: "((se_runs s)(i \<mapsto> se_next s)) j = Some b" for j b
    proof (cases "j = i")
      case True
      with j show ?thesis by (simp add: idle_ok_def ar_def)
    next
      case False
      with j have "se_runs s j = Some b" by simp
      with server_okD(5)[OF ok this] old[OF this] False show ?thesis by auto
    qed
  qed
qed

lemma server_ok_seq: "server_ok s \<Longrightarrow> server_ok (s\<lparr>se_seq := n\<rparr>)"
  by (simp add: server_ok_def)

lemma server_ok_start: "server_ok s \<Longrightarrow> server_ok (snd (opStart env m s))"
  by (auto simp: opStart_def Let_def intro!: server_ok_launch server_ok_seq split: option.split)

lemma server_ok_cancel: "server_ok s \<Longrightarrow> server_ok (snd (opCancel i s))"
proof -
  assume ok: "server_ok s"
  have "server_ok (set_run a (ar\<lparr>ar_cancelled := True\<rparr>) s)" if r: "run_of s i = Some (a, ar)" for a ar
  proof (rule server_ok_set_run[OF ok r])
    show "idle_ok (ar\<lparr>ar_cancelled := True\<rparr>)"
      using idle_ok_of[OF ok r] by (simp add: idle_ok_def awaits_answer_def answer_unsaved_def)
  qed simp
  with ok show ?thesis by (auto simp: opCancel_def split: option.split)
qed

lemma server_ok_steer: "server_ok s \<Longrightarrow> server_ok (snd (opSteer env i text s))"
proof -
  assume ok: "server_ok s"
  have "server_ok (set_run a (ar\<lparr>ar_runner := Some r'\<rparr>) s)"
    if r: "run_of s i = Some (a, ar)" "ar_runner ar = Some r" "Inject svc m r = (r', x)" for a ar r r' x and svc :: "'a Services" and m
  proof (rule server_ok_set_run[OF ok r(1)])
    show "idle_ok (ar\<lparr>ar_runner := Some r'\<rparr>)"
      by (rule idle_ok_same_state[OF r(2) _ _ _ idle_ok_of[OF ok r(1)]])
        (use Inject_state[of svc m r] r(3) in simp_all)
  qed simp
  with ok show ?thesis by (auto simp: opSteer_def split: option.split prod.split)
qed

lemma server_ok_permission: "server_ok s \<Longrightarrow> server_ok (snd (opPermission env i q fp reason allow s))"
proof -
  assume ok: "server_ok s"
  have err: "server_ok (set_run a (ar\<lparr>ar_runner := Some r', ar_busy := False\<rparr>) s)"
    if r: "run_of s i = Some (a, ar)" "ar_runner ar = Some r" "\<not> ar_busy ar"
      "ResolvePermission svc q fp allow actor reason r = (r', Some e)" for a ar r r' e and svc :: "'a Services" and actor
  proof (rule server_ok_set_run[OF ok r(1)])
    show "idle_ok (ar\<lparr>ar_runner := Some r', ar_busy := False\<rparr>)"
      using ResolvePermission_error[OF r(4)]
    proof
      assume "r_State r' = r_State r"
      then show ?thesis
        by (intro idle_ok_same_state[OF r(2) _ _ _ idle_ok_of[OF ok r(1)]]) (simp_all add: r(3))
    qed (simp add: idle_ok_def answer_unsaved_def)
  qed (simp add: r(3))
  have go: "server_ok ((set_run a (ar\<lparr>ar_runner := Some r', ar_busy := True\<rparr>) s)\<lparr>se_tasks := se_tasks s @ [Observe a i]\<rparr>)"
    if r: "run_of s i = Some (a, ar)" "\<not> ar_busy ar" for a ar and r' :: "'a Runner"
  proof -
    have i: "se_runs s i = Some a" "se_heap s a = Some ar" using r(1) by (simp_all add: run_of_Some)
    have ne: "i \<notin> task_run ` set (se_tasks s)" using server_okD(5)[OF ok i(1)] i(2) r(2) by auto
    show ?thesis
      by (rule server_ok_update[OF ok i(1), where ar = "ar\<lparr>ar_runner := Some r', ar_busy := True\<rparr>"])
        (use ne server_okD(1)[OF ok] in \<open>auto simp: idle_ok_def\<close>)
  qed
  from ok err go show ?thesis by (auto simp: opPermission_def split: option.split prod.split)
qed

lemma tasks_split:
  assumes "server_ok s" "se_tasks s = xs @ t # ys"
  shows "se_runs s (task_run t) = Some (task_addr t)" "task_run t \<notin> task_run ` set (xs @ ys)"
    "distinct (map task_run (xs @ ys))"
  using server_okD(1,2)[OF assms(1)] assms(2) by auto

lemma server_ok_execute:
  assumes ok: "server_ok s" and t: "se_tasks s = xs @ Execute a i g w n # ys"
  shows "server_ok ((execute_run env a i g w n s)\<lparr>se_tasks := xs @ Observe a i # ys\<rparr>)"
proof -
  have i: "se_runs s i = Some a" using tasks_split(1)[OF ok t] by simp
  obtain ar where ar: "se_heap s a = Some ar" "ar_busy ar \<longleftrightarrow> i \<in> task_run ` set (se_tasks s)"
    using server_okD(5)[OF ok i] by blast
  show ?thesis
    by (rule server_ok_update[OF ok i, where ar = "ar\<lparr>ar_goal := g, ar_workspace := w, ar_runner := Some (run_runner env i g n)\<rparr>"])
      (use tasks_split(2,3)[OF ok t] ar t in \<open>auto simp: execute_run_def idle_ok_def\<close>)
qed

lemma server_ok_observe:
  assumes ok: "server_ok s" and t: "se_tasks s = xs @ Observe a i # ys"
  shows "server_ok ((observe_end env a i r failed s)\<lparr>se_tasks := xs @ ys\<rparr>)"
proof -
  have i: "se_runs s i = Some a" using tasks_split(1)[OF ok t] by simp
  obtain ar where ar: "se_heap s a = Some ar" using server_okD(5)[OF ok i] by blast
  let ?status = "observe_status failed (ar_cancelled ar) (phase_of r) (st_PendingPerms (r_State r))"
  let ?t = "(observe_end env a i r failed s)\<lparr>se_tasks := xs @ ys\<rparr>"
  note split = tasks_split(2,3)[OF ok t]
  show ?thesis
  proof (cases "?status = ''awaiting_approval''")
    case True
    then have w: "phase_of r = PhaseYield" "st_PendingPerms (r_State r) \<noteq> []"
      by (auto simp: observe_status_def split: if_splits)
    have f: "se_runs ?t = se_runs s" "se_next ?t = se_next s" "se_tasks ?t = xs @ ys"
      "se_heap ?t = (se_heap s)(a \<mapsto> ar\<lparr>ar_runner := Some r, ar_busy := False\<rparr>)"
      using ar True by (simp_all add: observe_end_def Let_def split: option.split)
    show ?thesis
      by (rule server_ok_update[OF ok i f(1,4,2)])
        (use split t w in \<open>auto simp: f(3) idle_ok_def awaits_answer_def\<close>)
  next
    case False
    have f: "se_runs ?t = (se_runs s)(i := None)" "se_next ?t = se_next s" "se_tasks ?t = xs @ ys"
      "se_heap ?t = (se_heap s)(a \<mapsto> ar\<lparr>ar_runner := Some r\<rparr>)"
      using ar False by (simp_all add: observe_end_def Let_def split: option.split)
    show ?thesis
      unfolding server_ok_def f
    proof (intro conjI ballI allI impI)
      show "distinct (map task_run (xs @ ys))" by (rule split(2))
      show "((se_runs s)(i := None)) (task_run u) = Some (task_addr u)" if "u \<in> set (xs @ ys)" for u
        using that split(1) t server_okD(2)[OF ok, of u] by auto
      show "j = k" if "((se_runs s)(i := None)) j = Some b" "((se_runs s)(i := None)) k = Some b" for j k b
        using that server_okD(3)[OF ok] by (auto split: if_splits)
      show "b < se_next s" if "((se_runs s)(i := None)) j = Some b" for j b
        using that server_okD(4)[OF ok] by (auto split: if_splits)
      show "\<exists>x. ((se_heap s)(a \<mapsto> ar\<lparr>ar_runner := Some r\<rparr>)) b = Some x
          \<and> (ar_busy x \<longleftrightarrow> j \<in> task_run ` set (xs @ ys)) \<and> idle_ok x"
        if j: "((se_runs s)(i := None)) j = Some b" for j b
      proof -
        have j': "j \<noteq> i" "se_runs s j = Some b" using j by (auto split: if_splits)
        then have "b \<noteq> a" using server_okD(3)[OF ok] i by blast
        with server_okD(5)[OF ok j'(2)] j'(1) t show ?thesis by auto
      qed
    qed
  qed
qed

lemma server_reaches_ok: "server_reaches env s \<Longrightarrow> server_ok s"
proof (induction rule: server_reaches.induct)
  case init
  show ?case by (simp add: server_ok_def server_init_def)
next
  case (step s s')
  from step.hyps(2) step.IH show ?case
    by cases (simp_all only: server_ok_start server_ok_cancel server_ok_steer server_ok_permission
        server_ok_execute server_ok_observe)
qed

text \<open>
  C5: one goroutine per run. In every state a daemon reaches, whatever clients ask and however its
  goroutines interleave, no run is advanced by two goroutines, every goroutine advances a run of
  the map, and a run of the map is either advanced or idle, never both; an idle run waits for an
  answer, unless an answer was resolved whose checkpoint could not be written.
\<close>

theorem one_goroutine_per_run:
  assumes "server_reaches env s"
  shows "distinct (map task_run (se_tasks s))
    \<and> (\<forall>t\<in>set (se_tasks s). se_runs s (task_run t) = Some (task_addr t))
    \<and> (\<forall>i a. se_runs s i = Some a \<longrightarrow> (\<exists>ar. se_heap s a = Some ar \<and> (ar_busy ar \<longleftrightarrow> i \<in> task_run ` set (se_tasks s))
         \<and> (i \<in> task_run ` set (se_tasks s) \<or> awaits_answer ar \<or> answer_unsaved ar)))"
proof (intro conjI)
  note ok = server_reaches_ok[OF assms]
  show "distinct (map task_run (se_tasks s))" "\<forall>t\<in>set (se_tasks s). se_runs s (task_run t) = Some (task_addr t)"
    using server_okD(1,2)[OF ok] by auto
  show "\<forall>i a. se_runs s i = Some a \<longrightarrow> (\<exists>ar. se_heap s a = Some ar \<and> (ar_busy ar \<longleftrightarrow> i \<in> task_run ` set (se_tasks s))
      \<and> (i \<in> task_run ` set (se_tasks s) \<or> awaits_answer ar \<or> answer_unsaved ar))"
    using server_okD(5)[OF ok] by (fastforce simp: idle_ok_def)
qed

text \<open>A daemon whose disk accepts nothing but run records, over the world of one number.\<close>

definition sample_services :: "int Services" where
  "sample_services =
     \<lparr>sv_Stream = (\<lambda>w req. (Inl ''no model'', w)), sv_Tools = None, sv_Events = False,
      sv_ContextManifest = None, sv_ReserveBudget = None, sv_release = (\<lambda>w t c. w), sv_BudgetExhausted = None,
      sv_ToolSpecs = None, sv_RecordDiff = False, sv_Workspace = [], sv_HasVision = False,
      sv_ReasoningEffort = [], sv_QualityGate = None, sv_CtxErr = (\<lambda>w. None),
      sv_StoreIO = (\<lambda>w. (WriteFails, w)), sv_JournalIO = (\<lambda>w. (WriteFails, w)),
      sv_files = (\<lambda>w. \<lparr>fs_os = \<lparr>os_cwd = ''/w'', os_lstat = (\<lambda>p. Missing), os_eval = Inr\<rparr>,
        fs_stat = (\<lambda>p. StatError), fs_read = (\<lambda>p. Inl [])\<rparr>),
      sv_Now = (\<lambda>w. ''now''), sv_hash = (\<lambda>s. ''h'' @ s), sv_num = (\<lambda>q. ''n''), sv_Text = (\<lambda>c. ''error'')\<rparr>"

definition sample_daemon :: "int DaemonEnv" where
  "sample_daemon =
     \<lparr>de_NewProvider = (\<lambda>n u k m. if n = ''fake'' then None else Some ''unknown provider''), de_HasTools = True,
      de_Services = (\<lambda>i. sample_services),
      de_Policy = \<lparr>po_DefaultAction = None, po_DenyPrefixes = [], po_AskKinds = [], po_AllowActions = []\<rparr>,
      de_Trail = (\<lambda>i. []), de_TrailDec = (\<lambda>l. None), de_Store = [], de_Journal = FxAbsent, de_World = 0,
      de_IdText = (\<lambda>e. ''invalid run_id''), de_Workspace = ''/w'', de_StoreDir = ''/s'', de_Now = ''now'',
      de_RecordWrites = True, de_EvidenceError = None\<rparr>"

definition started :: "int Server" where
  "started = snd (opStart sample_daemon [(''goal'', JStr ''fix''), (''run_id'', JStr ''r1'')] server_init)"

lemma started_eval:
  "se_tasks started = [Execute 0 ''r1'' ''fix'' ''/w'' 5]" "se_runs started ''r1'' = Some 0"
  unfolding started_def by code_simp+

theorem one_goroutine_per_run_witness:
  "se_tasks started = [Execute 0 ''r1'' ''fix'' ''/w'' 5] \<and> distinct (map task_run (se_tasks started))
   \<and> (\<exists>ar. se_heap started 0 = Some ar \<and> ar_busy ar)"
proof -
  have "server_reaches sample_daemon started"
    unfolding started_def by (rule server_reaches.step[OF server_reaches.init server_step.start])
  from one_goroutine_per_run[OF this] started_eval show ?thesis by fastforce
qed

section \<open>Answers that are lost\<close>

text \<open>
  A run of the map whose checkpoint write fails after its answer was resolved is idle for good: no
  goroutine advances it, and a further answer finds nothing pending.
\<close>

lemma unsaved_answer_strands_the_run:
  assumes "run_of s i = Some (a, ar)" "ar_runner ar = Some r" "phase_of r = PhasePermissionCheck" "\<not> ar_busy ar"
    and "i \<noteq> []" "q \<noteq> []" "fp \<noteq> []"
  shows "\<exists>e. fst (opPermission env i q fp reason allow s) = Inl e"
    and "se_tasks (snd (opPermission env i q fp reason allow s)) = se_tasks s"
  using assms by (simp_all add: opPermission_def ResolvePermission_def)

text \<open>After a restart the map is empty: a run that waited for an answer cannot be given one.\<close>

lemma restarted_run_is_not_answerable:
  "se_runs s i = None \<Longrightarrow> i \<noteq> [] \<Longrightarrow> q \<noteq> [] \<Longrightarrow> fp \<noteq> []
   \<Longrightarrow> opPermission env i q fp reason allow s = (Inl (''run not active: '' @ i), s)"
  by (simp add: opPermission_def run_of_def)

end
