(* ===== verification/DaemonStore.thy ===== *)
theory DaemonStore
  imports DaemonRuns
begin

text \<open>
  What a daemon keeps on disk besides its logs: the records a new daemon reconciles with the
  checkpoints (\<open>reconcileStore\<close>, \<open>reconcileRun\<close> of \<open>internal/harness/daemon/daemon.go\<close>), the diff store of a
  run (\<open>saveDiff\<close>, \<open>opDiff\<close>), and the scheduled jobs with their retries (\<open>schedule.go\<close>).
\<close>

section \<open>Reconciling the records of a previous process\<close>

definition terminal_statuses :: "string list" where
  "terminal_statuses = [''complete'', ''failed'', ''cancelled'', ''interrupted'']"

definition reconciled :: "dir \<Rightarrow> string \<Rightarrow> string \<Rightarrow> RunRecord \<Rightarrow> RunRecord" where
  "reconciled d stamp runID rec =
     (let cp = Latest d runID;
          pending = (case cp of Inl _ \<Rightarrow> [] | Inr c \<Rightarrow> st_PendingPerms (cp_State c));
          phase = (case cp of Inl _ \<Rightarrow> rr_Phase rec
                   | Inr c \<Rightarrow> if rr_Phase rec = [] then phase_text (st_Phase (cp_State c)) else rr_Phase rec);
          rec = rec\<lparr>rr_UpdatedAt := stamp, rr_Interrupted := True\<rparr>;
          rec = (if 0 < length pending then
                   rec\<lparr>rr_Status := ''awaiting_approval'', rr_PendingPermissions := pending,
                       rr_StopReason := ''daemon restarted while this run was waiting for approval''\<rparr>
                 else (case cp of
                     Inr c \<Rightarrow> rec\<lparr>rr_Status := ''interrupted'', rr_ResumeCheckpoint := cp_ID c,
                       rr_StopReason := ''daemon restarted while this run was in flight; resume from checkpoint '' @ cp_ID c\<rparr>
                   | Inl _ \<Rightarrow> rec\<lparr>rr_Status := ''interrupted'',
                       rr_StopReason := ''daemon restarted while this run was in flight; no checkpoint survived to resume from''\<rparr>))
      in rec\<lparr>rr_Phase := phase\<rparr>)"

definition reconcileRun :: "dir \<Rightarrow> string \<Rightarrow> bool \<Rightarrow> string \<Rightarrow> record_file \<Rightarrow> record_file" where
  "reconcileRun d stamp writes runID f =
     (case f of CorruptRecord \<Rightarrow> f
      | RecordFile rec \<Rightarrow>
          if rr_Status rec \<in> set terminal_statuses then f
          else if \<not> writes then f
          else RecordFile (reconciled d stamp runID rec))"

definition reconcileStore :: "dir \<Rightarrow> string \<Rightarrow> (string \<Rightarrow> bool) \<Rightarrow> (string \<rightharpoonup> record_file) \<Rightarrow> (string \<rightharpoonup> record_file)" where
  "reconcileStore d stamp writes records = (\<lambda>i. map_option (reconcileRun d stamp (writes i) i) (records i))"

text \<open>\<open>New\<close>: nothing runs, and the records are reconciled.\<close>

definition NewServer :: "dir \<Rightarrow> string \<Rightarrow> (string \<Rightarrow> bool) \<Rightarrow> (string \<rightharpoonup> record_file) \<Rightarrow> 'w Server" where
  "NewServer d stamp writes records = server_init\<lparr>se_records := reconcileStore d stamp writes records\<rparr>"

lemma reconciled_fields:
  "rr_Status (reconciled d stamp i rec) = (case Latest d i of Inl _ \<Rightarrow> ''interrupted''
     | Inr c \<Rightarrow> if st_PendingPerms (cp_State c) = [] then ''interrupted'' else ''awaiting_approval'')"
  "rr_Interrupted (reconciled d stamp i rec)" "rr_RunID (reconciled d stamp i rec) = rr_RunID rec"
  "\<And>c. Latest d i = Inr c \<Longrightarrow> st_PendingPerms (cp_State c) \<noteq> [] \<Longrightarrow>
     rr_PendingPermissions (reconciled d stamp i rec) = st_PendingPerms (cp_State c)"
  "\<And>c. Latest d i = Inr c \<Longrightarrow> st_PendingPerms (cp_State c) = [] \<Longrightarrow>
     rr_ResumeCheckpoint (reconciled d stamp i rec) = cp_ID c"
  by (simp_all add: reconciled_def Let_def split: sum.split)

text \<open>
  Reconciling twice is reconciling once, but for the time.
\<close>

lemma reconciled_again:
  "rr_Status (reconciled d stamp i rec) = ''awaiting_approval'' \<Longrightarrow>
   reconciled d stamp' i (reconciled d stamp i rec) = (reconciled d stamp i rec)\<lparr>rr_UpdatedAt := stamp'\<rparr>"
  by (cases "Latest d i") (auto simp: reconciled_def Let_def split: if_splits)

text \<open>
  C20: no ghosts after a restart. Once a new daemon has reconciled the store, no record claims a
  run in flight: each is terminal or waits for an answer. Terminal records are as they were; a
  run that waits names exactly the requests of its newest checkpoint, one that was interrupted
  the newest checkpoint, if it has any; and another restart changes nothing but the time.
\<close>

theorem reconcile_leaves_no_ghosts:
  assumes "writes i" "records i = Some (RecordFile rec0)"
  shows "\<exists>rec. se_records (NewServer d stamp writes records :: 'w Server) i = Some (RecordFile rec)
    \<and> rr_Status rec \<in> set (''awaiting_approval'' # terminal_statuses)
    \<and> (rr_Status rec0 \<in> set terminal_statuses \<longrightarrow> rec = rec0)
    \<and> (rr_Status rec0 \<notin> set terminal_statuses \<longrightarrow>
         (case Latest d i of Inl _ \<Rightarrow> rr_Status rec = ''interrupted''
          | Inr c \<Rightarrow> if st_PendingPerms (cp_State c) = [] then rr_Status rec = ''interrupted'' \<and> rr_ResumeCheckpoint rec = cp_ID c
                     else rr_Status rec = ''awaiting_approval'' \<and> rr_PendingPermissions rec = st_PendingPerms (cp_State c)))
    \<and> (\<forall>stamp'. \<exists>t. reconcileStore d stamp' writes (se_records (NewServer d stamp writes records :: 'w Server)) i
         = Some (RecordFile (rec\<lparr>rr_UpdatedAt := t\<rparr>)))"
proof (cases "rr_Status rec0 \<in> set terminal_statuses")
  case True
  have "\<exists>t. rec0 = rec0\<lparr>rr_UpdatedAt := t\<rparr>" by (rule exI[of _ "rr_UpdatedAt rec0"]) simp
  with True assms show ?thesis by (simp add: NewServer_def reconcileStore_def reconcileRun_def)
next
  case False
  let ?rec = "reconciled d stamp i rec0"
  have new: "se_records (NewServer d stamp writes records :: 'w Server) i = Some (RecordFile ?rec)"
    using False assms by (simp add: NewServer_def reconcileStore_def reconcileRun_def)
  have st: "rr_Status ?rec = ''interrupted'' \<or> rr_Status ?rec = ''awaiting_approval''"
    by (simp add: reconciled_fields split: sum.split)
  have "\<exists>t. reconcileStore d stamp' writes (se_records (NewServer d stamp writes records :: 'w Server)) i
      = Some (RecordFile (?rec\<lparr>rr_UpdatedAt := t\<rparr>))" for stamp'
    using st
  proof
    assume "rr_Status ?rec = ''interrupted''"
    moreover have "?rec = ?rec\<lparr>rr_UpdatedAt := rr_UpdatedAt ?rec\<rparr>" by simp
    ultimately show ?thesis
      by (intro exI[of _ "rr_UpdatedAt ?rec"]) (simp add: reconcileStore_def new reconcileRun_def terminal_statuses_def)
  next
    assume a: "rr_Status ?rec = ''awaiting_approval''"
    then show ?thesis
      by (intro exI[of _ stamp']) (simp add: reconcileStore_def new reconcileRun_def terminal_statuses_def assms(1) reconciled_again)
  qed
  with new st False show ?thesis
    by (auto simp: terminal_statuses_def reconciled_fields split: sum.split)
qed

definition sample_run_record :: RunRecord where
  "sample_run_record = fresh_record ''r1'' ''running'' ''execute_tool'' []"

theorem reconcile_leaves_no_ghosts_witness:
  "\<exists>rec. se_records (NewServer [] ''t'' (\<lambda>i. True) [''r1'' \<mapsto> RecordFile sample_run_record] :: int Server) ''r1'' = Some (RecordFile rec)
    \<and> rr_Status rec = ''interrupted''"
proof -
  have l: "Latest [] ''r1'' = Inl (NoCheckpoint ''r1'')" by (simp add: Latest_def)
  have "rr_Status sample_run_record \<notin> set terminal_statuses"
    by (simp add: sample_run_record_def fresh_record_def terminal_statuses_def)
  with reconcile_leaves_no_ghosts[of "\<lambda>i. True" "''r1''" "[''r1'' \<mapsto> RecordFile sample_run_record]" sample_run_record "[]" "''t''", where ?'w = int] l
  show ?thesis by auto
qed

section \<open>Diffs\<close>

record DiffRecord =
  df_Path :: string
  df_Kind :: string
  df_Content :: string

text \<open>
  The diff store of a run: the decoded file, \<open>None\<close> when it is absent or does not decode. A
  failing write leaves the file; \<open>io\<close> says how the write ends.
\<close>

definition loadDiffs :: "(string \<rightharpoonup> DiffRecord) option \<Rightarrow> (string \<rightharpoonup> DiffRecord)" where
  "loadDiffs f = (case f of None \<Rightarrow> Map.empty | Some m \<Rightarrow> m)"

definition saveDiff :: "bool \<Rightarrow> string \<Rightarrow> string \<Rightarrow> string \<Rightarrow> string \<Rightarrow> (string \<rightharpoonup> DiffRecord) option \<Rightarrow> (string \<rightharpoonup> DiffRecord) option" where
  "saveDiff writes runID path kind content f =
     (if ValidateID runID \<noteq> None then f
      else if \<not> writes then f
      else Some ((loadDiffs f)(path \<mapsto> \<lparr>df_Path = path, df_Kind = kind, df_Content = content\<rparr>)))"

text \<open>\<open>ks\<close> is the order in which the map is ranged over when the path is not a key.\<close>

definition opDiff :: "(id_error \<Rightarrow> string) \<Rightarrow> string list \<Rightarrow> message \<Rightarrow> (string \<rightharpoonup> DiffRecord) option \<Rightarrow> response" where
  "opDiff idtext ks m f =
     (let runID = msg_str m ''run_id''; path = msg_str m ''path'' in
      if runID = [] then Inl ''run_id required''
      else if path = [] then Inl ''path required''
      else case ValidateID runID of Some e \<Rightarrow> Inl (idtext e)
      | None \<Rightarrow>
          (let diffs = loadDiffs f;
               entry = (case diffs path of Some d \<Rightarrow> Some d
                 | None \<Rightarrow> (case find (\<lambda>k. path_clean k = path_clean path) ks of None \<Rightarrow> None | Some k \<Rightarrow> diffs k))
           in case entry of
                None \<Rightarrow> Inl (''file not modified by run: '' @ path)
              | Some d \<Rightarrow> Inr [(''path'', JStr (df_Path d)), (''kind'', JStr (df_Kind d)), (''content'', JStr (df_Content d))]))"

text \<open>The last change saved for a path is the one read back; other paths keep theirs.\<close>

lemma opDiff_saveDiff:
  assumes "ValidateID runID = None" "runID \<noteq> []" "path \<noteq> []"
  shows "opDiff idtext ks [(''run_id'', JStr runID), (''path'', JStr path)] (saveDiff True runID path kind content f)
    = Inr [(''path'', JStr path), (''kind'', JStr kind), (''content'', JStr content)]"
  using assms by (simp add: opDiff_def saveDiff_def loadDiffs_def msg_str_def jobj_get_def jget_def Let_def)

lemma saveDiff_other: "p \<noteq> path \<Longrightarrow> loadDiffs (saveDiff writes runID path kind content f) p = loadDiffs f p"
  by (simp add: saveDiff_def loadDiffs_def)

end
