(* ===== verification/DaemonLog.thy ===== *)
theory DaemonLog
  imports AgentTypes
begin

text \<open>
  The event log of a daemon run: \<open>RotateLog\<close> of \<open>internal/harness/daemon/supervise.go\<close> and
  \<open>appendEvent\<close>, \<open>noteEventWritten\<close>, \<open>opEvents\<close>, \<open>readRawEvents\<close>, \<open>alreadySent\<close> and \<open>handleSubscribe\<close>
  of \<open>daemon.go\<close>. A log is the text of its file, absent until the first append, and the line
  count the daemon keeps for it in memory. Events are a type \<open>'e\<close>; the JSON codec is the
  parameters \<open>enc\<close> and \<open>dec\<close>. What the disk does is an argument of each step.
\<close>

section \<open>Rotation\<close>

definition newline :: char where
  "newline = CHR 0x0A"

text \<open>The lines of a file, without the empty one after the last newline.\<close>

definition log_lines :: "string \<Rightarrow> string list" where
  "log_lines data = (let ls = split_on newline data in if ls \<noteq> [] \<and> last ls = [] then butlast ls else ls)"

text \<open>
  How \<open>os.WriteFile\<close> ends: written; refused when it opens the file, which is left alone; or
  stopped after it has truncated the file and written some bytes of the new content.
\<close>

datatype rewrite_io = Rewritten | RewriteRefused | RewriteStops nat

datatype read_io = ReadsFile | ReadFails

text \<open>The boolean says whether a rewrite was due, the second whether an error is returned.\<close>

definition RotateLog :: "read_io \<Rightarrow> rewrite_io \<Rightarrow> int \<Rightarrow> string option \<Rightarrow> (bool \<times> bool) \<times> string option" where
  "RotateLog rd wr maxLines f =
     (let maxLines = (if maxLines < 10 then 10 else maxLines) in
      case rd of ReadFails \<Rightarrow> ((False, True), f)
      | ReadsFile \<Rightarrow>
        (case f of None \<Rightarrow> ((False, False), f)
         | Some data \<Rightarrow>
           (let ls = log_lines data in
            if int (length ls) \<le> maxLines then ((False, False), f)
            else (let keep = drop (length ls - nat (maxLines div 2)) ls in
              case wr of
                Rewritten \<Rightarrow> ((True, False), Some (join [newline] keep @ [newline]))
              | RewriteRefused \<Rightarrow> ((True, True), f)
              | RewriteStops n \<Rightarrow> ((True, True), Some (take n (join [newline] keep @ [newline])))))))"

definition eventLogMax :: int where
  "eventLogMax = 2000"

text \<open>\<open>el_count\<close> is the entry of \<open>eventLines\<close>, 0 when there is none, as after a restart.\<close>

record EventLog =
  el_text :: "string option"
  el_count :: int

definition noteEventWritten :: "read_io \<Rightarrow> rewrite_io \<Rightarrow> EventLog \<Rightarrow> EventLog" where
  "noteEventWritten rd wr l =
     (let count = el_count l + 1 in
      if count < eventLogMax then l\<lparr>el_count := count\<rparr>
      else (case RotateLog rd wr eventLogMax (el_text l) of
              ((trimmed, _), f) \<Rightarrow>
                \<lparr>el_text = f, el_count = (if trimmed then eventLogMax div 2 else eventLogMax)\<rparr>))"

section \<open>Appending and publishing\<close>

datatype append_io = Appended | OpenFails | WritesPart string

text \<open>
  A subscriber is the channel of 128 events it drains; a full channel drops the event.
\<close>

definition channel_capacity :: nat where
  "channel_capacity = 128"

definition push_event :: "'e \<Rightarrow> 'e list \<Rightarrow> 'e list" where
  "push_event e q = (if length q < channel_capacity then q @ [e] else q)"

definition appendEvent :: "('e \<Rightarrow> string option) \<Rightarrow> append_io \<Rightarrow> read_io \<Rightarrow> rewrite_io \<Rightarrow> 'e
    \<Rightarrow> EventLog \<times> 'e list list \<Rightarrow> EventLog \<times> 'e list list" where
  "appendEvent enc io rd wr e s =
     (case s of (l, subs) \<Rightarrow>
       (case enc e of None \<Rightarrow> (l, subs)
        | Some line \<Rightarrow>
          (let old = (case el_text l of None \<Rightarrow> [] | Some t \<Rightarrow> t) in
           case io of
             OpenFails \<Rightarrow> (l, subs)
           | WritesPart p \<Rightarrow> (l\<lparr>el_text := Some (old @ p)\<rparr>, subs)
           | Appended \<Rightarrow>
               (noteEventWritten rd wr (l\<lparr>el_text := Some (old @ line @ [newline])\<rparr>),
                map (push_event e) subs))))"

section \<open>Reading\<close>

text \<open>\<open>opEvents\<close>: the decodable non-empty lines, the last 500 of them; \<open>None\<close> when there is no file.\<close>

definition decode_lines :: "(string \<Rightarrow> 'e option) \<Rightarrow> string list \<Rightarrow> 'e list" where
  "decode_lines dec ls = List.map_filter dec (filter (\<lambda>l. l \<noteq> []) ls)"

definition newest :: "nat \<Rightarrow> 'a list \<Rightarrow> 'a list" where
  "newest n xs = (if n < length xs then drop (length xs - n) xs else xs)"

definition opEvents :: "(string \<Rightarrow> 'e option) \<Rightarrow> EventLog \<Rightarrow> 'e list option" where
  "opEvents dec l = (case el_text l of None \<Rightarrow> None
     | Some data \<Rightarrow> Some (newest 500 (decode_lines dec (split_on newline data))))"




section \<open>A log as its lines\<close>

definition text_of :: "string list \<Rightarrow> string" where
  "text_of ls = concat (map (\<lambda>l. l @ [newline]) ls)"

definition clean_lines :: "string list \<Rightarrow> bool" where
  "clean_lines ls \<longleftrightarrow> (\<forall>l\<in>set ls. newline \<notin> set l \<and> l \<noteq> [])"

lemma text_of_simps [simp]:
  "text_of [] = []" "text_of (l # ls) = l @ newline # text_of ls" "text_of (ls @ [l]) = text_of ls @ l @ [newline]"
  by (simp_all add: text_of_def)

lemma split_text_of: "clean_lines ls \<Longrightarrow> split_on newline (text_of ls) = ls @ [[]]"
  by (induction ls) (simp_all add: clean_lines_def split_on_append)

lemma log_lines_text_of [simp]: "clean_lines ls \<Longrightarrow> log_lines (text_of ls) = ls"
  by (simp add: log_lines_def split_text_of Let_def)

lemma join_lines_text: "ls \<noteq> [] \<Longrightarrow> join [newline] ls @ [newline] = text_of ls"
proof (induction ls)
  case (Cons l ls)
  then show ?case by (cases ls) simp_all
qed simp

lemma clean_lines_drop: "clean_lines ls \<Longrightarrow> clean_lines (drop n ls)"
  by (auto simp: clean_lines_def dest: in_set_dropD)

lemma length_newest [simp]: "length (newest n xs) = min n (length xs)"
  by (simp add: newest_def)

lemma newest_append: "n \<le> length ys \<Longrightarrow> newest n (xs @ ys) = newest n ys"
  by (auto simp: newest_def)

lemma newest_all: "length xs \<le> n \<Longrightarrow> newest n xs = xs"
  by (simp add: newest_def)

text \<open>
  The representation invariant: the file holds the lines of a run of the newest events, all of
  them or at least half the cap, and the count does not exceed them.
\<close>

text \<open>What the code needs of the JSON codec: one non-empty line per event, which decodes to it.\<close>

definition codec_ok :: "('e \<Rightarrow> string option) \<Rightarrow> (string \<Rightarrow> 'e option) \<Rightarrow> bool" where
  "codec_ok enc dec \<longleftrightarrow> (\<forall>e l. enc e = Some l \<longrightarrow> newline \<notin> set l \<and> l \<noteq> [] \<and> dec l = Some e)"

lemma decode_encoded: "codec_ok enc dec \<Longrightarrow> map enc evs = map Some ls \<Longrightarrow> decode_lines dec ls = evs"
proof (induction evs arbitrary: ls)
  case (Cons e evs)
  then obtain l ls' where ls: "ls = l # ls'" "enc e = Some l" "map enc evs = map Some ls'" by (cases ls) auto
  from Cons.IH[OF Cons.prems(1) ls(3)] ls(1,2) Cons.prems(1) show ?case
    by (simp add: decode_lines_def List.map_filter_simps codec_ok_def)
qed (simp add: decode_lines_def List.map_filter_simps)

lemma encoded_clean: "codec_ok enc dec \<Longrightarrow> map enc evs = map Some ls \<Longrightarrow> clean_lines ls"
proof (induction evs arbitrary: ls)
  case (Cons e evs)
  then obtain l ls' where ls: "ls = l # ls'" "enc e = Some l" "map enc evs = map Some ls'" by (cases ls) auto
  from Cons.IH[OF Cons.prems(1) ls(3)] ls(1,2) Cons.prems(1) show ?case by (simp add: clean_lines_def codec_ok_def)
qed (simp add: clean_lines_def)

text \<open>
  \<open>old @ kept\<close> are the events appended so far, \<open>kept\<close> those whose lines \<open>ls\<close> the file holds.
\<close>

definition log_rep :: "('e \<Rightarrow> string option) \<Rightarrow> EventLog \<Rightarrow> 'e list \<Rightarrow> 'e list \<Rightarrow> string list \<Rightarrow> bool" where
  "log_rep enc l old kept ls \<longleftrightarrow> map enc kept = map Some ls
     \<and> (case el_text l of None \<Rightarrow> [] | Some t \<Rightarrow> t) = text_of ls \<and> (el_text l = None \<longrightarrow> old = [])
     \<and> (old = [] \<or> 1000 \<le> length kept) \<and> el_count l \<le> int (length kept) \<and> el_count l \<le> 2000"

definition holds :: "('e \<Rightarrow> string option) \<Rightarrow> EventLog \<Rightarrow> 'e list \<Rightarrow> bool" where
  "holds enc l evs \<longleftrightarrow> (\<exists>old kept ls. evs = old @ kept \<and> log_rep enc l old kept ls)"

lemma holds_empty: "holds enc \<lparr>el_text = None, el_count = 0\<rparr> []"
  by (simp add: holds_def log_rep_def)

text \<open>A restart forgets the count and keeps the file.\<close>

lemma holds_restart: "holds enc l evs \<Longrightarrow> holds enc (l\<lparr>el_count := 0\<rparr>) evs"
  unfolding holds_def log_rep_def by fastforce

text \<open>The newest events are read back.\<close>

lemma holds_events:
  assumes c: "codec_ok enc dec" and "holds enc l evs"
  shows "opEvents dec l = (if el_text l = None then None else Some (newest 500 evs))"
proof (cases "el_text l")
  case (Some t)
  from assms obtain old kept ls where h: "evs = old @ kept" "log_rep enc l old kept ls" by (auto simp: holds_def)
  with Some have r: "map enc kept = map Some ls" "t = text_of ls" "old = [] \<or> 1000 \<le> length kept"
    by (auto simp: log_rep_def)
  have "decode_lines dec (split_on newline t) = decode_lines dec ls"
    by (simp add: r(2) split_text_of encoded_clean[OF c r(1)] decode_lines_def)
  then have "decode_lines dec (split_on newline t) = kept" using decode_encoded[OF c r(1)] by simp
  moreover have "newest 500 evs = newest 500 kept" using h(1) r(3) by (auto simp: newest_append)
  ultimately show ?thesis by (simp add: opEvents_def Some)
qed (simp add: opEvents_def)

text \<open>A disk whose rewrite works or is refused before the file is truncated.\<close>

definition rewrite_keeps :: "rewrite_io \<Rightarrow> bool" where
  "rewrite_keeps wr \<longleftrightarrow> wr = Rewritten \<or> wr = RewriteRefused"

lemma note_keeps_rep:
  assumes k: "codec_ok enc dec" and m: "map enc kept = map Some ls" "el_text l = Some (text_of ls)" "old = [] \<or> 1000 \<le> length kept"
    and c: "el_count l < int (length kept)" "el_count l \<le> 2000" and w: "rewrite_keeps wr"
  shows "\<exists>old' kept' ls'. old @ kept = old' @ kept' \<and> log_rep enc (noteEventWritten rd wr l) old' kept' ls'"
proof (cases "rd = ReadsFile \<and> 2000 \<le> el_count l + 1 \<and> 2000 < length ls \<and> wr = Rewritten")
  case True
  let ?n = "length kept - 1000"
  have len: "length ls = length kept" using m(1) by (metis length_map)
  have "2000 < length kept" using True len by simp
  then have ne: "drop ?n ls \<noteq> []" using len by simp
  have "noteEventWritten rd wr l = \<lparr>el_text = Some (text_of (drop ?n ls)), el_count = 1000\<rparr>"
    using True len join_lines_text[OF ne]
    by (simp add: noteEventWritten_def RotateLog_def Let_def eventLogMax_def m(2) encoded_clean[OF k m(1)])
  moreover have "map enc (drop ?n kept) = map Some (drop ?n ls)" using m(1) by (metis drop_map)
  ultimately have "log_rep enc (noteEventWritten rd wr l) (old @ take ?n kept) (drop ?n kept) (drop ?n ls)"
    using True len by (simp add: log_rep_def)
  then show ?thesis by (metis append.assoc append_take_drop_id)
next
  case False
  have len: "length ls = length kept" using m(1) by (metis length_map)
  have "log_rep enc (noteEventWritten rd wr l) old kept ls"
    using False w m c len encoded_clean[OF k m(1)]
    by (auto simp: noteEventWritten_def RotateLog_def Let_def eventLogMax_def log_rep_def rewrite_keeps_def
        split: read_io.splits rewrite_io.splits)
  then show ?thesis by blast
qed

lemma holds_append:
  assumes k: "codec_ok enc dec" and h: "holds enc l evs" and e: "enc e = Some line"
    and w: "rewrite_keeps wr"
  shows "holds enc (fst (appendEvent enc Appended rd wr e (l, subs))) (evs @ [e])"
proof -
  from h obtain old kept ls where r: "evs = old @ kept" "log_rep enc l old kept ls" by (auto simp: holds_def)
  let ?l = "l\<lparr>el_text := Some (text_of (ls @ [line]))\<rparr>"
  have "\<exists>old' kept' ls'. old @ (kept @ [e]) = old' @ kept' \<and> log_rep enc (noteEventWritten rd wr ?l) old' kept' ls'"
    using r(2) e w by (intro note_keeps_rep[OF k, where ls = "ls @ [line]"]) (auto simp: log_rep_def)
  then show ?thesis using r e by (simp add: appendEvent_def holds_def log_rep_def)
qed

section \<open>What a client reads back\<close>

text \<open>
  A history of one log: appends whose write succeeds, with what the rotation meets (an
  unreadable file, a rewrite that fails), appends that cannot open the file, and restarts of
  the daemon.
\<close>

datatype 'e log_op = LogAppend read_io rewrite_io 'e | LogLost 'e | LogRestart

fun log_step :: "('e \<Rightarrow> string option) \<Rightarrow> EventLog \<Rightarrow> 'e log_op \<Rightarrow> EventLog" where
  "log_step enc l (LogAppend rd wr e) = fst (appendEvent enc Appended rd wr e (l, []))"
| "log_step enc l (LogLost e) = fst (appendEvent enc OpenFails ReadsFile Rewritten e (l, []))"
| "log_step enc l LogRestart = l\<lparr>el_count := 0\<rparr>"

definition log_run :: "('e \<Rightarrow> string option) \<Rightarrow> 'e log_op list \<Rightarrow> EventLog" where
  "log_run enc ops = foldl (log_step enc) \<lparr>el_text = None, el_count = 0\<rparr> ops"

fun appended_events :: "'e log_op list \<Rightarrow> 'e list" where
  "appended_events [] = []"
| "appended_events (LogAppend rd wr e # ops) = e # appended_events ops"
| "appended_events (_ # ops) = appended_events ops"

text \<open>No rewrite of the history stops half way.\<close>

fun rewrites_whole :: "'e log_op list \<Rightarrow> bool" where
  "rewrites_whole [] \<longleftrightarrow> True"
| "rewrites_whole (LogAppend rd wr e # ops) \<longleftrightarrow> rewrite_keeps wr \<and> rewrites_whole ops"
| "rewrites_whole (_ # ops) \<longleftrightarrow> rewrites_whole ops"

lemma rewrites_whole_append: "rewrites_whole (xs @ ys) \<longleftrightarrow> rewrites_whole xs \<and> rewrites_whole ys"
  by (induction xs rule: rewrites_whole.induct) simp_all

lemma appended_events_append: "appended_events (xs @ ys) = appended_events xs @ appended_events ys"
  by (induction xs rule: appended_events.induct) simp_all

lemma el_text_note: "el_text l \<noteq> None \<Longrightarrow> el_text (noteEventWritten rd wr l) \<noteq> None"
  by (auto simp: noteEventWritten_def RotateLog_def Let_def split: read_io.splits rewrite_io.splits)

lemma log_run_holds:
  assumes k: "codec_ok enc dec" and e: "\<forall>e\<in>set (appended_events ops). enc e \<noteq> None" and w: "rewrites_whole ops"
  shows "holds enc (log_run enc ops) (appended_events ops)
    \<and> (el_text (log_run enc ops) = None \<longleftrightarrow> appended_events ops = [])"
  using e w
proof (induction ops rule: rev_induct)
  case (snoc op ops)
  let ?l = "log_run enc ops"
  have IH: "holds enc ?l (appended_events ops)" "el_text ?l = None \<longleftrightarrow> appended_events ops = []"
    using snoc by (auto simp: appended_events_append rewrites_whole_append)
  have run: "log_run enc (ops @ [op]) = log_step enc ?l op" by (simp add: log_run_def)
  show ?case
  proof (cases op)
    case (LogAppend rd wr e)
    then obtain line where line: "enc e = Some line" using snoc.prems(1) by (auto simp: appended_events_append)
    have "rewrite_keeps wr" using snoc.prems(2) LogAppend by (simp add: rewrites_whole_append)
    from holds_append[OF k IH(1) line this] line show ?thesis
      unfolding run unfolding LogAppend
      by (auto simp: appended_events_append appendEvent_def el_text_note)
  next
    case (LogLost e)
    show ?thesis using IH unfolding run unfolding LogLost by (cases "enc e") (auto simp: appended_events_append appendEvent_def)
  next
    case LogRestart
    show ?thesis using IH unfolding run unfolding LogRestart by (simp add: appended_events_append holds_restart)
  qed
qed (simp add: log_run_def holds_empty)

text \<open>
  C22: over any history of a run's log, with restarts of the daemon, logs that cannot be opened,
  rotations, and rotations that fail to read or to open the file, the events read back are exactly
  the newest 500 of those whose append was written, all of them when there are fewer. Appends are
  written whole or not at all, and no rewrite stops after it has truncated the file: one that does
  loses events (\<open>stopped_rewrite_loses_events\<close> below).
\<close>

theorem event_replay_is_the_tail:
  assumes "codec_ok enc dec" "\<forall>e\<in>set (appended_events ops). enc e \<noteq> None" "rewrites_whole ops"
  shows "opEvents dec (log_run enc ops)
    = (if appended_events ops = [] then None else Some (newest 500 (appended_events ops)))"
  using log_run_holds[OF assms] holds_events[OF assms(1), of "log_run enc ops"] by simp

lemma dec_nat_nonempty [simp]: "dec_nat n \<noteq> []"
  by (cases "n < 10") (auto simp: dec_nat.simps[of n])

lemma nat_codec: "codec_ok (\<lambda>n. Some (dec_nat n)) (\<lambda>s. Some (undec s))"
proof -
  have "newline \<notin> set (dec_nat n)" for n
    using dec_nat_digits[of newline n] by (auto simp: newline_def)
  then show ?thesis by (simp add: codec_ok_def)
qed

theorem event_replay_is_the_tail_witness:
  "opEvents (\<lambda>s. Some (undec s)) (log_run (\<lambda>n. Some (dec_nat n))
     [LogAppend ReadsFile Rewritten 7, LogRestart, LogLost 8, LogAppend ReadFails RewriteRefused 12]) = Some [7, 12]"
  by (subst event_replay_is_the_tail[OF nat_codec]) (auto simp: newest_def rewrite_keeps_def)

text \<open>
  \<open>os.WriteFile\<close> truncates the log before it writes: a rotation that stops there, on a full disk
  say, leaves a run without its events.
\<close>

lemma stopped_rewrite_loses_events:
  assumes k: "codec_ok enc dec" and m: "map enc kept = map Some ls" "2000 < length ls"
  shows "opEvents dec (noteEventWritten ReadsFile (RewriteStops 0) \<lparr>el_text = Some (text_of ls), el_count = 1999\<rparr>) = Some []"
proof -
  have "log_lines (text_of ls) = ls" by (rule log_lines_text_of[OF encoded_clean[OF k m(1)]])
  with m(2) show ?thesis
    by (simp add: noteEventWritten_def RotateLog_def Let_def eventLogMax_def opEvents_def decode_lines_def newest_def
        List.map_filter_simps)
qed

text \<open>An append that stops half way takes the next event with it: the two make one line.\<close>

lemma partial_append_spoils_the_next:
  assumes "enc e = Some line" "enc e' = Some line'" "newline \<notin> set p" "newline \<notin> set line'" "dec (p @ line') = None"
    "p @ line' \<noteq> []"
  shows "opEvents dec (fst (appendEvent enc Appended ReadsFile Rewritten e'
      (appendEvent enc (WritesPart p) ReadsFile Rewritten e (\<lparr>el_text = None, el_count = 0\<rparr>, [])))) = Some []"
proof -
  have "split_on newline ((p @ line') @ newline # []) = (p @ line') # split_on newline []"
    by (rule split_on_append) (use assms(3,4) in simp)
  with assms show ?thesis
    by (simp add: appendEvent_def noteEventWritten_def Let_def eventLogMax_def opEvents_def decode_lines_def newest_def
        List.map_filter_simps)
qed

section \<open>How long a log grows\<close>

definition line_count :: "EventLog \<Rightarrow> nat" where
  "line_count l = (case el_text l of None \<Rightarrow> 0 | Some t \<Rightarrow> length (log_lines t))"

text \<open>In one life of the daemon, on a disk that works, the file never passes the cap.\<close>

lemma log_keeps_the_cap:
  assumes k: "codec_ok enc dec" and e: "\<forall>e\<in>set evs. enc e \<noteq> None"
  defines "l \<equiv> log_run enc (map (LogAppend ReadsFile Rewritten) evs)"
  shows "line_count l \<le> 2000"
proof -
  have "\<exists>old kept ls. log_rep enc l old kept ls \<and> el_count l = int (length kept)"
    using e unfolding l_def
  proof (induction evs rule: rev_induct)
    case (snoc e evs)
    let ?l = "log_run enc (map (LogAppend ReadsFile Rewritten) evs)"
    from snoc obtain old kept ls where r: "log_rep enc ?l old kept ls" "el_count ?l = int (length kept)" by auto
    obtain line where line: "enc e = Some line" using snoc.prems by auto
    let ?m = "?l\<lparr>el_text := Some (text_of (ls @ [line]))\<rparr>"
    have step: "log_run enc (map (LogAppend ReadsFile Rewritten) (evs @ [e])) = noteEventWritten ReadsFile Rewritten ?m"
      using r(1) line by (simp add: log_run_def appendEvent_def log_rep_def)
    have m: "map enc (kept @ [e]) = map Some (ls @ [line])" using r(1) line by (simp add: log_rep_def)
    have len: "length ls = length kept" using r(1) unfolding log_rep_def by (metis length_map)
    have c: "clean_lines (ls @ [line])" by (rule encoded_clean[OF k m])
    show ?case
    proof (cases "2000 \<le> length kept")
      case True
      let ?n = "length kept - 999"
      have ne: "drop ?n (ls @ [line]) \<noteq> []" using True len by simp
      have "noteEventWritten ReadsFile Rewritten ?m = \<lparr>el_text = Some (text_of (drop ?n (ls @ [line]))), el_count = 1000\<rparr>"
        using True r(2) len c join_lines_text[OF ne]
        by (simp add: noteEventWritten_def RotateLog_def Let_def eventLogMax_def del: text_of_simps)
      moreover have "map enc (drop ?n (kept @ [e])) = map Some (drop ?n (ls @ [line]))" using m by (metis drop_map)
      ultimately have "log_rep enc (noteEventWritten ReadsFile Rewritten ?m) (old @ take ?n (kept @ [e]))
          (drop ?n (kept @ [e])) (drop ?n (ls @ [line]))"
        "el_count (noteEventWritten ReadsFile Rewritten ?m) = int (length (drop ?n (kept @ [e])))"
        using True len by (simp_all add: log_rep_def)
      with step show ?thesis by metis
    next
      case False
      have "noteEventWritten ReadsFile Rewritten ?m = ?m\<lparr>el_count := int (length (kept @ [e]))\<rparr>"
        using False r(2) len c
        by (auto simp: noteEventWritten_def RotateLog_def Let_def eventLogMax_def simp del: text_of_simps)
      then have "log_rep enc (noteEventWritten ReadsFile Rewritten ?m) old (kept @ [e]) (ls @ [line])"
        "el_count (noteEventWritten ReadsFile Rewritten ?m) = int (length (kept @ [e]))"
        using False r m by (auto simp: log_rep_def)
      with step show ?thesis by metis
    qed
  qed (auto simp: log_run_def log_rep_def intro!: exI[of _ "[]"])
  then obtain old kept ls where r: "log_rep enc l old kept ls" "el_count l = int (length kept)" by blast
  then have m: "map enc kept = map Some ls" by (simp add: log_rep_def)
  then have "length ls = length kept" by (metis length_map)
  with r encoded_clean[OF k m] show ?thesis by (auto simp: line_count_def log_rep_def split: option.splits)
qed

text \<open>
  The count starts at 0 in every life, whatever the file holds: lives of fewer than 2000 events
  never rotate, and the file grows without bound.
\<close>

lemma appends_without_rotation:
  assumes "\<forall>e\<in>set evs. enc e \<noteq> None" "el_count l + int (length evs) < 2000" "el_text l = Some t"
  shows "foldl (log_step enc) l (map (LogAppend ReadsFile Rewritten) evs)
    = \<lparr>el_text = Some (t @ text_of (map (the \<circ> enc) evs)), el_count = el_count l + int (length evs)\<rparr>"
  using assms
proof (induction evs arbitrary: l t)
  case (Cons e evs)
  then obtain line where line: "enc e = Some line" by auto
  let ?l = "\<lparr>el_text = Some (t @ line @ [newline]), el_count = el_count l + 1\<rparr>"
  have "log_step enc l (LogAppend ReadsFile Rewritten e) = ?l"
    using Cons.prems line by (simp add: appendEvent_def noteEventWritten_def Let_def eventLogMax_def)
  with Cons.IH[of ?l "t @ line @ [newline]"] Cons.prems line show ?case by simp
qed simp

lemma restarts_outgrow_the_cap:
  assumes k: "codec_ok enc dec" and e: "\<forall>e\<in>set evs. enc e \<noteq> None" "length evs = 1999"
  shows "line_count (foldl (log_step enc) \<lparr>el_text = Some [], el_count = 0\<rparr>
    (concat (replicate n (map (LogAppend ReadsFile Rewritten) evs @ [LogRestart])))) = 1999 * n"
proof -
  let ?ls = "map (the \<circ> enc) evs"
  have m: "map enc evs = map Some ?ls" using e(1) by auto
  have c: "clean_lines ?ls" by (rule encoded_clean[OF k m])
  have "foldl (log_step enc) \<lparr>el_text = Some t, el_count = 0\<rparr>
      (concat (replicate n (map (LogAppend ReadsFile Rewritten) evs @ [LogRestart])))
    = \<lparr>el_text = Some (t @ text_of (concat (replicate n ?ls))), el_count = 0\<rparr>" for t
    by (induction n arbitrary: t) (simp_all add: appends_without_rotation[OF e(1)] e(2) text_of_def)
  moreover have "clean_lines (concat (replicate n ?ls))" using c by (auto simp: clean_lines_def)
  moreover have "length (concat (replicate n ?ls)) = 1999 * n" by (induction n) (simp_all add: e(2))
  ultimately show ?thesis by (simp add: line_count_def)
qed

section \<open>Subscriptions\<close>

text \<open>
  An event as a subscriber sees it: its ID, empty when it has none, its rendering, empty when
  it cannot be marshalled, and its kind.
\<close>

record 'e event_view =
  vw_id :: "'e \<Rightarrow> string"
  vw_shape :: "'e \<Rightarrow> string"
  vw_kind :: "'e \<Rightarrow> string"

definition alreadySent :: "'e event_view \<Rightarrow> (string \<rightharpoonup> string) \<Rightarrow> 'e \<Rightarrow> bool \<times> (string \<rightharpoonup> string)" where
  "alreadySent v sent e =
     (if vw_id v e = [] then (False, sent)
      else if sent (vw_id v e) = Some (vw_shape v e) then (True, sent)
      else (False, sent(vw_id v e \<mapsto> vw_shape v e)))"

definition finishes :: "'e event_view \<Rightarrow> 'e \<Rightarrow> bool" where
  "finishes v e \<longleftrightarrow> vw_kind v e \<in> {''run.finished'', ''run.completed'', ''run.failed'', ''run.cancelled''}"

datatype 'e sub_msg = RunIdRequired | CursorBeyond int nat | Subscribed int | SubEvent 'e

text \<open>The replayed part of the log and what is remembered of it.\<close>

definition note_sent :: "'e event_view \<Rightarrow> 'e \<Rightarrow> (string \<rightharpoonup> string) \<Rightarrow> (string \<rightharpoonup> string)" where
  "note_sent v e sent = (if vw_id v e = [] then sent else sent(vw_id v e \<mapsto> vw_shape v e))"

text \<open>
  The live part: the events drained from the channel, in order. The stream ends by itself at an
  event that finishes the run, unless that event was sent before; \<open>True\<close> says it ended.
\<close>

fun live_events :: "'e event_view \<Rightarrow> (string \<rightharpoonup> string) \<Rightarrow> 'e list \<Rightarrow> 'e list \<times> bool" where
  "live_events v sent [] = ([], False)"
| "live_events v sent (e # q) =
     (if vw_id v e \<noteq> [] \<and> fst (alreadySent v sent e) then live_events v sent q
      else if finishes v e then ([e], True)
      else (case live_events v (note_sent v e sent) q of (out, done) \<Rightarrow> (e # out, done)))"

text \<open>
  \<open>from\<close> is the cursor of the request, 0 when it has none; \<open>active\<close> says whether the run is in the
  daemon's map after the replay. The result is what is written to the connection, as long as it
  stays open, and whether the stream ended by itself.
\<close>

definition handleSubscribe :: "'e event_view \<Rightarrow> string \<Rightarrow> int \<Rightarrow> 'e list \<Rightarrow> bool \<Rightarrow> 'e list \<Rightarrow> 'e sub_msg list \<times> bool" where
  "handleSubscribe v runID cursor existing active channel =
     (if runID = [] then ([RunIdRequired], True)
      else if cursor < 0 \<or> int (length existing) < cursor then ([CursorBeyond cursor (length existing)], True)
      else let replay = drop (nat cursor) existing;
               sent = fold (note_sent v) replay Map.empty;
               start = Subscribed cursor # map SubEvent replay
        in if \<not> active then (start, True)
           else (case live_events v sent channel of (out, done) \<Rightarrow> (start @ map SubEvent out, done)))"






section \<open>A subscription and its run\<close>
















definition sample_view :: "nat event_view" where
  "sample_view = \<lparr>vw_id = dec_nat, vw_shape = dec_nat, vw_kind = (\<lambda>n. if n = 9 then ''run.finished'' else ''step'')\<rparr>"



text \<open>
  A subscriber that replays the final event while the run is still in the map drops it when it
  comes from the channel, so its stream does not end by itself; nor does one that registered
  after the event was published.
\<close>

lemma replayed_finish_does_not_end:
  "handleSubscribe sample_view ''r'' 0 [1, 9] True [9] = ([Subscribed 0, SubEvent 1, SubEvent 9], False)"
  "handleSubscribe sample_view ''r'' 0 [1, 9] True [] = ([Subscribed 0, SubEvent 1, SubEvent 9], False)"
  by code_simp+

end
