(* ===== verification/DaemonJobs.thy ===== *)
theory DaemonJobs
  imports DaemonStore DaemonLog
begin

text \<open>
  Scheduled runs (\<open>internal/harness/daemon/schedule.go\<close>) and the daemon's own handlers behind
  \<open>dispatch\<close>. Jobs are the decoded \<open>jobs.json\<close>, none when it cannot be read; times are Unix seconds. A
  tick starts the due jobs through a dispatcher over a server state \<open>'s\<close>. Times, periods and retry
  counts are \<open>int64\<close> in the code: sums and products wrap around.
\<close>

section \<open>\<open>int64\<close>\<close>

definition i64 :: "int \<Rightarrow> int" where
  "i64 x = (x + 2 ^ 63) mod 2 ^ 64 - 2 ^ 63"

lemma i64_id: "- (2 ^ 63) \<le> x \<Longrightarrow> x < 2 ^ 63 \<Longrightarrow> i64 x = x"
  by (simp add: i64_def mod_pos_pos_trivial)

text \<open>
  The conversion of a \<open>float64\<close> truncates. Out of range Go leaves the value open; here it is the one
  of \<open>amd64\<close>, the least \<open>int64\<close>.
\<close>

definition float_to_i64 :: "rat \<Rightarrow> int" where
  "float_to_i64 q = (let t = trunc_rat q in if - (2 ^ 63) \<le> t \<and> t < 2 ^ 63 then t else - (2 ^ 63))"

section \<open>Jobs\<close>

record Job =
  jb_ID :: string
  jb_Goal :: string
  jb_Provider :: string
  jb_EverySecs :: int
  jb_MaxTurns :: int
  jb_MaxRetries :: int
  jb_Retries :: int
  jb_LastStatus :: string
  jb_LastError :: string
  jb_NextRun :: int
  jb_CreatedAt :: string

type_synonym jobs_file = "Job list option"

definition loadJobs :: "jobs_file \<Rightarrow> Job list" where
  "loadJobs f = (case f of None \<Rightarrow> [] | Some js \<Rightarrow> js)"

definition saveJobs :: "bool \<Rightarrow> Job list \<Rightarrow> jobs_file \<Rightarrow> jobs_file" where
  "saveJobs writes js f = (if writes then Some js else f)"

text \<open>\<open>auto\<close> is the ID made from the clock, \<open>stamp\<close> the time as text.\<close>

definition opSchedule :: "bool \<Rightarrow> string \<Rightarrow> int \<Rightarrow> string \<Rightarrow> message \<Rightarrow> jobs_file \<Rightarrow> response \<times> jobs_file" where
  "opSchedule writes auto_id clock stamp m f =
     (let goal = msg_str m ''goal'';
          every = (case jobj_get m ''every_secs'' of JNum q \<Rightarrow> q | _ \<Rightarrow> 0) in
      if goal = [] then (Inl ''goal required'', f)
      else if every < 5 then (Inl ''every_secs minimum is 5'', f)
      else
        (let i = (if msg_str m ''job_id'' = [] then auto_id else msg_str m ''job_id'');
             provider = (if msg_str m ''provider'' = [] then ''fake'' else msg_str m ''provider'');
             js = loadJobs f in
         if list_ex (\<lambda>j. jb_ID j = i) js then (Inl (''job already scheduled: '' @ i), f)
         else (Inr [(''job_id'', JStr i)],
               saveJobs writes (js @ [\<lparr>jb_ID = i, jb_Goal = goal, jb_Provider = provider, jb_EverySecs = float_to_i64 every,
                  jb_MaxTurns = max_turns_of (jobj_get m ''max_turns''), jb_MaxRetries = 0, jb_Retries = 0,
                  jb_LastStatus = [], jb_LastError = [], jb_NextRun = i64 (clock + float_to_i64 every), jb_CreatedAt = stamp\<rparr>]) f)))"

definition opUnschedule :: "bool \<Rightarrow> message \<Rightarrow> jobs_file \<Rightarrow> response \<times> jobs_file" where
  "opUnschedule writes m f =
     (let i = msg_str m ''job_id''; js = loadJobs f in
      if i = [] then (Inl ''job_id required'', f)
      else if \<not> list_ex (\<lambda>j. jb_ID j = i) js then (Inl (''unknown job '' @ i), f)
      else (Inr [(''unscheduled'', JBool True)], saveJobs writes (filter (\<lambda>j. jb_ID j \<noteq> i) js) f))"

definition opJobs :: "jobs_file \<Rightarrow> response" where
  "opJobs f = Inr [(''jobs'', JArr (map (\<lambda>j. JObj [(''job_id'', JStr (jb_ID j)), (''goal'', JStr (jb_Goal j)),
     (''every_secs'', JNum (of_int (jb_EverySecs j))), (''next_run'', JNum (of_int (jb_NextRun j)))])
     (sort_key jb_ID (loadJobs f))))]"

section \<open>Ticks\<close>

text \<open>
  The request a tick sends. Its \<open>max_turns\<close> is a Go \<open>int\<close>, which the handler's test for a \<open>float64\<close>
  does not accept, so for the handler the entry is not there.
\<close>

definition start_message :: "int \<Rightarrow> Job \<Rightarrow> message" where
  "start_message clock j =
     [(''protocol_version'', JStr Version), (''op'', JStr ''start''), (''goal'', JStr (jb_Goal j)),
      (''provider'', JStr (jb_Provider j)), (''run_id'', JStr (''job-'' @ jb_ID j @ ''-'' @ itoa clock))]"

definition retry_limit :: "Job \<Rightarrow> int" where
  "retry_limit j = (if jb_MaxRetries j \<le> 0 then 3 else jb_MaxRetries j)"

text \<open>One job of a tick: what is kept of it, and the server after its start.\<close>

definition tick_job :: "(message \<Rightarrow> 's \<Rightarrow> response \<times> 's) \<Rightarrow> int \<Rightarrow> Job \<Rightarrow> 's \<Rightarrow> Job option \<times> bool \<times> 's" where
  "tick_job disp clock j s =
     (if jb_NextRun j > clock then (Some j, False, s)
      else case disp (start_message clock j) s of
        (Inr _, s) \<Rightarrow>
          (Some (j\<lparr>jb_Retries := 0, jb_LastStatus := ''started'', jb_LastError := [], jb_NextRun := i64 (clock + jb_EverySecs j)\<rparr>), True, s)
      | (Inl e, s) \<Rightarrow>
          (let j' = j\<lparr>jb_Retries := i64 (jb_Retries j + 1), jb_LastStatus := ''failed'',
                     jb_LastError := (if e \<noteq> [] then e else jb_LastError j)\<rparr> in
           if jb_Retries j' > retry_limit j then (None, False, s)
           else (Some (j'\<lparr>jb_NextRun := i64 (clock + i64 (jb_EverySecs j * jb_Retries j'))\<rparr>), True, s)))"

fun tick_loop :: "(message \<Rightarrow> 's \<Rightarrow> response \<times> 's) \<Rightarrow> int \<Rightarrow> Job list \<Rightarrow> 's \<Rightarrow> Job list \<times> bool \<times> 's" where
  "tick_loop disp clock [] s = ([], False, s)"
| "tick_loop disp clock (j # js) s =
     (case tick_job disp clock j s of (k, c, s) \<Rightarrow>
        (case tick_loop disp clock js s of (ks, c', s) \<Rightarrow> ((case k of None \<Rightarrow> ks | Some j \<Rightarrow> j # ks), c \<or> c', s)))"

definition tickJobs :: "(message \<Rightarrow> 's \<Rightarrow> response \<times> 's) \<Rightarrow> bool \<Rightarrow> int \<Rightarrow> jobs_file \<Rightarrow> 's \<Rightarrow> jobs_file \<times> 's" where
  "tickJobs disp writes clock f s =
     (let js = loadJobs f in
      if js = [] then (f, s)
      else (case tick_loop disp clock js s of (kept, changed, s) \<Rightarrow>
              (if changed \<or> length kept \<noteq> length js then saveJobs writes kept f else f, s)))"

section \<open>Jobs stay well formed and each fires once\<close>

definition job_ok :: "Job \<Rightarrow> bool" where
  "job_ok j \<longleftrightarrow> 5 \<le> jb_EverySecs j \<and> 0 \<le> jb_Retries j \<and> jb_Retries j \<le> retry_limit j"

definition jobs_ok :: "Job list \<Rightarrow> bool" where
  "jobs_ok js \<longleftrightarrow> distinct (map jb_ID js) \<and> (\<forall>j\<in>set js. job_ok j)"

lemma retry_limit_pos: "0 < retry_limit j"
  by (simp add: retry_limit_def)

text \<open>No time of the job overflows, not even after its last retry.\<close>

definition in_time :: "int \<Rightarrow> Job \<Rightarrow> bool" where
  "in_time clock j \<longleftrightarrow> 0 \<le> clock \<and> clock + jb_EverySecs j * (retry_limit j + 1) < 2 ^ 63"

lemma in_time_values:
  assumes "job_ok j" "in_time clock j"
  shows "i64 (clock + jb_EverySecs j) = clock + jb_EverySecs j" "i64 (jb_Retries j + 1) = jb_Retries j + 1"
    "i64 (clock + i64 (jb_EverySecs j * (jb_Retries j + 1))) = clock + jb_EverySecs j * (jb_Retries j + 1)"
    "clock < clock + jb_EverySecs j * (jb_Retries j + 1)"
proof -
  have j: "5 \<le> jb_EverySecs j" "0 \<le> jb_Retries j" "jb_Retries j \<le> retry_limit j" "0 < retry_limit j"
    using assms(1) retry_limit_pos by (simp_all add: job_ok_def)
  define p where "p = jb_EverySecs j * (jb_Retries j + 1)"
  define q where "q = jb_EverySecs j * (retry_limit j + 1)"
  have m: "p \<le> q" "jb_EverySecs j \<le> q" "jb_Retries j + 1 \<le> p"
    using mult_left_mono[of "jb_Retries j + 1" "retry_limit j + 1" "jb_EverySecs j"]
      mult_left_mono[of 1 "retry_limit j + 1" "jb_EverySecs j"] mult_right_mono[of 1 "jb_EverySecs j" "jb_Retries j + 1"] j
    by (simp_all only: p_def q_def) simp_all
  have t: "0 \<le> clock" "clock + q < 2 ^ 63" using assms(2) by (simp_all only: in_time_def q_def)
  show "i64 (clock + jb_EverySecs j) = clock + jb_EverySecs j" "i64 (jb_Retries j + 1) = jb_Retries j + 1"
    by (rule i64_id; use m t j in linarith)+
  have "i64 p = p" "i64 (clock + p) = clock + p" by (rule i64_id; use m t j in linarith)+
  then show "i64 (clock + i64 (jb_EverySecs j * (jb_Retries j + 1))) = clock + jb_EverySecs j * (jb_Retries j + 1)"
    by (simp only: p_def)
  show "clock < clock + jb_EverySecs j * (jb_Retries j + 1)" unfolding p_def[symmetric] using m(3) j by linarith
qed

text \<open>
  What a tick should make of a job, in plain integers: a job that is not due stays; one whose
  start succeeded runs again after its period, with no retries; one whose start failed is tried
  again after as many periods as it has failed, and dropped when that passes its limit.
\<close>

definition settle_job :: "int \<Rightarrow> Job \<Rightarrow> response \<Rightarrow> Job option" where
  "settle_job clock j r =
     (case r of
        Inr _ \<Rightarrow> Some (j\<lparr>jb_Retries := 0, jb_LastStatus := ''started'', jb_LastError := [], jb_NextRun := clock + jb_EverySecs j\<rparr>)
      | Inl e \<Rightarrow>
          if jb_Retries j + 1 > retry_limit j then None
          else Some (j\<lparr>jb_Retries := jb_Retries j + 1, jb_LastStatus := ''failed'',
                 jb_LastError := (if e \<noteq> [] then e else jb_LastError j), jb_NextRun := clock + jb_EverySecs j * (jb_Retries j + 1)\<rparr>))"

fun settle_jobs :: "int \<Rightarrow> Job list \<Rightarrow> response list \<Rightarrow> Job list" where
  "settle_jobs clock [] rs = []"
| "settle_jobs clock (j # js) rs =
     (if clock < jb_NextRun j then j # settle_jobs clock js rs
      else (case settle_job clock j (hd rs) of None \<Rightarrow> [] | Some j' \<Rightarrow> [j']) @ settle_jobs clock js (tl rs))"

definition due_jobs :: "int \<Rightarrow> Job list \<Rightarrow> Job list" where
  "due_jobs clock js = filter (\<lambda>j. jb_NextRun j \<le> clock) js"

text \<open>A dispatcher that writes down what it was reqs and what it answered.\<close>

definition recording :: "(message \<Rightarrow> 's \<Rightarrow> response \<times> 's) \<Rightarrow> message \<Rightarrow> 's \<times> (message \<times> response) list
    \<Rightarrow> response \<times> 's \<times> (message \<times> response) list" where
  "recording disp m sl = (case disp m (fst sl) of (r, s) \<Rightarrow> (r, s, snd sl @ [(m, r)]))"

lemma settle_job_ok:
  assumes "job_ok j" "settle_job clock j r = Some j'"
  shows "job_ok j' \<and> jb_ID j' = jb_ID j \<and> clock < jb_NextRun j'"
proof -
  have "5 * 1 \<le> jb_EverySecs j * (jb_Retries j + 1)" using assms(1) by (intro mult_mono) (auto simp: job_ok_def)
  with assms show ?thesis by (auto simp: settle_job_def job_ok_def retry_limit_def split: sum.splits if_splits)
qed

lemma settle_jobs_ok:
  assumes "\<forall>j\<in>set js. job_ok j"
  shows "(\<forall>j\<in>set (settle_jobs clock js rs). job_ok j \<and> clock < jb_NextRun j)
    \<and> jb_ID ` set (settle_jobs clock js rs) \<subseteq> jb_ID ` set js
    \<and> (distinct (map jb_ID js) \<longrightarrow> distinct (map jb_ID (settle_jobs clock js rs)))"
  using assms
proof (induction js arbitrary: rs)
  case (Cons j js)
  show ?case
  proof (cases "clock < jb_NextRun j")
    case True
    with Cons.IH[of rs] Cons.prems show ?thesis by auto
  next
    case False
    show ?thesis
    proof (cases "settle_job clock j (hd rs)")
      case None
      with False Cons.IH[of "tl rs"] Cons.prems show ?thesis by auto
    next
      case (Some j')
      have "job_ok j' \<and> jb_ID j' = jb_ID j \<and> clock < jb_NextRun j'"
        by (rule settle_job_ok[OF _ Some]) (use Cons.prems in simp)
      with False Some Cons.IH[of "tl rs"] Cons.prems show ?thesis by auto
    qed
  qed
qed simp

lemma tick_job_settles:
  assumes "job_ok j" "in_time clock j" "\<not> clock < jb_NextRun j" "disp (start_message clock j) s = (r, s1)"
  shows "tick_job (recording disp) clock j (s, reqs) =
    (settle_job clock j r, settle_job clock j r \<noteq> None, s1, reqs @ [(start_message clock j, r)])"
  using assms(3,4) in_time_values[OF assms(1,2)]
  by (cases r) (auto simp: tick_job_def recording_def settle_job_def Let_def)

lemma tick_loop_settles:
  assumes "\<forall>j\<in>set js. job_ok j \<and> in_time clock j" "tick_loop (recording disp) clock js (s, reqs) = (ks, c, s', reqs')"
  shows "\<exists>new. reqs' = reqs @ new \<and> map fst new = map (start_message clock) (due_jobs clock js)
    \<and> (\<forall>more. settle_jobs clock js (map snd new @ more) = ks) \<and> (\<not> c \<and> length ks = length js \<longrightarrow> ks = js) \<and> length ks \<le> length js"
  using assms
proof (induction js arbitrary: s reqs ks c s' reqs')
  case (Cons j js)
  have ok: "job_ok j" "in_time clock j" and oks: "\<forall>j\<in>set js. job_ok j \<and> in_time clock j" using Cons.prems(1) by auto
  show ?case
  proof (cases "clock < jb_NextRun j")
    case True
    then have "tick_job (recording disp) clock j (s, reqs) = (Some j, False, s, reqs)" by (simp add: tick_job_def)
    moreover obtain ks1 c1 t l where r: "tick_loop (recording disp) clock js (s, reqs) = (ks1, c1, t, l)" by (metis prod_cases4)
    ultimately have e: "ks = j # ks1" "c = c1" "s' = t" "reqs' = l" using Cons.prems(2) by simp_all
    from Cons.IH[OF oks r] True show ?thesis unfolding e by (auto simp: due_jobs_def)
  next
    case False
    obtain r s1 where d: "disp (start_message clock j) s = (r, s1)" by fastforce
    note t = tick_job_settles[where disp = disp, OF ok False d, of reqs]
    obtain ks1 c1 t' l where r: "tick_loop (recording disp) clock js (s1, reqs @ [(start_message clock j, r)]) = (ks1, c1, t', l)"
      by (metis prod_cases4)
    from Cons.prems(2) t r have e: "ks = (case settle_job clock j r of None \<Rightarrow> [] | Some j' \<Rightarrow> [j']) @ ks1"
      "c = (settle_job clock j r \<noteq> None \<or> c1)" "s' = t'" "reqs' = l"
      by (auto split: option.splits)
    from Cons.IH[OF oks r] obtain new where new: "l = (reqs @ [(start_message clock j, r)]) @ new"
      "map fst new = map (start_message clock) (due_jobs clock js)" "\<forall>more. settle_jobs clock js (map snd new @ more) = ks1"
      "length ks1 \<le> length js" by blast
    show ?thesis unfolding e
      by (rule exI[of _ "(start_message clock j, r) # new"]) (use False new in \<open>auto simp: due_jobs_def split: option.splits\<close>)
  qed
qed (simp add: due_jobs_def)

lemma tick_loop_quiet:
  "\<forall>j\<in>set js. clock < jb_NextRun j \<Longrightarrow> tick_loop disp clock js s = (js, False, s)"
  by (induction js) (simp_all add: tick_job_def)

text \<open>
  C19: a tick fires each due job exactly once. Whatever the starts answer and whether or not the
  jobs can be written, what it asks of the dispatcher is one start for each due job, in the order
  of the jobs, and nothing else. When the jobs can be written, those that remain are the jobs
  settled by these answers (not due ones as they were; started ones after their period; failed ones
  after as many periods as failures, up to their limit); they are well formed and none is due, so
  a second tick at the same time starts nothing and changes nothing, however many ticks were
  missed before. When they cannot be written the file stays, and the same jobs are due again. Jobs
  are well formed, and their times do not overflow \<open>int64\<close>.
\<close>

theorem tick_fires_due_jobs_once:
  assumes "jobs_ok (loadJobs f)" "\<forall>j\<in>set (loadJobs f). in_time clock j"
    and "tickJobs (recording disp) writes clock f (s, []) = (f', s', reqs)"
  shows "map fst reqs = map (start_message clock) (due_jobs clock (loadJobs f))
    \<and> (writes \<longrightarrow> loadJobs f' = settle_jobs clock (loadJobs f) (map snd reqs) \<and> jobs_ok (loadJobs f')
         \<and> due_jobs clock (loadJobs f') = [] \<and> tickJobs disp' True clock f' t = (f', t))
    \<and> (\<not> writes \<longrightarrow> f' = f)"
proof (cases "loadJobs f = []")
  case True
  then have f: "f' = f" "s' = s" "reqs = []" using assms(3) by (simp_all add: tickJobs_def)
  show ?thesis unfolding f using True by (simp add: tickJobs_def jobs_ok_def due_jobs_def)
next
  case False
  obtain ks c t1 l where t: "tick_loop (recording disp) clock (loadJobs f) (s, []) = (ks, c, t1, l)" by (metis prod_cases4)
  have f': "f' = (if c \<or> length ks \<noteq> length (loadJobs f) then saveJobs writes ks f else f)" and l: "reqs = l"
    using assms(3) False t by (auto simp: tickJobs_def split: if_splits)
  have "\<forall>j\<in>set (loadJobs f). job_ok j \<and> in_time clock j" using assms(1,2) by (simp add: jobs_ok_def)
  from tick_loop_settles[OF this t]
  have reqs: "map fst reqs = map (start_message clock) (due_jobs clock (loadJobs f))"
    and ks: "settle_jobs clock (loadJobs f) (map snd reqs) = ks" and quiet: "\<not> c \<and> length ks = length (loadJobs f) \<longrightarrow> ks = loadJobs f"
    unfolding l by (auto dest: spec[of _ "[]"])
  have load: "loadJobs f' = ks" if writes using that quiet by (auto simp: f' saveJobs_def loadJobs_def)
  have ok: "jobs_ok ks" "\<forall>j\<in>set ks. clock < jb_NextRun j"
    using settle_jobs_ok[of "loadJobs f" clock "map snd reqs"] assms(1) unfolding ks by (auto simp: jobs_ok_def)
  then have due: "due_jobs clock ks = []" by (auto simp: due_jobs_def filter_empty_conv)
  have "tickJobs disp' True clock f' t = (f', t)" if writes
    using load[OF that] by (simp add: tickJobs_def tick_loop_quiet[OF ok(2)])
  with reqs ks load ok(1) due f' show ?thesis by (auto simp: saveJobs_def)
qed

definition sample_job :: "string \<Rightarrow> Job" where
  "sample_job i = \<lparr>jb_ID = i, jb_Goal = ''g'', jb_Provider = ''fake'', jb_EverySecs = 60, jb_MaxTurns = 9, jb_MaxRetries = 1,
     jb_Retries = 0, jb_LastStatus = [], jb_LastError = [], jb_NextRun = 100, jb_CreatedAt = ''t''\<rparr>"

theorem tick_fires_due_jobs_once_witness:
  "\<exists>f' s' reqs. tickJobs (recording (\<lambda>m (n :: nat). (Inl ''no'', n + 1))) True 500 (Some [sample_job ''a'', (sample_job ''b'')\<lparr>jb_NextRun := 900\<rparr>]) (0, [])
      = (f', s', reqs) \<and> map fst reqs = [start_message 500 (sample_job ''a'')] \<and> due_jobs 500 (loadJobs f') = []"
proof -
  let ?d = "\<lambda>m (n :: nat). (Inl ''no'' :: response, n + 1)"
  let ?f = "Some [sample_job ''a'', (sample_job ''b'')\<lparr>jb_NextRun := 900\<rparr>]"
  obtain f' s' reqs where r: "tickJobs (recording ?d) True 500 ?f (0, []) = (f', s', reqs)" by (metis prod_cases3)
  have "jobs_ok (loadJobs ?f)" "\<forall>j\<in>set (loadJobs ?f). in_time 500 j"
    by (simp_all add: jobs_ok_def loadJobs_def job_ok_def sample_job_def retry_limit_def in_time_def)
  note once = tick_fires_due_jobs_once[OF this r, of ?d s']
  have "due_jobs 500 (loadJobs ?f) = [sample_job ''a'']" by (simp add: due_jobs_def loadJobs_def sample_job_def)
  with once r show ?thesis by auto
qed

text \<open>Jobs as \<open>opSchedule\<close> and \<open>opUnschedule\<close> leave them are well formed.\<close>

lemma opSchedule_keeps_jobs_ok:
  assumes "jobs_ok (loadJobs f)" "opSchedule writes a clock stamp m f = (r, f')"
    and "\<And>q. jobj_get m ''every_secs'' = JNum q \<Longrightarrow> trunc_rat q < 2 ^ 63"
  shows "jobs_ok (loadJobs f')"
proof -
  have "5 \<le> float_to_i64 q" if "jobj_get m ''every_secs'' = JNum q" "5 \<le> q" for q
  proof -
    have "5 \<le> trunc_rat q" using that(2) by (simp add: trunc_rat_def le_floor_iff)
    with assms(3)[OF that(1)] show ?thesis by (simp add: float_to_i64_def Let_def)
  qed
  with assms(1,2) show ?thesis
    by (auto simp: opSchedule_def Let_def saveJobs_def loadJobs_def jobs_ok_def job_ok_def retry_limit_def list_ex_iff not_less
        split: if_splits jval.splits option.splits) blast+
qed

lemma opUnschedule_keeps_jobs_ok:
  "jobs_ok (loadJobs f) \<Longrightarrow> opUnschedule writes m f = (r, f') \<Longrightarrow> jobs_ok (loadJobs f')"
  by (auto simp: opUnschedule_def Let_def saveJobs_def loadJobs_def jobs_ok_def distinct_map_filter split: if_splits option.splits)

text \<open>
  A period has no upper bound. One that takes the next run past the range of \<open>int64\<close> gives a time in
  the distant past: the job is due on every tick.
\<close>

lemma long_period_is_always_due:
  assumes "jb_NextRun j \<le> clock" "0 < clock" "clock < 2 ^ 62" "jb_EverySecs j = 2 ^ 63 - 1" "disp (start_message clock j) s = (Inr r, s')"
  shows "\<exists>j'. tick_job disp clock j s = (Some j', True, s') \<and> jb_NextRun j' < 0"
proof -
  have "(clock + (2 ^ 63 - 1) + 2 ^ 63) mod 2 ^ 64 = (clock - 1 :: int)"
  proof -
    have "clock + (2 ^ 63 - 1) + 2 ^ 63 = clock - 1 + 2 ^ 64" by simp
    then have "(clock + (2 ^ 63 - 1) + 2 ^ 63) mod 2 ^ 64 = (clock - 1) mod 2 ^ 64" by (simp only: mod_add_self2)
    with assms(2,3) show ?thesis by (simp add: mod_pos_pos_trivial)
  qed
  then have "i64 (clock + jb_EverySecs j) < 0" using assms(3,4) by (simp add: i64_def)
  with assms(1,5) show ?thesis by (simp add: tick_job_def)
qed

section \<open>Retries end\<close>

text \<open>
  A job whose starts fail for good is tried once more than its limit, at growing distances, and
  then dropped. \<open>clocks\<close> are the times of ticks, each when the job is due.
\<close>

fun due_ticks :: "(message \<Rightarrow> 's \<Rightarrow> response \<times> 's) \<Rightarrow> int list \<Rightarrow> Job option \<Rightarrow> 's \<Rightarrow> Job option \<times> 's" where
  "due_ticks disp (c # cs) (Some j) s = (case tick_job disp (max c (jb_NextRun j)) j s of (k, _, s) \<Rightarrow> due_ticks disp cs k s)"
| "due_ticks disp cs k s = (k, s)"

lemma failing_job_retries:
  assumes "\<forall>m s. \<exists>e. fst (disp m s) = Inl e"
  shows "0 \<le> jb_Retries j \<Longrightarrow> jb_Retries j \<le> retry_limit j \<Longrightarrow> retry_limit j < 2 ^ 63 - 1 \<Longrightarrow>
    (case fst (due_ticks disp cs (Some j) s) of
       None \<Rightarrow> retry_limit j < jb_Retries j + int (length cs)
     | Some j' \<Rightarrow> jb_Retries j' = jb_Retries j + int (length cs) \<and> jb_Retries j' \<le> retry_limit j)"
proof (induction cs arbitrary: j s)
  case (Cons c cs)
  obtain e t where d: "disp (start_message (max c (jb_NextRun j)) j) s = (Inl e, t)"
    using assms by (metis prod.collapse)
  have r1: "i64 (jb_Retries j + 1) = jb_Retries j + 1" using Cons.prems by (intro i64_id) auto
  show ?case
  proof (cases "jb_Retries j + 1 > retry_limit j")
    case True
    then show ?thesis using d Cons.prems r1 by (cases cs) (simp_all add: tick_job_def Let_def)
  next
    case False
    define j' where "j' = j\<lparr>jb_Retries := jb_Retries j + 1, jb_LastStatus := ''failed'',
      jb_LastError := (if e \<noteq> [] then e else jb_LastError j),
      jb_NextRun := i64 (max c (jb_NextRun j) + i64 (jb_EverySecs j * (jb_Retries j + 1)))\<rparr>"
    have lim: "retry_limit j' = retry_limit j" "jb_Retries j' = jb_Retries j + 1"
      by (simp_all add: j'_def retry_limit_def)
    have "due_ticks disp (c # cs) (Some j) s = due_ticks disp cs (Some j') t"
      using False d r1 by (simp add: tick_job_def Let_def j'_def)
    with Cons.IH[of j' t] lim Cons.prems False show ?thesis by (simp split: option.splits)
  qed
qed simp

lemma failing_job_is_dropped:
  assumes "\<forall>m s. \<exists>e. fst (disp m s) = Inl e" "job_ok j" "retry_limit j < 2 ^ 63 - 1"
  shows "fst (due_ticks disp cs (Some j) s) = None \<longleftrightarrow> retry_limit j - jb_Retries j < int (length cs)"
  using failing_job_retries[OF assms(1), of j cs s] assms(2,3) by (auto simp: job_ok_def split: option.splits)

section \<open>The daemon behind the dispatcher\<close>

record 'w Daemon =
  dm_server :: "'w Server"
  dm_jobs :: jobs_file
  dm_diffs :: "string \<Rightarrow> (string \<rightharpoonup> DiffRecord) option"
  dm_logs :: "string \<Rightarrow> EventLog"

definition on_server :: "('w Server \<Rightarrow> response \<times> 'w Server) \<Rightarrow> 'w Daemon \<Rightarrow> response \<times> 'w Daemon" where
  "on_server f d = (case f (dm_server d) of (r, s) \<Rightarrow> (r, d\<lparr>dm_server := s\<rparr>))"

definition on_jobs :: "(jobs_file \<Rightarrow> response \<times> jobs_file) \<Rightarrow> 'w Daemon \<Rightarrow> response \<times> 'w Daemon" where
  "on_jobs f d = (case f (dm_jobs d) of (r, js) \<Rightarrow> (r, d\<lparr>dm_jobs := js\<rparr>))"

text \<open>
  \<open>models\<close> is the answer of the provider's listing, \<open>read\<close>, \<open>ks\<close> and \<open>dks\<close> the openness of a status query
  and of the iteration orders, \<open>dec\<close> the JSON of a logged event, \<open>clock\<close>, \<open>stamp\<close> and \<open>auto_id\<close> the time.
\<close>

definition events_response :: "(string \<Rightarrow> jval option) \<Rightarrow> (id_error \<Rightarrow> string) \<Rightarrow> string \<Rightarrow> EventLog \<Rightarrow> response" where
  "events_response dec idtext runID l =
     (if runID = [] then Inl ''run_id required''
      else case ValidateID runID of Some e \<Rightarrow> Inl (idtext e)
      | None \<Rightarrow> (case opEvents dec l of None \<Rightarrow> Inl (''no events for run '' @ runID)
                 | Some evs \<Rightarrow> Inr [(''run_id'', JStr runID), (''events'', JArr evs)]))"

definition daemon_handlers :: "'w DaemonEnv \<Rightarrow> (message \<Rightarrow> response) \<Rightarrow> bool \<Rightarrow> string list \<Rightarrow> string list \<Rightarrow> (string \<Rightarrow> jval option)
    \<Rightarrow> bool \<Rightarrow> string \<Rightarrow> int \<Rightarrow> string \<Rightarrow> 'w Daemon handlers" where
  "daemon_handlers env models read ks dks dec writes auto_id clock stamp =
     \<lparr>oh_models = (\<lambda>m d. (models m, d)),
      oh_start = (\<lambda>m. on_server (opStart env m)),
      oh_status = (\<lambda>i d. (opStatus env read i (dm_server d), d)),
      oh_list = (\<lambda>d. (opList env ks (dm_server d), d)),
      oh_events = (\<lambda>i d. (events_response dec (de_IdText env) i (dm_logs d i), d)),
      oh_cancel = (\<lambda>i. on_server (opCancel i)),
      oh_steer = (\<lambda>i t. on_server (opSteer env i t)),
      oh_permission = (\<lambda>i q fp reason allow. on_server (opPermission env i q fp reason allow)),
      oh_schedule = (\<lambda>m. on_jobs (opSchedule writes auto_id clock stamp m)),
      oh_unschedule = (\<lambda>m. on_jobs (opUnschedule writes m)),
      oh_jobs = (\<lambda>d. (opJobs (dm_jobs d), d)),
      oh_diff = (\<lambda>m d. (opDiff (de_IdText env) dks m (dm_diffs d (msg_str m ''run_id'')), d))\<rparr>"

text \<open>Whatever is dispatched, the server makes one of its steps or none.\<close>

lemma on_server_step:
  "on_server g d = (r, d') \<Longrightarrow> snd (g (dm_server d)) = dm_server d'"
  by (auto simp: on_server_def split: prod.splits)

lemma on_jobs_server:
  "on_jobs g d = (r, d') \<Longrightarrow> dm_server d' = dm_server d"
  by (auto simp: on_jobs_def split: prod.splits)

lemma handler_steps:
  "snd (opStart env m s) = s' \<Longrightarrow> server_step env s s'"
  "snd (opCancel runID s) = s' \<Longrightarrow> server_step env s s'"
  "snd (opSteer env runID t s) = s' \<Longrightarrow> server_step env s s'"
  "snd (opPermission env runID requestID fp reason allow s) = s' \<Longrightarrow> server_step env s s'"
  by (auto intro: server_step.intros)

lemma dispatch_is_a_step:
  assumes "dispatch (daemon_handlers env models read ks dks dec writes auto_id clock stamp) m d = (r, d')"
  shows "dm_server d' = dm_server d \<or> server_step env (dm_server d) (dm_server d')"
  using assms
  by (auto simp: dispatch_def route_def Let_def daemon_handlers_def
      split: if_splits option.splits dest!: on_server_step on_jobs_server dest: handler_steps[where env = env])

text \<open>A started job always runs with the default number of turns: its own is an \<open>int\<close> in the message.\<close>

lemma job_runs_default_turns:
  "max_turns_of (jobj_get (start_message clock j) ''max_turns'') = max_turns_of JNull"
  by (simp add: start_message_def jobj_get_def jget_def)

text \<open>
  The ID of a job is not checked when it is scheduled, and is part of the run ID of its starts: with
  a slash in it every start is refused, and the job is dropped after its retries.
\<close>

lemma slashed_job_never_starts:
  assumes "ValidateID (''job-'' @ jb_ID j @ ''-'' @ itoa clock) = Some e" "jb_Goal j \<noteq> []" "jb_Provider j \<noteq> []"
  shows "\<exists>t. opStart env (start_message clock j) s = (Inl t, s)"
  using assms by (auto simp: opStart_def start_message_def msg_str_def jobj_get_def jget_def Let_def split: option.splits)

end
