(* ===== verification/AciTools.thy ===== *)
theory AciTools
  imports AgentTypes Safepath Egress
begin

text \<open>
  The native tools (\<open>internal/harness/aci\<close>: \<open>aci.go\<close>, \<open>edit.go\<close>, \<open>egress.go\<close>, \<open>container.go\<close>). A tool asks
  the outside world for operations, one after the other; what it is answered is an arbitrary function of
  the operations so far. The state a tool passes on is the list of its operations.
\<close>

section \<open>Operations of the outside world\<close>

text \<open>How a command ended: well, with an exit error, or otherwise, the context being late or cancelled.\<close>

datatype run_end = RanOk | ExitError int | RunFailed bool bool

datatype io_op =
    ReadFileOp string
  | ReadDirOp string
  | StatOp string
  | WriteFileOp string string
  | RemoveOp string
  | RenameOp string string
  | MkdirAllOp string
  | CommandOp "string list"
  | ShellOp string
  | LookPathOp string
  | CreateTempOp
  | WriteTempOp string string
  | RemoveTempOp string

record Reply =
  rp_Error :: "string option"
  rp_Data :: string
  rp_Names :: "string list"
  rp_IsDir :: bool
  rp_End :: run_end

record AciEnv =
  en_os :: os
  en_reply :: "io_op list \<Rightarrow> io_op \<Rightarrow> Reply"
  en_errtext :: "resolve_error \<Rightarrow> string"

definition perform :: "AciEnv \<Rightarrow> io_op \<Rightarrow> io_op list \<Rightarrow> Reply \<times> io_op list" where
  "perform env op ops = (en_reply env ops op, ops @ [op])"

section \<open>The catalogue\<close>

record Tool =
  tl_Name :: string
  tl_Description :: string
  tl_Kind :: string
  tl_FileOperation :: string
  tl_Schema :: "(string \<times> jval) list"

definition schema_object :: "string list \<Rightarrow> (string \<times> jval) list \<Rightarrow> (string \<times> jval) list" where
  "schema_object required props = [(''type'', JStr ''object''), (''properties'', JObj props), (''required'', JArr (map JStr required))]"

definition stringProp :: "string \<Rightarrow> jval" where
  "stringProp desc = JObj [(''type'', JStr ''string''), (''description'', JStr desc)]"

definition tool :: "string \<Rightarrow> string \<Rightarrow> string \<Rightarrow> string \<Rightarrow> string list \<Rightarrow> (string \<times> string) list \<Rightarrow> Tool" where
  "tool name desc kind op required props =
     \<lparr>tl_Name = name, tl_Description = desc, tl_Kind = kind, tl_FileOperation = op,
      tl_Schema = schema_object required (map (\<lambda>(k, d). (k, stringProp d)) props)\<rparr>"

definition Catalog :: "Tool list" where
  "Catalog =
     [tool ''fs.read'' ''read a file as text'' ''read-only'' [] [''path'']
        [(''path'', ''file to read, relative to the workspace root or absolute inside it'')],
      tool ''fs.list'' ''list the entries of a directory'' ''read-only'' [] []
        [(''path'', ''directory to list; the workspace root when omitted'')],
      tool ''fs.search'' ''search the workspace for text'' ''read-only'' [] []
        [(''pattern'', ''text or regular expression to search for''), (''query'', ''accepted as an alias for pattern'')],
      tool ''code.symbols'' ''list symbols in the workspace'' ''read-only'' [] [] [],
      tool ''code.diagnostics'' ''run static diagnostics over the workspace'' ''read-only'' [] [] [],
      tool ''edit.patch'' ''apply a unified diff to the workspace'' ''side-effecting'' ''modified'' [''patch'']
        [(''patch'', ''the unified diff to apply''),
         (''base_rev'', ''optional git revision the patch is expected to apply onto; refuses if HEAD has moved'')],
      tool ''edit.create'' ''create or overwrite a file'' ''side-effecting'' ''created'' [''path'', ''content'']
        [(''path'', ''file to create, inside the workspace root''), (''content'', ''full contents of the file'')],
      tool ''edit.delete'' ''delete a file'' ''destructive'' ''deleted'' [''path'']
        [(''path'', ''file to delete; directories are refused'')],
      tool ''edit.move'' ''move or rename a file'' ''side-effecting'' ''moved'' [''from'', ''to'']
        [(''from'', ''existing file to move''), (''to'', ''destination path; parent directories are created'')],
      tool ''process.exec'' ''run a shell command in the workspace'' ''side-effecting'' [] [''command'']
        [(''command'', ''the command line to run in the workspace root'')],
      tool ''test.run'' ''run the workspace test suite'' ''idempotent'' [] []
        [(''command'', ''optional override; the workspace test command is used when omitted'')],
      tool ''git.status'' ''show the working tree status'' ''read-only'' [] [] [],
      tool ''git.diff'' ''show a summary of the working tree diff'' ''read-only'' [] [] []]"

definition Specs :: "ToolSpec list" where
  "Specs = map (\<lambda>t. \<lparr>ts_Name = tl_Name t, ts_Description = tl_Description t, ts_Schema = tl_Schema t\<rparr>) Catalog"


definition KindOf :: "string \<Rightarrow> string" where
  "KindOf name = (case find (\<lambda>t. tl_Name t = name) Catalog of Some t \<Rightarrow> tl_Kind t | None \<Rightarrow> ''side-effecting'')"

section \<open>Egress of commands\<close>

record EgressPolicy =
  eq_DefaultDeny :: bool
  eq_AllowHosts :: "string list"
  eq_DataClass :: DataClass

text \<open>The pattern \<open>(https?)://([^/\s:@]+)\<close> at the head of a text: scheme, host and what follows.\<close>

definition host_char :: "char \<Rightarrow> bool" where
  "host_char c \<longleftrightarrow> c \<notin> set ''/:@ '' \<and> (of_char c :: nat) \<notin> {9, 10, 12, 13}"

definition url_at :: "string \<Rightarrow> (string \<times> string \<times> string) option" where
  "url_at s =
     (let try = \<lambda>scheme. (let pre = scheme @ ''://'' in
            if has_prefix s pre \<and> takeWhile host_char (drop (length pre) s) \<noteq> []
            then Some (scheme, takeWhile host_char (drop (length pre) s), dropWhile host_char (drop (length pre) s)) else None)
      in case try ''https'' of Some r \<Rightarrow> Some r | None \<Rightarrow> try ''http'')"

lemma url_at_shorter: "url_at s = Some (sch, h, rest) \<Longrightarrow> length rest < length s"
proof -
  assume u: "url_at s = Some (sch, h, rest)"
  then obtain n where "rest = dropWhile host_char (drop n s)" "0 < n" "n \<le> length s"
    by (auto simp: url_at_def Let_def has_prefix_def dest: prefix_length_le split: if_splits)
  then show ?thesis using length_dropWhile_le[of host_char "drop n s"] by simp
qed

function find_urls :: "string \<Rightarrow> (string \<times> string) list" where
  "find_urls s =
     (if s = [] then []
      else case url_at s of
        Some (sch, h, rest) \<Rightarrow> (sch, h) # find_urls rest
      | None \<Rightarrow> find_urls (tl s))"
  by pat_completeness auto
termination by (relation "measure length") (auto dest: url_at_shorter)

declare find_urls.simps [simp del]

definition trim_dots :: "string \<Rightarrow> string" where
  "trim_dots s = rev (dropWhile (\<lambda>c. c = CHR ''.'') (rev (dropWhile (\<lambda>c. c = CHR ''.'') s)))"

definition host_of :: "string \<Rightarrow> string" where
  "host_of h = to_lower (trim_dots h)"

fun endpoints_loop :: "string list \<Rightarrow> (string \<times> string) list \<Rightarrow> (string \<times> string) list" where
  "endpoints_loop seen [] = []"
| "endpoints_loop seen ((sch, h) # ms) =
     (if host_of h = [] \<or> host_of h \<in> set seen then endpoints_loop seen ms
      else (sch, host_of h) # endpoints_loop (host_of h # seen) ms)"

definition ExtractEndpoints :: "string \<Rightarrow> (string \<times> string) list" where
  "ExtractEndpoints cmd = endpoints_loop [] (find_urls cmd)"

definition host_matches :: "string \<Rightarrow> string \<Rightarrow> bool" where
  "host_matches host a =
     (let a = to_lower (trim_space a) in
      a \<noteq> [] \<and> (if has_prefix a ''.'' then host = drop 1 a \<or> has_suffix host a else host = a))"

definition hostAllowed :: "string \<Rightarrow> string list \<Rightarrow> bool" where
  "hostAllowed host allow = list_ex (host_matches host) allow"

definition check_endpoint :: "EgressPolicy \<Rightarrow> DataClass \<Rightarrow> string \<times> string \<Rightarrow> string option" where
  "check_endpoint p cls ep =
     (let trusted = hostAllowed (snd ep) (eq_AllowHosts p);
          d = AllowEgress cls (snd ep) (fst ep = ''https'') trusted in
      if eq_DefaultDeny p \<and> \<not> trusted
      then Some (''egress denied to '' @ snd ep @ '' (not in allowlist; use --egress-allow)'')
      else if \<not> eg_Allowed d then Some (''egress denied to '' @ snd ep @ '': '' @ eg_Reason d)
      else None)"

fun first_refusal :: "EgressPolicy \<Rightarrow> DataClass \<Rightarrow> (string \<times> string) list \<Rightarrow> string option" where
  "first_refusal p cls [] = None"
| "first_refusal p cls (ep # eps) = (case check_endpoint p cls ep of Some e \<Rightarrow> Some e | None \<Rightarrow> first_refusal p cls eps)"

definition CheckEgress :: "EgressPolicy option \<Rightarrow> string \<Rightarrow> string option" where
  "CheckEgress p cmd =
     (case p of None \<Rightarrow> None
      | Some p \<Rightarrow> first_refusal p (if eq_DataClass p = ClassOther [] then Internal else eq_DataClass p) (ExtractEndpoints cmd))"

section \<open>The executor\<close>

record Executor =
  ex_Root :: string
  ex_OutputMax :: nat
  ex_Redact :: "(string \<Rightarrow> string) list option"
  ex_Egress :: "EgressPolicy option"

definition cleanPath :: "Executor \<Rightarrow> AciEnv \<Rightarrow> string \<Rightarrow> bool \<Rightarrow> (string, string) outcome" where
  "cleanPath ex env p mustExist =
     (if p = [] then Inr (ex_Root ex)
      else case Resolve (en_os env) (ex_Root ex) p mustExist of Inl e \<Rightarrow> Inl (en_errtext env e) | Inr q \<Rightarrow> Inr q)"

definition cut_mark :: string where
  "cut_mark = [CHR 0x0A, CHR 0xE2, CHR 0x80, CHR 0xA6] @ ''[truncated]''"

definition bound :: "string \<Rightarrow> nat \<Rightarrow> string \<times> bool" where
  "bound s n = (if length s \<le> n then (s, False) else (take n s @ cut_mark, True))"

definition failed :: "ToolCall \<Rightarrow> string \<Rightarrow> ToolResult" where
  "failed call e = \<lparr>tr_ToolCallID = tc_ID call, tr_ExitCode = 1, tr_Output = [], tr_Truncated = False, tr_ArtifactID = [], tr_Error = e\<rparr>"

definition answered :: "ToolCall \<Rightarrow> int \<Rightarrow> string \<times> bool \<Rightarrow> ToolResult" where
  "answered call code out =
     \<lparr>tr_ToolCallID = tc_ID call, tr_ExitCode = code, tr_Output = fst out, tr_Truncated = snd out, tr_ArtifactID = [], tr_Error = []\<rparr>"

definition str_arg :: "ToolCall \<Rightarrow> string \<Rightarrow> string" where
  "str_arg call k = (case tc_Arguments call of None \<Rightarrow> [] | Some args \<Rightarrow> as_string0 (jobj_get args k))"

text \<open>\<open>runCommand\<close> and \<open>runShell\<close>: the output and the exit code of what was run in the root.\<close>

definition exit_code :: "run_end \<Rightarrow> int" where
  "exit_code r = (case r of RanOk \<Rightarrow> 0 | ExitError n \<Rightarrow> n
     | RunFailed late cancelled \<Rightarrow> if late then 124 else if cancelled then 130 else 127)"

definition runCommand :: "AciEnv \<Rightarrow> string list \<Rightarrow> io_op list \<Rightarrow> (string \<times> int) \<times> io_op list" where
  "runCommand env argv ops =
     (case perform env (CommandOp argv) ops of (r, ops) \<Rightarrow> ((rp_Data r, exit_code (rp_End r)), ops))"

definition runShell :: "AciEnv \<Rightarrow> string \<Rightarrow> io_op list \<Rightarrow> (string \<times> int) \<times> io_op list" where
  "runShell env script ops =
     (case perform env (ShellOp script) ops of (r, ops) \<Rightarrow> ((rp_Data r, exit_code (rp_End r)), ops))"

definition command_result :: "Executor \<Rightarrow> AciEnv \<Rightarrow> ToolCall \<Rightarrow> string list \<Rightarrow> io_op list \<Rightarrow> ToolResult \<times> io_op list" where
  "command_result ex env call argv ops =
     (case runCommand env argv ops of ((data, code), ops) \<Rightarrow> (answered call code (bound data (ex_OutputMax ex)), ops))"

definition searchText :: "Executor \<Rightarrow> AciEnv \<Rightarrow> string \<Rightarrow> io_op list \<Rightarrow> (string \<times> bool) \<times> io_op list" where
  "searchText ex env pattern ops =
     (case perform env (LookPathOp ''rg'') ops of (r, ops) \<Rightarrow>
        let argv = (if rp_Error r = None
              then [''rg'', ''--no-heading'', ''--line-number'', ''--max-count'', ''50'', pattern, ex_Root ex]
              else [''grep'', ''-rn'', ''-m'', ''50'', ''--exclude-dir=.git'', ''--exclude-dir=node_modules'', pattern, ex_Root ex])
        in (case perform env (CommandOp argv) ops of (r, ops) \<Rightarrow> (bound (rp_Data r) (ex_OutputMax ex), ops)))"

section \<open>Changing files\<close>

definition path_dir :: "string \<Rightarrow> string" where
  "path_dir p = path_clean (rev (dropWhile (\<lambda>c. c \<noteq> CHR ''/'') (rev p)))"

definition editCreate :: "Executor \<Rightarrow> AciEnv \<Rightarrow> ToolCall \<Rightarrow> io_op list \<Rightarrow> ToolResult \<times> io_op list" where
  "editCreate ex env call ops =
     (case cleanPath ex env (str_arg call ''path'') False of
        Inl e \<Rightarrow> (failed call e, ops)
      | Inr p \<Rightarrow> (case perform env (WriteFileOp p (str_arg call ''content'')) ops of (r, ops) \<Rightarrow>
          (case rp_Error r of Some e \<Rightarrow> (failed call e, ops)
           | None \<Rightarrow> (answered call 0 (''created '' @ str_arg call ''path'', False), ops))))"

definition editDelete :: "Executor \<Rightarrow> AciEnv \<Rightarrow> ToolCall \<Rightarrow> io_op list \<Rightarrow> ToolResult \<times> io_op list" where
  "editDelete ex env call ops =
     (case cleanPath ex env (str_arg call ''path'') True of
        Inl e \<Rightarrow> (failed call e, ops)
      | Inr p \<Rightarrow> (case perform env (StatOp p) ops of (r, ops) \<Rightarrow>
          (case rp_Error r of Some e \<Rightarrow> (failed call (''stat: '' @ e), ops)
           | None \<Rightarrow>
              if rp_IsDir r then (failed call (''refusing to delete directory '' @ str_arg call ''path'' @ '' (files only)''), ops)
              else (case perform env (RemoveOp p) ops of (r, ops) \<Rightarrow>
                (case rp_Error r of Some e \<Rightarrow> (failed call (''delete: '' @ e), ops)
                 | None \<Rightarrow> (answered call 0 (''deleted '' @ str_arg call ''path'', False), ops))))))"

definition editMove :: "Executor \<Rightarrow> AciEnv \<Rightarrow> ToolCall \<Rightarrow> io_op list \<Rightarrow> ToolResult \<times> io_op list" where
  "editMove ex env call ops =
     (case cleanPath ex env (str_arg call ''from'') True of
        Inl e \<Rightarrow> (failed call (''from: '' @ e), ops)
      | Inr src \<Rightarrow> (case cleanPath ex env (str_arg call ''to'') False of
          Inl e \<Rightarrow> (failed call (''to: '' @ e), ops)
        | Inr dst \<Rightarrow> (case perform env (MkdirAllOp (path_dir dst)) ops of (r, ops) \<Rightarrow>
            (case rp_Error r of Some e \<Rightarrow> (failed call (''mkdir: '' @ e), ops)
             | None \<Rightarrow> (case perform env (RenameOp src dst) ops of (r, ops) \<Rightarrow>
                (case rp_Error r of Some e \<Rightarrow> (failed call (''move: '' @ e), ops)
                 | None \<Rightarrow> (answered call 0 (''moved '' @ str_arg call ''from'' @ '' -> '' @ str_arg call ''to'', False), ops)))))))"

definition gitHead :: "Executor \<Rightarrow> AciEnv \<Rightarrow> io_op list \<Rightarrow> (string, string) outcome \<times> io_op list" where
  "gitHead ex env ops =
     (case perform env (CommandOp [''git'', ''rev-parse'', ''HEAD'']) ops of (r, ops) \<Rightarrow>
        (if rp_End r = RanOk then Inr (trim_space (rp_Data r)) else Inl (''not a git workspace: '' @ ex_Root ex), ops))"

text \<open>From the temporary file on: it is removed whatever \<open>git apply\<close> says.\<close>

definition apply_patch :: "Executor \<Rightarrow> AciEnv \<Rightarrow> ToolCall \<Rightarrow> string \<Rightarrow> io_op list \<Rightarrow> ToolResult \<times> io_op list" where
  "apply_patch ex env call tmp ops =
     (case perform env (CommandOp [''git'', ''apply'', ''--check'', tmp]) ops of (r, ops) \<Rightarrow>
        if rp_End r \<noteq> RanOk then (failed call (''patch does not apply cleanly: '' @ trim_space (rp_Data r)), ops @ [RemoveTempOp tmp])
        else (case perform env (CommandOp [''git'', ''apply'', ''--stat'', tmp]) ops of (stat, ops) \<Rightarrow>
          (case perform env (CommandOp [''git'', ''apply'', tmp]) ops of (r, ops) \<Rightarrow>
            if rp_End r \<noteq> RanOk then (failed call (''patch apply failed: '' @ trim_space (rp_Data r)), ops @ [RemoveTempOp tmp])
            else (answered call 0 (bound (''patched'' @ [CHR 0x0A] @ rp_Data stat) (ex_OutputMax ex)), ops @ [RemoveTempOp tmp]))))"

definition write_patch :: "Executor \<Rightarrow> AciEnv \<Rightarrow> ToolCall \<Rightarrow> io_op list \<Rightarrow> ToolResult \<times> io_op list" where
  "write_patch ex env call ops =
     (case perform env CreateTempOp ops of (r, ops) \<Rightarrow>
        (case rp_Error r of Some e \<Rightarrow> (failed call (''temp file: '' @ e), ops)
         | None \<Rightarrow> (let tmp = rp_Data r in
            (case perform env (WriteTempOp tmp (str_arg call ''patch'')) ops of (r, ops) \<Rightarrow>
              (case rp_Error r of
                 Some e \<Rightarrow> (failed call (''write patch temp file: '' @ e), ops @ [RemoveTempOp tmp])
               | None \<Rightarrow> apply_patch ex env call tmp ops)))))"

definition editPatch :: "Executor \<Rightarrow> AciEnv \<Rightarrow> ToolCall \<Rightarrow> io_op list \<Rightarrow> ToolResult \<times> io_op list" where
  "editPatch ex env call ops =
     (if blank (str_arg call ''patch'') then (failed call ''missing patch'', ops)
      else (case gitHead ex env ops of
        (Inl e, ops) \<Rightarrow> (failed call e, ops)
      | (Inr _, ops) \<Rightarrow>
          (let want = trim_space (str_arg call ''base_rev'') in
           if want = [] then write_patch ex env call ops
           else (case gitHead ex env ops of
             (Inl e, ops) \<Rightarrow> (failed call e, ops)
           | (Inr head, ops) \<Rightarrow>
               if head \<noteq> want then (failed call (''base revision moved: want '' @ want @ '', have '' @ head), ops)
               else write_patch ex env call ops))))"

section \<open>Execution of a call\<close>

definition fsRead :: "Executor \<Rightarrow> AciEnv \<Rightarrow> ToolCall \<Rightarrow> io_op list \<Rightarrow> ToolResult \<times> io_op list" where
  "fsRead ex env call ops =
     (case cleanPath ex env (str_arg call ''path'') True of
        Inl e \<Rightarrow> (failed call e, ops)
      | Inr p \<Rightarrow> (case perform env (ReadFileOp p) ops of (r, ops) \<Rightarrow>
          (case rp_Error r of Some e \<Rightarrow> (failed call e, ops)
           | None \<Rightarrow> (answered call 0 (bound (rp_Data r) (ex_OutputMax ex)), ops))))"

definition fsList :: "Executor \<Rightarrow> AciEnv \<Rightarrow> ToolCall \<Rightarrow> io_op list \<Rightarrow> ToolResult \<times> io_op list" where
  "fsList ex env call ops =
     (case cleanPath ex env (str_arg call ''path'') True of
        Inl e \<Rightarrow> (failed call e, ops)
      | Inr p \<Rightarrow> (case perform env (ReadDirOp p) ops of (r, ops) \<Rightarrow>
          (case rp_Error r of Some e \<Rightarrow> (failed call e, ops)
           | None \<Rightarrow> (answered call 0 (bound (join [CHR 0x0A] (rp_Names r)) (ex_OutputMax ex)), ops))))"

definition shell_tool :: "Executor \<Rightarrow> AciEnv \<Rightarrow> ToolCall \<Rightarrow> io_op list \<Rightarrow> ToolResult \<times> io_op list" where
  "shell_tool ex env call ops =
     (let bin = (if tc_Name call = ''test.run'' then ''go test ./... 2>&1'' else str_arg call ''command'') in
      if bin = [] then (failed call ''missing command'', ops)
      else case CheckEgress (ex_Egress ex) bin of
        Some e \<Rightarrow> (failed call e, ops)
      | None \<Rightarrow> (case runShell env bin ops of ((data, code), ops) \<Rightarrow> (answered call code (bound data (ex_OutputMax ex)), ops)))"

definition execute :: "Executor \<Rightarrow> AciEnv \<Rightarrow> ToolCall \<Rightarrow> io_op list \<Rightarrow> ToolResult \<times> io_op list" where
  "execute ex env call ops =
     (let name = tc_Name call in
      if name = ''fs.read'' then fsRead ex env call ops
      else if name = ''fs.list'' then fsList ex env call ops
      else if name = ''fs.search'' \<or> name = ''code.symbols'' then
        (case searchText ex env (if str_arg call ''pattern'' = [] then str_arg call ''query'' else str_arg call ''pattern'') ops of
           (out, ops) \<Rightarrow> (answered call 0 out, ops))
      else if name = ''git.status'' then command_result ex env call [''git'', ''status'', ''--short''] ops
      else if name = ''git.diff'' then command_result ex env call [''git'', ''diff'', ''--stat'', ''--'', ''.''] ops
      else if name = ''test.run'' \<or> name = ''process.exec'' then shell_tool ex env call ops
      else if name = ''code.diagnostics'' then command_result ex env call [''go'', ''vet'', ''./...''] ops
      else if name = ''edit.patch'' then editPatch ex env call ops
      else if name = ''edit.delete'' then editDelete ex env call ops
      else if name = ''edit.move'' then editMove ex env call ops
      else if name = ''edit.create'' then editCreate ex env call ops
      else (failed call (''unknown tool '' @ name), ops))"

definition redact_result :: "(string \<Rightarrow> string) list option \<Rightarrow> ToolResult \<Rightarrow> ToolResult" where
  "redact_result rs res =
     (case rs of None \<Rightarrow> res
      | Some rs \<Rightarrow> res\<lparr>tr_Output := Redact rs (tr_Output res), tr_Error := Redact rs (tr_Error res)\<rparr>)"

definition Execute :: "Executor \<Rightarrow> AciEnv \<Rightarrow> ToolCall \<Rightarrow> io_op list \<Rightarrow> ToolResult \<times> io_op list" where
  "Execute ex env call ops = (case execute ex env call ops of (res, ops) \<Rightarrow> (redact_result (ex_Redact ex) res, ops))"

section \<open>Containers\<close>

record ContainerSpec =
  cs_Image :: string
  cs_Workdir :: string
  cs_Network :: string
  cs_Memory :: string
  cs_CPUs :: string
  cs_PidsLimit :: string
  cs_Env :: "string list"
  cs_Script :: string
  cs_RuntimeArgs :: "string list"

definition flag :: "string \<Rightarrow> string \<Rightarrow> string list" where
  "flag name v = (if v \<noteq> [] then [name, v] else [])"

definition containerArgs :: "string \<Rightarrow> ContainerSpec \<Rightarrow> string list" where
  "containerArgs rt s =
     [''run''] @ cs_RuntimeArgs s
     @ [''--rm'', ''-i'', ''--network'', if cs_Network s = [] then ''none'' else cs_Network s]
     @ flag ''--memory'' (cs_Memory s) @ flag ''--cpus'' (cs_CPUs s) @ flag ''--pids-limit'' (cs_PidsLimit s)
     @ concat (map (\<lambda>e. [''-e'', e]) (cs_Env s))
     @ [''-v'', rt @ '':'' @ cs_Workdir s, ''-w'', cs_Workdir s, cs_Image s, ''sh'', ''-c'', cs_Script s]"

text \<open>The runner answers with its output, exit code and error; \<open>late\<close> tells that the context is over.\<close>

record ContainerExecutor =
  ce_Host :: Executor
  ce_Available :: bool
  ce_Run :: "string \<Rightarrow> ContainerSpec \<Rightarrow> string \<times> int \<times> string option"
  ce_Root :: string
  ce_Image :: string
  ce_Memory :: string
  ce_CPUs :: string
  ce_PidsLimit :: string
  ce_OutputMax :: nat
  ce_RuntimeArgs :: "string list"

definition containerTools :: "string list" where
  "containerTools = [''process.exec'', ''test.run'', ''code.diagnostics'']"

definition scriptFor :: "ToolCall \<Rightarrow> (string, string) outcome" where
  "scriptFor call =
     (if tc_Name call = ''process.exec'' then
        (if str_arg call ''command'' = [] then Inl ''missing command'' else Inr (str_arg call ''command''))
      else if tc_Name call = ''test.run'' then Inr ''go test ./... 2>&1 | head -c 8000''
      else if tc_Name call = ''code.diagnostics'' then Inr ''go vet ./... 2>&1 | head -c 8000''
      else Inl (''not a container tool: '' @ tc_Name call))"

definition container_spec :: "ContainerExecutor \<Rightarrow> string \<Rightarrow> ContainerSpec" where
  "container_spec ce script =
     \<lparr>cs_Image = ce_Image ce, cs_Workdir = ce_Root ce, cs_Network = [], cs_Memory = ce_Memory ce, cs_CPUs = ce_CPUs ce,
      cs_PidsLimit = ce_PidsLimit ce, cs_Env = [], cs_Script = script, cs_RuntimeArgs = ce_RuntimeArgs ce\<rparr>"

text \<open>The result, its error, and the operations on the host.\<close>

definition ContainerExecute :: "ContainerExecutor \<Rightarrow> AciEnv \<Rightarrow> bool \<Rightarrow> ToolCall \<Rightarrow> io_op list \<Rightarrow> (string, ToolResult) outcome \<times> io_op list" where
  "ContainerExecute ce env late call ops =
     (if tc_Name call \<notin> set containerTools
      then (case Execute (ce_Host ce) env call ops of (res, ops) \<Rightarrow> (Inr res, ops))
      else (case scriptFor call of
        Inl e \<Rightarrow> (Inr (failed call e), ops)
      | Inr script \<Rightarrow>
          if \<not> ce_Available ce then (Inr (failed call ''container runtime unavailable: refusing silent host fallback''), ops)
          else (case ce_Run ce (ce_Root ce) (container_spec ce script) of (out, code, err) \<Rightarrow>
            (case err of
               Some e \<Rightarrow>
                 if late then (Inl e, ops)
                 else (Inr ((answered call code (bound out (ce_OutputMax ce)))\<lparr>tr_Error := trim_space e\<rparr>), ops)
             | None \<Rightarrow> (Inr (answered call code (bound out (ce_OutputMax ce))), ops)))))"

section \<open>Where the tools reach\<close>








definition emits :: "(io_op \<Rightarrow> bool) \<Rightarrow> io_op list \<Rightarrow> 'a \<times> io_op list \<Rightarrow> bool" where
  "emits P ops r \<longleftrightarrow> (\<exists>new. snd r = ops @ new \<and> (\<forall>op\<in>set new. P op))"

lemma emits_none [simp]: "emits P ops (x, ops)"
  by (simp add: emits_def)

lemma emits_these [simp]: "emits P ops (x, ops @ new) \<longleftrightarrow> (\<forall>op\<in>set new. P op)"
  by (simp add: emits_def)



















definition sample_aci_env :: AciEnv where
  "sample_aci_env = \<lparr>en_os = \<lparr>os_cwd = ''/w'', os_lstat = (\<lambda>p. if p \<in> set [''/w'', ''/w/a''] then Entry else Missing), os_eval = Inr\<rparr>,
     en_reply = (\<lambda>ops op. \<lparr>rp_Error = None, rp_Data = [], rp_Names = [], rp_IsDir = False, rp_End = RanOk\<rparr>),
     en_errtext = (\<lambda>e. ''refused'')\<rparr>"

definition sample_executor :: Executor where
  "sample_executor = \<lparr>ex_Root = ''/w'', ex_OutputMax = 32768, ex_Redact = None, ex_Egress = None\<rparr>"

definition delete_call :: "string \<Rightarrow> ToolCall" where
  "delete_call p = \<lparr>tc_ID = ''c'', tc_TurnID = ''t'', tc_Name = ''edit.delete'', tc_Arguments = Some [(''path'', JStr p)], tc_IdempotencyKey = []\<rparr>"

lemma sample_paths:
  "cleanPath sample_executor sample_aci_env ''x/../a'' True = Inr ''/w/a''"
  "cleanPath sample_executor sample_aci_env ''../b'' True = Inl ''refused''"
proof -
  have b: "\<not> blank ''/w''" by (simp add: blank_plain plain_char_def)
  have r: "resolved_root (en_os sample_aci_env) ''/w'' = ''/w''" by code_simp
  have p: "path_clean (path_join [''/w'', ''x/../a'']) = ''/w/a''" "path_clean (path_join [''/w'', ''../b'']) = ''/b''" by code_simp+
  have c: "contains ''/w'' ''/w/a''" "\<not> contains ''/w'' ''/b''" by code_simp+
  have o: "os_lstat (en_os sample_aci_env) ''/w/a'' = Entry" "os_eval (en_os sample_aci_env) ''/w/a'' = Inr ''/w/a''"
    "en_errtext sample_aci_env e = ''refused''" for e by (simp_all add: sample_aci_env_def)
  show "cleanPath sample_executor sample_aci_env ''x/../a'' True = Inr ''/w/a''"
    "cleanPath sample_executor sample_aci_env ''../b'' True = Inl ''refused''"
    by (simp_all add: cleanPath_def Resolve_def sample_executor_def b r p c o is_abs_def has_prefix_def Let_def)
qed


lemma sample_delete: "execute sample_executor sample_aci_env (delete_call p) ops = editDelete sample_executor sample_aci_env (delete_call p) ops"
  by (simp add: execute_def delete_call_def)

lemma delete_arg: "str_arg (delete_call p) ''path'' = p"
  by (simp add: str_arg_def delete_call_def jobj_get_def jget_def as_string0_def)

lemma escaping_delete_does_nothing: "snd (Execute sample_executor sample_aci_env (delete_call ''../b'') []) = []"
  by (simp add: Execute_def sample_delete editDelete_def delete_arg sample_paths)


text \<open>Without a destination \<open>edit.move\<close> creates the directory above the root.\<close>

lemma move_to_nothing_creates_the_parent:
  assumes "cleanPath ex env (str_arg call ''from'') True = Inr src" "str_arg call ''to'' = []"
  shows "\<exists>rest. snd (editMove ex env call ops) = ops @ MkdirAllOp (path_dir (ex_Root ex)) # rest"
proof -
  have "cleanPath ex env (str_arg call ''to'') False = Inr (ex_Root ex)" using assms(2) by (simp add: cleanPath_def)
  with assms(1) show ?thesis by (simp add: editMove_def perform_def split: option.splits)
qed

lemma parent_of_the_root: "path_dir ''/home/w'' = ''/home'' \<and> \<not> contains ''/home/w'' ''/home''"
  by code_simp

text \<open>
  The pattern of a search stands where the program looks for options: \<open>--pre\<close> makes \<open>rg\<close>
  run a command on each file, for a tool the catalogue calls read-only.
\<close>

definition search_call :: "string \<Rightarrow> ToolCall" where
  "search_call p = \<lparr>tc_ID = ''c'', tc_TurnID = ''t'', tc_Name = ''fs.search'', tc_Arguments = Some [(''pattern'', JStr p)], tc_IdempotencyKey = []\<rparr>"

lemma search_pattern_can_be_an_option:
  assumes "rp_Error (en_reply env ops (LookPathOp ''rg'')) = None"
  shows "snd (Execute ex env (search_call ''--pre=./run'') ops) = ops @ [LookPathOp ''rg'',
      CommandOp [''rg'', ''--no-heading'', ''--line-number'', ''--max-count'', ''50'', ''--pre=./run'', ex_Root ex]]"
    and "KindOf ''fs.search'' = ''read-only''"
proof -
  have "str_arg (search_call ''--pre=./run'') ''pattern'' = ''--pre=./run''"
    by (simp add: str_arg_def search_call_def jobj_get_def jget_def as_string0_def)
  with assms show "snd (Execute ex env (search_call ''--pre=./run'') ops) = ops @ [LookPathOp ''rg'',
      CommandOp [''rg'', ''--no-heading'', ''--line-number'', ''--max-count'', ''50'', ''--pre=./run'', ex_Root ex]]"
    by (simp add: Execute_def execute_def search_call_def searchText_def perform_def Let_def case_prod_beta)
qed code_simp

text \<open>A command that did not end well is never reported with exit code 0.\<close>

lemma exit_code_zero: "exit_code e = 0 \<longleftrightarrow> e = RanOk \<or> e = ExitError 0"
  by (cases e) (auto simp: exit_code_def)

lemma bound_length: "length (fst (bound s n)) \<le> n + 15"
  by (auto simp: bound_def cut_mark_def)

lemma bound_keeps_prefix: "\<exists>rest. fst (bound s n) = take n s @ rest"
  by (auto simp: bound_def)

section \<open>What the egress check sees\<close>

lemma first_refusal_None: "first_refusal p cls eps = None \<longleftrightarrow> (\<forall>ep\<in>set eps. check_endpoint p cls ep = None)"
  by (induction eps) (auto split: option.splits)

lemma endpoints_hosts:
  "snd ` set (endpoints_loop seen ms) \<union> set seen = (host_of ` snd ` set ms - {[]}) \<union> set seen"
  by (induction seen ms rule: endpoints_loop.induct) auto

text \<open>Under a policy that denies by default, every host a passing command names in a URL is on the list.\<close>

lemma passing_hosts_are_allowed:
  assumes "CheckEgress (Some p) cmd = None" "eq_DefaultDeny p" "(sch, h) \<in> set (find_urls cmd)" "host_of h \<noteq> []"
  shows "hostAllowed (host_of h) (eq_AllowHosts p)"
proof -
  have "host_of h \<in> snd ` set (ExtractEndpoints cmd)"
    using endpoints_hosts[of "[]" "find_urls cmd"] assms(3,4) unfolding ExtractEndpoints_def by force
  with assms(1,2) show ?thesis
    by (auto simp: CheckEgress_def first_refusal_None check_endpoint_def Let_def split: if_splits)
qed

text \<open>What is taken for the host of a URL with credentials is the user's name.\<close>

definition ask_example :: EgressPolicy where
  "ask_example = \<lparr>eq_DefaultDeny = True, eq_AllowHosts = [''ok.io''], eq_DataClass = Public\<rparr>"

lemma credentials_hide_the_host: "find_urls ''https://ok.io@evil.io/x'' = [(''https'', ''ok.io'')]"
  by code_simp

text \<open>Only the first URL of a host is looked at: a later one may be plain \<open>http\<close>.\<close>

lemma later_plain_url_is_skipped:
  "ExtractEndpoints ''https://ok.io http://ok.io'' = [(''https'', ''ok.io'')]"
  by code_simp

lemma scheme_in_capitals_is_not_seen: "find_urls ''HTTPS://evil.io'' = []"
  by code_simp

section \<open>Containers isolate\<close>

text \<open>What a container executor runs has no network, and nothing runs on the host instead.\<close>

lemma container_has_no_network:
  "\<exists>xs ys. containerArgs rt (container_spec ce script) = xs @ [''--network'', ''none''] @ ys"
  by (rule exI[of _ "[''run''] @ ce_RuntimeArgs ce @ [''--rm'', ''-i'']"]) (simp add: containerArgs_def container_spec_def)

lemma container_tools_stay_off_the_host:
  "tc_Name call \<in> set containerTools \<Longrightarrow> snd (ContainerExecute ce env late call ops) = ops"
  by (auto simp: ContainerExecute_def split: sum.splits option.splits prod.splits)

lemma unavailable_container_fails:
  "tc_Name call \<in> set containerTools \<Longrightarrow> \<not> ce_Available ce
   \<Longrightarrow> \<exists>res. fst (ContainerExecute ce env late call ops) = Inr res \<and> tr_ExitCode res = 1"
  by (auto simp: ContainerExecute_def failed_def split: sum.splits)

text \<open>The output of a container is passed on as it is, whatever the redactor of the host executor.\<close>

lemma container_output_is_not_redacted:
  "ce_Available ce \<Longrightarrow> tc_Name call = ''test.run'' \<Longrightarrow> length s \<le> ce_OutputMax ce
   \<Longrightarrow> ce_Run ce = (\<lambda>rt spec. (s, 0, None))
   \<Longrightarrow> \<exists>res. fst (ContainerExecute ce env late call ops) = Inr res \<and> tr_Output res = s"
  by (simp add: ContainerExecute_def containerTools_def scriptFor_def bound_def answered_def)

end
