(* ===== verification/PatchText.thy ===== *)
theory PatchText
  imports GoStrings
begin

text \<open>
  The patch format of the terminal interface (\<open>prumo-tui/internal/diff/patch.go\<close>): the parser of a patch
  text against the files it names, the search for the context of a section, and the files an accepted
  patch produces. A run-time panic is a value; the two parsing loops, which may not end, are partial.
\<close>

section \<open>Data\<close>

datatype ActionType = ActionAdd | ActionDelete | ActionUpdate

record Chunk =
  ck_OrigIndex :: nat
  ck_DelLines :: "string list"
  ck_InsLines :: "string list"

record PatchAction =
  pa_Type :: ActionType
  pa_NewFile :: "string option"
  pa_Chunks :: "Chunk list"
  pa_MovePath :: "string option"

record FileChange =
  fc_Type :: ActionType
  fc_OldContent :: "string option"
  fc_NewContent :: "string option"
  fc_MovePath :: "string option"

type_synonym Patch = "(string, PatchAction) gomap"
type_synonym Commit = "(string, FileChange) gomap"

text \<open>An error, or an index out of range.\<close>

datatype fault = DiffError string | PlainError string | IndexPanic

definition fileError :: "string \<Rightarrow> string \<Rightarrow> string \<Rightarrow> fault" where
  "fileError act reason path = DiffError (act @ '' File Error: '' @ reason @ '': '' @ path)"

definition newline_text :: string where
  "newline_text = [CHR 0x0A]"

definition contextError :: "int \<Rightarrow> string \<Rightarrow> bool \<Rightarrow> fault" where
  "contextError i ctx eof =
     DiffError ((if eof then ''Invalid EOF Context'' else ''Invalid Context'') @ '' '' @ itoa i @ '':'' @ newline_text @ ctx)"

record Parser =
  ps_files :: "string \<rightharpoonup> string"
  ps_lines :: "string list"
  ps_index :: nat
  ps_patch :: Patch
  ps_fuzz :: int

definition NewParser :: "(string \<rightharpoonup> string) \<Rightarrow> string list \<Rightarrow> Parser" where
  "NewParser files ls = \<lparr>ps_files = files, ps_lines = ls, ps_index = 0, ps_patch = [], ps_fuzz = 0\<rparr>"

section \<open>Reading lines\<close>

definition starts_any :: "string list \<Rightarrow> string \<Rightarrow> bool" where
  "starts_any ps l \<longleftrightarrow> list_ex (has_prefix l) ps"

definition isDone :: "string list \<Rightarrow> Parser \<Rightarrow> bool" where
  "isDone ps p \<longleftrightarrow> length (ps_lines p) \<le> ps_index p \<or> starts_any ps (ps_lines p ! ps_index p)"

definition startsWith :: "string list \<Rightarrow> Parser \<Rightarrow> (fault, bool) outcome" where
  "startsWith ps p = (if ps_index p < length (ps_lines p) then Inr (starts_any ps (ps_lines p ! ps_index p)) else Inl IndexPanic)"

definition line_at :: "Parser \<Rightarrow> (fault, string) outcome" where
  "line_at p = (if ps_index p < length (ps_lines p) then Inr (ps_lines p ! ps_index p) else Inl IndexPanic)"

definition readStr :: "string \<Rightarrow> bool \<Rightarrow> Parser \<Rightarrow> string \<times> Parser" where
  "readStr pre whole p =
     (if length (ps_lines p) \<le> ps_index p then ([], p)
      else let l = ps_lines p ! ps_index p in
        if has_prefix l pre then (if whole then l else drop (length pre) l, p\<lparr>ps_index := ps_index p + 1\<rparr>)
        else ([], p))"

section \<open>Finding a context\<close>

type_synonym line_eq = "string \<Rightarrow> string \<Rightarrow> bool"

definition trim_blanks :: "string \<Rightarrow> string" where
  "trim_blanks s = rev (dropWhile (\<lambda>c. c = CHR '' '' \<or> c = CHR 0x09) (rev s))"

definition same_line :: line_eq where "same_line a b \<longleftrightarrow> a = b"
definition same_but_right :: line_eq where "same_but_right a b \<longleftrightarrow> trim_blanks a = trim_blanks b"
definition same_but_space :: line_eq where "same_but_space a b \<longleftrightarrow> trim_space a = trim_space b"

definition match_fuzz :: "line_eq \<Rightarrow> int" where
  "match_fuzz cmp = (if cmp ''a '' ''a'' \<and> \<not> cmp ''a'' ''b'' then 1 else if cmp ''a  '' ''a'' then 100 else 0)"

fun match_loop :: "line_eq \<Rightarrow> string list \<Rightarrow> string list \<Rightarrow> int list \<Rightarrow> (fault, int \<times> int) outcome" where
  "match_loop cmp ls ctx [] = Inr (-1, 0)"
| "match_loop cmp ls ctx (i # is) =
     (if i + int (length ctx) \<le> int (length ls) then
        if i < 0 \<and> ctx \<noteq> [] then Inl IndexPanic
        else if list_all2 cmp (take (length ctx) (drop (nat i) ls)) ctx then Inr (i, match_fuzz cmp)
        else match_loop cmp ls ctx is
      else match_loop cmp ls ctx is)"

definition tryFindMatch :: "string list \<Rightarrow> string list \<Rightarrow> int \<Rightarrow> line_eq \<Rightarrow> (fault, int \<times> int) outcome" where
  "tryFindMatch ls ctx start cmp = match_loop cmp ls ctx [start..int (length ls) - 1]"

fun first_match :: "string list \<Rightarrow> string list \<Rightarrow> int \<Rightarrow> line_eq list \<Rightarrow> (fault, int \<times> int) outcome" where
  "first_match ls ctx start [] = Inr (-1, 0)"
| "first_match ls ctx start (cmp # cmps) =
     (case tryFindMatch ls ctx start cmp of
        Inl e \<Rightarrow> Inl e
      | Inr (i, fz) \<Rightarrow> if 0 \<le> i then Inr (i, fz) else first_match ls ctx start cmps)"

definition findContextCore :: "string list \<Rightarrow> string list \<Rightarrow> int \<Rightarrow> (fault, int \<times> int) outcome" where
  "findContextCore ls ctx start =
     (if ctx = [] then Inr (start, 0) else first_match ls ctx start [same_line, same_but_right, same_but_space])"

definition findContext :: "string list \<Rightarrow> string list \<Rightarrow> int \<Rightarrow> bool \<Rightarrow> (fault, int \<times> int) outcome" where
  "findContext ls ctx start eof =
     (if eof then
        (case findContextCore ls ctx (int (length ls) - int (length ctx)) of
           Inl e \<Rightarrow> Inl e
         | Inr (i, fz) \<Rightarrow> if i \<noteq> -1 then Inr (i, fz)
             else (case findContextCore ls ctx start of Inl e \<Rightarrow> Inl e | Inr (i, fz) \<Rightarrow> Inr (i, fz + 10000)))
      else findContextCore ls ctx start)"

section \<open>One section\<close>

datatype edit_mode = Keep | Insert | Delete

definition line_mode :: "string \<Rightarrow> edit_mode \<times> string" where
  "line_mode s = (case s of [] \<Rightarrow> (Keep, [])
     | c # r \<Rightarrow> if c = CHR ''+'' then (Insert, r) else if c = CHR ''-'' then (Delete, r)
                else if c = CHR '' '' then (Keep, r) else (Keep, s))"

definition ends_section :: "string \<Rightarrow> bool" where
  "ends_section s \<longleftrightarrow> has_prefix s ''@@'' \<or> has_prefix s ''***''"

record section_state =
  sc_old :: "string list"
  sc_del :: "string list"
  sc_ins :: "string list"
  sc_chunks :: "Chunk list"
  sc_mode :: edit_mode

definition flush_chunk :: "section_state \<Rightarrow> Chunk list" where
  "flush_chunk st =
     (if sc_ins st \<noteq> [] \<or> sc_del st \<noteq> []
      then sc_chunks st @ [\<lparr>ck_OrigIndex = length (sc_old st) - length (sc_del st), ck_DelLines = sc_del st, ck_InsLines = sc_ins st\<rparr>]
      else sc_chunks st)"

definition section_line :: "string \<Rightarrow> section_state \<Rightarrow> section_state" where
  "section_line s st =
     (case line_mode s of (mode, l) \<Rightarrow>
        let st = (if mode = Keep \<and> sc_mode st \<noteq> mode
                  then st\<lparr>sc_chunks := flush_chunk st, sc_del := [], sc_ins := []\<rparr> else st)\<lparr>sc_mode := mode\<rparr>
        in (case mode of
              Delete \<Rightarrow> st\<lparr>sc_del := sc_del st @ [l], sc_old := sc_old st @ [l]\<rparr>
            | Insert \<Rightarrow> st\<lparr>sc_ins := sc_ins st @ [l]\<rparr>
            | Keep \<Rightarrow> st\<lparr>sc_old := sc_old st @ [l]\<rparr>))"

fun section_loop :: "string list \<Rightarrow> nat \<Rightarrow> section_state \<Rightarrow> section_state \<times> nat" where
  "section_loop [] i st = (st, i)"
| "section_loop (s # ss) i st = (if ends_section s then (st, i) else section_loop ss (i + 1) (section_line s st))"

definition peekNextSection :: "string list \<Rightarrow> nat \<Rightarrow> string list \<times> Chunk list \<times> nat \<times> bool" where
  "peekNextSection ls start =
     (case section_loop (drop start ls) start \<lparr>sc_old = [], sc_del = [], sc_ins = [], sc_chunks = [], sc_mode = Keep\<rparr> of
        (st, i) \<Rightarrow>
          if i < length ls \<and> ls ! i = ''*** End of File'' then (sc_old st, flush_chunk st, i + 1, True)
          else (sc_old st, flush_chunk st, i, False))"

section \<open>Updated and added files\<close>

definition update_ends :: "string list" where
  "update_ends = [''*** End Patch'', ''*** Update File:'', ''*** Delete File:'', ''*** Add File:'', ''*** End of File'']"

text \<open>The line named after \<open>@@\<close>: where the search for the context starts.\<close>

definition seek_def :: "string list \<Rightarrow> string \<Rightarrow> nat \<Rightarrow> nat \<times> int" where
  "seek_def ls d i =
     (if trim_space d = [] then (i, 0)
      else if list_ex (\<lambda>l. l = d) (take i ls) then (i, 0)
      else case find (\<lambda>k. ls ! k = d) [i..<length ls] of
        Some k \<Rightarrow> (k + 1, 0)
      | None \<Rightarrow>
          if list_ex (\<lambda>l. trim_space l = trim_space d) (take i ls) then (i, 0)
          else case find (\<lambda>k. trim_space (ls ! k) = trim_space d) [i..<length ls] of
            Some k \<Rightarrow> (k + 1, 1)
          | None \<Rightarrow> (i, 0))"

definition update_step :: "string list \<Rightarrow> Parser \<Rightarrow> nat \<Rightarrow> Chunk list \<Rightarrow> (fault, Parser \<times> nat \<times> Chunk list) outcome" where
  "update_step ls p i cs =
     (case readStr ''@@ '' False p of (d, p) \<Rightarrow>
        let bare = d = [] \<and> ps_index p < length (ps_lines p) \<and> ps_lines p ! ps_index p = ''@@'';
            p = (if bare then p\<lparr>ps_index := ps_index p + 1\<rparr> else p) in
        if d = [] \<and> \<not> bare \<and> i \<noteq> 0
        then (case line_at p of Inl e \<Rightarrow> Inl e | Inr l \<Rightarrow> Inl (DiffError (''Invalid Line:'' @ newline_text @ l)))
        else
          (case seek_def ls d i of (i, fz) \<Rightarrow>
            let p = p\<lparr>ps_fuzz := ps_fuzz p + fz\<rparr> in
            (case peekNextSection (ps_lines p) (ps_index p) of (ctx, new, next_i, eof) \<Rightarrow>
              (case findContext ls ctx (int i) eof of
                 Inl e \<Rightarrow> Inl e
               | Inr (k, fz) \<Rightarrow>
                   if k = -1 then Inl (contextError (int i) (join newline_text ctx) eof)
                   else Inr (p\<lparr>ps_fuzz := ps_fuzz p + fz, ps_index := next_i\<rparr>, nat k + length ctx,
                             cs @ map (\<lambda>c. c\<lparr>ck_OrigIndex := ck_OrigIndex c + nat k\<rparr>) new)))))"

partial_function (option) update_loop :: "string list \<Rightarrow> Parser \<Rightarrow> nat \<Rightarrow> Chunk list \<Rightarrow> (fault, Parser \<times> Chunk list) outcome option" where
  "update_loop ls p i cs =
     (if isDone update_ends p then Some (Inr (p, cs))
      else case update_step ls p i cs of
        Inl e \<Rightarrow> Some (Inl e)
      | Inr (p, i, cs) \<Rightarrow> update_loop ls p i cs)"

definition parseUpdateFile :: "string \<Rightarrow> Parser \<Rightarrow> (fault, Parser \<times> PatchAction) outcome option" where
  "parseUpdateFile text p =
     (case update_loop (split_on CHR 0x0A text) p 0 [] of
        None \<Rightarrow> None
      | Some (Inl e) \<Rightarrow> Some (Inl e)
      | Some (Inr (p, cs)) \<Rightarrow> Some (Inr (p, \<lparr>pa_Type = ActionUpdate, pa_NewFile = None, pa_Chunks = cs, pa_MovePath = None\<rparr>)))"

definition add_ends :: "string list" where
  "add_ends = [''*** End Patch'', ''*** Update File:'', ''*** Delete File:'', ''*** Add File:'']"

text \<open>\<open>rest\<close> is the lines from the parser's index on.\<close>

fun add_loop :: "string list \<Rightarrow> nat \<Rightarrow> string list \<Rightarrow> (fault, nat \<times> string list) outcome" where
  "add_loop [] i ls = Inr (i, ls)"
| "add_loop (s # rest) i ls =
     (if starts_any add_ends s then Inr (i, ls)
      else if \<not> has_prefix s ''+'' then Inl (DiffError (''Invalid Add File Line: '' @ s))
      else add_loop rest (i + 1) (ls @ [drop 1 s]))"

definition parseAddFile :: "Parser \<Rightarrow> (fault, Parser \<times> PatchAction) outcome" where
  "parseAddFile p =
     (case add_loop (drop (ps_index p) (ps_lines p)) (ps_index p) [] of
        Inl e \<Rightarrow> Inl e
      | Inr (i, ls) \<Rightarrow> Inr (p\<lparr>ps_index := i\<rparr>, \<lparr>pa_Type = ActionAdd, pa_NewFile = Some (join newline_text ls),
          pa_Chunks = [], pa_MovePath = None\<rparr>))"

section \<open>The parser\<close>

definition add_action :: "string \<Rightarrow> PatchAction \<Rightarrow> Parser \<Rightarrow> Parser" where
  "add_action path a p = p\<lparr>ps_patch := ps_patch p @ [(path, a)]\<rparr>"

definition parse_update :: "string \<Rightarrow> Parser \<Rightarrow> (fault, Parser) outcome option" where
  "parse_update path p =
     (if map_of (ps_patch p) path \<noteq> None then Some (Inl (fileError ''Update'' ''Duplicate Path'' path))
      else case readStr ''*** Move to: '' False p of (moveTo, p) \<Rightarrow>
        (case ps_files p path of
           None \<Rightarrow> Some (Inl (fileError ''Update'' ''Missing File'' path))
         | Some text \<Rightarrow> (case parseUpdateFile text p of
             None \<Rightarrow> None
           | Some (Inl e) \<Rightarrow> Some (Inl e)
           | Some (Inr (p, a)) \<Rightarrow>
               Some (Inr (add_action path (if moveTo \<noteq> [] then a\<lparr>pa_MovePath := Some moveTo\<rparr> else a) p)))))"

definition parse_delete :: "string \<Rightarrow> Parser \<Rightarrow> (fault, Parser) outcome" where
  "parse_delete path p =
     (if map_of (ps_patch p) path \<noteq> None then Inl (fileError ''Delete'' ''Duplicate Path'' path)
      else if ps_files p path = None then Inl (fileError ''Delete'' ''Missing File'' path)
      else Inr (add_action path \<lparr>pa_Type = ActionDelete, pa_NewFile = None, pa_Chunks = [], pa_MovePath = None\<rparr> p))"

definition parse_add :: "string \<Rightarrow> Parser \<Rightarrow> (fault, Parser) outcome" where
  "parse_add path p =
     (if map_of (ps_patch p) path \<noteq> None then Inl (fileError ''Add'' ''Duplicate Path'' path)
      else if ps_files p path \<noteq> None then Inl (fileError ''Add'' ''File already exists'' path)
      else (case parseAddFile p of Inl e \<Rightarrow> Inl e | Inr (p, a) \<Rightarrow> Inr (add_action path a p)))"

definition parse_step :: "Parser \<Rightarrow> (fault, Parser) outcome option" where
  "parse_step p =
     (case readStr ''*** Update File: '' False p of (path, p) \<Rightarrow>
        if path \<noteq> [] then parse_update path p
        else (case readStr ''*** Delete File: '' False p of (path, p) \<Rightarrow>
          if path \<noteq> [] then Some (parse_delete path p)
          else (case readStr ''*** Add File: '' False p of (path, p) \<Rightarrow>
            if path \<noteq> [] then Some (parse_add path p)
            else Some (case line_at p of Inl e \<Rightarrow> Inl e | Inr l \<Rightarrow> Inl (DiffError (''Unknown Line: '' @ l))))))"

partial_function (option) parse_loop :: "Parser \<Rightarrow> (fault, Parser) outcome option" where
  "parse_loop p =
     (if isDone [''*** End Patch''] p then Some (Inr p)
      else case parse_step p of
        None \<Rightarrow> None
      | Some r \<Rightarrow> (case r of Inl e \<Rightarrow> Some (Inl e) | Inr p \<Rightarrow> parse_loop p))"

definition Parse :: "Parser \<Rightarrow> (fault, Parser) outcome option" where
  "Parse p =
     (case parse_loop p of
        None \<Rightarrow> None
      | Some (Inl e) \<Rightarrow> Some (Inl e)
      | Some (Inr p) \<Rightarrow> Some (case startsWith [''*** End Patch''] p of
          Inl e \<Rightarrow> Inl e
        | Inr b \<Rightarrow> if b then Inr (p\<lparr>ps_index := ps_index p + 1\<rparr>) else Inl (DiffError ''Missing End Patch'')))"

definition TextToPatch :: "string \<Rightarrow> (string \<rightharpoonup> string) \<Rightarrow> (fault, Patch \<times> int) outcome option" where
  "TextToPatch text orig =
     (let ls = split_on CHR 0x0A (trim_space text) in
      if length ls < 2 \<or> \<not> has_prefix (hd ls) ''*** Begin Patch'' \<or> last ls \<noteq> ''*** End Patch''
      then Some (Inl (DiffError ''Invalid patch text''))
      else case Parse ((NewParser orig ls)\<lparr>ps_index := 1\<rparr>) of
        None \<Rightarrow> None
      | Some (Inl e) \<Rightarrow> Some (Inl e)
      | Some (Inr p) \<Rightarrow> Some (Inr (ps_patch p, ps_fuzz p)))"

section \<open>From a patch to the files\<close>

fun chunk_loop :: "string \<Rightarrow> string list \<Rightarrow> nat \<Rightarrow> string list \<Rightarrow> Chunk list \<Rightarrow> (fault, string list) outcome" where
  "chunk_loop path orig i dest [] = (if length orig < i then Inl IndexPanic else Inr (dest @ drop i orig))"
| "chunk_loop path orig i dest (c # cs) =
     (if length orig < ck_OrigIndex c
      then Inl (DiffError (path @ '': chunk.orig_index '' @ itoa (int (ck_OrigIndex c)) @ '' > len(lines) '' @ itoa (int (length orig))))
      else if ck_OrigIndex c < i
      then Inl (DiffError (path @ '': orig_index '' @ itoa (int i) @ '' > chunk.orig_index '' @ itoa (int (ck_OrigIndex c))))
      else chunk_loop path orig (ck_OrigIndex c + length (ck_DelLines c))
             (dest @ take (ck_OrigIndex c - i) (drop i orig) @ ck_InsLines c) cs)"

definition getUpdatedFile :: "string \<Rightarrow> PatchAction \<Rightarrow> string \<Rightarrow> (fault, string) outcome" where
  "getUpdatedFile text a path =
     (if pa_Type a \<noteq> ActionUpdate then Inl (PlainError ''expected UPDATE action'')
      else case chunk_loop path (split_on CHR 0x0A text) 0 [] (pa_Chunks a) of
        Inl e \<Rightarrow> Inl e
      | Inr ls \<Rightarrow> Inr (join newline_text ls))"

text \<open>A Go map that lacks a key answers the empty string.\<close>

definition old_content :: "(string \<rightharpoonup> string) \<Rightarrow> string \<Rightarrow> string" where
  "old_content orig path = (case orig path of None \<Rightarrow> [] | Some c \<Rightarrow> c)"

definition change_of :: "(string \<rightharpoonup> string) \<Rightarrow> string \<Rightarrow> PatchAction \<Rightarrow> (fault, FileChange) outcome" where
  "change_of orig path a =
     (case pa_Type a of
        ActionDelete \<Rightarrow> Inr \<lparr>fc_Type = ActionDelete, fc_OldContent = Some (old_content orig path), fc_NewContent = None, fc_MovePath = None\<rparr>
      | ActionAdd \<Rightarrow> Inr \<lparr>fc_Type = ActionAdd, fc_OldContent = None, fc_NewContent = pa_NewFile a, fc_MovePath = None\<rparr>
      | ActionUpdate \<Rightarrow>
          (case getUpdatedFile (old_content orig path) a path of
             Inl e \<Rightarrow> Inl e
           | Inr new \<Rightarrow> Inr \<lparr>fc_Type = ActionUpdate, fc_OldContent = Some (old_content orig path), fc_NewContent = Some new,
                            fc_MovePath = pa_MovePath a\<rparr>))"

text \<open>\<open>patch\<close> and \<open>commit\<close> are listed in the order in which the maps are ranged over.\<close>

fun PatchToCommit :: "Patch \<Rightarrow> (string \<rightharpoonup> string) \<Rightarrow> (fault, Commit) outcome" where
  "PatchToCommit [] orig = Inr []"
| "PatchToCommit ((path, a) # rest) orig =
     (case change_of orig path a of
        Inl e \<Rightarrow> Inl e
      | Inr ch \<Rightarrow> (case PatchToCommit rest orig of Inl e \<Rightarrow> Inl e | Inr chs \<Rightarrow> Inr ((path, ch) # chs)))"

section \<open>What a section means\<close>

text \<open>The lines a section expects in the file, and the lines it puts there.\<close>

definition old_of :: "string list \<Rightarrow> string list" where
  "old_of b = map (snd \<circ> line_mode) (filter (\<lambda>s. fst (line_mode s) \<noteq> Insert) b)"

definition new_of :: "string list \<Rightarrow> string list" where
  "new_of b = map (snd \<circ> line_mode) (filter (\<lambda>s. fst (line_mode s) \<noteq> Delete) b)"

definition section_init :: section_state where
  "section_init = \<lparr>sc_old = [], sc_del = [], sc_ins = [], sc_chunks = [], sc_mode = Keep\<rparr>"

definition section_of :: "string list \<Rightarrow> section_state" where
  "section_of b = foldl (\<lambda>st s. section_line s st) section_init b"

lemma section_loop_takeWhile:
  "section_loop ls i st = (foldl (\<lambda>st s. section_line s st) st (takeWhile (\<lambda>s. \<not> ends_section s) ls),
     i + length (takeWhile (\<lambda>s. \<not> ends_section s) ls))"
  by (induction ls arbitrary: i st) auto

definition section_body :: "string list \<Rightarrow> nat \<Rightarrow> string list" where
  "section_body ls i = takeWhile (\<lambda>s. \<not> ends_section s) (drop i ls)"

lemma peekNextSection_eq:
  "peekNextSection ls i =
     (let b = section_body ls i; j = i + length b; eof = j < length ls \<and> ls ! j = ''*** End of File'' in
      (sc_old (section_of b), flush_chunk (section_of b), if eof then j + 1 else j, eof))"
  by (simp add: peekNextSection_def section_loop_takeWhile section_body_def section_of_def section_init_def Let_def)

text \<open>Chunks that lie in order between two places of a file, and the file they produce.\<close>

fun chunks_fit :: "nat \<Rightarrow> nat \<Rightarrow> Chunk list \<Rightarrow> bool" where
  "chunks_fit i n [] \<longleftrightarrow> i \<le> n"
| "chunks_fit i n (c # cs) \<longleftrightarrow> i \<le> ck_OrigIndex c \<and> chunks_fit (ck_OrigIndex c + length (ck_DelLines c)) n cs"

fun edited :: "nat \<Rightarrow> Chunk list \<Rightarrow> string list \<Rightarrow> string list" where
  "edited i [] orig = drop i orig"
| "edited i (c # cs) orig = take (ck_OrigIndex c - i) (drop i orig) @ ck_InsLines c
     @ edited (ck_OrigIndex c + length (ck_DelLines c)) cs orig"

lemma chunks_fit_le: "chunks_fit i n cs \<Longrightarrow> i \<le> n"
  by (induction cs arbitrary: i) force+

lemma chunks_fit_mono: "chunks_fit i n cs \<Longrightarrow> n \<le> m \<Longrightarrow> chunks_fit i m cs"
  by (induction cs arbitrary: i) auto

lemma chunks_fit_weaken: "i \<le> k \<Longrightarrow> chunks_fit k n cs \<Longrightarrow> chunks_fit i n cs"
  by (cases cs) auto

lemma chunks_fit_append: "chunks_fit i k cs \<Longrightarrow> chunks_fit k n ds \<Longrightarrow> chunks_fit i n (cs @ ds)"
  by (induction cs arbitrary: i) (auto intro: chunks_fit_weaken)

lemma edited_lines: "chunks_fit i (length old) cs \<Longrightarrow> edited i cs (old @ xs) = edited i cs old @ xs"
proof (induction cs arbitrary: i)
  case (Cons c cs)
  then have "ck_OrigIndex c \<le> length old" using chunks_fit_le[of "ck_OrigIndex c + length (ck_DelLines c)"] by force
  with Cons show ?case by simp
qed simp

lemma edited_snoc:
  "chunks_fit i k cs \<Longrightarrow> k \<le> length old \<Longrightarrow> ck_OrigIndex c = k
   \<Longrightarrow> edited i (cs @ [c]) old = edited i cs (take k old) @ ck_InsLines c @ drop (k + length (ck_DelLines c)) old"
proof (induction cs arbitrary: i)
  case Nil
  then show ?case by (simp add: drop_take)
next
  case (Cons d cs)
  then have "ck_OrigIndex d \<le> k" using chunks_fit_le[of "ck_OrigIndex d + length (ck_DelLines d)"] by force
  with Cons show ?case by (simp add: drop_take min_def)
qed

text \<open>The lines a chunk deletes are where it says.\<close>

definition chunk_found :: "string list \<Rightarrow> Chunk \<Rightarrow> bool" where
  "chunk_found orig c \<longleftrightarrow> take (length (ck_DelLines c)) (drop (ck_OrigIndex c) orig) = ck_DelLines c"

lemma chunk_found_lines: "chunk_found old c \<Longrightarrow> chunk_found (old @ xs) c"
proof -
  assume f: "chunk_found old c"
  then have "length (ck_DelLines c) \<le> length old - ck_OrigIndex c"
    unfolding chunk_found_def by (metis length_drop length_take min.cobounded1)
  with f show ?thesis by (cases "ck_OrigIndex c \<le> length old") (simp_all add: chunk_found_def)
qed

text \<open>
  A section read so far: its finished chunks turn what came before the lines being deleted into
  what they should become, up to the lines being inserted.
\<close>

definition section_ok :: "string list \<Rightarrow> section_state \<Rightarrow> bool" where
  "section_ok b st \<longleftrightarrow>
     sc_old st = old_of b \<and> length (sc_del st) \<le> length (sc_old st)
     \<and> drop (length (sc_old st) - length (sc_del st)) (sc_old st) = sc_del st
     \<and> chunks_fit 0 (length (sc_old st) - length (sc_del st)) (sc_chunks st)
     \<and> new_of b = edited 0 (sc_chunks st) (take (length (sc_old st) - length (sc_del st)) (sc_old st)) @ sc_ins st
     \<and> (sc_mode st = Keep \<longrightarrow> sc_del st = [] \<and> sc_ins st = [])
     \<and> (\<forall>c\<in>set (sc_chunks st). chunk_found (sc_old st) c)"

lemma section_ok_flush:
  assumes "section_ok b st"
  shows "chunks_fit 0 (length (old_of b)) (flush_chunk st) \<and> edited 0 (flush_chunk st) (old_of b) = new_of b
    \<and> (\<forall>c\<in>set (flush_chunk st). chunk_found (old_of b) c)"
proof (cases "sc_ins st = [] \<and> sc_del st = []")
  case True
  with assms show ?thesis by (auto simp: section_ok_def flush_chunk_def)
next
  case False
  let ?k = "length (sc_old st) - length (sc_del st)"
  have ok: "sc_old st = old_of b" "length (sc_del st) \<le> length (sc_old st)" "chunks_fit 0 ?k (sc_chunks st)"
    "new_of b = edited 0 (sc_chunks st) (take ?k (sc_old st)) @ sc_ins st"
    "\<forall>c\<in>set (sc_chunks st). chunk_found (sc_old st) c" "drop ?k (sc_old st) = sc_del st"
    using assms unfolding section_ok_def by blast+
  let ?c = "\<lparr>ck_OrigIndex = ?k, ck_DelLines = sc_del st, ck_InsLines = sc_ins st\<rparr>"
  have fl: "flush_chunk st = sc_chunks st @ [?c]" using False by (simp add: flush_chunk_def)
  have "edited 0 (sc_chunks st @ [?c]) (sc_old st) = new_of b"
    using edited_snoc[of 0 ?k "sc_chunks st" "sc_old st" ?c] ok by simp
  moreover have "chunks_fit 0 (length (sc_old st)) (sc_chunks st @ [?c])"
    using ok chunks_fit_append[of 0 ?k "sc_chunks st" _ "[?c]"] by simp
  moreover have "chunk_found (sc_old st) ?c" using ok(6) by (simp add: chunk_found_def)
  ultimately show ?thesis using ok(5) unfolding fl ok(1) by simp
qed

lemma old_of_snoc: "old_of (b @ [s]) = old_of b @ (if fst (line_mode s) = Insert then [] else [snd (line_mode s)])"
  by (simp add: old_of_def)

lemma new_of_snoc: "new_of (b @ [s]) = new_of b @ (if fst (line_mode s) = Delete then [] else [snd (line_mode s)])"
  by (simp add: new_of_def)

lemma section_ok_line:
  assumes ok: "section_ok b st"
  shows "section_ok (b @ [s]) (section_line s st)"
proof -
  obtain m l where ml: "line_mode s = (m, l)" by fastforce
  note fl = section_ok_flush[OF ok]
  have old: "sc_old st = old_of b" using ok by (simp add: section_ok_def)
  show ?thesis
  proof (cases m)
    case Keep
    show ?thesis
    proof (cases "sc_mode st = Keep")
      case True
      then have "flush_chunk st = sc_chunks st" using ok by (simp add: section_ok_def flush_chunk_def)
      with ok fl Keep True ml old show ?thesis
        by (auto simp: section_ok_def section_line_def Let_def old_of_snoc new_of_snoc edited_lines
            intro: chunks_fit_mono chunk_found_lines)
    next
      case False
      with fl Keep ml old show ?thesis
        by (auto simp: section_ok_def section_line_def Let_def old_of_snoc new_of_snoc edited_lines
            intro: chunks_fit_mono chunk_found_lines)
    qed
  next
    case Insert
    with ok ml show ?thesis by (auto simp: section_ok_def section_line_def Let_def old_of_snoc new_of_snoc)
  next
    case Delete
    with ok ml show ?thesis
      by (auto simp: section_ok_def section_line_def Let_def old_of_snoc new_of_snoc Suc_diff_le
          intro: chunk_found_lines)
  qed
qed

lemma section_of_ok: "section_ok b (section_of b)"
proof (induction b rule: rev_induct)
  case Nil
  then show ?case by (simp add: section_ok_def section_of_def section_init_def old_of_def new_of_def)
next
  case (snoc s b)
  from section_ok_line[OF snoc] show ?case by (simp add: section_of_def)
qed

text \<open>The chunks of a section turn the lines it expects into the lines it wants.\<close>

lemma section_edits:
  "sc_old (section_of b) = old_of b"
  "chunks_fit 0 (length (old_of b)) (flush_chunk (section_of b))"
  "edited 0 (flush_chunk (section_of b)) (old_of b) = new_of b"
  "\<forall>c\<in>set (flush_chunk (section_of b)). chunk_found (old_of b) c"
  using section_of_ok[of b] section_ok_flush[OF section_of_ok[of b]] by (simp_all add: section_ok_def)

text \<open>The lines that carry a mark, without it. The chunks of a section carry its marked lines, in order.\<close>

definition marked :: "char \<Rightarrow> string list \<Rightarrow> string list" where
  "marked c ls = map tl (filter (\<lambda>l. l \<noteq> [] \<and> hd l = c) ls)"

lemma marked_append [simp]: "marked c (xs @ ys) = marked c xs @ marked c ys"
  by (simp add: marked_def)

lemma marked_mode:
  "marked CHR ''-'' [s] = (if fst (line_mode s) = Delete then [snd (line_mode s)] else [])"
  "marked CHR ''+'' [s] = (if fst (line_mode s) = Insert then [snd (line_mode s)] else [])"
  by (cases s; simp add: marked_def line_mode_def)+

definition carries :: "string list \<Rightarrow> section_state \<Rightarrow> bool" where
  "carries b st \<longleftrightarrow> (sc_mode st = Keep \<longrightarrow> sc_del st = [] \<and> sc_ins st = [])
     \<and> concat (map ck_DelLines (sc_chunks st)) @ sc_del st = marked CHR ''-'' b
     \<and> concat (map ck_InsLines (sc_chunks st)) @ sc_ins st = marked CHR ''+'' b"

lemma carries_section: "carries b (section_of b)"
proof (induction b rule: rev_induct)
  case Nil
  then show ?case by (simp add: carries_def section_of_def section_init_def marked_def)
next
  case (snoc s b)
  obtain m l where ml: "line_mode s = (m, l)" by fastforce
  have "section_of (b @ [s]) = section_line s (section_of b)" by (simp add: section_of_def)
  then show ?case using snoc ml
    by (cases m; cases "sc_mode (section_of b) = Keep")
      (auto simp: carries_def section_line_def Let_def flush_chunk_def marked_mode)
qed

lemma chunks_marked:
  "concat (map ck_DelLines (flush_chunk (section_of b))) = marked CHR ''-'' b"
  "concat (map ck_InsLines (flush_chunk (section_of b))) = marked CHR ''+'' b"
  using carries_section[of b] by (auto simp: carries_def flush_chunk_def)

section \<open>The text of an update\<close>

text \<open>
  The lines of the patch text that belong to the file named in line \<open>n\<close>, and the blocks they fall
  into at the lines that begin with two at signs or three stars.
\<close>

definition file_part :: "string list \<Rightarrow> nat \<Rightarrow> string list" where
  "file_part ls n = takeWhile (\<lambda>l. \<not> starts_any add_ends l) (drop (Suc n) ls)"

function blocks :: "string list \<Rightarrow> string list list" where
  "blocks [] = []"
| "blocks (l # ls) =
     (if ends_section l then blocks ls
      else (l # takeWhile (\<lambda>s. \<not> ends_section s) ls) # blocks (dropWhile (\<lambda>s. \<not> ends_section s) ls))"
  by pat_completeness auto
termination
  by (relation "measure length") (auto simp: le_imp_less_Suc length_dropWhile_le)

lemma blocks_run:
  assumes "\<forall>s\<in>set b. \<not> ends_section s" "rest = [] \<or> ends_section (hd rest)"
  shows "blocks (b @ rest) = (if b = [] then [] else [b]) @ blocks rest"
proof (cases b)
  case (Cons l b')
  have "takeWhile (\<lambda>s. \<not> ends_section s) (b' @ rest) = b'" "dropWhile (\<lambda>s. \<not> ends_section s) (b' @ rest) = rest"
    using assms Cons by (cases rest; simp add: takeWhile_append dropWhile_append takeWhile_eq_all_conv)+
  with assms(1) Cons show ?thesis by simp
qed simp

lemma marked_blocks:
  assumes "c \<noteq> CHR ''@''" "c \<noteq> CHR ''*''"
  shows "marked c ls = concat (map (marked c) (blocks ls))"
proof (induction ls rule: blocks.induct)
  case (2 l ls)
  show ?case
  proof (cases "ends_section l")
    case True
    then have "hd l = CHR ''@'' \<or> hd l = CHR ''*''" by (cases l) (auto simp: ends_section_def has_prefix_def)
    then have "hd l \<noteq> c" using assms by auto
    then have "marked c (l # ls) = marked c ls" by (simp add: marked_def)
    with True 2(1) show ?thesis by simp
  next
    case False
    have "marked c (l # ls) = marked c (l # takeWhile (\<lambda>s. \<not> ends_section s) ls) @ marked c (dropWhile (\<lambda>s. \<not> ends_section s) ls)"
      by (metis append_Cons marked_append takeWhile_dropWhile_id)
    with False 2(2) show ?thesis by simp
  qed
qed (simp add: marked_def)

section \<open>Applying chunks\<close>

lemma chunk_loop_edited:
  "chunk_loop path orig i dest cs = Inr ls \<Longrightarrow> chunks_fit i (length orig) cs \<and> ls = dest @ edited i cs orig"
proof (induction cs arbitrary: i dest)
  case (Cons c cs)
  then have le: "ck_OrigIndex c \<le> length orig" "i \<le> ck_OrigIndex c"
    and rest: "chunk_loop path orig (ck_OrigIndex c + length (ck_DelLines c))
      (dest @ take (ck_OrigIndex c - i) (drop i orig) @ ck_InsLines c) cs = Inr ls"
    by (auto split: if_splits)
  from Cons.IH[OF rest] le show ?case by simp
qed (auto split: if_splits)

lemma chunk_loop_no_panic:
  "i \<le> length orig \<Longrightarrow> \<forall>c\<in>set cs. ck_OrigIndex c + length (ck_DelLines c) \<le> length orig
   \<Longrightarrow> chunk_loop path orig i dest cs \<noteq> Inl IndexPanic"
  by (induction cs arbitrary: i dest) auto

lemma chunk_loop_fits:
  "chunks_fit i (length orig) cs \<Longrightarrow> chunk_loop path orig i dest cs = Inr (dest @ edited i cs orig)"
proof (induction cs arbitrary: i dest)
  case (Cons c cs)
  then have "ck_OrigIndex c \<le> length orig" using chunks_fit_le[of "ck_OrigIndex c + length (ck_DelLines c)"] by force
  with Cons show ?case by simp
qed simp

text \<open>One text comes from another by replacing blocks, in order.\<close>

fun replaces :: "(string list \<times> string list) list \<Rightarrow> string list \<Rightarrow> string list \<Rightarrow> bool" where
  "replaces [] xs ys \<longleftrightarrow> xs = ys"
| "replaces ((old, new) # bs) xs ys \<longleftrightarrow> (\<exists>pre r s. xs = pre @ old @ r \<and> ys = pre @ new @ s \<and> replaces bs r s)"

lemma edited_replaces:
  "chunks_fit i (length orig) cs \<Longrightarrow> \<forall>c\<in>set cs. chunk_found orig c
   \<Longrightarrow> replaces (map (\<lambda>c. (ck_DelLines c, ck_InsLines c)) cs) (drop i orig) (edited i cs orig)"
proof (induction cs arbitrary: i)
  case (Cons c cs)
  let ?k = "ck_OrigIndex c" and ?n = "length (ck_DelLines c)"
  have le: "i \<le> ?k" using Cons.prems by simp
  have "drop i orig = take (?k - i) (drop i orig) @ drop ?k orig"
    using le by (metis append_take_drop_id drop_drop le_add_diff_inverse2)
  also have "drop ?k orig = ck_DelLines c @ drop (?k + ?n) orig"
    using Cons.prems(2) unfolding chunk_found_def
    by (metis add.commute append_take_drop_id drop_drop list.set_intros(1))
  finally have "drop i orig = take (?k - i) (drop i orig) @ ck_DelLines c @ drop (?k + ?n) orig" .
  moreover have "replaces (map (\<lambda>c. (ck_DelLines c, ck_InsLines c)) cs) (drop (?k + ?n) orig) (edited (?k + ?n) cs orig)"
    using Cons by simp
  ultimately have "\<exists>pre r s. drop i orig = pre @ ck_DelLines c @ r
      \<and> edited i (c # cs) orig = pre @ ck_InsLines c @ s \<and> replaces (map (\<lambda>c. (ck_DelLines c, ck_InsLines c)) cs) r s"
    unfolding edited.simps by blast
  then show ?case by simp
qed simp

text \<open>The chunks of a section placed in a file turn the lines it expects there into those it wants.\<close>

lemma edited_from:
  "chunks_fit j n cs \<Longrightarrow> i \<le> j \<Longrightarrow> j \<le> length orig \<Longrightarrow> edited i cs orig = take (j - i) (drop i orig) @ edited j cs orig"
proof (cases cs)
  case Nil
  assume "i \<le> j"
  then have "drop i orig = take (j - i) (drop i orig) @ drop j orig"
    by (metis append_take_drop_id drop_drop le_add_diff_inverse2)
  with Nil show ?thesis by simp
next
  case (Cons c cs')
  assume fit: "chunks_fit j n cs" and le: "i \<le> j" "j \<le> length orig"
  have "take (ck_OrigIndex c - i) (drop i orig) = take (j - i) (drop i orig) @ take (ck_OrigIndex c - j) (drop j orig)"
  proof -
    have "ck_OrigIndex c - i = (j - i) + (ck_OrigIndex c - j)" using fit le Cons by simp
    then have "take (ck_OrigIndex c - i) (drop i orig) = take ((j - i) + (ck_OrigIndex c - j)) (drop i orig)" by (simp only:)
    then show ?thesis using le by (simp only: take_add drop_drop) simp
  qed
  with Cons show ?thesis by simp
qed

definition shift :: "nat \<Rightarrow> Chunk \<Rightarrow> Chunk" where
  "shift k c = c\<lparr>ck_OrigIndex := ck_OrigIndex c + k\<rparr>"

lemma shift_simps [simp]:
  "ck_OrigIndex (shift k c) = ck_OrigIndex c + k" "ck_DelLines (shift k c) = ck_DelLines c" "ck_InsLines (shift k c) = ck_InsLines c"
  by (simp_all add: shift_def)

lemma chunks_fit_shift: "chunks_fit i n cs \<Longrightarrow> chunks_fit (k + i) (k + n) (map (shift k) cs)"
proof (induction cs arbitrary: i)
  case (Cons c cs)
  have "chunks_fit (k + (ck_OrigIndex c + length (ck_DelLines c))) (k + n) (map (shift k) cs)"
    by (rule Cons.IH) (use Cons.prems in simp)
  with Cons.prems show ?case by (simp add: ac_simps)
qed simp

lemma edited_shift:
  assumes "take (length old) (drop k orig) = old" "chunks_fit (k + length old) n rest" "k + length old \<le> length orig"
  shows "chunks_fit i (length old) cs \<Longrightarrow>
    edited (k + i) (map (shift k) cs @ rest) orig = edited i cs old @ edited (k + length old) rest orig"
proof (induction cs arbitrary: i)
  case Nil
  then have "i \<le> length old" by simp
  have "drop i old = drop i (take (length old) (drop k orig))" by (simp only: assms(1))
  then have "drop i old = take (length old - i) (drop (k + i) orig)" by (simp add: drop_take add.commute)
  with \<open>i \<le> length old\<close> edited_from[OF assms(2) _ assms(3), of "k + i"] Nil show ?case by simp
next
  case (Cons c cs)
  let ?k = "ck_OrigIndex c"
  have le: "i \<le> ?k" "?k \<le> length old" using Cons.prems chunks_fit_le[of "?k + length (ck_DelLines c)"] by force+
  have "take (?k - i) (drop i old) = take (?k - i) (drop (k + i) orig)"
    by (subst assms(1)[symmetric]) (use le in \<open>simp add: drop_take min_def add.commute\<close>)
  moreover have "edited (k + (?k + length (ck_DelLines c))) (map (shift k) cs @ rest) orig
      = edited (?k + length (ck_DelLines c)) cs old @ edited (k + length old) rest orig"
    by (rule Cons.IH) (use Cons.prems in simp)
  ultimately show ?case by (simp add: ac_simps)
qed

lemma replaces_drop_empty: "replaces (([], []) # bs) xs ys \<Longrightarrow> replaces bs xs ys"
proof (cases bs)
  case (Cons b bs')
  assume "replaces (([], []) # bs) xs ys"
  then obtain pre r s where e: "xs = pre @ r" "ys = pre @ s" "replaces bs r s" by auto
  obtain old new where b: "b = (old, new)" by fastforce
  with e(3) Cons obtain pre' r' s' where "r = pre' @ old @ r'" "s = pre' @ new @ s'" "replaces bs' r' s'" by auto
  then have "xs = (pre @ pre') @ old @ r' \<and> ys = (pre @ pre') @ new @ s' \<and> replaces bs' r' s'" using e by simp
  then show ?thesis unfolding Cons b replaces.simps by blast
qed auto

lemma replaces_mono: "(\<And>r s. replaces bs r s \<Longrightarrow> replaces bs' r s) \<Longrightarrow> replaces (b # bs) xs ys \<Longrightarrow> replaces (b # bs') xs ys"
  by (cases b) force

section \<open>Finding the context\<close>

lemma last_is_space: "\<forall>w\<in>set go_spaces. last w = CHR '' '' \<longrightarrow> w = '' ''"
proof -
  have n: "char_of (n::nat) = CHR '' '' \<longleftrightarrow> n mod 256 = 32" for n by (simp add: char_of_eq_iff take_bit_eq_mod)
  show ?thesis unfolding go_spaces_def bytes_def by (simp add: n del: char_of_eq_iff)
qed
lemma space_mem: "'' '' \<in> set go_spaces"
proof -
  have "map char_of [32 :: nat] = '' ''" by code_simp
  then show ?thesis unfolding go_spaces_def bytes_def by auto
qed

lemma space_last: "last_space (s @ '' '') = Some '' ''"
proof -
  have "last_space (s @ '' '') \<noteq> None"
    using space_mem unfolding last_space_def find_None_iff by (auto simp: suffix_def)
  then obtain w where w: "last_space (s @ '' '') = Some w" by blast
  then have "w \<in> set go_spaces" "suffix w (s @ '' '')" unfolding last_space_def by (auto dest: find_mem)
  then have "last w = CHR '' ''" "w \<in> set go_spaces" using go_spaces_nonempty by (auto simp: suffix_def) (metis last_appendR last_snoc)
  with last_is_space w show ?thesis by blast
qed

lemma trim_right_space: "trim_right (s @ '' '') = trim_right s"
  by (subst trim_right.simps) (simp add: space_last)

lemma trim_samples: "trim_space ''a'' = ''a''" "trim_space ''b'' = ''b''" "trim_space ''a '' = ''a''" "trim_space ''a  '' = ''a''"
proof -
  have p: "plain_char CHR ''a''" "plain_char CHR ''b''" by (simp_all add: plain_char_def)
  then show "trim_space ''a'' = ''a''" "trim_space ''b'' = ''b''" by (simp_all add: trim_space_plain1)
  then have r: "trim_right ''a'' = ''a''" using trim_left_fix[OF lead_space_plain[OF p(1)]] by (simp add: trim_space_def)
  show "trim_space ''a '' = ''a''" using trim_right_space[of "''a''"] r trim_left_fix[OF lead_space_plain[OF p(1)], of "'' ''"] by (simp add: trim_space_def)
  show "trim_space ''a  '' = ''a''" using trim_right_space[of "''a''"] trim_right_space[of "''a ''"] r
    trim_left_fix[OF lead_space_plain[OF p(1)], of "''  ''"] by (simp add: trim_space_def)
qed
lemma match_fuzz_values [simp]: "match_fuzz same_line = 0" "match_fuzz same_but_right = 1" "match_fuzz same_but_space = 1"
  by (simp_all add: match_fuzz_def same_line_def same_but_right_def same_but_space_def trim_blanks_def trim_samples)

lemma match_loop_found:
  "match_loop cmp ls ctx is = Inr (k, fz) \<Longrightarrow> k \<noteq> -1 \<Longrightarrow> ctx \<noteq> []
   \<Longrightarrow> k \<in> set is \<and> 0 \<le> k \<and> nat k + length ctx \<le> length ls \<and> fz = match_fuzz cmp
     \<and> list_all2 cmp (take (length ctx) (drop (nat k) ls)) ctx"
  by (induction "is") (auto split: if_splits)

lemma match_loop_missed: "match_loop cmp ls ctx is = Inr (-1, fz) \<Longrightarrow> ctx \<noteq> [] \<Longrightarrow> fz = 0"
  by (induction "is") (auto split: if_splits)

definition context_at :: "string list \<Rightarrow> string list \<Rightarrow> int \<Rightarrow> int \<Rightarrow> bool" where
  "context_at ls ctx k fz \<longleftrightarrow> 0 \<le> k \<and> 0 \<le> fz \<and> nat k + length ctx \<le> length ls
     \<and> (fz = 0 \<longrightarrow> take (length ctx) (drop (nat k) ls) = ctx)"

lemma list_all2_same_line: "list_all2 same_line xs ys \<longleftrightarrow> xs = ys"
  by (induction xs ys rule: list_induct2') (auto simp: same_line_def)

lemma first_match_found:
  "first_match ls ctx start cmps = Inr (k, fz) \<Longrightarrow> k \<noteq> -1 \<Longrightarrow> ctx \<noteq> []
   \<Longrightarrow> set cmps \<subseteq> {same_line, same_but_right, same_but_space} \<Longrightarrow> context_at ls ctx k fz \<and> start \<le> k"
proof (induction cmps)
  case (Cons cmp cmps)
  obtain j f where t: "tryFindMatch ls ctx start cmp = Inr (j, f)"
    using Cons.prems(1) by (auto split: sum.splits)
  show ?case
  proof (cases "0 \<le> j")
    case True
    then have "j = k" "f = fz" using Cons.prems(1) t by simp_all
    with t True Cons.prems have "k \<in> set [start..int (length ls) - 1] \<and> 0 \<le> k \<and> nat k + length ctx \<le> length ls \<and> fz = match_fuzz cmp
      \<and> list_all2 cmp (take (length ctx) (drop (nat k) ls)) ctx"
      unfolding tryFindMatch_def by (intro match_loop_found) auto
    moreover have "cmp = same_line \<or> cmp = same_but_right \<or> cmp = same_but_space" using Cons.prems(4) by auto
    ultimately show ?thesis by (auto simp: context_at_def list_all2_same_line)
  next
    case False
    with Cons t show ?thesis by simp
  qed
qed simp

lemma findContextCore_found:
  "findContextCore ls ctx start = Inr (k, fz) \<Longrightarrow> k \<noteq> -1 \<Longrightarrow> 0 \<le> start \<or> ctx \<noteq> [] \<Longrightarrow> start \<le> int (length ls)
   \<Longrightarrow> context_at ls ctx k fz \<and> start \<le> k"
  unfolding findContextCore_def
  by (cases "ctx = []") (auto simp: context_at_def simp del: first_match.simps dest!: first_match_found)

lemma findContext_found:
  assumes "findContext ls ctx start eof = Inr (k, fz)" "k \<noteq> -1" "0 \<le> start" "start \<le> int (length ls)"
  shows "context_at ls ctx k fz \<and> (\<not> eof \<longrightarrow> start \<le> k)"
proof (cases eof)
  case False
  with assms show ?thesis by (auto simp: findContext_def dest: findContextCore_found)
next
  case True
  let ?s = "int (length ls) - int (length ctx)"
  obtain j f where c: "findContextCore ls ctx ?s = Inr (j, f)"
    using assms(1) True by (auto simp: findContext_def split: sum.splits)
  show ?thesis
  proof (cases "j = -1")
    case False
    then have "j = k" "f = fz" using assms(1) True c by (simp_all add: findContext_def)
    with c False True findContextCore_found[OF c False] show ?thesis by (cases "ctx = []") auto
  next
    case j: True
    then obtain f' where "findContextCore ls ctx start = Inr (k, f')" "fz = f' + 10000"
      using assms(1) True c by (auto simp: findContext_def split: sum.splits)
    with findContextCore_found[OF this(1) assms(2)] assms True show ?thesis by (auto simp: context_at_def)
  qed
qed

section \<open>An update\<close>

definition placed :: "nat \<times> string list \<Rightarrow> Chunk list" where
  "placed s = map (shift (fst s)) (flush_chunk (section_of (snd s)))"

text \<open>A section placed in a file; \<open>exact\<close> if the file has the lines it expects as they are.\<close>

definition section_placed :: "string list \<Rightarrow> bool \<Rightarrow> nat \<times> string list \<Rightarrow> bool" where
  "section_placed file exact s \<longleftrightarrow>
     fst s + length (old_of (snd s)) \<le> length file
     \<and> (exact \<longrightarrow> take (length (old_of (snd s))) (drop (fst s) file) = old_of (snd s))"

text \<open>Each section begins no earlier than the one before it ends.\<close>

fun in_order :: "nat \<Rightarrow> (nat \<times> string list) list \<Rightarrow> bool" where
  "in_order i [] \<longleftrightarrow> True"
| "in_order i (s # ss) \<longleftrightarrow> i \<le> fst s \<and> in_order (fst s + length (old_of (snd s))) ss"

definition eof_line :: string where
  "eof_line = ''*** End of File''"

text \<open>
  A section that expects no lines goes where the one before it ends, after the line that stands
  behind two at signs in the part of the patch text, or at the end of the file if the part says so.
\<close>

fun landed :: "string list \<Rightarrow> string list \<Rightarrow> nat \<Rightarrow> (nat \<times> string list) list \<Rightarrow> bool" where
  "landed part file i [] \<longleftrightarrow> True"
| "landed part file i (s # ss) \<longleftrightarrow>
     (old_of (snd s) = [] \<longrightarrow> fst s = i \<or> 0 < fst s \<and> ''@@ '' @ file ! (fst s - 1) \<in> set part
        \<or> eof_line \<in> set part \<and> fst s = length file)
     \<and> landed part file (fst s + length (old_of (snd s))) ss"

lemma landed_mono: "set part \<subseteq> set part' \<Longrightarrow> landed part file i secs \<Longrightarrow> landed part' file i secs"
  by (induction secs arbitrary: i) auto

definition between :: "Parser \<Rightarrow> Parser \<Rightarrow> string list" where
  "between p q = take (ps_index q - ps_index p) (drop (ps_index p) (ps_lines p))"

definition same_input :: "Parser \<Rightarrow> Parser \<Rightarrow> bool" where
  "same_input p q \<longleftrightarrow> ps_lines q = ps_lines p \<and> ps_files q = ps_files p \<and> ps_patch q = ps_patch p
     \<and> ps_index p \<le> ps_index q \<and> ps_fuzz p \<le> ps_fuzz q
     \<and> (ps_index p \<le> length (ps_lines p) \<longrightarrow> ps_index q \<le> length (ps_lines p))"

lemma same_input_refl [simp]: "same_input p p"
  by (simp add: same_input_def)

lemma same_input_trans: "same_input p q \<Longrightarrow> same_input q r \<Longrightarrow> same_input p r"
  by (auto simp: same_input_def)

lemma take_between: "i \<le> j \<Longrightarrow> j \<le> k \<Longrightarrow> take (k - i) (drop i ls) = take (j - i) (drop i ls) @ take (k - j) (drop j ls)"
proof -
  assume le: "i \<le> j" "j \<le> k"
  then have "k - i = (j - i) + (k - j)" by simp
  then have "take (k - i) (drop i ls) = take ((j - i) + (k - j)) (drop i ls)" by (simp only:)
  also have "\<dots> = take (j - i) (drop i ls) @ take (k - j) (drop j ls)" using le by (simp only: take_add drop_drop) simp
  finally show ?thesis .
qed

lemma between_trans: "same_input p q \<Longrightarrow> same_input q r \<Longrightarrow> between p r = between p q @ between q r"
  using take_between[of "ps_index p" "ps_index q" "ps_index r" "ps_lines p"] by (simp add: between_def same_input_def)

lemma readStr_same: "readStr pre whole p = (t, q) \<Longrightarrow> same_input p q \<and> ps_fuzz q = ps_fuzz p"
  by (auto simp: readStr_def same_input_def Let_def split: if_splits)

lemma readStr_line: "readStr pre False p = (t, q) \<Longrightarrow> t \<noteq> [] \<Longrightarrow>
    between p q = [pre @ t] \<and> ps_index q = Suc (ps_index p) \<and> ps_index p < length (ps_lines p) \<and> ps_lines p ! ps_index p = pre @ t"
  by (auto simp: readStr_def between_def Let_def take_Suc_conv_app_nth has_prefix_def prefix_def hd_drop_conv_nth split: if_splits)

lemma readStr_between: "readStr pre whole p = (t, q) \<Longrightarrow> \<forall>l\<in>set (between p q). has_prefix l pre"
  by (auto simp: readStr_def between_def Let_def take_Suc_conv_app_nth hd_drop_conv_nth split: if_splits)

lemma seek_def_bounds: "seek_def ls d i = (j, fz) \<Longrightarrow> i \<le> length ls \<Longrightarrow> i \<le> j \<and> j \<le> length ls \<and> 0 \<le> fz"
  by (auto simp: seek_def_def find_Some_iff Suc_le_eq split: if_splits option.splits)

lemma seek_def_exact: "seek_def ls d i = (j, 0) \<Longrightarrow> j = i \<or> 0 < j \<and> ls ! (j - 1) = d \<and> d \<noteq> []"
  by (auto simp: seek_def_def find_Some_iff split: if_splits option.splits)

lemma findContext_nil: "findContext ls [] start eof = Inr (if eof then int (length ls) else start, 0) \<or> findContext ls [] start eof = Inr (start, 10000)"
  by (simp add: findContext_def findContextCore_def)

lemma add_ends_end_section: "starts_any add_ends l \<Longrightarrow> ends_section l \<and> \<not> has_prefix l ''@@'' \<and> l \<noteq> eof_line"
  by (auto simp: starts_any_def add_ends_def ends_section_def has_prefix_def prefix_def eof_line_def)

text \<open>
  One step reads at most two lines with two at signs, a section, and the end-of-file line if it
  stands there. What follows the section otherwise ends one.
\<close>

lemma update_step_placed:
  assumes "update_step ls p i cs = Inr (q, j, ds)" "i \<le> length ls"
  shows "\<exists>s h e. same_input p q \<and> j = fst s + length (old_of (snd s)) \<and> j \<le> length ls \<and> ds = cs @ placed s
    \<and> section_placed ls (ps_fuzz q = ps_fuzz p) s \<and> between p q = h @ snd s @ e
    \<and> (\<forall>l\<in>set h. has_prefix l ''@@'') \<and> (\<forall>l\<in>set (snd s). \<not> ends_section l)
    \<and> (ps_fuzz q = ps_fuzz p \<longrightarrow> landed (h @ snd s @ e) ls i [s])
    \<and> (e = [eof_line] \<or> e = [] \<and> i \<le> fst s \<and> (ps_index q < length (ps_lines q) \<longrightarrow> ends_section (ps_lines q ! ps_index q)))"
proof -
  obtain d p1 where r: "readStr ''@@ '' False p = (d, p1)" by fastforce
  define p2 where "p2 = (if d = [] \<and> ps_index p1 < length (ps_lines p1) \<and> ps_lines p1 ! ps_index p1 = ''@@''
    then p1\<lparr>ps_index := ps_index p1 + 1\<rparr> else p1)"
  obtain i1 fz1 where sk: "seek_def ls d i = (i1, fz1)" by fastforce
  define b where "b = section_body (ps_lines p2) (ps_index p2)"
  obtain ctx new nx eof where pk: "peekNextSection (ps_lines p2) (ps_index p2) = (ctx, new, nx, eof)" by (metis prod_cases4)
  let ?j = "ps_index p2 + length b"
  from pk have sec: "ctx = old_of b" "new = flush_chunk (section_of b)" "eof \<longleftrightarrow> ?j < length (ps_lines p2) \<and> ps_lines p2 ! ?j = eof_line"
    "nx = (if eof then ?j + 1 else ?j)"
    by (auto simp: peekNextSection_eq b_def Let_def section_edits(1) eof_line_def split: if_splits)
  have run: "\<exists>k fz. findContext ls ctx (int i1) eof = Inr (k, fz) \<and> k \<noteq> -1
      \<and> q = p2\<lparr>ps_fuzz := ps_fuzz p2 + fz1 + fz, ps_index := nx\<rparr> \<and> j = nat k + length ctx \<and> ds = cs @ placed (nat k, b)"
    using assms(1) r sk pk sec(2) unfolding update_step_def
    by (auto simp: p2_def[symmetric] placed_def shift_def Let_def split: if_splits sum.splits)
  then obtain k fz where f: "findContext ls ctx (int i1) eof = Inr (k, fz)" "k \<noteq> -1"
    and q: "q = p2\<lparr>ps_fuzz := ps_fuzz p2 + fz1 + fz, ps_index := nx\<rparr>" and j: "j = nat k + length ctx" "ds = cs @ placed (nat k, b)"
    by blast
  have i1: "i \<le> i1" "i1 \<le> length ls" "0 \<le> fz1" using seek_def_bounds[OF sk assms(2)] by auto
  with findContext_found[OF f] have at: "context_at ls ctx k fz" "\<not> eof \<longrightarrow> int i1 \<le> k" by auto
  have b_drop: "drop (ps_index p2) (ps_lines p2) = b @ drop ?j (ps_lines p2)" "\<forall>l\<in>set b. \<not> ends_section l"
    unfolding b_def section_body_def using set_takeWhileD
    by (metis add.commute drop_drop dropWhile_eq_drop takeWhile_dropWhile_id) (auto dest: set_takeWhileD)
  have b_len: "ps_index p2 \<le> length (ps_lines p2) \<longrightarrow> ?j \<le> length (ps_lines p2)"
    using length_takeWhile_le[of "\<lambda>s. \<not> ends_section s" "drop (ps_index p2) (ps_lines p2)"] by (auto simp: b_def section_body_def)
  have b_end: "?j < length (ps_lines p2) \<longrightarrow> ends_section (ps_lines p2 ! ?j)"
  proof
    assume l: "?j < length (ps_lines p2)"
    have "length b < length (drop (ps_index p2) (ps_lines p2))" using l by simp
    from nth_length_takeWhile[of "\<lambda>s. \<not> ends_section s", OF this[unfolded b_def section_body_def]] l
    show "ends_section (ps_lines p2 ! ?j)" by (simp add: b_def section_body_def)
  qed
  have p2: "same_input p p2" "ps_fuzz p2 = ps_fuzz p" "same_input p1 p2"
    using readStr_same[OF r] by (auto simp: p2_def same_input_def)
  have h: "\<forall>l\<in>set (between p p2). has_prefix l ''@@''"
  proof -
    have "between p p2 = between p p1 @ between p1 p2" using between_trans readStr_same[OF r] p2(3) by blast
    moreover have "\<forall>l\<in>set (between p1 p2). has_prefix l ''@@''"
      by (auto simp: p2_def between_def take_Suc_conv_app_nth hd_drop_conv_nth has_prefix_def)
    moreover have "\<forall>l\<in>set (between p p1). has_prefix l ''@@''"
      using readStr_between[OF r] by (auto simp: has_prefix_def prefix_def)
    ultimately show ?thesis by auto
  qed
  have sq: "same_input p2 q" using q sec(4) sec(3) b_len i1(3) at(1) by (auto simp: same_input_def context_at_def)
  have bt: "between p2 q = b @ (if eof then [eof_line] else [])"
    using b_drop(1) sec(3,4) q by (auto simp: between_def take_Suc_conv_app_nth)
  have "between p q = between p p2 @ b @ (if eof then [eof_line] else [])" using between_trans[OF p2(1) sq] bt by simp
  moreover have "same_input p q" using same_input_trans[OF p2(1) sq] .
  moreover have "ps_fuzz q = ps_fuzz p \<longrightarrow> fz = 0" using q p2(2) i1(3) at(1) by (auto simp: context_at_def)
  then have "section_placed ls (ps_fuzz q = ps_fuzz p) (nat k, b)"
    using at(1) sec(1) by (auto simp: section_placed_def context_at_def)
  moreover have "j = nat k + length (old_of b)" "j \<le> length ls" using j(1) sec(1) at(1) by (auto simp: context_at_def)
  moreover have "\<not> eof \<longrightarrow> i \<le> nat k" using at(2) i1(1) by auto
  moreover have "\<not> eof \<longrightarrow> ps_index q < length (ps_lines q) \<longrightarrow> ends_section (ps_lines q ! ps_index q)"
    using q sec(4) b_end by simp
  moreover have "landed (between p p2 @ b @ (if eof then [eof_line] else [])) ls i [(nat k, b)]" if exact: "ps_fuzz q = ps_fuzz p"
  proof (cases "old_of b = []")
    case True
    have z: "fz1 = 0" "fz = 0" using exact q p2(2) i1(3) at(1) by (auto simp: context_at_def)
    have k: "k = (if eof then int (length ls) else int i1)" using f(1) True sec(1) z(2) by (auto simp: findContext_def findContextCore_def split: if_splits)
    from seek_def_exact[of ls d i i1] sk z(1) have "i1 = i \<or> 0 < i1 \<and> ls ! (i1 - 1) = d \<and> d \<noteq> []" by simp
    moreover have "d \<noteq> [] \<Longrightarrow> ''@@ '' @ d \<in> set (between p p2)"
      using readStr_line[OF r] between_trans[OF conjunct1[OF readStr_same[OF r]] p2(3)] by simp
    ultimately show ?thesis using k by auto
  qed simp
  moreover have "(if eof then [eof_line] else []) = [eof_line] \<or> (if eof then [eof_line] else []) = []" by simp
  ultimately have "same_input p q \<and> j = fst (nat k, b) + length (old_of (snd (nat k, b))) \<and> j \<le> length ls \<and> ds = cs @ placed (nat k, b)
    \<and> section_placed ls (ps_fuzz q = ps_fuzz p) (nat k, b)
    \<and> between p q = between p p2 @ snd (nat k, b) @ (if eof then [eof_line] else [])
    \<and> (\<forall>l\<in>set (between p p2). has_prefix l ''@@'') \<and> (\<forall>l\<in>set (snd (nat k, b)). \<not> ends_section l)
    \<and> (ps_fuzz q = ps_fuzz p \<longrightarrow> landed (between p p2 @ snd (nat k, b) @ (if eof then [eof_line] else [])) ls i [(nat k, b)])
    \<and> ((if eof then [eof_line] else []) = [eof_line]
       \<or> (if eof then [eof_line] else []) = [] \<and> i \<le> fst (nat k, b)
         \<and> (ps_index q < length (ps_lines q) \<longrightarrow> ends_section (ps_lines q ! ps_index q)))"
    using h b_drop(2) j(2) unfolding fst_conv snd_conv by auto
  then show ?thesis by blast
qed

text \<open>What the steps of an update make of the lines they read.\<close>

definition file_update :: "string list \<Rightarrow> bool \<Rightarrow> string list \<Rightarrow> nat \<Rightarrow> (nat \<times> string list) list \<Rightarrow> bool" where
  "file_update file exact part i secs \<longleftrightarrow>
     (\<forall>s\<in>set secs. section_placed file exact s) \<and> filter (\<lambda>b. b \<noteq> []) (map snd secs) = blocks part
     \<and> (\<forall>l\<in>set part. \<not> starts_any add_ends l) \<and> (exact \<longrightarrow> landed part file i secs)
     \<and> (eof_line \<notin> set part \<longrightarrow> in_order i secs)"

definition update_result :: "string list \<Rightarrow> Parser \<Rightarrow> nat \<Rightarrow> Chunk list \<Rightarrow> Parser \<Rightarrow> Chunk list \<Rightarrow> bool" where
  "update_result file p i cs q ds \<longleftrightarrow> (\<exists>secs. same_input p q \<and> ds = cs @ concat (map placed secs)
     \<and> file_update file (ps_fuzz q = ps_fuzz p) (between p q) i secs)"

lemma section_placed_weaken: "section_placed file e s \<Longrightarrow> (e' \<longrightarrow> e) \<Longrightarrow> section_placed file e' s"
  by (auto simp: section_placed_def)

lemma file_update_weaken: "file_update file e part i secs \<Longrightarrow> (e' \<longrightarrow> e) \<Longrightarrow> file_update file e' part i secs"
  by (auto simp: file_update_def section_placed_def)

lemma between_self [simp]: "between p p = []"
  by (simp add: between_def)

lemma update_result_refl: "update_result file p i cs p cs"
  unfolding update_result_def by (intro exI[of _ "[]"]) (simp add: file_update_def)

lemma blocks_separators: "\<forall>l\<in>set h. ends_section l \<Longrightarrow> blocks (h @ ls) = blocks ls"
  by (induction h) auto

lemma blocks_section:
  assumes "\<forall>l\<in>set h. has_prefix l ''@@''" "\<forall>l\<in>set b. \<not> ends_section l" "e = [eof_line] \<or> e = [] \<and> (rest = [] \<or> ends_section (hd rest))"
  shows "blocks (h @ b @ e @ rest) = filter (\<lambda>b. b \<noteq> []) [b] @ blocks rest"
proof -
  have eof: "ends_section eof_line" by (simp add: ends_section_def eof_line_def has_prefix_def)
  have "blocks (h @ b @ e @ rest) = blocks (b @ e @ rest)" using assms(1) by (intro blocks_separators) (simp add: ends_section_def)
  also have "\<dots> = filter (\<lambda>b. b \<noteq> []) [b] @ blocks (e @ rest)"
    using blocks_run[OF assms(2), of "e @ rest"] assms(3) eof by auto
  also have "blocks (e @ rest) = blocks rest" using assms(3) eof by auto
  finally show ?thesis .
qed

lemma file_update_step:
  assumes "section_placed file exact s" "\<forall>l\<in>set h. has_prefix l ''@@''" "\<forall>l\<in>set (snd s). \<not> ends_section l"
    and "exact \<longrightarrow> landed (h @ snd s @ e) file i [s]"
    and "e = [eof_line] \<or> e = [] \<and> i \<le> fst s \<and> (rest = [] \<or> ends_section (hd rest))"
    and "file_update file exact rest (fst s + length (old_of (snd s))) secs"
  shows "file_update file exact (h @ snd s @ e @ rest) i (s # secs)"
proof -
  have "blocks (h @ snd s @ e @ rest) = filter (\<lambda>b. b \<noteq> []) [snd s] @ blocks rest"
    by (rule blocks_section[OF assms(2,3)]) (use assms(5) in blast)
  moreover have "\<forall>l\<in>set (h @ snd s @ e @ rest). \<not> starts_any add_ends l"
    using assms(2,3,5,6) add_ends_end_section by (auto simp: file_update_def)
  moreover have "landed (h @ snd s @ e @ rest) file i (s # secs)" if exact
  proof -
    have "landed (h @ snd s @ e @ rest) file i [s]" by (rule landed_mono[of "h @ snd s @ e"]) (use assms(4) that in auto)
    moreover have "landed (h @ snd s @ e @ rest) file (fst s + length (old_of (snd s))) secs"
      by (rule landed_mono[of rest]) (use assms(6) that in \<open>auto simp: file_update_def\<close>)
    ultimately show ?thesis by simp
  qed
  moreover have "eof_line \<notin> set (h @ snd s @ e @ rest) \<longrightarrow> in_order i (s # secs)"
    using assms(5,6) by (auto simp: file_update_def)
  ultimately show ?thesis using assms(1,6) by (auto simp: file_update_def)
qed

lemma update_result_step:
  assumes "update_step file p i cs = Inr (p1, i1, cs1)" "i \<le> length file" "update_result file p1 i1 cs1 q ds"
  shows "update_result file p i cs q ds"
proof -
  from update_step_placed[OF assms(1,2)] obtain s h e where s: "same_input p p1" "i1 = fst s + length (old_of (snd s))" "cs1 = cs @ placed s"
    "section_placed file (ps_fuzz p1 = ps_fuzz p) s" "between p p1 = h @ snd s @ e"
    and body: "\<forall>l\<in>set h. has_prefix l ''@@''" "\<forall>l\<in>set (snd s). \<not> ends_section l"
    and land: "ps_fuzz p1 = ps_fuzz p \<longrightarrow> landed (h @ snd s @ e) file i [s]"
    and e: "e = [eof_line] \<or> e = [] \<and> i \<le> fst s \<and> (ps_index p1 < length (ps_lines p1) \<longrightarrow> ends_section (ps_lines p1 ! ps_index p1))"
    by blast
  from assms(3) obtain secs where t: "same_input p1 q" "ds = cs1 @ concat (map placed secs)"
    "file_update file (ps_fuzz q = ps_fuzz p1) (between p1 q) i1 secs" unfolding update_result_def by blast
  have pq: "same_input p q" by (rule same_input_trans[OF s(1) t(1)])
  have ex: "ps_fuzz q = ps_fuzz p \<longrightarrow> ps_fuzz p1 = ps_fuzz p \<and> ps_fuzz q = ps_fuzz p1"
    using s(1) t(1) by (auto simp: same_input_def)
  have "between p1 q = [] \<or> hd (between p1 q) = ps_lines p1 ! ps_index p1 \<and> ps_index p1 < length (ps_lines p1)"
    by (auto simp: between_def hd_drop_conv_nth)
  then have e': "e = [eof_line] \<or> e = [] \<and> i \<le> fst s \<and> (between p1 q = [] \<or> ends_section (hd (between p1 q)))"
    using e by auto
  have "file_update file (ps_fuzz q = ps_fuzz p) (h @ snd s @ e @ between p1 q) i (s # secs)"
    by (rule file_update_step[OF section_placed_weaken[OF s(4)] body _ e' file_update_weaken[OF t(3)[unfolded s(2)]]])
      (use ex land in blast)+
  then have "file_update file (ps_fuzz q = ps_fuzz p) (between p q) i (s # secs)"
    using between_trans[OF s(1) t(1)] s(5) by simp
  then show ?thesis unfolding update_result_def using pq s(3) t(2) by (intro exI[of _ "s # secs"]) simp
qed

lemma update_loop_result:
  "update_loop orig p i cs = Some r \<Longrightarrow> i \<le> length orig \<longrightarrow> (\<forall>q ds. r = Inr (q, ds) \<longrightarrow> update_result orig p i cs q ds)"
proof (rule update_loop.raw_induct[of "\<lambda>orig p i cs r. i \<le> length orig \<longrightarrow> (\<forall>q ds. r = Inr (q, ds) \<longrightarrow> update_result orig p i cs q ds)"])
  fix loop orig p i cs r
  assume IH: "\<And>orig p i cs r. loop orig p i cs = Some r \<Longrightarrow> i \<le> length orig \<longrightarrow> (\<forall>q ds. r = Inr (q, ds) \<longrightarrow> update_result orig p i cs q ds)"
    and run: "(if isDone update_ends p then Some (Inr (p, cs)) else
        case update_step orig p i cs of Inl e \<Rightarrow> Some (Inl e) | Inr (p, i, cs) \<Rightarrow> loop orig p i cs) = Some r"
  show "i \<le> length orig \<longrightarrow> (\<forall>q ds. r = Inr (q, ds) \<longrightarrow> update_result orig p i cs q ds)"
  proof (intro impI allI)
    fix q ds
    assume i: "i \<le> length orig" and r: "r = Inr (q, ds)"
    show "update_result orig p i cs q ds"
    proof (cases "isDone update_ends p")
      case True
      with run r show ?thesis by (simp add: update_result_refl)
    next
      case False
      with run r obtain p1 i1 cs1 where st: "update_step orig p i cs = Inr (p1, i1, cs1)" and l: "loop orig p1 i1 cs1 = Some r"
        by (auto split: sum.splits)
      from IH[OF l] r update_step_placed[OF st i] have "update_result orig p1 i1 cs1 q ds" by blast
      with update_result_step[OF st i] show ?thesis .
    qed
  qed
qed

section \<open>What an accepted patch does\<close>

text \<open>
  An update the parser has made: \<open>n\<close> is the line that names the file, and its part of the text reaches
  up to \<open>m\<close>, where the parser stands or where a line ends the part.
\<close>

definition update_ok :: "Parser \<Rightarrow> string \<times> PatchAction \<Rightarrow> bool" where
  "update_ok p e \<longleftrightarrow> (pa_Type (snd e) = ActionUpdate \<longrightarrow>
     (\<exists>old secs n m. ps_files p (fst e) = Some old \<and> pa_Chunks (snd e) = concat (map placed secs)
        \<and> n < m \<and> m \<le> ps_index p \<and> m \<le> length (ps_lines p) \<and> ps_lines p ! n = ''*** Update File: '' @ fst e
        \<and> (m = ps_index p \<or> m < length (ps_lines p) \<and> starts_any add_ends (ps_lines p ! m))
        \<and> file_update (split_on CHR 0x0A old) (ps_fuzz p = 0) (take (m - Suc n) (drop (Suc n) (ps_lines p))) 0 secs))"

definition parser_ok :: "Parser \<Rightarrow> bool" where
  "parser_ok p \<longleftrightarrow> 0 \<le> ps_fuzz p \<and> ps_index p \<le> length (ps_lines p) \<and> (\<forall>e\<in>set (ps_patch p). update_ok p e)"

text \<open>A part that reached up to the parser is ended by the line that makes the parser go on.\<close>

definition goes_on :: "Parser \<Rightarrow> Parser \<Rightarrow> bool" where
  "goes_on p q \<longleftrightarrow> ps_lines q = ps_lines p \<and> ps_files q = ps_files p \<and> ps_fuzz p \<le> ps_fuzz q \<and> ps_index p \<le> ps_index q
     \<and> ps_index p < length (ps_lines p) \<and> starts_any add_ends (ps_lines p ! ps_index p)"

lemma update_ok_goes_on: "goes_on p q \<Longrightarrow> 0 \<le> ps_fuzz p \<Longrightarrow> update_ok p e \<Longrightarrow> update_ok q e"
proof -
  assume g: "goes_on p q" "0 \<le> ps_fuzz p" "update_ok p e"
  show "update_ok q e"
    unfolding update_ok_def
  proof
    assume "pa_Type (snd e) = ActionUpdate"
    with g(3) obtain old secs n m where o: "ps_files p (fst e) = Some old" "pa_Chunks (snd e) = concat (map placed secs)"
      "n < m" "m \<le> ps_index p" "m \<le> length (ps_lines p)" "ps_lines p ! n = ''*** Update File: '' @ fst e"
      "m = ps_index p \<or> m < length (ps_lines p) \<and> starts_any add_ends (ps_lines p ! m)"
      "file_update (split_on CHR 0x0A old) (ps_fuzz p = 0) (take (m - Suc n) (drop (Suc n) (ps_lines p))) 0 secs"
      unfolding update_ok_def by blast
    have "file_update (split_on CHR 0x0A old) (ps_fuzz q = 0) (take (m - Suc n) (drop (Suc n) (ps_lines p))) 0 secs"
      by (rule file_update_weaken[OF o(8)]) (use g(1,2) in \<open>auto simp: goes_on_def\<close>)
    then show "\<exists>old secs n m. ps_files q (fst e) = Some old \<and> pa_Chunks (snd e) = concat (map placed secs)
        \<and> n < m \<and> m \<le> ps_index q \<and> m \<le> length (ps_lines q) \<and> ps_lines q ! n = ''*** Update File: '' @ fst e
        \<and> (m = ps_index q \<or> m < length (ps_lines q) \<and> starts_any add_ends (ps_lines q ! m))
        \<and> file_update (split_on CHR 0x0A old) (ps_fuzz q = 0) (take (m - Suc n) (drop (Suc n) (ps_lines q))) 0 secs"
      using o(1-7) g(1) unfolding goes_on_def by (intro exI[of _ old] exI[of _ secs] exI[of _ n] exI[of _ m]) auto
  qed
qed

text \<open>What each kind of action appends to the patch.\<close>

definition appends :: "Parser \<Rightarrow> Parser \<Rightarrow> string \<Rightarrow> PatchAction \<Rightarrow> bool" where
  "appends p q path a \<longleftrightarrow> ps_lines q = ps_lines p \<and> ps_files q = ps_files p \<and> ps_patch q = ps_patch p @ [(path, a)]
     \<and> map_of (ps_patch p) path = None
     \<and> ps_index p \<le> ps_index q \<and> ps_fuzz p \<le> ps_fuzz q \<and> (ps_index p \<le> length (ps_lines p) \<longrightarrow> ps_index q \<le> length (ps_lines q))"

lemma appends_same: "same_input p p1 \<Longrightarrow> appends p1 q path a \<Longrightarrow> appends p q path a"
  by (auto simp: appends_def same_input_def)

lemma parse_update_appends:
  assumes "parse_update path p = Some (Inr q)"
  shows "\<exists>a old secs. appends p q path a \<and> ps_files p path = Some old \<and> pa_Chunks a = concat (map placed secs)
    \<and> file_update (split_on CHR 0x0A old) (ps_fuzz q = ps_fuzz p) (between p q) 0 secs"
proof -
  obtain m p1 where r: "readStr ''*** Move to: '' False p = (m, p1)" by fastforce
  note s1 = readStr_same[OF r]
  obtain old p2 cs where t: "ps_files p path = Some old" and u: "update_loop (split_on CHR 0x0A old) p1 0 [] = Some (Inr (p2, cs))"
    and fresh: "map_of (ps_patch p) path = None"
    and q: "q = add_action path \<lparr>pa_Type = ActionUpdate, pa_NewFile = None, pa_Chunks = cs, pa_MovePath = (if m \<noteq> [] then Some m else None)\<rparr> p2"
    using assms(1) r s1
    by (auto simp: parse_update_def parseUpdateFile_def same_input_def split: if_splits option.splits sum.splits)
  from update_loop_result[OF u] obtain secs where s2: "same_input p1 p2" and cs: "cs = concat (map placed secs)"
    and pl: "file_update (split_on CHR 0x0A old) (ps_fuzz p2 = ps_fuzz p1) (between p1 p2) 0 secs"
    by (auto simp: update_result_def)
  have s: "same_input p p2" by (rule same_input_trans[OF s1[THEN conjunct1] s2])
  have mv: "\<forall>l\<in>set (between p p1). ends_section l \<and> \<not> starts_any add_ends l \<and> l \<noteq> eof_line"
    using readStr_between[OF r] by (auto simp: ends_section_def starts_any_def add_ends_def has_prefix_def prefix_def eof_line_def)
  have bt: "between p q = between p p1 @ between p1 p2"
    using between_trans[OF s1[THEN conjunct1] s2] by (simp add: q add_action_def between_def)
  have "landed (between p p1 @ between p1 p2) (split_on CHR 0x0A old) 0 secs" if "ps_fuzz p2 = ps_fuzz p1"
    by (rule landed_mono[of "between p1 p2"]) (use pl that in \<open>auto simp: file_update_def\<close>)
  then have "file_update (split_on CHR 0x0A old) (ps_fuzz p2 = ps_fuzz p1) (between p p1 @ between p1 p2) 0 secs"
    using pl mv by (auto simp: file_update_def blocks_separators)
  moreover have "ps_fuzz q = ps_fuzz p \<longleftrightarrow> ps_fuzz p2 = ps_fuzz p1" using s1 by (simp add: q add_action_def)
  ultimately have "file_update (split_on CHR 0x0A old) (ps_fuzz q = ps_fuzz p) (between p q) 0 secs" unfolding bt by simp
  moreover have "appends p q path \<lparr>pa_Type = ActionUpdate, pa_NewFile = None, pa_Chunks = cs, pa_MovePath = (if m \<noteq> [] then Some m else None)\<rparr>"
    using s fresh by (auto simp: q appends_def add_action_def same_input_def)
  ultimately show ?thesis using t cs by (metis PatchAction.select_convs(3))
qed

lemma parse_delete_appends: "parse_delete path p = Inr q \<Longrightarrow> \<exists>a. appends p q path a \<and> pa_Type a \<noteq> ActionUpdate"
  by (auto simp: parse_delete_def appends_def add_action_def split: if_splits)

lemma add_loop_end: "add_loop rest i ls = Inr (j, ks) \<Longrightarrow> i \<le> j \<and> j \<le> i + length rest"
  by (induction rest i ls rule: add_loop.induct) (auto split: if_splits)

lemma parse_add_appends: "parse_add path p = Inr q \<Longrightarrow> \<exists>a. appends p q path a \<and> pa_Type a \<noteq> ActionUpdate"
  by (auto simp: parse_add_def parseAddFile_def appends_def add_action_def split: if_splits sum.splits dest!: add_loop_end)

lemma readStr_header:
  "readStr pre False p = (t, q) \<Longrightarrow> pre \<in> {''*** Update File: '', ''*** Delete File: '', ''*** Add File: ''}
   \<Longrightarrow> q = p \<and> t = [] \<or> ps_index p < length (ps_lines p) \<and> starts_any add_ends (ps_lines p ! ps_index p)"
  by (auto simp: readStr_def Let_def starts_any_def add_ends_def has_prefix_def prefix_def split: if_splits)

lemma parser_ok_appends:
  assumes "goes_on p q" "appends p q path a" "parser_ok p" "update_ok q (path, a)"
  shows "parser_ok q"
  using assms update_ok_goes_on[OF assms(1)] by (auto simp: parser_ok_def appends_def goes_on_def)

lemma parse_step_ok:
  assumes "parse_step p = Some (Inr q)" "parser_ok p"
  shows "parser_ok q \<and> goes_on p q \<and> (distinct (map fst (ps_patch p)) \<longrightarrow> distinct (map fst (ps_patch q)))"
proof -
  obtain a p1 where r1: "readStr ''*** Update File: '' False p = (a, p1)" by fastforce
  obtain b p2 where r2: "readStr ''*** Delete File: '' False p1 = (b, p2)" by fastforce
  obtain c p3 where r3: "readStr ''*** Add File: '' False p2 = (c, p3)" by fastforce
  have s: "same_input p p1" "same_input p p2" "same_input p p3"
    using readStr_same[OF r1] readStr_same[OF r2] readStr_same[OF r3] same_input_trans by blast+
  let ?h = "ps_index p < length (ps_lines p) \<and> starts_any add_ends (ps_lines p ! ps_index p)"
  have h: "p1 = p \<and> a = [] \<or> ?h" "p2 = p1 \<and> b = [] \<or> p1 \<noteq> p \<or> ?h" "p3 = p2 \<and> c = [] \<or> p2 \<noteq> p \<or> ?h"
    using readStr_header[OF r1] readStr_header[OF r2] readStr_header[OF r3] by auto
  have *: "\<exists>path act. appends p q path act \<and> update_ok q (path, act) \<and> ?h"
  proof -
    consider "a \<noteq> []" "parse_update a p1 = Some (Inr q)" | "b \<noteq> []" "parse_delete b p2 = Inr q" | "c \<noteq> []" "parse_add c p3 = Inr q"
      using assms(1) r1 r2 r3 by (auto simp: parse_step_def split: if_splits sum.splits)
    then show ?thesis
    proof cases
      case 1
      from parse_update_appends[OF 1(2)] obtain act old secs where u: "appends p1 q a act" "ps_files p1 a = Some old"
        "pa_Chunks act = concat (map placed secs)" "file_update (split_on CHR 0x0A old) (ps_fuzz q = ps_fuzz p1) (between p1 q) 0 secs"
        by blast
      note l = readStr_line[OF r1 1(1)]
      have "0 \<le> ps_fuzz p1" using assms(2) s(1) by (auto simp: parser_ok_def same_input_def)
      then have "file_update (split_on CHR 0x0A old) (ps_fuzz q = 0) (between p1 q) 0 secs"
        using u(1) by (intro file_update_weaken[OF u(4)]) (auto simp: appends_def)
      moreover have "between p1 q = take (ps_index q - Suc (ps_index p)) (drop (Suc (ps_index p)) (ps_lines q))"
        using l s(1) u(1) by (simp add: between_def same_input_def appends_def)
      moreover have "ps_index p < ps_index q" "ps_index q \<le> length (ps_lines q)" "ps_lines q ! ps_index p = ''*** Update File: '' @ a"
        "ps_files q a = Some old"
        using l s(1) u(1,2) assms(2) by (auto simp: appends_def same_input_def)
      ultimately have "update_ok q (a, act)" unfolding update_ok_def using u(3)
        by (intro impI exI[of _ old] exI[of _ secs] exI[of _ "ps_index p"] exI[of _ "ps_index q"]) simp
      moreover have ?h using l h(1) 1(1) by auto
      ultimately show ?thesis using appends_same[OF s(1) u(1)] by blast
    next
      case 2
      from parse_delete_appends[OF 2(2)] obtain act where act: "appends p2 q b act" "pa_Type act \<noteq> ActionUpdate" by blast
      have "update_ok q (b, act)" using act(2) by (simp add: update_ok_def)
      moreover have ?h using h(1,2) 2(1) by metis
      ultimately show ?thesis using appends_same[OF s(2) act(1)] by blast
    next
      case 3
      from parse_add_appends[OF 3(2)] obtain act where act: "appends p3 q c act" "pa_Type act \<noteq> ActionUpdate" by blast
      have "update_ok q (c, act)" using act(2) by (simp add: update_ok_def)
      moreover have ?h using h(3) 3(1) h(1,2) by metis
      ultimately show ?thesis using appends_same[OF s(3) act(1)] by blast
    qed
  qed
  then obtain path act where ap: "appends p q path act" "update_ok q (path, act)" ?h by blast
  have g: "goes_on p q" using ap by (simp add: appends_def goes_on_def)
  with parser_ok_appends[OF g ap(1) assms(2) ap(2)] ap(1) show ?thesis by (auto simp: appends_def map_of_eq_None_iff)
qed

lemma parse_loop_ok:
  "parse_loop p = Some r \<Longrightarrow> parser_ok p \<longrightarrow>
    (\<forall>q. r = Inr q \<longrightarrow> parser_ok q \<and> ps_lines q = ps_lines p \<and> ps_files q = ps_files p)"
proof (rule parse_loop.raw_induct[of
    "\<lambda>p r. parser_ok p \<longrightarrow> (\<forall>q. r = Inr q \<longrightarrow> parser_ok q \<and> ps_lines q = ps_lines p \<and> ps_files q = ps_files p)"])
  fix loop p r
  assume IH: "\<And>p r. loop p = Some r \<Longrightarrow> parser_ok p \<longrightarrow> (\<forall>q. r = Inr q \<longrightarrow> parser_ok q \<and> ps_lines q = ps_lines p \<and> ps_files q = ps_files p)"
    and run: "(if isDone [''*** End Patch''] p then Some (Inr p) else
        case parse_step p of None \<Rightarrow> None | Some (Inl e) \<Rightarrow> Some (Inl e) | Some (Inr p) \<Rightarrow> loop p) = Some r"
  show "parser_ok p \<longrightarrow> (\<forall>q. r = Inr q \<longrightarrow> parser_ok q \<and> ps_lines q = ps_lines p \<and> ps_files q = ps_files p)"
  proof (intro impI allI)
    fix q
    assume ok: "parser_ok p" and r: "r = Inr q"
    show "parser_ok q \<and> ps_lines q = ps_lines p \<and> ps_files q = ps_files p"
    proof (cases "isDone [''*** End Patch''] p")
      case True
      with run r ok show ?thesis by simp
    next
      case False
      with run r obtain p1 where st: "parse_step p = Some (Inr p1)" and l: "loop p1 = Some r"
        by (auto split: option.splits sum.splits)
      from parse_step_ok[OF st ok] IH[OF l] r show ?thesis by (simp add: goes_on_def)
    qed
  qed
qed

definition patch_lines :: "string \<Rightarrow> string list" where
  "patch_lines src = split_on CHR 0x0A (trim_space src)"

text \<open>
  The update of a file in an accepted patch: the line that names the file, and what the lines
  after it say.
\<close>

definition update_of :: "string list \<Rightarrow> string \<Rightarrow> bool \<Rightarrow> string \<Rightarrow> PatchAction \<Rightarrow> nat \<Rightarrow> (nat \<times> string list) list \<Rightarrow> bool" where
  "update_of ls old exact path a n secs \<longleftrightarrow> n < length ls \<and> ls ! n = ''*** Update File: '' @ path
     \<and> pa_Chunks a = concat (map placed secs) \<and> file_update (split_on CHR 0x0A old) exact (file_part ls n) 0 secs"

lemma file_part_take:
  assumes "n < m" "m < length ls" "starts_any add_ends (ls ! m)" "\<forall>l\<in>set (take (m - Suc n) (drop (Suc n) ls)). \<not> starts_any add_ends l"
  shows "file_part ls n = take (m - Suc n) (drop (Suc n) ls)"
proof -
  have "drop (m - Suc n) (drop (Suc n) ls) = ls ! m # drop (Suc m) ls"
    using assms(1,2) by (simp add: Cons_nth_drop_Suc)
  then have "drop (Suc n) ls = take (m - Suc n) (drop (Suc n) ls) @ ls ! m # drop (Suc m) ls"
    by (metis append_take_drop_id)
  then show ?thesis unfolding file_part_def using assms(3,4) by (metis (no_types, lifting) takeWhile.simps(2) takeWhile_append2 append_Nil2)
qed

lemma TextToPatch_ok:
  assumes "TextToPatch src orig = Some (Inr (patch, fz))" "(path, a) \<in> set patch" "pa_Type a = ActionUpdate"
  shows "\<exists>old n secs. orig path = Some old \<and> update_of (patch_lines src) old (fz = 0) path a n secs"
proof -
  let ?p = "(NewParser orig (patch_lines src))\<lparr>ps_index := 1\<rparr>"
  obtain q where q: "parse_loop ?p = Some (Inr q)" "ps_patch q = patch" "ps_fuzz q = fz"
    and e: "startsWith [''*** End Patch''] q = Inr True" and two: "1 \<le> length (patch_lines src)"
    using assms(1) by (auto simp: TextToPatch_def Parse_def patch_lines_def Let_def split: if_splits option.splits sum.splits)
  have "parser_ok ?p" using two by (simp add: parser_ok_def NewParser_def)
  with parse_loop_ok[OF q(1)] have ok: "parser_ok q" "ps_lines q = patch_lines src" "ps_files q = orig" by (auto simp: NewParser_def)
  have fin: "ps_index q < length (ps_lines q)" "starts_any add_ends (ps_lines q ! ps_index q)"
    using e by (auto simp: startsWith_def starts_any_def add_ends_def split: if_splits)
  have "update_ok q (path, a)" using ok(1) assms(2) q(2) by (auto simp: parser_ok_def)
  then obtain old secs n m where o: "orig path = Some old" "pa_Chunks a = concat (map placed secs)"
    "n < m" "m \<le> ps_index q" "patch_lines src ! n = ''*** Update File: '' @ path"
    "m = ps_index q \<or> m < length (ps_lines q) \<and> starts_any add_ends (ps_lines q ! m)"
    "file_update (split_on CHR 0x0A old) (fz = 0) (take (m - Suc n) (drop (Suc n) (patch_lines src))) 0 secs"
    using assms(3) q(3) ok(2,3) by (auto simp: update_ok_def)
  have "file_part (patch_lines src) n = take (m - Suc n) (drop (Suc n) (patch_lines src))"
    by (rule file_part_take) (use o fin ok(2) in \<open>auto simp: file_update_def\<close>)
  moreover have "n < length (patch_lines src)" using o(3,4) fin(1) ok(2) by simp
  ultimately have "update_of (patch_lines src) old (fz = 0) path a n secs" using o unfolding update_of_def by simp
  with o(1) show ?thesis by blast
qed

lemma chunks_fit_end: "chunks_fit i n cs \<Longrightarrow> c \<in> set cs \<Longrightarrow> ck_OrigIndex c + length (ck_DelLines c) \<le> n"
  by (induction cs arbitrary: i) (auto dest: chunks_fit_le)

lemma placed_end:
  "section_placed orig exact s \<Longrightarrow> c \<in> set (placed s) \<Longrightarrow> ck_OrigIndex c + length (ck_DelLines c) \<le> length orig"
  using chunks_fit_end[OF section_edits(2)] by (fastforce simp: placed_def section_placed_def)

lemma placed_found:
  assumes "section_placed orig True s" "c \<in> set (placed s)"
  shows "chunk_found orig c"
proof -
  obtain d where d: "d \<in> set (flush_chunk (section_of (snd s)))" and c: "c = shift (fst s) d"
    using assms(2) by (auto simp: placed_def)
  let ?old = "old_of (snd s)"
  have old: "take (length ?old) (drop (fst s) orig) = ?old" using assms(1) by (simp add: section_placed_def)
  have f: "chunk_found ?old d" using section_edits(4) d by blast
  have le: "ck_OrigIndex d + length (ck_DelLines d) \<le> length ?old" using chunks_fit_end[OF section_edits(2) d] .
  have "ck_DelLines d = take (length (ck_DelLines d)) (drop (ck_OrigIndex d) (take (length ?old) (drop (fst s) orig)))"
    using f unfolding old chunk_found_def by simp
  also have "\<dots> = take (length (ck_DelLines d)) (drop (ck_OrigIndex d + fst s) orig)"
    using le by (simp add: drop_take min_def)
  finally show ?thesis by (simp add: chunk_found_def c)
qed

text \<open>The chunks of sections that lie in order replace, section by section, what each expects by what it wants.\<close>

lemma placed_replaces:
  "in_order i secs \<Longrightarrow> i \<le> length file \<Longrightarrow> \<forall>s\<in>set secs. section_placed file True s
   \<Longrightarrow> chunks_fit i (length file) (concat (map placed secs))
     \<and> replaces (map (\<lambda>s. (old_of (snd s), new_of (snd s))) secs) (drop i file) (edited i (concat (map placed secs)) file)"
proof (induction secs arbitrary: i)
  case (Cons s secs)
  let ?k = "fst s" and ?old = "old_of (snd s)" and ?rest = "concat (map placed secs)"
  have pl: "?k + length ?old \<le> length file" "take (length ?old) (drop ?k file) = ?old" and le: "i \<le> ?k"
    using Cons.prems by (auto simp: section_placed_def)
  have IH: "chunks_fit (?k + length ?old) (length file) ?rest"
    "replaces (map (\<lambda>s. (old_of (snd s), new_of (snd s))) secs) (drop (?k + length ?old) file) (edited (?k + length ?old) ?rest file)"
    using Cons.IH[of "?k + length ?old"] Cons.prems pl(1) by auto
  have "chunks_fit ?k (?k + length ?old) (placed s)"
    using chunks_fit_shift[OF section_edits(2), of ?k] by (simp add: placed_def)
  from chunks_fit_append[OF this IH(1)] have fit: "chunks_fit ?k (length file) (placed s @ ?rest)" .
  have "edited ?k (placed s @ ?rest) file = new_of (snd s) @ edited (?k + length ?old) ?rest file"
    using edited_shift[OF pl(2) IH(1) pl(1) section_edits(2)[of "snd s"]] by (simp add: placed_def section_edits(3))
  then have ed: "edited i (placed s @ ?rest) file = take (?k - i) (drop i file) @ new_of (snd s) @ edited (?k + length ?old) ?rest file"
    using edited_from[OF fit le] pl(1) by simp
  have "drop i file = take (?k - i) (drop i file) @ drop ?k file"
    using le by (metis append_take_drop_id drop_drop le_add_diff_inverse2)
  also have "drop ?k file = ?old @ drop (?k + length ?old) file"
    using pl(2) by (metis add.commute append_take_drop_id drop_drop)
  finally have dr: "drop i file = take (?k - i) (drop i file) @ ?old @ drop (?k + length ?old) file" .
  have "\<exists>pre r t. drop i file = pre @ ?old @ r \<and> edited i (placed s @ ?rest) file = pre @ new_of (snd s) @ t
      \<and> replaces (map (\<lambda>s. (old_of (snd s), new_of (snd s))) secs) r t"
    using dr ed IH(2) by blast
  then show ?case using chunks_fit_weaken[OF le fit] by simp
qed simp

lemma replaces_filter:
  "replaces (map (\<lambda>b. (old_of b, new_of b)) bs) xs ys \<Longrightarrow> replaces (map (\<lambda>b. (old_of b, new_of b)) (filter (\<lambda>b. b \<noteq> []) bs)) xs ys"
proof (induction bs arbitrary: xs ys)
  case (Cons b bs)
  show ?case
  proof (cases "b = []")
    case True
    then have "replaces (([], []) # map (\<lambda>b. (old_of b, new_of b)) bs) xs ys" using Cons.prems by (simp add: old_of_def new_of_def)
    from Cons.IH[OF replaces_drop_empty[OF this]] True show ?thesis by simp
  next
    case False
    have "replaces ((old_of b, new_of b) # map (\<lambda>b. (old_of b, new_of b)) bs) xs ys" using Cons.prems by simp
    from replaces_mono[OF Cons.IH this] False show ?thesis by simp
  qed
qed simp

lemma file_update_replaces:
  assumes "file_update file True part 0 secs" "eof_line \<notin> set part"
  shows "replaces (map (\<lambda>b. (old_of b, new_of b)) (blocks part)) file (edited 0 (concat (map placed secs)) file)"
proof -
  have "in_order 0 secs" "\<forall>s\<in>set secs. section_placed file True s" and b: "filter (\<lambda>b. b \<noteq> []) (map snd secs) = blocks part"
    using assms by (auto simp: file_update_def)
  then have "replaces (map (\<lambda>b. (old_of b, new_of b)) (map snd secs)) file (edited 0 (concat (map placed secs)) file)"
    using placed_replaces[of 0 secs] by (simp add: comp_def)
  from replaces_filter[OF this] show ?thesis unfolding b .
qed

lemma concat_filter_map: "f [] = [] \<Longrightarrow> concat (map f (filter (\<lambda>b. b \<noteq> []) bs)) = concat (map f bs)"
  by (induction bs) auto

lemma file_update_marked:
  assumes "file_update file exact part i secs"
  shows "concat (map ck_DelLines (concat (map placed secs))) = marked CHR ''-'' part"
    "concat (map ck_InsLines (concat (map placed secs))) = marked CHR ''+'' part"
proof -
  have b: "blocks part = filter (\<lambda>b. b \<noteq> []) (map snd secs)" using assms by (simp add: file_update_def)
  have m: "marked c part = concat (map (\<lambda>s. marked c (snd s)) secs)" if "c \<noteq> CHR ''@''" "c \<noteq> CHR ''*''" for c
    using marked_blocks[OF that, of part] concat_filter_map[of "marked c" "map snd secs"] unfolding b by (simp add: marked_def comp_def)
  have d: "concat (map ck_DelLines (concat (map placed secs))) = concat (map (\<lambda>s. marked CHR ''-'' (snd s)) secs)"
    "concat (map ck_InsLines (concat (map placed secs))) = concat (map (\<lambda>s. marked CHR ''+'' (snd s)) secs)"
    by (induction secs) (simp_all add: placed_def chunks_marked comp_def)
  show "concat (map ck_DelLines (concat (map placed secs))) = marked CHR ''-'' part"
    "concat (map ck_InsLines (concat (map placed secs))) = marked CHR ''+'' part"
    unfolding d by (rule m[symmetric]; simp)+
qed

lemma PatchToCommit_error: "PatchToCommit patch orig = Inl e \<Longrightarrow> \<exists>(path, a) \<in> set patch. change_of orig path a = Inl e"
  by (induction patch orig rule: PatchToCommit.induct) (auto split: sum.splits)

lemma PatchToCommit_mem:
  "PatchToCommit patch orig = Inr commit \<Longrightarrow> map_of patch path = Some a \<Longrightarrow> \<exists>ch. change_of orig path a = Inr ch \<and> map_of commit path = Some ch"
  by (induction patch orig arbitrary: commit rule: PatchToCommit.induct) (auto split: sum.splits if_splits)

text \<open>
  C38: an accepted patch means what it says. Committing it, in whichever order its files are visited,
  never runs out of bounds. A file it updates is one that a line of the patch text names, and the
  file exists; its chunks are those of the sections its part of the text falls into, each put at a place of the
  file, and they delete the lines that part marks with a minus and insert those it marks with a plus, all
  of them, in the order of the text. The new content is what the chunks make of the old one. When no match
  was fuzzy, the file has the lines each section expects, as they are, where the section was
  put, the deleted lines are those of the file, and a section that expects no lines goes where the section before it ends,
  after the line named behind the at signs, or at a declared end of file. If besides no end of file
  was declared, the new content is the old one with, section after section, the expected lines
  replaced by the wanted ones.
\<close>

theorem accepted_patch_applies:
  assumes "TextToPatch src orig = Some (Inr (patch, fz))" "set visited = set patch" "distinct (map fst visited)"
  shows "PatchToCommit visited orig \<noteq> Inl IndexPanic
    \<and> (\<forall>commit path a. PatchToCommit visited orig = Inr commit \<and> map_of patch path = Some a \<and> pa_Type a = ActionUpdate \<longrightarrow>
        (\<exists>n part old file secs ls. n < length (patch_lines src) \<and> patch_lines src ! n = ''*** Update File: '' @ path
          \<and> part = file_part (patch_lines src) n \<and> orig path = Some old \<and> file = split_on CHR 0x0A old
          \<and> map_of commit path = Some \<lparr>fc_Type = ActionUpdate, fc_OldContent = Some old,
                fc_NewContent = Some (join newline_text ls), fc_MovePath = pa_MovePath a\<rparr>
          \<and> ls = edited 0 (pa_Chunks a) file \<and> pa_Chunks a = concat (map placed secs)
          \<and> filter (\<lambda>b. b \<noteq> []) (map snd secs) = blocks part
          \<and> concat (map ck_DelLines (pa_Chunks a)) = marked CHR ''-'' part
          \<and> concat (map ck_InsLines (pa_Chunks a)) = marked CHR ''+'' part
          \<and> (fz = 0 \<longrightarrow> (\<forall>s\<in>set secs. take (length (old_of (snd s))) (drop (fst s) file) = old_of (snd s))
               \<and> landed part file 0 secs \<and> replaces (map (\<lambda>c. (ck_DelLines c, ck_InsLines c)) (pa_Chunks a)) file ls)
          \<and> (fz = 0 \<and> eof_line \<notin> set part \<longrightarrow>
               in_order 0 secs \<and> replaces (map (\<lambda>b. (old_of b, new_of b)) (blocks part)) file ls)))"
proof (intro conjI allI impI)
  note upd = TextToPatch_ok[OF assms(1)]
  show "PatchToCommit visited orig \<noteq> Inl IndexPanic"
  proof
    assume "PatchToCommit visited orig = Inl IndexPanic"
    then obtain path a where a: "(path, a) \<in> set patch" "change_of orig path a = Inl IndexPanic"
      using PatchToCommit_error assms(2) by fastforce
    then have t: "pa_Type a = ActionUpdate" by (auto simp: change_of_def split: ActionType.splits)
    from upd[OF a(1) t] obtain old secs where o: "orig path = Some old" "pa_Chunks a = concat (map placed secs)"
      "\<forall>s\<in>set secs. section_placed (split_on CHR 0x0A old) (fz = 0) s" by (auto simp: update_of_def file_update_def)
    have "chunk_loop path (split_on CHR 0x0A old) 0 [] (pa_Chunks a) \<noteq> Inl IndexPanic"
      by (rule chunk_loop_no_panic) (use o placed_end in auto)
    with a(2) t o(1) show False by (auto simp: change_of_def getUpdatedFile_def old_content_def split: sum.splits)
  qed
  fix commit path a
  assume "PatchToCommit visited orig = Inr commit \<and> map_of patch path = Some a \<and> pa_Type a = ActionUpdate"
  then have c: "PatchToCommit visited orig = Inr commit" and m: "map_of patch path = Some a" and t: "pa_Type a = ActionUpdate" by auto
  from upd[OF map_of_SomeD[OF m] t] obtain old n secs where old: "orig path = Some old"
    and u: "update_of (patch_lines src) old (fz = 0) path a n secs" by blast
  let ?file = "split_on CHR 0x0A old" and ?part = "file_part (patch_lines src) n"
  have cs: "pa_Chunks a = concat (map placed secs)" and fu: "file_update ?file (fz = 0) ?part 0 secs"
    and hd: "n < length (patch_lines src)" "patch_lines src ! n = ''*** Update File: '' @ path"
    using u by (simp_all add: update_of_def)
  have "map_of visited path = Some a" using assms(2,3) map_of_SomeD[OF m] by (simp add: map_of_eq_Some_iff)
  from PatchToCommit_mem[OF c this] obtain ch where ch: "change_of orig path a = Inr ch" "map_of commit path = Some ch" by blast
  then obtain ls where l: "chunk_loop path ?file 0 [] (pa_Chunks a) = Inr ls"
    and cheq: "ch = \<lparr>fc_Type = ActionUpdate, fc_OldContent = Some old, fc_NewContent = Some (join newline_text ls), fc_MovePath = pa_MovePath a\<rparr>"
    using t old by (auto simp: change_of_def getUpdatedFile_def old_content_def split: sum.splits)
  have ed: "chunks_fit 0 (length ?file) (pa_Chunks a)" "ls = edited 0 (pa_Chunks a) ?file"
    using chunk_loop_edited[OF l] by simp_all
  have "replaces (map (\<lambda>c. (ck_DelLines c, ck_InsLines c)) (pa_Chunks a)) ?file ls" if "fz = 0"
    using edited_replaces[OF ed(1)] fu placed_found that unfolding ed(2) cs by (fastforce simp: file_update_def)
  moreover have "replaces (map (\<lambda>b. (old_of b, new_of b)) (blocks ?part)) ?file ls" if "fz = 0" "eof_line \<notin> set ?part"
    using file_update_replaces[OF _ that(2)] fu that(1) unfolding ed(2) cs by simp
  moreover have "filter (\<lambda>b. b \<noteq> []) (map snd secs) = blocks ?part"
    "fz = 0 \<Longrightarrow> \<forall>s\<in>set secs. take (length (old_of (snd s))) (drop (fst s) ?file) = old_of (snd s)"
    "fz = 0 \<Longrightarrow> landed ?part ?file 0 secs" "eof_line \<notin> set ?part \<Longrightarrow> in_order 0 secs"
    using fu by (simp_all add: file_update_def section_placed_def)
  moreover have "map_of commit path = Some \<lparr>fc_Type = ActionUpdate, fc_OldContent = Some old,
      fc_NewContent = Some (join newline_text ls), fc_MovePath = pa_MovePath a\<rparr>" using ch(2) cheq by simp
  moreover have "concat (map ck_DelLines (pa_Chunks a)) = marked CHR ''-'' ?part" "concat (map ck_InsLines (pa_Chunks a)) = marked CHR ''+'' ?part"
    using file_update_marked[OF fu] cs by simp_all
  moreover note facts = calculation
  show "\<exists>n part old file secs ls. n < length (patch_lines src) \<and> patch_lines src ! n = ''*** Update File: '' @ path
      \<and> part = file_part (patch_lines src) n \<and> orig path = Some old \<and> file = split_on CHR 0x0A old
      \<and> map_of commit path = Some \<lparr>fc_Type = ActionUpdate, fc_OldContent = Some old,
            fc_NewContent = Some (join newline_text ls), fc_MovePath = pa_MovePath a\<rparr>
      \<and> ls = edited 0 (pa_Chunks a) file \<and> pa_Chunks a = concat (map placed secs)
      \<and> filter (\<lambda>b. b \<noteq> []) (map snd secs) = blocks part
      \<and> concat (map ck_DelLines (pa_Chunks a)) = marked CHR ''-'' part
      \<and> concat (map ck_InsLines (pa_Chunks a)) = marked CHR ''+'' part
      \<and> (fz = 0 \<longrightarrow> (\<forall>s\<in>set secs. take (length (old_of (snd s))) (drop (fst s) file) = old_of (snd s))
           \<and> landed part file 0 secs \<and> replaces (map (\<lambda>c. (ck_DelLines c, ck_InsLines c)) (pa_Chunks a)) file ls)
      \<and> (fz = 0 \<and> eof_line \<notin> set part \<longrightarrow>
           in_order 0 secs \<and> replaces (map (\<lambda>b. (old_of b, new_of b)) (blocks part)) file ls)"
    by (rule exI[of _ n], rule exI[of _ ?part], rule exI[of _ old], rule exI[of _ ?file], rule exI[of _ secs], rule exI[of _ ls],
      intro conjI impI; (elim conjE)?; (fact | simp add: facts))
qed

text \<open>One file of three lines, whose second line a patch replaces.\<close>

definition sample_patch_lines :: "string list" where
  "sample_patch_lines = [''*** Begin Patch'', ''*** Update File: a'', ''@@'', '' x'', ''-y'', ''+v'', '' z'', ''*** End Patch'']"

definition sample_orig :: "string \<rightharpoonup> string" where
  "sample_orig = [''a'' \<mapsto> join newline_text [''x'', ''y'', ''z'']]"

definition sample_chunk :: Chunk where
  "sample_chunk = \<lparr>ck_OrigIndex = 1, ck_DelLines = [''y''], ck_InsLines = [''v'']\<rparr>"

definition sample_action :: PatchAction where
  "sample_action = \<lparr>pa_Type = ActionUpdate, pa_NewFile = None, pa_Chunks = [sample_chunk], pa_MovePath = None\<rparr>"

declare update_loop.simps [code] parse_loop.simps [code]

lemma sample_patch_trimmed: "trim_space (join newline_text sample_patch_lines) = join newline_text sample_patch_lines"
  by (rule trim_space_ends) (simp_all add: sample_patch_lines_def newline_text_def plain_char_def)

lemma sample_patch_lines: "patch_lines (join newline_text sample_patch_lines) = sample_patch_lines"
  unfolding patch_lines_def sample_patch_trimmed by code_simp

lemma sample_patch_parses: "TextToPatch (join newline_text sample_patch_lines) sample_orig = Some (Inr ([(''a'', sample_action)], 0))"
  unfolding TextToPatch_def sample_patch_trimmed by code_simp

definition sample_commit :: Commit where
  "sample_commit = [(''a'', \<lparr>fc_Type = ActionUpdate, fc_OldContent = Some (join newline_text [''x'', ''y'', ''z'']),
     fc_NewContent = Some (join newline_text [''x'', ''v'', ''z'']), fc_MovePath = None\<rparr>)]"

lemma sample_patch_commits: "PatchToCommit [(''a'', sample_action)] sample_orig = Inr sample_commit"
  by code_simp

lemma sample_part: "n < length sample_patch_lines \<Longrightarrow> sample_patch_lines ! n = ''*** Update File: a'' \<Longrightarrow>
    blocks (file_part sample_patch_lines n) = [['' x'', ''-y'', ''+v'', '' z'']]
    \<and> eof_line \<notin> set (file_part sample_patch_lines n)"
proof -
  assume n: "n < length sample_patch_lines" "sample_patch_lines ! n = ''*** Update File: a''"
  have "list_all (\<lambda>n. sample_patch_lines ! n = ''*** Update File: a'' \<longrightarrow> n = 1) [0..<8]" by code_simp
  with n have "n = 1" by (simp add: list_all_iff sample_patch_lines_def)
  moreover have "blocks (file_part sample_patch_lines 1) = [['' x'', ''-y'', ''+v'', '' z'']]
      \<and> list_all (\<lambda>l. l \<noteq> eof_line) (file_part sample_patch_lines 1)" by code_simp
  ultimately show ?thesis by (auto simp: list_all_iff)
qed

theorem accepted_patch_applies_witness:
  "TextToPatch (join newline_text sample_patch_lines) sample_orig = Some (Inr ([(''a'', sample_action)], 0))
    \<and> PatchToCommit [(''a'', sample_action)] sample_orig = Inr sample_commit
    \<and> (\<exists>ls. join newline_text ls = join newline_text [''x'', ''v'', ''z'']
        \<and> replaces [([''x'', ''y'', ''z''], [''x'', ''v'', ''z''])] [''x'', ''y'', ''z''] ls)"
proof -
  have "distinct (map fst [(''a'', sample_action)])" by simp
  note applies = conjunct2[OF accepted_patch_applies[OF sample_patch_parses refl this], rule_format, of sample_commit "''a''" sample_action]
  have a: "map_of [(''a'', sample_action)] ''a'' = Some sample_action" "pa_Type sample_action = ActionUpdate"
    by (simp_all add: sample_action_def)
  from applies[OF conjI[OF sample_patch_commits conjI[OF a]]]
  obtain n old ls where n: "n < length sample_patch_lines" "sample_patch_lines ! n = ''*** Update File: a''"
    and o: "sample_orig ''a'' = Some old" "map_of sample_commit ''a'' = Some \<lparr>fc_Type = ActionUpdate, fc_OldContent = Some old,
      fc_NewContent = Some (join newline_text ls), fc_MovePath = pa_MovePath sample_action\<rparr>"
    and r: "eof_line \<notin> set (file_part sample_patch_lines n) \<Longrightarrow>
      replaces (map (\<lambda>b. (old_of b, new_of b)) (blocks (file_part sample_patch_lines n))) (split_on CHR 0x0A old) ls"
    unfolding sample_patch_lines by auto
  have "split_on CHR 0x0A (the (sample_orig ''a'')) = [''x'', ''y'', ''z'']" by code_simp
  moreover have "old_of ['' x'', ''-y'', ''+v'', '' z''] = [''x'', ''y'', ''z'']" "new_of ['' x'', ''-y'', ''+v'', '' z''] = [''x'', ''v'', ''z'']"
    by code_simp+
  ultimately have "replaces [([''x'', ''y'', ''z''], [''x'', ''v'', ''z''])] [''x'', ''y'', ''z''] ls"
    using r sample_part[OF n] o(1) by simp
  moreover have "join newline_text ls = join newline_text [''x'', ''v'', ''z'']" using o by (simp add: sample_commit_def)
  ultimately show ?thesis using sample_patch_commits sample_patch_parses by blast
qed

section \<open>Parsing ends\<close>

text \<open>Lines that begin like a marker are one.\<close>

definition known_line :: "string \<Rightarrow> bool" where
  "known_line l \<longleftrightarrow> (has_prefix l ''***'' \<longrightarrow> starts_any update_ends l) \<and> (has_prefix l ''@@'' \<longrightarrow> l = ''@@'' \<or> has_prefix l ''@@ '')"

lemma readStr_progress:
  "readStr pre whole p = (t, q) \<Longrightarrow> pre \<noteq> [] \<Longrightarrow>
    ps_index p < ps_index q \<or> q = p \<and> t = [] \<and> (ps_index p < length (ps_lines p) \<longrightarrow> \<not> has_prefix (ps_lines p ! ps_index p) pre)"
  by (auto simp: readStr_def Let_def split: if_splits)

lemma peek_progress:
  assumes "peekNextSection ls i = (ctx, new, nx, eof)" "i < length ls" "\<not> ends_section (ls ! i)"
  shows "i < nx"
proof -
  have "drop i ls = ls ! i # drop (Suc i) ls" using assms(2) by (simp add: Cons_nth_drop_Suc)
  then have "section_body ls i \<noteq> []" using assms(3) by (simp add: section_body_def)
  with assms(1) show ?thesis by (auto simp: peekNextSection_eq Let_def split: if_splits)
qed

lemma update_step_progress:
  assumes "update_step ls p i cs = Inr (q, j, ds)" "\<not> isDone update_ends p" "\<forall>l\<in>set (ps_lines p). known_line l"
  shows "ps_index p < ps_index q"
proof -
  obtain d p1 where r: "readStr ''@@ '' False p = (d, p1)" by fastforce
  define bare where "bare \<longleftrightarrow> d = [] \<and> ps_index p1 < length (ps_lines p1) \<and> ps_lines p1 ! ps_index p1 = ''@@''"
  define p2 where "p2 = (if bare then p1\<lparr>ps_index := ps_index p1 + 1\<rparr> else p1)"
  obtain ctx new nx eof where pk: "peekNextSection (ps_lines p2) (ps_index p2) = (ctx, new, nx, eof)" by (metis prod_cases4)
  have le: "ps_index p2 \<le> nx" using pk by (auto simp: peekNextSection_eq Let_def split: if_splits)
  have q: "ps_index q = nx"
    using assms(1) r pk unfolding update_step_def
    by (auto simp: bare_def[symmetric] p2_def[symmetric] Let_def split: if_splits sum.splits prod.splits)
  consider "ps_index p < ps_index p1" | "p1 = p" "bare" | "p1 = p" "\<not> bare" "d = []" "\<not> has_prefix (ps_lines p ! ps_index p) ''@@ ''"
    using readStr_progress[OF r] assms(2) by (auto simp: isDone_def)
  then show ?thesis
  proof cases
    case 3
    let ?l = "ps_lines p ! ps_index p"
    have n: "ps_index p < length (ps_lines p)" "\<not> starts_any update_ends ?l" using assms(2) by (auto simp: isDone_def)
    then have "known_line ?l" using assms(3) by simp
    then have "\<not> ends_section ?l" using 3 n by (auto simp: known_line_def ends_section_def bare_def)
    with 3 n pk have "ps_index p2 < nx" using peek_progress[OF pk] by (simp add: p2_def)
    with 3 q show ?thesis by (simp add: p2_def)
  qed (use le q in \<open>auto simp: p2_def split: if_splits\<close>)
qed

lemma update_loop_returns:
  assumes "\<forall>l\<in>set (ps_lines p). known_line l" "i \<le> length ls"
  shows "\<exists>r. update_loop ls p i cs = Some r"
  using assms
proof (induction "length (ps_lines p) - ps_index p" arbitrary: p i cs rule: less_induct)
  case less
  show ?case
  proof (cases "isDone update_ends p")
    case True
    then show ?thesis by (subst update_loop.simps) simp
  next
    case False
    show ?thesis
    proof (cases "update_step ls p i cs")
      case (Inl e)
      with False show ?thesis by (subst update_loop.simps) simp
    next
      case (Inr t)
      then obtain q j ds where st: "update_step ls p i cs = Inr (q, j, ds)" by (cases t) auto
      have "same_input p q" "j \<le> length ls" using update_step_placed[OF st less.prems(2)] by blast+
      moreover have "ps_index p < ps_index q" by (rule update_step_progress[OF st False less.prems(1)])
      ultimately have "\<exists>r. update_loop ls q j ds = Some r"
        using less.hyps[of q j ds] less.prems(1) False by (auto simp: same_input_def isDone_def)
      with False st show ?thesis by (subst update_loop.simps) simp
    qed
  qed
qed

lemma add_loop_index: "add_loop rest i ls = Inr (j, ks) \<Longrightarrow> i \<le> j"
  by (induction rest i ls rule: add_loop.induct) (auto split: if_splits)

lemma parse_update_returns:
  assumes "\<forall>l\<in>set (ps_lines p). known_line l"
  shows "\<exists>r. parse_update path p = Some r \<and> (\<forall>q. r = Inr q \<longrightarrow> ps_lines q = ps_lines p \<and> ps_index p \<le> ps_index q)"
proof -
  obtain m p1 where r: "readStr ''*** Move to: '' False p = (m, p1)" by fastforce
  note s1 = conjunct1[OF readStr_same[OF r]]
  consider "map_of (ps_patch p) path \<noteq> None \<or> ps_files p1 path = None"
    | src where "map_of (ps_patch p) path = None" "ps_files p1 path = Some src" by blast
  then show ?thesis
  proof cases
    case 1
    with r show ?thesis by (auto simp: parse_update_def)
  next
    case (2 src)
    have "\<forall>l\<in>set (ps_lines p1). known_line l" using assms s1 by (simp add: same_input_def)
    then obtain res where u: "update_loop (split_on CHR 0x0A src) p1 0 [] = Some res" using update_loop_returns by blast
    show ?thesis
    proof (cases res)
      case (Inl e)
      with 2 r u show ?thesis by (simp add: parse_update_def parseUpdateFile_def)
    next
      case (Inr t)
      then obtain q ds where res: "res = Inr (q, ds)" by (cases t) auto
      have "same_input p1 q" using update_loop_result[OF u] res by (auto simp: update_result_def)
      with 2 r u s1 res show ?thesis by (simp add: parse_update_def parseUpdateFile_def same_input_def add_action_def)
    qed
  qed
qed

lemma parse_step_returns:
  assumes "\<forall>l\<in>set (ps_lines p). known_line l"
  shows "\<exists>r. parse_step p = Some r \<and> (\<forall>q. r = Inr q \<longrightarrow> ps_lines q = ps_lines p \<and> ps_index p < ps_index q)"
proof -
  obtain a p1 where r1: "readStr ''*** Update File: '' False p = (a, p1)" by fastforce
  obtain b p2 where r2: "readStr ''*** Delete File: '' False p1 = (b, p2)" by fastforce
  obtain c p3 where r3: "readStr ''*** Add File: '' False p2 = (c, p3)" by fastforce
  have s: "same_input p p1" "same_input p1 p2" "same_input p2 p3"
    using readStr_same[OF r1] readStr_same[OF r2] readStr_same[OF r3] by blast+
  have g: "a \<noteq> [] \<Longrightarrow> ps_index p < ps_index p1" "b \<noteq> [] \<Longrightarrow> ps_index p1 < ps_index p2" "c \<noteq> [] \<Longrightarrow> ps_index p2 < ps_index p3"
    using readStr_progress[OF r1] readStr_progress[OF r2] readStr_progress[OF r3] by auto
  have d: "ps_lines q = ps_lines p2 \<and> ps_index q = ps_index p2" if "parse_delete b p2 = Inr q" for q
    using that by (auto simp: parse_delete_def add_action_def split: if_splits)
  have e: "ps_lines q = ps_lines p3 \<and> ps_index p3 \<le> ps_index q" if "parse_add c p3 = Inr q" for q
    using that by (auto simp: parse_add_def parseAddFile_def add_action_def split: if_splits sum.splits dest: add_loop_index)
  consider "a \<noteq> []" | "a = []" "b \<noteq> []" | "a = []" "b = []" "c \<noteq> []" | "a = []" "b = []" "c = []" by blast
  then show ?thesis
  proof cases
    case 1
    have "\<forall>l\<in>set (ps_lines p1). known_line l" using assms s(1) by (simp add: same_input_def)
    from parse_update_returns[OF this, of a] 1 r1 s(1) g(1) show ?thesis
      by (auto simp: parse_step_def same_input_def)
  next
    case 2
    with r1 r2 s g d show ?thesis by (auto simp: parse_step_def same_input_def)
  next
    case 3
    have "ps_index p < ps_index q" if "parse_add c p3 = Inr q" for q
      using e[OF that] g(3)[OF 3(3)] s by (auto simp: same_input_def)
    with 3 r1 r2 r3 s e show ?thesis by (auto simp: parse_step_def same_input_def)
  next
    case 4
    with r1 r2 r3 show ?thesis by (auto simp: parse_step_def split: sum.splits)
  qed
qed

lemma parse_loop_returns: "\<forall>l\<in>set (ps_lines p). known_line l \<Longrightarrow> \<exists>r. parse_loop p = Some r"
proof (induction "length (ps_lines p) - ps_index p" arbitrary: p rule: less_induct)
  case less
  show ?case
  proof (cases "isDone [''*** End Patch''] p")
    case True
    then show ?thesis by (subst parse_loop.simps) simp
  next
    case False
    from parse_step_returns[OF less.prems] obtain r where r: "parse_step p = Some r"
      "\<forall>q. r = Inr q \<longrightarrow> ps_lines q = ps_lines p \<and> ps_index p < ps_index q" by blast
    show ?thesis
    proof (cases r)
      case (Inl e)
      with False r show ?thesis by (subst parse_loop.simps) simp
    next
      case (Inr q)
      with r(2) less False have "\<exists>r. parse_loop q = Some r" by (auto simp: isDone_def)
      with False r Inr show ?thesis by (subst parse_loop.simps) simp
    qed
  qed
qed

text \<open>
  parsing returns, with a patch or an error, for every text whose lines that begin like a
  marker are markers.
\<close>

theorem patch_parse_returns:
  assumes "\<forall>l\<in>set (patch_lines src). known_line l"
  shows "\<exists>r. TextToPatch src orig = Some r"
proof -
  have "\<exists>r. parse_loop ((NewParser orig (patch_lines src))\<lparr>ps_index := 1\<rparr>) = Some r"
    by (rule parse_loop_returns) (use assms in \<open>simp add: NewParser_def\<close>)
  then obtain r where "parse_loop ((NewParser orig (patch_lines src))\<lparr>ps_index := 1\<rparr>) = Some r" by blast
  then show ?thesis by (cases r) (auto simp: TextToPatch_def Parse_def Let_def patch_lines_def split: sum.splits)
qed

section \<open>Where it does not hold\<close>

text \<open>A line of stars that is no marker, first in the body of an update, is looked at for ever.\<close>

lemma stuck_update:
  assumes "update_step ls p i cs = Inr (p, i, cs)" "\<not> isDone update_ends p"
  shows "update_loop ls p i cs = None"
proof -
  have "update_loop ls' p' i' cs' = Some r \<Longrightarrow> (ls', p', i', cs') \<noteq> (ls, p, i, cs)" for ls' p' i' cs' r
  proof (rule update_loop.raw_induct[of "\<lambda>ls' p' i' cs' r. (ls', p', i', cs') \<noteq> (ls, p, i, cs)"])
    fix loop ls' p' i' cs' r
    assume IH: "\<And>ls' p' i' cs' r. loop ls' p' i' cs' = Some r \<Longrightarrow> (ls', p', i', cs') \<noteq> (ls, p, i, cs)"
      and run: "(if isDone update_ends p' then Some (Inr (p', cs')) else
          case update_step ls' p' i' cs' of Inl e \<Rightarrow> Some (Inl e) | Inr (p, i, cs) \<Rightarrow> loop ls' p i cs) = Some r"
    show "(ls', p', i', cs') \<noteq> (ls, p, i, cs)"
    proof
      assume "(ls', p', i', cs') = (ls, p, i, cs)"
      with run assms have "loop ls p i cs = Some r" by simp
      with IH show False by blast
    qed
  qed
  then show ?thesis by (metis not_None_eq)
qed

definition starred_lines :: "string list" where
  "starred_lines = [''*** Begin Patch'', ''*** Update File: a'', ''***'', ''*** End Patch'']"

lemma starred_patch_never_returns: "TextToPatch (join newline_text starred_lines) sample_orig = None"
proof -
  let ?p = "(NewParser sample_orig starred_lines)\<lparr>ps_index := 1\<rparr>" and ?q = "(NewParser sample_orig starred_lines)\<lparr>ps_index := 2\<rparr>"
  have "update_step [''x'', ''y'', ''z''] ?q 0 [] = Inr (?q, 0, [])"
    by (simp add: update_step_def readStr_def NewParser_def starred_lines_def seek_def_def peekNextSection_def ends_section_def
        has_prefix_def flush_chunk_def findContext_def findContextCore_def Let_def)
  moreover have "\<not> isDone update_ends ?q" by code_simp
  ultimately have "update_loop [''x'', ''y'', ''z''] ?q 0 [] = None" by (rule stuck_update)
  moreover have "split_on CHR 0x0A (join newline_text [''x'', ''y'', ''z'']) = [''x'', ''y'', ''z'']" by code_simp
  ultimately have "parseUpdateFile (join newline_text [''x'', ''y'', ''z'']) ?q = None" by (simp add: parseUpdateFile_def)
  moreover have "readStr ''*** Update File: '' False ?p = (''a'', ?q)" "readStr ''*** Move to: '' False ?q = ([], ?q)"
    by (simp_all add: readStr_def NewParser_def starred_lines_def has_prefix_def)
  ultimately have "parse_step ?p = None" by (simp add: parse_step_def parse_update_def NewParser_def sample_orig_def)
  moreover have "\<not> isDone [''*** End Patch''] ?p" by code_simp
  ultimately have "parse_loop ?p = None" by (subst parse_loop.simps) simp
  moreover have "trim_space (join newline_text starred_lines) = join newline_text starred_lines"
    by (rule trim_space_ends) (simp_all add: starred_lines_def newline_text_def plain_char_def)
  moreover have "split_on CHR 0x0A (join newline_text starred_lines) = starred_lines" by code_simp
  moreover have "\<not> (length starred_lines < 2 \<or> \<not> has_prefix (hd starred_lines) ''*** Begin Patch'' \<or> last starred_lines \<noteq> ''*** End Patch'')"
    by code_simp
  ultimately show ?thesis by (simp add: TextToPatch_def Parse_def Let_def)
qed

text \<open>A context longer than the file, at its end, is compared from before the first line.\<close>

lemma long_end_context_panics: "findContext [''x''] [''x'', ''y''] 0 True = Inl IndexPanic"
  by code_simp

text \<open>The two weaker comparisons are reported with the same distance.\<close>

lemma fuzz_of_space_is_one: "match_fuzz same_but_space = match_fuzz same_but_right"
  by simp

end
