(* ===== verification/PatchCommit.thy ===== *)
theory PatchCommit
  imports PatchText "HOL-Library.Multiset"
begin

text \<open>
  The rest of \<open>prumo-tui/internal/diff/patch.go\<close>: which files a patch needs and adds, the commit that
  two versions of the files make, writing a commit, and \<open>ProcessPatch\<close>. Go leaves the order in which
  a map is ranged over open: each such order is an argument, a rearrangement of the entries.
\<close>

section \<open>The files of a patch\<close>

definition named_after :: "string list \<Rightarrow> string list \<Rightarrow> string list" where
  "named_after pres ls = concat (map (\<lambda>l. concat (map (\<lambda>p. if has_prefix l p then [drop (length p) l] else []) pres)) ls)"

definition IdentifyFilesNeeded :: "(string list \<Rightarrow> string list) \<Rightarrow> string \<Rightarrow> string list" where
  "IdentifyFilesNeeded order src = order (remdups (named_after [''*** Update File: '', ''*** Delete File: ''] (patch_lines src)))"

definition IdentifyFilesAdded :: "(string list \<Rightarrow> string list) \<Rightarrow> string \<Rightarrow> string list" where
  "IdentifyFilesAdded order src = order (remdups (named_after [''*** Add File: ''] (patch_lines src)))"

fun load_loop :: "(string \<Rightarrow> string option) \<Rightarrow> string list \<Rightarrow> (string \<rightharpoonup> string) \<Rightarrow> (fault, string \<rightharpoonup> string) outcome" where
  "load_loop openFn [] orig = Inr orig"
| "load_loop openFn (p # ps) orig =
     (case openFn p of
        None \<Rightarrow> Inl (fileError ''Open'' ''File not found'' p)
      | Some c \<Rightarrow> load_loop openFn ps (orig(p \<mapsto> c)))"

definition LoadFiles :: "string list \<Rightarrow> (string \<Rightarrow> string option) \<Rightarrow> (fault, string \<rightharpoonup> string) outcome" where
  "LoadFiles paths openFn = load_loop openFn paths Map.empty"

section \<open>Two versions of the files\<close>

text \<open>A path whose new content is empty and that did not exist ends the loop.\<close>

fun AssembleChanges :: "(string \<rightharpoonup> string) \<Rightarrow> (string, string) gomap \<Rightarrow> Commit" where
  "AssembleChanges orig [] = []"
| "AssembleChanges orig ((p, new) # rest) =
     (case orig p of
        Some old \<Rightarrow>
          if old = new then AssembleChanges orig rest
          else if new \<noteq> [] then (p, \<lparr>fc_Type = ActionUpdate, fc_OldContent = Some old, fc_NewContent = Some new, fc_MovePath = None\<rparr>)
                 # AssembleChanges orig rest
          else (p, \<lparr>fc_Type = ActionDelete, fc_OldContent = Some old, fc_NewContent = None, fc_MovePath = None\<rparr>)
                 # AssembleChanges orig rest
      | None \<Rightarrow>
          if new \<noteq> [] then (p, \<lparr>fc_Type = ActionAdd, fc_OldContent = None, fc_NewContent = Some new, fc_MovePath = None\<rparr>)
                 # AssembleChanges orig rest
          else [])"

section \<open>Writing a commit\<close>

text \<open>What writes and removes files, over a world \<open>'w\<close>: an error, if any, and the world after.\<close>

record 'w FileIO =
  io_write :: "string \<Rightarrow> string \<Rightarrow> 'w \<Rightarrow> string option \<times> 'w"
  io_remove :: "string \<Rightarrow> 'w \<Rightarrow> string option \<times> 'w"

definition apply_change :: "'w FileIO \<Rightarrow> string \<Rightarrow> FileChange \<Rightarrow> 'w \<Rightarrow> fault option \<times> 'w" where
  "apply_change fio p ch w =
     (case fc_Type ch of
        ActionDelete \<Rightarrow> (case io_remove fio p w of (e, w) \<Rightarrow> (map_option PlainError e, w))
      | ActionAdd \<Rightarrow>
          (case fc_NewContent ch of
             None \<Rightarrow> (Some (DiffError (''Add action for '' @ p @ '' has nil new_content'')), w)
           | Some c \<Rightarrow> (case io_write fio p c w of (e, w) \<Rightarrow> (map_option PlainError e, w)))
      | ActionUpdate \<Rightarrow>
          (case fc_NewContent ch of
             None \<Rightarrow> (Some (DiffError (''Update action for '' @ p @ '' has nil new_content'')), w)
           | Some c \<Rightarrow>
               (case fc_MovePath ch of
                  None \<Rightarrow> (case io_write fio p c w of (e, w) \<Rightarrow> (map_option PlainError e, w))
                | Some m \<Rightarrow> (case io_write fio m c w of
                    (Some e, w) \<Rightarrow> (Some (PlainError e), w)
                  | (None, w) \<Rightarrow> (case io_remove fio p w of (e, w) \<Rightarrow> (map_option PlainError e, w))))))"

fun ApplyCommit :: "'w FileIO \<Rightarrow> Commit \<Rightarrow> 'w \<Rightarrow> fault option \<times> 'w" where
  "ApplyCommit fio [] w = (None, w)"
| "ApplyCommit fio ((p, ch) # rest) w =
     (case apply_change fio p ch w of
        (Some e, w) \<Rightarrow> (Some e, w)
      | (None, w) \<Rightarrow> ApplyCommit fio rest w)"

text \<open>The orders in which the three maps are ranged over.\<close>

record patch_orders =
  po_files :: "string list \<Rightarrow> string list"
  po_patch :: "Patch \<Rightarrow> Patch"
  po_commit :: "Commit \<Rightarrow> Commit"

definition ProcessPatch :: "patch_orders \<Rightarrow> (string \<Rightarrow> string option) \<Rightarrow> 'w FileIO \<Rightarrow> string \<Rightarrow> 'w \<Rightarrow> ((fault, string) outcome \<times> 'w) option" where
  "ProcessPatch po openFn fio src w =
     (if \<not> has_prefix src ''*** Begin Patch'' then Some (Inl (DiffError ''Patch must start with *** Begin Patch''), w)
      else case LoadFiles (IdentifyFilesNeeded (po_files po) src) openFn of
        Inl e \<Rightarrow> Some (Inl e, w)
      | Inr orig \<Rightarrow>
          (case TextToPatch src orig of
             None \<Rightarrow> None
           | Some (Inl e) \<Rightarrow> Some (Inl e, w)
           | Some (Inr (patch, fz)) \<Rightarrow>
               if 0 < fz then Some (Inl (DiffError (''Patch contains fuzzy matches (fuzz level: '' @ itoa fz @ '')'')), w)
               else (case PatchToCommit (po_patch po patch) orig of
                 Inl e \<Rightarrow> Some (Inl e, w)
               | Inr commit \<Rightarrow>
                   (case ApplyCommit fio (po_commit po commit) w of
                      (Some e, w) \<Rightarrow> Some (Inl e, w)
                    | (None, w) \<Rightarrow> Some (Inr ''Patch applied successfully'', w)))))"

definition ValidatePatch :: "(string list \<Rightarrow> string list) \<Rightarrow> (Patch \<Rightarrow> Patch) \<Rightarrow> (fault \<Rightarrow> string) \<Rightarrow> string \<Rightarrow> (string \<rightharpoonup> string) \<Rightarrow> (fault, bool \<times> string) outcome option" where
  "ValidatePatch order porder etext src files =
     (if \<not> has_prefix src ''*** Begin Patch'' then Some (Inr (False, ''Patch must start with *** Begin Patch''))
      else case find (\<lambda>p. files p = None) (IdentifyFilesNeeded order src) of
        Some p \<Rightarrow> Some (Inr (False, ''File not found: '' @ p))
      | None \<Rightarrow>
          (case TextToPatch src files of
             None \<Rightarrow> None
           | Some (Inl e) \<Rightarrow> if e = IndexPanic then Some (Inl e) else Some (Inr (False, etext e))
           | Some (Inr (patch, fz)) \<Rightarrow>
               if 0 < fz then Some (Inr (False, ''Patch contains fuzzy matches (fuzz level: '' @ itoa fz @ '')''))
               else (case PatchToCommit (porder patch) files of
                 Inl e \<Rightarrow> if e = IndexPanic then Some (Inl e) else Some (Inr (False, etext e))
               | Inr commit \<Rightarrow> Some (Inr (True, ''Patch is valid'')))))"

section \<open>A refused patch touches nothing\<close>

lemma patch_refused_untouched:
  assumes "ProcessPatch po openFn fio src w = Some (Inl e, w')" "\<forall>commit v. fst (ApplyCommit fio commit v) \<noteq> Some e"
  shows "w' = w"
  using assms by (auto simp: ProcessPatch_def split: if_splits sum.splits option.splits prod.splits) (metis fst_conv)+

section \<open>A commit on a file system\<close>

type_synonym disk = "string \<rightharpoonup> string"

definition disk_io :: "disk FileIO" where
  "disk_io = \<lparr>io_write = (\<lambda>p c d. (None, d(p \<mapsto> c))),
     io_remove = (\<lambda>p d. if d p = None then (Some ''no such file'', d) else (None, d(p := None)))\<rparr>"

text \<open>The files a change leaves: their new content, or none.\<close>

definition effects_of :: "string \<times> FileChange \<Rightarrow> (string \<times> string option) list" where
  "effects_of e =
     (case fc_Type (snd e) of
        ActionDelete \<Rightarrow> [(fst e, None)]
      | ActionAdd \<Rightarrow> [(fst e, fc_NewContent (snd e))]
      | ActionUpdate \<Rightarrow> (case fc_MovePath (snd e) of None \<Rightarrow> [(fst e, fc_NewContent (snd e))]
          | Some m \<Rightarrow> [(m, fc_NewContent (snd e)), (fst e, None)]))"

definition commit_effects :: "Commit \<Rightarrow> (string \<times> string option) list" where
  "commit_effects commit = concat (map effects_of commit)"

definition disk_after :: "(string \<times> string option) list \<Rightarrow> disk \<Rightarrow> disk" where
  "disk_after es d = (\<lambda>q. case map_of es q of None \<Rightarrow> d q | Some v \<Rightarrow> v)"

text \<open>A change can be made: it has its content, and what it removes is there.\<close>

definition change_ready :: "disk \<Rightarrow> string \<times> FileChange \<Rightarrow> bool" where
  "change_ready d e \<longleftrightarrow> (fc_Type (snd e) \<noteq> ActionDelete \<longrightarrow> fc_NewContent (snd e) \<noteq> None)
     \<and> (fc_Type (snd e) = ActionDelete \<or> fc_Type (snd e) = ActionUpdate \<and> fc_MovePath (snd e) \<noteq> None \<longrightarrow> d (fst e) \<noteq> None)"

lemma apply_change_disk:
  assumes "change_ready d e" "distinct (map fst (effects_of e))"
  shows "apply_change disk_io (fst e) (snd e) d = (None, disk_after (effects_of e) d)"
proof (cases "fc_Type (snd e)")
  case ActionUpdate
  with assms show ?thesis
    by (cases "fc_MovePath (snd e)")
      (auto simp: apply_change_def effects_of_def disk_io_def disk_after_def change_ready_def fun_eq_iff split: option.splits)
qed (use assms in \<open>auto simp: apply_change_def effects_of_def disk_io_def disk_after_def change_ready_def fun_eq_iff split: option.splits\<close>)

lemma change_ready_after:
  assumes "change_ready d e" "fst ` set es \<inter> fst ` set (effects_of e) = {}"
  shows "change_ready (disk_after es d) e"
proof -
  have "fst e \<in> fst ` set (effects_of e)" by (auto simp: effects_of_def split: ActionType.splits option.splits)
  with assms(2) have "map_of es (fst e) = None" by (auto simp: map_of_eq_None_iff)
  with assms(1) show ?thesis by (simp add: change_ready_def disk_after_def)
qed

lemma disk_after_append:
  "fst ` set es \<inter> fst ` set fs = {} \<Longrightarrow> disk_after fs (disk_after es d) = disk_after (es @ fs) d"
proof -
  assume "fst ` set es \<inter> fst ` set fs = {}"
  then have "map_of es q = None \<or> map_of fs q = None" for q by (metis disjoint_iff map_of_eq_None_iff)
  then show ?thesis by (auto simp: disk_after_def fun_eq_iff map_add_def split: option.splits) (metis option.distinct(1))
qed

text \<open>
  A commit that touches no path twice leaves exactly its effects, whatever the order in
  which it is written.
\<close>

theorem commit_on_disk:
  assumes "\<forall>e\<in>set commit. change_ready d e" "distinct (map fst (commit_effects commit))" "mset visited = mset commit"
  shows "ApplyCommit disk_io visited d = (None, disk_after (commit_effects commit) d)"
proof -
  have step: "ApplyCommit disk_io vs d = (None, disk_after (commit_effects vs) d)"
    if "\<forall>e\<in>set vs. change_ready d e" "distinct (map fst (commit_effects vs))" for vs d
    using that
  proof (induction vs arbitrary: d)
    case Nil
    then show ?case by (simp add: commit_effects_def disk_after_def)
  next
    case (Cons e vs)
    have dist: "distinct (map fst (effects_of e))" "distinct (map fst (commit_effects vs))"
      "fst ` set (effects_of e) \<inter> fst ` set (commit_effects vs) = {}"
      using Cons.prems(2) by (auto simp: commit_effects_def)
    have "change_ready (disk_after (effects_of e) d) f" if "f \<in> set vs" for f
      using Cons.prems(1) that dist(3) by (intro change_ready_after) (auto simp: commit_effects_def)
    with Cons.IH dist(2) have "ApplyCommit disk_io vs (disk_after (effects_of e) d) = (None, disk_after (commit_effects vs) (disk_after (effects_of e) d))"
      by blast
    with apply_change_disk[of d e] Cons.prems(1) dist disk_after_append[OF dist(3), of d] show ?case
      by (cases e) (simp add: commit_effects_def)
  qed
  have ms: "mset (commit_effects visited) = mset (commit_effects commit)"
  proof -
    have "mset (commit_effects vs) = \<Sum>\<^sub># (image_mset (\<lambda>e. mset (effects_of e)) (mset vs))" for vs
      by (induction vs) (simp_all add: commit_effects_def)
    with assms(3) show ?thesis by simp
  qed
  have d1: "distinct (map fst (commit_effects visited))"
    using ms assms(2) by (metis mset_eq_imp_distinct_iff mset_map)
  have "map_of (commit_effects visited) = map_of (commit_effects commit)"
    using map_of_inject_set[OF d1 assms(2)] mset_eq_setD[OF ms] by blast
  moreover have "set visited = set commit" using assms(3) by (metis mset_eq_setD)
  ultimately show ?thesis using step[of visited d] assms(1) d1 by (simp add: disk_after_def)
qed

section \<open>Assembling and applying\<close>

definition updated_disk :: "(string \<rightharpoonup> string) \<Rightarrow> (string, string) gomap \<Rightarrow> disk" where
  "updated_disk orig upd = (\<lambda>q. case map_of upd q of None \<Rightarrow> orig q
     | Some c \<Rightarrow> if c = [] \<and> orig q \<noteq> Some [] then None else Some c)"

lemma assembled_effects:
  assumes "distinct (map fst upd)" "\<forall>(p, c)\<in>set upd. c \<noteq> [] \<or> orig p \<noteq> None"
  shows "(\<forall>e\<in>set (AssembleChanges orig upd). change_ready orig e \<and> effects_of e = [(fst e, fc_NewContent (snd e))])
    \<and> map fst (commit_effects (AssembleChanges orig upd)) = map fst (AssembleChanges orig upd)
    \<and> distinct (map fst (AssembleChanges orig upd)) \<and> set (map fst (AssembleChanges orig upd)) \<subseteq> set (map fst upd)
    \<and> disk_after (commit_effects (AssembleChanges orig upd)) orig = updated_disk orig upd"
  using assms
proof (induction upd)
  case Nil
  then show ?case by (simp add: commit_effects_def disk_after_def updated_disk_def)
next
  case (Cons e upd)
  obtain p c where e: "e = (p, c)" by (cases e)
  note IH = Cons.IH[OF _ ] and prems = Cons.prems[unfolded e]
  have tl: "distinct (map fst upd)" "\<forall>(p, c)\<in>set upd. c \<noteq> [] \<or> orig p \<noteq> None" "p \<notin> set (map fst upd)" using prems by auto
  note ih = Cons.IH[OF tl(1,2)]
  have upd: "updated_disk orig ((p, c) # upd) = (updated_disk orig upd)(p := if c = [] \<and> orig p \<noteq> Some [] then None else Some c)"
    by (auto simp: updated_disk_def fun_eq_iff)
  have same: "updated_disk orig upd p = orig p" using tl(3) by (auto simp: updated_disk_def map_of_eq_None_iff[symmetric] split: option.splits)
  have after: "disk_after ((p, v) # es) d = (disk_after es d)(p := v)" for v es d by (auto simp: disk_after_def fun_eq_iff)
  show ?case
  proof (cases "orig p = Some c")
    case True
    with e ih upd same show ?thesis by (auto simp: fun_eq_iff)
  next
    case False
    define ch where "ch = (case orig p of
        None \<Rightarrow> \<lparr>fc_Type = ActionAdd, fc_OldContent = None, fc_NewContent = Some c, fc_MovePath = None\<rparr>
      | Some old \<Rightarrow> if c \<noteq> [] then \<lparr>fc_Type = ActionUpdate, fc_OldContent = Some old, fc_NewContent = Some c, fc_MovePath = None\<rparr>
          else \<lparr>fc_Type = ActionDelete, fc_OldContent = Some old, fc_NewContent = None, fc_MovePath = None\<rparr>)"
    have ch: "AssembleChanges orig (e # upd) = (p, ch) # AssembleChanges orig upd"
      "fc_NewContent ch = (if c = [] then None else Some c)" "effects_of (p, ch) = [(p, fc_NewContent ch)]" "change_ready orig (p, ch)"
      using prems(2) False by (cases "orig p"; auto simp: e ch_def effects_of_def change_ready_def)+
    have "p \<notin> set (map fst (AssembleChanges orig upd))" using ih tl(3) by blast
    with ih ch upd False show ?thesis unfolding e
      by (auto simp: commit_effects_def after[unfolded commit_effects_def] split: if_splits)
  qed
qed

text \<open>Applying what was assembled from two versions turns the first into the second.\<close>

theorem assembled_changes_apply:
  assumes "distinct (map fst upd)" "\<forall>(p, c)\<in>set upd. c \<noteq> [] \<or> orig p \<noteq> None"
  shows "ApplyCommit disk_io (AssembleChanges orig upd) orig = (None, updated_disk orig upd)"
  using commit_on_disk[of "AssembleChanges orig upd" orig] assembled_effects[OF assms] by metis

section \<open>Where it does not hold\<close>

text \<open>
  The files a patch adds are not loaded, so the test that an added file does not exist yet
  sees none: an existing file is overwritten.
\<close>

definition adding_lines :: "string list" where
  "adding_lines = [''*** Begin Patch'', ''*** Add File: b'', ''+x'', ''*** End Patch'']"

definition as_listed :: patch_orders where
  "as_listed = \<lparr>po_files = id, po_patch = id, po_commit = id\<rparr>"

lemma added_file_is_overwritten:
  "ProcessPatch as_listed [''b'' \<mapsto> ''old''] disk_io (join newline_text adding_lines) [''b'' \<mapsto> ''old'']
    = Some (Inr ''Patch applied successfully'', [''b'' \<mapsto> ''x''])"
proof -
  have t: "trim_space (join newline_text adding_lines) = join newline_text adding_lines"
    by (rule trim_space_ends) (simp_all add: adding_lines_def newline_text_def plain_char_def)
  have sp: "split_on CHR 0x0A (join newline_text adding_lines) = adding_lines" by code_simp
  have need: "IdentifyFilesNeeded id (join newline_text adding_lines) = []"
    unfolding IdentifyFilesNeeded_def patch_lines_def t sp by code_simp
  let ?act = "\<lparr>pa_Type = ActionAdd, pa_NewFile = Some ''x'', pa_Chunks = [], pa_MovePath = None\<rparr>"
  have "TextToPatch (join newline_text adding_lines) Map.empty = Some (Inr ([(''b'', ?act)], 0))"
    unfolding TextToPatch_def t by code_simp
  moreover have "has_prefix (join newline_text adding_lines) ''*** Begin Patch''" by code_simp
  ultimately show ?thesis
    by (simp add: ProcessPatch_def need as_listed_def LoadFiles_def change_of_def apply_change_def disk_io_def)
qed

text \<open>Two changes of one path: what is left depends on the order of the map.\<close>

lemma moved_onto_deleted:
  "let mv = (''a'', \<lparr>fc_Type = ActionUpdate, fc_OldContent = Some ''x'', fc_NewContent = Some ''y'', fc_MovePath = Some ''b''\<rparr>);
       rm = (''b'', \<lparr>fc_Type = ActionDelete, fc_OldContent = Some ''z'', fc_NewContent = None, fc_MovePath = None\<rparr>);
       d = [''a'' \<mapsto> ''x'', ''b'' \<mapsto> ''z'']
   in snd (ApplyCommit disk_io [mv, rm] d) ''b'' = None \<and> snd (ApplyCommit disk_io [rm, mv] d) ''b'' = Some ''y''"
  by (simp add: apply_change_def disk_io_def Let_def)

end
