(* ===== verification/DiffView.thy ===== *)
theory DiffView
  imports GoStrings
begin

text \<open>
  Unified diffs as the terminal interface shows them (\<open>prumo-tui/internal/diff/diff.go\<close>): the parser, the
  pairing of lines for two columns, the marks within a changed line and the counts of a generated
  diff. The difference of two lines and of two files, and the rendering of a column, are arguments.
\<close>

section \<open>Data\<close>

datatype LineType = LineContext | LineAdded | LineRemoved

record Segment =
  sg_Start :: nat
  sg_End :: nat
  sg_Type :: LineType
  sg_Text :: string

record DiffLine =
  dl_OldLineNo :: int
  dl_NewLineNo :: int
  dl_Kind :: LineType
  dl_Content :: string
  dl_Segments :: "Segment list"

record Hunk =
  hk_Header :: string
  hk_Lines :: "DiffLine list"

record DiffResult =
  df_OldFile :: string
  df_NewFile :: string
  df_Hunks :: "Hunk list"

section \<open>Hunk headers\<close>

definition ascii_digit :: "char \<Rightarrow> bool" where
  "ascii_digit c \<longleftrightarrow> (48 :: nat) \<le> of_char c \<and> (of_char c :: nat) \<le> 57"

definition strip_prefix :: "string \<Rightarrow> string \<Rightarrow> string option" where
  "strip_prefix pre s = (if has_prefix s pre then Some (drop (length pre) s) else None)"

text \<open>The pattern \<open>(\d+),?(\d*)\<close>: its first group and what follows.\<close>

definition scan_range :: "string \<Rightarrow> (string \<times> string) option" where
  "scan_range s =
     (let ds = takeWhile ascii_digit s; r = dropWhile ascii_digit s;
          r = (case strip_prefix '','' r of Some r \<Rightarrow> r | None \<Rightarrow> r)
      in if ds = [] then None else Some (ds, dropWhile ascii_digit r))"

text \<open>\<open>Atoi\<close> of digits stops at the largest integer.\<close>

definition clamp :: "nat \<Rightarrow> int" where
  "clamp n = min (int n) (2 ^ 63 - 1)"

definition hunk_header :: "string \<Rightarrow> (int \<times> int) option" where
  "hunk_header s =
     Option.bind (strip_prefix ''@@ -'' s) (\<lambda>s.
     Option.bind (scan_range s) (\<lambda>(old, s).
     Option.bind (strip_prefix '' +'' s) (\<lambda>s.
     Option.bind (scan_range s) (\<lambda>(new, s).
     Option.bind (strip_prefix '' @@'' s) (\<lambda>_. Some (clamp (undec old), clamp (undec new)))))))"

section \<open>The parser\<close>

record diff_state =
  ds_result :: DiffResult
  ds_hunk :: "Hunk option"
  ds_old :: int
  ds_new :: int
  ds_header :: bool

definition finished_hunks :: "diff_state \<Rightarrow> Hunk list" where
  "finished_hunks st = df_Hunks (ds_result st) @ (case ds_hunk st of None \<Rightarrow> [] | Some h \<Rightarrow> [h])"

definition add_line :: "DiffLine \<Rightarrow> Hunk \<Rightarrow> Hunk" where
  "add_line l h = h\<lparr>hk_Lines := hk_Lines h @ [l]\<rparr>"

definition hunk_line :: "string \<Rightarrow> Hunk \<Rightarrow> diff_state \<Rightarrow> diff_state" where
  "hunk_line line h st =
     (case line of
        CHR ''+'' # rest \<Rightarrow> st\<lparr>ds_hunk := Some (add_line \<lparr>dl_OldLineNo = 0, dl_NewLineNo = ds_new st, dl_Kind = LineAdded,
            dl_Content = rest, dl_Segments = []\<rparr> h), ds_new := ds_new st + 1\<rparr>
      | CHR ''-'' # rest \<Rightarrow> st\<lparr>ds_hunk := Some (add_line \<lparr>dl_OldLineNo = ds_old st, dl_NewLineNo = 0, dl_Kind = LineRemoved,
            dl_Content = rest, dl_Segments = []\<rparr> h), ds_old := ds_old st + 1\<rparr>
      | _ \<Rightarrow> st\<lparr>ds_hunk := Some (add_line \<lparr>dl_OldLineNo = ds_old st, dl_NewLineNo = ds_new st, dl_Kind = LineContext,
            dl_Content = line, dl_Segments = []\<rparr> h), ds_old := ds_old st + 1, ds_new := ds_new st + 1\<rparr>)"

definition no_newline_mark :: string where
  "no_newline_mark = CHR 0x5C # '' No newline at end of file''"

definition body_line :: "string \<Rightarrow> diff_state \<Rightarrow> diff_state" where
  "body_line line st =
     (case hunk_header line of
        Some (old, new) \<Rightarrow>
          st\<lparr>ds_result := (ds_result st)\<lparr>df_Hunks := finished_hunks st\<rparr>,
             ds_hunk := Some \<lparr>hk_Header = line, hk_Lines = []\<rparr>, ds_old := old, ds_new := new\<rparr>
      | None \<Rightarrow>
          if has_prefix line no_newline_mark then st
          else (case ds_hunk st of None \<Rightarrow> st | Some h \<Rightarrow> hunk_line line h st))"

definition diff_line :: "string \<Rightarrow> diff_state \<Rightarrow> diff_state" where
  "diff_line line st =
     (if ds_header st then
        (case strip_prefix ''--- a/'' line of
           Some name \<Rightarrow> st\<lparr>ds_result := (ds_result st)\<lparr>df_OldFile := name\<rparr>\<rparr>
         | None \<Rightarrow> (case strip_prefix ''+++ b/'' line of
             Some name \<Rightarrow> st\<lparr>ds_result := (ds_result st)\<lparr>df_NewFile := name\<rparr>, ds_header := False\<rparr>
           | None \<Rightarrow> body_line line st))
      else body_line line st)"

definition diff_init :: diff_state where
  "diff_init = \<lparr>ds_result = \<lparr>df_OldFile = [], df_NewFile = [], df_Hunks = []\<rparr>, ds_hunk = None, ds_old = 0, ds_new = 0, ds_header = True\<rparr>"

definition ParseUnifiedDiff :: "string \<Rightarrow> DiffResult" where
  "ParseUnifiedDiff diff =
     (let st = foldl (\<lambda>st l. diff_line l st) diff_init (split_on CHR 0x0A diff)
      in (ds_result st)\<lparr>df_Hunks := finished_hunks st\<rparr>)"

section \<open>Two columns\<close>

fun pairLines :: "DiffLine list \<Rightarrow> (DiffLine option \<times> DiffLine option) list" where
  "pairLines [] = []"
| "pairLines [l] =
     (case dl_Kind l of LineRemoved \<Rightarrow> [(Some l, None)] | LineAdded \<Rightarrow> [(None, Some l)] | LineContext \<Rightarrow> [(Some l, Some l)])"
| "pairLines (l # m # ls) =
     (case dl_Kind l of
        LineRemoved \<Rightarrow> if dl_Kind m = LineAdded then (Some l, Some m) # pairLines ls else (Some l, None) # pairLines (m # ls)
      | LineAdded \<Rightarrow> (None, Some l) # pairLines (m # ls)
      | LineContext \<Rightarrow> (Some l, Some l) # pairLines (m # ls))"

section \<open>Marks within a line\<close>

datatype diff_op = DiffDelete | DiffInsert | DiffEqual

fun segment_loop :: "(diff_op \<times> string) list \<Rightarrow> nat \<Rightarrow> nat \<Rightarrow> Segment list" where
  "segment_loop [] r a = []"
| "segment_loop ((DiffDelete, t) # ds) r a =
     \<lparr>sg_Start = r, sg_End = r + length t, sg_Type = LineRemoved, sg_Text = t\<rparr> # segment_loop ds (r + length t) a"
| "segment_loop ((DiffInsert, t) # ds) r a =
     \<lparr>sg_Start = a, sg_End = a + length t, sg_Type = LineAdded, sg_Text = t\<rparr> # segment_loop ds r (a + length t)"
| "segment_loop ((DiffEqual, t) # ds) r a = segment_loop ds (r + length t) (a + length t)"

fun highlight_loop :: "(string \<Rightarrow> string \<Rightarrow> (diff_op \<times> string) list) \<Rightarrow> DiffLine list \<Rightarrow> DiffLine list" where
  "highlight_loop dmp [] = []"
| "highlight_loop dmp [l] = [l]"
| "highlight_loop dmp (l # m # ls) =
     (if dl_Kind l = LineRemoved \<and> dl_Kind m = LineAdded
      then (let segs = segment_loop (dmp (dl_Content l) (dl_Content m)) 0 0
            in l\<lparr>dl_Segments := segs\<rparr> # m\<lparr>dl_Segments := segs\<rparr> # highlight_loop dmp ls)
      else l # highlight_loop dmp (m # ls))"

definition HighlightIntralineChanges :: "(string \<Rightarrow> string \<Rightarrow> (diff_op \<times> string) list) \<Rightarrow> Hunk \<Rightarrow> Hunk" where
  "HighlightIntralineChanges dmp h = h\<lparr>hk_Lines := highlight_loop dmp (hk_Lines h)\<rparr>"

section \<open>Rendering\<close>

definition WithTotalWidth :: "int \<Rightarrow> int \<Rightarrow> int" where
  "WithTotalWidth w total_width = (if 0 < w then w else total_width)"

definition NewSideBySideConfig :: "(int \<Rightarrow> int) list \<Rightarrow> int" where
  "NewSideBySideConfig opts = foldl (\<lambda>w opt. opt w) 160 opts"

definition RenderSideBySideHunk :: "(string \<Rightarrow> string \<Rightarrow> (diff_op \<times> string) list) \<Rightarrow> (string \<Rightarrow> DiffLine option \<Rightarrow> int \<Rightarrow> string)
    \<Rightarrow> (string \<Rightarrow> DiffLine option \<Rightarrow> int \<Rightarrow> string) \<Rightarrow> string \<Rightarrow> Hunk \<Rightarrow> (int \<Rightarrow> int) list \<Rightarrow> string" where
  "RenderSideBySideHunk dmp leftCol rightCol name h opts =
     (let w = NewSideBySideConfig opts; col = w div 2;
          pairs = pairLines (hk_Lines (HighlightIntralineChanges dmp h))
      in concat (map (\<lambda>(l, r). leftCol name l col @ rightCol name r (w - col) @ [CHR 0x0A]) pairs))"

definition FormatDiff :: "(string \<Rightarrow> string \<Rightarrow> (diff_op \<times> string) list) \<Rightarrow> (string \<Rightarrow> DiffLine option \<Rightarrow> int \<Rightarrow> string)
    \<Rightarrow> (string \<Rightarrow> DiffLine option \<Rightarrow> int \<Rightarrow> string) \<Rightarrow> string \<Rightarrow> (int \<Rightarrow> int) list \<Rightarrow> string" where
  "FormatDiff dmp leftCol rightCol diff opts =
     (let res = ParseUnifiedDiff diff
      in concat (map (\<lambda>h. RenderSideBySideHunk dmp leftCol rightCol (df_OldFile res) h opts) (df_Hunks res)))"

section \<open>A generated diff\<close>

definition trim_prefix :: "string \<Rightarrow> string \<Rightarrow> string" where
  "trim_prefix s p = (case strip_prefix p s of Some r \<Rightarrow> r | None \<Rightarrow> s)"

definition GenerateDiff :: "(string \<Rightarrow> string \<Rightarrow> string \<Rightarrow> string \<Rightarrow> string) \<Rightarrow> string \<Rightarrow> string \<Rightarrow> string \<Rightarrow> string \<Rightarrow> string \<times> nat \<times> nat" where
  "GenerateDiff unified cwd before after fileName =
     (let name = trim_prefix (trim_prefix fileName cwd) ''/'';
          diff = unified (''a/'' @ name) (''b/'' @ name) before after;
          ls = split_on CHR 0x0A diff
      in (diff, length (filter (\<lambda>l. has_prefix l ''+'' \<and> \<not> has_prefix l ''+++'') ls),
          length (filter (\<lambda>l. \<not> (has_prefix l ''+'' \<and> \<not> has_prefix l ''+++'') \<and> has_prefix l ''-'' \<and> \<not> has_prefix l ''---'') ls)))"

section \<open>Columns lose nothing\<close>

text \<open>The left column is the old side of the hunk, the right column the new one, each line once and in order.\<close>

definition column :: "(DiffLine option \<times> DiffLine option \<Rightarrow> DiffLine option) \<Rightarrow> (DiffLine option \<times> DiffLine option) list \<Rightarrow> DiffLine list" where
  "column side ps = concat (map (\<lambda>p. case side p of None \<Rightarrow> [] | Some l \<Rightarrow> [l]) ps)"

lemma pairLines_columns:
  "column fst (pairLines ls) = filter (\<lambda>l. dl_Kind l \<noteq> LineAdded) ls
   \<and> column snd (pairLines ls) = filter (\<lambda>l. dl_Kind l \<noteq> LineRemoved) ls"
  by (induction ls rule: pairLines.induct) (auto simp: column_def split: LineType.splits)

lemma column_widths: "w div 2 + (w - w div 2) = (w :: int)" "0 \<le> w \<Longrightarrow> w div 2 \<le> w - w div 2"
  by simp_all

section \<open>Marks name the text they mark\<close>

definition diff_side :: "diff_op \<Rightarrow> (diff_op \<times> string) list \<Rightarrow> string" where
  "diff_side skip ds = concat (map snd (filter (\<lambda>d. fst d \<noteq> skip) ds))"

lemma segments_slice:
  "s \<in> set (segment_loop ds r a) \<Longrightarrow> length pre = r \<Longrightarrow> length pre' = a \<Longrightarrow>
   (sg_Type s = LineRemoved \<longrightarrow> take (sg_End s - sg_Start s) (drop (sg_Start s) (pre @ diff_side DiffInsert ds)) = sg_Text s
      \<and> sg_End s = sg_Start s + length (sg_Text s))
   \<and> (sg_Type s = LineAdded \<longrightarrow> take (sg_End s - sg_Start s) (drop (sg_Start s) (pre' @ diff_side DiffDelete ds)) = sg_Text s
      \<and> sg_End s = sg_Start s + length (sg_Text s))
   \<and> sg_Type s \<noteq> LineContext"
proof (induction ds r a arbitrary: pre pre' rule: segment_loop.induct)
  case (2 t ds r a)
  show ?case using 2(2-4) 2(1)[of "pre @ t" pre'] by (auto simp: diff_side_def)
next
  case (3 t ds r a)
  show ?case using 3(2-4) 3(1)[of pre "pre' @ t"] by (auto simp: diff_side_def)
next
  case (4 t ds r a)
  show ?case using 4(2-4) 4(1)[of "pre @ t" "pre' @ t"] by (auto simp: diff_side_def)
qed simp

text \<open>
  When the parts the comparison gives are the two lines, which is its contract, the marks of a
  removed and of an added line lie on the text they carry.
\<close>

lemma marks_lie_on_their_text:
  assumes "diff_side DiffInsert (dmp old new) = old" "diff_side DiffDelete (dmp old new) = new"
    "s \<in> set (segment_loop (dmp old new) 0 0)"
  shows "take (sg_End s - sg_Start s) (drop (sg_Start s) (if sg_Type s = LineRemoved then old else new)) = sg_Text s"
  using segments_slice[OF assms(3), of "[]" "[]"] assms(1,2) by (cases "sg_Type s") auto

lemma highlight_keeps_lines:
  "map (\<lambda>l. l\<lparr>dl_Segments := []\<rparr>) (highlight_loop dmp ls) = map (\<lambda>l. l\<lparr>dl_Segments := []\<rparr>) ls"
  by (induction dmp ls rule: highlight_loop.induct) (auto simp: Let_def)

section \<open>Printing and parsing\<close>

definition line_text :: "DiffLine \<Rightarrow> string" where
  "line_text l = (case dl_Kind l of LineAdded \<Rightarrow> CHR ''+'' # dl_Content l | LineRemoved \<Rightarrow> CHR ''-'' # dl_Content l | LineContext \<Rightarrow> dl_Content l)"

definition printed :: "Hunk \<Rightarrow> string list" where
  "printed h = hk_Header h # map line_text (hk_Lines h)"

definition printed_diff :: "DiffResult \<Rightarrow> string list" where
  "printed_diff d = (''--- a/'' @ df_OldFile d) # (''+++ b/'' @ df_NewFile d) # concat (map printed (df_Hunks d))"

fun numbered :: "int \<Rightarrow> int \<Rightarrow> DiffLine list \<Rightarrow> bool" where
  "numbered i j [] \<longleftrightarrow> True"
| "numbered i j (l # ls) \<longleftrightarrow> dl_Segments l = [] \<and>
     (case dl_Kind l of
        LineAdded \<Rightarrow> dl_OldLineNo l = 0 \<and> dl_NewLineNo l = j \<and> numbered i (j + 1) ls
      | LineRemoved \<Rightarrow> dl_OldLineNo l = i \<and> dl_NewLineNo l = 0 \<and> numbered (i + 1) j ls
      | LineContext \<Rightarrow> dl_OldLineNo l = i \<and> dl_NewLineNo l = j \<and> numbered (i + 1) (j + 1) ls)"

text \<open>A context line that is not taken for something else.\<close>

definition plain_context :: "string \<Rightarrow> bool" where
  "plain_context s \<longleftrightarrow> hunk_header s = None \<and> \<not> has_prefix s no_newline_mark \<and> \<not> has_prefix s ''+'' \<and> \<not> has_prefix s ''-''"

definition hunk_ok :: "Hunk \<Rightarrow> bool" where
  "hunk_ok h \<longleftrightarrow> (case hunk_header (hk_Header h) of None \<Rightarrow> False | Some (i, j) \<Rightarrow> numbered i j (hk_Lines h))
     \<and> (\<forall>l\<in>set (hk_Lines h). dl_Kind l = LineContext \<longrightarrow> plain_context (dl_Content l))"

lemma body_line_text:
  assumes "ds_hunk st = Some h" "numbered (ds_old st) (ds_new st) (l # ls)" "dl_Kind l = LineContext \<longrightarrow> plain_context (dl_Content l)"
  shows "\<exists>i j. body_line (line_text l) st = st\<lparr>ds_hunk := Some (add_line l h), ds_old := i, ds_new := j\<rparr> \<and> numbered i j ls"
proof -
  have signs: "hunk_header (CHR ''+'' # s) = None" "hunk_header (CHR ''-'' # s) = None"
    "\<not> has_prefix (CHR ''+'' # s) no_newline_mark" "\<not> has_prefix (CHR ''-'' # s) no_newline_mark" for s
    by (simp_all add: hunk_header_def strip_prefix_def has_prefix_def no_newline_mark_def)
  have line: "\<lparr>dl_OldLineNo = i, dl_NewLineNo = j, dl_Kind = k, dl_Content = dl_Content l, dl_Segments = []\<rparr> = l"
    if "dl_OldLineNo l = i" "dl_NewLineNo l = j" "dl_Kind l = k" "dl_Segments l = []" for i j k
    using that by (cases l) simp
  show ?thesis
  proof (cases "dl_Kind l")
    case LineContext
    then have p: "plain_context (dl_Content l)" using assms(3) by simp
    then have "hunk_line (dl_Content l) h st = st\<lparr>ds_hunk := Some (add_line \<lparr>dl_OldLineNo = ds_old st, dl_NewLineNo = ds_new st,
        dl_Kind = LineContext, dl_Content = dl_Content l, dl_Segments = []\<rparr> h), ds_old := ds_old st + 1, ds_new := ds_new st + 1\<rparr>"
      unfolding hunk_line_def by (auto simp: plain_context_def has_prefix_def split: list.splits char.splits bool.splits)
    with LineContext p assms(1,2) show ?thesis
      by - (rule exI[of _ "ds_old st + 1"], rule exI[of _ "ds_new st + 1"], simp add: body_line_def line_text_def plain_context_def line)
  next
    case LineAdded
    with assms(1,2) signs show ?thesis
      by - (rule exI[of _ "ds_old st"], rule exI[of _ "ds_new st + 1"], simp add: body_line_def line_text_def hunk_line_def line)
  next
    case LineRemoved
    with assms(1,2) signs show ?thesis
      by - (rule exI[of _ "ds_old st + 1"], rule exI[of _ "ds_new st"], simp add: body_line_def line_text_def hunk_line_def line)
  qed
qed

lemma body_lines:
  assumes "ds_hunk st = Some h" "numbered (ds_old st) (ds_new st) ls" "\<forall>l\<in>set ls. dl_Kind l = LineContext \<longrightarrow> plain_context (dl_Content l)"
  shows "\<exists>i j. foldl (\<lambda>st l. body_line l st) st (map line_text ls)
    = st\<lparr>ds_hunk := Some (h\<lparr>hk_Lines := hk_Lines h @ ls\<rparr>), ds_old := i, ds_new := j\<rparr>"
  using assms
proof (induction ls arbitrary: st h)
  case Nil
  then show ?case by - (rule exI[of _ "ds_old st"], rule exI[of _ "ds_new st"], simp)
next
  case (Cons l ls)
  obtain i j where b: "body_line (line_text l) st = st\<lparr>ds_hunk := Some (add_line l h), ds_old := i, ds_new := j\<rparr>" "numbered i j ls"
    using body_line_text[OF Cons.prems(1,2)] Cons.prems(3) by auto
  from Cons.IH[of "st\<lparr>ds_hunk := Some (add_line l h), ds_old := i, ds_new := j\<rparr>" "add_line l h"] b Cons.prems(3)
  show ?case by (simp add: add_line_def)
qed

lemma body_hunk:
  assumes "hunk_ok h"
  shows "\<exists>i j. foldl (\<lambda>st l. body_line l st) st (printed h)
    = st\<lparr>ds_result := (ds_result st)\<lparr>df_Hunks := finished_hunks st\<rparr>, ds_hunk := Some h, ds_old := i, ds_new := j\<rparr>"
proof -
  obtain i j where hd: "hunk_header (hk_Header h) = Some (i, j)" "numbered i j (hk_Lines h)"
    using assms by (auto simp: hunk_ok_def split: option.splits)
  let ?st = "st\<lparr>ds_result := (ds_result st)\<lparr>df_Hunks := finished_hunks st\<rparr>,
             ds_hunk := Some \<lparr>hk_Header = hk_Header h, hk_Lines = []\<rparr>, ds_old := i, ds_new := j\<rparr>"
  have "body_line (hk_Header h) st = ?st" using hd by (simp add: body_line_def)
  moreover obtain i' j' where "foldl (\<lambda>st l. body_line l st) ?st (map line_text (hk_Lines h))
      = ?st\<lparr>ds_hunk := Some (\<lparr>hk_Header = hk_Header h, hk_Lines = []\<rparr>\<lparr>hk_Lines := hk_Lines h\<rparr>), ds_old := i', ds_new := j'\<rparr>"
    using body_lines[of ?st "\<lparr>hk_Header = hk_Header h, hk_Lines = []\<rparr>" "hk_Lines h"] hd assms by (auto simp: hunk_ok_def)
  ultimately show ?thesis unfolding printed_def by - (rule exI[of _ i'], rule exI[of _ j'], simp)
qed

lemma body_hunks:
  assumes "\<forall>h\<in>set hs. hunk_ok h"
  shows "let st' = foldl (\<lambda>st l. body_line l st) st (concat (map printed hs))
    in finished_hunks st' = finished_hunks st @ hs \<and> df_OldFile (ds_result st') = df_OldFile (ds_result st)
      \<and> df_NewFile (ds_result st') = df_NewFile (ds_result st)"
  using assms
proof (induction hs arbitrary: st)
  case (Cons h hs)
  obtain i j where b: "foldl (\<lambda>st l. body_line l st) st (printed h)
      = st\<lparr>ds_result := (ds_result st)\<lparr>df_Hunks := finished_hunks st\<rparr>, ds_hunk := Some h, ds_old := i, ds_new := j\<rparr>"
    using body_hunk Cons.prems by (meson list.set_intros(1))
  from Cons.IH[of "st\<lparr>ds_result := (ds_result st)\<lparr>df_Hunks := finished_hunks st\<rparr>, ds_hunk := Some h, ds_old := i, ds_new := j\<rparr>"] Cons.prems
  show ?case by (simp add: b Let_def) (simp add: finished_hunks_def)
qed (simp add: Let_def)

lemma past_header: "\<not> ds_header st \<Longrightarrow> diff_line l st = body_line l st \<and> \<not> ds_header (body_line l st)"
  by (auto simp: diff_line_def body_line_def hunk_line_def split: option.splits list.splits char.splits bool.splits)

lemma past_header_fold:
  "\<not> ds_header st \<Longrightarrow> foldl (\<lambda>st l. diff_line l st) st ls = foldl (\<lambda>st l. body_line l st) st ls"
  by (induction ls arbitrary: st) (simp_all add: past_header)

text \<open>
  A parsed diff that is printed and parsed again is the same: file names, hunks, the lines
  of each with their kinds, contents and numbers.
\<close>

theorem printed_diff_parses:
  assumes "\<forall>h\<in>set (df_Hunks d). hunk_ok h" "\<forall>l\<in>set (printed_diff d). CHR 0x0A \<notin> set l"
  shows "ParseUnifiedDiff (join [CHR 0x0A] (printed_diff d)) = d"
proof -
  let ?st = "diff_init\<lparr>ds_result := \<lparr>df_OldFile = df_OldFile d, df_NewFile = df_NewFile d, df_Hunks = []\<rparr>, ds_header := False\<rparr>"
  have sp: "split_on CHR 0x0A (join [CHR 0x0A] (printed_diff d)) = printed_diff d"
    by (rule split_on_join) (use assms(2) in \<open>auto simp: printed_diff_def\<close>)
  have "foldl (\<lambda>st l. diff_line l st) diff_init (printed_diff d) = foldl (\<lambda>st l. diff_line l st) ?st (concat (map printed (df_Hunks d)))"
    by (simp add: printed_diff_def diff_line_def diff_init_def strip_prefix_def has_prefix_def)
  also have "\<dots> = foldl (\<lambda>st l. body_line l st) ?st (concat (map printed (df_Hunks d)))"
    by (rule past_header_fold) simp
  finally have "foldl (\<lambda>st l. diff_line l st) diff_init (printed_diff d) = foldl (\<lambda>st l. body_line l st) ?st (concat (map printed (df_Hunks d)))" .
  with body_hunks[OF assms(1), of ?st] sp show ?thesis
    by (simp add: ParseUnifiedDiff_def Let_def finished_hunks_def diff_init_def)
qed

section \<open>Where it does not hold\<close>

text \<open>After the first file the headers of the next are lines of the hunk before.\<close>

lemma second_file_header_is_a_change:
  "map dl_Kind (concat (map hk_Lines (df_Hunks (ParseUnifiedDiff (join [CHR 0x0A]
     [''--- a/f'', ''+++ b/f'', ''@@ -1 +1 @@'', '' x'', ''--- a/g'', ''+++ b/g'', ''@@ -1 +1 @@'', '' y'']))))) =
   [LineContext, LineRemoved, LineAdded, LineContext]"
  by code_simp

text \<open>An added line that begins with two plus signs is not counted.\<close>

lemma plus_line_is_not_counted:
  "snd (GenerateDiff (\<lambda>a b before after. join [CHR 0x0A] [''--- a'', ''+++ b'', ''@@ -0,0 +1 @@'', ''+++i;'']) [] [] ''++i;'' ''f'') = (0, 0)"
  by code_simp

end
