(* ===== verification/Spec2Isabelle.thy ===== *)
theory Spec2Isabelle
  imports RunnerReach RunLayer Plans Recipes DocOrder DocSections Goals Gateway AccountPool Team PlanningSession
    ContextStore Traceability ToolGateway Egress RepoPolicy RunMachine DaemonJobs
    AciTools PatchCommit DiffView
begin

text \<open>
  A verification development for Prumo, an agent harness written in Go: a service that drives a
  language model through turns of tool calls, under a compiled scope directive, permissions,
  budgets, quality gates and checkpoints, together with the protocol files (goals, evidence,
  plans, recipes, planning sessions, traceability), the context compiler that feeds it, the policies
  at its borders and the documentation compiler around it. Paths below are relative to the
  repository. A Go operation is a function of the same name on an explicit state; an error is a
  value (\<^typ>\<open>(string, 'a) outcome\<close> or a component's own error type); every port (model provider, tool
  executor, file system, clock, hash, permission to write) is an argument, mostly over an
  arbitrary world \<open>'w\<close> that the port reads and changes.

  \<^bold>\<open>The run.\<close>
  \<^item> \<open>AgentTypes\<close> (\<open>internal/harness/agent/agent.go\<close>): the records and enumerations exchanged.
  \<^item> \<open>Directive\<close> (\<open>internal/harness/directive\<close>): \<open>CompileDirective\<close>, \<open>Validate\<close> and the scope firewall
    \<open>CanMutatePath\<close>, characterised on path components (C2) over \<open>GoPath\<close> (\<open>Clean\<close>, \<open>Rel\<close>, \<open>Join\<close>).
  \<^item> \<open>Safepath\<close> (\<open>internal/harness/safepath\<close>): \<open>Resolve\<close> and the validation of identifiers; an accepted path
    lies beneath the resolved root (C21). \<open>ImageRefs\<close> (\<open>runtime/images.go\<close>) reads files through it.
  \<^item> \<open>PermEngine\<close> (\<open>internal/harness/perm\<close>): policy passes, remembered decisions, the decision log (C6, C7). The
    locale \<open>decision_store\<close> is what a client of the engine relies on.
  \<^item> \<open>CheckpointStore\<close> and \<open>EffectJournal\<close> (\<open>internal/harness/checkpoint\<close>): the store directory with retention and
    garbage collection, and the side-effect journal. The locale \<open>effect_journal\<close> is the
    contract of a journal: from it follow C4 and its like for starts, over any sequence of attempts that crash, fail to
    write or succeed; the interpretation proves it for the code's journal.
  \<^item> \<open>RunBudget\<close> (\<open>internal/budget\<close>, \<open>runlayer.go\<close>): envelope, tracker with reservations (C14), hierarchical
    manager with its review reserve. Amounts are \<open>float64\<close>: \<open>GoFloat\<close> rounds rationals to 53 bits.
  \<^item> \<open>RunnerState\<close> and \<open>RunnerStep\<close> (\<open>internal/harness/runtime/runtime.go\<close>): the runner. One definition per phase of
    \<open>Step\<close>, each ending in \<open>Fall\<close> (to the common tail) or \<open>Return\<close>. \<open>RunnerFrame\<close> says what each operation leaves
    alone; \<open>RunnerInv\<close> states the invariants in two locales, \<open>phase_invariant\<close> (kept by each phase and
    operation) and \<open>step_invariant\<close>, interpreted for the timeline, the usage totals, the effect flag
    and the configuration; \<open>RunnerSafety\<close>, \<open>RunnerResume\<close> and \<open>RunnerReach\<close> hold the lemmas on phases, calls,
    reservations, compaction, checkpoints and reachable states.
  \<^item> \<open>RunLayer\<close> (\<open>internal/harness/runlayer\<close>): the counting executor, the gates, the permission trail.
  \<^item> \<open>Gateway\<close> and \<open>AccountPool\<close> (\<open>internal/harness/gateway\<close>): selection of a provider, circuit, quotas, retries,
    fallback (C37), and the round robin over accounts (C39).
  \<^item> \<open>TeamMerge\<close> and \<open>Team\<close> (\<open>internal/harness/team\<close>): snapshots of a role's workspace and their three-way merge
    (C40), the execution of a team with budgets, delegation and review (C23), the least workforce.

  \<^bold>\<open>The daemon\<close> (\<open>internal/harness/daemon\<close>, \<open>internal/harness/protocol\<close>).
  \<^item> \<open>DaemonLock\<close> (\<open>supervise.go\<close>): the lock of a store, its operations as interleaved file steps (C25), \<open>Stop\<close>.
  \<^item> \<open>DaemonProtocol\<close>: version negotiation, \<open>dispatch\<close> over a record of handlers, remote authentication.
  \<^item> \<open>DaemonRuns\<close> (\<open>daemon.go\<close>): the map of runs, the goroutines that advance them and the operations on them.
    The steps of \<open>server_step\<close> interleave requests with the goroutines; each run has one of them (C5). A
    goroutine advances its run by \<open>RunUntilDone\<close> of \<open>RunnerStep\<close>.
  \<^item> \<open>DaemonStore\<close>: the records a restart finds and reconciles with the newest checkpoints (C20), and the diffs.
  \<^item> \<open>DaemonLog\<close>: the log of a run, its rotation, its replay (C22) and its subscribers (C24).
  \<^item> \<open>DaemonJobs\<close> (\<open>schedule.go\<close>): scheduled runs, which \<open>tickJobs\<close> starts through a dispatcher (C19), and the daemon
    with all its handlers, each of which makes a step of the server or none.

  \<^bold>\<open>Tools and patches.\<close>
  \<^item> \<open>AciTools\<close> (\<open>internal/harness/aci\<close>): the native tools behind the executor port, the egress check of their
    commands and the container executor. A tool is the list of operations it asks the outside world for,
    which answers as it likes: all of them stay in the workspace and do what the catalogue says (C16).
  \<^item> \<open>PatchText\<close> and \<open>PatchCommit\<close> (\<open>prumo-tui/internal/diff/patch.go\<close>): the patch parser with its context search, what an
    accepted patch does to the files (C38), and the writing of a commit, in any order of its map.
  \<^item> \<open>DiffView\<close> (\<open>prumo-tui/internal/diff/diff.go\<close>): unified diffs parsed, printed back, paired into columns and marked.

  \<^bold>\<open>Context.\<close>
  \<^item> \<open>ContextCompiler\<close> (\<open>internal/harness/contextv2\<close>: \<open>contextv2.go\<close>, \<open>dedup.go\<close>, \<open>disclosure.go\<close>): eligibility, rank
    fusion, deduplication and the packing of a token budget with its recursion over dependencies; every
    candidate ends up included or excluded with a reason (C8), the budget holds (C9), and a compilation
    returns exactly when the dependencies are acyclic (C26).
  \<^item> \<open>ContextStore\<close> (\<open>store.go\<close>, \<open>workspace.go\<close>): the manifest on disk, written through a temporary file (C13), what
    an operator is told of it, and the scan that collects the candidates of a workspace.

  \<^bold>\<open>Borders.\<close>
  \<^item> \<open>Boundary\<close> (\<open>internal/harness/security\<close>): the wrapper that keeps untrusted content inside its block (C15), and
    \<open>Egress\<close> (\<open>internal/egress\<close>): data classes, secrets, redaction, over the same string replacement.
  \<^item> \<open>ToolGateway\<close> (\<open>internal/toolgateway\<close>): what a native or MCP tool may do to a target (C36), over \<open>Safepath\<close>.
  \<^item> \<open>RepoPolicy\<close> (\<open>internal/repositorypolicy\<close>): branches, commits, the comparison with the host and \<open>Apply\<close>, which
    brings the host to the policy and then changes nothing (C31).

  \<^bold>\<open>Protocol and documents.\<close>
  \<^item> \<open>GraphSearch\<close>: the coloured depth-first search shared by \<open>Plans\<close> (\<open>internal/protocol/plans\<close>, C27) and \<open>Recipes\<close>
    (\<open>internal/automation\<close>: linter and executor, C28), related to acyclicity of the dependency relation.
  \<^item> \<open>Evidence\<close> (\<open>internal/protocol/evidence\<close>) and \<open>Goals\<close> (\<open>internal/protocol/goals\<close>, the calls of \<open>internal/cliops\<close> that feed
    them): validation from typed and untyped records, freshness, derived completion, the lock, and
    the evidence gate of DONE (C32 to C35).
  \<^item> \<open>Planning\<close> and \<open>PlanningSession\<close> (\<open>internal/planning\<close>): the resolver that turns classified answers into
    decisions, contradictions and the preview, and the sessions that collect them (C18).
  \<^item> \<open>Traceability\<close> (\<open>internal/traceability\<close>): the typed graph, whose traversal is reachability, the journal and
    the registers. \<open>RunMachine\<close> (\<open>internal/runtime\<close>): the older run state machine and its continuation records.
  \<^item> \<open>DocOrder\<close>, \<open>DocRegions\<close>, \<open>DocSections\<close> (\<open>internal/harness/doccompile\<close>): the build order, which refines a reference
    that always takes the least ready node (C29); managed regions (C30); Markdown sections.
  \<^item> \<open>Prelude\<close>, \<open>GoStrings\<close>, \<open>GoPath\<close>, \<open>GoFloat\<close>: Go maps as association lists in iteration order, and the parts of
    \<open>strings\<close>, \<open>strconv\<close>, \<open>fmt\<close>, \<open>path/filepath\<close> and of float arithmetic that the code calls.

  \<^bold>\<open>How the parts interact.\<close> \<open>Step\<close> calls the directive before a tool call, the engine before a call is
  queued for execution, the journal around it, the budget before a model request, the gate before
  it completes, and the store at every checkpoint. This file holds the properties of that
  composition and of the components beneath it; the others stand in their component's theory. That a call is not made is stated as independence: the result is the same whatever the
  executor, the provider or the file would have done.

  \<^bold>\<open>Bounds and fuel.\<close> \<open>run_loop\<close> counts the 1000 iterations of \<open>RunUntilDone\<close>; C10 shows that with at
  most 142 turns a run ends before them (at most seven phases to a turn). \<open>dfs\<close> is fuelled by the
  number of nodes, enough because a path does not repeat a node (\<open>GraphSearch\<close>); \<open>recipe_loop\<close> by the number of steps,
  since a linted recipe does not revisit a step (C28); \<open>retry_loop\<close> counts the attempts of the policy,
  \<open>waitForExit\<close> the polls of its grace period. The two loops of the patch parser are partial: they return for every text whose
  lines that begin like a marker are markers (\<open>patch_parse_returns\<close>), and not for every text.
  \<open>add_item\<close> of the context compiler spends one unit per nested call: one more than the number of candidates is
  enough exactly when their dependencies are acyclic (C26), and otherwise no fuel is. The directory
  scan stops at the code's own depth limit. The traversal of \<open>Traceability\<close> terminates by the nodes not yet visited.
  \<open>order_loop\<close> terminates by the queue and the nodes still waiting, the trimming functions by the
  length; the other recursions are structural. \<open>int\<close> stands for Go's 64-bit counters, none of which gets near its bounds;
  durations and times are integers of nanoseconds.

  \<^bold>\<open>Not modelled.\<close> Mutexes: each operation is one step, which is what the locks provide where the code
  takes them. JSON coding: a file is decoded data or unreadable. SHA-256, clocks and identifiers
  are parameters. Left out as input and output: the daemon's sockets, signals and timers, the programs
  that tools run, the wire formats of the model providers, the command line and the terminal
  interface, the generators of documentation and interface maps. Not yet modelled: the
  lexical scorer of the context compiler, project memory and code intelligence, whose answers are
  arguments; the binding of nested runs; JSON patches and the manifest writer of the document
  compiler; the regular expressions of \<open>IsAgentSelfDeclaration\<close>, which change no state.
\<close>

section \<open>Sample data for the witnesses\<close>

text \<open>Ports over a world that counts what happened to it, and one directive.\<close>

definition sample_call :: "string \<Rightarrow> string \<Rightarrow> string \<Rightarrow> ToolCall" where
  "sample_call i name path = \<lparr>tc_ID = i, tc_TurnID = ''turn-1'', tc_Name = name,
     tc_Arguments = Some [(''path'', JStr path)], tc_IdempotencyKey = []\<rparr>"

definition sample_result :: ToolResult where
  "sample_result = \<lparr>tr_ToolCallID = [], tr_ExitCode = 0, tr_Output = ''ok'', tr_Truncated = False,
     tr_ArtifactID = [], tr_Error = []\<rparr>"

definition sample_te :: "int ToolExecutor" where
  "sample_te = \<lparr>te_Execute = (\<lambda>w tc. ((sample_result, None), w + 1)),
     te_KindOf = (\<lambda>n. if n = ''fs.read'' then ''read-only'' else ''side-effecting''),
     te_OperationOf = (\<lambda>n. ''modified''), te_Specs = (\<lambda>w. NoSpecs)\<rparr>"

definition sample_svc :: "int Services" where
  "sample_svc =
     \<lparr>sv_Stream = (\<lambda>w req. (Inr [], w)), sv_Tools = Some sample_te, sv_Events = True,
      sv_ContextManifest = None, sv_ReserveBudget = Some (\<lambda>w a. (Inr True, w + 1)),
      sv_release = (\<lambda>w t c. w - 1), sv_BudgetExhausted = Some (\<lambda>w. Some ''spent''),
      sv_ToolSpecs = None, sv_RecordDiff = True, sv_Workspace = [], sv_HasVision = False,
      sv_ReasoningEffort = [], sv_QualityGate = Some (\<lambda>w. (Some ''no test'', w)),
      sv_CtxErr = (\<lambda>w. None), sv_StoreIO = (\<lambda>w. (WriteOk, w)), sv_JournalIO = (\<lambda>w. (WriteOk, w)),
      sv_files = (\<lambda>w. \<lparr>fs_os = \<lparr>os_cwd = ''/w'', os_lstat = (\<lambda>p. Missing), os_eval = Inr\<rparr>,
        fs_stat = (\<lambda>p. StatError), fs_read = (\<lambda>p. Inl [])\<rparr>),
      sv_Now = (\<lambda>w. ''2026-01-01T00:00:00Z''), sv_hash = (\<lambda>s. ''h'' @ s), sv_num = (\<lambda>q. ''n''),
      sv_Text = (\<lambda>c. ''error'')\<rparr>"

definition sample_directive :: DirectiveIR where
  "sample_directive = directive_of (\<lambda>s. s) ''fix the parser''
     \<lparr>ci_ProjectID = ''p'', ci_WorkspaceRoot = ''/w'', ci_RepositoryRevision = ''r1'', ci_GoalID = ''g1'',
      ci_PlanID = [], ci_TaskID = ''t1'', ci_UserIntent = [], ci_TaskIntent = ''fix the parser'',
      ci_Decisions = [], ci_Requirements = [], ci_Constraints = [], ci_Superseded = [],
      ci_InScope = [], ci_OutOfScope = [''docs''], ci_IncidentalScope = [],
      ci_AllowedPaths = [''src''], ci_ForbiddenPaths = [''src/secret''],
      ci_AllowedActions = [], ci_ForbiddenActions = [], ci_RequiresApproval = [], ci_ToolCapabilities = [],
      ci_ModelRoute = \<lparr>rt_RouteClass = [], rt_Provider = [], rt_Model = []\<rparr>,
      ci_WorkforceRole = [], ci_WorkforceActor = [], ci_HardLimitCents = 100, ci_SoftLimitCents = 50,
      ci_ReviewReserveCents = 10, ci_Currency = [], ci_RequiredSkills = [], ci_RequiredEvidence = [],
      ci_QualityGates = [], ci_StopConditions = [], ci_RequiredDocUpdates = [], ci_Unknowns = [],
      ci_Assumptions = [], ci_IsDestructive = False, ci_HasAuthority = False\<rparr>"

definition sample_runner :: "int Runner" where
  "sample_runner = (NewRunner sample_svc (Some (engine_new \<lparr>po_DefaultAction = None, po_DenyPrefixes = [],
     po_AskKinds = [], po_AllowActions = [''fs.read'']\<rparr>)) (Some []) (Some FxAbsent) 0 ''run-1'' ''s-1'')
       \<lparr>r_Directive := Some sample_directive\<rparr>"

lemma sample_phase [simp]: "phase_of sample_runner = PhasePrepare"
  by (simp add: sample_runner_def NewRunner_def phase_of_def del: phase_fold)

section \<open>Execution: firewall, journal, permission\<close>

text \<open>
  C1: the scope firewall. With a directive in force, executing the queue does not depend on
  what the executor would do with a call whose \<open>path\<close> argument the directive does not let it
  change: such a call of a side-effecting or destructive tool never reaches the executor.
\<close>

definition may_execute :: "(string \<Rightarrow> string) \<Rightarrow> DirectiveIR \<Rightarrow> ToolCall \<Rightarrow> bool" where
  "may_execute kind d tc \<longleftrightarrow>
     (case tc_arg tc ''path'' of
        JStr p \<Rightarrow> p = [] \<or> p = ''<nil>'' \<or> kind (tc_Name tc) \<notin> {''side-effecting'', ''destructive''} \<or> CanMutatePath d p
      | _ \<Rightarrow> True)"

theorem firewall_blocks_mutation:
  assumes "r_Directive r = Some d"
    and "\<forall>w tc. may_execute (te_KindOf te) d tc \<longrightarrow> ex w tc = te_Execute te w tc"
  shows "exec_loop svc (te\<lparr>te_Execute := ex\<rparr>) tcs r = exec_loop svc te tcs r"
proof (rule firewall_independent, intro allI impI)
  fix w tc
  assume "scope_violation svc te r tc = None"
  with scope_violation_path[of svc te r tc d] assms(1) have "may_execute (te_KindOf te) d tc"
    by (auto simp: may_execute_def split: jval.split)
  with assms(2) show "ex w tc = te_Execute te w tc" by blast
qed

theorem firewall_blocks_mutation_witness:
  "let bad = sample_call ''c1'' ''edit.create'' ''src/secret/key'';
       ex = (\<lambda>w tc. if tc = bad then ((sample_result\<lparr>tr_ExitCode := 7\<rparr>, None), w + 100)
                     else te_Execute sample_te w tc)
   in exec_loop sample_svc (sample_te\<lparr>te_Execute := ex\<rparr>) [bad] sample_runner = exec_loop sample_svc sample_te [bad] sample_runner"
proof -
  let ?bad = "sample_call ''c1'' ''edit.create'' ''src/secret/key''"
  have "r_Directive sample_runner = Some sample_directive" by (simp add: sample_runner_def)
  moreover have "\<not> may_execute (te_KindOf sample_te) sample_directive ?bad" by code_simp
  ultimately show ?thesis unfolding Let_def by (intro firewall_blocks_mutation) auto
qed

text \<open>
  C2: what the firewall lets a directive mutate, on path components: a confined relative
  path, beneath no forbidden or out-of-scope boundary and, when an allowlist is given,
  beneath one of its entries.
\<close>

theorem CanMutatePath_by_components:
  "CanMutatePath d p = (confined p \<and>
     (\<forall>b\<in>set (mb_ForbiddenPaths (di_Mutation d) @ sf_OutOfScope (di_Scope d)). \<not> below b p) \<and>
     (mb_AllowedPaths (di_Mutation d) = [] \<or> (\<exists>b\<in>set (mb_AllowedPaths (di_Mutation d)). below b p)))"
  by (rule CanMutatePath_iff)

theorem CanMutatePath_by_components_witness:
  "CanMutatePath sample_directive ''src/./lib/a.go'' \<and> \<not> CanMutatePath sample_directive ''src/secret/k''
   \<and> \<not> CanMutatePath sample_directive ''src/../../etc/passwd'' \<and> \<not> CanMutatePath sample_directive ''srcs/a''"
  unfolding CanMutatePath_by_components by code_simp

text \<open>
  C3: no replayed effects. A call whose effect the journal knows as applied, or as pending
  without a retry policy, does not reach the executor: the result of the queue does not
  depend on what the executor would do with it.
\<close>

theorem journal_blocks_replay:
  assumes "r_Journal r = Some j" "journal_ok j"
    and "\<forall>w tc. \<not> fx_refuses j (''fx-'' @ tc_ID tc) \<longrightarrow> ex w tc = te_Execute te w tc"
  shows "exec_loop svc (te\<lparr>te_Execute := ex\<rparr>) tcs r = exec_loop svc te tcs r"
  by (rule journal_independent[where ?j0.0 = j]) (use assms in \<open>auto simp: journal_keeps_def\<close>)

definition sample_journal :: fx_file where
  "sample_journal = FxStored [(effect_of sample_svc sample_te ''fx-c1'' (sample_call ''c1'' ''edit.create'' ''src/a''))
     \<lparr>fx_Status := Some EffectApplied\<rparr>]"

theorem journal_blocks_replay_witness:
  "let done = sample_call ''c1'' ''edit.create'' ''src/a'';
       ex = (\<lambda>w tc. if tc = done then ((sample_result\<lparr>tr_ExitCode := 7\<rparr>, None), w + 100)
                     else te_Execute sample_te w tc);
       r = sample_runner\<lparr>r_Journal := Some sample_journal\<rparr>
   in exec_loop sample_svc (sample_te\<lparr>te_Execute := ex\<rparr>) [done] r = exec_loop sample_svc sample_te [done] r"
proof -
  have "view sample_journal ''fx-c1'' = Some ((effect_of sample_svc sample_te ''fx-c1'' (sample_call ''c1'' ''edit.create'' ''src/a''))
     \<lparr>fx_Status := Some EffectApplied\<rparr>)"
    by (simp add: view_def sample_journal_def)
  then have "fx_refuses sample_journal ''fx-c1''" by (simp add: fx_refuses_def)
  moreover have "journal_ok sample_journal" by (simp add: journal_ok_def sample_journal_def)
  ultimately show ?thesis unfolding Let_def
    by (intro journal_blocks_replay[where j = sample_journal]) (auto simp: sample_call_def)
qed

text \<open>
  C4: the journal as its client sees it. Whatever the sequence of attempts, whichever of them
  crash between the effect and its record and whichever writes of the journal fail, an effect
  is recorded as successful at most once.
\<close>

theorem effect_succeeds_at_most_once:
  assumes "journal_ok j" "\<forall>a\<in>set as. known_status (fx_Status (fst a))"
  shows "length (filter (\<lambda>p. p = (i, Succeeded))
    (attempts (\<lambda>x. RecordIntent (fst x) (snd x)) (\<lambda>x. RecordOutcome (fst x)) j as)) \<le> 1"
  using assms by (rule fxj.at_most_one_success)

definition sample_effect :: PendingEffect where
  "sample_effect = effect_of sample_svc sample_te ''fx-c1'' (sample_call ''c1'' ''edit.create'' ''src/a'')"

theorem effect_succeeds_at_most_once_witness:
  "length (filter (\<lambda>p. p = (''fx-c1'', Succeeded))
    (attempts (\<lambda>x. RecordIntent (fst x) (snd x)) (\<lambda>x. RecordOutcome (fst x)) FxAbsent
     [(sample_effect, Succeeded, (RenameFails, ''t1''), (WriteOk, ''t1'')),
      (sample_effect, Succeeded, (WriteOk, ''t2''), (WriteOk, ''t2'')),
      (sample_effect, Succeeded, (WriteOk, ''t3''), (WriteOk, ''t3''))])) \<le> 1"
  by (rule effect_succeeds_at_most_once)
    (auto simp: journal_ok_def known_status_def sample_effect_def)

text \<open>
  the effect of a tool that is not safe to repeat (no retry policy) starts at most once,
  as long as none of its runs is recorded as failed.
\<close>

theorem effect_starts_at_most_once:
  assumes "journal_ok j" "\<forall>a\<in>set as. known_status (fx_Status (fst a))" "view j i = None"
    and "\<forall>a\<in>set as. fx_ID (fst a) = i \<longrightarrow> fx_Status (fst a) \<in> {None, Some EffectPending}
       \<and> (fx_RecoveryPolicy (fst a) = [] \<or> recoveryPolicy (fst a) \<noteq> ''retry'')"
    and "(i, DidNotTake) \<notin> set (attempts (\<lambda>x. RecordIntent (fst x) (snd x)) (\<lambda>x. RecordOutcome (fst x)) j as)"
  shows "length (filter (\<lambda>p. fst p = i)
    (attempts (\<lambda>x. RecordIntent (fst x) (snd x)) (\<lambda>x. RecordOutcome (fst x)) j as)) \<le> 1"
  using assms by (rule fxj.at_most_one_run)

theorem effect_starts_at_most_once_witness:
  "length (filter (\<lambda>p. fst p = ''fx-c1'')
    (attempts (\<lambda>x. RecordIntent (fst x) (snd x)) (\<lambda>x. RecordOutcome (fst x)) FxAbsent
     [(sample_effect, Crashed, (WriteOk, ''t''), (WriteOk, ''t'')),
      (sample_effect, Succeeded, (WriteOk, ''t''), (RenameFails, ''t''))])) \<le> 1"
  (is "length (filter _ (attempts _ _ _ ?as)) \<le> 1")
proof (rule effect_starts_at_most_once)
  have p: "recoveryPolicy sample_effect = ''skip''" by code_simp
  then show "\<forall>a\<in>set ?as. fx_ID (fst a) = ''fx-c1'' \<longrightarrow> fx_Status (fst a) \<in> {None, Some EffectPending}
       \<and> (fx_RecoveryPolicy (fst a) = [] \<or> recoveryPolicy (fst a) \<noteq> ''retry'')"
    by (simp add: sample_effect_def)
  show "(''fx-c1'', DidNotTake) \<notin> set (attempts (\<lambda>x. RecordIntent (fst x) (snd x)) (\<lambda>x. RecordOutcome (fst x)) FxAbsent ?as)"
    by (auto simp del: attempts.simps dest: attempts_ends)
qed (auto simp: journal_ok_def known_status_def sample_effect_def view_def)

text \<open>
  C6: permission before execution. When \<open>Step\<close> takes a run into \<open>ExecuteTool\<close>, every queued
  call has a logged decision for exactly its content that is neither a denial nor an open
  question.
\<close>

theorem execution_needs_decision:
  assumes "Step svc r = (r', err)" "phase_of r' = PhaseExecuteTool" "phase_of r \<noteq> PhaseExecuteTool"
    and "r_Perms r = Some e" "engine_ok e"
  shows "phase_of r = PhasePermissionCheck \<and> (\<exists>e'. r_Perms r' = Some e' \<and> engine_ok e' \<and>
       (\<forall>tc\<in>set (r_ToolQ r). \<exists>res. decided svc (r_State r) e' tc res))"
  using assms by (rule Step_execute)

definition waiting_runner :: "ToolCall list \<Rightarrow> int Runner" where
  "waiting_runner q = set_phase PhasePermissionCheck (sample_runner\<lparr>r_ToolQ := q\<rparr>)"

theorem execution_needs_decision_witness:
  "let r = waiting_runner [sample_call ''c1'' ''fs.read'' ''src/a''] in
   phase_of (fst (Step sample_svc r)) = PhaseExecuteTool \<and>
   (\<exists>e'. r_Perms (fst (Step sample_svc r)) = Some e' \<and>
      (\<forall>tc\<in>set (r_ToolQ r). \<exists>res. decided sample_svc (r_State r) e' tc res))"
proof -
  let ?r = "waiting_runner [sample_call ''c1'' ''fs.read'' ''src/a'']"
  let ?e = "engine_new \<lparr>po_DefaultAction = None, po_DenyPrefixes = [], po_AskKinds = [], po_AllowActions = [''fs.read'']\<rparr>"
  have x: "phase_of (fst (Step sample_svc ?r)) = PhaseExecuteTool"
    by (simp add: waiting_runner_def sample_runner_def NewRunner_def Step_def step_phase_def step_permission_def
        sample_svc_def sample_te_def sample_call_def kind_of_def Evaluate_def engine_new_def policy_decision_def
        allow_pass_def deny_pass_def ask_pass_def destructive_pass_def permissionRequestFor_def Let_def)
  obtain r' err where s: "Step sample_svc ?r = (r', err)" by fastforce
  have "r_Perms ?r = Some ?e" "phase_of ?r = PhasePermissionCheck"
    by (simp_all add: waiting_runner_def sample_runner_def NewRunner_def)
  with execution_needs_decision[OF s] x s engine_ok_new show ?thesis by (auto simp: Let_def)
qed

section \<open>Answering a permission request\<close>

definition asking_runner :: "int Runner" where
  "asking_runner = set_phase PhaseYield (sample_runner\<lparr>r_Store := None, r_State := (r_State sample_runner)
     \<lparr>st_PendingPerms := [''perm-c1''], st_PendingTools := [sample_call ''c1'' ''edit.create'' ''src/a'']\<rparr>\<rparr>)"

lemma asking_accepts:
  "\<exists>r'. ResolvePermission sample_svc ''perm-c1''
     (call_fingerprint sample_svc (r_State asking_runner) (sample_call ''c1'' ''edit.create'' ''src/a'')) allow ''ana'' reason
     asking_runner = (r', None)"
proof -
  let ?c = "sample_call ''c1'' ''edit.create'' ''src/a''"
  have f: "call_fingerprint sample_svc st ?c \<noteq> []" for st
    by (simp add: call_fingerprint_def Fingerprint_def sample_svc_def)
  have p: "st_PendingTools (r_State asking_runner) = [?c]" "st_PendingPerms (r_State asking_runner) = [''perm-c1'']"
    "phase_of asking_runner = PhaseYield" "r_Perms asking_runner \<noteq> None" "r_Store asking_runner = None"
    by (simp_all add: asking_runner_def sample_runner_def NewRunner_def)
  then have "pendingFingerprint sample_svc asking_runner ''perm-c1'' = call_fingerprint sample_svc (r_State asking_runner) ?c"
    by (simp add: pendingFingerprint_def sample_call_def)
  with f p show ?thesis
    by (auto simp: ResolvePermission_def Approve_def Deny_def engine_record_def Let_def persist_def split: option.splits)
qed

text \<open>
  C7: an answer is bound to the call it was asked about. A run that is not waiting, an id
  that is not pending, a missing fingerprint and a fingerprint of another call are refused
  and leave the run as it was; an accepted answer quoted the pending call's fingerprint,
  is recorded for that fingerprint, and sends the run back to the permission check.
\<close>

theorem answer_is_bound_to_the_call:
  "(phase_of r \<noteq> PhaseYield \<or> i \<notin> set (st_PendingPerms (r_State r)) \<or> f = [] \<or> f \<noteq> pendingFingerprint svc r i \<longrightarrow>
      (\<exists>err. ResolvePermission svc i f allow actor reason r = (r, Some err))) \<and>
   (ResolvePermission svc i f allow actor reason r = (r', None) \<longrightarrow>
      f = pendingFingerprint svc r i \<and> phase_of r' = PhasePermissionCheck \<and> st_PendingPerms (r_State r') = [] \<and>
      (\<exists>e res. r_Perms r' = Some e \<and> Resolution e i f = Some res \<and> pr_Fingerprint res = f \<and>
         pr_Decision res = (if allow then PermissionAllow else PermissionDeny) \<and> pr_Actor res = actor))"
  using Resolve_refused[of r i f svc allow actor reason] Resolve_accepted[of svc i f allow actor reason r r'] by blast

theorem answer_is_bound_to_the_call_witness:
  "\<exists>r'. ResolvePermission sample_svc ''perm-c1'' (pendingFingerprint sample_svc asking_runner ''perm-c1'') False ''ana'' ''no''
     asking_runner = (r', None) \<and> phase_of r' = PhasePermissionCheck \<and>
   (\<exists>err. ResolvePermission sample_svc ''perm-c2'' ''f'' True ''ana'' [] asking_runner = (asking_runner, Some err))"
proof -
  let ?f = "call_fingerprint sample_svc (r_State asking_runner) (sample_call ''c1'' ''edit.create'' ''src/a'')"
  obtain r' where r: "ResolvePermission sample_svc ''perm-c1'' ?f False ''ana'' ''no'' asking_runner = (r', None)"
    using asking_accepts by blast
  have "''perm-c2'' \<notin> set (st_PendingPerms (r_State asking_runner))" by (simp add: asking_runner_def)
  with answer_is_bound_to_the_call[of asking_runner "''perm-c2''" "''f''" sample_svc True "''ana''" "[]"]
    answer_is_bound_to_the_call[of asking_runner "''perm-c1''" ?f sample_svc False "''ana''" "''no''" r'] r
  show ?thesis by metis
qed

text \<open>
  What the answer does. After an accepted answer about a call, the permission check does
  not ask again: an approved call is passed over, a rejected one fails the run.
\<close>

theorem answered_call_is_not_asked_again:
  assumes "ResolvePermission svc (''perm-'' @ tc_ID tc) f allow actor reason r = (r', None)"
    and "find (\<lambda>c. tc_ID c = tc_ID tc) (st_PendingTools (r_State r)) = Some tc"
  shows "if allow then perm_loop svc (tc # tcs) r' = perm_loop svc tcs r'
         else phase_of (fst (perm_loop svc (tc # tcs) r')) = PhaseFailed"
  using assms by (rule answer_decides)

theorem answered_call_is_not_asked_again_witness:
  "\<exists>r'. perm_loop sample_svc [sample_call ''c1'' ''edit.create'' ''src/a''] r' = perm_loop sample_svc [] r'"
proof -
  let ?c = "sample_call ''c1'' ''edit.create'' ''src/a''"
  have i: "tc_ID ?c = ''c1''" by (simp add: sample_call_def)
  have "find (\<lambda>c. tc_ID c = tc_ID ?c) (st_PendingTools (r_State asking_runner)) = Some ?c"
    by (simp add: asking_runner_def)
  moreover obtain r' where "ResolvePermission sample_svc ''perm-c1''
      (call_fingerprint sample_svc (r_State asking_runner) ?c) True ''ana'' [] asking_runner = (r', None)"
    using asking_accepts by blast
  ultimately show ?thesis
    using answered_call_is_not_asked_again[of sample_svc ?c _ True "''ana''" "[]" asking_runner r' "[]"] i by auto
qed

text \<open>
  The policy in closed form. Without an earlier answer for the request, a denied resource
  is denied whatever else is configured; an action on the allow list is allowed unless its
  kind asks; and a destructive call that is not on the list is never allowed unasked.
\<close>

theorem policy_decides_by_table:
  assumes "en_resolutions e (pq_ID req) = None"
  shows "pr_Decision (snd (Evaluate hash t e req kind actor)) =
    (if \<exists>x\<in>set (po_DenyPrefixes (en_Policy e)). x \<noteq> [] \<and> contains_str (pq_Resource req) x then PermissionDeny
     else let listed = pq_Action req \<in> set (po_AllowActions (en_Policy e));
              d = (if listed then PermissionAllow
                   else case po_DefaultAction (en_Policy e) of None \<Rightarrow> PermissionOther [] | Some d \<Rightarrow> d)
          in if d = PermissionAllow \<and> (kind \<in> set (po_AskKinds (en_Policy e)) \<or> kind = ''destructive'' \<and> \<not> listed)
             then PermissionAsk else d)"
proof -
  have "pr_Decision (snd (Evaluate hash t e req kind actor)) = fst (policy_decision (en_Policy e) req kind)"
    using assms by (simp add: Evaluate_def Let_def split: prod.split)
  then show ?thesis by (simp add: policy_decision_table decision_table_def deny_hit_def Let_def)
qed

definition sample_request :: PermissionRequest where
  "sample_request = permissionRequestFor (\<lambda>q. ''n'') (r_State sample_runner) (sample_call ''c1'' ''fs.delete'' ''src/a'')"

theorem policy_decides_by_table_witness:
  "let e = engine_new \<lparr>po_DefaultAction = Some PermissionAllow, po_DenyPrefixes = [''secret''], po_AskKinds = [],
       po_AllowActions = []\<rparr>
   in pr_Decision (snd (Evaluate (\<lambda>s. s) ''t'' e sample_request ''destructive'' ''policy'')) = PermissionAsk
    \<and> pr_Decision (snd (Evaluate (\<lambda>s. s) ''t'' e sample_request ''read-only'' ''policy'')) = PermissionAllow"
proof -
  let ?e = "engine_new \<lparr>po_DefaultAction = Some PermissionAllow, po_DenyPrefixes = [''secret''], po_AskKinds = [],
       po_AllowActions = []\<rparr>"
  have "en_resolutions ?e (pq_ID sample_request) = None" by (simp add: engine_new_def)
  moreover have "\<not> contains_str (pq_Resource sample_request) ''secret''" by code_simp
  ultimately show ?thesis by (simp add: policy_decides_by_table engine_new_def)
qed

section \<open>The loop, the gate and the budget\<close>

text \<open>
  C10: the loop guard is not what stops a run. With at most 142 turns, \<open>RunUntilDone\<close> ends
  in a terminal or waiting phase or with the error of a step it took, and a larger guard
  would change nothing.
\<close>

theorem run_ends_before_the_guard:
  assumes "0 \<le> r_TurnsDone r" "r_MaxTurns r \<le> 142" "RunUntilDone svc r = (r', err)"
  shows "(halted r' \<or> (\<exists>q e. reaches svc r q \<and> Step svc q = (r', Some e) \<and> err = Some e)) \<and>
    (\<forall>n\<ge>1000. run_loop n svc r = (r', err))"
proof -
  note l = steps_left_bound[OF assms(1,2)]
  show ?thesis using run_loop_ends[OF l, of svc r' err] run_loop_enough[OF l, of _ svc] l assms(3)
    by (metis RunUntilDone_def order_less_le_trans)
qed

theorem run_ends_before_the_guard_witness:
  "run_loop 5000 sample_svc sample_runner = RunUntilDone sample_svc sample_runner"
proof -
  obtain r' err where u: "RunUntilDone sample_svc sample_runner = (r', err)" by fastforce
  have "0 \<le> r_TurnsDone sample_runner" "r_MaxTurns sample_runner \<le> 142"
    by (simp_all add: sample_runner_def NewRunner_def)
  with run_ends_before_the_guard[OF _ _ u] u show ?thesis by simp
qed

text \<open>
  C11: no completion without verification. When the quality gate never passes, no run that
  is not already complete or about to be checkpointed completes, whatever the model says.
\<close>

theorem unverified_run_never_completes:
  assumes "sv_QualityGate svc = Some gate" "\<And>w. fst (gate w) \<noteq> None"
    and "phase_of r \<noteq> PhaseComplete" "phase_of r \<noteq> PhaseCheckpoint"
  shows "phase_of (fst (RunUntilDone svc r)) \<noteq> PhaseComplete"
proof -
  have "gate_never_passes svc" "incomplete r"
    using assms by (auto simp: gate_never_passes_def incomplete_def)
  from gate_run[OF this, of 1000] show ?thesis by (simp add: RunUntilDone_def incomplete_def)
qed

theorem unverified_run_never_completes_witness:
  "phase_of (fst (RunUntilDone sample_svc sample_runner)) \<noteq> PhaseComplete"
  by (rule unverified_run_never_completes[where gate = "\<lambda>w. (Some ''no test'', w)"])
    (simp_all add: sample_svc_def)

text \<open>
  C12: no reservation is lost. A counter of the world that a granted reservation raises by
  one, its release lowers by one and nothing else in a model request touches has after
  the request the value it had before, whichever way the request ends.
\<close>

theorem request_returns_its_reservation:
  assumes "counts_holds svc open_holds"
  shows "open_holds (r_world (fst (step_request svc r))) = open_holds (r_world r)"
  using assms by (rule request_settles)

theorem request_returns_its_reservation_witness:
  "r_world (fst (step_request sample_svc sample_runner)) = r_world sample_runner"
  by (rule request_returns_its_reservation[where open_holds = "\<lambda>w. w"]) (auto simp: counts_holds_def sample_svc_def)

text \<open>
  The budget is asked before the model. Once it is exhausted the request fails the run
  with that reason and the world is the one before it: neither the provider nor the
  reservation was called.
\<close>

theorem exhausted_budget_stops_the_request:
  assumes "sv_BudgetExhausted svc = Some f" "f (r_world r) = Some e"
    "ResolveReferences (sv_files svc (r_world r)) (r_Messages (maybeCompact svc r)) (sv_Workspace svc) (sv_HasVision svc) = Inr ms"
    "step_request svc r = (r', en)"
  shows "en = Return (Some (RunError e)) \<and> phase_of r' = PhaseFailed \<and> r_world r' = r_world r \<and>
     st_StopReason (r_State r') = ''budget exhausted: '' @ e"
  using assms by (rule request_exhausted)

theorem exhausted_budget_stops_the_request_witness:
  "phase_of (fst (step_request sample_svc sample_runner)) = PhaseFailed"
proof -
  obtain r' en where s: "step_request sample_svc sample_runner = (r', en)" by fastforce
  have "r_Messages (maybeCompact sample_svc sample_runner) = []"
    by (simp add: maybeCompact_def over_size_def sample_runner_def NewRunner_def)
  then have "ResolveReferences (sv_files sample_svc (r_world sample_runner)) (r_Messages (maybeCompact sample_svc sample_runner))
      (sv_Workspace sample_svc) (sv_HasVision sample_svc) = Inr []"
    by (simp add: ResolveReferences_def)
  from exhausted_budget_stops_the_request[OF _ _ this s, of "\<lambda>w. Some ''spent''" "''spent''"] s
  show ?thesis by (simp add: sample_svc_def)
qed



text \<open>
  The tool-call budget. The calls that reach the executor behind \<open>CountingTools\<close> are
  never more than the limit, and the tracker counts exactly them.
\<close>

theorem tool_calls_keep_the_limit:
  assumes "ct_tracker w = Some (NewTracker tokens usd L)" "ct_reports w = []" "0 < L" "L < 2 ^ 52"
  shows "\<exists>t. ct_tracker (execute_all (CountingTools btext base) w cs) = Some t \<and>
     getf (bv_Usage (tk_envelope t)) ''tool_calls'' = of_nat (length (ct_reports (execute_all (CountingTools btext base) w cs))) \<and>
     of_nat (length (ct_reports (execute_all (CountingTools btext base) w cs))) \<le> L"
proof -
  have "tools_counted L w" using assms by (simp add: tools_counted_def NewTracker_def bv_limit_def getf_def)
  from tools_counted_all[OF this assms(3,4), of btext base cs] show ?thesis by (auto simp: tools_counted_def)
qed

theorem tool_calls_keep_the_limit_witness:
  "of_nat (length (ct_reports (execute_all (CountingTools (\<lambda>e. ''over budget'') sample_te)
      \<lparr>ct_base = 0, ct_tracker = Some (NewTracker 0 0 2), ct_reports = []\<rparr> (replicate 5 (sample_call ''c'' ''fs.read'' ''a''))))) \<le> (2 :: rat)"
  using tool_calls_keep_the_limit[of "\<lparr>ct_base = 0, ct_tracker = Some (NewTracker 0 0 2), ct_reports = []\<rparr>" 0 0 2
      "\<lambda>e. ''over budget''" sample_te "replicate 5 (sample_call ''c'' ''fs.read'' ''a'')"] by auto

section \<open>The timeline, checkpoints and resuming\<close>

text \<open>
  Event ids. However steps, pauses, injected messages and answers interleave from a new
  runner on, the events of its timeline carry consecutive numbers, so no id occurs twice.
\<close>

theorem timeline_ids_are_unique:
  assumes "reaches svc (NewRunner svc perms store journal w runID ses) q"
  shows "distinct (map ae_ID (r_Timeline q)) \<and>
    map ae_ID (r_Timeline q) =
      map (\<lambda>n. ''ev-'' @ dec_nat n) [Suc (st_EventSeq (r_State q) - length (r_Timeline q))..<Suc (st_EventSeq (r_State q))]"
proof -
  have "timeline_ok q" by (rule tl.inv_reaches[OF assms timeline_ok_New])
  from this timeline_ok_distinct[OF this] show ?thesis by (simp add: timeline_ok_def ev_id_def comp_def)
qed

theorem timeline_ids_are_unique_witness:
  "distinct (map ae_ID (r_Timeline (fst (Pause sample_svc ''lunch''
     (fst (Step sample_svc (NewRunner sample_svc None None None 0 ''run-1'' ''s-1'')))))))"
  by (rule conjunct1[OF timeline_ids_are_unique[OF reaches_Pause[OF reaches_Step[OF reaches_start]]]])



text \<open>
  Compaction never touches the recent conversation: the last four messages, or fewer
  when fewer are kept, are the same after it.
\<close>

theorem compaction_keeps_recent_messages:
  assumes "k \<le> 4" "k \<le> (if r_CompactKeep r \<le> 0 then 10 else nat (r_CompactKeep r))" "k \<le> length (r_Messages r)"
  shows "drop (length (r_Messages (maybeCompact svc r)) - k) (r_Messages (maybeCompact svc r))
       = drop (length (r_Messages r) - k) (r_Messages r)"
  using assms by (intro maybeCompact_recent) (simp_all add: keep_count_def)

definition chatty_runner :: "int Runner" where
  "chatty_runner = sample_runner\<lparr>r_CompactKeep := 2,
     r_Messages := map (\<lambda>i. blank_message\<lparr>ms_ID := dec_nat i, ms_Role := RoleUser\<rparr>) [0..<6]\<rparr>"

theorem compaction_keeps_recent_messages_witness:
  "drop (length (r_Messages (maybeCompact sample_svc chatty_runner)) - 2) (r_Messages (maybeCompact sample_svc chatty_runner))
   = map (\<lambda>i. blank_message\<lparr>ms_ID := dec_nat i, ms_Role := RoleUser\<rparr>) [4, 5]"
proof -
  have "drop 4 [0..<6] = [4, 5 :: nat]" by simp
  then show ?thesis
    using compaction_keeps_recent_messages[of 2 chatty_runner sample_svc] by (simp add: chatty_runner_def drop_map)
qed

section \<open>The checkpoint store\<close>

definition sample_cp :: "string \<Rightarrow> string \<Rightarrow> string \<Rightarrow> Checkpoint" where
  "sample_cp i run created = (snapshot sample_svc sample_runner)\<lparr>cp_ID := i, cp_RunID := run, cp_CreatedAt := created\<rparr>"

definition sample_dir :: dir where
  "sample_dir = [(''checkpoint-a.json'', CheckpointFile (sample_cp ''a'' ''r1'' ''2026-01-01'')),
     (''checkpoint-b.json'', CheckpointFile (sample_cp ''b'' ''r1'' ''2026-01-03'')),
     (''checkpoint-c.json'', CheckpointFile (sample_cp ''c'' ''r1'' ''2026-01-02'')),
     (''events-r1.jsonl'', OtherFile), (''events-r9.jsonl'', OtherFile)]"

lemma sample_json:
  "json_checkpoints sample_dir = [(''checkpoint-a.json'', sample_cp ''a'' ''r1'' ''2026-01-01''),
     (''checkpoint-b.json'', sample_cp ''b'' ''r1'' ''2026-01-03''), (''checkpoint-c.json'', sample_cp ''c'' ''r1'' ''2026-01-02'')]"
proof -
  have "is_checkpoint_json ''checkpoint-a.json'' \<and> is_checkpoint_json ''checkpoint-b.json'' \<and> is_checkpoint_json ''checkpoint-c.json''"
    by code_simp
  then show ?thesis by (simp add: sample_dir_def)
qed

lemma sample_dir_ok: "dir_ok sample_dir" "run_order sample_dir [''r1'']"
  by (simp add: dir_ok_def sample_dir_def) (simp add: run_order_def sample_json sample_cp_def)

text \<open>
  pruning. When the removals succeed, every run keeps exactly its newest \<open>keep\<close>
  checkpoints (at least one), and no removed one is newer than one that stays.
\<close>

theorem prune_keeps_the_newest:
  assumes "dir_ok d" "run_order d ord" "\<And>n. rm n"
  shows "length (by_run (snd (Prune rm ord keep d)) r) = min (length (by_run d r)) (nat (max 1 keep)) \<and>
    (\<forall>(n, c) \<in> set (by_run d r). (n, c) \<notin> set (by_run (snd (Prune rm ord keep d)) r) \<longrightarrow>
       (\<forall>(n', c') \<in> set (by_run (snd (Prune rm ord keep d)) r). cp_CreatedAt c \<le> cp_CreatedAt c'))"
  using Prune_keeps(2)[OF assms(1,2), of rm keep r] Prune_older[OF assms(1,2), of rm] assms(3) by blast

theorem prune_keeps_the_newest_witness:
  "length (by_run (snd (Prune (\<lambda>n. True) [''r1''] 2 sample_dir)) ''r1'') = 2"
proof -
  have "length (by_run sample_dir ''r1'') = 3" by (simp add: by_run_def sample_json sample_cp_def)
  with prune_keeps_the_newest[OF sample_dir_ok, of "\<lambda>n. True" 2 "''r1''"] show ?thesis by simp
qed

text \<open>
  garbage collection. An artifact of a run that owns a checkpoint survives, whatever the
  policy, its age and the number of checkpoints pruned.
\<close>

theorem gc_spares_live_runs:
  assumes "dir_ok d" "run_order d ord" "(n, f) \<in> set d" "artifactRunID n = Some r"
    "r \<noteq> []" "(m, cp) \<in> set (json_checkpoints d)" "cp_RunID cp = r"
  shows "(n, f) \<in> set (snd (GC rm old ord policy d))"
proof (rule GC_artifact_safe[OF assms(1-4)])
  show "r \<in> live_runs d" using assms(5-7) by (force simp: live_runs_def)
qed

theorem gc_spares_live_runs_witness:
  "(''events-r1.jsonl'', OtherFile) \<in> set (snd (GC (\<lambda>n. True) (\<lambda>a n. True) [''r1''] DefaultRetention sample_dir))"
proof (rule gc_spares_live_runs[OF sample_dir_ok])
  show "artifactRunID ''events-r1.jsonl'' = Some ''r1''" by code_simp
  show "(''checkpoint-a.json'', sample_cp ''a'' ''r1'' ''2026-01-01'') \<in> set (json_checkpoints sample_dir)"
    by (simp add: sample_json)
qed (simp_all add: sample_dir_def sample_cp_def)

section \<open>Paths and files\<close>

text \<open>
  C21: the containment boundary. A path \<open>Resolve\<close> accepts, symbolic links followed, lies on
  or beneath the resolved root, component by component.
\<close>

theorem resolved_path_is_inside:
  assumes "Resolve os rt p mustExist = Inr q" "is_abs (resolved_root os rt)" "is_abs q"
  shows "prefix (clean_comps (resolved_root os rt)) (clean_comps q)"
  using Resolve_contains[OF assms(1)] contains_abs[OF assms(2,3)] by simp

definition linked_os :: os where
  "linked_os = \<lparr>os_cwd = ''/'', os_lstat = (\<lambda>p. Entry),
     os_eval = (\<lambda>p. Inr (if p = ''/w/out'' then ''/etc/passwd'' else if p = ''/w'' then ''/data/w'' else p))\<rparr>"

theorem resolved_path_is_inside_witness:
  "Resolve linked_os ''/w'' ''src/../lib/a.go'' True = Inr ''/data/w/lib/a.go'' \<and>
   prefix (clean_comps ''/data/w'') (clean_comps ''/data/w/lib/a.go'')"
proof -
  have r: "Resolve linked_os ''/w'' ''src/../lib/a.go'' True = Inr ''/data/w/lib/a.go''" "resolved_root linked_os ''/w'' = ''/data/w''"
    by code_simp+
  with resolved_path_is_inside[OF r(1)] show ?thesis by (simp add: is_abs_def has_prefix_def)
qed

text \<open>
  image references stay in the workspace. What \<open>ResolveReferences\<close> returns, errors
  included, does not depend on the content of any file outside the resolved workspace root.
\<close>

theorem image_references_read_inside:
  assumes "ws \<noteq> []" "\<forall>p. contains (resolved_root (fs_os fs) ws) p \<longrightarrow> rd p = fs_read fs p"
  shows "ResolveReferences (fs\<lparr>fs_read := rd\<rparr>) msgs ws hasVision = ResolveReferences fs msgs ws hasVision"
  using resolve_all_reads[OF assms(2,1), of 0 hasVision msgs] by (simp add: ResolveReferences_def MaxAggregateImageSize_def)

theorem image_references_read_inside_witness:
  "let fs = \<lparr>fs_os = linked_os, fs_stat = (\<lambda>p. StatFile 3), fs_read = (\<lambda>p. Inr ''abc'')\<rparr> in
   ResolveReferences (fs\<lparr>fs_read := (\<lambda>p. if p = ''/etc/a.png'' then Inr ''secret'' else Inr ''abc'')\<rparr>) [blank_message] ''/w'' True
     = ResolveReferences fs [blank_message] ''/w'' True"
proof -
  have "\<not> contains (resolved_root linked_os ''/w'') ''/etc/a.png''" by code_simp
  then show ?thesis unfolding Let_def by (intro image_references_read_inside) auto
qed

text \<open>
  Image references lose nothing. Each message comes back with at most its parts changed,
  and then the parts spell out its content: text as it stands, an image as its reference.
\<close>

theorem image_parts_spell_the_message:
  assumes "ResolveReferences fs msgs ws hasVision = Inr out" "i < length msgs"
  shows "length out = length msgs \<and> out ! i = (msgs ! i)\<lparr>ms_Parts := ms_Parts (out ! i)\<rparr> \<and>
    (out ! i = msgs ! i \<or>
     concat (map (\<lambda>p. if pt_Type p = ''image'' then CHR ''@'' # pt_Path p else pt_Text p) (ms_Parts (out ! i)))
       = ms_Content (msgs ! i))"
proof -
  obtain tot where "resolve_all fs ws hasVision 0 msgs = Inr (out, tot)"
    using assms(1) by (auto simp: ResolveReferences_def split: sum.splits prod.splits)
  from resolve_all_messages[OF this] assms(2) show ?thesis
    unfolding parts_text_def by (auto simp: list_all2_conv_all_nth)
qed

theorem image_parts_spell_the_message_witness:
  "\<exists>out. ResolveReferences \<lparr>fs_os = linked_os, fs_stat = (\<lambda>p. StatFile 3), fs_read = (\<lambda>p. Inr ''abc'')\<rparr>
     [blank_message\<lparr>ms_Role := RoleUser, ms_Content := ''@a.png now''\<rparr>] [] True = Inr out \<and>
   ms_Parts (out ! 0) \<noteq> [] \<and>
   concat (map (\<lambda>p. if pt_Type p = ''image'' then CHR ''@'' # pt_Path p else pt_Text p) (ms_Parts (out ! 0))) = ''@a.png now''"
proof -
  let ?fs = "\<lparr>fs_os = linked_os, fs_stat = (\<lambda>p. StatFile 3), fs_read = (\<lambda>p. Inr ''abc'')\<rparr>"
  let ?m = "blank_message\<lparr>ms_Role := RoleUser, ms_Content := ''@a.png now''\<rparr>"
  have f: "find_refs 0 ''@a.png now'' = [(0, 6)]" "slice ''@a.png now'' (Suc 0) 6 = ''a.png''" "IsImageReference ''a.png''"
    by code_simp+
  have "\<exists>ps. ResolveReferences ?fs [?m] [] True = Inr [?m\<lparr>ms_Parts := ps\<rparr>] \<and> ps \<noteq> []"
    by (simp add: ResolveReferences_def resolve_message_def f blank_message_def ref_target_def
        MaxImageSize_def MaxAggregateImageSize_def Let_def del: find_refs.simps)
  then obtain ps where r: "ResolveReferences ?fs [?m] [] True = Inr [?m\<lparr>ms_Parts := ps\<rparr>]" "ps \<noteq> []" by blast
  then have "[?m\<lparr>ms_Parts := ps\<rparr>] ! 0 \<noteq> ?m" by (auto simp: blank_message_def)
  with image_parts_spell_the_message[OF r(1), of 0] r show ?thesis by auto
qed

section \<open>Around the run\<close>

text \<open>
  the permission trail. A resumed run that loads what \<open>SavePermissions\<close> wrote has the
  decisions of the engine that wrote it, in the same order, under its own policy. The
  encoding is a parameter: it decodes what it encoded and its lines carry no outer blanks.
\<close>

theorem permission_trail_roundtrip:
  assumes "\<forall>r\<in>set (en_Log e). dec (enc r) = Some r \<and> trim_space (enc r) = enc r \<and> enc r \<noteq> []"
    and "\<forall>r\<in>set (en_Log e). pr_RequestID r \<noteq> [] \<and> pr_Fingerprint r \<noteq> []" "engine_ok e"
  shows "LoadPermissions dec (SavePermissions enc e) (engine_new p) = e\<lparr>en_Policy := en_Policy (engine_new p)\<rparr>"
  using assms by (intro Load_Save) (simp_all add: usable_def)

definition sample_resolution :: PermissionResolution where
  "sample_resolution = \<lparr>pr_RequestID = ''perm-c1'', pr_Decision = PermissionAllow, pr_Reason = [], pr_Scope = ''once'',
     pr_Constraints = [], pr_Actor = ''ana'', pr_DecidedAt = ''t'', pr_Fingerprint = ''f''\<rparr>"

definition sample_engine :: Engine where
  "sample_engine = remember (engine_new \<lparr>po_DefaultAction = None, po_DenyPrefixes = [], po_AskKinds = [], po_AllowActions = []\<rparr>)
     sample_resolution"

theorem permission_trail_roundtrip_witness:
  "en_Log (LoadPermissions (\<lambda>s. if s = ''x'' then Some sample_resolution else None)
     (SavePermissions (\<lambda>r. ''x'') sample_engine) (engine_new (en_Policy sample_engine))) = [sample_resolution]"
proof -
  have "trim_space ''x'' = ''x''" by code_simp
  moreover have l: "en_Log sample_engine = [sample_resolution]" by (simp add: sample_engine_def engine_new_def)
  moreover have "engine_ok sample_engine" by (simp add: sample_engine_def engine_ok_remember engine_ok_new)
  ultimately show ?thesis
    by (subst permission_trail_roundtrip) (simp_all add: sample_resolution_def)
qed

text \<open>
  the review reserve. A consumption accepted outside the review phase leaves the observed
  cost at or below the hard limit less the reserve.
\<close>

theorem review_reserve_is_kept:
  assumes "RecordConsumption m i False a b c = (m', cost, None)" "mg_envelopes m i = Some env"
    and "0 < he_ReviewReserveCents env" "he_ReviewReserveCents env < he_HardLimitCents env" "he_HardLimitCents env < 2 ^ 53"
  shows "\<exists>env'. mg_envelopes m' i = Some env' \<and>
     he_ObservedCostCents env' \<le> of_int (he_HardLimitCents env - he_ReviewReserveCents env)"
  using assms by (rule RecordConsumption_reserve)

definition sample_manager :: Manager where
  "sample_manager = SetEnvelope (NewManager \<lparr>pg_InputTokenCentsPer1k = 30, pg_OutputTokenCentsPer1k = 0, pg_ToolCallCents = 0,
     pg_Currency = ''BRL''\<rparr>) ''g'' ''goal'' [] 100 80 20"

theorem review_reserve_is_kept_witness:
  "\<exists>m' env'. RecordConsumption sample_manager ''g'' False 2000 0 0 = (m', 60, None) \<and>
     mg_envelopes m' ''g'' = Some env' \<and> he_ObservedCostCents env' \<le> 80"
proof -
  have f: "f64 0 = 0" "f64 2 = 2" "f64 60 = 60" "f64 80 = 80" "f64 100 = 100" "f64 2000 = 2000"
    using f64_int[of 0] f64_int[of 2] f64_int[of 60] f64_int[of 80] f64_int[of 100] f64_int[of 2000] by simp_all
  then have "\<exists>m'. RecordConsumption sample_manager ''g'' False 2000 0 0 = (m', 60, None)"
    by (simp add: RecordConsumption_def consumption_cost_def sample_manager_def SetEnvelope_def NewManager_def
        fadd_def fmul_def fdiv_def Let_def)
  then obtain m' where r: "RecordConsumption sample_manager ''g'' False 2000 0 0 = (m', 60, None)" by blast
  from review_reserve_is_kept[OF this] r show ?thesis
    by (auto simp: sample_manager_def SetEnvelope_def)
qed

text \<open>
  The completion gates. They let a run complete exactly if every policy has a name, is of
  a kind the code knows, and holds of the tool reports and the usage.
\<close>

theorem gates_pass_iff_policies_hold:
  assumes "\<forall>r\<in>set reports. tp_Name r \<noteq> []"
  shows "GatesQualityGate policies reports usage = None \<longleftrightarrow>
    (\<forall>p\<in>set policies. gp_Name p \<noteq> [] \<and>
       (gp_Kind p = ''require-test-pass'' \<and> (\<exists>r\<in>set reports. tp_Name r = ''test.run'' \<and> tp_ExitCode r = 0) \<or>
        gp_Kind p = ''forbid-tool-failure'' \<and> (\<forall>r\<in>set reports. tp_ExitCode r = 0) \<or>
        gp_Kind p = ''max-tool-calls'' \<and> of_nat (length reports) \<le> gp_Limit p \<or>
        gp_Kind p = ''max-tokens'' \<and> getf usage ''tokens'' \<le> gp_Limit p))"
  using evaluate_gate_pass[OF assms] by (simp add: GatesQualityGate_None)

theorem gates_pass_iff_policies_hold_witness:
  "GatesQualityGate [\<lparr>gp_Name = ''t'', gp_Kind = ''require-test-pass'', gp_Limit = 0\<rparr>]
     [\<lparr>tp_Name = ''test.run'', tp_ExitCode = 1\<rparr>, \<lparr>tp_Name = ''test.run'', tp_ExitCode = 0\<rparr>] Map.empty = None"
  by (subst gates_pass_iff_policies_hold) auto

end
